(* ===== verification/Prelude.thy ===== *)
theory Prelude
  imports Main "HOL-Library.Word" "HOL-Library.AList" "HOL-Library.Code_Target_Numeral"
begin

text \<open>
  Shared vocabulary of the development: the result type that makes every early return and every
  panic of the Rust code a value, the bit field operations of the \<open>bitvec\<close> crate the code uses on
  \<open>BF\<close> and \<open>BS\<close> (\<open>src/src/type_aliases.rs\<close>), hash maps as association lists whose order stands
  for the unspecified iteration order, and the lemmas on them that several components use.
\<close>

named_theorems bf_simps
named_theorems res_simps

type_synonym u32 = "32 word"
type_synonym u64 = "64 word"

text \<open>\<open>std::net::SocketAddr\<close>, the key by which peers are known (\<open>PeerHandle\<close>).\<close>

datatype ip_addr = V4 "32 word" | V6 "128 word"

type_synonym socket_addr = "ip_addr \<times> 16 word"
type_synonym peer_handle = socket_addr

subsection \<open>Results: errors and panics as values\<close>

text \<open>
  \<open>error\<close> has the variants of \<open>crate::Error\<close> (\<open>src/src/error.rs\<close>) that the modelled code returns,
  \<open>Bail\<close> for an \<open>anyhow\<close> error with its message (the prefix before the first formatted value),
  and \<open>Panic\<close> for a Rust panic: an index out of range, an \<open>unwrap\<close> of \<open>None\<close>, an arithmetic
  underflow. \<open>Diverges\<close> marks a loop that would not return.
\<close>

datatype error =
    Panic
  | Diverges
  | Bail string
  | ChunkTrackerEmpty
  | BugPeerNotFound
  | BugInvalidPeerState
  | PeerTaskDead
  | BugReadBufMakeContiguous nat nat
  | ReadBufFull nat
  | TorrentIsNotLive
  | FsFileIsNone
  | PeerDisconnected
  | WrongInfoHash
  | ConnectingToOurselves
  | SessionDestroyed
  | RateLimitInsufficientCapacity
  | WriteHandshake
  | ReadHandshake
  | WriteErr
  | ReadErr
  | Timeout string
  | PeerDisconnectedReadingHandshake
  | DeserializeHandshake
  | Deserialize
  | ProtoSerialize
  | ReadChunkErr
  | Disconnect
  | DisconnectWithSource
  | SemaphoreAcquireError

type_synonym 'a res = "error + 'a"

definition res_bind :: "'a res \<Rightarrow> ('a \<Rightarrow> 'b res) \<Rightarrow> 'b res" where
  "res_bind m f = (case m of Inl e \<Rightarrow> Inl e | Inr x \<Rightarrow> f x)"

definition ok_or :: "error \<Rightarrow> 'a option \<Rightarrow> 'a res" where
  "ok_or e x = (case x of None \<Rightarrow> Inl e | Some v \<Rightarrow> Inr v)"

lemma res_bind_simps [simp, res_simps]:
  "res_bind (Inl e) f = Inl e"
  "res_bind (Inr x) f = f x"
  by (simp_all add: res_bind_def)

lemma res_bind_eq_Inr [res_simps]:
  "res_bind m f = Inr y \<longleftrightarrow> (\<exists>x. m = Inr x \<and> f x = Inr y)"
  by (cases m) auto

lemma res_bind_eq_Inl [res_simps]:
  "res_bind m f = Inl e \<longleftrightarrow> m = Inl e \<or> (\<exists>x. m = Inr x \<and> f x = Inl e)"
  by (cases m) auto

lemma res_bind_cong [fundef_cong]:
  "m = m' \<Longrightarrow> (\<And>x. m' = Inr x \<Longrightarrow> f x = g x) \<Longrightarrow> res_bind m f = res_bind m' g"
  by (cases m') auto

lemma ok_or_simps [simp, res_simps]:
  "ok_or e None = Inl e"
  "ok_or e (Some v) = Inr v"
  by (simp_all add: ok_or_def)

lemma ok_or_eq_Inr [simp]: "ok_or e x = Inr v \<longleftrightarrow> x = Some v"
  by (cases x) auto

text \<open>A loop whose body may fail: the state is threaded, the first error stops it.\<close>

fun res_fold :: "('x \<Rightarrow> 's \<Rightarrow> 's res) \<Rightarrow> 'x list \<Rightarrow> 's \<Rightarrow> 's res" where
  "res_fold f [] s = Inr s"
| "res_fold f (x # xs) s = res_bind (f x s) (res_fold f xs)"

text \<open>A lazily filtered iterator whose predicate may panic, collected to the end.\<close>

fun res_filter :: "('x \<Rightarrow> bool res) \<Rightarrow> 'x list \<Rightarrow> 'x list res" where
  "res_filter p [] = Inr []"
| "res_filter p (x # xs) =
     res_bind (p x) (\<lambda>b. res_bind (res_filter p xs) (\<lambda>ys. Inr (if b then x # ys else ys)))"

lemma res_fold_invariant:
  assumes "res_fold f xs s = Inr s'" and "P s"
    and "\<And>x s s'. x \<in> set xs \<Longrightarrow> P s \<Longrightarrow> f x s = Inr s' \<Longrightarrow> P s'"
  shows "P s'"
  using assms
proof (induction xs arbitrary: s)
  case Nil
  then show ?case by simp
next
  case (Cons x xs)
  from Cons.prems(1) obtain s1 where s1: "f x s = Inr s1" "res_fold f xs s1 = Inr s'"
    by (auto simp: res_bind_eq_Inr)
  have "P s1" using Cons.prems(3) [OF _ Cons.prems(2) s1(1)] by simp
  with s1(2) show ?case using Cons.IH Cons.prems(3) by (metis list.set_intros(2))
qed

lemma res_fold_total:
  assumes "P s" and "\<And>x s. x \<in> set xs \<Longrightarrow> P s \<Longrightarrow> \<exists>s'. f x s = Inr s' \<and> P s'"
  shows "\<exists>s'. res_fold f xs s = Inr s' \<and> P s'"
  using assms
proof (induction xs arbitrary: s)
  case Nil
  then show ?case by simp
next
  case (Cons x xs)
  then obtain s1 where s1: "f x s = Inr s1" "P s1"
    by (metis list.set_intros(1))
  have "\<exists>s'. res_fold f xs s1 = Inr s' \<and> P s'"
    using Cons.IH s1(2) Cons.prems(2) by simp
  with s1(1) show ?case by simp
qed

lemma res_filter_total:
  assumes "\<And>x. x \<in> set xs \<Longrightarrow> p x = Inr (q x)"
  shows "res_filter p xs = Inr (filter q xs)"
  using assms by (induction xs) auto

lemma res_filter_sound:
  "res_filter p xs = Inr ys \<Longrightarrow> x \<in> set ys \<Longrightarrow> x \<in> set xs \<and> p x = Inr True"
  by (induction xs arbitrary: ys) (auto simp: res_bind_eq_Inr split: if_splits)

subsection \<open>Stateful operations that may fail\<close>

text \<open>
  An operation on a state returns a result and the state after it, also when it fails.
\<close>

type_synonym ('st, 'a) sm = "'st \<Rightarrow> 'a res \<times> 'st"

definition sm_ret :: "'a \<Rightarrow> ('st, 'a) sm" where
  "sm_ret x s = (Inr x, s)"

definition sm_res :: "'a res \<Rightarrow> ('st, 'a) sm" where
  "sm_res r s = (r, s)"

definition sm_gets :: "('st \<Rightarrow> 'a) \<Rightarrow> ('st, 'a) sm" where
  "sm_gets g s = (Inr (g s), s)"

definition sm_modify :: "('st \<Rightarrow> 'st) \<Rightarrow> ('st, unit) sm" where
  "sm_modify g s = (Inr (), g s)"

definition sm_bind :: "('st, 'a) sm \<Rightarrow> ('a \<Rightarrow> ('st, 'b) sm) \<Rightarrow> ('st, 'b) sm" where
  "sm_bind m f s = (case m s of (Inl e, s') \<Rightarrow> (Inl e, s') | (Inr x, s') \<Rightarrow> f x s')"

fun sm_fold :: "('x \<Rightarrow> ('st, unit) sm) \<Rightarrow> 'x list \<Rightarrow> ('st, unit) sm" where
  "sm_fold f [] s = (Inr (), s)"
| "sm_fold f (x # xs) s = (case f x s of (Inl e, s') \<Rightarrow> (Inl e, s') | (Inr _, s') \<Rightarrow> sm_fold f xs s')"

text \<open>
  \<open>safe P m\<close>: started in a state with \<open>P\<close>, \<open>m\<close> neither panics nor runs forever, and \<open>P\<close> holds again
  afterwards, whether it succeeds or fails.
\<close>

named_theorems safe_intros

definition res_ok :: "'a res \<Rightarrow> bool" where
  "res_ok r \<longleftrightarrow> r \<noteq> Inl Panic \<and> r \<noteq> Inl Diverges"

definition safe :: "('st \<Rightarrow> bool) \<Rightarrow> ('st, 'a) sm \<Rightarrow> bool" where
  "safe P m \<longleftrightarrow> (\<forall>s. P s \<longrightarrow> P (snd (m s)) \<and> res_ok (fst (m s)))"

lemma res_ok_simps [simp]: "res_ok (Inr x)" "res_ok (Inl (Bail m))" "res_ok (Inl ChunkTrackerEmpty)"
    "res_ok (Inl PeerTaskDead)"
  by (simp_all add: res_ok_def)

lemma safeI: "(\<And>s. P s \<Longrightarrow> P (snd (m s))) \<Longrightarrow> (\<And>s. P s \<Longrightarrow> res_ok (fst (m s))) \<Longrightarrow> safe P m"
  by (simp add: safe_def)

lemma safeD: "safe P m \<Longrightarrow> P s \<Longrightarrow> P (snd (m s))" "safe P m \<Longrightarrow> P s \<Longrightarrow> res_ok (fst (m s))"
  by (simp_all add: safe_def)

lemma safe_ret [safe_intros]: "safe P (sm_ret x)" "safe P (sm_gets g)"
  by (simp_all add: safe_def sm_ret_def sm_gets_def)

lemma safe_res [safe_intros]: "res_ok r \<Longrightarrow> safe P (sm_res r)"
  by (simp add: safe_def sm_res_def)

text \<open>Reading a fallible value from the state.\<close>

lemma safe_read [safe_intros]: "(\<And>s. P s \<Longrightarrow> res_ok (g s)) \<Longrightarrow> safe P (\<lambda>s. (g s, s))"
  by (simp add: safe_def)

lemma safe_modify [safe_intros]: "(\<And>s. P s \<Longrightarrow> P (g s)) \<Longrightarrow> safe P (sm_modify g)"
  by (simp add: safe_def sm_modify_def)

lemma safe_bind [safe_intros]:
  assumes "safe P m" and "\<And>x. safe P (f x)"
  shows "safe P (sm_bind m f)"
  unfolding safe_def
proof (intro allI impI)
  fix s assume "P s"
  then have m: "P (snd (m s))" "res_ok (fst (m s))" using assms(1) by (simp_all add: safe_def)
  show "P (snd (sm_bind m f s)) \<and> res_ok (fst (sm_bind m f s))"
    using m assms(2) by (cases "m s"; cases "fst (m s)") (auto simp: sm_bind_def safe_def res_ok_def)
qed

lemma safe_bind_read:
  assumes "\<And>s. P s \<Longrightarrow> res_ok (g s)" and "\<And>x s. P s \<Longrightarrow> g s = Inr x \<Longrightarrow> safe P (f x)"
  shows "safe P (sm_bind (\<lambda>s. (g s, s)) f)"
  unfolding safe_def
proof (intro allI impI)
  fix s assume "P s"
  then show "P (snd (sm_bind (\<lambda>s. (g s, s)) f s)) \<and> res_ok (fst (sm_bind (\<lambda>s. (g s, s)) f s))"
    using assms(1) [of s] assms(2) [of s] by (cases "g s") (auto simp: sm_bind_def safe_def res_ok_def)
qed

lemma safe_fold [safe_intros]:
  assumes "\<And>x. x \<in> set xs \<Longrightarrow> safe P (f x)"
  shows "safe P (sm_fold f xs)"
  unfolding safe_def
proof (intro allI impI)
  fix s assume "P s"
  then show "P (snd (sm_fold f xs s)) \<and> res_ok (fst (sm_fold f xs s))" using assms
  proof (induction xs arbitrary: s)
    case (Cons x xs)
    have "P (snd (f x s))" "res_ok (fst (f x s))" using Cons.prems by (simp_all add: safe_def)
    then show ?case
      using Cons by (cases "f x s"; cases "fst (f x s)") (auto simp: res_ok_def)
  qed simp
qed

text \<open>\<open>keeps P m\<close>: \<open>P\<close> is preserved, with nothing said about the result.\<close>

named_theorems keeps_intros

definition keeps :: "('st \<Rightarrow> bool) \<Rightarrow> ('st, 'a) sm \<Rightarrow> bool" where
  "keeps P m \<longleftrightarrow> (\<forall>s. P s \<longrightarrow> P (snd (m s)))"

lemma keepsD: "keeps P m \<Longrightarrow> P s \<Longrightarrow> P (snd (m s))"
  by (simp add: keeps_def)

lemma keeps_basic [keeps_intros]:
  "keeps P (sm_ret x)" "keeps P (sm_gets g)" "keeps P (sm_res r)" "keeps P (\<lambda>s. (f s, s))"
  by (simp_all add: keeps_def sm_ret_def sm_gets_def sm_res_def)

lemma keeps_modify [keeps_intros]: "(\<And>s. P s \<Longrightarrow> P (g s)) \<Longrightarrow> keeps P (sm_modify g)"
  by (simp add: keeps_def sm_modify_def)

lemma keeps_bind [keeps_intros]:
  assumes "keeps P m" and "\<And>x. keeps P (f x)"
  shows "keeps P (sm_bind m f)"
  unfolding keeps_def
proof (intro allI impI)
  fix s assume "P s"
  then have "P (snd (m s))" using assms(1) by (simp add: keeps_def)
  then show "P (snd (sm_bind m f s))"
    using assms(2) by (cases "m s"; cases "fst (m s)") (auto simp: sm_bind_def keeps_def)
qed

lemma sm_bind_simps [simp]:
  "sm_bind (sm_ret x) f = f x" "sm_bind (sm_gets g) f s = f (g s) s" "sm_bind (sm_modify g) h s = h () (g s)"
  by (simp_all add: sm_bind_def sm_ret_def sm_gets_def sm_modify_def fun_eq_iff)

subsection \<open>Bit fields\<close>

text \<open>
  A \<open>BF\<close> is a boxed bit slice over bytes: a list of booleans whose length is a multiple of eight.
  Indexing (\<open>bf[i]\<close>) and \<open>set\<close> panic out of range, \<open>get\<close> and \<open>get_mut\<close> return \<open>None\<close>.
\<close>

type_synonym bf = "bool list"

definition bf_zero :: "nat \<Rightarrow> bf" where
  "bf_zero bytes = replicate (8 * bytes) False"

definition bf_index :: "bf \<Rightarrow> nat \<Rightarrow> bool res" where
  "bf_index b i = (if i < length b then Inr (b ! i) else Inl Panic)"

definition bf_get :: "bf \<Rightarrow> nat \<Rightarrow> bool option" where
  "bf_get b i = (if i < length b then Some (b ! i) else None)"

definition bf_set :: "bf \<Rightarrow> nat \<Rightarrow> bool \<Rightarrow> bf res" where
  "bf_set b i v = (if i < length b then Inr (b[i := v]) else Inl Panic)"

definition bf_get_range :: "bf \<Rightarrow> nat \<times> nat \<Rightarrow> bf option" where
  "bf_get_range b r = (if fst r \<le> snd r \<and> snd r \<le> length b
     then Some (take (snd r - fst r) (drop (fst r) b)) else None)"

text \<open>\<open>get_mut(range)\<close> followed by a write of the whole sub-slice.\<close>

definition bf_put_range :: "bf \<Rightarrow> nat \<times> nat \<Rightarrow> bf \<Rightarrow> bf option" where
  "bf_put_range b r s = (if fst r \<le> snd r \<and> snd r \<le> length b
     then Some (take (fst r) b @ s @ drop (snd r) b) else None)"

definition bf_fill_range :: "bf \<Rightarrow> nat \<times> nat \<Rightarrow> bool \<Rightarrow> bf option" where
  "bf_fill_range b r v = bf_put_range b r (replicate (snd r - fst r) v)"

definition bf_all :: "bf \<Rightarrow> bool" where
  "bf_all b = list_all id b"

definition bf_iter_ones :: "bf \<Rightarrow> nat list" where
  "bf_iter_ones b = filter (\<lambda>i. b ! i) [0..<length b]"

text \<open>
  Bitwise operators keep the length of the left operand; the right one is extended with zeros.
\<close>

definition bf_bit :: "bf \<Rightarrow> nat \<Rightarrow> bool" where
  "bf_bit b i \<longleftrightarrow> i < length b \<and> b ! i"

definition bf_and :: "bf \<Rightarrow> bf \<Rightarrow> bf" where
  "bf_and a b = map (\<lambda>i. a ! i \<and> bf_bit b i) [0..<length a]"

definition bf_or :: "bf \<Rightarrow> bf \<Rightarrow> bf" where
  "bf_or a b = map (\<lambda>i. a ! i \<or> bf_bit b i) [0..<length a]"

definition bf_not :: "bf \<Rightarrow> bf" where
  "bf_not a = map Not a"

lemma bf_lengths [simp, bf_simps]:
  "length (bf_zero n) = 8 * n"
  "length (bf_and a b) = length a"
  "length (bf_or a b) = length a"
  "length (bf_not a) = length a"
  by (simp_all add: bf_zero_def bf_and_def bf_or_def bf_not_def)

lemma bf_bit_ops [simp, bf_simps]:
  "bf_bit (bf_zero n) i = False"
  "bf_bit (bf_and a b) i \<longleftrightarrow> bf_bit a i \<and> bf_bit b i"
  "bf_bit (bf_not a) i \<longleftrightarrow> i < length a \<and> \<not> bf_bit a i"
  by (auto simp: bf_bit_def bf_zero_def bf_and_def bf_not_def)

lemma bf_bit_or [simp, bf_simps]:
  "length b \<le> length a \<Longrightarrow> bf_bit (bf_or a b) i \<longleftrightarrow> bf_bit a i \<or> bf_bit b i"
  by (auto simp: bf_bit_def bf_or_def)

lemma bf_bit_update [simp, bf_simps]:
  "i < length b \<Longrightarrow> bf_bit (b[i := v]) j \<longleftrightarrow> (if j = i then v else bf_bit b j)"
  by (auto simp: bf_bit_def nth_list_update)

lemma bf_index_eq [simp, bf_simps]:
  "i < length b \<Longrightarrow> bf_index b i = Inr (bf_bit b i)"
  by (simp add: bf_index_def bf_bit_def)

lemma bf_index_Inr [bf_simps]:
  "bf_index b i = Inr v \<longleftrightarrow> i < length b \<and> v = bf_bit b i"
  by (auto simp: bf_index_def bf_bit_def)

lemma bf_get_default [simp]: "bf_get b i = Some True \<longleftrightarrow> bf_bit b i"
  by (auto simp: bf_get_def bf_bit_def)

lemma bf_set_Inr [bf_simps]:
  "bf_set b i v = Inr b' \<longleftrightarrow> i < length b \<and> b' = b[i := v]"
  by (auto simp: bf_set_def)

lemma bf_set_eq [simp]: "i < length b \<Longrightarrow> bf_set b i v = Inr (b[i := v])"
  by (simp add: bf_set_def)

lemma set_bf_iter_ones [simp]: "set (bf_iter_ones b) = {i. bf_bit b i}"
  by (auto simp: bf_iter_ones_def bf_bit_def)

lemma bf_put_range_length:
  assumes "bf_put_range b r s = Some b'" and "length s = snd r - fst r"
  shows "length b' = length b"
  using assms by (auto simp: bf_put_range_def split: if_splits)

lemma bf_fill_range_length:
  "bf_fill_range b r v = Some b' \<Longrightarrow> length b' = length b"
  by (auto simp: bf_fill_range_def dest: bf_put_range_length)

lemma bf_put_range_bit:
  assumes "bf_put_range b r s = Some b'" and "length s = snd r - fst r"
  shows "bf_bit b' i \<longleftrightarrow> (if fst r \<le> i \<and> i < snd r then s ! (i - fst r) else bf_bit b i)"
proof -
  from assms have r: "fst r \<le> snd r" "snd r \<le> length b"
    and b': "b' = take (fst r) b @ s @ drop (snd r) b"
    by (auto simp: bf_put_range_def split: if_splits)
  consider "i < fst r" | "fst r \<le> i" "i < snd r" | "snd r \<le> i" by linarith
  then show ?thesis
  proof cases
    case 3
    then have "i - (fst r + (snd r - fst r)) = i - snd r" using r by simp
    with 3 r assms(2) show ?thesis
      by (auto simp: b' bf_bit_def nth_append)
  qed (use r assms(2) in \<open>auto simp: b' bf_bit_def nth_append\<close>)
qed

lemma bf_fill_range_bit:
  "bf_fill_range b r v = Some b' \<Longrightarrow>
     bf_bit b' i \<longleftrightarrow> (if fst r \<le> i \<and> i < snd r then v else bf_bit b i)"
  unfolding bf_fill_range_def by (subst bf_put_range_bit) auto

lemma bf_fill_range_Some [simp]:
  "fst r \<le> snd r \<Longrightarrow> snd r \<le> length b \<Longrightarrow> \<exists>b'. bf_fill_range b r v = Some b'"
  by (simp add: bf_fill_range_def bf_put_range_def)

lemma bf_all_iff: "bf_all s \<longleftrightarrow> (\<forall>i<length s. s ! i)"
  by (simp add: bf_all_def list_all_length)

lemma bf_get_range_nth:
  "bf_get_range b r = Some s \<Longrightarrow> i < length s \<Longrightarrow> s ! i = bf_bit b (fst r + i)"
  by (auto simp: bf_get_range_def bf_bit_def split: if_splits)

lemma bf_get_range_length:
  "bf_get_range b r = Some s \<Longrightarrow> length s = snd r - fst r"
  by (auto simp: bf_get_range_def split: if_splits)

lemma bf_get_range_all:
  assumes "bf_get_range b r = Some s"
  shows "bf_all s \<longleftrightarrow> (\<forall>i. fst r \<le> i \<and> i < snd r \<longrightarrow> bf_bit b i)" (is "?l \<longleftrightarrow> ?r")
proof
  assume ?l
  show ?r
  proof (intro allI impI)
    fix i assume "fst r \<le> i \<and> i < snd r"
    with \<open>?l\<close> show "bf_bit b i"
      using bf_get_range_nth [OF assms, of "i - fst r"] bf_get_range_length [OF assms]
      by (auto simp: bf_all_iff)
  qed
next
  assume ?r
  then show ?l
    by (auto simp: bf_all_iff bf_get_range_nth [OF assms] bf_get_range_length [OF assms])
qed

lemma bf_get_range_Some_iff:
  "(\<exists>s. bf_get_range b r = Some s) \<longleftrightarrow> fst r \<le> snd r \<and> snd r \<le> length b"
  by (simp add: bf_get_range_def)

subsection \<open>Lists indexed with a bounds check\<close>

definition vec_index :: "'a list \<Rightarrow> nat \<Rightarrow> 'a res" where
  "vec_index xs i = (if i < length xs then Inr (xs ! i) else Inl Panic)"

definition vec_get :: "'a list \<Rightarrow> nat \<Rightarrow> 'a option" where
  "vec_get xs i = (if i < length xs then Some (xs ! i) else None)"

lemma vec_index_eq [simp]: "i < length xs \<Longrightarrow> vec_index xs i = Inr (xs ! i)"
  by (simp add: vec_index_def)

lemma vec_index_Inr: "vec_index xs i = Inr v \<longleftrightarrow> i < length xs \<and> v = xs ! i"
  by (auto simp: vec_index_def)

lemma vec_get_Some: "vec_get xs i = Some v \<longleftrightarrow> i < length xs \<and> v = xs ! i"
  by (auto simp: vec_get_def)

text \<open>\<open>enumerate\<close> of an iterator.\<close>

definition enum :: "'a list \<Rightarrow> (nat \<times> 'a) list" where
  "enum xs = zip [0..<length xs] xs"

lemma set_enum: "(i, x) \<in> set (enum xs) \<longleftrightarrow> i < length xs \<and> x = xs ! i"
  by (force simp: enum_def set_zip)

text \<open>A checked unsigned subtraction: Rust panics on underflow.\<close>

definition checked_sub :: "nat \<Rightarrow> nat \<Rightarrow> nat res" where
  "checked_sub a b = (if b \<le> a then Inr (a - b) else Inl Panic)"

lemma checked_sub_eq [simp]: "b \<le> a \<Longrightarrow> checked_sub a b = Inr (a - b)"
  by (simp add: checked_sub_def)

lemma checked_sub_Inr: "checked_sub a b = Inr c \<longleftrightarrow> b \<le> a \<and> c = a - b"
  by (auto simp: checked_sub_def)

subsection \<open>Hash maps\<close>

text \<open>
  A \<open>HashMap\<close> is an association list without duplicate keys; the order of the list is the
  iteration order, which Rust leaves open, so theorems hold for every list.
\<close>

definition hm_keys :: "('k \<times> 'v) list \<Rightarrow> 'k set" where
  "hm_keys m = fst ` set m"

lemma hm_keys_update [simp]: "hm_keys (AList.update k v m) = insert k (hm_keys m)"
  unfolding hm_keys_def using dom_update [of k v m] by (simp add: dom_map_of_conv_image_fst)

lemma hm_keys_delete [simp]: "hm_keys (AList.delete k m) = hm_keys m - {k}"
  by (auto simp: hm_keys_def AList.delete_eq)

lemma hm_keys_map_of: "map_of m k = None \<longleftrightarrow> k \<notin> hm_keys m"
  by (simp add: hm_keys_def map_of_eq_None_iff)

lemma distinct_keys_filter: "distinct (map fst m) \<Longrightarrow> distinct (map fst (filter P m))"
  by (induction m) auto

text \<open>\<open>Iterator::max_by_key\<close>: the last of the greatest elements.\<close>

fun max_by_key :: "('a \<Rightarrow> nat) \<Rightarrow> 'a list \<Rightarrow> 'a option" where
  "max_by_key f [] = None"
| "max_by_key f (x # xs) = Some (fold (\<lambda>y best. if f best \<le> f y then y else best) xs x)"

lemma max_by_key_fold:
  fixes f :: "'a \<Rightarrow> nat"
  shows "fold (\<lambda>y best. if f best \<le> f y then y else best) xs x \<in> insert x (set xs)
   \<and> (\<forall>y \<in> insert x (set xs). f y \<le> f (fold (\<lambda>y best. if f best \<le> f y then y else best) xs x))"
proof (induction xs arbitrary: x)
  case Nil
  then show ?case by simp
next
  case (Cons a xs)
  show ?case
    using Cons.IH [of x] Cons.IH [of a] by (cases "f x \<le> f a") (auto intro: order_trans)
qed

lemma max_by_key_Some:
  "max_by_key f xs = Some m \<Longrightarrow> m \<in> set xs \<and> (\<forall>x \<in> set xs. f x \<le> f m)"
  using max_by_key_fold by (cases xs) fastforce+

lemma max_by_key_None [simp]: "max_by_key f xs = None \<longleftrightarrow> xs = []"
  by (cases xs) auto

subsection \<open>Sums over lists of indices\<close>

lemma sum_list_update_point:
  fixes f g :: "'a \<Rightarrow> nat"
  assumes "distinct xs" and "p \<in> set xs" and "\<And>x. x \<in> set xs \<Longrightarrow> x \<noteq> p \<Longrightarrow> g x = f x"
  shows "sum_list (map g xs) + f p = sum_list (map f xs) + g p"
  using assms
proof (induction xs)
  case Nil
  then show ?case by simp
next
  case (Cons x xs)
  show ?case
  proof (cases "x = p")
    case True
    with Cons.prems have "map g xs = map f xs"
      by (metis distinct.simps(2) list.set_intros(2) map_eq_conv)
    then show ?thesis using True by (simp del: map_eq_conv)
  next
    case False
    with Cons show ?thesis by (force simp: add.assoc add.commute add.left_commute)
  qed
qed

lemma sum_list_mono_map:
  fixes f g :: "'a \<Rightarrow> nat"
  shows "(\<And>x. x \<in> set xs \<Longrightarrow> f x \<le> g x) \<Longrightarrow> sum_list (map f xs) \<le> sum_list (map g xs)"
  by (induction xs) (auto intro: add_mono)

subsection \<open>Reachable states\<close>

text \<open>
  The states a component can get into: the initial ones, closed under its steps. A component
  with an invariant interprets \<open>invariant_system\<close> on its own initial predicate and step relation.
\<close>

inductive reach :: "('s \<Rightarrow> bool) \<Rightarrow> ('s \<Rightarrow> 's \<Rightarrow> bool) \<Rightarrow> 's \<Rightarrow> bool"
  for init :: "'s \<Rightarrow> bool" and step :: "'s \<Rightarrow> 's \<Rightarrow> bool" where
  reach_init: "init s \<Longrightarrow> reach init step s"
| reach_step: "reach init step s \<Longrightarrow> step s t \<Longrightarrow> reach init step t"

locale invariant_system =
  fixes init :: "'s \<Rightarrow> bool" and step :: "'s \<Rightarrow> 's \<Rightarrow> bool" and inv :: "'s \<Rightarrow> bool"
  assumes init_inv: "init s \<Longrightarrow> inv s"
    and step_inv: "inv s \<Longrightarrow> step s t \<Longrightarrow> inv t"
begin

lemma reach_inv: "reach init step s \<Longrightarrow> inv s"
proof (induction rule: reach.induct)
  case (reach_init s)
  then show ?case by (rule init_inv)
next
  case (reach_step s t)
  then show ?case by (blast intro: step_inv)
qed

end

end
