(* ===== verification/Lengths.thy ===== *)
theory Lengths
  imports Prelude
begin

text \<open>
  The \<open>Lengths\<close> type of the external crate \<open>librtbit_core\<close> (\<open>librtbit_core::lengths\<close>), as a
  parameter: a record of the operations the code calls, with no definition of their bodies.
  \<open>lengths_ok\<close> is what the code relies on: piece indices are validated against the piece count,
  the iterator lists every piece once in order with its positive length, the bit field sizes hold one bit
  per piece and one bit per chunk, the chunks of a piece are a non-empty range of the chunk bit
  field that starts at \<open>default_chunks_per_piece * index\<close>, a chunk accepted from the wire belongs
  to the piece it names, and the piece lengths sum up to the torrent's length, a \<open>u64\<close>.
\<close>

record chunk_info =
  piece_index :: nat
  chunk_index :: nat
  absolute_index :: nat
  ci_offset :: nat
  ci_size :: nat

record lengths =
  total_length :: nat
  total_pieces :: nat
  piece_bitfield_bytes :: nat
  chunk_bitfield_bytes :: nat
  default_chunks_per_piece :: nat
  default_piece_length :: nat
  chunks_per_piece :: "nat \<Rightarrow> nat"
  piece_length :: "nat \<Rightarrow> nat"
  piece_offset :: "nat \<Rightarrow> nat"
  validate_piece_index :: "nat \<Rightarrow> nat option"
  iter_piece_infos :: "(nat \<times> nat) list"
  iter_chunk_infos :: "nat \<Rightarrow> chunk_info list"
  chunk_range :: "nat \<Rightarrow> nat \<times> nat"
  chunk_info_from_received_data :: "nat \<Rightarrow> nat \<Rightarrow> nat \<Rightarrow> chunk_info option"
  size_of_piece_in_file :: "nat \<Rightarrow> nat \<Rightarrow> nat \<Rightarrow> nat"
  chunk_absolute_offset :: "chunk_info \<Rightarrow> nat"
  compute_current_piece :: "nat \<Rightarrow> nat \<Rightarrow> (nat \<times> nat \<times> nat) option"

definition lengths_ok :: "lengths \<Rightarrow> bool" where
  "lengths_ok L \<longleftrightarrow>
     total_pieces L < 2 ^ 32
   \<and> total_length L < 2 ^ 64
   \<and> total_pieces L \<le> 8 * piece_bitfield_bytes L
   \<and> default_chunks_per_piece L * total_pieces L < 2 ^ 32
   \<and> (\<forall>i. validate_piece_index L i = (if i < total_pieces L then Some i else None))
   \<and> iter_piece_infos L = map (\<lambda>i. (i, piece_length L i)) [0..<total_pieces L]
   \<and> sum_list (map (piece_length L) [0..<total_pieces L]) = total_length L
   \<and> (\<forall>i<total_pieces L.
        0 < piece_length L i \<and> 0 < chunks_per_piece L i \<and> chunks_per_piece L i \<le> default_chunks_per_piece L
      \<and> chunk_range L i = (default_chunks_per_piece L * i,
                            default_chunks_per_piece L * i + chunks_per_piece L i)
      \<and> default_chunks_per_piece L * i + chunks_per_piece L i \<le> 8 * chunk_bitfield_bytes L)
   \<and> (\<forall>p b l c. chunk_info_from_received_data L p b l = Some c \<and> p < total_pieces L \<longrightarrow>
        piece_index c = p \<and> chunk_index c < chunks_per_piece L p)"

text \<open>
  The byte positions: pieces lie one after the other, a chunk accepted from the wire has the
  offset and size it was received with and lies in its piece, and \<open>compute_current_piece\<close> locates a
  position of a file (piece, bytes left in the piece, offset in the piece) unless it is past the end.
\<close>

definition lengths_bytes_ok :: "lengths \<Rightarrow> bool" where
  "lengths_bytes_ok L \<longleftrightarrow>
     (\<forall>i<total_pieces L. piece_offset L i = sum_list (map (piece_length L) [0..<i]))
   \<and> (\<forall>c. chunk_absolute_offset L c = piece_offset L (piece_index c) + ci_offset c)
   \<and> (\<forall>p b l c. chunk_info_from_received_data L p b l = Some c \<and> p < total_pieces L \<longrightarrow>
        ci_offset c = b \<and> ci_size c = l \<and> b + l \<le> piece_length L p)
   \<and> (\<forall>pos off. compute_current_piece L pos off = None \<longleftrightarrow> total_length L \<le> off + pos)
   \<and> (\<forall>pos off i r po. compute_current_piece L pos off = Some (i, r, po) \<longrightarrow>
        i < total_pieces L \<and> piece_offset L i + po = off + pos \<and> po + r = piece_length L i \<and> 0 < r)"

lemma lengths_okD:
  assumes "lengths_ok L"
  shows "total_pieces L \<le> 8 * piece_bitfield_bytes L"
    and "validate_piece_index L i = (if i < total_pieces L then Some i else None)"
    and "iter_piece_infos L = map (\<lambda>i. (i, piece_length L i)) [0..<total_pieces L]"
    and "sum_list (map (piece_length L) [0..<total_pieces L]) = total_length L"
    and "total_length L < 2 ^ 64"
    and "total_pieces L < 2 ^ 32"
  using assms by (auto simp: lengths_ok_def)

lemma lengths_ok_chunks:
  assumes "lengths_ok L" and "i < total_pieces L"
  shows "0 < chunks_per_piece L i" and "0 < piece_length L i"
    and "chunks_per_piece L i \<le> default_chunks_per_piece L"
    and "chunk_range L i = (default_chunks_per_piece L * i,
           default_chunks_per_piece L * i + chunks_per_piece L i)"
    and "default_chunks_per_piece L * i + chunks_per_piece L i \<le> 8 * chunk_bitfield_bytes L"
    and "default_chunks_per_piece L * i < 2 ^ 32"
proof -
  have "default_chunks_per_piece L * i \<le> default_chunks_per_piece L * total_pieces L"
    using assms(2) by simp
  then show "default_chunks_per_piece L * i < 2 ^ 32"
    using assms(1) unfolding lengths_ok_def by linarith
qed (use assms in \<open>auto simp: lengths_ok_def\<close>)

lemma lengths_ok_received:
  assumes "lengths_ok L" and "chunk_info_from_received_data L p b l = Some c"
    and "p < total_pieces L"
  shows "piece_index c = p" and "chunk_index c < chunks_per_piece L p"
  using assms unfolding lengths_ok_def by blast+

text \<open>
  Chunk ranges of different pieces do not overlap: the stride is at least the size.
\<close>

lemma chunk_range_disjoint:
  assumes "lengths_ok L" and "p < total_pieces L" and "q < total_pieces L" and "p \<noteq> q"
    and "fst (chunk_range L p) \<le> k" and "k < snd (chunk_range L p)"
  shows "\<not> (fst (chunk_range L q) \<le> k \<and> k < snd (chunk_range L q))"
proof -
  let ?d = "default_chunks_per_piece L"
  have dp: "?d * p \<le> k" "k < ?d * p + ?d"
    using assms lengths_ok_chunks [OF assms(1,2)] by auto
  then have "0 < ?d" by (cases "?d") auto
  with dp have kp: "k div ?d = p"
    by (metis add.commute mult.commute div_nat_eqI mult_Suc)
  show ?thesis
  proof
    assume "fst (chunk_range L q) \<le> k \<and> k < snd (chunk_range L q)"
    then have dq: "?d * q \<le> k" "k < ?d * q + ?d"
      using lengths_ok_chunks [OF assms(1,3)] by auto
    with \<open>0 < ?d\<close> have "k div ?d = q"
      by (metis add.commute mult.commute div_nat_eqI mult_Suc)
    with kp assms(4) show False by simp
  qed
qed

subsection \<open>A concrete instance\<close>

text \<open>
  A torrent of ten bytes in pieces of four and chunks of two: the instance at which the
  development's witnesses evaluate the code, showing that \<open>lengths_ok\<close> can hold. It is not a
  model of the external crate.
\<close>

definition ex_piece_length :: "nat \<Rightarrow> nat" where
  "ex_piece_length i = (if i < 2 then 4 else 2)"

definition ex_chunk :: "nat \<Rightarrow> nat \<Rightarrow> chunk_info" where
  "ex_chunk p c = \<lparr>piece_index = p, chunk_index = c, absolute_index = 2 * p + c,
     ci_offset = 2 * c, ci_size = 2\<rparr>"

definition ex_lengths :: lengths where
  "ex_lengths =
     \<lparr>total_length = 10, total_pieces = 3, piece_bitfield_bytes = 1, chunk_bitfield_bytes = 1,
      default_chunks_per_piece = 2, default_piece_length = 4,
      chunks_per_piece = (\<lambda>i. if i < 2 then 2 else 1),
      piece_length = ex_piece_length,
      piece_offset = (\<lambda>i. 4 * i),
      validate_piece_index = (\<lambda>i. if i < 3 then Some i else None),
      iter_piece_infos = [(0, 4), (1, 4), (2, 2)],
      iter_chunk_infos = (\<lambda>i. if i < 2 then [ex_chunk i 0, ex_chunk i 1] else [ex_chunk i 0]),
      chunk_range = (\<lambda>i. (2 * i, 2 * i + (if i < 2 then 2 else 1))),
      chunk_info_from_received_data = (\<lambda>p b l.
        if p < 3 \<and> b mod 2 = 0 \<and> b < ex_piece_length p \<and> l = 2
        then Some (ex_chunk p (b div 2)) else None),
      size_of_piece_in_file = (\<lambda>p off len.
        min (4 * p + ex_piece_length p) (off + len) - max (4 * p) off),
      chunk_absolute_offset = (\<lambda>c. 4 * piece_index c + ci_offset c),
      compute_current_piece = (\<lambda>pos off.
        if 10 \<le> off + pos then None
        else let i = (off + pos) div 4; po = (off + pos) mod 4
             in Some (i, ex_piece_length i - po, po))\<rparr>"

lemma ex_lengths_simps [simp]:
  "total_length ex_lengths = 10" "total_pieces ex_lengths = 3"
  "piece_bitfield_bytes ex_lengths = 1" "chunk_bitfield_bytes ex_lengths = 1"
  "piece_length ex_lengths = ex_piece_length"
  by (simp_all add: ex_lengths_def)

lemma ex_lengths_ok: "lengths_ok ex_lengths"
proof -
  have u: "[0..<3::nat] = [0, 1, 2]" by (simp add: upt_rec)
  have "b div 2 < (if p < 2 then 2 else 1)" if "b < ex_piece_length p" for b p :: nat
    using that by (auto simp: ex_piece_length_def split: if_splits)
  then show ?thesis
    by (auto simp: lengths_ok_def u ex_lengths_def ex_piece_length_def ex_chunk_def
        split: if_splits)
qed

lemma lengths_bytes_piece:
  assumes "lengths_ok L" and "lengths_bytes_ok L" and "i < total_pieces L"
  shows "piece_offset L i + piece_length L i \<le> total_length L"
proof -
  have "[0..<total_pieces L] = [0..<i] @ i # [Suc i..<total_pieces L]"
    using assms(3) upt_add_eq_append [of 0 i "total_pieces L - i"] by (simp add: upt_conv_Cons)
  then have "total_length L = sum_list (map (piece_length L) [0..<i]) + piece_length L i
      + sum_list (map (piece_length L) [Suc i..<total_pieces L])"
    using lengths_okD(4) [OF assms(1)] by simp
  then show ?thesis using assms by (simp add: lengths_bytes_ok_def)
qed

lemma lengths_bytes_chunk:
  assumes "lengths_ok L" and "lengths_bytes_ok L" and "p < total_pieces L"
    and "chunk_info_from_received_data L p b l = Some c"
  shows "chunk_absolute_offset L c = piece_offset L p + b" and "ci_size c = l"
    and "chunk_absolute_offset L c + l \<le> total_length L"
proof -
  have c: "piece_index c = p" using lengths_ok_received [OF assms(1,4,3)] by simp
  have b: "ci_offset c = b" "ci_size c = l" "b + l \<le> piece_length L p"
    using assms(2,3,4) unfolding lengths_bytes_ok_def by blast+
  then show "chunk_absolute_offset L c = piece_offset L p + b" "ci_size c = l"
    using assms(2) c by (simp_all add: lengths_bytes_ok_def)
  then show "chunk_absolute_offset L c + l \<le> total_length L"
    using b(3) lengths_bytes_piece [OF assms(1-3)] by simp
qed

lemma ex_lengths_bytes_ok: "lengths_bytes_ok ex_lengths"
proof -
  have u: "i < 3 \<Longrightarrow> 4 * i = sum_list (map ex_piece_length [0..<i])" for i :: nat
    by (cases i; cases "i - 1"; cases "i - 2") (auto simp: ex_piece_length_def upt_rec)
  have d: "i div 4 < 3" "i mod 4 < ex_piece_length (i div 4)" if "i < 10" for i :: nat
    using that by (auto simp: ex_piece_length_def) presburger+
  have c: "b + 2 \<le> ex_piece_length p" if "b < ex_piece_length p" "even b" for b p :: nat
    using that by (auto simp: ex_piece_length_def split: if_splits)
  have e: "4 * (i div 4) + i mod 4 = i"
    "i < 10 \<Longrightarrow> i mod 4 + (ex_piece_length (i div 4) - i mod 4) = ex_piece_length (i div 4)"
    for i :: nat using d(2) [of i] by simp_all
  show ?thesis
    unfolding lengths_bytes_ok_def using c d e(2)
    by (auto simp: ex_lengths_def ex_chunk_def Let_def u [symmetric] split: if_splits)
qed

end
