(* ===== verification/File_Info.thy ===== *)
theory File_Info
  imports Prelude "HOL-Library.Multiset"
begin

text \<open>
  \<open>src/src/file_info.rs\<close>: the description of a file inside the torrent and the order in which its
  pieces are downloaded. \<open>piece_range\<close> is a half-open \<open>Range<u32>\<close>, the path is a string, of
  \<open>FileDetailsAttrs\<close> (external crate) only the \<open>padding\<close> flag is read.
\<close>

record file_info =
  relative_filename :: string
  offset_in_torrent :: nat
  piece_range :: "nat \<times> nat"
  padding :: bool
  fi_len :: nat

type_synonym file_infos = "file_info list"
type_synonym file_priorities = "nat list"

text \<open>\<open>usize\<close> is 64 bits wide; \<open>overflowing_sub(k).0\<close> wraps.\<close>

definition usize_wrapping_sub :: "nat \<Rightarrow> nat \<Rightarrow> nat" where
  "usize_wrapping_sub a b = (a + 2 ^ 64 - b) mod 2 ^ 64"

definition range_len :: "nat \<times> nat \<Rightarrow> nat" where
  "range_len r = snd r - fst r"

definition range_iter :: "nat \<times> nat \<Rightarrow> nat list" where
  "range_iter r = [fst r..<snd r]"

text \<open>
  First, last, then the middle of the range, cut to the length of the range. The addition that
  computes the last index is a plain \<open>+\<close>; it is modelled with the wrap-around of a release build.
\<close>

definition iter_piece_priorities :: "nat \<times> nat \<Rightarrow> nat list" where
  "iter_piece_priorities r =
     (let first = [fst r];
          last = [(fst r + usize_wrapping_sub (range_len r) 1) mod 2 ^ 64];
          mid = take (usize_wrapping_sub (range_len r) 2) (drop 1 (range_iter r))
      in take (range_len r) (first @ last @ mid))"

definition piece_range_usize :: "file_info \<Rightarrow> nat \<times> nat" where
  "piece_range_usize f = piece_range f"

definition file_iter_piece_priorities :: "file_info \<Rightarrow> nat list" where
  "file_iter_piece_priorities f = iter_piece_priorities (piece_range_usize f)"

lemma usize_wrapping_sub_le:
  "b \<le> a \<Longrightarrow> a < 2 ^ 64 \<Longrightarrow> usize_wrapping_sub a b = a - b"
proof -
  assume "b \<le> a" "a < 2 ^ 64"
  then have "a + 2 ^ 64 - b = 2 ^ 64 + (a - b)" "a - b < 2 ^ 64" by linarith+
  then show ?thesis unfolding usize_wrapping_sub_def by (metis mod_add_self1 mod_less)
qed

lemma iter_piece_priorities_empty [simp]:
  "snd r \<le> fst r \<Longrightarrow> iter_piece_priorities r = []"
  by (simp add: iter_piece_priorities_def range_len_def)

lemma iter_piece_priorities_one:
  "a + 1 < 2 ^ 64 \<Longrightarrow> iter_piece_priorities (a, Suc a) = [a]"
  by (simp add: iter_piece_priorities_def range_len_def)

lemma iter_piece_priorities_many:
  assumes "Suc a < b" and "b < 2 ^ 64"
  shows "iter_piece_priorities (a, b) = a # (b - 1) # [Suc a..<b - 1]"
proof -
  have l: "usize_wrapping_sub (b - a) 1 = b - a - 1" "usize_wrapping_sub (b - a) 2 = b - a - 2"
    using assms by (simp_all add: usize_wrapping_sub_le)
  have last: "(a + (b - a - 1)) mod 2 ^ 64 = b - 1"
    using assms by simp
  have mid: "take (b - a - 2) (drop 1 [a..<b]) = [Suc a..<b - 1]"
  proof -
    have "Suc a + (b - a - 2) = b - 1" using assms by simp
    then show ?thesis using assms by (subst drop_upt, subst take_upt) auto
  qed
  have "take (b - a) ([a] @ [b - 1] @ [Suc a..<b - 1]) = a # (b - 1) # [Suc a..<b - 1]"
    using assms by (subst take_all) auto
  then show ?thesis
    unfolding iter_piece_priorities_def range_len_def range_iter_def Let_def fst_conv snd_conv
      l last mid .
qed

lemma mset_iter_piece_priorities:
  assumes "b < 2 ^ 64"
  shows "mset (iter_piece_priorities (a, b)) = mset [a..<b]"
proof -
  consider "b \<le> a" | "b = Suc a" | "Suc a < b" by linarith
  then show ?thesis
  proof cases
    case 3
    then have "[a..<b] = a # [Suc a..<b - 1] @ [b - 1]"
      by (metis Suc_lessD Suc_diff_1 less_Suc_eq_le not_less_eq upt_Suc upt_conv_Cons zero_less_diff
          diff_is_0_eq' gr0I less_imp_le_nat zero_less_Suc less_nat_zero_code)
    then show ?thesis
      using 3 assms by (simp add: iter_piece_priorities_many)
  qed (use assms in \<open>auto simp: iter_piece_priorities_one\<close>)
qed

lemma set_iter_piece_priorities [simp]:
  "snd r < 2 ^ 64 \<Longrightarrow> set (iter_piece_priorities r) = {fst r..<snd r}"
  by (cases r) (metis atLeastLessThan_upt fst_conv mset_iter_piece_priorities set_mset_mset snd_conv)

text \<open>
  The download order of a file's pieces is a permutation of the file's piece range that starts
  with the first piece and, when there are at least two, continues with the last one.
\<close>

theorem iter_piece_priorities_permutation:
  assumes "b < 2 ^ 64"
  shows "mset (iter_piece_priorities (a, b)) = mset [a..<b]
    \<and> (a < b \<longrightarrow> hd (iter_piece_priorities (a, b)) = a)
    \<and> (Suc a < b \<longrightarrow> iter_piece_priorities (a, b) ! 1 = b - 1)"
proof (intro conjI impI)
  show "mset (iter_piece_priorities (a, b)) = mset [a..<b]"
    using assms by (rule mset_iter_piece_priorities)
  show "hd (iter_piece_priorities (a, b)) = a" if "a < b"
    using that assms
  proof (cases "Suc a < b")
    case False
    with that have "b = Suc a" by simp
    then show ?thesis using assms by (simp add: iter_piece_priorities_one)
  qed (simp add: iter_piece_priorities_many)
  show "iter_piece_priorities (a, b) ! 1 = b - 1" if "Suc a < b"
    using that assms by (simp add: iter_piece_priorities_many)
qed

theorem iter_piece_priorities_permutation_witness:
  "(7::nat) < 2 ^ 64 \<and> mset (iter_piece_priorities (3, 7)) = mset [3..<7]
    \<and> iter_piece_priorities (3, 7) = [3, 6, 4, 5]"
proof -
  have h: "(7::nat) < 2 ^ 64" by simp
  have e: "iter_piece_priorities (3, 7) = [3, 6, 4, 5]"
    by (subst iter_piece_priorities_many) (simp_all add: upt_rec)
  show ?thesis
    using h e iter_piece_priorities_permutation [OF h, of 3] by blast
qed

end
