(* ===== verification/Chunk_Tracker.thy ===== *)
theory Chunk_Tracker
  imports Lengths File_Info
begin

text \<open>
  \<open>src/src/chunk_tracker.rs\<close>: which pieces the client has, which the user selected, which wait in
  the download queue, which chunks have been written, and the byte counts kept in step with them.
  The record has the fields of \<open>struct ChunkTracker\<close> (\<open>have\<close> is \<open>have_pieces\<close> here); every method
  that changes the state is a function returning the new state, \<open>Inl Panic\<close> standing for an index
  out of range, an \<open>unwrap\<close> of \<open>None\<close> or an unsigned underflow. Logging is left out.
\<close>

record have_needed_selected =
  have_bytes :: nat
  needed_bytes :: nat
  selected_bytes :: nat

record chunk_tracker =
  queue_pieces :: bf
  chunk_status :: bf
  have_pieces :: bf
  selected :: bf
  per_file_bytes :: "nat list"
  ct_lengths :: lengths
  hns :: have_needed_selected

datatype chunk_marking_result = PreviouslyCompleted | NotCompleted | Completed

subsection \<open>HaveNeededSelected\<close>

definition hns_default :: have_needed_selected where
  "hns_default = \<lparr>have_bytes = 0, needed_bytes = 0, selected_bytes = 0\<rparr>"

definition hns_progress :: "have_needed_selected \<Rightarrow> nat res" where
  "hns_progress h = checked_sub (selected_bytes h) (needed_bytes h)"

definition hns_total :: "have_needed_selected \<Rightarrow> nat" where
  "hns_total h = selected_bytes h"

definition hns_finished :: "have_needed_selected \<Rightarrow> bool" where
  "hns_finished h \<longleftrightarrow> needed_bytes h = 0"

subsection \<open>Computing the initial bit fields\<close>

text \<open>The body of the loop over the pieces: the chunks of a piece the client has are all set.\<close>

definition mark_have_chunks :: "lengths \<Rightarrow> bf \<Rightarrow> nat \<times> nat \<Rightarrow> bf \<Rightarrow> bf res" where
  "mark_have_chunks L haves piece chunk_bf =
     (let i = fst piece;
          chunks = chunks_per_piece L i;
          offset = (default_chunks_per_piece L * i) mod 2 ^ 32;
          range = (offset, offset + chunks)
      in res_bind (bf_index haves i) (\<lambda>h.
           if h then ok_or (Bail ''bug in bitvec: error getting range from chunk_bf'')
                       (bf_fill_range chunk_bf range True)
           else Inr chunk_bf))"

definition compute_chunk_have_status :: "lengths \<Rightarrow> bf \<Rightarrow> bf res" where
  "compute_chunk_have_status L haves =
     (if length haves < total_pieces L
      then Inl (Bail ''bug: have_pieces.len() < lengths.total_pieces()'')
      else res_fold
        (mark_have_chunks L haves)
        (iter_piece_infos L) (bf_zero (chunk_bitfield_bytes L)))"

definition compute_queued_pieces_unchecked :: "bf \<Rightarrow> bf \<Rightarrow> bf" where
  "compute_queued_pieces_unchecked haves sel = bf_and (bf_not haves) sel"

definition compute_queued_pieces :: "bf \<Rightarrow> bf \<Rightarrow> bf res" where
  "compute_queued_pieces haves sel =
     (if length haves \<noteq> length sel
      then Inl (Bail ''have_pieces.len() != selected_pieces.len()'')
      else Inr (compute_queued_pieces_unchecked haves sel))"

definition compute_selected_pieces :: "lengths \<Rightarrow> (nat \<Rightarrow> bool) \<Rightarrow> file_infos \<Rightarrow> bf" where
  "compute_selected_pieces L only_files_is_empty_or_contains fis =
     fold (\<lambda>(_, fi) b. case bf_fill_range b (piece_range_usize fi) True of None \<Rightarrow> b | Some b' \<Rightarrow> b')
       (filter (\<lambda>(id, _). only_files_is_empty_or_contains id)
         (filter (\<lambda>(_, fi). \<not> padding fi) (enum fis)))
       (bf_zero (piece_bitfield_bytes L))"

subsection \<open>Construction\<close>

definition file_have_bytes :: "chunk_tracker \<Rightarrow> file_info \<Rightarrow> nat res" where
  "file_have_bytes t fi =
     res_bind (res_filter (bf_index (have_pieces t)) (range_iter (piece_range fi))) (\<lambda>ids.
       Inr (sum_list (map (\<lambda>id. size_of_piece_in_file (ct_lengths t) id
                                   (offset_in_torrent fi) (fi_len fi)) ids)))"

fun recalculate_slots :: "chunk_tracker \<Rightarrow> nat list \<Rightarrow> file_infos \<Rightarrow> nat list res" where
  "recalculate_slots t [] fis = Inr []"
| "recalculate_slots t slots [] = Inr slots"
| "recalculate_slots t (slot # slots) (fi # fis) =
     res_bind (file_have_bytes t fi) (\<lambda>v.
       res_bind (recalculate_slots t slots fis) (\<lambda>vs. Inr (v # vs)))"

definition recalculate_per_file_bytes :: "file_infos \<Rightarrow> chunk_tracker \<Rightarrow> chunk_tracker res" where
  "recalculate_per_file_bytes fis t =
     res_bind (recalculate_slots t (per_file_bytes t) fis) (\<lambda>vs. Inr (t\<lparr>per_file_bytes := vs\<rparr>))"

definition calc_hns :: "chunk_tracker \<Rightarrow> have_needed_selected res" where
  "calc_hns t =
     res_fold
       (\<lambda>(id, len) h.
          res_bind (bf_index (have_pieces t) id) (\<lambda>is_have.
          res_bind (bf_index (selected t) id) (\<lambda>is_selected.
            let is_needed = is_selected \<and> \<not> is_have in
            Inr \<lparr>have_bytes = have_bytes h + len * of_bool is_have,
                 needed_bytes = needed_bytes h + len * of_bool is_needed,
                 selected_bytes = selected_bytes h + len * of_bool is_selected\<rparr>)))
       (iter_piece_infos (ct_lengths t)) hns_default"

definition ct_new :: "bf \<Rightarrow> bf \<Rightarrow> lengths \<Rightarrow> file_infos \<Rightarrow> chunk_tracker res" where
  "ct_new haves sel L fis =
     res_bind (compute_queued_pieces haves sel) (\<lambda>needed.
     res_bind (compute_chunk_have_status L haves) (\<lambda>cs.
       let ct = \<lparr>queue_pieces = needed, chunk_status = cs, have_pieces = haves, selected = sel,
                 per_file_bytes = replicate (length fis) 0, ct_lengths = L, hns = hns_default\<rparr>
       in res_bind (recalculate_per_file_bytes fis ct) (\<lambda>ct.
          res_bind (calc_hns ct) (\<lambda>h. Inr (ct\<lparr>hns := h\<rparr>)))))"

subsection \<open>Queue and piece operations\<close>

definition reserve_needed_piece :: "nat \<Rightarrow> chunk_tracker \<Rightarrow> chunk_tracker res" where
  "reserve_needed_piece index t =
     res_bind (bf_set (queue_pieces t) index False) (\<lambda>q. Inr (t\<lparr>queue_pieces := q\<rparr>))"

definition iter_queued_pieces ::
  "file_priorities \<Rightarrow> file_infos \<Rightarrow> chunk_tracker \<Rightarrow> nat list res" where
  "iter_queued_pieces prio fis t =
     res_bind
       (res_filter (\<lambda>(id, f). res_bind (vec_index (per_file_bytes t) id) (\<lambda>b. Inr (b \<noteq> fi_len f)))
         (List.map_filter (\<lambda>p. map_option (Pair p) (vec_get fis p)) prio)) (\<lambda>files.
     res_bind
       (res_filter (\<lambda>id. bf_index (queue_pieces t) id)
         (concat (map (\<lambda>(_, f). file_iter_piece_priorities f) files))) (\<lambda>ids.
     Inr (List.map_filter
       (\<lambda>id. if id < 2 ^ 32 then validate_piece_index (ct_lengths t) id else None) ids)))"

definition is_piece_have :: "nat \<Rightarrow> chunk_tracker \<Rightarrow> bool res" where
  "is_piece_have idx t = bf_index (have_pieces t) idx"

definition mark_piece_broken_if_not_have :: "nat \<Rightarrow> chunk_tracker \<Rightarrow> chunk_tracker res" where
  "mark_piece_broken_if_not_have index t =
     (if bf_get (have_pieces t) index = Some True then Inr t
      else res_bind (bf_set (queue_pieces t) index True) (\<lambda>q.
        let t1 = t\<lparr>queue_pieces := q\<rparr> in
        case bf_fill_range (chunk_status t1) (chunk_range (ct_lengths t1) index) False of
          Some cs \<Rightarrow> Inr (t1\<lparr>chunk_status := cs\<rparr>)
        | None \<Rightarrow> Inr t1))"

definition mark_piece_downloaded :: "nat \<Rightarrow> chunk_tracker \<Rightarrow> chunk_tracker res" where
  "mark_piece_downloaded idx t =
     res_bind (bf_index (have_pieces t) idx) (\<lambda>h.
       if h then Inr t
       else res_bind (bf_set (have_pieces t) idx True) (\<lambda>haves.
         let len = piece_length (ct_lengths t) idx;
             t1 = t\<lparr>have_pieces := haves,
                    hns := (hns t)\<lparr>have_bytes := have_bytes (hns t) + len\<rparr>\<rparr>
         in res_bind (bf_index (selected t1) idx) (\<lambda>s.
           if s then res_bind (checked_sub (needed_bytes (hns t1)) len) (\<lambda>n.
                       Inr (t1\<lparr>hns := (hns t1)\<lparr>needed_bytes := n\<rparr>\<rparr>))
           else Inr t1)))"

definition is_chunk_ready_to_upload :: "chunk_info \<Rightarrow> chunk_tracker \<Rightarrow> bool" where
  "is_chunk_ready_to_upload chunk t \<longleftrightarrow> bf_get (have_pieces t) (piece_index chunk) = Some True"

definition get_remaining_bytes :: "chunk_tracker \<Rightarrow> nat" where
  "get_remaining_bytes t = needed_bytes (hns t)"

text \<open>A received block: the fields of \<open>Piece\<close> the tracker reads (index, begin, data length).\<close>

record piece_msg =
  pm_index :: nat
  pm_begin :: nat
  pm_len :: nat

definition mark_chunk_downloaded ::
  "piece_msg \<Rightarrow> chunk_tracker \<Rightarrow> (chunk_marking_result option \<times> chunk_tracker) res" where
  "mark_chunk_downloaded piece t =
     (let L = ct_lengths t in
      case validate_piece_index L (pm_index piece) of None \<Rightarrow> Inr (None, t)
      | Some pi \<Rightarrow>
        if pm_len piece \<ge> 2 ^ 32 then Inl Panic
        else case chunk_info_from_received_data L pi (pm_begin piece) (pm_len piece) of
          None \<Rightarrow> Inr (None, t)
        | Some ci \<Rightarrow>
          let r = chunk_range L (piece_index ci) in
          res_bind (ok_or Panic (bf_get_range (chunk_status t) r)) (\<lambda>s.
            if bf_all s then Inr (Some PreviouslyCompleted, t)
            else res_bind (bf_set s (chunk_index ci) True) (\<lambda>s'.
              res_bind (ok_or Panic (bf_put_range (chunk_status t) r s')) (\<lambda>cs.
                let t1 = t\<lparr>chunk_status := cs\<rparr> in
                if bf_all s' then Inr (Some Completed, t1)
                else Inr (Some NotCompleted, t1)))))"

text \<open>
  The body of the requeueing loop of \<open>update_only_files\<close>: a valid piece the client lacks joins
  the queue.
\<close>

definition requeue_piece :: "lengths \<Rightarrow> nat \<Rightarrow> chunk_tracker \<Rightarrow> chunk_tracker res" where
  "requeue_piece L idx t = (if idx < 2 ^ 32
     then (case validate_piece_index L idx of
             Some validated \<Rightarrow> mark_piece_broken_if_not_have validated t | None \<Rightarrow> Inr t)
     else Inr t)"

definition update_only_files ::
  "file_infos \<Rightarrow> nat set \<Rightarrow> chunk_tracker \<Rightarrow> (have_needed_selected \<times> chunk_tracker) res" where
  "update_only_files fis new_only_files t =
     (let L = ct_lengths t;
          sel = compute_selected_pieces L (\<lambda>idx. idx \<in> new_only_files) fis;
          prev_selected = selected t;
          t1 = t\<lparr>selected := sel\<rparr>
      in res_bind
           (res_filter
             (\<lambda>idx. res_bind (bf_index prev_selected idx) (\<lambda>p.
                if p then Inr False
                else res_bind (bf_index (have_pieces t1) idx) (\<lambda>h. Inr (\<not> h))))
             (bf_iter_ones (selected t1))) (\<lambda>idxs.
         res_bind
           (res_fold (\<lambda>idx b. bf_set b idx True) idxs (bf_zero (piece_bitfield_bytes L))) (\<lambda>b.
         res_bind
           (res_fold (requeue_piece L) (bf_iter_ones b) t1) (\<lambda>t2.
         let have_or_selected = bf_or (selected t2) (have_pieces t2);
             t3 = t2\<lparr>queue_pieces := bf_and (queue_pieces t2) have_or_selected\<rparr>
         in res_bind (calc_hns t3) (\<lambda>h. Inr (h, t3\<lparr>hns := h\<rparr>))))))"

definition is_file_finished :: "file_info \<Rightarrow> chunk_tracker \<Rightarrow> bool" where
  "is_file_finished fi t =
     (case bf_get_range (have_pieces t) (piece_range_usize fi) of
        Some r \<Rightarrow> bf_all r | None \<Rightarrow> True)"

definition is_finished :: "chunk_tracker \<Rightarrow> bool" where
  "is_finished t = hns_finished (hns t)"

definition update_file_have_on_piece_completed ::
  "nat \<Rightarrow> nat \<Rightarrow> file_info \<Rightarrow> chunk_tracker \<Rightarrow> (nat \<times> chunk_tracker) res" where
  "update_file_have_on_piece_completed piece_id file_id fi t =
     (let diff_have = size_of_piece_in_file (ct_lengths t) piece_id
                        (offset_in_torrent fi) (fi_len fi)
      in res_bind (vec_index (per_file_bytes t) file_id) (\<lambda>b.
           let b' = b + diff_have in
           Inr (fi_len fi - b', t\<lparr>per_file_bytes := (per_file_bytes t)[file_id := b']\<rparr>)))"

subsection \<open>The invariant: shapes, and byte counts in step with the bit fields\<close>

text \<open>
  \<open>ct_shape\<close>: every bit field has the size the lengths prescribe. \<open>hns_spec\<close> is the meaning of the
  cached byte counts: sums of piece lengths over the bit fields; \<open>ct_inv\<close> says the cache agrees
  with it ("MUST be in sync with the BFs" in the source).
\<close>

definition ct_shape :: "chunk_tracker \<Rightarrow> bool" where
  "ct_shape t \<longleftrightarrow> lengths_ok (ct_lengths t)
     \<and> length (queue_pieces t) = 8 * piece_bitfield_bytes (ct_lengths t)
     \<and> length (have_pieces t) = 8 * piece_bitfield_bytes (ct_lengths t)
     \<and> length (selected t) = 8 * piece_bitfield_bytes (ct_lengths t)
     \<and> length (chunk_status t) = 8 * chunk_bitfield_bytes (ct_lengths t)"

definition bytes_where :: "lengths \<Rightarrow> (nat \<Rightarrow> bool) \<Rightarrow> nat" where
  "bytes_where L P = sum_list (map (\<lambda>i. piece_length L i * of_bool (P i)) [0..<total_pieces L])"

definition hns_spec :: "chunk_tracker \<Rightarrow> have_needed_selected" where
  "hns_spec t =
     \<lparr>have_bytes = bytes_where (ct_lengths t) (bf_bit (have_pieces t)),
      needed_bytes = bytes_where (ct_lengths t)
        (\<lambda>i. bf_bit (selected t) i \<and> \<not> bf_bit (have_pieces t) i),
      selected_bytes = bytes_where (ct_lengths t) (bf_bit (selected t))\<rparr>"

definition ct_inv :: "chunk_tracker \<Rightarrow> bool" where
  "ct_inv t \<longleftrightarrow> ct_shape t \<and> hns t = hns_spec t"

lemma ct_shapeD [simp]:
  assumes "ct_shape t"
  shows "lengths_ok (ct_lengths t)"
    and "length (queue_pieces t) = 8 * piece_bitfield_bytes (ct_lengths t)"
    and "length (have_pieces t) = 8 * piece_bitfield_bytes (ct_lengths t)"
    and "length (selected t) = 8 * piece_bitfield_bytes (ct_lengths t)"
    and "length (chunk_status t) = 8 * chunk_bitfield_bytes (ct_lengths t)"
  using assms by (simp_all add: ct_shape_def)

lemma ct_shapeI:
  assumes "lengths_ok (ct_lengths t)"
    and "length (queue_pieces t) = 8 * piece_bitfield_bytes (ct_lengths t)"
    and "length (have_pieces t) = 8 * piece_bitfield_bytes (ct_lengths t)"
    and "length (selected t) = 8 * piece_bitfield_bytes (ct_lengths t)"
    and "length (chunk_status t) = 8 * chunk_bitfield_bytes (ct_lengths t)"
  shows "ct_shape t"
  unfolding ct_shape_def using assms by blast

lemma ct_invD [simp]: "ct_inv t \<Longrightarrow> ct_shape t" "ct_inv t \<Longrightarrow> hns t = hns_spec t"
  by (simp_all add: ct_inv_def)

lemma ct_invI: "ct_shape t \<Longrightarrow> hns t = hns_spec t \<Longrightarrow> ct_inv t"
  unfolding ct_inv_def by blast

lemma valid_in_range:
  "ct_shape t \<Longrightarrow> p < total_pieces (ct_lengths t) \<Longrightarrow>
     p < 8 * piece_bitfield_bytes (ct_lengths t)"
  using lengths_okD(1) [of "ct_lengths t"] by simp

lemma bytes_where_mono:
  "(\<And>i. i < total_pieces L \<Longrightarrow> P i \<Longrightarrow> Q i) \<Longrightarrow> bytes_where L P \<le> bytes_where L Q"
  unfolding bytes_where_def by (rule sum_list_mono_map) auto

lemma bytes_where_le_total: "lengths_ok L \<Longrightarrow> bytes_where L P \<le> total_length L"
  unfolding bytes_where_def lengths_okD(4) [symmetric] by (rule sum_list_mono_map) auto

lemma bytes_where_cong:
  "(\<And>i. i < total_pieces L \<Longrightarrow> P i = Q i) \<Longrightarrow> bytes_where L P = bytes_where L Q"
  by (rule antisym) (auto intro: bytes_where_mono)

lemma bytes_where_change:
  assumes "p < total_pieces L" and "\<And>i. i < total_pieces L \<Longrightarrow> i \<noteq> p \<Longrightarrow> Q i = P i"
  shows "bytes_where L Q + piece_length L p * of_bool (P p)
       = bytes_where L P + piece_length L p * of_bool (Q p)"
  unfolding bytes_where_def
  by (rule sum_list_update_point [where f = "\<lambda>i. piece_length L i * of_bool (P i)"
        and g = "\<lambda>i. piece_length L i * of_bool (Q i)"]) (use assms in auto)

lemma bytes_where_zero_iff:
  "lengths_ok L \<Longrightarrow> bytes_where L P = 0 \<longleftrightarrow> (\<forall>i<total_pieces L. \<not> P i)"
proof -
  assume ok: "lengths_ok L"
  have pos: "\<forall>i<total_pieces L. 0 < piece_length L i"
    using lengths_ok_chunks(2) [OF ok] by simp
  have "bytes_where L P = 0 \<longleftrightarrow> (\<forall>i<total_pieces L. piece_length L i * of_bool (P i) = 0)"
    by (simp add: bytes_where_def sum_list_eq_0_iff) (meson atLeastLessThan_iff le0)
  moreover have "piece_length L i * of_bool (P i) = 0 \<longleftrightarrow> \<not> P i" if "i < total_pieces L" for i
    using pos that by (cases "P i") auto
  ultimately show ?thesis by (simp cong: imp_cong)
qed

lemma calc_hns_fold:
  assumes "\<And>i. i \<in> set xs \<Longrightarrow> i < length (have_pieces t) \<and> i < length (selected t)"
  shows "res_fold
       (\<lambda>(id, len) h.
          res_bind (bf_index (have_pieces t) id) (\<lambda>is_have.
          res_bind (bf_index (selected t) id) (\<lambda>is_selected.
            let is_needed = is_selected \<and> \<not> is_have in
            Inr \<lparr>have_bytes = have_bytes h + len * of_bool is_have,
                 needed_bytes = needed_bytes h + len * of_bool is_needed,
                 selected_bytes = selected_bytes h + len * of_bool is_selected\<rparr>)))
       (map (\<lambda>i. (i, f i)) xs) h
     = Inr \<lparr>have_bytes = have_bytes h
              + sum_list (map (\<lambda>i. f i * of_bool (bf_bit (have_pieces t) i)) xs),
            needed_bytes = needed_bytes h + sum_list (map (\<lambda>i. f i *
              of_bool (bf_bit (selected t) i \<and> \<not> bf_bit (have_pieces t) i)) xs),
            selected_bytes = selected_bytes h
              + sum_list (map (\<lambda>i. f i * of_bool (bf_bit (selected t) i)) xs)\<rparr>"
  using assms by (induction xs arbitrary: h) (simp_all add: Let_def add.assoc)

lemma calc_hns_eq: "ct_shape t \<Longrightarrow> calc_hns t = Inr (hns_spec t)"
  unfolding calc_hns_def lengths_okD(3) [OF ct_shapeD(1)]
  by (subst calc_hns_fold) (auto simp: valid_in_range hns_default_def hns_spec_def bytes_where_def)

lemma hns_spec_upd [simp]:
  "hns_spec (t\<lparr>queue_pieces := q\<rparr>) = hns_spec t"
  "hns_spec (t\<lparr>chunk_status := cs\<rparr>) = hns_spec t"
  "hns_spec (t\<lparr>per_file_bytes := pf\<rparr>) = hns_spec t"
  "hns_spec (t\<lparr>hns := h\<rparr>) = hns_spec t"
  by (simp_all add: hns_spec_def)

lemma reserve_needed_piece_eq:
  "ct_shape t \<Longrightarrow> p < total_pieces (ct_lengths t) \<Longrightarrow>
     reserve_needed_piece p t = Inr (t\<lparr>queue_pieces := (queue_pieces t)[p := False]\<rparr>)"
  by (simp add: reserve_needed_piece_def valid_in_range)

lemma mark_piece_broken_eq:
  assumes "ct_shape t" and "p < total_pieces (ct_lengths t)"
  shows "\<exists>cs. bf_fill_range (chunk_status t) (chunk_range (ct_lengths t) p) False = Some cs
    \<and> mark_piece_broken_if_not_have p t = Inr (if bf_bit (have_pieces t) p then t
          else t\<lparr>queue_pieces := (queue_pieces t)[p := True], chunk_status := cs\<rparr>)"
proof -
  have "\<exists>cs. bf_fill_range (chunk_status t) (chunk_range (ct_lengths t) p) False = Some cs"
    by (rule bf_fill_range_Some) (use assms lengths_ok_chunks [OF ct_shapeD(1) assms(2)] in auto)
  then show ?thesis
    using assms by (auto simp: mark_piece_broken_if_not_have_def valid_in_range)
qed

lemma mark_piece_downloaded_eq:
  assumes "ct_inv t" and "p < total_pieces (ct_lengths t)"
  shows "mark_piece_downloaded p t =
     Inr (t\<lparr>have_pieces := (have_pieces t)[p := True],
            hns := hns_spec (t\<lparr>have_pieces := (have_pieces t)[p := True]\<rparr>)\<rparr>)"
proof (cases "bf_bit (have_pieces t) p")
  case True
  then have "(have_pieces t)[p := True] = have_pieces t"
    by (metis bf_bit_def list_update_id)
  with True assms show ?thesis
    by (simp add: mark_piece_downloaded_def valid_in_range)
next
  case False
  let ?L = "ct_lengths t" and ?h = "(have_pieces t)[p := True]"
  have p: "p < length (have_pieces t)" using assms by (simp add: valid_in_range)
  have have_eq: "bytes_where ?L (bf_bit ?h)
      = bytes_where ?L (bf_bit (have_pieces t)) + piece_length ?L p"
    using bytes_where_change [OF assms(2), of "bf_bit ?h" "bf_bit (have_pieces t)"] False p
    by simp
  have need_eq: "bytes_where ?L (\<lambda>i. bf_bit (selected t) i \<and> \<not> bf_bit ?h i)
        + piece_length ?L p * of_bool (bf_bit (selected t) p)
      = bytes_where ?L (\<lambda>i. bf_bit (selected t) i \<and> \<not> bf_bit (have_pieces t) i)"
    using bytes_where_change [OF assms(2), of "\<lambda>i. bf_bit (selected t) i \<and> \<not> bf_bit ?h i"
        "\<lambda>i. bf_bit (selected t) i \<and> \<not> bf_bit (have_pieces t) i"] False p
    by (simp cong: if_cong)
  show ?thesis
    using assms False p have_eq need_eq
    by (cases "bf_bit (selected t) p")
      (simp_all add: mark_piece_downloaded_def valid_in_range hns_spec_def Let_def checked_sub_def
        need_eq [symmetric] del: bf_bit_update)
qed

subsection \<open>Selecting files\<close>

lemma fill_fold_length:
  "length (fold (\<lambda>(_, fi) b. case bf_fill_range b (piece_range_usize fi) True of
       None \<Rightarrow> b | Some b' \<Rightarrow> b') xs b) = length b"
  by (induction xs arbitrary: b) (auto simp: bf_fill_range_length split: option.splits)

lemma fill_fold_bit:
  "bf_bit (fold (\<lambda>(_, fi) b. case bf_fill_range b (piece_range_usize fi) True of
       None \<Rightarrow> b | Some b' \<Rightarrow> b') xs b) i \<longleftrightarrow>
     bf_bit b i \<or> (\<exists>(k, fi) \<in> set xs. snd (piece_range fi) \<le> length b
        \<and> fst (piece_range fi) \<le> i \<and> i < snd (piece_range fi))"
proof (induction xs arbitrary: b)
  case Nil
  then show ?case by simp
next
  case (Cons x xs)
  obtain k fi where x: "x = (k, fi)" by (cases x)
  let ?b = "case bf_fill_range b (piece_range fi) True of None \<Rightarrow> b | Some b' \<Rightarrow> b'"
  have l: "length ?b = length b"
    by (auto simp: bf_fill_range_length split: option.splits)
  have bit: "bf_bit ?b i \<longleftrightarrow> bf_bit b i \<or> snd (piece_range fi) \<le> length b
        \<and> fst (piece_range fi) \<le> i \<and> i < snd (piece_range fi)"
  proof (cases "bf_fill_range b (piece_range fi) True")
    case None
    then have "\<not> (fst (piece_range fi) \<le> snd (piece_range fi) \<and> snd (piece_range fi) \<le> length b)"
      by (auto simp: bf_fill_range_def bf_put_range_def split: if_splits)
    with None show ?thesis by auto
  next
    case (Some b')
    then have "snd (piece_range fi) \<le> length b"
      by (auto simp: bf_fill_range_def bf_put_range_def split: if_splits)
    with Some show ?thesis by (auto simp: bf_fill_range_bit [OF Some])
  qed
  show ?case
    using Cons.IH [of ?b] by (auto simp: x piece_range_usize_def l bit)
qed

lemma length_compute_selected [simp]:
  "length (compute_selected_pieces L P fis) = 8 * piece_bitfield_bytes L"
  by (simp add: compute_selected_pieces_def fill_fold_length)

lemma compute_selected_bit:
  "bf_bit (compute_selected_pieces L P fis) i \<longleftrightarrow>
     (\<exists>k<length fis. P k \<and> \<not> padding (fis ! k)
        \<and> snd (piece_range (fis ! k)) \<le> 8 * piece_bitfield_bytes L
        \<and> fst (piece_range (fis ! k)) \<le> i \<and> i < snd (piece_range (fis ! k)))"
  unfolding compute_selected_pieces_def fill_fold_bit
  by (fastforce simp: set_enum)

lemma set_bits_fold:
  assumes "\<And>i. i \<in> set is \<Longrightarrow> i < length b"
  shows "\<exists>b'. res_fold (\<lambda>idx b. bf_set b idx True) is b = Inr b' \<and> length b' = length b
    \<and> (\<forall>i. bf_bit b' i \<longleftrightarrow> bf_bit b i \<or> i \<in> set is)"
  using assms
proof (induction "is" arbitrary: b)
  case Nil
  then show ?case by simp
next
  case (Cons j js)
  have "\<exists>b'. res_fold (\<lambda>idx b. bf_set b idx True) js (b[j := True]) = Inr b'
      \<and> length b' = length (b[j := True])
      \<and> (\<forall>i. bf_bit b' i \<longleftrightarrow> bf_bit (b[j := True]) i \<or> i \<in> set js)"
    by (rule Cons.IH) (use Cons.prems in auto)
  then show ?case using Cons.prems by auto
qed

lemma mark_piece_broken_spec:
  assumes "ct_shape t" and "p < total_pieces (ct_lengths t)"
  obtains t' where "mark_piece_broken_if_not_have p t = Inr t'"
    and "ct_shape t'" and "hns_spec t' = hns_spec t" and "hns t' = hns t"
    and "have_pieces t' = have_pieces t" and "selected t' = selected t"
    and "ct_lengths t' = ct_lengths t" and "per_file_bytes t' = per_file_bytes t"
    and "\<And>i. bf_bit (queue_pieces t') i \<longleftrightarrow>
           bf_bit (queue_pieces t) i \<or> (i = p \<and> \<not> bf_bit (have_pieces t) p)"
    and "\<And>k. bf_bit (chunk_status t') k \<longleftrightarrow> bf_bit (chunk_status t) k \<and>
           (bf_bit (have_pieces t) p \<or> \<not> (fst (chunk_range (ct_lengths t) p) \<le> k
              \<and> k < snd (chunk_range (ct_lengths t) p)))"
proof -
  obtain cs where cs: "bf_fill_range (chunk_status t) (chunk_range (ct_lengths t) p) False = Some cs"
    and eq: "mark_piece_broken_if_not_have p t = Inr (if bf_bit (have_pieces t) p then t
          else t\<lparr>queue_pieces := (queue_pieces t)[p := True], chunk_status := cs\<rparr>)"
    using mark_piece_broken_eq [OF assms] by blast
  show thesis
  proof (cases "bf_bit (have_pieces t) p")
    case True
    show thesis by (rule that [of t]) (use assms True eq in auto)
  next
    case False
    let ?t = "t\<lparr>queue_pieces := (queue_pieces t)[p := True], chunk_status := cs\<rparr>"
    have sh: "ct_shape ?t"
      by (rule ct_shapeI) (use assms(1) bf_fill_range_length [OF cs] in simp_all)
    have p: "p < length (queue_pieces t)" using assms by (simp add: valid_in_range)
    have q: "bf_bit (queue_pieces ?t) i \<longleftrightarrow>
        bf_bit (queue_pieces t) i \<or> (i = p \<and> \<not> bf_bit (have_pieces t) p)" for i
      using False p by simp
    have k: "bf_bit (chunk_status ?t) k \<longleftrightarrow> bf_bit (chunk_status t) k \<and>
        (bf_bit (have_pieces t) p \<or> \<not> (fst (chunk_range (ct_lengths t) p) \<le> k
           \<and> k < snd (chunk_range (ct_lengths t) p)))" for k
      using False by (simp add: bf_fill_range_bit [OF cs])
    show thesis
      by (rule that [OF _ sh _ _ _ _ _ _ q k]) (simp_all add: False eq)
  qed
qed

lemma requeue_fold:
  assumes "ct_shape t"
  shows "\<exists>t'. res_fold (requeue_piece (ct_lengths t)) is t = Inr t' \<and> ct_shape t'
    \<and> hns_spec t' = hns_spec t \<and> have_pieces t' = have_pieces t \<and> selected t' = selected t
    \<and> ct_lengths t' = ct_lengths t \<and> per_file_bytes t' = per_file_bytes t
    \<and> (\<forall>i. bf_bit (queue_pieces t') i \<longleftrightarrow> bf_bit (queue_pieces t) i \<or>
         (i \<in> set is \<and> i < total_pieces (ct_lengths t) \<and> \<not> bf_bit (have_pieces t) i))"
  using assms
proof (induction "is" arbitrary: t)
  case Nil
  then show ?case by simp
next
  case (Cons p ps)
  note ok = lengths_okD [OF ct_shapeD(1) [OF Cons.prems]]
  show ?case
  proof (cases "p < total_pieces (ct_lengths t)")
    case True
    then have p32: "p < 2 ^ 32" using ok(6) by linarith
    obtain t1 where
      t1: "mark_piece_broken_if_not_have p t = Inr t1" "ct_shape t1" "hns_spec t1 = hns_spec t"
        "have_pieces t1 = have_pieces t" "selected t1 = selected t"
        "ct_lengths t1 = ct_lengths t" "per_file_bytes t1 = per_file_bytes t"
        "\<And>i. bf_bit (queue_pieces t1) i \<longleftrightarrow>
           bf_bit (queue_pieces t) i \<or> (i = p \<and> \<not> bf_bit (have_pieces t) p)"
      by (rule mark_piece_broken_spec [OF Cons.prems True], rule that)
    have step: "requeue_piece (ct_lengths t) p t = Inr t1"
      unfolding requeue_piece_def ok(2) using True p32 t1(1) by (simp only: if_True option.case)
    show ?thesis
      using Cons.IH [OF t1(2)] True by (auto simp: step t1)
  next
    case False
    then have step: "requeue_piece (ct_lengths t) p t = Inr t"
      by (simp add: requeue_piece_def ok(2))
    show ?thesis
      using Cons.IH [OF Cons.prems] False by (auto simp: step)
  qed
qed

lemma update_only_files_spec:
  assumes "ct_shape t"
  shows "\<exists>t'. update_only_files fis new t = Inr (hns t', t') \<and> ct_inv t'
    \<and> have_pieces t' = have_pieces t \<and> ct_lengths t' = ct_lengths t
    \<and> per_file_bytes t' = per_file_bytes t
    \<and> selected t' = compute_selected_pieces (ct_lengths t) (\<lambda>k. k \<in> new) fis
    \<and> (\<forall>i. bf_bit (queue_pieces t') i \<longleftrightarrow>
         (bf_bit (queue_pieces t) i \<or> (i < total_pieces (ct_lengths t)
            \<and> bf_bit (selected t') i \<and> \<not> bf_bit (selected t) i \<and> \<not> bf_bit (have_pieces t) i))
         \<and> (bf_bit (selected t') i \<or> bf_bit (have_pieces t) i))"
proof -
  let ?L = "ct_lengths t" and ?n = "8 * piece_bitfield_bytes (ct_lengths t)"
  let ?sel = "compute_selected_pieces ?L (\<lambda>k. k \<in> new) fis"
  let ?t1 = "t\<lparr>selected := ?sel\<rparr>"
  let ?idxs = "filter (\<lambda>i. \<not> bf_bit (selected t) i \<and> \<not> bf_bit (have_pieces t) i) (bf_iter_ones ?sel)"
  have in_range: "i < ?n" if "bf_bit ?sel i" for i
    using that by (simp add: bf_bit_def)
  have sh1: "ct_shape ?t1" by (rule ct_shapeI) (use assms in simp_all)
  have filter_ok: "res_filter (\<lambda>idx. res_bind (bf_index (selected t) idx) (\<lambda>p.
       if p then Inr False
       else res_bind (bf_index (have_pieces ?t1) idx) (\<lambda>h. Inr (\<not> h)))) (bf_iter_ones ?sel)
     = Inr ?idxs"
    by (rule res_filter_total) (use assms in_range in auto)
  have "\<exists>b. res_fold (\<lambda>idx b. bf_set b idx True) ?idxs (bf_zero (piece_bitfield_bytes ?L)) = Inr b
      \<and> length b = length (bf_zero (piece_bitfield_bytes ?L))
      \<and> (\<forall>i. bf_bit b i \<longleftrightarrow> bf_bit (bf_zero (piece_bitfield_bytes ?L)) i \<or> i \<in> set ?idxs)"
    by (rule set_bits_fold) (use in_range in auto)
  then obtain b where b:
    "res_fold (\<lambda>idx b. bf_set b idx True) ?idxs (bf_zero (piece_bitfield_bytes ?L)) = Inr b"
    "\<And>i. bf_bit b i \<longleftrightarrow> i \<in> set ?idxs" by auto
  obtain t2 where t2: "res_fold (requeue_piece ?L) (bf_iter_ones b) ?t1 = Inr t2" "ct_shape t2"
    "have_pieces t2 = have_pieces t" "selected t2 = ?sel"
    "ct_lengths t2 = ?L" "per_file_bytes t2 = per_file_bytes t"
    "\<And>i. bf_bit (queue_pieces t2) i \<longleftrightarrow> bf_bit (queue_pieces t) i \<or>
       (bf_bit b i \<and> i < total_pieces ?L \<and> \<not> bf_bit (have_pieces t) i)"
    using requeue_fold [OF sh1, of "bf_iter_ones b"] by auto
  let ?t3 = "t2\<lparr>queue_pieces := bf_and (queue_pieces t2) (bf_or (selected t2) (have_pieces t2))\<rparr>"
  have sh3: "ct_shape ?t3" by (rule ct_shapeI) (use t2(2) in simp_all)
  let ?t4 = "?t3\<lparr>hns := hns_spec ?t3\<rparr>"
  have sh4: "ct_shape ?t4" by (rule ct_shapeI) (use t2(2) in simp_all)
  have eq: "update_only_files fis new t = Inr (hns ?t4, ?t4)"
    by (simp add: update_only_files_def Let_def filter_ok b(1) t2(1) calc_hns_eq [OF sh3])
  have q: "bf_bit (queue_pieces ?t4) i \<longleftrightarrow>
         (bf_bit (queue_pieces t) i \<or> (i < total_pieces ?L
            \<and> bf_bit ?sel i \<and> \<not> bf_bit (selected t) i \<and> \<not> bf_bit (have_pieces t) i))
         \<and> (bf_bit ?sel i \<or> bf_bit (have_pieces t) i)" for i
  proof -
    have "bf_bit (bf_or (selected t2) (have_pieces t2)) i
        \<longleftrightarrow> bf_bit (selected t2) i \<or> bf_bit (have_pieces t2) i"
      by (rule bf_bit_or) (use t2(2) in simp)
    then have "bf_bit (queue_pieces ?t4) i \<longleftrightarrow> bf_bit (queue_pieces t2) i
        \<and> (bf_bit ?sel i \<or> bf_bit (have_pieces t) i)"
      by (simp add: t2(3,4))
    moreover have "bf_bit b i \<longleftrightarrow>
        bf_bit ?sel i \<and> \<not> bf_bit (selected t) i \<and> \<not> bf_bit (have_pieces t) i"
      by (simp add: b(2))
    ultimately show ?thesis using t2(7) [of i] by blast
  qed
  have "ct_inv ?t4" by (rule ct_invI [OF sh4]) simp
  then show ?thesis
    using eq q by (intro exI [of _ ?t4] conjI allI) (simp_all add: t2)
qed

subsection \<open>Marking chunks\<close>

text \<open>The chunks of a piece that are recorded as written.\<close>

definition chunk_done :: "chunk_tracker \<Rightarrow> nat \<Rightarrow> nat \<Rightarrow> bool" where
  "chunk_done t p c = bf_bit (chunk_status t) (fst (chunk_range (ct_lengths t) p) + c)"

definition piece_chunks_done :: "chunk_tracker \<Rightarrow> nat \<Rightarrow> bool" where
  "piece_chunks_done t p \<longleftrightarrow> (\<forall>c<chunks_per_piece (ct_lengths t) p. chunk_done t p c)"

lemma chunk_range_slice:
  assumes "ct_shape t" and "p < total_pieces (ct_lengths t)"
  obtains s where "bf_get_range (chunk_status t) (chunk_range (ct_lengths t) p) = Some s"
    and "length s = chunks_per_piece (ct_lengths t) p"
    and "\<And>c. c < chunks_per_piece (ct_lengths t) p \<Longrightarrow> s ! c = chunk_done t p c"
    and "bf_all s \<longleftrightarrow> piece_chunks_done t p"
proof -
  let ?r = "chunk_range (ct_lengths t) p"
  note ch = lengths_ok_chunks [OF ct_shapeD(1) [OF assms(1)] assms(2)]
  have "\<exists>s. bf_get_range (chunk_status t) ?r = Some s"
    using assms(1) ch by (subst bf_get_range_Some_iff) auto
  then obtain s where s: "bf_get_range (chunk_status t) ?r = Some s" by blast
  have len: "length s = chunks_per_piece (ct_lengths t) p"
    using bf_get_range_length [OF s] ch by simp
  have nth: "s ! c = chunk_done t p c" if "c < chunks_per_piece (ct_lengths t) p" for c
    using bf_get_range_nth [OF s, of c] that len by (simp add: chunk_done_def)
  have all: "bf_all s \<longleftrightarrow> piece_chunks_done t p"
    by (auto simp: bf_all_iff piece_chunks_done_def len nth)
  show thesis by (rule that [OF s len nth all])
qed

lemma mark_chunk_downloaded_spec:
  assumes "ct_shape t" and "pm_index m < total_pieces (ct_lengths t)" and "pm_len m < 2 ^ 32"
    and "chunk_info_from_received_data (ct_lengths t) (pm_index m) (pm_begin m) (pm_len m) = Some ci"
  shows "\<exists>r t'. mark_chunk_downloaded m t = Inr (Some r, t') \<and> ct_shape t'
    \<and> queue_pieces t' = queue_pieces t \<and> have_pieces t' = have_pieces t
    \<and> selected t' = selected t \<and> ct_lengths t' = ct_lengths t \<and> hns t' = hns t
    \<and> per_file_bytes t' = per_file_bytes t
    \<and> (\<forall>k. bf_bit (chunk_status t') k \<longleftrightarrow> bf_bit (chunk_status t) k
           \<or> k = fst (chunk_range (ct_lengths t) (pm_index m)) + chunk_index ci)
    \<and> r = (if piece_chunks_done t (pm_index m) then PreviouslyCompleted
           else if piece_chunks_done t' (pm_index m) then Completed else NotCompleted)"
proof -
  let ?L = "ct_lengths t" and ?p = "pm_index m"
  let ?r = "chunk_range ?L ?p"
  have ok: "lengths_ok ?L" using assms(1) by simp
  note ch = lengths_ok_chunks [OF ok assms(2)]
  have ci: "piece_index ci = ?p" "chunk_index ci < chunks_per_piece ?L ?p"
    using lengths_ok_received [OF ok assms(4,2)] by auto
  have v: "validate_piece_index ?L ?p = Some ?p"
    using lengths_okD(2) [OF ok] assms(2) by simp
  obtain s where s: "bf_get_range (chunk_status t) ?r = Some s"
    "length s = chunks_per_piece ?L ?p"
    "\<And>c. c < chunks_per_piece ?L ?p \<Longrightarrow> s ! c = chunk_done t ?p c"
    "bf_all s \<longleftrightarrow> piece_chunks_done t ?p"
    by (rule chunk_range_slice [OF assms(1,2)], rule that)
  note unf = mark_chunk_downloaded_def Let_def v option.case assms(4) ci(1) s(1) ok_or_simps
    res_bind_simps
  show ?thesis
  proof (cases "piece_chunks_done t ?p")
    case True
    then have "chunk_done t ?p (chunk_index ci)"
      using ci(2) by (simp add: piece_chunks_done_def)
    then have bit: "\<forall>k. bf_bit (chunk_status t) k \<longleftrightarrow> bf_bit (chunk_status t) k
        \<or> k = fst ?r + chunk_index ci"
      by (auto simp: chunk_done_def)
    have "mark_chunk_downloaded m t = Inr (Some PreviouslyCompleted, t)"
      unfolding unf using True s(4) assms(3) by simp
    then show ?thesis using assms(1) bit True by auto
  next
    case False
    let ?s = "s[chunk_index ci := True]"
    have "\<exists>cs. bf_put_range (chunk_status t) ?r ?s = Some cs"
      using s(1) by (auto simp: bf_get_range_def bf_put_range_def split: if_splits)
    then obtain cs where cs: "bf_put_range (chunk_status t) ?r ?s = Some cs" by blast
    have ls: "length ?s = snd ?r - fst ?r" using s(2) ch by simp
    let ?t = "t\<lparr>chunk_status := cs\<rparr>"
    have sh: "ct_shape ?t"
      by (rule ct_shapeI) (use assms(1) bf_put_range_length [OF cs ls] in simp_all)
    have bit: "bf_bit cs k \<longleftrightarrow> bf_bit (chunk_status t) k \<or> k = fst ?r + chunk_index ci" for k
    proof (cases "fst ?r \<le> k \<and> k < snd ?r")
      case True
      then have k: "k - fst ?r < chunks_per_piece ?L ?p" using ch by auto
      show ?thesis
        using True ci(2) s(2) s(3) [OF k]
        by (auto simp: bf_put_range_bit [OF cs ls] nth_list_update chunk_done_def)
    next
      case False
      then show ?thesis using ci(2) ch by (auto simp: bf_put_range_bit [OF cs ls])
    qed
    have all: "bf_all ?s \<longleftrightarrow> piece_chunks_done ?t ?p"
    proof -
      have "?s ! c = chunk_done ?t ?p c" if "c < chunks_per_piece ?L ?p" for c
        using that s(2,3) ci(2) by (auto simp: chunk_done_def bit nth_list_update)
      then show ?thesis by (auto simp: bf_all_iff piece_chunks_done_def s(2))
    qed
    have "mark_chunk_downloaded m t
        = Inr (Some (if piece_chunks_done ?t ?p then Completed else NotCompleted), ?t)"
      unfolding unf using False s(2,4) ci(2) assms(3) cs all by simp
    then show ?thesis using sh bit False by auto
  qed
qed

subsection \<open>Construction\<close>

lemma chunk_have_fold:
  assumes "lengths_ok L" and "total_pieces L \<le> length haves"
    and "\<And>i. i \<in> set xs \<Longrightarrow> i < total_pieces L" and "length b = 8 * chunk_bitfield_bytes L"
  shows "\<exists>b'. res_fold
        (mark_have_chunks L haves)
        (map (\<lambda>i. (i, f i)) xs) b = Inr b'
    \<and> length b' = 8 * chunk_bitfield_bytes L
    \<and> (\<forall>k. bf_bit b' k \<longleftrightarrow> bf_bit b k \<or> (\<exists>p \<in> set xs. bf_bit haves p
         \<and> fst (chunk_range L p) \<le> k \<and> k < snd (chunk_range L p)))"
  using assms(3,4)
proof (induction xs arbitrary: b)
  case Nil
  then show ?case by simp
next
  case (Cons p ps)
  then have p: "p < total_pieces L" "p < length haves" using assms(2) by force+
  note ch = lengths_ok_chunks [OF assms(1) p(1)]
  have off: "(default_chunks_per_piece L * p) mod 2 ^ 32 = default_chunks_per_piece L * p"
    using ch(6) by simp
  have "\<exists>b'. bf_fill_range b (chunk_range L p) True = Some b'"
    by (rule bf_fill_range_Some) (use ch Cons.prems(2) in auto)
  then obtain b1 where b1: "bf_fill_range b (chunk_range L p) True = Some b1" by blast
  let ?b = "if bf_bit haves p then b1 else b"
  have lb: "length ?b = 8 * chunk_bitfield_bytes L"
    using Cons.prems(2) bf_fill_range_length [OF b1] by simp
  have bb: "bf_bit ?b k \<longleftrightarrow> bf_bit b k \<or> (bf_bit haves p
      \<and> fst (chunk_range L p) \<le> k \<and> k < snd (chunk_range L p))" for k
    by (auto simp: bf_fill_range_bit [OF b1])
  have step: "mark_have_chunks L haves (p, f p) b = Inr ?b"
    using b1 by (simp add: mark_have_chunks_def Let_def off p(2) ch(4) del: power_numeral)
  have "\<And>i. i \<in> set ps \<Longrightarrow> i < total_pieces L" using Cons.prems(1) by simp
  from Cons.IH [OF this lb] show ?case
    unfolding list.map(2) res_fold.simps step res_bind_simps by (auto simp: bb)
qed

lemma compute_chunk_have_status_spec:
  assumes "lengths_ok L" and "total_pieces L \<le> length haves"
  shows "\<exists>cs. compute_chunk_have_status L haves = Inr cs
    \<and> length cs = 8 * chunk_bitfield_bytes L
    \<and> (\<forall>k. bf_bit cs k \<longleftrightarrow> (\<exists>p<total_pieces L. bf_bit haves p
         \<and> fst (chunk_range L p) \<le> k \<and> k < snd (chunk_range L p)))"
  using chunk_have_fold [OF assms, of "[0..<total_pieces L]"
      "bf_zero (chunk_bitfield_bytes L)" "piece_length L"] assms(2)
  unfolding compute_chunk_have_status_def lengths_okD(3) [OF assms(1)]
  by (auto simp: Bex_def)

definition file_have_sum :: "lengths \<Rightarrow> bf \<Rightarrow> file_info \<Rightarrow> nat" where
  "file_have_sum L haves fi =
     sum_list (map (\<lambda>id. size_of_piece_in_file L id (offset_in_torrent fi) (fi_len fi))
       (filter (bf_bit haves) (range_iter (piece_range fi))))"

lemma recalculate_slots_spec:
  assumes "length slots = length fis"
    and "\<And>fi. fi \<in> set fis \<Longrightarrow> snd (piece_range fi) \<le> length (have_pieces t)"
  shows "recalculate_slots t slots fis
     = Inr (map (file_have_sum (ct_lengths t) (have_pieces t)) fis)"
  using assms
proof (induction t slots fis rule: recalculate_slots.induct)
  case (3 t slot slots fi fis)
  have "res_filter (bf_index (have_pieces t)) (range_iter (piece_range fi))
      = Inr (filter (bf_bit (have_pieces t)) (range_iter (piece_range fi)))"
    by (rule res_filter_total) (use "3.prems"(2) [of fi] in \<open>auto simp: range_iter_def\<close>)
  then have v: "file_have_bytes t fi = Inr (file_have_sum (ct_lengths t) (have_pieces t) fi)"
    by (simp add: file_have_bytes_def file_have_sum_def)
  show ?case using "3.IH" "3.prems" by (simp add: v)
qed auto

lemma ct_new_spec:
  assumes "lengths_ok L" and "length haves = 8 * piece_bitfield_bytes L"
    and "length sel = length haves"
    and "\<And>fi. fi \<in> set fis \<Longrightarrow> snd (piece_range fi) \<le> length haves"
  obtains t where "ct_new haves sel L fis = Inr t" and "ct_inv t"
    and "have_pieces t = haves" and "selected t = sel" and "ct_lengths t = L"
    and "\<And>i. bf_bit (queue_pieces t) i \<longleftrightarrow> bf_bit sel i \<and> \<not> bf_bit haves i"
    and "\<And>p. p < total_pieces L \<Longrightarrow> piece_chunks_done t p \<longleftrightarrow> bf_bit haves p"
    and "per_file_bytes t = map (file_have_sum L haves) fis"
proof -
  have "total_pieces L \<le> length haves" using lengths_okD(1) [OF assms(1)] assms(2) by simp
  then obtain cs where cs: "compute_chunk_have_status L haves = Inr cs"
    "length cs = 8 * chunk_bitfield_bytes L"
    "\<And>k. bf_bit cs k \<longleftrightarrow> (\<exists>p<total_pieces L. bf_bit haves p
         \<and> fst (chunk_range L p) \<le> k \<and> k < snd (chunk_range L p))"
    using compute_chunk_have_status_spec [OF assms(1)] by metis
  let ?q = "bf_and (bf_not haves) sel"
  let ?ta = "\<lparr>queue_pieces = ?q, chunk_status = cs, have_pieces = haves, selected = sel,
                 per_file_bytes = replicate (length fis) 0, ct_lengths = L, hns = hns_default\<rparr>"
  let ?pf = "map (file_have_sum L haves) fis"
  let ?t1 = "?ta\<lparr>per_file_bytes := ?pf\<rparr>"
  let ?t = "?t1\<lparr>hns := hns_spec ?t1\<rparr>"
  have sh1: "ct_shape ?t1" by (rule ct_shapeI) (use assms cs(2) in simp_all)
  have sh: "ct_shape ?t" by (rule ct_shapeI) (use assms cs(2) in simp_all)
  have "recalculate_slots ?ta (replicate (length fis) 0) fis = Inr ?pf"
    by (subst recalculate_slots_spec) (use assms(4) in simp_all)
  then have eq: "ct_new haves sel L fis = Inr ?t"
    using calc_hns_eq [OF sh1] assms(3)
    by (simp add: ct_new_def compute_queued_pieces_def compute_queued_pieces_unchecked_def cs(1)
        recalculate_per_file_bytes_def)
  have inv: "ct_inv ?t" by (rule ct_invI [OF sh]) (simp add: hns_spec_def)
  have q: "bf_bit (queue_pieces ?t) i \<longleftrightarrow> bf_bit sel i \<and> \<not> bf_bit haves i" for i
    using assms(3) by (auto simp: bf_bit_def bf_and_def bf_not_def)
  have ch: "piece_chunks_done ?t p \<longleftrightarrow> bf_bit haves p" if p: "p < total_pieces L" for p
  proof -
    note c = lengths_ok_chunks [OF assms(1) p]
    have "chunk_done ?t p k \<longleftrightarrow> bf_bit haves p" if "k < chunks_per_piece L p" for k
    proof -
      have k: "fst (chunk_range L p) \<le> fst (chunk_range L p) + k"
        "fst (chunk_range L p) + k < snd (chunk_range L p)" using c that by auto
      show ?thesis
        using chunk_range_disjoint [OF assms(1) p _ _ k] k p by (auto simp: chunk_done_def cs(3))
    qed
    with c(1) show ?thesis by (auto simp: piece_chunks_done_def)
  qed
  show thesis by (rule that [OF eq inv _ _ _ q ch]) simp_all
qed

subsection \<open>The tracker as a transition system\<close>

text \<open>
  Initial states are what \<open>ct_new\<close> returns for bit fields of the prescribed size; a step is a
  successful call of a method that changes the tracker. A \<open>ValidPieceIndex\<close> argument is an index
  below the piece count.
\<close>

definition ct_init :: "file_infos \<Rightarrow> chunk_tracker \<Rightarrow> bool" where
  "ct_init fis t \<longleftrightarrow> (\<exists>haves sel L. lengths_ok L \<and> length haves = 8 * piece_bitfield_bytes L
     \<and> (\<forall>fi \<in> set fis. snd (piece_range fi) \<le> length haves)
     \<and> ct_new haves sel L fis = Inr t)"

inductive ct_step :: "file_infos \<Rightarrow> chunk_tracker \<Rightarrow> chunk_tracker \<Rightarrow> bool" for fis where
  step_reserve: "p < total_pieces (ct_lengths t) \<Longrightarrow> reserve_needed_piece p t = Inr t'
     \<Longrightarrow> ct_step fis t t'"
| step_broken: "p < total_pieces (ct_lengths t) \<Longrightarrow> mark_piece_broken_if_not_have p t = Inr t'
     \<Longrightarrow> ct_step fis t t'"
| step_downloaded: "p < total_pieces (ct_lengths t) \<Longrightarrow> mark_piece_downloaded p t = Inr t'
     \<Longrightarrow> ct_step fis t t'"
| step_chunk: "mark_chunk_downloaded m t = Inr (r, t') \<Longrightarrow> ct_step fis t t'"
| step_only_files: "update_only_files fis new t = Inr (h, t') \<Longrightarrow> ct_step fis t t'"
| step_file_have: "p < total_pieces (ct_lengths t) \<Longrightarrow>
     update_file_have_on_piece_completed p k fi t = Inr (r, t') \<Longrightarrow> ct_step fis t t'"

lemma ct_inv_downloaded:
  assumes "ct_inv t" and "p < total_pieces (ct_lengths t)" and "mark_piece_downloaded p t = Inr t'"
  shows "ct_inv t'"
proof -
  have t': "t' = t\<lparr>have_pieces := (have_pieces t)[p := True],
      hns := hns_spec (t\<lparr>have_pieces := (have_pieces t)[p := True]\<rparr>)\<rparr>"
    using assms mark_piece_downloaded_eq [OF assms(1,2)] by simp
  show ?thesis
    unfolding t' by (rule ct_invI, rule ct_shapeI) (use assms(1) in simp_all)
qed

lemma ct_inv_chunk:
  assumes "ct_inv t" and "mark_chunk_downloaded m t = Inr (r, t')"
  shows "ct_inv t'"
proof (cases "pm_index m < total_pieces (ct_lengths t)")
  case False
  then have "validate_piece_index (ct_lengths t) (pm_index m) = None"
    using assms(1) lengths_okD(2) [of "ct_lengths t"] by simp
  with assms show ?thesis by (simp add: mark_chunk_downloaded_def)
next
  case True
  then have v: "validate_piece_index (ct_lengths t) (pm_index m) = Some (pm_index m)"
    using assms(1) lengths_okD(2) [of "ct_lengths t"] by simp
  show ?thesis
  proof (cases "chunk_info_from_received_data (ct_lengths t) (pm_index m) (pm_begin m) (pm_len m)")
    case None
    with v assms show ?thesis by (auto simp: mark_chunk_downloaded_def Let_def split: if_splits)
  next
    case (Some ci)
    have len: "pm_len m < 2 ^ 32"
      using v assms(2) by (auto simp: mark_chunk_downloaded_def Let_def split: if_splits)
    have "ct_shape t' \<and> have_pieces t' = have_pieces t \<and> selected t' = selected t
        \<and> ct_lengths t' = ct_lengths t \<and> hns t' = hns t"
      using mark_chunk_downloaded_spec [OF ct_invD(1) [OF assms(1)] True len Some] assms(2) by auto
    then show ?thesis
      by (intro ct_invI) (use ct_invD(2) [OF assms(1)] in \<open>simp_all add: hns_spec_def\<close>)
  qed
qed

lemma ct_step_inv: "ct_step fis t t' \<Longrightarrow> ct_inv t \<Longrightarrow> ct_inv t'"
proof (induction rule: ct_step.induct)
  case (step_reserve p t t')
  then have t': "t' = t\<lparr>queue_pieces := (queue_pieces t)[p := False]\<rparr>"
    by (simp add: reserve_needed_piece_eq)
  show ?case unfolding t' by (rule ct_invI, rule ct_shapeI) (use step_reserve.prems in simp_all)
next
  case (step_broken p t t')
  obtain t'' where "mark_piece_broken_if_not_have p t = Inr t''" "ct_shape t''"
    "hns_spec t'' = hns_spec t" "hns t'' = hns t"
    by (rule mark_piece_broken_spec [OF ct_invD(1) [OF step_broken.prems] step_broken.hyps(1)],
        rule that)
  with step_broken show ?case by (intro ct_invI) simp_all
next
  case (step_downloaded p t t')
  then show ?case by (blast intro: ct_inv_downloaded)
next
  case (step_chunk m t r t')
  then show ?case by (blast intro: ct_inv_chunk)
next
  case (step_only_files new t h t')
  then show ?case using update_only_files_spec [OF ct_invD(1), of t fis new] by auto
next
  case (step_file_have p t k fi r t')
  then obtain pf where t': "t' = t\<lparr>per_file_bytes := pf\<rparr>"
    by (auto simp: update_file_have_on_piece_completed_def Let_def res_bind_eq_Inr)
  show ?case unfolding t' by (rule ct_invI, rule ct_shapeI) (use step_file_have.prems in simp_all)
qed

lemma ct_init_inv: "ct_init fis t \<Longrightarrow> ct_inv t"
proof -
  assume "ct_init fis t"
  then obtain haves sel L where h: "lengths_ok L" "length haves = 8 * piece_bitfield_bytes L"
    "\<And>fi. fi \<in> set fis \<Longrightarrow> snd (piece_range fi) \<le> length haves"
    "ct_new haves sel L fis = Inr t"
    unfolding ct_init_def by blast
  then have sel: "length sel = length haves"
    by (auto simp: ct_new_def compute_queued_pieces_def split: if_splits)
  show "ct_inv t"
    by (rule ct_new_spec [OF h(1,2) sel, of fis]) (use h(3,4) in auto)
qed

interpretation ct_sys: invariant_system "ct_init fis" "ct_step fis" ct_inv for fis
  by unfold_locales (auto intro: ct_init_inv ct_step_inv)

lemma ct_inv_finished_iff:
  "ct_inv t \<Longrightarrow> is_finished t \<longleftrightarrow>
     (\<forall>p<total_pieces (ct_lengths t). bf_bit (selected t) p \<longrightarrow> bf_bit (have_pieces t) p)"
  by (auto simp: is_finished_def hns_finished_def hns_spec_def bytes_where_zero_iff)

lemma ct_inv_progress:
  assumes "ct_inv t"
  shows "hns_progress (hns t) = Inr (bytes_where (ct_lengths t)
           (\<lambda>i. bf_bit (selected t) i \<and> bf_bit (have_pieces t) i))"
proof -
  let ?L = "ct_lengths t"
  have "bytes_where ?L (\<lambda>i. bf_bit (selected t) i \<and> bf_bit (have_pieces t) i)
      + bytes_where ?L (\<lambda>i. bf_bit (selected t) i \<and> \<not> bf_bit (have_pieces t) i)
      = bytes_where ?L (bf_bit (selected t))"
    unfolding bytes_where_def sum_list_addf [symmetric]
    by (rule arg_cong [where f = sum_list], rule map_cong) (auto simp: of_bool_def)
  then show ?thesis
    using assms by (simp add: hns_progress_def hns_spec_def checked_sub_def split: if_splits)
qed

lemma ct_init_shape: "reach (ct_init fis) (ct_step fis) t \<Longrightarrow> ct_inv t"
  by (rule ct_sys.reach_inv)

lemma mark_chunk_downloaded_total:
  assumes "ct_inv t" and "pm_len m < 2 ^ 32"
  shows "\<exists>r t'. mark_chunk_downloaded m t = Inr (r, t')"
proof (cases "pm_index m < total_pieces (ct_lengths t)")
  case False
  then show ?thesis
    using assms lengths_okD(2) [of "ct_lengths t" "pm_index m"]
    by (simp add: mark_chunk_downloaded_def)
next
  case True
  then have v: "validate_piece_index (ct_lengths t) (pm_index m) = Some (pm_index m)"
    using assms(1) lengths_okD(2) [of "ct_lengths t"] by simp
  show ?thesis
  proof (cases "chunk_info_from_received_data (ct_lengths t) (pm_index m) (pm_begin m) (pm_len m)")
    case None
    with v assms(2) show ?thesis by (simp add: mark_chunk_downloaded_def Let_def)
  next
    case (Some ci)
    then show ?thesis
      using mark_chunk_downloaded_spec [OF ct_invD(1) [OF assms(1)] True assms(2) Some] by blast
  qed
qed

subsection \<open>A concrete tracker\<close>

text \<open>Three pieces, two files sharing piece 1; piece 0 is there, everything is selected.\<close>

definition ex_files :: file_infos where
  "ex_files =
     [\<lparr>relative_filename = ''a'', offset_in_torrent = 0, piece_range = (0, 2), padding = False,
       fi_len = 6\<rparr>,
      \<lparr>relative_filename = ''b'', offset_in_torrent = 6, piece_range = (1, 3), padding = False,
       fi_len = 4\<rparr>]"

definition ex_tracker :: chunk_tracker where
  "ex_tracker = projr (ct_new [True, False, False, False, False, False, False, False]
     [True, True, True, False, False, False, False, False] ex_lengths ex_files)"

lemma ex_tracker_simps [simp]:
  "ct_lengths ex_tracker = ex_lengths"
  "queue_pieces ex_tracker = [False, True, True, False, False, False, False, False]"
  "chunk_status ex_tracker = [True, True, False, False, False, False, False, False]"
  "have_pieces ex_tracker = [True, False, False, False, False, False, False, False]"
  "selected ex_tracker = [True, True, True, False, False, False, False, False]"
  "per_file_bytes ex_tracker = [4, 0]"
  "hns ex_tracker = \<lparr>have_bytes = 4, needed_bytes = 6, selected_bytes = 10\<rparr>"
proof -
  show "queue_pieces ex_tracker = [False, True, True, False, False, False, False, False]"
    by code_simp
  show "chunk_status ex_tracker = [True, True, False, False, False, False, False, False]"
    by code_simp
  show "have_pieces ex_tracker = [True, False, False, False, False, False, False, False]"
    by code_simp
  show "selected ex_tracker = [True, True, True, False, False, False, False, False]"
    by code_simp
  show "per_file_bytes ex_tracker = [4, 0]" by code_simp
  show "hns ex_tracker = \<lparr>have_bytes = 4, needed_bytes = 6, selected_bytes = 10\<rparr>" by code_simp
  show "ct_lengths ex_tracker = ex_lengths"
    unfolding ex_tracker_def
    by (rule ct_new_spec [OF ex_lengths_ok, of "[True, False, False, False, False, False, False, False]"
          "[True, True, True, False, False, False, False, False]" ex_files])
      (auto simp: ex_files_def)
qed

lemma ex_tracker_init: "ct_init ex_files ex_tracker"
proof -
  let ?h = "[True, False, False, False, False, False, False, False]"
  let ?s = "[True, True, True, False, False, False, False, False]"
  have "ct_new ?h ?s ex_lengths ex_files = Inr ex_tracker"
    unfolding ex_tracker_def
    by (rule ct_new_spec [OF ex_lengths_ok, of ?h ?s ex_files]) (auto simp: ex_files_def)
  moreover have "\<forall>fi \<in> set ex_files. snd (piece_range fi) \<le> length ?h"
    by (simp add: ex_files_def)
  moreover have "length ?h = 8 * piece_bitfield_bytes ex_lengths" by simp
  ultimately show ?thesis
    unfolding ct_init_def using ex_lengths_ok by blast
qed

lemma ex_tracker_reach: "reach (ct_init ex_files) (ct_step ex_files) ex_tracker"
  by (rule reach_init, rule ex_tracker_init)

lemma ex_tracker_inv: "ct_inv ex_tracker"
  by (rule ct_init_inv, rule ex_tracker_init)

subsection \<open>Properties\<close>

text \<open>
  C13. The cached byte counts are in step with the bit fields in every state the tracker can reach
  through its methods: recomputing them from \<open>have\<close> and \<open>selected\<close> gives the cached value. They
  are bounded by the torrent length, so the \<open>u64\<close> sums never overflow.
\<close>

theorem hns_in_sync:
  assumes "reach (ct_init fis) (ct_step fis) t"
  shows "calc_hns t = Inr (hns t)
    \<and> needed_bytes (hns t) \<le> selected_bytes (hns t)
    \<and> selected_bytes (hns t) \<le> total_length (ct_lengths t)
    \<and> have_bytes (hns t) \<le> total_length (ct_lengths t)
    \<and> total_length (ct_lengths t) < 2 ^ 64"
proof -
  have inv: "ct_inv t" using assms by (rule ct_sys.reach_inv)
  then show ?thesis
    using lengths_okD(5) [of "ct_lengths t"]
    by (auto simp: calc_hns_eq hns_spec_def intro: bytes_where_mono bytes_where_le_total)
qed

theorem hns_in_sync_witness:
  "reach (ct_init ex_files) (ct_step ex_files) ex_tracker
    \<and> calc_hns ex_tracker = Inr \<lparr>have_bytes = 4, needed_bytes = 6, selected_bytes = 10\<rparr>"
  using ex_tracker_reach hns_in_sync [OF ex_tracker_reach] by simp

text \<open>
  No method of a reachable tracker panics on a valid piece index: indexing stays in range, the
  range of a piece's chunks exists, and \<open>needed_bytes -= len\<close> and \<open>progress()\<close> never underflow.
\<close>

theorem chunk_tracker_no_panic:
  assumes "reach (ct_init fis) (ct_step fis) t" and "p < total_pieces (ct_lengths t)"
    and "pm_len m < 2 ^ 32"
  shows "(\<exists>t'. reserve_needed_piece p t = Inr t')
    \<and> (\<exists>t'. mark_piece_broken_if_not_have p t = Inr t')
    \<and> (\<exists>t'. mark_piece_downloaded p t = Inr t')
    \<and> (\<exists>r t'. mark_chunk_downloaded m t = Inr (r, t'))
    \<and> (\<exists>h t'. update_only_files fis new t = Inr (h, t'))
    \<and> (\<exists>n. hns_progress (hns t) = Inr n)"
proof -
  have inv: "ct_inv t" using assms(1) by (rule ct_sys.reach_inv)
  note sh = ct_invD(1) [OF inv]
  show ?thesis
    using reserve_needed_piece_eq [OF sh assms(2)] mark_piece_broken_eq [OF sh assms(2)]
      mark_piece_downloaded_eq [OF inv assms(2)] mark_chunk_downloaded_total [OF inv assms(3)]
      update_only_files_spec [OF sh, of fis new] ct_inv_progress [OF inv]
    by blast
qed

theorem chunk_tracker_no_panic_witness:
  "(\<exists>t'. mark_piece_downloaded 1 ex_tracker = Inr t')
    \<and> (\<exists>r t'. mark_chunk_downloaded \<lparr>pm_index = 1, pm_begin = 0, pm_len = 2\<rparr> ex_tracker
        = Inr (r, t'))"
  using chunk_tracker_no_panic [OF ex_tracker_reach, of 1
      "\<lparr>pm_index = 1, pm_begin = 0, pm_len = 2\<rparr>" "{0}"] by simp

text \<open>
  A reachable tracker reports itself finished (\<open>needed_bytes = 0\<close>) exactly when every selected
  piece has been downloaded and verified.
\<close>

theorem finished_iff_selected_have:
  assumes "reach (ct_init fis) (ct_step fis) t"
  shows "is_finished t \<longleftrightarrow>
    (\<forall>p<total_pieces (ct_lengths t). bf_bit (selected t) p \<longrightarrow> bf_bit (have_pieces t) p)"
  using ct_sys.reach_inv [OF assms] by (rule ct_inv_finished_iff)

theorem finished_iff_selected_have_witness:
  "\<not> is_finished ex_tracker \<and> bf_bit (selected ex_tracker) 1 \<and> \<not> bf_bit (have_pieces ex_tracker) 1"
  using finished_iff_selected_have [OF ex_tracker_reach]
  by (auto simp: bf_bit_def is_finished_def hns_finished_def)

text \<open>
  Changing the file selection of a reachable tracker: the selected pieces are those of the
  chosen files that are not padding, \<open>have\<close> does not change, and a piece is queued afterwards iff it
  was queued before or is newly selected and missing, and is still selected (or already there).
\<close>

theorem update_only_files_effect:
  assumes "reach (ct_init fis) (ct_step fis) t" and "update_only_files fis new t = Inr (h, t')"
  shows "h = hns t' \<and> have_pieces t' = have_pieces t
    \<and> (\<forall>i. bf_bit (selected t') i \<longleftrightarrow>
         (\<exists>k<length fis. k \<in> new \<and> \<not> padding (fis ! k)
            \<and> snd (piece_range (fis ! k)) \<le> 8 * piece_bitfield_bytes (ct_lengths t)
            \<and> fst (piece_range (fis ! k)) \<le> i \<and> i < snd (piece_range (fis ! k))))
    \<and> (\<forall>i<total_pieces (ct_lengths t). bf_bit (queue_pieces t') i \<longleftrightarrow>
         (bf_bit (queue_pieces t) i
            \<or> bf_bit (selected t') i \<and> \<not> bf_bit (selected t) i \<and> \<not> bf_bit (have_pieces t) i)
         \<and> (bf_bit (selected t') i \<or> bf_bit (have_pieces t) i))"
  using update_only_files_spec [OF ct_invD(1) [OF ct_sys.reach_inv [OF assms(1)]], of fis new]
    assms(2)
  by (auto simp: compute_selected_bit)

theorem update_only_files_effect_witness:
  "case update_only_files ex_files {1} ex_tracker of Inl e \<Rightarrow> False
   | Inr (h, t') \<Rightarrow> have_pieces t' = have_pieces ex_tracker
       \<and> map (bf_bit (queue_pieces t')) [0, 1, 2] = [False, True, True]
       \<and> selected_bytes h = 6"
proof -
  obtain h t' where u: "update_only_files ex_files {1} ex_tracker = Inr (h, t')"
    using update_only_files_spec [OF ct_invD(1) [OF ex_tracker_inv], of ex_files "{1}"] by blast
  have v: "case update_only_files ex_files {1} ex_tracker of Inl e \<Rightarrow> False
     | Inr (h, t') \<Rightarrow> map (bf_bit (queue_pieces t')) [0, 1, 2] = [False, True, True]
         \<and> selected_bytes h = 6" by code_simp
  show ?thesis
    using v update_only_files_effect [OF ex_tracker_reach u] unfolding u by simp
qed

text \<open>
  Marking a received chunk: on a piece whose chunks are all recorded nothing changes and
  \<open>PreviouslyCompleted\<close> is returned; otherwise exactly the chunk's bit is set, and the answer is
  \<open>Completed\<close> iff that made the piece's last missing chunk.
\<close>

theorem mark_chunk_downloaded_effect:
  assumes "reach (ct_init fis) (ct_step fis) t" and "pm_index m < total_pieces (ct_lengths t)"
    and "pm_len m < 2 ^ 32"
    and "chunk_info_from_received_data (ct_lengths t) (pm_index m) (pm_begin m) (pm_len m) = Some ci"
  shows "\<exists>r t'. mark_chunk_downloaded m t = Inr (Some r, t')
    \<and> queue_pieces t' = queue_pieces t \<and> have_pieces t' = have_pieces t \<and> hns t' = hns t
    \<and> (\<forall>k. bf_bit (chunk_status t') k \<longleftrightarrow> bf_bit (chunk_status t) k
           \<or> k = fst (chunk_range (ct_lengths t) (pm_index m)) + chunk_index ci)
    \<and> r = (if piece_chunks_done t (pm_index m) then PreviouslyCompleted
           else if piece_chunks_done t' (pm_index m) then Completed else NotCompleted)"
  using mark_chunk_downloaded_spec [OF ct_invD(1) [OF ct_sys.reach_inv [OF assms(1)]] assms(2-4)]
  by blast

theorem mark_chunk_downloaded_effect_witness:
  "\<exists>t'. mark_chunk_downloaded \<lparr>pm_index = 2, pm_begin = 0, pm_len = 2\<rparr> ex_tracker
      = Inr (Some Completed, t') \<and> have_pieces t' = have_pieces ex_tracker"
proof -
  let ?m = "\<lparr>pm_index = 2, pm_begin = 0, pm_len = 2\<rparr> :: piece_msg"
  have "chunk_info_from_received_data ex_lengths 2 0 2 = Some (ex_chunk 2 0)"
    by (simp add: ex_lengths_def ex_piece_length_def)
  then obtain r t' where r: "mark_chunk_downloaded ?m ex_tracker = Inr (Some r, t')"
    "have_pieces t' = have_pieces ex_tracker"
    using mark_chunk_downloaded_effect [OF ex_tracker_reach, of ?m] by force
  have "case mark_chunk_downloaded ?m ex_tracker of Inr (Some Completed, _) \<Rightarrow> True | _ \<Rightarrow> False"
    by code_simp
  with r show ?thesis by (cases r) auto
qed

text \<open>
  Construction: from bit fields of the prescribed size the constructor returns a tracker whose
  queue holds exactly the selected pieces that are missing, whose chunk bits are complete exactly
  for the pieces that are there, and whose per-file byte counts sum the downloaded parts of each
  file; bit fields of different sizes are an error.
\<close>

theorem ct_new_correct:
  assumes "lengths_ok L" and "length haves = 8 * piece_bitfield_bytes L"
    and "\<forall>fi \<in> set fis. snd (piece_range fi) \<le> length haves"
  shows "(length sel \<noteq> length haves \<longrightarrow>
      ct_new haves sel L fis = Inl (Bail ''have_pieces.len() != selected_pieces.len()''))
    \<and> (length sel = length haves \<longrightarrow> (\<exists>t. ct_new haves sel L fis = Inr t
        \<and> (\<forall>i. bf_bit (queue_pieces t) i \<longleftrightarrow> bf_bit sel i \<and> \<not> bf_bit haves i)
        \<and> (\<forall>p<total_pieces L. piece_chunks_done t p \<longleftrightarrow> bf_bit haves p)
        \<and> per_file_bytes t = map (file_have_sum L haves) fis))"
proof (intro conjI impI)
  show "ct_new haves sel L fis = Inl (Bail ''have_pieces.len() != selected_pieces.len()'')"
    if "length sel \<noteq> length haves"
    using that by (simp add: ct_new_def compute_queued_pieces_def eq_commute)
next
  assume "length sel = length haves"
  note sl = this
  obtain t where "ct_new haves sel L fis = Inr t"
      "\<And>i. bf_bit (queue_pieces t) i \<longleftrightarrow> bf_bit sel i \<and> \<not> bf_bit haves i"
      "\<And>p. p < total_pieces L \<Longrightarrow> piece_chunks_done t p \<longleftrightarrow> bf_bit haves p"
      "per_file_bytes t = map (file_have_sum L haves) fis"
    by (rule ct_new_spec [OF assms(1,2) sl, of fis], use assms(3) in blast, rule that)
  then show "\<exists>t. ct_new haves sel L fis = Inr t
        \<and> (\<forall>i. bf_bit (queue_pieces t) i \<longleftrightarrow> bf_bit sel i \<and> \<not> bf_bit haves i)
        \<and> (\<forall>p<total_pieces L. piece_chunks_done t p \<longleftrightarrow> bf_bit haves p)
        \<and> per_file_bytes t = map (file_have_sum L haves) fis"
    by blast
qed

theorem ct_new_correct_witness:
  "ct_new (replicate 8 True) [True] ex_lengths ex_files
     = Inl (Bail ''have_pieces.len() != selected_pieces.len()'')"
  using ct_new_correct [OF ex_lengths_ok, of "replicate 8 True" ex_files "[True]"]
  by (simp add: ex_files_def)

end
