(* ===== verification/Piece_Tracker.thy ===== *)
theory Piece_Tracker
  imports Chunk_Tracker
begin

text \<open>
  \<open>src/src/piece_tracker.rs\<close>: assigns pieces to peers. The tracker wraps a chunk tracker with the
  map of in-flight pieces. \<open>Instant\<close>s and \<open>Duration\<close>s are nanosecond counts, \<open>Instant::now()\<close> is an
  argument \<open>now\<close>, \<open>elapsed()\<close> saturates at zero. The steal thresholds 10.0 and 3.0 multiply a
  duration that is a whole number of milliseconds, so the product is taken exactly. The closures
  of the request are functions; \<open>priority_pieces\<close> is the list the iterator would yield.
\<close>

record inflight_piece =
  ifp_peer :: peer_handle
  ifp_started :: nat

datatype acquire_result = Reserved nat | Stolen nat peer_handle | NoneAvailable

record acquire_request =
  rq_peer :: peer_handle
  rq_peer_avg_time :: "nat option"
  rq_priority_pieces :: "nat list"
  rq_file_priorities :: file_priorities
  rq_file_infos :: file_infos
  rq_peer_has_piece :: "nat \<Rightarrow> bool"
  rq_can_steal :: "nat \<Rightarrow> bool"

record piece_tracker =
  chunks :: chunk_tracker
  inflight :: "(nat \<times> inflight_piece) list"

definition pt_new :: "chunk_tracker \<Rightarrow> piece_tracker" where
  "pt_new c = \<lparr>chunks = c, inflight = []\<rparr>"

definition into_chunks :: "piece_tracker \<Rightarrow> chunk_tracker res" where
  "into_chunks t = res_fold mark_piece_broken_if_not_have (map fst (inflight t)) (chunks t)"

definition reserve_piece ::
  "nat \<Rightarrow> peer_handle \<Rightarrow> nat \<Rightarrow> piece_tracker \<Rightarrow> (acquire_result \<times> piece_tracker) res" where
  "reserve_piece piece peer now t =
     res_bind (reserve_needed_piece piece (chunks t)) (\<lambda>c.
       Inr (Reserved piece,
            \<lparr>chunks = c, inflight = AList.update piece \<lparr>ifp_peer = peer, ifp_started = now\<rparr>
               (inflight t)\<rparr>))"

definition steal_candidates ::
  "acquire_request \<Rightarrow> nat \<Rightarrow> nat \<Rightarrow> piece_tracker \<Rightarrow> (nat \<times> peer_handle \<times> nat) list" where
  "steal_candidates req min_elapsed now t =
     filter (\<lambda>(_, _, elapsed). min_elapsed \<le> elapsed)
       (map (\<lambda>(p, info). (p, ifp_peer info, now - ifp_started info))
         (filter (\<lambda>(p, _). rq_peer_has_piece req p)
           (filter (\<lambda>(_, info). ifp_peer info \<noteq> rq_peer req) (inflight t))))"

definition try_steal ::
  "acquire_request \<Rightarrow> nat \<Rightarrow> nat \<Rightarrow> piece_tracker \<Rightarrow> acquire_result option \<times> piece_tracker" where
  "try_steal req threshold now t =
     (case rq_peer_avg_time req of None \<Rightarrow> (None, t)
      | Some my_avg \<Rightarrow>
        let min_elapsed = my_avg * threshold in
        case max_by_key (\<lambda>(_, _, elapsed). elapsed) (steal_candidates req min_elapsed now t) of
          None \<Rightarrow> (None, t)
        | Some (piece, old_peer, _) \<Rightarrow>
          if \<not> rq_can_steal req piece then (None, t)
          else case map_of (inflight t) piece of
            None \<Rightarrow> (None, t)
          | Some info \<Rightarrow>
            (Some (Stolen piece old_peer),
             t\<lparr>inflight := AList.update piece \<lparr>ifp_peer = rq_peer req, ifp_started = now\<rparr>
                (inflight t)\<rparr>))"

text \<open>The loop over the priority pieces: the first one that is neither there nor in flight.\<close>

fun first_priority :: "acquire_request \<Rightarrow> piece_tracker \<Rightarrow> nat list \<Rightarrow> nat option res" where
  "first_priority req t [] = Inr None"
| "first_priority req t (piece # ps) =
     res_bind (is_piece_have piece (chunks t)) (\<lambda>h.
       if \<not> h \<and> map_of (inflight t) piece = None \<and> rq_peer_has_piece req piece
       then Inr (Some piece) else first_priority req t ps)"

definition acquire_piece ::
  "acquire_request \<Rightarrow> nat \<Rightarrow> piece_tracker \<Rightarrow> (acquire_result \<times> piece_tracker) res" where
  "acquire_piece req now t =
     (case try_steal req 10 now t of
        (Some r, t') \<Rightarrow> Inr (r, t')
      | (None, t) \<Rightarrow>
        res_bind (first_priority req t (rq_priority_pieces req)) (\<lambda>pri.
        case pri of Some piece \<Rightarrow> reserve_piece piece (rq_peer req) now t
        | None \<Rightarrow>
          res_bind (iter_queued_pieces (rq_file_priorities req) (rq_file_infos req) (chunks t))
            (\<lambda>queued.
             case find (rq_peer_has_piece req) queued of
               Some piece \<Rightarrow> reserve_piece piece (rq_peer req) now t
             | None \<Rightarrow>
               (case try_steal req 3 now t of
                  (Some r, t') \<Rightarrow> Inr (r, t')
                | (None, t') \<Rightarrow> Inr (NoneAvailable, t')))))"

definition take_inflight :: "nat \<Rightarrow> nat \<Rightarrow> piece_tracker \<Rightarrow> nat option \<times> piece_tracker" where
  "take_inflight piece now t =
     (case map_of (inflight t) piece of
        None \<Rightarrow> (None, t)
      | Some i \<Rightarrow> (Some (now - ifp_started i), t\<lparr>inflight := AList.delete piece (inflight t)\<rparr>))"

definition mark_piece_hash_ok :: "nat \<Rightarrow> piece_tracker \<Rightarrow> piece_tracker res" where
  "mark_piece_hash_ok piece t =
     res_bind (mark_piece_downloaded piece (chunks t)) (\<lambda>c. Inr (t\<lparr>chunks := c\<rparr>))"

definition mark_piece_hash_failed :: "nat \<Rightarrow> piece_tracker \<Rightarrow> piece_tracker res" where
  "mark_piece_hash_failed piece t =
     res_bind (mark_piece_broken_if_not_have piece (chunks t)) (\<lambda>c. Inr (t\<lparr>chunks := c\<rparr>))"

text \<open>One iteration of the release loop: out of the in-flight map, back into the queue.\<close>

definition release_piece :: "nat \<Rightarrow> piece_tracker \<Rightarrow> piece_tracker res" where
  "release_piece piece t =
     (let t1 = t\<lparr>inflight := AList.delete piece (inflight t)\<rparr> in
      res_bind (mark_piece_broken_if_not_have piece (chunks t1)) (\<lambda>c. Inr (t1\<lparr>chunks := c\<rparr>)))"

definition release_pieces_owned_by ::
  "peer_handle \<Rightarrow> piece_tracker \<Rightarrow> (nat \<times> piece_tracker) res" where
  "release_pieces_owned_by peer t =
     (let pieces_to_release = map fst (filter (\<lambda>(_, info). ifp_peer info = peer) (inflight t)) in
      res_bind (res_fold release_piece pieces_to_release t) (\<lambda>t'.
        Inr (length pieces_to_release, t')))"

definition get_inflight :: "nat \<Rightarrow> piece_tracker \<Rightarrow> inflight_piece option" where
  "get_inflight piece t = map_of (inflight t) piece"

definition is_inflight :: "nat \<Rightarrow> piece_tracker \<Rightarrow> bool" where
  "is_inflight piece t \<longleftrightarrow> map_of (inflight t) piece \<noteq> None"

definition inflight_count :: "piece_tracker \<Rightarrow> nat" where
  "inflight_count t = length (inflight t)"

definition pt_mark_chunk_downloaded ::
  "piece_msg \<Rightarrow> piece_tracker \<Rightarrow> (chunk_marking_result option \<times> piece_tracker) res" where
  "pt_mark_chunk_downloaded piece t =
     res_bind (mark_chunk_downloaded piece (chunks t)) (\<lambda>(r, c). Inr (r, t\<lparr>chunks := c\<rparr>))"

definition pt_update_only_files ::
  "file_infos \<Rightarrow> nat set \<Rightarrow> piece_tracker \<Rightarrow> (have_needed_selected \<times> piece_tracker) res" where
  "pt_update_only_files fis new_only_files t =
     res_bind (update_only_files fis new_only_files (chunks t)) (\<lambda>(h, c). Inr (h, t\<lparr>chunks := c\<rparr>))"

definition pt_update_file_have_on_piece_completed ::
  "nat \<Rightarrow> nat \<Rightarrow> file_info \<Rightarrow> piece_tracker \<Rightarrow> (nat \<times> piece_tracker) res" where
  "pt_update_file_have_on_piece_completed piece_id file_id fi t =
     res_bind (update_file_have_on_piece_completed piece_id file_id fi (chunks t))
       (\<lambda>(r, c). Inr (r, t\<lparr>chunks := c\<rparr>))"

subsection \<open>The interface the piece tracker relies on\<close>

text \<open>
  What the piece tracker needs of the chunk tracker: an index check, the two bit sets \<open>queued\<close> and
  \<open>haves\<close>, and three operations with their exact effect on them.
\<close>

locale piece_store =
  fixes valid :: "'c \<Rightarrow> nat \<Rightarrow> bool"
    and inv :: "'c \<Rightarrow> bool"
    and queued :: "'c \<Rightarrow> nat \<Rightarrow> bool"
    and haves :: "'c \<Rightarrow> nat \<Rightarrow> bool"
    and reserve :: "nat \<Rightarrow> 'c \<Rightarrow> 'c res"
    and broken :: "nat \<Rightarrow> 'c \<Rightarrow> 'c res"
    and downloaded :: "nat \<Rightarrow> 'c \<Rightarrow> 'c res"
  assumes reserve_law: "inv c \<Longrightarrow> valid c p \<Longrightarrow> \<exists>c'. reserve p c = Inr c' \<and> inv c' \<and> valid c' = valid c
      \<and> haves c' = haves c \<and> queued c' = (queued c)(p := False)"
    and broken_law: "inv c \<Longrightarrow> valid c p \<Longrightarrow> \<exists>c'. broken p c = Inr c' \<and> inv c' \<and> valid c' = valid c
      \<and> haves c' = haves c \<and> queued c' = (queued c)(p := queued c p \<or> \<not> haves c p)"
    and downloaded_law: "inv c \<Longrightarrow> valid c p \<Longrightarrow> \<exists>c'. downloaded p c = Inr c' \<and> inv c'
      \<and> valid c' = valid c \<and> haves c' = (haves c)(p := True) \<and> queued c' = queued c"
begin

text \<open>Requeueing a list of pieces: it succeeds and queues exactly the listed ones not there.\<close>

lemma requeue_all:
  assumes "inv c" and "\<And>p. p \<in> set ps \<Longrightarrow> valid c p"
  shows "\<exists>c'. res_fold broken ps c = Inr c' \<and> inv c' \<and> valid c' = valid c \<and> haves c' = haves c
    \<and> (\<forall>p. queued c' p \<longleftrightarrow> queued c p \<or> p \<in> set ps \<and> \<not> haves c p)"
  using assms
proof (induction ps arbitrary: c)
  case Nil
  then show ?case by simp
next
  case (Cons p ps)
  then obtain c1 where c1: "broken p c = Inr c1" "inv c1" "valid c1 = valid c" "haves c1 = haves c"
    "queued c1 = (queued c)(p := queued c p \<or> \<not> haves c p)"
    using broken_law [of c p] by auto
  have "\<And>q. q \<in> set ps \<Longrightarrow> valid c1 q" using Cons.prems(2) c1(3) by simp
  from Cons.IH [OF c1(2) this] show ?case by (auto simp: c1)
qed

end

abbreviation ct_valid :: "chunk_tracker \<Rightarrow> nat \<Rightarrow> bool" where
  "ct_valid c p \<equiv> p < total_pieces (ct_lengths c)"

interpretation ct_store: piece_store ct_valid ct_inv
  "\<lambda>c. bf_bit (queue_pieces c)" "\<lambda>c. bf_bit (have_pieces c)"
  reserve_needed_piece mark_piece_broken_if_not_have mark_piece_downloaded
proof unfold_locales
  fix c p assume inv: "ct_inv c" and p: "ct_valid c p"
  have sh: "ct_shape c" using inv by simp
  have lt: "p < length (queue_pieces c)" "p < length (have_pieces c)"
    using sh p by (simp_all add: valid_in_range)
  let ?r = "c\<lparr>queue_pieces := (queue_pieces c)[p := False]\<rparr>"
  have "ct_inv ?r" by (rule ct_invI, rule ct_shapeI) (use inv in simp_all)
  moreover have "bf_bit (queue_pieces ?r) = (bf_bit (queue_pieces c))(p := False)"
    using lt by auto
  ultimately show "\<exists>c'. reserve_needed_piece p c = Inr c' \<and> ct_inv c' \<and> ct_valid c' = ct_valid c
      \<and> bf_bit (have_pieces c') = bf_bit (have_pieces c)
      \<and> bf_bit (queue_pieces c') = (bf_bit (queue_pieces c))(p := False)"
    using reserve_needed_piece_eq [OF sh p] by auto
  obtain b where b: "mark_piece_broken_if_not_have p c = Inr b" "ct_shape b"
    "hns_spec b = hns_spec c" "hns b = hns c"
    "have_pieces b = have_pieces c" "selected b = selected c" "ct_lengths b = ct_lengths c"
    "\<And>i. bf_bit (queue_pieces b) i \<longleftrightarrow>
        bf_bit (queue_pieces c) i \<or> (i = p \<and> \<not> bf_bit (have_pieces c) p)"
    by (rule mark_piece_broken_spec [OF sh p], rule that)
  have "ct_inv b" by (rule ct_invI [OF b(2)]) (use b inv in simp)
  with b show "\<exists>c'. mark_piece_broken_if_not_have p c = Inr c' \<and> ct_inv c'
      \<and> ct_valid c' = ct_valid c \<and> bf_bit (have_pieces c') = bf_bit (have_pieces c)
      \<and> bf_bit (queue_pieces c') = (bf_bit (queue_pieces c))
          (p := bf_bit (queue_pieces c) p \<or> \<not> bf_bit (have_pieces c) p)"
    by (auto simp: fun_eq_iff)
  have d: "mark_piece_downloaded p c = Inr (c\<lparr>have_pieces := (have_pieces c)[p := True],
        hns := hns_spec (c\<lparr>have_pieces := (have_pieces c)[p := True]\<rparr>)\<rparr>)"
    by (rule mark_piece_downloaded_eq [OF inv p])
  show "\<exists>c'. mark_piece_downloaded p c = Inr c' \<and> ct_inv c' \<and> ct_valid c' = ct_valid c
      \<and> bf_bit (have_pieces c') = (bf_bit (have_pieces c))(p := True)
      \<and> bf_bit (queue_pieces c') = bf_bit (queue_pieces c)"
    using ct_inv_downloaded [OF inv p d] lt d by (auto simp: fun_eq_iff)
qed

subsection \<open>PsQueued pieces\<close>

lemma map_filter_validate:
  "lengths_ok L \<Longrightarrow> set (List.map_filter
     (\<lambda>id. if id < 2 ^ 32 then validate_piece_index L id else None) ids)
   = {p \<in> set ids. p < total_pieces L}"
  using lengths_okD(2,6) [of L] by (auto simp: map_filter_def)

lemma iter_queued_pieces_sound:
  assumes "ct_inv c" and "iter_queued_pieces prio fis c = Inr ids" and "p \<in> set ids"
  shows "bf_bit (queue_pieces c) p \<and> ct_valid c p"
proof -
  obtain xs ys where ys: "res_filter (\<lambda>id. bf_index (queue_pieces c) id) xs = Inr ys"
    and ids: "ids = List.map_filter
       (\<lambda>id. if id < 2 ^ 32 then validate_piece_index (ct_lengths c) id else None) ys"
    using assms(2) by (auto simp: iter_queued_pieces_def res_bind_eq_Inr)
  have "lengths_ok (ct_lengths c)" using assms(1) by simp
  then have "p \<in> set ys" "ct_valid c p"
    using assms(3) map_filter_validate [of "ct_lengths c" ys] unfolding ids by blast+
  then show ?thesis using res_filter_sound [OF ys] by (auto simp: bf_index_Inr)
qed

text \<open>
  The file descriptions match the tracker: one byte counter per file, every piece range inside the
  bit field.
\<close>

definition files_fit :: "file_infos \<Rightarrow> chunk_tracker \<Rightarrow> bool" where
  "files_fit fis c \<longleftrightarrow> length (per_file_bytes c) = length fis
     \<and> (\<forall>fi \<in> set fis. snd (piece_range fi) \<le> 8 * piece_bitfield_bytes (ct_lengths c)
          \<and> snd (piece_range fi) < 2 ^ 64)"

lemma iter_queued_pieces_eq:
  assumes "ct_inv c" and "files_fit fis c"
  shows "\<exists>ids. iter_queued_pieces prio fis c = Inr ids
    \<and> set ids = {p. ct_valid c p \<and> bf_bit (queue_pieces c) p
        \<and> (\<exists>k \<in> set prio. k < length fis \<and> per_file_bytes c ! k \<noteq> fi_len (fis ! k)
             \<and> fst (piece_range (fis ! k)) \<le> p \<and> p < snd (piece_range (fis ! k)))}"
proof -
  let ?cand = "List.map_filter (\<lambda>p. map_option (Pair p) (vec_get fis p)) prio"
  let ?open = "\<lambda>(id, f). per_file_bytes c ! id \<noteq> fi_len f"
  have cand: "(k, f) \<in> set ?cand \<longleftrightarrow> k \<in> set prio \<and> k < length fis \<and> f = fis ! k" for k f
    by (auto simp: map_filter_def vec_get_def split: if_splits)
  have f1: "res_filter (\<lambda>(id, f). res_bind (vec_index (per_file_bytes c) id) (\<lambda>b. Inr (b \<noteq> fi_len f)))
      ?cand = Inr (filter ?open ?cand)"
    by (rule res_filter_total) (use assms(2) cand in \<open>auto simp: files_fit_def\<close>)
  let ?ps = "concat (map (\<lambda>(_, f). file_iter_piece_priorities f) (filter ?open ?cand))"
  have rng: "k < length fis \<Longrightarrow> set (file_iter_piece_priorities (fis ! k))
      = {fst (piece_range (fis ! k))..<snd (piece_range (fis ! k))}" for k
    using assms(2)
    by (simp add: files_fit_def file_iter_piece_priorities_def piece_range_usize_def)
  have ps: "p \<in> set ?ps \<longleftrightarrow> (\<exists>k \<in> set prio. k < length fis \<and> per_file_bytes c ! k \<noteq> fi_len (fis ! k)
      \<and> fst (piece_range (fis ! k)) \<le> p \<and> p < snd (piece_range (fis ! k)))" for p
    using rng by (fastforce simp: cand)
  have f2: "res_filter (\<lambda>id. bf_index (queue_pieces c) id) ?ps
      = Inr (filter (bf_bit (queue_pieces c)) ?ps)"
  proof (rule res_filter_total)
    fix p assume "p \<in> set ?ps"
    then obtain k where "k < length fis" "p < snd (piece_range (fis ! k))" unfolding ps by blast
    then have "p < 8 * piece_bitfield_bytes (ct_lengths c)"
      using assms(2) nth_mem unfolding files_fit_def by (metis less_le_trans)
    then show "bf_index (queue_pieces c) p = Inr (bf_bit (queue_pieces c) p)"
      using assms(1) by simp
  qed
  have ok: "lengths_ok (ct_lengths c)" using assms(1) by simp
  show ?thesis
    unfolding iter_queued_pieces_def f1 f2 res_bind_simps
    using map_filter_validate [OF ok, of "filter (bf_bit (queue_pieces c)) ?ps"] ps by auto
qed

subsection \<open>What an acquisition does\<close>

lemma steal_candidates_iff:
  "(p, a, e) \<in> set (steal_candidates req m now t) \<longleftrightarrow>
     (\<exists>i. (p, i) \<in> set (inflight t) \<and> a = ifp_peer i \<and> e = now - ifp_started i
        \<and> ifp_peer i \<noteq> rq_peer req \<and> rq_peer_has_piece req p \<and> m \<le> e)"
  by (auto simp: steal_candidates_def)

definition steal_to :: "acquire_request \<Rightarrow> nat \<Rightarrow> nat \<Rightarrow> piece_tracker \<Rightarrow> piece_tracker" where
  "steal_to req now p t = t\<lparr>inflight := AList.update p
     \<lparr>ifp_peer = rq_peer req, ifp_started = now\<rparr> (inflight t)\<rparr>"

lemma try_steal_cases:
  assumes "distinct (map fst (inflight t))" and "try_steal req th now t = (r, t')"
  shows "r = None \<and> t' = t \<or>
    (\<exists>p i avg. r = Some (Stolen p (ifp_peer i)) \<and> map_of (inflight t) p = Some i
       \<and> ifp_peer i \<noteq> rq_peer req \<and> rq_peer_has_piece req p \<and> rq_can_steal req p
       \<and> rq_peer_avg_time req = Some avg \<and> avg * th \<le> now - ifp_started i
       \<and> (\<forall>q j. (q, j) \<in> set (inflight t) \<and> ifp_peer j \<noteq> rq_peer req \<and> rq_peer_has_piece req q
            \<longrightarrow> avg * th \<le> now - ifp_started j \<longrightarrow> now - ifp_started j \<le> now - ifp_started i)
       \<and> t' = steal_to req now p t)"
proof (cases "rq_peer_avg_time req")
  case None
  then show ?thesis using assms(2) by (simp add: try_steal_def)
next
  case (Some avg)
  let ?cs = "steal_candidates req (avg * th) now t"
  show ?thesis
  proof (cases "max_by_key (\<lambda>(_, _, elapsed). elapsed) ?cs")
    case None
    then show ?thesis using assms(2) Some by (simp add: try_steal_def del: max_by_key_None)
  next
    case m: (Some x)
    obtain p a e where x: "x = (p, a, e)" by (cases x)
    have mem: "(p, a, e) \<in> set ?cs"
      and max: "\<And>q b f. (q, b, f) \<in> set ?cs \<Longrightarrow> f \<le> e"
      using max_by_key_Some [OF m] by (auto simp: x)
    from mem obtain i where i: "(p, i) \<in> set (inflight t)" "a = ifp_peer i"
      "e = now - ifp_started i" "ifp_peer i \<noteq> rq_peer req" "rq_peer_has_piece req p" "avg * th \<le> e"
      unfolding steal_candidates_iff by blast
    have mo: "map_of (inflight t) p = Some i" using i(1) assms(1) by (simp add: map_of_is_SomeI)
    show ?thesis
    proof (cases "rq_can_steal req p")
      case False
      then show ?thesis using assms(2) Some m by (simp add: try_steal_def x)
    next
      case True
      then have "r = Some (Stolen p a)" "t' = steal_to req now p t"
        using assms(2) Some m mo by (simp_all add: try_steal_def x steal_to_def)
      moreover have "\<forall>q j. (q, j) \<in> set (inflight t) \<and> ifp_peer j \<noteq> rq_peer req
          \<and> rq_peer_has_piece req q \<longrightarrow> avg * th \<le> now - ifp_started j
          \<longrightarrow> now - ifp_started j \<le> now - ifp_started i"
        using max i(3) steal_candidates_iff [of _ _ _ req "avg * th" now t] by blast
      ultimately show ?thesis using i mo True Some by blast
    qed
  qed
qed

lemma first_priority_Some:
  assumes "first_priority req t ps = Inr (Some p)"
  shows "p \<in> set ps \<and> \<not> bf_bit (have_pieces (chunks t)) p \<and> map_of (inflight t) p = None
    \<and> rq_peer_has_piece req p"
  using assms
  by (induction ps) (auto simp: res_bind_eq_Inr is_piece_have_def bf_index_Inr split: if_splits)

lemma first_priority_total:
  assumes "\<And>p. p \<in> set ps \<Longrightarrow> p < length (have_pieces (chunks t))"
  shows "\<exists>r. first_priority req t ps = Inr r"
  using assms by (induction ps) (auto simp: is_piece_have_def)

text \<open>The three outcomes of \<open>acquire_piece\<close>, with where the piece came from.\<close>

lemma acquire_piece_cases:
  assumes "ct_inv (chunks t)" and "distinct (map fst (inflight t))"
    and "acquire_piece req now t = Inr (r, t')"
  obtains (none) "r = NoneAvailable" "t' = t"
  | (reserved) p where "r = Reserved p" "rq_peer_has_piece req p"
      "p \<in> set (rq_priority_pieces req) \<and> \<not> bf_bit (have_pieces (chunks t)) p
         \<and> map_of (inflight t) p = None
       \<or> bf_bit (queue_pieces (chunks t)) p \<and> ct_valid (chunks t) p"
      "reserve_piece p (rq_peer req) now t = Inr (r, t')"
  | (stolen) p i avg where "r = Stolen p (ifp_peer i)" "map_of (inflight t) p = Some i"
      "ifp_peer i \<noteq> rq_peer req" "rq_peer_has_piece req p" "rq_can_steal req p"
      "rq_peer_avg_time req = Some avg" "avg * 3 \<le> now - ifp_started i"
      "t' = steal_to req now p t"
proof -
  obtain r1 t1 where s1: "try_steal req 10 now t = (r1, t1)" by (cases "try_steal req 10 now t")
  obtain r3 t3 where s3: "try_steal req 3 now t = (r3, t3)" by (cases "try_steal req 3 now t")
  show thesis
  proof (cases r1)
    case (Some x)
    then have "r = x" "t' = t1" using assms(3) s1 by (auto simp: acquire_piece_def)
    then show thesis
      using try_steal_cases [OF assms(2) s1] Some by (force intro: stolen)
  next
    case None
    then have t1: "t1 = t" using try_steal_cases [OF assms(2) s1] by auto
    obtain pri where pri: "first_priority req t (rq_priority_pieces req) = Inr pri"
      using assms(3) s1 None t1 by (auto simp: acquire_piece_def res_bind_eq_Inr)
    show thesis
    proof (cases pri)
      case (Some p)
      then have res: "reserve_piece p (rq_peer req) now t = Inr (r, t')"
        using assms(3) s1 None t1 pri by (simp add: acquire_piece_def)
      then have "r = Reserved p" by (auto simp: reserve_piece_def res_bind_eq_Inr)
      then show thesis
        using first_priority_Some [of req t] pri Some res by (intro reserved) auto
    next
      case pn: None
      obtain ids where ids: "iter_queued_pieces (rq_file_priorities req) (rq_file_infos req) (chunks t)
          = Inr ids"
        using assms(3) s1 None t1 pri pn by (auto simp: acquire_piece_def res_bind_eq_Inr)
      show thesis
      proof (cases "find (rq_peer_has_piece req) ids")
        case (Some p)
        then have res: "reserve_piece p (rq_peer req) now t = Inr (r, t')"
          using assms(3) s1 None t1 pri pn ids by (simp add: acquire_piece_def)
        then have "r = Reserved p" by (auto simp: reserve_piece_def res_bind_eq_Inr)
        moreover have "p \<in> set ids" "rq_peer_has_piece req p"
          using Some by (auto simp: find_Some_iff)
        ultimately show thesis
          using iter_queued_pieces_sound [OF assms(1) ids] res by (intro reserved) auto
      next
        case fn: None
        then have "(case r3 of Some x \<Rightarrow> Inr (x, t3) | None \<Rightarrow> Inr (NoneAvailable, t3)) = Inr (r, t')"
          using assms(3) s1 None t1 pri pn ids s3
          by (simp add: acquire_piece_def split: option.splits)
        then show thesis
          using try_steal_cases [OF assms(2) s3] by (auto intro: none stolen split: option.splits)
      qed
    qed
  qed
qed

lemma reserve_piece_eq:
  assumes "ct_inv (chunks t)" and "ct_valid (chunks t) p"
  obtains c where "reserve_piece p a now t = Inr (Reserved p,
      \<lparr>chunks = c, inflight = AList.update p \<lparr>ifp_peer = a, ifp_started = now\<rparr> (inflight t)\<rparr>)"
    and "ct_inv c" and "ct_valid c = ct_valid (chunks t)"
    and "bf_bit (have_pieces c) = bf_bit (have_pieces (chunks t))"
    and "bf_bit (queue_pieces c) = (bf_bit (queue_pieces (chunks t)))(p := False)"
  using ct_store.reserve_law [OF assms] by (auto simp: reserve_piece_def)

subsection \<open>The states of a piece\<close>

text \<open>
  The state of a piece as \<open>src/src/torrent_state/live/STATE.md\<close> describes it. Between
  \<open>take_inflight\<close> and the result of the hash check a piece is in none of the tracker's sets; the
  ghost multiset \<open>K\<close> holds the pieces that are being checked, once per check. The ghost set \<open>D\<close> holds the pieces with which
  one of two things happened that the description does not know of: the piece was selected again while it was in flight or being checked
  (\<open>update_only_files\<close> queues it then), or it was handed out as a priority piece while it was being checked. Such a piece is \<open>PsContended\<close>.
\<close>

datatype piece_state = PsHave | PsInFlight peer_handle | PsChecking | PsQueued | PsNotNeeded | PsContended

definition piece_abs :: "nat set \<Rightarrow> nat multiset \<Rightarrow> piece_tracker \<Rightarrow> nat \<Rightarrow> piece_state" where
  "piece_abs D K t p =
     (if p \<in> D then PsContended
      else if bf_bit (have_pieces (chunks t)) p then PsHave
      else case map_of (inflight t) p of
        Some i \<Rightarrow> PsInFlight (ifp_peer i)
      | None \<Rightarrow> if p \<in># K then PsChecking
                else if bf_bit (queue_pieces (chunks t)) p then PsQueued else PsNotNeeded)"

text \<open>
  The documented transitions, and those the code has beyond them: a priority piece that is not needed is reserved, a piece that is checked is handed out, and a
  piece in flight or being checked is selected again.
\<close>

inductive pstate_step :: "(nat \<Rightarrow> piece_state) \<Rightarrow> (nat \<Rightarrow> piece_state) \<Rightarrow> bool" where
  ps_reserve: "s p = PsQueued \<Longrightarrow> pstate_step s (s(p := PsInFlight a))"
| ps_reserve_not_needed: "s p = PsNotNeeded \<Longrightarrow> pstate_step s (s(p := PsInFlight a))"
| ps_steal: "s p = PsInFlight a \<Longrightarrow> a \<noteq> b \<Longrightarrow> pstate_step s (s(p := PsInFlight b))"
| ps_take: "s p = PsInFlight a \<Longrightarrow> pstate_step s (s(p := PsChecking))"
| ps_verified: "s p = PsChecking \<Longrightarrow> pstate_step s (s(p := PsHave))"
| ps_failed: "s p = PsChecking \<Longrightarrow> pstate_step s (s(p := PsQueued))"
| ps_peer_died: "pstate_step s (\<lambda>p. if s p = PsInFlight a then PsQueued else s p)"
| ps_reserve_checked: "s p = PsChecking \<Longrightarrow> pstate_step s (s(p := PsContended))"
| ps_reselect: "(\<And>p. s p = s' p \<or> s p = PsNotNeeded \<and> s' p = PsQueued
     \<or> s p = PsQueued \<and> s' p = PsNotNeeded
     \<or> (s p = PsChecking \<or> (\<exists>a. s p = PsInFlight a)) \<and> s' p = PsContended) \<Longrightarrow> pstate_step s s'"

text \<open>
  The invariant of \<open>STATE.md\<close> for the pieces outside \<open>D\<close>: completed, in flight, queued (and being checked) exclude each other.
\<close>

definition pieces_disjoint :: "nat set \<Rightarrow> nat multiset \<Rightarrow> piece_tracker \<Rightarrow> bool" where
  "pieces_disjoint D K t \<longleftrightarrow>
     (\<forall>p. p \<notin> D \<longrightarrow>
        (bf_bit (queue_pieces (chunks t)) p \<longrightarrow> \<not> bf_bit (have_pieces (chunks t)) p)
      \<and> (p \<in> hm_keys (inflight t) \<longrightarrow> \<not> bf_bit (queue_pieces (chunks t)) p \<and> \<not> bf_bit (have_pieces (chunks t)) p)
      \<and> (p \<in># K \<longrightarrow> \<not> bf_bit (queue_pieces (chunks t)) p \<and> \<not> bf_bit (have_pieces (chunks t)) p
           \<and> p \<notin> hm_keys (inflight t) \<and> count K p = 1))"

definition pt_inv :: "nat set \<Rightarrow> nat multiset \<Rightarrow> piece_tracker \<Rightarrow> bool" where
  "pt_inv D K t \<longleftrightarrow> ct_inv (chunks t) \<and> distinct (map fst (inflight t))
     \<and> (\<forall>p \<in> hm_keys (inflight t) \<union> set_mset K. ct_valid (chunks t) p)
     \<and> pieces_disjoint D K t"

text \<open>
  The tracker as a transition system on the tracker and the two ghosts: every method with any arguments of its types. A piece index of type
  \<open>ValidPieceIndex\<close> is below the number of pieces; the result of a check comes after the piece was taken.
\<close>

type_synonym pt_state = "nat set \<times> nat multiset \<times> piece_tracker"

definition pt_init :: "file_infos \<Rightarrow> pt_state \<Rightarrow> bool" where
  "pt_init fis s \<longleftrightarrow> (\<exists>c. ct_init fis c \<and> s = ({}, {#}, pt_new c)
     \<and> (\<forall>p. bf_bit (queue_pieces c) p \<longrightarrow> \<not> bf_bit (have_pieces c) p))"

definition newly_selected :: "file_infos \<Rightarrow> nat set \<Rightarrow> chunk_tracker \<Rightarrow> nat \<Rightarrow> bool" where
  "newly_selected fis new c p \<longleftrightarrow> \<not> bf_bit (selected c) p
     \<and> bf_bit (compute_selected_pieces (ct_lengths c) (\<lambda>k. k \<in> new) fis) p"

definition reserved_checked :: "nat multiset \<Rightarrow> acquire_result \<Rightarrow> nat set" where
  "reserved_checked K r = (case r of Reserved p \<Rightarrow> if p \<in># K then {p} else {} | _ \<Rightarrow> {})"

definition reselected :: "file_infos \<Rightarrow> nat set \<Rightarrow> nat multiset \<Rightarrow> piece_tracker \<Rightarrow> nat set" where
  "reselected fis new K t = {p \<in> hm_keys (inflight t) \<union> set_mset K. newly_selected fis new (chunks t) p}"

inductive pt_step :: "file_infos \<Rightarrow> pt_state \<Rightarrow> pt_state \<Rightarrow> bool" for fis where
  pt_acquire: "acquire_piece req now t = Inr (r, t') \<Longrightarrow>
     (\<And>p. p \<in> set (rq_priority_pieces req) \<Longrightarrow> ct_valid (chunks t) p) \<Longrightarrow>
     pt_step fis (D, K, t) (D \<union> reserved_checked K r, K, t')"
| pt_take: "take_inflight p now t = (Some d, t') \<Longrightarrow> pt_step fis (D, K, t) (D, add_mset p K, t')"
| pt_ok: "p \<in># K \<Longrightarrow> mark_piece_hash_ok p t = Inr t' \<Longrightarrow> pt_step fis (D, K, t) (D, K - {#p#}, t')"
| pt_failed: "p \<in># K \<Longrightarrow> mark_piece_hash_failed p t = Inr t' \<Longrightarrow> pt_step fis (D, K, t) (D, K - {#p#}, t')"
| pt_release: "release_pieces_owned_by a t = Inr (n, t') \<Longrightarrow> pt_step fis (D, K, t) (D, K, t')"
| pt_chunk: "pt_mark_chunk_downloaded m t = Inr (r, t') \<Longrightarrow> pt_step fis (D, K, t) (D, K, t')"
| pt_file_have: "p < total_pieces (ct_lengths (chunks t)) \<Longrightarrow>
     pt_update_file_have_on_piece_completed p k fi t = Inr (n, t') \<Longrightarrow> pt_step fis (D, K, t) (D, K, t')"
| pt_only_files: "pt_update_only_files fis new t = Inr (h, t') \<Longrightarrow>
     pt_step fis (D, K, t) (D \<union> reselected fis new K t, K, t')"

lemma pt_invI:
  assumes "ct_inv (chunks t)" and "distinct (map fst (inflight t))"
    and "\<And>p. p \<in> hm_keys (inflight t) \<union> set_mset K \<Longrightarrow> ct_valid (chunks t) p"
    and "pieces_disjoint D K t"
  shows "pt_inv D K t"
  using assms unfolding pt_inv_def by blast

lemma pt_invD:
  assumes "pt_inv D K t"
  shows "ct_inv (chunks t)" and "distinct (map fst (inflight t))"
    and "p \<in> hm_keys (inflight t) \<Longrightarrow> ct_valid (chunks t) p"
    and "p \<in># K \<Longrightarrow> ct_valid (chunks t) p" and "pieces_disjoint D K t"
  using assms unfolding pt_inv_def by blast+

lemma pieces_disjointD:
  assumes "pieces_disjoint D K t" and "p \<notin> D"
  shows "bf_bit (queue_pieces (chunks t)) p \<Longrightarrow> \<not> bf_bit (have_pieces (chunks t)) p"
    and "p \<in> hm_keys (inflight t) \<Longrightarrow> \<not> bf_bit (queue_pieces (chunks t)) p \<and> \<not> bf_bit (have_pieces (chunks t)) p"
    and "p \<in># K \<Longrightarrow> \<not> bf_bit (queue_pieces (chunks t)) p \<and> \<not> bf_bit (have_pieces (chunks t)) p
           \<and> p \<notin> hm_keys (inflight t) \<and> count K p = 1"
  using assms unfolding pieces_disjoint_def by blast+

lemma pstate_step_refl: "pstate_step s s"
  by (rule ps_reselect) simp

lemma in_keysI: "map_of m k = Some v \<Longrightarrow> k \<in> hm_keys m"
  using hm_keys_map_of [of m k] by auto

lemma map_of_update [simp]:
  "map_of (AList.update k v m) q = (if q = k then Some v else map_of m q)"
  by (simp add: update_conv')

lemma map_of_delete [simp]:
  "map_of (AList.delete k m) q = (if q = k then None else map_of m q)"
  by (simp add: delete_conv')

text \<open>The effect of a reservation on the invariant and on the piece states.\<close>

lemma reserve_refines:
  assumes "pt_inv D K t" and "ct_valid (chunks t) p"
    and "p \<in> D \<or> map_of (inflight t) p = None \<and> \<not> bf_bit (have_pieces (chunks t)) p"
    and "reserve_piece p a now t = Inr (r, t')"
  shows "pt_inv (D \<union> reserved_checked K r) K t'
    \<and> pstate_step (piece_abs D K t) (piece_abs (D \<union> reserved_checked K r) K t')
    \<and> r = Reserved p \<and> (p \<notin> D \<longrightarrow> p \<notin># K \<longrightarrow> piece_abs D K t' = (piece_abs D K t)(p := PsInFlight a))
    \<and> (\<forall>q. map_of (inflight t') q = (if q = p then Some \<lparr>ifp_peer = a, ifp_started = now\<rparr> else map_of (inflight t) q))
    \<and> \<not> bf_bit (queue_pieces (chunks t')) p"
proof -
  note I = pt_invD [OF assms(1)]
  obtain c where r: "reserve_piece p a now t = Inr (Reserved p,
      \<lparr>chunks = c, inflight = AList.update p \<lparr>ifp_peer = a, ifp_started = now\<rparr> (inflight t)\<rparr>)"
    and c: "ct_inv c" "ct_valid c = ct_valid (chunks t)"
      "bf_bit (have_pieces c) = bf_bit (have_pieces (chunks t))"
      "bf_bit (queue_pieces c) = (bf_bit (queue_pieces (chunks t)))(p := False)"
    by (rule reserve_piece_eq [OF I(1) assms(2)], rule that)
  have t': "t' = \<lparr>chunks = c,
      inflight = AList.update p \<lparr>ifp_peer = a, ifp_started = now\<rparr> (inflight t)\<rparr>" "r = Reserved p"
    using r assms(4) by simp_all
  have rc: "reserved_checked K (Reserved p) = (if p \<in># K then {p} else {})" by (simp add: reserved_checked_def)
  have "pt_inv (D \<union> reserved_checked K r) K t'"
  proof (rule pt_invI)
    show "pieces_disjoint (D \<union> reserved_checked K r) K t'"
      using I(5) assms(3) by (auto simp: pieces_disjoint_def t' c rc)
    show "ct_valid (chunks t') q" if "q \<in> hm_keys (inflight t') \<union> set_mset K" for q
      using that I(3,4) assms(2) fun_cong [OF c(2), of q] by (auto simp: t')
  qed (use c I(2) in \<open>simp_all add: t' distinct_update\<close>)
  moreover have abs: "piece_abs D K t' = (piece_abs D K t)(p := PsInFlight a)" if "p \<notin> D" "p \<notin># K"
    using assms(3) that by (auto simp: piece_abs_def t' c fun_eq_iff split: option.splits)
  moreover have "pstate_step (piece_abs D K t) (piece_abs (D \<union> reserved_checked K r) K t')"
  proof (cases "p \<in> D")
    case True
    then have "piece_abs (D \<union> reserved_checked K r) K t' = piece_abs D K t"
      by (auto simp: piece_abs_def t' c rc fun_eq_iff split: option.splits)
    then show ?thesis by (simp add: pstate_step_refl)
  next
    case False
    then have free: "map_of (inflight t) p = None" "\<not> bf_bit (have_pieces (chunks t)) p" using assms(3) by auto
    show ?thesis
    proof (cases "p \<in># K")
      case True
      then have "piece_abs D K t p = PsChecking" using free False by (simp add: piece_abs_def)
      moreover have "piece_abs (D \<union> reserved_checked K r) K t' = (piece_abs D K t)(p := PsContended)"
        using True False by (auto simp: piece_abs_def t' c rc fun_eq_iff split: option.splits)
      ultimately show ?thesis by (metis ps_reserve_checked)
    next
      case nk: False
      then have "piece_abs D K t p = PsQueued \<or> piece_abs D K t p = PsNotNeeded" using free False by (simp add: piece_abs_def)
      moreover have "D \<union> reserved_checked K r = D" using nk rc t'(2) by simp
      ultimately show ?thesis using abs [OF False nk] by (metis ps_reserve ps_reserve_not_needed)
    qed
  qed
  ultimately show ?thesis using t' c by simp
qed

lemma steal_refines:
  assumes "pt_inv D K t" and "map_of (inflight t) p = Some i" and "ifp_peer i \<noteq> rq_peer req"
  shows "pt_inv D K (steal_to req now p t)
    \<and> pstate_step (piece_abs D K t) (piece_abs D K (steal_to req now p t))
    \<and> (p \<notin> D \<longrightarrow> piece_abs D K (steal_to req now p t) = (piece_abs D K t)(p := PsInFlight (rq_peer req)))"
proof -
  note I = pt_invD [OF assms(1)]
  have pk: "p \<in> hm_keys (inflight t)" using assms(2) by (rule in_keysI)
  have nh: "p \<notin> D \<Longrightarrow> \<not> bf_bit (have_pieces (chunks t)) p" using pieces_disjointD(2) [OF I(5)] pk by blast
  have "pt_inv D K (steal_to req now p t)"
  proof (rule pt_invI)
    show "pieces_disjoint D K (steal_to req now p t)"
      using I(5) pk by (auto simp: pieces_disjoint_def steal_to_def)
    show "ct_valid (chunks (steal_to req now p t)) q"
      if "q \<in> hm_keys (inflight (steal_to req now p t)) \<union> set_mset K" for q
      using that I(3,4) pk by (auto simp: steal_to_def)
  qed (use I in \<open>simp_all add: steal_to_def distinct_update\<close>)
  moreover have abs: "piece_abs D K (steal_to req now p t)
      = (piece_abs D K t)(p := PsInFlight (rq_peer req))" if "p \<notin> D"
    using nh [OF that] that by (auto simp: piece_abs_def steal_to_def fun_eq_iff split: option.splits)
  moreover have "pstate_step (piece_abs D K t) (piece_abs D K (steal_to req now p t))"
  proof (cases "p \<in> D")
    case True
    then have "piece_abs D K (steal_to req now p t) = piece_abs D K t"
      by (auto simp: piece_abs_def steal_to_def fun_eq_iff split: option.splits)
    then show ?thesis by (simp add: pstate_step_refl)
  next
    case False
    then have "piece_abs D K t p = PsInFlight (ifp_peer i)" using nh assms(2) by (simp add: piece_abs_def)
    then show ?thesis using abs [OF False] assms(3) by (metis ps_steal)
  qed
  ultimately show ?thesis by blast
qed

lemma acquire_reserved:
  assumes "pt_inv D K t" and "p \<in> set ps \<and> \<not> bf_bit (have_pieces (chunks t)) p \<and> map_of (inflight t) p = None
      \<or> bf_bit (queue_pieces (chunks t)) p \<and> ct_valid (chunks t) p"
    and "\<And>p. p \<in> set ps \<Longrightarrow> ct_valid (chunks t) p"
  shows "ct_valid (chunks t) p \<and> (p \<in> D \<or> map_of (inflight t) p = None \<and> \<not> bf_bit (have_pieces (chunks t)) p)"
  using assms(2,3) pieces_disjointD [OF pt_invD(5) [OF assms(1)], of p] by (auto simp: hm_keys_map_of)

lemma acquire_refines:
  assumes "pt_inv D K t" and "acquire_piece req now t = Inr (r, t')"
    and "\<And>p. p \<in> set (rq_priority_pieces req) \<Longrightarrow> ct_valid (chunks t) p"
  shows "pt_inv (D \<union> reserved_checked K r) K t' \<and> pstate_step (piece_abs D K t) (piece_abs (D \<union> reserved_checked K r) K t')"
proof -
  note I = pt_invD [OF assms(1)]
  from I(1,2) assms(2) show ?thesis
  proof (cases rule: acquire_piece_cases)
    case none
    then show ?thesis using assms(1) pstate_step_refl by (simp add: reserved_checked_def)
  next
    case (reserved p)
    note a = acquire_reserved [OF assms(1) reserved(3) assms(3)]
    show ?thesis using reserve_refines [OF assms(1) a [THEN conjunct1] a [THEN conjunct2] reserved(4)] by blast
  next
    case (stolen p i avg)
    then show ?thesis using steal_refines [OF assms(1) stolen(2,3)] stolen(1,8) by (simp add: reserved_checked_def)
  qed
qed

lemma take_refines:
  assumes "pt_inv D K t" and "take_inflight p now t = (Some d, t')"
  shows "pt_inv D (add_mset p K) t' \<and> pstate_step (piece_abs D K t) (piece_abs D (add_mset p K) t')"
proof -
  note I = pt_invD [OF assms(1)]
  from assms(2) obtain i where i: "map_of (inflight t) p = Some i"
    and t': "t' = t\<lparr>inflight := AList.delete p (inflight t)\<rparr>"
    by (auto simp: take_inflight_def split: option.splits)
  have pk: "p \<in> hm_keys (inflight t)" using i by (rule in_keysI)
  have clean: "\<not> bf_bit (have_pieces (chunks t)) p \<and> \<not> bf_bit (queue_pieces (chunks t)) p \<and> p \<notin># K" if "p \<notin> D"
    using pieces_disjointD [OF I(5) that] pk by blast
  have "pt_inv D (add_mset p K) t'"
  proof (rule pt_invI)
    show "pieces_disjoint D (add_mset p K) t'"
      using I(5) clean by (auto simp: pieces_disjoint_def t' count_eq_zero_iff)
    show "ct_valid (chunks t') q" if "q \<in> hm_keys (inflight t') \<union> set_mset (add_mset p K)" for q
      using that I(3,4) pk by (auto simp: t')
  qed (use I in \<open>simp_all add: t' distinct_delete\<close>)
  moreover have "pstate_step (piece_abs D K t) (piece_abs D (add_mset p K) t')"
  proof (cases "p \<in> D")
    case True
    then have "piece_abs D (add_mset p K) t' = piece_abs D K t" by (auto simp: piece_abs_def t' fun_eq_iff split: option.splits)
    then show ?thesis by (simp add: pstate_step_refl)
  next
    case False
    then have "piece_abs D (add_mset p K) t' = (piece_abs D K t)(p := PsChecking)"
      using clean by (auto simp: piece_abs_def t' fun_eq_iff split: option.splits)
    moreover have "piece_abs D K t p = PsInFlight (ifp_peer i)" using clean False i by (simp add: piece_abs_def)
    ultimately show ?thesis by (metis ps_take)
  qed
  ultimately show ?thesis ..
qed

text \<open>The result of a check, on either branch: the haves and the queue change at the piece only.\<close>

lemma checked_refines:
  assumes "pt_inv D K t" and "p \<in># K" and c: "ct_inv c" "ct_valid c = ct_valid (chunks t)"
    and h: "bf_bit (have_pieces c) = (bf_bit (have_pieces (chunks t)))(p := hv)" "bf_bit (queue_pieces c) = (bf_bit (queue_pieces (chunks t)))(p := qd)"
    and v: "p \<notin> D \<Longrightarrow> qd \<noteq> hv"
  shows "pt_inv D (K - {#p#}) (t\<lparr>chunks := c\<rparr>) \<and> pstate_step (piece_abs D K t) (piece_abs D (K - {#p#}) (t\<lparr>chunks := c\<rparr>))"
proof -
  note I = pt_invD [OF assms(1)]
  have clean: "\<not> bf_bit (queue_pieces (chunks t)) p \<and> \<not> bf_bit (have_pieces (chunks t)) p \<and> p \<notin> hm_keys (inflight t) \<and> p \<notin># K - {#p#}" if "p \<notin> D"
    using pieces_disjointD(3) [OF I(5) that assms(2)] by (auto simp: in_diff_count)
  have "pt_inv D (K - {#p#}) (t\<lparr>chunks := c\<rparr>)"
  proof (rule pt_invI)
    show "pieces_disjoint D (K - {#p#}) (t\<lparr>chunks := c\<rparr>)"
      unfolding pieces_disjoint_def
    proof (intro allI impI)
      fix q assume q: "q \<notin> D"
      show "(bf_bit (queue_pieces (chunks (t\<lparr>chunks := c\<rparr>))) q \<longrightarrow> \<not> bf_bit (have_pieces (chunks (t\<lparr>chunks := c\<rparr>))) q)
        \<and> (q \<in> hm_keys (inflight (t\<lparr>chunks := c\<rparr>)) \<longrightarrow> \<not> bf_bit (queue_pieces (chunks (t\<lparr>chunks := c\<rparr>))) q \<and> \<not> bf_bit (have_pieces (chunks (t\<lparr>chunks := c\<rparr>))) q)
        \<and> (q \<in># K - {#p#} \<longrightarrow> \<not> bf_bit (queue_pieces (chunks (t\<lparr>chunks := c\<rparr>))) q \<and> \<not> bf_bit (have_pieces (chunks (t\<lparr>chunks := c\<rparr>))) q
            \<and> q \<notin> hm_keys (inflight (t\<lparr>chunks := c\<rparr>)) \<and> count (K - {#p#}) q = 1)"
        using clean v q pieces_disjointD [OF I(5) q] by (cases "q = p") (auto simp: h dest: in_diffD)
    qed
    show "ct_valid (chunks (t\<lparr>chunks := c\<rparr>)) q" if "q \<in> hm_keys (inflight (t\<lparr>chunks := c\<rparr>)) \<union> set_mset (K - {#p#})" for q
      using that I(3,4) fun_cong [OF c(2), of q] by (auto dest: in_diffD)
  qed (use I c in simp_all)
  moreover have "pstate_step (piece_abs D K t) (piece_abs D (K - {#p#}) (t\<lparr>chunks := c\<rparr>))"
  proof (cases "p \<in> D")
    case True
    then have "piece_abs D (K - {#p#}) (t\<lparr>chunks := c\<rparr>) = piece_abs D K t"
      by (auto simp: piece_abs_def h fun_eq_iff in_diff_count split: option.splits)
    then show ?thesis by (simp add: pstate_step_refl)
  next
    case False
    then have "piece_abs D (K - {#p#}) (t\<lparr>chunks := c\<rparr>) = (piece_abs D K t)(p := if hv then PsHave else PsQueued)"
      using clean v in_keysI [of "inflight t" p] by (auto simp: piece_abs_def h fun_eq_iff in_diff_count split: option.splits)
    moreover have "piece_abs D K t p = PsChecking" using clean False assms(2) hm_keys_map_of [of "inflight t" p] by (simp add: piece_abs_def)
    ultimately show ?thesis by (cases hv) (auto intro: ps_verified ps_failed)
  qed
  ultimately show ?thesis ..
qed

lemma hash_ok_refines:
  assumes "pt_inv D K t" and "p \<in># K" and "mark_piece_hash_ok p t = Inr t'"
  shows "pt_inv D (K - {#p#}) t' \<and> pstate_step (piece_abs D K t) (piece_abs D (K - {#p#}) t')"
proof -
  note I = pt_invD [OF assms(1)]
  obtain c where c: "mark_piece_downloaded p (chunks t) = Inr c" "ct_inv c" "ct_valid c = ct_valid (chunks t)"
    "bf_bit (have_pieces c) = (bf_bit (have_pieces (chunks t)))(p := True)" "bf_bit (queue_pieces c) = bf_bit (queue_pieces (chunks t))"
    using ct_store.downloaded_law [OF I(1) I(4) [OF assms(2)]] by blast
  have t': "t' = t\<lparr>chunks := c\<rparr>" using assms(3) c(1) by (simp add: mark_piece_hash_ok_def)
  show ?thesis
    unfolding t'
    by (rule checked_refines [OF assms(1,2) c(2,3,4), where qd = "bf_bit (queue_pieces (chunks t)) p"])
      (use c(5) pieces_disjointD(3) [OF I(5) _ assms(2)] in auto)
qed

lemma hash_failed_refines:
  assumes "pt_inv D K t" and "p \<in># K" and "mark_piece_hash_failed p t = Inr t'"
  shows "pt_inv D (K - {#p#}) t' \<and> pstate_step (piece_abs D K t) (piece_abs D (K - {#p#}) t')"
proof -
  note I = pt_invD [OF assms(1)]
  obtain c where c: "mark_piece_broken_if_not_have p (chunks t) = Inr c" "ct_inv c" "ct_valid c = ct_valid (chunks t)"
    "bf_bit (have_pieces c) = bf_bit (have_pieces (chunks t))"
    "bf_bit (queue_pieces c) = (bf_bit (queue_pieces (chunks t)))
       (p := bf_bit (queue_pieces (chunks t)) p \<or> \<not> bf_bit (have_pieces (chunks t)) p)"
    using ct_store.broken_law [OF I(1) I(4) [OF assms(2)]] by blast
  have t': "t' = t\<lparr>chunks := c\<rparr>" using assms(3) c(1) by (simp add: mark_piece_hash_failed_def)
  show ?thesis
    unfolding t'
    by (rule checked_refines [OF assms(1,2) c(2,3) _ c(5), where hv = "bf_bit (have_pieces (chunks t)) p"])
      (use c(4) pieces_disjointD(3) [OF I(5) _ assms(2)] in auto)
qed

lemma release_fold_eq:
  "res_fold release_piece ps t =
     res_bind (res_fold mark_piece_broken_if_not_have ps (chunks t)) (\<lambda>c.
       Inr (t\<lparr>chunks := c, inflight := filter (\<lambda>x. fst x \<notin> set ps) (inflight t)\<rparr>))"
proof (induction ps arbitrary: t)
  case Nil
  then show ?case by simp
next
  case (Cons p ps)
  have f: "filter (\<lambda>x. fst x \<notin> set ps) (AList.delete p m)
      = filter (\<lambda>x. fst x \<notin> set (p # ps)) m" for m :: "(nat \<times> inflight_piece) list"
    by (auto simp: AList.delete_eq case_prod_unfold intro!: filter_cong)
  show ?case
  proof (cases "mark_piece_broken_if_not_have p (chunks t)")
    case (Inl e)
    then show ?thesis by (simp add: release_piece_def Let_def)
  next
    case (Inr c)
    then have step: "release_piece p t = Inr (t\<lparr>chunks := c, inflight := AList.delete p (inflight t)\<rparr>)"
      by (simp add: release_piece_def Let_def)
    show ?thesis unfolding res_fold.simps step Inr res_bind_simps Cons.IH
      by (simp add: f del: set_simps(2))
  qed
qed

lemma owned_pieces_iff:
  "distinct (map fst m) \<Longrightarrow> p \<in> set (map fst (filter (\<lambda>(_, info). ifp_peer info = a) m))
     \<longleftrightarrow> (\<exists>i. map_of m p = Some i \<and> ifp_peer i = a)"
  by (force simp: map_of_eq_Some_iff)

lemma release_pieces_spec:
  assumes "pt_inv D K t"
  obtains c where "release_pieces_owned_by a t =
      Inr (length (filter (\<lambda>(_, info). ifp_peer info = a) (inflight t)),
           t\<lparr>chunks := c, inflight := filter (\<lambda>(_, info). ifp_peer info \<noteq> a) (inflight t)\<rparr>)"
    and "ct_inv c" and "ct_valid c = ct_valid (chunks t)"
    and "bf_bit (have_pieces c) = bf_bit (have_pieces (chunks t))"
    and "\<And>p. bf_bit (queue_pieces c) p \<longleftrightarrow> bf_bit (queue_pieces (chunks t)) p
           \<or> (\<exists>i. map_of (inflight t) p = Some i \<and> ifp_peer i = a) \<and> \<not> bf_bit (have_pieces (chunks t)) p"
proof -
  note D = pt_invD [OF assms]
  let ?ps = "map fst (filter (\<lambda>(_, info). ifp_peer info = a) (inflight t))"
  have mem: "p \<in> set ?ps \<longleftrightarrow> (\<exists>i. map_of (inflight t) p = Some i \<and> ifp_peer i = a)" for p
    using owned_pieces_iff [OF D(2)] .
  have keys: "p \<in> set ?ps \<Longrightarrow> p \<in> hm_keys (inflight t)" for p
    using mem in_keysI by fast
  obtain c where c: "res_fold mark_piece_broken_if_not_have ?ps (chunks t) = Inr c" "ct_inv c"
    "ct_valid c = ct_valid (chunks t)"
    "bf_bit (have_pieces c) = bf_bit (have_pieces (chunks t))"
    "\<And>p. bf_bit (queue_pieces c) p \<longleftrightarrow> bf_bit (queue_pieces (chunks t)) p
       \<or> p \<in> set ?ps \<and> \<not> bf_bit (have_pieces (chunks t)) p"
    using ct_store.requeue_all [OF D(1), of ?ps] D(3) keys by blast
  have fl: "filter (\<lambda>x. fst x \<notin> set ?ps) (inflight t)
      = filter (\<lambda>(_, info). ifp_peer info \<noteq> a) (inflight t)"
  proof (rule filter_cong [OF refl])
    fix x assume x: "x \<in> set (inflight t)"
    obtain p i where pi: "x = (p, i)" by (cases x)
    then have "map_of (inflight t) p = Some i" using x D(2) by (simp add: map_of_is_SomeI)
    then show "fst x \<notin> set ?ps \<longleftrightarrow> (case x of (_, info) \<Rightarrow> ifp_peer info \<noteq> a)"
      using mem [of p] by (simp add: pi)
  qed
  have "release_pieces_owned_by a t = Inr (length (filter (\<lambda>(_, info). ifp_peer info = a) (inflight t)),
           t\<lparr>chunks := c, inflight := filter (\<lambda>(_, info). ifp_peer info \<noteq> a) (inflight t)\<rparr>)"
    unfolding release_pieces_owned_by_def Let_def release_fold_eq c(1) fl by simp
  moreover have "bf_bit (queue_pieces c) p \<longleftrightarrow> bf_bit (queue_pieces (chunks t)) p
       \<or> (\<exists>i. map_of (inflight t) p = Some i \<and> ifp_peer i = a) \<and> \<not> bf_bit (have_pieces (chunks t)) p" for p
    using c(5) [of p] mem [of p] by blast
  ultimately show thesis using c(2-4) that by blast
qed

lemma map_of_filter_owner:
  assumes "distinct (map fst m)"
  shows "map_of (filter (\<lambda>(_, info). ifp_peer info \<noteq> a) m) p =
    (case map_of m p of Some i \<Rightarrow> if ifp_peer i = a then None else Some i | None \<Rightarrow> None)"
  using assms by (induction m) (auto split: option.splits simp: map_of_eq_None_iff)

lemma release_refines:
  assumes "pt_inv D K t" and "release_pieces_owned_by a t = Inr (n, t')"
  shows "pt_inv D K t' \<and> pstate_step (piece_abs D K t) (piece_abs D K t')
    \<and> piece_abs D K t' = (\<lambda>p. if piece_abs D K t p = PsInFlight a then PsQueued else piece_abs D K t p)
    \<and> (\<forall>p i. map_of (inflight t') p = Some i \<longleftrightarrow> map_of (inflight t) p = Some i \<and> ifp_peer i \<noteq> a)"
proof -
  note I = pt_invD [OF assms(1)]
  obtain c where r: "release_pieces_owned_by a t =
      Inr (length (filter (\<lambda>(_, info). ifp_peer info = a) (inflight t)),
           t\<lparr>chunks := c, inflight := filter (\<lambda>(_, info). ifp_peer info \<noteq> a) (inflight t)\<rparr>)"
    and c: "ct_inv c" "ct_valid c = ct_valid (chunks t)"
      "bf_bit (have_pieces c) = bf_bit (have_pieces (chunks t))"
      "\<And>p. bf_bit (queue_pieces c) p \<longleftrightarrow> bf_bit (queue_pieces (chunks t)) p
           \<or> (\<exists>i. map_of (inflight t) p = Some i \<and> ifp_peer i = a) \<and> \<not> bf_bit (have_pieces (chunks t)) p"
    by (rule release_pieces_spec [OF assms(1), of a], rule that)
  have t': "t' = t\<lparr>chunks := c, inflight := filter (\<lambda>(_, info). ifp_peer info \<noteq> a) (inflight t)\<rparr>"
    using r assms(2) by simp
  note mo = map_of_filter_owner [OF I(2), of a]
  have keys: "p \<in> hm_keys (inflight t') \<longleftrightarrow> (\<exists>i. map_of (inflight t) p = Some i \<and> ifp_peer i \<noteq> a)" for p
    using hm_keys_map_of [of "inflight t'" p] mo [of p] by (auto simp: t' split: option.splits)
  have keys': "p \<in> hm_keys (inflight t') \<Longrightarrow> p \<in> hm_keys (inflight t)" for p
    using keys in_keysI by fast
  have "pt_inv D K t'"
  proof (rule pt_invI)
    show "pieces_disjoint D K t'"
      unfolding pieces_disjoint_def
    proof (intro allI impI)
      fix p assume p: "p \<notin> D"
      note d = pieces_disjointD [OF I(5) p]
      have "bf_bit (have_pieces (chunks t')) p = bf_bit (have_pieces (chunks t)) p"
        "p \<in> hm_keys (inflight t') \<Longrightarrow> bf_bit (queue_pieces (chunks t')) p = bf_bit (queue_pieces (chunks t)) p"
        "p \<notin> hm_keys (inflight t) \<Longrightarrow> bf_bit (queue_pieces (chunks t')) p = bf_bit (queue_pieces (chunks t)) p"
        "bf_bit (queue_pieces (chunks t')) p \<Longrightarrow> \<not> bf_bit (have_pieces (chunks t)) p"
        using d(1) keys [of p] in_keysI [of "inflight t" p] by (auto simp: t' c)
      then show "(bf_bit (queue_pieces (chunks t')) p \<longrightarrow> \<not> bf_bit (have_pieces (chunks t')) p)
        \<and> (p \<in> hm_keys (inflight t') \<longrightarrow> \<not> bf_bit (queue_pieces (chunks t')) p \<and> \<not> bf_bit (have_pieces (chunks t')) p)
        \<and> (p \<in># K \<longrightarrow> \<not> bf_bit (queue_pieces (chunks t')) p \<and> \<not> bf_bit (have_pieces (chunks t')) p \<and> p \<notin> hm_keys (inflight t') \<and> count K p = 1)"
        using d keys' [of p] by blast
    qed
    show "ct_valid (chunks t') q" if "q \<in> hm_keys (inflight t') \<union> set_mset K" for q
      using that I(3,4) keys' fun_cong [OF c(2), of q] by (auto simp: t')
  qed (use I c in \<open>simp_all add: t' distinct_keys_filter\<close>)
  moreover have abs: "piece_abs D K t' = (\<lambda>p. if piece_abs D K t p = PsInFlight a then PsQueued else piece_abs D K t p)"
  proof
    fix p
    show "piece_abs D K t' p = (if piece_abs D K t p = PsInFlight a then PsQueued else piece_abs D K t p)"
      using pieces_disjointD [OF I(5), of p] in_keysI [of "inflight t" p]
      by (auto simp: piece_abs_def t' c mo split: option.splits)
  qed
  moreover have "map_of (inflight t') p = Some i \<longleftrightarrow> map_of (inflight t) p = Some i \<and> ifp_peer i \<noteq> a" for p i
    by (auto simp: t' mo split: option.splits)
  ultimately show ?thesis by (metis ps_peer_died)
qed

lemma only_files_refines:
  assumes "pt_inv D K t" and "pt_update_only_files fis new t = Inr (h, t')"
  shows "pt_inv (D \<union> reselected fis new K t) K t' \<and> pstate_step (piece_abs D K t) (piece_abs (D \<union> reselected fis new K t) K t')"
proof -
  note I = pt_invD [OF assms(1)]
  obtain c where u: "update_only_files fis new (chunks t) = Inr (hns c, c)" "ct_inv c"
    "have_pieces c = have_pieces (chunks t)" "ct_lengths c = ct_lengths (chunks t)"
    and sel: "selected c = compute_selected_pieces (ct_lengths (chunks t)) (\<lambda>k. k \<in> new) fis"
    and q: "\<And>i. bf_bit (queue_pieces c) i \<longleftrightarrow>
         (bf_bit (queue_pieces (chunks t)) i \<or> (ct_valid (chunks t) i
            \<and> bf_bit (selected c) i \<and> \<not> bf_bit (selected (chunks t)) i
            \<and> \<not> bf_bit (have_pieces (chunks t)) i))
         \<and> (bf_bit (selected c) i \<or> bf_bit (have_pieces (chunks t)) i)"
    using update_only_files_spec [OF ct_invD(1) [OF I(1)], of fis new] by blast
  have t': "t' = t\<lparr>chunks := c\<rparr>"
    using assms(2) u(1) by (simp add: pt_update_only_files_def)
  have q': "bf_bit (queue_pieces c) i \<Longrightarrow> bf_bit (queue_pieces (chunks t)) i
      \<or> newly_selected fis new (chunks t) i \<and> \<not> bf_bit (have_pieces (chunks t)) i" for i
    using q [of i] by (auto simp: newly_selected_def sel)
  have "pt_inv (D \<union> reselected fis new K t) K t'"
  proof (rule pt_invI)
    show "pieces_disjoint (D \<union> reselected fis new K t) K t'"
      using I(5) q' unfolding pieces_disjoint_def t' reselected_def
      by (simp add: u(3)) blast
  qed (use I u in \<open>auto simp: t'\<close>)
  moreover have r: "piece_abs D K t p = s' p
      \<or> piece_abs D K t p = PsNotNeeded \<and> s' p = PsQueued \<or> piece_abs D K t p = PsQueued \<and> s' p = PsNotNeeded
      \<or> (piece_abs D K t p = PsChecking \<or> (\<exists>a. piece_abs D K t p = PsInFlight a)) \<and> s' p = PsContended"
    if s': "s' = piece_abs (D \<union> reselected fis new K t) K t'" for p s'
  proof (cases "p \<in> reselected fis new K t - D")
    case True
    then have "(piece_abs D K t p = PsChecking \<or> (\<exists>a. piece_abs D K t p = PsInFlight a)) \<and> s' p = PsContended"
      using pieces_disjointD [OF I(5), of p] hm_keys_map_of [of "inflight t" p] by (auto simp: s' piece_abs_def reselected_def split: option.splits)
    then show ?thesis by blast
  next
    case False
    then show ?thesis by (auto simp: s' piece_abs_def t' u(3) split: option.splits)
  qed
  ultimately show ?thesis by (intro conjI ps_reselect r [OF refl])
qed

lemma chunks_only_refines:
  assumes "pt_inv D K t" and "ct_inv c" and "ct_lengths c = ct_lengths (chunks t)"
    and "have_pieces c = have_pieces (chunks t)" and "queue_pieces c = queue_pieces (chunks t)"
  shows "pt_inv D K (t\<lparr>chunks := c\<rparr>)
    \<and> pstate_step (piece_abs D K t) (piece_abs D K (t\<lparr>chunks := c\<rparr>))"
proof -
  note I = pt_invD [OF assms(1)]
  have "pt_inv D K (t\<lparr>chunks := c\<rparr>)"
  proof (rule pt_invI)
    show "pieces_disjoint D K (t\<lparr>chunks := c\<rparr>)"
      using I(5) by (simp add: pieces_disjoint_def assms)
  qed (use I assms in auto)
  moreover have "piece_abs D K (t\<lparr>chunks := c\<rparr>) = piece_abs D K t"
    by (simp add: piece_abs_def assms fun_eq_iff)
  ultimately show ?thesis using pstate_step_refl by simp
qed

lemma mark_chunk_downloaded_frame:
  assumes "mark_chunk_downloaded m t = Inr (r, t')"
  shows "have_pieces t' = have_pieces t \<and> queue_pieces t' = queue_pieces t
    \<and> ct_lengths t' = ct_lengths t \<and> selected t' = selected t
    \<and> per_file_bytes t' = per_file_bytes t \<and> hns t' = hns t"
  using assms
  by (auto simp: mark_chunk_downloaded_def Let_def res_bind_eq_Inr split: option.splits if_splits)

definition pt_ok :: "pt_state \<Rightarrow> bool" where
  "pt_ok = (\<lambda>(D, K, t). pt_inv D K t)"

definition pt_abs :: "pt_state \<Rightarrow> nat \<Rightarrow> piece_state" where
  "pt_abs = (\<lambda>(D, K, t). piece_abs D K t)"

lemma pt_step_refines:
  assumes "pt_step fis s s'" and "pt_ok s"
  shows "pt_ok s' \<and> pstate_step (pt_abs s) (pt_abs s')"
  using assms
proof (induction rule: pt_step.induct)
  case (pt_acquire req now t r t' D K)
  then show ?case using acquire_refines [of D K t req now r t'] by (simp add: pt_ok_def pt_abs_def)
next
  case (pt_take p now t d t' D K)
  then show ?case using take_refines [of D K t p now d t'] by (simp add: pt_ok_def pt_abs_def)
next
  case (pt_ok p K t t' D)
  then show ?case using hash_ok_refines [of D K t p t'] by (simp add: pt_ok_def pt_abs_def)
next
  case (pt_failed p K t t' D)
  then show ?case using hash_failed_refines [of D K t p t'] by (simp add: pt_ok_def pt_abs_def)
next
  case (pt_release a t n t' D K)
  then show ?case using release_refines [of D K t a n t'] unfolding pt_ok_def pt_abs_def case_prod_conv by blast
next
  case (pt_chunk m t r t' D K)
  then obtain c where c: "mark_chunk_downloaded m (chunks t) = Inr (r, c)" "t' = t\<lparr>chunks := c\<rparr>"
    by (auto simp: pt_mark_chunk_downloaded_def res_bind_eq_Inr)
  have inv: "pt_inv D K t" using pt_chunk.prems by (simp add: pt_ok_def)
  show ?case
    using chunks_only_refines [OF inv ct_inv_chunk [OF pt_invD(1) [OF inv] c(1)]]
      mark_chunk_downloaded_frame [OF c(1)] by (simp add: c(2) pt_ok_def pt_abs_def)
next
  case (pt_file_have p t k fi n t' D K)
  then obtain c where c: "update_file_have_on_piece_completed p k fi (chunks t) = Inr (n, c)"
    "t' = t\<lparr>chunks := c\<rparr>"
    by (auto simp: pt_update_file_have_on_piece_completed_def res_bind_eq_Inr)
  have inv: "pt_inv D K t" using pt_file_have.prems by (simp add: pt_ok_def)
  have "ct_inv c"
    using ct_step_inv [OF step_file_have [OF pt_file_have.hyps(1) c(1)]] pt_invD(1) [OF inv] .
  moreover have "ct_lengths c = ct_lengths (chunks t)" "have_pieces c = have_pieces (chunks t)"
    "queue_pieces c = queue_pieces (chunks t)"
    using c(1) by (auto simp: update_file_have_on_piece_completed_def Let_def res_bind_eq_Inr)
  ultimately show ?case using chunks_only_refines [OF inv] by (simp add: c(2) pt_ok_def pt_abs_def)
next
  case (pt_only_files new t h t' D K)
  then show ?case using only_files_refines [of D K t fis new h t'] by (simp add: pt_ok_def pt_abs_def)
qed

lemma pt_init_inv: "pt_init fis s \<Longrightarrow> pt_ok s"
  by (auto simp: pt_init_def pt_new_def hm_keys_def pieces_disjoint_def pt_ok_def
      intro!: pt_invI intro: ct_init_inv)

interpretation pt_sys: invariant_system "pt_init fis" "pt_step fis" pt_ok
  for fis
  by unfold_locales (auto intro: pt_init_inv dest: pt_step_refines)

lemma pt_reach_inv: "reach (pt_init fis) (pt_step fis) (D, K, t) \<Longrightarrow> pt_inv D K t"
  using pt_sys.reach_inv [of fis "(D, K, t)"] by (simp add: pt_ok_def)

subsection \<open>A concrete run\<close>

definition ex_peer :: "nat \<Rightarrow> peer_handle" where
  "ex_peer n = (V4 (of_nat n), 6881)"

definition ex_request :: "nat \<Rightarrow> acquire_request" where
  "ex_request n = \<lparr>rq_peer = ex_peer n, rq_peer_avg_time = None, rq_priority_pieces = [],
     rq_file_priorities = [0, 1], rq_file_infos = ex_files, rq_peer_has_piece = (\<lambda>_. True),
     rq_can_steal = (\<lambda>_. True)\<rparr>"

definition ex_pt :: piece_tracker where
  "ex_pt = \<lparr>chunks = projr (reserve_needed_piece 1 ex_tracker),
     inflight = [(1, \<lparr>ifp_peer = ex_peer 1, ifp_started = 5\<rparr>)]\<rparr>"

lemma ex_pt_init: "pt_init ex_files ({}, {#}, pt_new ex_tracker)"
  unfolding pt_init_def
proof (intro exI [of _ ex_tracker] conjI allI impI)
  fix p assume "bf_bit (queue_pieces ex_tracker) p"
  then have "p = 1 \<or> p = 2" by (auto simp: bf_bit_def nth_Cons' split: if_splits)
  then show "\<not> bf_bit (have_pieces ex_tracker) p" by (auto simp: bf_bit_def)
qed (auto intro: ex_tracker_init)

lemma ex_tracker_queued: "iter_queued_pieces [0, 1] ex_files ex_tracker = Inr [1, 1, 2]"
  by code_simp

lemma ex_acquire: "acquire_piece (ex_request 1) 5 (pt_new ex_tracker) = Inr (Reserved 1, ex_pt)"
  by (simp add: acquire_piece_def try_steal_def ex_request_def pt_new_def ex_tracker_queued
      reserve_piece_def reserve_needed_piece_def ex_pt_def del: One_nat_def)

lemma ex_pt_reach: "reach (pt_init ex_files) (pt_step ex_files) ({}, {#}, ex_pt)"
  using pt_acquire [OF ex_acquire, where fis = ex_files and D = "{}" and K = "{#}"]
  by (intro reach_step [OF reach_init [where init = "pt_init ex_files", OF ex_pt_init]])
    (simp add: ex_request_def reserved_checked_def)

lemma ex_pt_inv: "pt_inv {} {#} ex_pt"
  by (rule pt_reach_inv [OF ex_pt_reach])

lemma ex_pt_simps [simp]:
  "inflight ex_pt = [(1, \<lparr>ifp_peer = ex_peer 1, ifp_started = 5\<rparr>)]"
  "ct_lengths (chunks ex_pt) = ex_lengths"
  "queue_pieces (chunks ex_pt) = [False, False, True, False, False, False, False, False]"
  "have_pieces (chunks ex_pt) = [True, False, False, False, False, False, False, False]"
  "selected (chunks ex_pt) = [True, True, True, False, False, False, False, False]"
  by (simp_all add: ex_pt_def reserve_needed_piece_def)

subsection \<open>Properties\<close>

text \<open>
  C9. The piece state invariant of \<open>STATE.md\<close> and the two ways the code leaves it. In every state that any sequence of calls reaches, a
  piece outside \<open>D\<close> is never both completed and queued, in flight and completed, or in flight and queued, and a piece whose hash is being
  checked is none of these and is checked once. \<open>D\<close> is empty at first and grows at two calls only: \<open>update_only_files\<close> adds the pieces it
  selects again while they are in flight or being checked (it queues them, \<open>chunk_tracker.rs:348\<close>), and \<open>acquire_piece\<close> a piece that it hands
  out as a priority piece during its check (\<open>piece_tracker.rs:136\<close>). For all pieces every in-flight entry is a valid piece, with one owner.
\<close>

theorem piece_states_disjoint:
  assumes "reach (pt_init fis) (pt_step fis) (D, K, t)"
  shows "pieces_disjoint D K t \<and> distinct (map fst (inflight t))
    \<and> (\<forall>p \<in> hm_keys (inflight t). p < total_pieces (ct_lengths (chunks t)))
    \<and> (pt_step fis (D, K, t) (D', K', t') \<longrightarrow>
         D' = D
       \<or> (\<exists>new h. pt_update_only_files fis new t = Inr (h, t') \<and> D' = D \<union> reselected fis new K t)
       \<or> (\<exists>req now p. acquire_piece req now t = Inr (Reserved p, t') \<and> p \<in># K \<and> D' = insert p D))"
proof -
  note inv = pt_reach_inv [OF assms]
  have "D' = D \<or> (\<exists>new h. pt_update_only_files fis new t = Inr (h, t') \<and> D' = D \<union> reselected fis new K t)
      \<or> (\<exists>req now p. acquire_piece req now t = Inr (Reserved p, t') \<and> p \<in># K \<and> D' = insert p D)"
    if "pt_step fis (D, K, t) (D', K', t')"
    using that by (cases rule: pt_step.cases) (auto simp: reserved_checked_def split: acquire_result.splits if_splits)
  then show ?thesis using pt_invD [OF inv] by blast
qed

theorem piece_states_disjoint_witness:
  "reach (pt_init ex_files) (pt_step ex_files) ({}, {#}, ex_pt) \<and> pieces_disjoint {} {#} ex_pt
    \<and> 1 \<in> hm_keys (inflight ex_pt)"
  using ex_pt_reach piece_states_disjoint [OF ex_pt_reach] by (simp add: hm_keys_def)

text \<open>
  C10. Every call of the piece tracker in a reachable state is a transition of the per-piece state machine \<open>pstate_step\<close>. Its transitions are
  those of \<open>STATE.md\<close> (queued to in flight, in flight to another peer, in flight to checked, checked to completed or back to queued, the
  pieces of a dead peer back to queued, a change of the selection between queued and not needed) and three that it does not have: a
  priority piece that is not needed is reserved, a priority piece that is being checked is reserved, and a piece in flight or being checked is
  selected again. After the last two the piece is \<open>PsContended\<close> and nothing more is said of its state.
\<close>

theorem piece_tracker_refines_states:
  assumes "reach (pt_init fis) (pt_step fis) s" and "pt_step fis s s'"
  shows "pstate_step (pt_abs s) (pt_abs s')"
  using pt_step_refines [OF assms(2) pt_sys.reach_inv [OF assms(1)]] by blast

theorem piece_tracker_refines_states_witness:
  "pstate_step (pt_abs ({}, {#}, pt_new ex_tracker)) (pt_abs ({}, {#}, ex_pt))"
  using piece_tracker_refines_states [OF reach_init [where init = "pt_init ex_files", OF ex_pt_init]
      pt_acquire [OF ex_acquire, where D = "{}" and K = "{#}"]] by (simp add: ex_request_def reserved_checked_def)

text \<open>
  Reselecting a piece that is in flight queues it while it stays in flight: after a file was
  deselected and is selected again, a piece of it that a peer is still downloading is both
  \<open>QUEUED\<close> and \<open>IN_FLIGHT\<close>, against the documented invariant.
\<close>

theorem reselect_inflight_piece_queued:
  assumes "pt_inv D K t" and "p \<notin> D" and "map_of (inflight t) p = Some i"
    and "newly_selected fis new (chunks t) p"
    and "pt_update_only_files fis new t = Inr (h, t')"
  shows "bf_bit (queue_pieces (chunks t')) p \<and> map_of (inflight t') p = Some i
    \<and> p \<in> reselected fis new K t"
proof -
  note I = pt_invD [OF assms(1)]
  have pk: "p \<in> hm_keys (inflight t)" using assms(3) by (rule in_keysI)
  then have "\<not> bf_bit (have_pieces (chunks t)) p" using pieces_disjointD(2) [OF I(5) assms(2)] by simp
  then have "bf_bit (queue_pieces (chunks t')) p" "inflight t' = inflight t"
    using update_only_files_spec [OF ct_invD(1) [OF I(1)], of fis new] assms(4,5) I(3) [OF pk]
    by (auto simp: pt_update_only_files_def res_bind_eq_Inr newly_selected_def)
  then show ?thesis using assms(3,4) pk by (simp add: reselected_def)
qed

theorem reselect_inflight_piece_queued_witness:
  "\<exists>t1 h1 t2 h2. pt_update_only_files ex_files {} ex_pt = Inr (h1, t1)
    \<and> pt_update_only_files ex_files {0} t1 = Inr (h2, t2)
    \<and> bf_bit (queue_pieces (chunks t2)) 1 \<and> is_inflight 1 t2"
proof -
  obtain c1 where c1: "update_only_files ex_files {} (chunks ex_pt) = Inr (hns c1, c1)" "ct_inv c1"
    "ct_lengths c1 = ex_lengths"
    "selected c1 = compute_selected_pieces ex_lengths (\<lambda>k. k \<in> {}) ex_files"
    using update_only_files_spec [OF ct_invD(1) [OF pt_invD(1) [OF ex_pt_inv]], of ex_files "{}"]
    by auto
  let ?t1 = "ex_pt\<lparr>chunks := c1\<rparr>"
  have u1: "pt_update_only_files ex_files {} ex_pt = Inr (hns c1, ?t1)"
    by (simp add: pt_update_only_files_def c1(1))
  have "reselected ex_files {} {#} ex_pt = {}"
    by (auto simp: reselected_def newly_selected_def compute_selected_bit)
  then have inv1: "pt_inv {} {#} ?t1"
    using only_files_refines [OF ex_pt_inv u1] by simp
  obtain c2 where c2: "update_only_files ex_files {0} c1 = Inr (hns c2, c2)"
    using update_only_files_spec [OF ct_invD(1) [OF c1(2)], of ex_files "{0}"] by blast
  have u2: "pt_update_only_files ex_files {0} ?t1 = Inr (hns c2, ?t1\<lparr>chunks := c2\<rparr>)"
    by (simp add: pt_update_only_files_def c2)
  have nw: "newly_selected ex_files {0} (chunks ?t1) 1"
    by (simp add: newly_selected_def c1(3,4) compute_selected_bit ex_files_def)
  show ?thesis
    using u1 u2 reselect_inflight_piece_queued [OF inv1 _ _ nw u2] by (auto simp: is_inflight_def)
qed

text \<open>
  A priority piece (one a stream waits for) whose hash is being checked is handed out again:
  \<open>acquire_piece\<close> reserves it, and when the check then succeeds the piece is completed and in flight
  at the same time.
\<close>

theorem priority_piece_reserved_during_check:
  assumes "pt_inv D K t" and "p \<in># K" and "p \<notin> D" and "rq_peer_avg_time req = None"
    and "rq_priority_pieces req = p # ps" and "rq_peer_has_piece req p"
  shows "\<exists>t1 t2. acquire_piece req now t = Inr (Reserved p, t1)
    \<and> mark_piece_hash_ok p t1 = Inr t2
    \<and> bf_bit (have_pieces (chunks t2)) p \<and> is_inflight p t2"
proof -
  note I = pt_invD [OF assms(1)]
  have K: "\<not> bf_bit (have_pieces (chunks t)) p" "map_of (inflight t) p = None"
    using pieces_disjointD(3) [OF I(5) assms(3,2)] by (auto simp: hm_keys_map_of)
  have valid: "ct_valid (chunks t) p" using I(4) assms(2) .
  obtain c where r: "reserve_piece p (rq_peer req) now t = Inr (Reserved p, \<lparr>chunks = c,
      inflight = AList.update p \<lparr>ifp_peer = rq_peer req, ifp_started = now\<rparr> (inflight t)\<rparr>)"
    and c: "ct_inv c" "ct_valid c = ct_valid (chunks t)"
    by (rule reserve_piece_eq [OF I(1) valid], rule that)
  let ?t1 = "\<lparr>chunks = c,
      inflight = AList.update p \<lparr>ifp_peer = rq_peer req, ifp_started = now\<rparr> (inflight t)\<rparr>"
  have "p < length (have_pieces (chunks t))"
    using valid I(1) by (simp add: valid_in_range)
  then have a: "acquire_piece req now t = Inr (Reserved p, ?t1)"
    using assms(4-6) K r by (simp add: acquire_piece_def try_steal_def is_piece_have_def)
  have "ct_valid c p" using valid fun_cong [OF c(2), of p] by simp
  then obtain c2 where "mark_piece_downloaded p c = Inr c2" "bf_bit (have_pieces c2) p"
    using ct_store.downloaded_law [OF c(1), of p] by auto
  then show ?thesis
    using a by (intro exI [of _ ?t1] exI [of _ "?t1\<lparr>chunks := c2\<rparr>"])
      (simp add: mark_piece_hash_ok_def is_inflight_def)
qed

theorem priority_piece_reserved_during_check_witness:
  "\<exists>t1 t2. acquire_piece ((ex_request 2)\<lparr>rq_priority_pieces := [1]\<rparr>) 9
        (snd (take_inflight 1 8 ex_pt)) = Inr (Reserved 1, t1)
    \<and> mark_piece_hash_ok 1 t1 = Inr t2 \<and> bf_bit (have_pieces (chunks t2)) 1 \<and> is_inflight 1 t2"
proof -
  obtain d t' where tk: "take_inflight 1 8 ex_pt = (Some d, t')"
    by (simp add: take_inflight_def)
  have inv: "pt_inv {} {#1#} t'" using take_refines [OF ex_pt_inv tk] by simp
  show ?thesis
    using priority_piece_reserved_during_check [OF inv, of 1
        "(ex_request 2)\<lparr>rq_priority_pieces := [1]\<rparr>" "[]" 9]
    by (simp add: tk ex_request_def del: One_nat_def)
qed

text \<open>
  C11. An acquisition from any reachable state (and for any priority pieces that are valid) gives the requesting peer one piece that the peer
  has, or changes nothing. A reserved piece leaves the queue. It was not completed and had no owner, unless it is one of the contended
  pieces \<open>D\<close> of C9 (a piece in flight that was selected again is reserved over its owner); if it was not being checked either, its state goes
  from queued or not needed to in flight and no other piece changes. A stolen piece is taken from another peer that has held it for at least
  three times the requester's average piece time. In all cases no in-flight entry but that of the piece changes, and the requester owns it.
\<close>

theorem acquire_piece_ownership:
  assumes "reach (pt_init fis) (pt_step fis) (D, K, t)" and "acquire_piece req now t = Inr (r, t')"
    and "\<forall>p \<in> set (rq_priority_pieces req). p < total_pieces (ct_lengths (chunks t))"
  shows "case r of
      NoneAvailable \<Rightarrow> t' = t
    | Reserved p \<Rightarrow> rq_peer_has_piece req p \<and> \<not> bf_bit (queue_pieces (chunks t')) p
        \<and> (\<forall>q. get_inflight q t' = (if q = p then Some \<lparr>ifp_peer = rq_peer req, ifp_started = now\<rparr> else get_inflight q t))
        \<and> (p \<notin> D \<longrightarrow> get_inflight p t = None \<and> \<not> bf_bit (have_pieces (chunks t)) p)
        \<and> (p \<notin> D \<and> p \<notin># K \<longrightarrow> (piece_abs D K t p = PsQueued \<or> piece_abs D K t p = PsNotNeeded)
             \<and> piece_abs D K t' = (piece_abs D K t)(p := PsInFlight (rq_peer req)))
    | Stolen p old \<Rightarrow> rq_peer_has_piece req p \<and> rq_can_steal req p \<and> old \<noteq> rq_peer req \<and> chunks t' = chunks t
        \<and> (\<forall>q. get_inflight q t' = (if q = p then Some \<lparr>ifp_peer = rq_peer req, ifp_started = now\<rparr> else get_inflight q t))
        \<and> (\<exists>i avg. get_inflight p t = Some i \<and> ifp_peer i = old \<and> rq_peer_avg_time req = Some avg
             \<and> avg * 3 \<le> now - ifp_started i)
        \<and> (p \<notin> D \<longrightarrow> piece_abs D K t p = PsInFlight old
             \<and> piece_abs D K t' = (piece_abs D K t)(p := PsInFlight (rq_peer req)))"
proof -
  note inv = pt_reach_inv [OF assms(1)]
  note I = pt_invD [OF inv]
  from I(1,2) assms(2) show ?thesis
  proof (cases rule: acquire_piece_cases)
    case none
    then show ?thesis by simp
  next
    case (reserved p)
    note a = acquire_reserved [OF inv reserved(3)]
    have q: "ct_valid (chunks t) p" "p \<in> D \<or> map_of (inflight t) p = None \<and> \<not> bf_bit (have_pieces (chunks t)) p"
      using a assms(3) by blast+
    note r = reserve_refines [OF inv q reserved(4)]
    show ?thesis using reserved(1,2) r q(2) by (auto simp: piece_abs_def get_inflight_def)
  next
    case (stolen p i avg)
    have "piece_abs D K t p = PsInFlight (ifp_peer i)" if "p \<notin> D"
      using pieces_disjointD(2) [OF I(5) that] in_keysI [OF stolen(2)] stolen(2) that by (simp add: piece_abs_def)
    moreover have "p \<notin> D \<longrightarrow> piece_abs D K t' = (piece_abs D K t)(p := PsInFlight (rq_peer req))"
      using steal_refines [OF inv stolen(2,3)] stolen(8) by blast
    ultimately show ?thesis using stolen by (simp add: get_inflight_def steal_to_def)
  qed
qed

theorem acquire_piece_ownership_witness:
  "acquire_piece (ex_request 1) 5 (pt_new ex_tracker) = Inr (Reserved 1, ex_pt)
    \<and> piece_abs {} {#} ex_pt = (piece_abs {} {#} (pt_new ex_tracker))(1 := PsInFlight (ex_peer 1))"
proof -
  have h: "\<forall>p \<in> set (rq_priority_pieces (ex_request 1)).
      p < total_pieces (ct_lengths (chunks (pt_new ex_tracker)))"
    by (simp add: ex_request_def)
  show ?thesis
    using ex_acquire acquire_piece_ownership [OF reach_init [where init = "pt_init ex_files",
          OF ex_pt_init] ex_acquire h] by (simp add: ex_request_def del: One_nat_def)
qed

text \<open>
  When a peer dies the pieces it owned go back to the queue: the release succeeds, returns
  their number, leaves no piece owned by the peer, queues exactly the released pieces in addition to
  those queued before and touches no other peer's pieces.
\<close>

theorem release_requeues_pieces:
  assumes "reach (pt_init fis) (pt_step fis) (D, K, t)"
  shows "\<exists>t'. release_pieces_owned_by a t
        = Inr (card {p. \<exists>i. get_inflight p t = Some i \<and> ifp_peer i = a}, t')
    \<and> piece_abs D K t' = (\<lambda>p. if piece_abs D K t p = PsInFlight a then PsQueued else piece_abs D K t p)
    \<and> (\<forall>p i. get_inflight p t' = Some i \<longleftrightarrow> get_inflight p t = Some i \<and> ifp_peer i \<noteq> a)"
proof -
  note inv = pt_reach_inv [OF assms]
  note I = pt_invD [OF inv]
  obtain c where r: "release_pieces_owned_by a t =
      Inr (length (filter (\<lambda>(_, info). ifp_peer info = a) (inflight t)),
           t\<lparr>chunks := c, inflight := filter (\<lambda>(_, info). ifp_peer info \<noteq> a) (inflight t)\<rparr>)"
    by (rule release_pieces_spec [OF inv, of a], rule that)
  let ?xs = "map fst (filter (\<lambda>(_, info). ifp_peer info = a) (inflight t))"
  have "set ?xs = {p. \<exists>i. get_inflight p t = Some i \<and> ifp_peer i = a}" using owned_pieces_iff [OF I(2)] unfolding get_inflight_def by blast
  then have n: "length (filter (\<lambda>(_, info). ifp_peer info = a) (inflight t))
      = card {p. \<exists>i. get_inflight p t = Some i \<and> ifp_peer i = a}"
    using distinct_card [OF distinct_keys_filter [OF I(2), of "\<lambda>(_, info). ifp_peer info = a"]]
    by simp
  show ?thesis
    using r release_refines [OF inv r] map_of_filter_owner [OF I(2), of a]
    by (auto simp: n get_inflight_def split: option.splits if_splits)
qed

theorem release_requeues_pieces_witness:
  "\<exists>n t'. release_pieces_owned_by (ex_peer 1) ex_pt = Inr (n, t') \<and> piece_abs {} {#} t' 1 = PsQueued"
proof -
  have "piece_abs {} {#} ex_pt 1 = PsInFlight (ex_peer 1)" by (simp add: piece_abs_def bf_bit_def)
  then show ?thesis
    using release_requeues_pieces [OF ex_pt_reach, of "ex_peer 1"] by (metis (mono_tags, lifting))
qed

text \<open>
  Pausing hands the chunk tracker back with every in-flight piece requeued: nothing that was
  being downloaded is lost, completed pieces stay completed and the byte counts stay in step.
\<close>

theorem into_chunks_requeues:
  assumes "reach (pt_init fis) (pt_step fis) (D, K, t)"
  shows "\<exists>c. into_chunks t = Inr c \<and> calc_hns c = Inr (hns c)
    \<and> (\<forall>p. bf_bit (have_pieces c) p \<longleftrightarrow> bf_bit (have_pieces (chunks t)) p)
    \<and> (\<forall>p. bf_bit (queue_pieces c) p \<longleftrightarrow> bf_bit (queue_pieces (chunks t)) p
           \<or> is_inflight p t \<and> \<not> bf_bit (have_pieces (chunks t)) p)"
proof -
  note inv = pt_reach_inv [OF assms]
  note I = pt_invD [OF inv]
  have keys: "set (map fst (inflight t)) = hm_keys (inflight t)" by (simp add: hm_keys_def)
  obtain c where c: "into_chunks t = Inr c" "ct_inv c"
    "bf_bit (have_pieces c) = bf_bit (have_pieces (chunks t))"
    "\<And>p. bf_bit (queue_pieces c) p \<longleftrightarrow> bf_bit (queue_pieces (chunks t)) p
       \<or> p \<in> hm_keys (inflight t) \<and> \<not> bf_bit (have_pieces (chunks t)) p"
    using ct_store.requeue_all [OF I(1), of "map fst (inflight t)"] I(3) keys
    unfolding into_chunks_def by blast
  have "is_inflight p t \<longleftrightarrow> p \<in> hm_keys (inflight t)" for p
    using hm_keys_map_of [of "inflight t" p] by (auto simp: is_inflight_def)
  then show ?thesis
    using c calc_hns_eq [OF ct_invD(1) [OF c(2)]] ct_invD(2) [OF c(2)] by auto
qed

theorem into_chunks_requeues_witness:
  "\<exists>c. into_chunks ex_pt = Inr c \<and> bf_bit (queue_pieces c) 1 \<and> bf_bit (have_pieces c) 0"
proof -
  have "is_inflight 1 ex_pt" "bf_bit (have_pieces (chunks ex_pt)) 0" "\<not> bf_bit (have_pieces (chunks ex_pt)) 1"
    by (simp_all add: is_inflight_def bf_bit_def)
  then show ?thesis using into_chunks_requeues [OF ex_pt_reach] by metis
qed

text \<open>
  C12. Progress: a peer that has a queued piece of an unfinished file is given a piece. The call
  never panics when the file descriptions fit the tracker and the priority pieces are valid.
\<close>

theorem acquire_piece_progress:
  assumes "reach (pt_init fis) (pt_step fis) (D, K, t)" and "files_fit (rq_file_infos req) (chunks t)"
    and "\<forall>p \<in> set (rq_priority_pieces req). p < total_pieces (ct_lengths (chunks t))"
    and "k \<in> set (rq_file_priorities req)" and "k < length (rq_file_infos req)"
    and "per_file_bytes (chunks t) ! k \<noteq> fi_len (rq_file_infos req ! k)"
    and "fst (piece_range (rq_file_infos req ! k)) \<le> p"
    and "p < snd (piece_range (rq_file_infos req ! k))"
    and "p < total_pieces (ct_lengths (chunks t))"
    and "bf_bit (queue_pieces (chunks t)) p" and "rq_peer_has_piece req p"
  shows "\<exists>r t'. acquire_piece req now t = Inr (r, t') \<and> r \<noteq> NoneAvailable"
proof -
  note inv = pt_reach_inv [OF assms(1)]
  note I = pt_invD [OF inv]
  obtain r1 t1 where s1: "try_steal req 10 now t = (r1, t1)" by (cases "try_steal req 10 now t")
  note c1 = try_steal_cases [OF I(2) s1]
  show ?thesis
  proof (cases r1)
    case (Some x)
    then show ?thesis using s1 c1 by (auto simp: acquire_piece_def)
  next
    case None
    then have t1: "t1 = t" using c1 by simp
    have "\<And>q. q \<in> set (rq_priority_pieces req) \<Longrightarrow> q < length (have_pieces (chunks t))"
      using assms(3) I(1) valid_in_range [of "chunks t"] by simp
    then obtain pri where pri: "first_priority req t (rq_priority_pieces req) = Inr pri"
      using first_priority_total by blast
    have rsv: "\<exists>t'. reserve_piece q (rq_peer req) now t = Inr (Reserved q, t')"
      if "ct_valid (chunks t) q" for q
      by (rule reserve_piece_eq [OF I(1) that]) blast
    show ?thesis
    proof (cases pri)
      case (Some q)
      then have "ct_valid (chunks t) q" using first_priority_Some pri assms(3) by blast
      then show ?thesis using rsv [of q] s1 None t1 pri Some by (auto simp: acquire_piece_def)
    next
      case pn: None
      obtain ids where ids: "iter_queued_pieces (rq_file_priorities req) (rq_file_infos req)
          (chunks t) = Inr ids" and "p \<in> set ids"
        using iter_queued_pieces_eq [OF I(1) assms(2), of "rq_file_priorities req"] assms(4-10)
        by blast
      then obtain q where q: "find (rq_peer_has_piece req) ids = Some q" "q \<in> set ids"
        using assms(11) by (metis find_None_iff find_Some_iff not_None_eq nth_mem)
      then have "ct_valid (chunks t) q" using iter_queued_pieces_sound [OF I(1) ids] by blast
      then show ?thesis
        using rsv [of q] s1 None t1 pri pn ids q by (auto simp: acquire_piece_def)
    qed
  qed
qed

theorem acquire_piece_progress_witness:
  "\<exists>r t'. acquire_piece (ex_request 2) 7 ex_pt = Inr (r, t') \<and> r \<noteq> NoneAvailable"
proof -
  have pf: "per_file_bytes (chunks ex_pt) = [4, 0]"
    by (simp add: ex_pt_def reserve_needed_piece_def)
  have "files_fit ex_files (chunks ex_pt)"
    by (simp add: files_fit_def pf ex_files_def)
  then show ?thesis
    using acquire_piece_progress [OF ex_pt_reach, of "ex_request 2" 1 2 7]
    by (simp add: ex_request_def pf ex_files_def bf_bit_def)
qed

end
