(* ===== verification/Wire.thy ===== *)
theory Wire
  imports Lengths
begin

text \<open>
  The messages exchanged with peers and with the per-peer writer task, as far as the modelled code
  builds or matches them: \<open>Message\<close>, \<open>Request\<close>, \<open>ExtendedMessage\<close> and \<open>HolepunchMessage\<close> of the external
  crate \<open>peer_binary_protocol\<close> as data, and \<open>WriterRequest\<close> of \<open>src/src/peer_connection.rs\<close>. A block of
  payload bytes is a list of \<open>8 word\<close>.
\<close>

type_synonym byte = "8 word"

record request =
  rq_index :: nat
  rq_begin :: nat
  rq_length :: nat

datatype holepunch_type = Rendezvous | ConnectHp | ErrorHp

record holepunch_msg =
  hp_type :: holepunch_type
  hp_addr :: socket_addr
  hp_not_connected :: bool

record ut_pex =
  px_added :: "socket_addr list"
  px_dropped :: "socket_addr list"

text \<open>The fields of an extended handshake that are read: the extension ids, the size of the metadata, and the peer's address.\<close>

record ext_handshake =
  eh_ut_metadata :: "byte option"
  eh_ut_pex :: "byte option"
  eh_metadata_size :: "nat option"
  eh_port :: "16 word option"
  eh_ip :: "ip_addr option"

datatype extended_message =
    UtMetadataRequest nat
  | UtMetadataData nat "byte list"
  | UtMetadataReject nat
  | UtPexMsg ut_pex
  | UtHolepunchMsg holepunch_msg
  | ExtHandshake ext_handshake
  | ExtOther

datatype message =
    MsgRequest request
  | MsgBitfield "byte list"
  | MsgChoke
  | MsgUnchoke
  | MsgInterested
  | MsgNotInterested
  | MsgKeepAlive
  | MsgHave nat
  | MsgCancel request
  | MsgPiece nat nat "byte list"
  | MsgExtended extended_message

datatype writer_request =
    WrMessage message
  | WrUtMetadata nat nat "byte list"
  | WrUtPex ut_pex
  | WrUtHolepunch holepunch_msg
  | WrReadChunkRequest chunk_info
  | WrDisconnect

text \<open>
  A channel sender is a number; what was sent is a log of sender and request, oldest first.
\<close>

type_synonym tx = nat
type_synonym outbox = "(tx \<times> writer_request) list"

subsection \<open>Bit fields as bytes\<close>

text \<open>The bits of a byte, most significant first (\<open>BF\<close> is \<open>BitBox<u8, Msb0>\<close>).\<close>

definition byte_bits :: "byte \<Rightarrow> bool list" where
  "byte_bits b = map (\<lambda>i. bit b (7 - i)) [0..<8]"

definition bf_from_bytes :: "byte list \<Rightarrow> bf" where
  "bf_from_bytes bs = concat (map byte_bits bs)"

text \<open>\<open>as_raw_slice\<close>, for bit fields of whole bytes.\<close>

definition bits_byte :: "bool list \<Rightarrow> byte" where
  "bits_byte bs = horner_sum of_bool 2 (rev bs)"

fun bf_to_bytes :: "bf \<Rightarrow> byte list" where
  "bf_to_bytes (a # b # c # d # e # f # g # h # rest) = bits_byte [a, b, c, d, e, f, g, h] # bf_to_bytes rest"
| "bf_to_bytes _ = []"

lemma byte_bits_byte: "byte_bits (bits_byte [a, b, c, d, e, f, g, h]) = [a, b, c, d, e, f, g, h]"
  by (simp add: byte_bits_def bits_byte_def bit_horner_sum_bit_iff upt_rec nth_Cons' possible_bit_def)

lemma bf_from_to_bytes: "8 dvd length b \<Longrightarrow> bf_from_bytes (bf_to_bytes b) = b"
proof (induction b rule: bf_to_bytes.induct)
  case (1 a b c d e f g h rest)
  then have "8 dvd length rest" by (simp, presburger)
  with 1 show ?case by (simp add: bf_from_bytes_def byte_bits_byte)
qed (simp_all add: bf_from_bytes_def, presburger+)

lemma length_bf_to_bytes: "length (bf_to_bytes b) = length b div 8"
  by (induction b rule: bf_to_bytes.induct) simp_all

lemma length_bf_from_bytes [simp]: "length (bf_from_bytes bs) = 8 * length bs"
  by (induction bs) (simp_all add: bf_from_bytes_def byte_bits_def)

end
