(* ===== verification/Peers.thy ===== *)
theory Peers
  imports Wire "HOL-Library.State_Monad"
begin

text \<open>
  The table of peers of a live torrent: \<open>src/src/torrent_state/live/peer/mod.rs\<close>,
  \<open>live/peer/stats/atomic.rs\<close>, \<open>live/peers/mod.rs\<close> and \<open>live/peers/stats/mod.rs\<close>. Atomic \<open>u32\<close> and
  \<open>u64\<close> counters are words, so that \<open>fetch_add\<close> and \<open>fetch_sub\<close> wrap. \<open>PeerCountersAtomic\<close> is shared
  between a peer's entry and its handler through an \<open>Arc\<close>; the \<open>Arc\<close>s are numbers into the store
  \<open>ctrs\<close>. The backoff iterator of the external crate \<open>backon\<close> is the number of delays taken from it
  since it was built.
\<close>

type_synonym id20 = nat

datatype connection_kind = Tcp | Utp | Socks

record live_peer_state =
  peer_id :: id20
  peer_interested :: bool
  bitfield :: bf
  inflight_requests :: "chunk_info list"
  live_tx :: tx
  conn_kind :: connection_kind

datatype peer_state = Queued | Connecting tx | Live live_peer_state | Dead | NotNeeded

record peer_counters =
  fetched_bytes :: u64
  uploaded_bytes :: u64
  total_time_connecting_ms :: u64
  incoming_connections :: u32
  outgoing_connection_attempts :: u32
  outgoing_connections :: u32
  pc_errors :: u32
  fetched_chunks :: u32
  downloaded_and_checked_pieces :: u32
  downloaded_and_checked_bytes :: u64
  total_piece_download_ms :: u64
  times_stolen_from_me :: u32
  times_i_stole :: u32

record peer =
  addr :: socket_addr
  pstate :: peer_state
  counters :: nat
  backoff :: nat
  outgoing_address :: "socket_addr option"
  last_state_change :: nat

record agg_stats =
  ag_queued :: u32
  ag_connecting :: u32
  ag_live :: u32
  ag_live_tcp :: u32
  ag_live_utp :: u32
  ag_live_socks :: u32
  ag_seen :: u32
  ag_dead :: u32
  ag_not_needed :: u32
  ag_steals :: u32

record peer_states =
  session_stats :: agg_stats
  ps_stats :: agg_stats
  live_outgoing_peers :: "peer_handle set"
  states :: "(peer_handle \<times> peer) list"
  ctrs :: "nat \<Rightarrow> peer_counters"

subsection \<open>Counters\<close>

definition peer_counters_default :: peer_counters where
  "peer_counters_default = \<lparr>fetched_bytes = 0, uploaded_bytes = 0, total_time_connecting_ms = 0,
     incoming_connections = 0, outgoing_connection_attempts = 0, outgoing_connections = 0,
     pc_errors = 0, fetched_chunks = 0, downloaded_and_checked_pieces = 0,
     downloaded_and_checked_bytes = 0, total_piece_download_ms = 0, times_stolen_from_me = 0,
     times_i_stole = 0\<rparr>"

definition atomic_inc :: "'a::len word \<Rightarrow> 'a word" where
  "atomic_inc c = c + 1"

definition atomic_dec :: "'a::len word \<Rightarrow> 'a word" where
  "atomic_dec c = c - 1"

text \<open>\<open>elapsed\<close> is in nanoseconds; \<open>as_millis() as u64\<close> truncates.\<close>

definition counters_on_piece_completed :: "u64 \<Rightarrow> nat \<Rightarrow> peer_counters \<Rightarrow> peer_counters" where
  "counters_on_piece_completed piece_len elapsed c =
     c\<lparr>total_piece_download_ms := total_piece_download_ms c + of_nat (elapsed div 1000000),
       downloaded_and_checked_pieces := downloaded_and_checked_pieces c + 1,
       downloaded_and_checked_bytes := downloaded_and_checked_bytes c + piece_len\<rparr>"

definition average_piece_download_time :: "peer_counters \<Rightarrow> nat option" where
  "average_piece_download_time c =
     (let downloaded_pieces = unat (downloaded_and_checked_pieces c);
          total_download_time = unat (total_piece_download_ms c)
      in if total_download_time = 0 \<or> downloaded_pieces = 0 then None
         else Some ((total_download_time div downloaded_pieces) * 1000000))"

definition agg_counter_upd :: "peer_state \<Rightarrow> (u32 \<Rightarrow> u32) \<Rightarrow> agg_stats \<Rightarrow> agg_stats" where
  "agg_counter_upd s f a = (case s of
       Connecting _ \<Rightarrow> a\<lparr>ag_connecting := f (ag_connecting a)\<rparr>
     | Live _ \<Rightarrow> a\<lparr>ag_live := f (ag_live a)\<rparr>
     | Queued \<Rightarrow> a\<lparr>ag_queued := f (ag_queued a)\<rparr>
     | Dead \<Rightarrow> a\<lparr>ag_dead := f (ag_dead a)\<rparr>
     | NotNeeded \<Rightarrow> a\<lparr>ag_not_needed := f (ag_not_needed a)\<rparr>)"

definition live_kind_counter_upd ::
  "connection_kind \<Rightarrow> (u32 \<Rightarrow> u32) \<Rightarrow> agg_stats \<Rightarrow> agg_stats" where
  "live_kind_counter_upd k f a = (case k of
       Tcp \<Rightarrow> a\<lparr>ag_live_tcp := f (ag_live_tcp a)\<rparr>
     | Utp \<Rightarrow> a\<lparr>ag_live_utp := f (ag_live_utp a)\<rparr>
     | Socks \<Rightarrow> a\<lparr>ag_live_socks := f (ag_live_socks a)\<rparr>)"

definition agg_inc :: "peer_state \<Rightarrow> agg_stats \<Rightarrow> agg_stats" where
  "agg_inc s a = agg_counter_upd s atomic_inc
     (case s of Live l \<Rightarrow> live_kind_counter_upd (conn_kind l) atomic_inc a | _ \<Rightarrow> a)"

definition agg_dec :: "peer_state \<Rightarrow> agg_stats \<Rightarrow> agg_stats" where
  "agg_dec s a = agg_counter_upd s atomic_dec
     (case s of Live l \<Rightarrow> live_kind_counter_upd (conn_kind l) atomic_dec a | _ \<Rightarrow> a)"

definition agg_incdec :: "peer_state \<Rightarrow> peer_state \<Rightarrow> agg_stats \<Rightarrow> agg_stats" where
  "agg_incdec old new a = agg_inc new (agg_dec old a)"

definition agg_inc_steals :: "agg_stats \<Rightarrow> agg_stats" where
  "agg_inc_steals a = a\<lparr>ag_steals := atomic_inc (ag_steals a)\<rparr>"

definition agg_inc_seen :: "agg_stats \<Rightarrow> agg_stats" where
  "agg_inc_seen a = a\<lparr>ag_seen := atomic_inc (ag_seen a)\<rparr>"

text \<open>\<open>for counter in [&counters.session_stats, &counters.stats]\<close>.\<close>

definition both_counters :: "(agg_stats \<Rightarrow> agg_stats) \<Rightarrow> peer_states \<Rightarrow> peer_states" where
  "both_counters f ps = ps\<lparr>session_stats := f (session_stats ps), ps_stats := f (ps_stats ps)\<rparr>"

definition upd_counters :: "nat \<Rightarrow> (peer_counters \<Rightarrow> peer_counters) \<Rightarrow> peer_states \<Rightarrow> peer_states" where
  "upd_counters c f ps = ps\<lparr>ctrs := (ctrs ps)(c := f (ctrs ps c))\<rparr>"

subsection \<open>A peer\<close>

definition live_new :: "id20 \<Rightarrow> tx \<Rightarrow> bool \<Rightarrow> connection_kind \<Rightarrow> live_peer_state" where
  "live_new pid t initial_interested kind =
     \<lparr>peer_id = pid, peer_interested = initial_interested, bitfield = [], inflight_requests = [],
      live_tx = t, conn_kind = kind\<rparr>"

definition has_full_torrent :: "nat \<Rightarrow> live_peer_state \<Rightarrow> bool" where
  "has_full_torrent total_p l =
     (case bf_get_range (bitfield l) (0, total_p) of Some s \<Rightarrow> bf_all s | None \<Rightarrow> False)"

definition state_name :: "peer_state \<Rightarrow> string" where
  "state_name s = (case s of Queued \<Rightarrow> ''queued'' | Connecting _ \<Rightarrow> ''connecting'' | Live _ \<Rightarrow> ''live''
     | Dead \<Rightarrow> ''dead'' | NotNeeded \<Rightarrow> ''not needed'')"

definition take_live_no_counters :: "peer_state \<Rightarrow> live_peer_state option" where
  "take_live_no_counters s = (case s of Live l \<Rightarrow> Some l | _ \<Rightarrow> None)"

definition is_live :: "peer_state \<Rightarrow> bool" where
  "is_live s = (case s of Live _ \<Rightarrow> True | _ \<Rightarrow> False)"

definition new_with_outgoing_address ::
  "socket_addr \<Rightarrow> nat \<Rightarrow> nat \<Rightarrow> peer_states \<Rightarrow> peer \<times> peer_states" where
  "new_with_outgoing_address a cid now ps =
     (\<lparr>addr = a, pstate = Queued, counters = cid, backoff = 0, outgoing_address = Some a,
       last_state_change = now\<rparr>,
      ps\<lparr>ctrs := (ctrs ps)(cid := peer_counters_default)\<rparr>)"

definition new_live_for_incoming_connection ::
  "socket_addr \<Rightarrow> id20 \<Rightarrow> tx \<Rightarrow> connection_kind \<Rightarrow> nat \<Rightarrow> nat \<Rightarrow> peer_states \<Rightarrow> peer \<times> peer_states" where
  "new_live_for_incoming_connection a pid t kind cid now ps =
     (let s = Live (live_new pid t True kind);
          ps1 = both_counters (agg_inc s) ps
      in (\<lparr>addr = a, pstate = s, counters = cid, backoff = 0, outgoing_address = None,
           last_state_change = now\<rparr>,
          ps1\<lparr>ctrs := (ctrs ps1)(cid := peer_counters_default)\<rparr>))"

definition set_state ::
  "peer_state \<Rightarrow> nat \<Rightarrow> peer \<Rightarrow> peer_states \<Rightarrow> peer_state \<times> peer \<times> peer_states" where
  "set_state new now p ps =
     (let ps1 = both_counters (agg_incdec (pstate p) new) ps;
          ps2 = (case outgoing_address p of None \<Rightarrow> ps1
            | Some a \<Rightarrow>
              let ps' = (if is_live (pstate p)
                    then ps1\<lparr>live_outgoing_peers := live_outgoing_peers ps1 - {a}\<rparr> else ps1)
              in if is_live new \<and> 0 < outgoing_connections (ctrs ps' (counters p))
                 then ps'\<lparr>live_outgoing_peers := insert a (live_outgoing_peers ps')\<rparr> else ps')
      in (pstate p, p\<lparr>last_state_change := now, pstate := new\<rparr>, ps2))"

definition take_state :: "nat \<Rightarrow> peer \<Rightarrow> peer_states \<Rightarrow> peer_state \<times> peer \<times> peer_states" where
  "take_state now p ps = set_state Queued now p ps"

definition set_not_needed :: "nat \<Rightarrow> peer \<Rightarrow> peer_states \<Rightarrow> peer_state \<times> peer \<times> peer_states" where
  "set_not_needed now p ps = set_state NotNeeded now p ps"

definition destroy :: "peer \<Rightarrow> peer_states \<Rightarrow> peer_states" where
  "destroy p ps =
     (let ps1 = both_counters (agg_dec (pstate p)) ps in
      case (outgoing_address p, pstate p) of
        (Some a, Live _) \<Rightarrow> ps1\<lparr>live_outgoing_peers := live_outgoing_peers ps1 - {a}\<rparr>
      | _ \<Rightarrow> ps1)"

definition idle_to_connecting :: "tx \<Rightarrow> nat \<Rightarrow> peer \<Rightarrow> peer_states \<Rightarrow> tx option \<times> peer \<times> peer_states" where
  "idle_to_connecting new_tx now p ps =
     (case pstate p of
        Queued \<Rightarrow> (Some new_tx, snd (set_state (Connecting new_tx) now p ps))
      | NotNeeded \<Rightarrow> (Some new_tx, snd (set_state (Connecting new_tx) now p ps))
      | _ \<Rightarrow> (None, p, ps))"

text \<open>\<open>Some ()\<close>: the connection is accepted; \<open>None\<close>: \<open>IncomingConnectionResult::AlreadyActive\<close>.\<close>

definition incoming_connection ::
  "id20 \<Rightarrow> tx \<Rightarrow> connection_kind \<Rightarrow> nat \<Rightarrow> peer \<Rightarrow> peer_states \<Rightarrow> unit option \<times> peer \<times> peer_states" where
  "incoming_connection pid t kind now p ps =
     (case pstate p of
        Connecting _ \<Rightarrow> (None, p, ps)
      | Live _ \<Rightarrow> (None, p, ps)
      | _ \<Rightarrow>
        let (_, p1, ps1) = take_state now p ps;
            (_, p2, ps2) = set_state (Live (live_new pid t True kind)) now p1 ps1
        in (Some (), p2, ps2))"

definition connecting_to_live ::
  "id20 \<Rightarrow> connection_kind \<Rightarrow> nat \<Rightarrow> peer \<Rightarrow> peer_states \<Rightarrow> unit option \<times> peer \<times> peer_states" where
  "connecting_to_live pid kind now p ps =
     (case pstate p of
        Connecting t \<Rightarrow>
          let (_, p1, ps1) = take_state now p ps;
              (_, p2, ps2) = set_state (Live (live_new pid t False kind)) now p1 ps1
          in (Some (), p2, ps2)
      | _ \<Rightarrow> (None, p, ps))"

definition reconnect_not_needed_peer ::
  "nat \<Rightarrow> peer \<Rightarrow> peer_states \<Rightarrow> socket_addr option \<times> peer \<times> peer_states" where
  "reconnect_not_needed_peer now p ps =
     (case pstate p of
        NotNeeded \<Rightarrow>
          (case outgoing_address p of
             None \<Rightarrow> (None, p, ps)
           | Some a \<Rightarrow> if addr p = a then (Some a, snd (set_state Queued now p ps)) else (Some a, p, ps))
      | _ \<Rightarrow> (None, p, ps))"

subsection \<open>The table\<close>

definition with_peer :: "peer_handle \<Rightarrow> (peer \<Rightarrow> 'r) \<Rightarrow> peer_states \<Rightarrow> 'r option" where
  "with_peer a f ps = map_option f (map_of (states ps) a)"

definition with_peer_mut ::
  "peer_handle \<Rightarrow> (peer \<Rightarrow> peer_states \<Rightarrow> 'r \<times> peer \<times> peer_states) \<Rightarrow> peer_states
   \<Rightarrow> 'r option \<times> peer_states" where
  "with_peer_mut a f ps =
     (case map_of (states ps) a of
        None \<Rightarrow> (None, ps)
      | Some p \<Rightarrow> let (r, p', ps') = f p ps
                  in (Some r, ps'\<lparr>states := AList.update a p' (states ps')\<rparr>))"

definition with_live :: "peer_handle \<Rightarrow> (live_peer_state \<Rightarrow> 'r) \<Rightarrow> peer_states \<Rightarrow> 'r option" where
  "with_live a f ps = Option.bind (with_peer a pstate ps)
     (\<lambda>s. map_option f (take_live_no_counters s))"

text \<open>\<open>peer.get_live_mut().map(f)\<close>.\<close>

definition get_live_mut_map ::
  "(live_peer_state \<Rightarrow> 'r \<times> live_peer_state) \<Rightarrow> peer \<Rightarrow> peer_states
   \<Rightarrow> 'r option \<times> peer \<times> peer_states" where
  "get_live_mut_map f p ps = (case pstate p of
       Live l \<Rightarrow> let (r, l') = f l in (Some r, p\<lparr>pstate := Live l'\<rparr>, ps)
     | _ \<Rightarrow> (None, p, ps))"

definition with_live_mut ::
  "peer_handle \<Rightarrow> (live_peer_state \<Rightarrow> 'r \<times> live_peer_state) \<Rightarrow> peer_states \<Rightarrow> 'r option \<times> peer_states" where
  "with_live_mut a f ps =
     (let (r, ps') = with_peer_mut a (get_live_mut_map f) ps in (Option.bind r (\<lambda>x. x), ps'))"

definition add_if_not_seen ::
  "socket_addr \<Rightarrow> nat \<Rightarrow> nat \<Rightarrow> peer_states \<Rightarrow> peer_handle option \<times> peer_states" where
  "add_if_not_seen a cid now ps =
     (case map_of (states ps) a of
        Some _ \<Rightarrow> (None, ps)
      | None \<Rightarrow>
        let (p, ps1) = new_with_outgoing_address a cid now ps;
            ps2 = ps1\<lparr>states := AList.update a p (states ps1)\<rparr>;
            ps3 = both_counters (\<lambda>g. g\<lparr>ag_queued := atomic_inc (ag_queued g)\<rparr>) ps2;
            ps4 = both_counters agg_inc_seen ps3
        in (Some a, ps4))"

definition drop_peer :: "peer_handle \<Rightarrow> peer_states \<Rightarrow> peer option \<times> peer_states" where
  "drop_peer a ps =
     (case map_of (states ps) a of
        None \<Rightarrow> (None, ps)
      | Some p \<Rightarrow> (Some p, both_counters (agg_dec (pstate p))
                     (ps\<lparr>states := AList.delete a (states ps)\<rparr>)))"

definition is_peer_not_interested_and_has_full_torrent ::
  "peer_handle \<Rightarrow> nat \<Rightarrow> peer_states \<Rightarrow> bool" where
  "is_peer_not_interested_and_has_full_torrent a total_p ps =
     (case with_live a (\<lambda>l. \<not> peer_interested l \<and> has_full_torrent total_p l) ps of
        Some b \<Rightarrow> b | None \<Rightarrow> False)"

definition set_interested :: "bool \<Rightarrow> live_peer_state \<Rightarrow> bool \<times> live_peer_state" where
  "set_interested b l = (peer_interested l, l\<lparr>peer_interested := b\<rparr>)"

definition set_bitfield :: "bf \<Rightarrow> live_peer_state \<Rightarrow> unit \<times> live_peer_state" where
  "set_bitfield b l = ((), l\<lparr>bitfield := b\<rparr>)"

text \<open>The closure of \<open>send_cancellations\<close>: \<open>retain\<close> with a cancel message per removed request.\<close>

definition cancel_requests :: "nat \<Rightarrow> live_peer_state \<Rightarrow> outbox \<times> live_peer_state" where
  "cancel_requests stolen_idx l =
     (map (\<lambda>req. (live_tx l, WrMessage (MsgCancel
          \<lparr>rq_index = stolen_idx, rq_begin = ci_offset req, rq_length = ci_size req\<rparr>)))
        (filter (\<lambda>req. piece_index req = stolen_idx) (inflight_requests l)),
      l\<lparr>inflight_requests := filter (\<lambda>req. piece_index req \<noteq> stolen_idx) (inflight_requests l)\<rparr>)"

definition reset_backoff :: "peer \<Rightarrow> peer_states \<Rightarrow> unit \<times> peer \<times> peer_states" where
  "reset_backoff p ps = ((), p\<lparr>backoff := 0\<rparr>, ps)"

definition mark_peer_interested :: "peer_handle \<Rightarrow> bool \<Rightarrow> peer_states \<Rightarrow> bool option \<times> peer_states" where
  "mark_peer_interested a b ps = with_live_mut a (set_interested b) ps"

definition update_bitfield :: "peer_handle \<Rightarrow> bf \<Rightarrow> peer_states \<Rightarrow> unit option \<times> peer_states" where
  "update_bitfield a b ps = with_live_mut a (set_bitfield b) ps"

definition mark_peer_connecting :: "peer_handle \<Rightarrow> tx \<Rightarrow> nat \<Rightarrow> peer_states \<Rightarrow> tx res \<times> peer_states" where
  "mark_peer_connecting a new_tx now ps =
     (let (r, ps') = with_peer_mut a (idle_to_connecting new_tx now) ps
      in ((case r of None \<Rightarrow> Inl BugPeerNotFound | Some x \<Rightarrow> ok_or BugInvalidPeerState x), ps'))"

definition reset_peer_backoff :: "peer_handle \<Rightarrow> peer_states \<Rightarrow> unit option \<times> peer_states" where
  "reset_peer_backoff a ps = with_peer_mut a reset_backoff ps"

definition mark_peer_not_needed :: "peer_handle \<Rightarrow> nat \<Rightarrow> peer_states \<Rightarrow> peer_state option \<times> peer_states" where
  "mark_peer_not_needed a now ps = with_peer_mut a (set_not_needed now) ps"

definition on_steal :: "socket_addr \<Rightarrow> socket_addr \<Rightarrow> nat \<Rightarrow> peer_states \<Rightarrow> peer_states \<times> outbox" where
  "on_steal from_peer to_peer stolen_idx ps =
     (let ps1 = (case with_peer to_peer counters ps of None \<Rightarrow> ps
            | Some c \<Rightarrow> upd_counters c (\<lambda>k. k\<lparr>times_i_stole := atomic_inc (times_i_stole k)\<rparr>) ps);
          ps2 = (case with_peer from_peer counters ps1 of None \<Rightarrow> ps1
            | Some c \<Rightarrow> upd_counters c
                (\<lambda>k. k\<lparr>times_stolen_from_me := atomic_inc (times_stolen_from_me k)\<rparr>) ps1);
          ps3 = both_counters agg_inc_steals ps2;
          (sent, ps4) = with_live_mut from_peer (cancel_requests stolen_idx) ps3
      in (ps4, case sent of None \<Rightarrow> [] | Some m \<Rightarrow> m))"

text \<open>\<open>states.retain(...)\<close>: the closure may change the counters; entries are visited in order.\<close>

definition prunable :: "nat \<Rightarrow> nat \<Rightarrow> peer \<Rightarrow> bool" where
  "prunable now retention p \<longleftrightarrow>
     (case pstate p of Dead \<Rightarrow> True | NotNeeded \<Rightarrow> True | _ \<Rightarrow> False)
     \<and> retention < now - last_state_change p"

definition prune_dead_peers :: "nat \<Rightarrow> nat \<Rightarrow> peer_states \<Rightarrow> nat \<times> peer_states" where
  "prune_dead_peers retention now ps =
     (let pruned = filter (\<lambda>(_, p). prunable now retention p) (states ps);
          ps1 = fold (\<lambda>(_, p). both_counters (agg_dec (pstate p))) pruned ps
      in (length pruned, ps1\<lparr>states := filter (\<lambda>(_, p). \<not> prunable now retention p) (states ps)\<rparr>))"

text \<open>\<open>impl Drop for PeerStates\<close>: the table is taken out and every peer destroyed.\<close>

definition drop_all :: "peer_states \<Rightarrow> peer_states" where
  "drop_all ps = fold (\<lambda>(_, p). destroy p) (states ps) (ps\<lparr>states := []\<rparr>)"

subsection \<open>What the counters count\<close>

text \<open>
  The specification of the aggregate counters: one class per state (and per kind of connection of
  a live peer), and \<open>in_class\<close> says which peers it counts.
\<close>

datatype counter_class = CQueued | CConnecting | CLive | CLiveKind connection_kind | CDead | CNotNeeded

definition class_counter :: "counter_class \<Rightarrow> agg_stats \<Rightarrow> u32" where
  "class_counter k a = (case k of
       CQueued \<Rightarrow> ag_queued a | CConnecting \<Rightarrow> ag_connecting a | CLive \<Rightarrow> ag_live a
     | CLiveKind Tcp \<Rightarrow> ag_live_tcp a | CLiveKind Utp \<Rightarrow> ag_live_utp a
     | CLiveKind Socks \<Rightarrow> ag_live_socks a | CDead \<Rightarrow> ag_dead a | CNotNeeded \<Rightarrow> ag_not_needed a)"

definition in_class :: "counter_class \<Rightarrow> peer_state \<Rightarrow> bool" where
  "in_class k s = (case (k, s) of
       (CQueued, Queued) \<Rightarrow> True | (CConnecting, Connecting _) \<Rightarrow> True | (CLive, Live _) \<Rightarrow> True
     | (CLiveKind c, Live l) \<Rightarrow> conn_kind l = c | (CDead, Dead) \<Rightarrow> True
     | (CNotNeeded, NotNeeded) \<Rightarrow> True | _ \<Rightarrow> False)"

definition class_weight :: "counter_class \<Rightarrow> peer_state \<Rightarrow> u32" where
  "class_weight k s = of_bool (in_class k s)"

definition peers_in_class :: "counter_class \<Rightarrow> (peer_handle \<times> peer) list \<Rightarrow> nat" where
  "peers_in_class k m = length (filter (\<lambda>(_, p). in_class k (pstate p)) m)"

lemma class_counter_agg_inc [simp]:
  "class_counter k (agg_inc s a) = class_counter k a + class_weight k s"
  by (auto simp: agg_inc_def agg_counter_upd_def live_kind_counter_upd_def class_counter_def
      class_weight_def in_class_def atomic_inc_def split: counter_class.splits connection_kind.splits
      peer_state.splits)

lemma class_counter_agg_dec [simp]:
  "class_counter k (agg_dec s a) = class_counter k a - class_weight k s"
  by (auto simp: agg_dec_def agg_counter_upd_def live_kind_counter_upd_def class_counter_def
      class_weight_def in_class_def atomic_dec_def split: counter_class.splits connection_kind.splits
      peer_state.splits)

lemma class_counter_incdec [simp]:
  "class_counter k (agg_incdec s s' a) = class_counter k a - class_weight k s + class_weight k s'"
  by (simp add: agg_incdec_def)

lemma class_counter_seen [simp]: "class_counter k (agg_inc_seen a) = class_counter k a"
  by (auto simp: agg_inc_seen_def class_counter_def split: counter_class.splits connection_kind.splits)

lemma class_counter_steals [simp]: "class_counter k (agg_inc_steals a) = class_counter k a"
  by (auto simp: agg_inc_steals_def class_counter_def split: counter_class.splits connection_kind.splits)

lemma class_counter_queued:
  "class_counter k (a\<lparr>ag_queued := atomic_inc (ag_queued a)\<rparr>) = class_counter k a + class_weight k Queued"
  by (auto simp: class_counter_def class_weight_def in_class_def atomic_inc_def
      split: counter_class.splits connection_kind.splits)

lemma both_counters_simps [simp]:
  "states (both_counters f ps) = states ps" "ctrs (both_counters f ps) = ctrs ps"
  "live_outgoing_peers (both_counters f ps) = live_outgoing_peers ps"
  "ps_stats (both_counters f ps) = f (ps_stats ps)"
  "session_stats (both_counters f ps) = f (session_stats ps)"
  by (simp_all add: both_counters_def)

lemma upd_counters_simps [simp]:
  "states (upd_counters c f ps) = states ps" "ps_stats (upd_counters c f ps) = ps_stats ps"
  "session_stats (upd_counters c f ps) = session_stats ps"
  "live_outgoing_peers (upd_counters c f ps) = live_outgoing_peers ps"
  by (simp_all add: upd_counters_def)

lemma peers_in_class_Nil [simp]: "peers_in_class k [] = 0"
  by (simp add: peers_in_class_def)

lemma peers_in_class_update_fresh:
  "map_of m a = None \<Longrightarrow>
   (of_nat (peers_in_class k (AList.update a p m)) :: u32)
     = of_nat (peers_in_class k m) + class_weight k (pstate p)"
proof (induction m)
  case (Cons x m)
  then show ?case by (cases x) (auto simp: peers_in_class_def split: if_splits)
qed (simp add: peers_in_class_def class_weight_def)

lemma peers_in_class_update:
  "map_of m a = Some p \<Longrightarrow>
   (of_nat (peers_in_class k (AList.update a p' m)) :: u32)
     = of_nat (peers_in_class k m) - class_weight k (pstate p) + class_weight k (pstate p')"
proof (induction m)
  case (Cons x m)
  then show ?case
    by (cases x) (auto simp: peers_in_class_def class_weight_def split: if_splits)
qed simp

lemma peers_in_class_delete:
  "distinct (map fst m) \<Longrightarrow> map_of m a = Some p \<Longrightarrow>
   (of_nat (peers_in_class k (AList.delete a m)) :: u32)
     = of_nat (peers_in_class k m) - class_weight k (pstate p)"
proof (induction m)
  case (Cons x m)
  then show ?case
    by (cases x) (auto simp: peers_in_class_def class_weight_def delete_idem dom_map_of_conv_image_fst
        image_iff split: if_splits)
qed simp

lemma peers_in_class_filter:
  "(of_nat (peers_in_class k (filter P m)) :: u32)
     = of_nat (peers_in_class k m) - sum_list (map (\<lambda>(_, p). class_weight k (pstate p)) (filter (\<lambda>x. \<not> P x) m))"
proof (induction m)
  case (Cons x m)
  then show ?case
    by (cases x) (auto simp: peers_in_class_def class_weight_def algebra_simps split: if_splits)
qed (simp add: peers_in_class_def)

subsection \<open>The counters are accurate\<close>

text \<open>
  \<open>others k\<close> is what the other torrents of the session contribute to the shared counters.
\<close>

definition peers_inv :: "(counter_class \<Rightarrow> u32) \<Rightarrow> peer_states \<Rightarrow> bool" where
  "peers_inv others ps \<longleftrightarrow> distinct (map fst (states ps))
     \<and> (\<forall>k. class_counter k (ps_stats ps) = of_nat (peers_in_class k (states ps))
          \<and> class_counter k (session_stats ps) = others k + class_counter k (ps_stats ps))"

text \<open>
  The contract of the operations on one entry: they leave the table alone and move the counters
  from the class of the old state to that of the new one. The table keeps its invariant under
  every operation that honours it, which is proved here once.
\<close>

locale peer_transition =
  fixes f :: "peer \<Rightarrow> peer_states \<Rightarrow> 'r \<times> peer \<times> peer_states"
  assumes states_kept: "states (snd (snd (f p ps))) = states ps"
    and stats_moved: "class_counter k (ps_stats (snd (snd (f p ps))))
        = class_counter k (ps_stats ps) - class_weight k (pstate p)
          + class_weight k (pstate (fst (snd (f p ps))))"
    and session_moved: "class_counter k (session_stats (snd (snd (f p ps))))
        = class_counter k (session_stats ps) - class_weight k (pstate p)
          + class_weight k (pstate (fst (snd (f p ps))))"
begin

lemma with_peer_mut_Some:
  "map_of (states ps) a = Some p \<Longrightarrow> with_peer_mut a f ps =
     (Some (fst (f p ps)),
      (snd (snd (f p ps)))\<lparr>states := AList.update a (fst (snd (f p ps))) (states ps)\<rparr>)"
  by (simp add: with_peer_mut_def split_beta states_kept)

lemma with_peer_mut_inv:
  assumes "peers_inv others ps"
  shows "peers_inv others (snd (with_peer_mut a f ps))"
proof (cases "map_of (states ps) a")
  case None
  with assms show ?thesis by (simp add: with_peer_mut_def)
next
  case (Some p)
  show ?thesis
    unfolding peers_inv_def with_peer_mut_Some [OF Some]
    using assms peers_in_class_update [OF Some] stats_moved [of _ p ps] session_moved [of _ p ps]
    by (auto simp: peers_inv_def distinct_update)
qed

lemma with_peer_mut_keys:
  "hm_keys (states (snd (with_peer_mut a f ps))) = hm_keys (states ps)"
proof (cases "map_of (states ps) a")
  case None
  then show ?thesis by (simp add: with_peer_mut_def)
next
  case (Some p)
  then show ?thesis
    using hm_keys_map_of [of "states ps" a] by (auto simp: with_peer_mut_Some [OF Some])
qed

end

text \<open>A change of a live peer's own record, which must not change its kind of connection.\<close>

locale live_update =
  fixes g :: "live_peer_state \<Rightarrow> 'r \<times> live_peer_state"
  assumes kind_kept: "conn_kind (snd (g l)) = conn_kind l"

sublocale live_update \<subseteq> live: peer_transition "get_live_mut_map g"
proof unfold_locales
  fix p ps k
  have same: "snd (snd (get_live_mut_map g p ps)) = ps"
    by (auto simp: get_live_mut_map_def split_beta split: peer_state.splits)
  have "class_weight k (pstate (fst (snd (get_live_mut_map g p ps)))) = class_weight k (pstate p)"
    by (auto simp: get_live_mut_map_def class_weight_def in_class_def split_beta kind_kept
        split: peer_state.splits counter_class.splits)
  with same show "states (snd (snd (get_live_mut_map g p ps))) = states ps"
    and "class_counter k (ps_stats (snd (snd (get_live_mut_map g p ps))))
        = class_counter k (ps_stats ps) - class_weight k (pstate p)
          + class_weight k (pstate (fst (snd (get_live_mut_map g p ps))))"
    and "class_counter k (session_stats (snd (snd (get_live_mut_map g p ps))))
        = class_counter k (session_stats ps) - class_weight k (pstate p)
          + class_weight k (pstate (fst (snd (get_live_mut_map g p ps))))"
    by simp_all
qed

context live_update
begin

lemma with_live_mut_inv:
  "peers_inv others ps \<Longrightarrow> peers_inv others (snd (with_live_mut a g ps))"
  using live.with_peer_mut_inv by (simp add: with_live_mut_def split_beta)

end

interpretation set_interested_upd: live_update "set_interested b" for b
  by unfold_locales (simp add: set_interested_def)

interpretation set_bitfield_upd: live_update "set_bitfield b" for b
  by unfold_locales (simp add: set_bitfield_def)

interpretation cancel_requests_upd: live_update "cancel_requests i" for i
  by unfold_locales (simp add: cancel_requests_def)

interpretation reset_backoff_tr: peer_transition reset_backoff
  by unfold_locales (auto simp: reset_backoff_def)

lemma set_state_simps [simp]:
  "fst (set_state new now p ps) = pstate p"
  "pstate (fst (snd (set_state new now p ps))) = new"
  "addr (fst (snd (set_state new now p ps))) = addr p"
  "counters (fst (snd (set_state new now p ps))) = counters p"
  "outgoing_address (fst (snd (set_state new now p ps))) = outgoing_address p"
  "states (snd (snd (set_state new now p ps))) = states ps"
  "ctrs (snd (snd (set_state new now p ps))) = ctrs ps"
  "ps_stats (snd (snd (set_state new now p ps))) = agg_incdec (pstate p) new (ps_stats ps)"
  "session_stats (snd (snd (set_state new now p ps))) = agg_incdec (pstate p) new (session_stats ps)"
  by (simp_all add: set_state_def Let_def split: option.split)

interpretation set_state_tr: peer_transition "set_state new now" for new now
  by unfold_locales simp_all

interpretation set_not_needed_tr: peer_transition "set_not_needed now" for now
  by unfold_locales (simp_all add: set_not_needed_def)

interpretation idle_to_connecting_tr: peer_transition "idle_to_connecting new_tx now" for new_tx now
  by unfold_locales (simp_all add: idle_to_connecting_def split: peer_state.split)

interpretation incoming_connection_tr: peer_transition "incoming_connection pid t kind now"
  for pid t kind now
  by unfold_locales
    (simp_all add: incoming_connection_def take_state_def split_beta split: peer_state.split)

interpretation connecting_to_live_tr: peer_transition "connecting_to_live pid kind now"
  for pid kind now
  by unfold_locales
    (simp_all add: connecting_to_live_def take_state_def split_beta split: peer_state.split)

interpretation reconnect_tr: peer_transition "reconnect_not_needed_peer now" for now
  by unfold_locales
    (simp_all add: reconnect_not_needed_peer_def split: peer_state.split option.split)

subsection \<open>Operations of the table\<close>

lemma add_if_not_seen_inv:
  assumes "peers_inv others ps"
  shows "peers_inv others (snd (add_if_not_seen a cid now ps))"
proof (cases "map_of (states ps) a")
  case None
  then show ?thesis
    using assms peers_in_class_update_fresh [OF None]
    by (simp add: add_if_not_seen_def new_with_outgoing_address_def peers_inv_def distinct_update
        class_counter_queued)
next
  case (Some p)
  with assms show ?thesis by (simp add: add_if_not_seen_def)
qed

lemma drop_peer_inv:
  assumes "peers_inv others ps"
  shows "peers_inv others (snd (drop_peer a ps))"
proof (cases "map_of (states ps) a")
  case None
  with assms show ?thesis by (simp add: drop_peer_def)
next
  case (Some p)
  then show ?thesis
    using assms peers_in_class_delete [of "states ps" a p]
    by (auto simp: drop_peer_def peers_inv_def distinct_delete)
qed

text \<open>Taking the counters of a list of peers down, as \<open>retain\<close> and \<open>Drop\<close> do.\<close>

lemma fold_dec:
  assumes "\<And>p ps. states (g p ps) = states ps \<and> ps_stats (g p ps) = agg_dec (pstate p) (ps_stats ps)
    \<and> session_stats (g p ps) = agg_dec (pstate p) (session_stats ps)"
  shows "states (fold (\<lambda>(_, p). g p) xs ps) = states ps"
    and "class_counter k (ps_stats (fold (\<lambda>(_, p). g p) xs ps))
       = class_counter k (ps_stats ps) - sum_list (map (\<lambda>(_, p). class_weight k (pstate p)) xs)"
    and "class_counter k (session_stats (fold (\<lambda>(_, p). g p) xs ps))
       = class_counter k (session_stats ps) - sum_list (map (\<lambda>(_, p). class_weight k (pstate p)) xs)"
  using assms by (induction xs arbitrary: ps) (auto simp: diff_diff_add add.commute)

lemma prune_dead_peers_inv:
  assumes "peers_inv others ps"
  shows "peers_inv others (snd (prune_dead_peers retention now ps))"
proof -
  note dec = fold_dec [of "\<lambda>p. both_counters (agg_dec (pstate p))"]
  have filt: "filter (\<lambda>x. \<not> (case x of (_, p) \<Rightarrow> \<not> prunable now retention p)) (states ps)
      = filter (\<lambda>(_, p). prunable now retention p) (states ps)"
    by (rule filter_cong) auto
  show ?thesis
    using assms
    by (simp add: prune_dead_peers_def Let_def peers_inv_def dec distinct_keys_filter peers_in_class_filter filt)
qed

lemma drop_all_inv:
  assumes "peers_inv others ps"
  shows "peers_inv others (drop_all ps)" and "states (drop_all ps) = []"
proof -
  have destroy: "states (destroy p ps) = states ps
    \<and> ps_stats (destroy p ps) = agg_dec (pstate p) (ps_stats ps)
    \<and> session_stats (destroy p ps) = agg_dec (pstate p) (session_stats ps)" for p ps
    by (simp add: destroy_def Let_def split: option.split peer_state.split)
  note dec = fold_dec [of destroy, OF destroy]
  have all: "of_nat (peers_in_class k (states ps))
      = sum_list (map (\<lambda>(_, p). class_weight k (pstate p)) (states ps))" for k
    using peers_in_class_filter [of k "\<lambda>_. False" "states ps"] by (simp add: algebra_simps)
  show "states (drop_all ps) = []" by (simp add: drop_all_def dec)
  then show "peers_inv others (drop_all ps)"
    using assms by (simp add: drop_all_def peers_inv_def dec all [symmetric])
qed

lemma peers_inv_counters_irrelevant:
  "peers_inv others (upd_counters c f ps) = peers_inv others ps"
  "peers_inv others (both_counters agg_inc_steals ps) = peers_inv others ps"
  "peers_inv others (both_counters agg_inc_seen ps) = peers_inv others ps"
  by (simp_all add: peers_inv_def)

lemma on_steal_inv:
  assumes "peers_inv others ps"
  shows "peers_inv others (fst (on_steal from_peer to_peer i ps))"
  using assms cancel_requests_upd.with_live_mut_inv
  by (simp add: on_steal_def Let_def split_beta peers_inv_counters_irrelevant split: option.split)

text \<open>The steps of the table; each is a call made by the live torrent.\<close>

inductive peers_step :: "peer_states \<Rightarrow> peer_states \<Rightarrow> bool" where
  st_add: "peers_step ps (snd (add_if_not_seen a cid now ps))"
| st_drop: "peers_step ps (snd (drop_peer a ps))"
| st_set_state: "peers_step ps (snd (with_peer_mut a (set_state new now) ps))"
| st_connecting: "peers_step ps (snd (mark_peer_connecting a t now ps))"
| st_incoming: "peers_step ps (snd (with_peer_mut a (incoming_connection pid t kind now) ps))"
| st_to_live: "peers_step ps (snd (with_peer_mut a (connecting_to_live pid kind now) ps))"
| st_not_needed: "peers_step ps (snd (mark_peer_not_needed a now ps))"
| st_reconnect: "peers_step ps (snd (with_peer_mut a (reconnect_not_needed_peer now) ps))"
| st_interested: "peers_step ps (snd (mark_peer_interested a b ps))"
| st_bitfield: "peers_step ps (snd (update_bitfield a v ps))"
| st_backoff: "peers_step ps (snd (reset_peer_backoff a ps))"
| st_steal: "peers_step ps (fst (on_steal a b i ps))"
| st_prune: "peers_step ps (snd (prune_dead_peers retention now ps))"
| st_counters: "peers_step ps (upd_counters c f ps)"
| st_drop_all: "peers_step ps (drop_all ps)"

definition peers_init :: "(counter_class \<Rightarrow> u32) \<Rightarrow> peer_states \<Rightarrow> bool" where
  "peers_init others ps \<longleftrightarrow> states ps = []
     \<and> (\<forall>k. class_counter k (ps_stats ps) = 0 \<and> class_counter k (session_stats ps) = others k)"

lemmas peers_op_inv = add_if_not_seen_inv drop_peer_inv set_state_tr.with_peer_mut_inv
  idle_to_connecting_tr.with_peer_mut_inv incoming_connection_tr.with_peer_mut_inv
  connecting_to_live_tr.with_peer_mut_inv set_not_needed_tr.with_peer_mut_inv
  reconnect_tr.with_peer_mut_inv set_interested_upd.with_live_mut_inv set_bitfield_upd.with_live_mut_inv
  reset_backoff_tr.with_peer_mut_inv on_steal_inv prune_dead_peers_inv drop_all_inv(1)

lemma mark_peer_connecting_inv:
  "peers_inv others ps \<Longrightarrow> peers_inv others (snd (mark_peer_connecting a t now ps))"
  using idle_to_connecting_tr.with_peer_mut_inv by (simp add: mark_peer_connecting_def split_beta)

interpretation peers_sys: invariant_system "peers_init others" peers_step "peers_inv others" for others
proof unfold_locales
  fix s assume "peers_init others s"
  then show "peers_inv others s" by (simp add: peers_init_def peers_inv_def)
next
  fix s t assume inv: "peers_inv others s" and "peers_step s t"
  from this(2) show "peers_inv others t"
    by cases (simp_all add: inv peers_op_inv mark_peer_connecting_inv peers_inv_counters_irrelevant
        mark_peer_not_needed_def mark_peer_interested_def update_bitfield_def reset_peer_backoff_def)
qed

subsection \<open>Properties\<close>

lemma peers_in_class_le: "peers_in_class k m \<le> length m"
  by (simp add: peers_in_class_def)


definition agg_zero :: agg_stats where
  "agg_zero = \<lparr>ag_queued = 0, ag_connecting = 0, ag_live = 0, ag_live_tcp = 0, ag_live_utp = 0,
     ag_live_socks = 0, ag_seen = 0, ag_dead = 0, ag_not_needed = 0, ag_steals = 0\<rparr>"

definition ps_empty :: peer_states where
  "ps_empty = \<lparr>session_stats = agg_zero, ps_stats = agg_zero, live_outgoing_peers = {},
     states = [], ctrs = (\<lambda>_. peer_counters_default)\<rparr>"

definition ex_addr :: "nat \<Rightarrow> socket_addr" where
  "ex_addr n = (V4 (of_nat n), 6881)"

definition ex_two_queued :: peer_states where
  "ex_two_queued = snd (add_if_not_seen (ex_addr 2) 1 0 (snd (add_if_not_seen (ex_addr 1) 0 0 ps_empty)))"

definition ex_connecting :: peer_states where
  "ex_connecting = snd (mark_peer_connecting (ex_addr 1) 7 5 ex_two_queued)"

definition ex_live :: peer_states where
  "ex_live = snd (with_peer_mut (ex_addr 1) (connecting_to_live 42 Tcp 6) ex_connecting)"

lemma ps_empty_init: "peers_init (\<lambda>_. 0) ps_empty"
  by (auto simp: peers_init_def ps_empty_def agg_zero_def class_counter_def
      split: counter_class.splits connection_kind.splits)

lemma ex_live_reach: "reach (peers_init (\<lambda>_. 0)) peers_step ex_live"
  unfolding ex_live_def ex_connecting_def ex_two_queued_def
  by (rule reach_step, rule reach_step, rule reach_step, rule reach_step,
      rule reach_init, rule ps_empty_init) (rule st_add st_connecting st_to_live)+

lemma ex_live_values:
  "length (states ex_live) = 2" "peers_in_class CQueued (states ex_live) = 1"
  "peers_in_class (CLiveKind Tcp) (states ex_live) = 1"
  by code_simp+


lemma alist_update_same: "map_of m a = Some p \<Longrightarrow> AList.update a p m = m"
  by (induction m) auto

text \<open>Stealing a piece from a live peer: exactly its outstanding requests for that piece are
  withdrawn, with one cancel message each to that peer and nothing else sent; the other requests
  stay; every other peer keeps its entry; and both steal counters go up by one.\<close>

theorem on_steal_effect:
  assumes "map_of (states ps) from_peer = Some p" and "pstate p = Live l"
  shows "let (ps', out) = on_steal from_peer to_peer i ps;
      mine = filter (\<lambda>r. piece_index r = i) (inflight_requests l);
      l' = l\<lparr>inflight_requests := filter (\<lambda>r. piece_index r \<noteq> i) (inflight_requests l)\<rparr>
    in map_of (states ps') from_peer = Some (p\<lparr>pstate := Live l'\<rparr>)
     \<and> (\<forall>b. b \<noteq> from_peer \<longrightarrow> map_of (states ps') b = map_of (states ps) b)
     \<and> out = map (\<lambda>r. (live_tx l, WrMessage (MsgCancel
          \<lparr>rq_index = i, rq_begin = ci_offset r, rq_length = ci_size r\<rparr>))) mine
     \<and> ag_steals (ps_stats ps') = ag_steals (ps_stats ps) + 1
     \<and> ag_steals (session_stats ps') = ag_steals (session_stats ps) + 1"
  using assms
  by (auto simp: on_steal_def with_live_mut_def with_peer_mut_def get_live_mut_map_def
      cancel_requests_def Let_def agg_inc_steals_def atomic_inc_def update_conv' split: option.splits)

definition ex_requests :: peer_states where
  "ex_requests = snd (with_live_mut (ex_addr 1) (\<lambda>l. ((), l\<lparr>inflight_requests :=
     [\<lparr>piece_index = 0, chunk_index = 0, absolute_index = 0, ci_offset = 0, ci_size = 10\<rparr>,
      \<lparr>piece_index = 1, chunk_index = 0, absolute_index = 2, ci_offset = 0, ci_size = 10\<rparr>]\<rparr>)) ex_live)"

theorem on_steal_effect_witness:
  "\<exists>p l. map_of (states ex_requests) (ex_addr 1) = Some p \<and> pstate p = Live l
     \<and> length (inflight_requests l) = 2
     \<and> ag_steals (ps_stats (fst (on_steal (ex_addr 1) (ex_addr 2) 0 ex_requests))) = 1"
proof -
  have "(case map_of (states ex_requests) (ex_addr 1) of None \<Rightarrow> False
     | Some p \<Rightarrow> (case pstate p of Live l \<Rightarrow> length (inflight_requests l) = 2 | _ \<Rightarrow> False))
     \<and> ag_steals (ps_stats ex_requests) = 0"
    by code_simp
  then obtain p l where p: "map_of (states ex_requests) (ex_addr 1) = Some p" "pstate p = Live l"
    and "length (inflight_requests l) = 2" "ag_steals (ps_stats ex_requests) = 0"
    by (auto split: option.splits peer_state.splits)
  with on_steal_effect [OF p, of "ex_addr 2" 0] show ?thesis
    by (auto simp: Let_def split: prod.splits)
qed

text \<open>A peer is dialled at most once at a time: \<open>mark_peer_connecting\<close> moves a known idle peer
  (queued or not needed) to the connecting state with the new channel; it fails with
  \<open>BugPeerNotFound\<close> for an unknown address and with \<open>BugInvalidPeerState\<close> for a dead, connecting or
  live peer, and then the table is unchanged; an incoming connection is refused, again with nothing
  changed, exactly while the peer is connecting or live.\<close>

theorem peer_active_exclusive:
  "(case map_of (states ps) a of
      None \<Rightarrow> mark_peer_connecting a t now ps = (Inl BugPeerNotFound, ps)
        \<and> with_peer_mut a (incoming_connection pid t kind now) ps = (None, ps)
    | Some p \<Rightarrow>
      (let (r, ps') = mark_peer_connecting a t now ps;
           (r2, ps2) = with_peer_mut a (incoming_connection pid t kind now) ps
       in (if pstate p = Queued \<or> pstate p = NotNeeded
           then r = Inr t \<and> map_option pstate (map_of (states ps') a) = Some (Connecting t)
           else r = Inl BugInvalidPeerState \<and> ps' = ps)
        \<and> (if in_class CConnecting (pstate p) \<or> in_class CLive (pstate p)
           then r2 = Some None \<and> ps2 = ps
           else r2 = Some (Some ())
             \<and> map_option pstate (map_of (states ps2) a) = Some (Live (live_new pid t True kind)))))"
proof (cases "map_of (states ps) a")
  case None
  then show ?thesis by (simp add: mark_peer_connecting_def with_peer_mut_def)
next
  case (Some p)
  note defs = mark_peer_connecting_def with_peer_mut_def idle_to_connecting_def incoming_connection_def
    take_state_def split_beta Let_def ok_or_def in_class_def alist_update_same [OF Some] update_conv'
  from Some show ?thesis by (cases "pstate p") (simp_all add: defs)
qed

end
