(* ===== verification/Storage.thy ===== *)
theory Storage
  imports Wire
begin

text \<open>
  Storage back ends: the trait \<open>TorrentStorage\<close> of \<open>src/src/storage/mod.rs\<close> as a record of its
  operations (what a \<open>&dyn TorrentStorage\<close> is) and as a locale of the laws its clients rely on, and
  the file system back end \<open>src/src/storage/filesystem/\<close>. The operating system's files are a
  parameter with the laws of the locale \<open>os_files\<close>: positioned reads and writes inside a file, and
  \<open>pwritev\<close> (called through the external crate \<open>nix\<close>) writing everything it is given.
\<close>

record 's store_ops =
  so_pread_exact :: "'s \<Rightarrow> nat \<Rightarrow> nat \<Rightarrow> nat \<Rightarrow> byte list res"
  so_pwrite_all :: "'s \<Rightarrow> nat \<Rightarrow> nat \<Rightarrow> byte list \<Rightarrow> unit res \<times> 's"
  so_pwrite_all_vectored :: "'s \<Rightarrow> nat \<Rightarrow> nat \<Rightarrow> byte list \<times> byte list \<Rightarrow> nat res \<times> 's"
  so_ensure_file_length :: "'s \<Rightarrow> nat \<Rightarrow> nat \<Rightarrow> unit res \<times> 's"
  so_take :: "'s \<Rightarrow> 's res \<times> 's"
  so_on_piece_completed :: "'s \<Rightarrow> nat \<Rightarrow> unit res \<times> 's"

text \<open>The default method of the trait: one \<open>pwrite_all\<close> per slice.\<close>

definition pwrite_all_vectored_default ::
  "('s \<Rightarrow> nat \<Rightarrow> nat \<Rightarrow> byte list \<Rightarrow> unit res \<times> 's) \<Rightarrow> 's \<Rightarrow> nat \<Rightarrow> nat \<Rightarrow> byte list \<times> byte list
   \<Rightarrow> nat res \<times> 's" where
  "pwrite_all_vectored_default pwrite_all s file_id offset bufs =
     (case pwrite_all s file_id offset (fst bufs) of
        (Inl e, s1) \<Rightarrow> (Inl e, s1)
      | (Inr _, s1) \<Rightarrow>
        (case pwrite_all s1 file_id (offset + length (fst bufs)) (snd bufs) of
           (Inl e, s2) \<Rightarrow> (Inl e, s2)
         | (Inr _, s2) \<Rightarrow> (Inr (length (fst bufs) + length (snd bufs)), s2)))"

definition on_piece_completed_default :: "'s \<Rightarrow> nat \<Rightarrow> unit res \<times> 's" where
  "on_piece_completed_default s piece = (Inr (), s)"

subsection \<open>Files of the operating system\<close>

record 'fd os_file_ops =
  os_read_exact_at :: "'fd \<Rightarrow> nat \<Rightarrow> nat \<Rightarrow> byte list res"
  os_write_all_at :: "'fd \<Rightarrow> nat \<Rightarrow> byte list \<Rightarrow> unit res \<times> 'fd"
  os_pwritev :: "'fd \<Rightarrow> byte list \<times> byte list \<Rightarrow> nat \<Rightarrow> nat res \<times> 'fd"
  os_set_len :: "'fd \<Rightarrow> nat \<Rightarrow> unit res \<times> 'fd"

definition file_pwrite_all_vectored ::
  "'fd os_file_ops \<Rightarrow> 'fd \<Rightarrow> nat \<Rightarrow> byte list \<times> byte list \<Rightarrow> nat res \<times> 'fd" where
  "file_pwrite_all_vectored os fd offset bufs =
     (if 2 ^ 63 \<le> offset then (Inl (Bail ''file write offset exceeds i64::MAX''), fd)
      else os_pwritev os fd bufs offset)"

definition file_pread_exact :: "'fd os_file_ops \<Rightarrow> 'fd \<Rightarrow> nat \<Rightarrow> nat \<Rightarrow> byte list res" where
  "file_pread_exact os fd offset n = os_read_exact_at os fd offset n"

definition file_pwrite_all :: "'fd os_file_ops \<Rightarrow> 'fd \<Rightarrow> nat \<Rightarrow> byte list \<Rightarrow> unit res \<times> 'fd" where
  "file_pwrite_all os fd offset buf = os_write_all_at os fd offset buf"

subsection \<open>The file system back end\<close>

record 'fd opened_file =
  of_path :: string
  of_fd :: "'fd option"

record 'fd fs_storage =
  output_folder :: string
  opened_files :: "'fd opened_file list"

definition opened_file_new :: "string \<Rightarrow> 'fd \<Rightarrow> 'fd opened_file" where
  "opened_file_new path f = \<lparr>of_path = path, of_fd = Some f\<rparr>"

definition opened_file_new_dummy :: "'fd opened_file" where
  "opened_file_new_dummy = \<lparr>of_path = [], of_fd = None\<rparr>"

text \<open>The file is moved out; a dummy stays behind. The pair is the new and the old file.\<close>

definition take_clone :: "'fd opened_file \<Rightarrow> 'fd opened_file \<times> 'fd opened_file" where
  "take_clone f = (f, opened_file_new_dummy)"

definition of_lock_read :: "'fd opened_file \<Rightarrow> 'fd res" where
  "of_lock_read f = ok_or FsFileIsNone (of_fd f)"

definition fs_get :: "'fd fs_storage \<Rightarrow> nat \<Rightarrow> 'fd res" where
  "fs_get s file_id = res_bind (ok_or (Bail ''no such file'') (vec_get (opened_files s) file_id)) of_lock_read"

definition fs_put :: "'fd fs_storage \<Rightarrow> nat \<Rightarrow> 'fd \<Rightarrow> 'fd fs_storage" where
  "fs_put s file_id fd =
     s\<lparr>opened_files := (opened_files s)[file_id := (opened_files s ! file_id)\<lparr>of_fd := Some fd\<rparr>]\<rparr>"

text \<open>An operation on the descriptor of one file, after \<open>get(..)?\<close> and \<open>lock_read()?\<close>.\<close>

definition fs_on_file ::
  "'fd fs_storage \<Rightarrow> nat \<Rightarrow> ('fd \<Rightarrow> 'r res \<times> 'fd) \<Rightarrow> 'r res \<times> 'fd fs_storage" where
  "fs_on_file s file_id op =
     (case fs_get s file_id of
        Inl e \<Rightarrow> (Inl e, s)
      | Inr fd \<Rightarrow> (case op fd of (r, fd') \<Rightarrow> (r, fs_put s file_id fd')))"

definition fs_pread_exact ::
  "'fd os_file_ops \<Rightarrow> 'fd fs_storage \<Rightarrow> nat \<Rightarrow> nat \<Rightarrow> nat \<Rightarrow> byte list res" where
  "fs_pread_exact os s file_id offset n =
     res_bind (fs_get s file_id) (\<lambda>fd. file_pread_exact os fd offset n)"

definition fs_pwrite_all ::
  "'fd os_file_ops \<Rightarrow> 'fd fs_storage \<Rightarrow> nat \<Rightarrow> nat \<Rightarrow> byte list \<Rightarrow> unit res \<times> 'fd fs_storage" where
  "fs_pwrite_all os s file_id offset buf =
     fs_on_file s file_id (\<lambda>fd. file_pwrite_all os fd offset buf)"

definition fs_pwrite_all_vectored ::
  "'fd os_file_ops \<Rightarrow> 'fd fs_storage \<Rightarrow> nat \<Rightarrow> nat \<Rightarrow> byte list \<times> byte list
   \<Rightarrow> nat res \<times> 'fd fs_storage" where
  "fs_pwrite_all_vectored os s file_id offset bufs =
     fs_on_file s file_id (\<lambda>fd. file_pwrite_all_vectored os fd offset bufs)"

definition fs_ensure_file_length ::
  "'fd os_file_ops \<Rightarrow> 'fd fs_storage \<Rightarrow> nat \<Rightarrow> nat \<Rightarrow> unit res \<times> 'fd fs_storage" where
  "fs_ensure_file_length os s file_id len = fs_on_file s file_id (\<lambda>fd. os_set_len os fd len)"

definition fs_take :: "'fd fs_storage \<Rightarrow> 'fd fs_storage res \<times> 'fd fs_storage" where
  "fs_take s =
     (Inr \<lparr>output_folder = output_folder s, opened_files = map (fst \<circ> take_clone) (opened_files s)\<rparr>,
      s\<lparr>opened_files := map (snd \<circ> take_clone) (opened_files s)\<rparr>)"

definition fs_ops :: "'fd os_file_ops \<Rightarrow> 'fd fs_storage store_ops" where
  "fs_ops os = \<lparr>so_pread_exact = fs_pread_exact os, so_pwrite_all = fs_pwrite_all os,
     so_pwrite_all_vectored = fs_pwrite_all_vectored os,
     so_ensure_file_length = fs_ensure_file_length os, so_take = fs_take,
     so_on_piece_completed = on_piece_completed_default\<rparr>"

text \<open>
  \<open>init\<close>: one file per entry of the torrent, in order; padding files get a dummy. \<open>os_open allow_overwrite path\<close>
  stands for creating the parent directory and opening the file (\<open>create_new\<close> first unless
  overwriting is allowed); \<open>path_join\<close> for \<open>PathBuf::push\<close>. The list has file name and padding flag.
\<close>

fun fs_init_files ::
  "(bool \<Rightarrow> string \<Rightarrow> 'fd res) \<Rightarrow> (string \<Rightarrow> string \<Rightarrow> string) \<Rightarrow> bool \<Rightarrow> string \<Rightarrow> (string \<times> bool) list
   \<Rightarrow> 'fd opened_file list res" where
  "fs_init_files os_open path_join allow_overwrite folder [] = Inr []"
| "fs_init_files os_open path_join allow_overwrite folder ((name, is_padding) # fs) =
     (if is_padding then
        res_bind (fs_init_files os_open path_join allow_overwrite folder fs)
          (\<lambda>ofs. Inr (opened_file_new_dummy # ofs))
      else
        res_bind (os_open allow_overwrite (path_join folder name)) (\<lambda>fd.
        res_bind (fs_init_files os_open path_join allow_overwrite folder fs) (\<lambda>ofs.
          Inr (opened_file_new (path_join folder name) fd # ofs))))"

definition fs_init ::
  "(bool \<Rightarrow> string \<Rightarrow> 'fd res) \<Rightarrow> (string \<Rightarrow> string \<Rightarrow> string) \<Rightarrow> bool \<Rightarrow> (string \<times> bool) list
   \<Rightarrow> 'fd fs_storage \<Rightarrow> unit res \<times> 'fd fs_storage" where
  "fs_init os_open path_join allow_overwrite files s =
     (case fs_init_files os_open path_join allow_overwrite (output_folder s) files of
        Inl e \<Rightarrow> (Inl e, s)
      | Inr ofs \<Rightarrow> (Inr (), s\<lparr>opened_files := ofs\<rparr>))"

subsection \<open>The contract of a storage\<close>

definition overwrite :: "nat \<Rightarrow> byte list \<Rightarrow> byte list \<Rightarrow> byte list" where
  "overwrite off buf c = take off c @ buf @ drop (off + length buf) c"

lemma overwrite_length [simp]:
  "off + length buf \<le> length c \<Longrightarrow> length (overwrite off buf c) = length c"
  by (simp add: overwrite_def)

lemma overwrite_nth:
  "off + length buf \<le> length c \<Longrightarrow> i < length c \<Longrightarrow>
   overwrite off buf c ! i = (if off \<le> i \<and> i < off + length buf then buf ! (i - off) else c ! i)"
  by (auto simp: overwrite_def nth_append)

lemma overwrite_Nil [simp]: "overwrite off [] c = c" by (simp add: overwrite_def)

text \<open>
  \<open>view s f\<close> is the content of file \<open>f\<close>, \<open>None\<close> when the file is not open. A vectored write may be short: it writes some first bytes of the
  two buffers, and their number is what it returns when it does not fail. That is what POSIX says of \<open>pwritev\<close>.
\<close>

locale torrent_storage =
  fixes ops :: "'s store_ops" and view :: "'s \<Rightarrow> nat \<Rightarrow> byte list option"
  assumes pread_ok: "view s f = Some c \<Longrightarrow> off + n \<le> length c \<Longrightarrow>
      so_pread_exact ops s f off n = Inr (take n (drop off c))"
    and pwrite_ok: "view s f = Some c \<Longrightarrow> off + length a + length b \<le> length c \<Longrightarrow> length c < 2 ^ 63 \<Longrightarrow>
      so_pwrite_all_vectored ops s f off (a, b) = (r, s') \<Longrightarrow>
      \<exists>n \<le> length a + length b. view s' = (view s)(f \<mapsto> overwrite off (take n (a @ b)) c) \<and> (\<forall>m. r = Inr m \<longrightarrow> m = n)"

locale os_files =
  fixes os :: "'fd os_file_ops" and content :: "'fd \<Rightarrow> byte list"
  assumes os_read: "n = 0 \<or> off + n \<le> length (content fd) \<Longrightarrow>
      os_read_exact_at os fd off n = Inr (take n (drop off (content fd)))"
    and os_read_full: "os_read_exact_at os fd off n = Inr d \<Longrightarrow> n = 0 \<or> off + n \<le> length (content fd)"
    and os_pwritev: "off + length a + length b \<le> length (content fd) \<Longrightarrow>
      os_pwritev os fd (a, b) off = (r, fd') \<Longrightarrow>
      \<exists>n \<le> length a + length b. content fd' = overwrite off (take n (a @ b)) (content fd) \<and> (\<forall>m. r = Inr m \<longrightarrow> m = n)"

text \<open>Every write that does not fail writes everything; no write fails.\<close>

definition full_writes :: "'s store_ops \<Rightarrow> bool" where
  "full_writes ops \<longleftrightarrow> (\<forall>s f off a b n s'. so_pwrite_all_vectored ops s f off (a, b) = (Inr n, s') \<longrightarrow> n = length a + length b)"

definition os_full_writes :: "'fd os_file_ops \<Rightarrow> bool" where
  "os_full_writes os \<longleftrightarrow> (\<forall>fd a b off n fd'. os_pwritev os fd (a, b) off = (Inr n, fd') \<longrightarrow> n = length a + length b)"

definition os_writes_fail :: "'fd os_file_ops \<Rightarrow> bool" where
  "os_writes_fail os \<longleftrightarrow> (\<exists>fd bufs off e fd'. os_pwritev os fd bufs off = (Inl e, fd'))"

lemma os_full_writesD: "os_full_writes os \<Longrightarrow> full_writes (fs_ops os)"
  unfolding full_writes_def
proof (intro allI impI)
  fix s f off a b n s'
  assume full: "os_full_writes os" and "so_pwrite_all_vectored (fs_ops os) s f off (a, b) = (Inr n, s')"
  then obtain fd fd' where "os_pwritev os fd (a, b) off = (Inr n, fd')"
    by (auto simp: fs_ops_def fs_pwrite_all_vectored_def fs_on_file_def file_pwrite_all_vectored_def
        split: sum.splits prod.splits if_splits)
  then show "n = length a + length b" using full unfolding os_full_writes_def by blast
qed

definition fs_view :: "('fd \<Rightarrow> byte list) \<Rightarrow> 'fd fs_storage \<Rightarrow> nat \<Rightarrow> byte list option" where
  "fs_view content s f =
     (if f < length (opened_files s) then map_option content (of_fd (opened_files s ! f)) else None)"

lemma fs_view_Some:
  "fs_view content s f = Some c \<Longrightarrow> \<exists>fd. fs_get s f = Inr fd \<and> content fd = c \<and> f < length (opened_files s)"
  by (auto simp: fs_view_def fs_get_def of_lock_read_def vec_get_def split: if_splits)

lemma fs_write_error:
  assumes "so_pwrite_all_vectored (fs_ops os) s f off bufs = (Inl e, s1)" and "fs_view content s f \<noteq> None" and "off < 2 ^ 63"
  shows "os_writes_fail os"
proof -
  obtain fd fd' where "os_pwritev os fd bufs off = (Inl e, fd')"
    using assms by (auto simp: fs_ops_def fs_pwrite_all_vectored_def fs_on_file_def file_pwrite_all_vectored_def
        dest!: fs_view_Some split: prod.splits)
  then show ?thesis unfolding os_writes_fail_def by blast
qed

lemma fs_view_put:
  "f < length (opened_files s) \<Longrightarrow>
   fs_view content (fs_put s f fd) = (fs_view content s)(f \<mapsto> content fd)"
  by (auto simp: fs_view_def fs_put_def fun_eq_iff nth_list_update)

sublocale os_files \<subseteq> fs: torrent_storage "fs_ops os" "fs_view content"
proof
  fix s f c off n
  assume "fs_view content s f = Some c" and n: "off + n \<le> length c"
  then obtain fd where "fs_get s f = Inr fd" "content fd = c" using fs_view_Some by blast
  with n os_read show "so_pread_exact (fs_ops os) s f off n = Inr (take n (drop off c))"
    by (simp add: fs_ops_def fs_pread_exact_def file_pread_exact_def)
next
  fix s f c off r s' and a b :: "byte list"
  assume v: "fs_view content s f = Some c" and len: "off + length a + length b \<le> length c" "length c < 2 ^ 63"
    and w: "so_pwrite_all_vectored (fs_ops os) s f off (a, b) = (r, s')"
  obtain fd where fd: "fs_get s f = Inr fd" "content fd = c" "f < length (opened_files s)"
    using fs_view_Some [OF v] by blast
  obtain r' fd' where fd': "os_pwritev os fd (a, b) off = (r', fd')" by (cases "os_pwritev os fd (a, b) off")
  have w': "r = r'" "s' = fs_put s f fd'"
    using w fd fd' len
    by (auto simp: fs_ops_def fs_pwrite_all_vectored_def fs_on_file_def file_pwrite_all_vectored_def)
  show "\<exists>n \<le> length a + length b. fs_view content s' = (fs_view content s)(f \<mapsto> overwrite off (take n (a @ b)) c)
       \<and> (\<forall>m. r = Inr m \<longrightarrow> m = n)"
    using os_pwritev [OF _ fd'] len fd by (auto simp: w' fs_view_put)
qed

context os_files
begin

lemma fs_torrent_storage: "torrent_storage (fs_ops os) (fs_view content)"
  by unfold_locales

end

lemmas fs_storage = os_files.fs_torrent_storage

text \<open>
  A concrete operating system, for evaluation: a descriptor is the content of its file.
\<close>

definition mem_os :: "byte list os_file_ops" where
  "mem_os = \<lparr>os_read_exact_at = (\<lambda>c off n.
       if n = 0 \<or> off + n \<le> length c then Inr (take n (drop off c)) else Inl (Bail ''failed to fill whole buffer'')),
     os_write_all_at = (\<lambda>c off buf. (Inr (), overwrite off buf c)),
     os_pwritev = (\<lambda>c bufs off. (Inr (length (fst bufs) + length (snd bufs)),
        overwrite off (fst bufs @ snd bufs) c)),
     os_set_len = (\<lambda>c n. (Inr (), take n c @ replicate (n - length c) 0))\<rparr>"

interpretation mem_os: os_files mem_os "\<lambda>c. c"
  by unfold_locales (auto simp: mem_os_def split: if_splits)

lemma mem_os_writes: "os_full_writes mem_os" "\<not> os_writes_fail mem_os"
  by (auto simp: os_full_writes_def os_writes_fail_def mem_os_def)

text \<open>An operating system whose vectored writes stop after the first byte.\<close>

definition short_os :: "byte list os_file_ops" where
  "short_os = mem_os\<lparr>os_pwritev := (\<lambda>c bufs off. (Inr (min 1 (length (fst bufs @ snd bufs))), overwrite off (take 1 (fst bufs @ snd bufs)) c))\<rparr>"

lemma short_os_files: "os_files short_os (\<lambda>c. c)"
proof
  fix off and a b fd fd' :: "byte list" and r
  assume "os_pwritev short_os fd (a, b) off = (r, fd')"
  moreover have "take (min 1 (length (a @ b))) (a @ b) = take 1 (a @ b)" by (cases "a @ b") auto
  ultimately show "\<exists>n \<le> length a + length b. fd' = overwrite off (take n (a @ b)) fd \<and> (\<forall>m. r = Inr m \<longrightarrow> m = n)"
    by (intro exI [of _ "min 1 (length (a @ b))"]) (auto simp: short_os_def simp del: take_append One_nat_def)
qed (auto simp: short_os_def mem_os_def split: if_splits)

end
