(* ===== verification/File_Ops.thy ===== *)
theory File_Ops
  imports Storage File_Info
begin

text \<open>
  \<open>src/src/file_ops.rs\<close>: reading, writing and hashing pieces and chunks that lie across the files of
  the torrent. The SHA-1 implementation (external crate \<open>sha1w\<close>) is the parameter \<open>sha1\<close> on the bytes
  fed to it so far, \<open>compare_hash\<close> of the external torrent metadata is a parameter, and so is the split
  of a received block into two slices (\<open>DoubleBufHelper::as_ioslices\<close>). Offsets are \<open>u64\<close> values of a
  torrent whose length fits, so the additions do not wrap.
\<close>

type_synonym digest = "byte list"

text \<open>The loop of \<open>update_hash_from_file\<close>; with an empty buffer it would not end.\<close>

function update_hash_from_file ::
  "'s store_ops \<Rightarrow> 's \<Rightarrow> nat \<Rightarrow> file_info \<Rightarrow> nat \<Rightarrow> nat \<Rightarrow> nat \<Rightarrow> byte list \<Rightarrow> byte list res" where
  "update_hash_from_file ops s file_id fi pos buf_len bytes_to_read h =
     (if bytes_to_read = 0 then Inr h
      else let chunk = min buf_len bytes_to_read in
        if chunk = 0 then Inl Diverges
        else res_bind (if padding fi then Inr (replicate chunk 0)
                       else so_pread_exact ops s file_id pos chunk) (\<lambda>buf.
          update_hash_from_file ops s file_id fi (pos + chunk) buf_len (bytes_to_read - chunk) (h @ buf)))"
  by pat_completeness auto
termination by (relation "measure (\<lambda>(_, _, _, _, _, _, n, _). n)") auto

declare update_hash_from_file.simps [simp del]

fun check_piece_loop ::
  "'s store_ops \<Rightarrow> 's \<Rightarrow> nat \<Rightarrow> (nat \<times> file_info) list \<Rightarrow> nat \<Rightarrow> nat \<Rightarrow> byte list \<Rightarrow> byte list res" where
  "check_piece_loop ops s buf_len [] absolute_offset remaining h = Inr h"
| "check_piece_loop ops s buf_len ((file_idx, fi) # fs) absolute_offset remaining h =
     (if fi_len fi < absolute_offset
      then check_piece_loop ops s buf_len fs (absolute_offset - fi_len fi) remaining h
      else let to_read_in_file = min (fi_len fi - absolute_offset) remaining in
        res_bind (update_hash_from_file ops s file_idx fi absolute_offset buf_len to_read_in_file h)
          (\<lambda>h'. if remaining - to_read_in_file = 0 then Inr h'
                else check_piece_loop ops s buf_len fs 0 (remaining - to_read_in_file) h'))"

definition check_piece ::
  "lengths \<Rightarrow> (byte list \<Rightarrow> digest) \<Rightarrow> (nat \<Rightarrow> digest \<Rightarrow> bool option) \<Rightarrow> 's store_ops \<Rightarrow> file_infos
   \<Rightarrow> 's \<Rightarrow> nat \<Rightarrow> bool res" where
  "check_piece L sha1 compare_hash ops files s piece =
     (let len = piece_length L piece in
      res_bind (check_piece_loop ops s (min 65536 len) (enum files) (piece_offset L piece) len [])
        (\<lambda>h. case compare_hash piece (sha1 h) of
               Some b \<Rightarrow> Inr b
             | None \<Rightarrow> Inl (Bail ''compare_hash() did not find the piece'')))"

fun read_chunk_loop ::
  "'s store_ops \<Rightarrow> 's \<Rightarrow> (nat \<times> file_info) list \<Rightarrow> nat \<Rightarrow> nat \<Rightarrow> byte list res" where
  "read_chunk_loop ops s [] absolute_offset n = Inr []"
| "read_chunk_loop ops s ((file_idx, fi) # fs) absolute_offset n =
     (if fi_len fi < absolute_offset then read_chunk_loop ops s fs (absolute_offset - fi_len fi) n
      else let to_read_in_file = min (fi_len fi - absolute_offset) n in
        res_bind (if padding fi then Inr (replicate to_read_in_file 0)
                  else so_pread_exact ops s file_idx absolute_offset to_read_in_file) (\<lambda>b.
          if n - to_read_in_file = 0 then Inr b
          else res_bind (read_chunk_loop ops s fs 0 (n - to_read_in_file)) (\<lambda>rest. Inr (b @ rest))))"

text \<open>The result is the buffer after the call: what was not read keeps its old bytes.\<close>

definition read_chunk ::
  "lengths \<Rightarrow> 's store_ops \<Rightarrow> file_infos \<Rightarrow> 's \<Rightarrow> chunk_info \<Rightarrow> byte list \<Rightarrow> byte list res" where
  "read_chunk L ops files s chunk result_buf =
     (if length result_buf < ci_size chunk
      then Inl (Bail ''read_chunk(): not enough capacity in the provided buffer'')
      else res_bind (read_chunk_loop ops s (enum files) (chunk_absolute_offset L chunk) (length result_buf))
        (\<lambda>b. Inr (b @ drop (length b) result_buf)))"

fun write_chunk_loop ::
  "'s store_ops \<Rightarrow> (byte list \<Rightarrow> byte list \<times> byte list) \<Rightarrow> (nat \<times> file_info) list \<Rightarrow> nat \<Rightarrow> byte list
   \<Rightarrow> 's \<Rightarrow> unit res \<times> 's" where
  "write_chunk_loop ops as_ioslices [] absolute_offset data s = (Inr (), s)"
| "write_chunk_loop ops as_ioslices ((file_idx, fi) # fs) absolute_offset data s =
     (if fi_len fi < absolute_offset
      then write_chunk_loop ops as_ioslices fs (absolute_offset - fi_len fi) data s
      else let to_write = min (length data) (fi_len fi - absolute_offset);
               (r, s1) = (if padding fi then (Inr to_write, s)
                  else so_pwrite_all_vectored ops s file_idx absolute_offset (as_ioslices (take to_write data)))
        in case r of Inl e \<Rightarrow> (Inl e, s1)
           | Inr _ \<Rightarrow> if drop to_write data = [] then (Inr (), s1)
                     else write_chunk_loop ops as_ioslices fs 0 (drop to_write data) s1)"

definition write_chunk ::
  "lengths \<Rightarrow> 's store_ops \<Rightarrow> (byte list \<Rightarrow> byte list \<times> byte list) \<Rightarrow> file_infos \<Rightarrow> byte list \<Rightarrow> chunk_info
   \<Rightarrow> 's \<Rightarrow> unit res \<times> 's" where
  "write_chunk L ops as_ioslices files data chunk s =
     write_chunk_loop ops as_ioslices (enum files) (chunk_absolute_offset L chunk) data s"

subsection \<open>The initial check\<close>

record current_file =
  cf_index :: nat
  cf_fi :: file_info
  processed_bytes :: nat
  is_broken :: bool

definition cf_new :: "nat \<times> file_info \<Rightarrow> current_file" where
  "cf_new x = \<lparr>cf_index = fst x, cf_fi = snd x, processed_bytes = 0, is_broken = False\<rparr>"

definition cf_remaining :: "current_file \<Rightarrow> nat" where
  "cf_remaining c = fi_len (cf_fi c) - processed_bytes c"

definition mark_processed_bytes :: "nat \<Rightarrow> current_file \<Rightarrow> current_file" where
  "mark_processed_bytes n c = c\<lparr>processed_bytes := processed_bytes c + n\<rparr>"

text \<open>The inner loop that moves on to the next file with bytes left.\<close>

fun next_nonempty ::
  "current_file \<Rightarrow> (nat \<times> file_info) list \<Rightarrow> nat \<Rightarrow> (nat \<times> current_file \<times> (nat \<times> file_info) list) res" where
  "next_nonempty cur rest piece_remaining =
     (let to_read_in_file = min (cf_remaining cur) piece_remaining in
      if to_read_in_file \<noteq> 0 then Inr (to_read_in_file, cur, rest)
      else case rest of
        [] \<Rightarrow> Inl (Bail ''broken torrent metadata'')
      | x # rest' \<Rightarrow> next_nonempty (cf_new x) rest' piece_remaining)"

declare next_nonempty.simps [simp del]

lemma next_nonempty_bounds:
  "next_nonempty cur rest rem = Inr (n, cur', rest') \<Longrightarrow> 0 < n \<and> n \<le> rem"
proof (induction cur rest rem rule: next_nonempty.induct)
  case (1 cur rest rem)
  then show ?case
    by (subst (asm) next_nonempty.simps) (auto simp: Let_def split: if_splits list.splits)
qed

function (sequential) initial_check_piece ::
  "'s store_ops \<Rightarrow> 's \<Rightarrow> current_file \<Rightarrow> (nat \<times> file_info) list \<Rightarrow> nat \<Rightarrow> byte list \<Rightarrow> bool
   \<Rightarrow> (current_file \<times> (nat \<times> file_info) list \<times> byte list \<times> bool) res" where
  "initial_check_piece ops s cur rest piece_remaining h some_files_broken =
     (if piece_remaining = 0 then Inr (cur, rest, h, some_files_broken)
      else case next_nonempty cur rest piece_remaining of
        Inl e \<Rightarrow> Inl e
      | Inr (to_read, cur1, rest1) \<Rightarrow>
        let pos = processed_bytes cur1; cur2 = mark_processed_bytes to_read cur1 in
        if is_broken cur2
        then initial_check_piece ops s cur2 rest1 (piece_remaining - to_read) h some_files_broken
        else case update_hash_from_file ops s (cf_index cur2) (cf_fi cur2) pos 65536 to_read h of
          Inl _ \<Rightarrow> initial_check_piece ops s (cur2\<lparr>is_broken := True\<rparr>) rest1
                     (piece_remaining - to_read) h True
        | Inr h' \<Rightarrow> initial_check_piece ops s cur2 rest1 (piece_remaining - to_read) h' some_files_broken)"
  by pat_completeness auto
termination
  by (relation "measure (\<lambda>(_, _, _, _, n, _, _). n)") (auto dest: next_nonempty_bounds)

declare initial_check_piece.simps [simp del]

fun initial_check_loop ::
  "'s store_ops \<Rightarrow> 's \<Rightarrow> (byte list \<Rightarrow> digest) \<Rightarrow> (nat \<Rightarrow> digest \<Rightarrow> bool option) \<Rightarrow> (nat \<Rightarrow> bool)
   \<Rightarrow> (nat \<times> nat) list \<Rightarrow> current_file \<Rightarrow> (nat \<times> file_info) list \<Rightarrow> bf \<Rightarrow> u64 \<Rightarrow> bf res \<times> u64" where
  "initial_check_loop ops s sha1 compare_hash is_cancelled [] cur rest have_pieces progress =
     (Inr have_pieces, progress)"
| "initial_check_loop ops s sha1 compare_hash is_cancelled ((piece, len) # ps) cur rest have_pieces progress =
     (if is_cancelled piece then (Inl (Bail ''initial check cancelled''), progress)
      else let progress1 = progress + of_nat len in
        case initial_check_piece ops s cur rest len [] False of
          Inl e \<Rightarrow> (Inl e, progress1)
        | Inr (cur1, rest1, h, some_files_broken) \<Rightarrow>
          if some_files_broken
          then initial_check_loop ops s sha1 compare_hash is_cancelled ps cur1 rest1 have_pieces progress1
          else case compare_hash piece (sha1 h) of
            None \<Rightarrow> (Inl (Bail ''bug: either torrent info broken or we have a bug - piece index invalid''), progress1)
          | Some ok \<Rightarrow>
            (case (if ok then bf_set have_pieces piece True else Inr have_pieces) of
               Inl e \<Rightarrow> (Inl e, progress1)
             | Inr have_pieces1 \<Rightarrow>
               initial_check_loop ops s sha1 compare_hash is_cancelled ps cur1 rest1 have_pieces1 progress1))"

definition initial_check ::
  "lengths \<Rightarrow> (byte list \<Rightarrow> digest) \<Rightarrow> (nat \<Rightarrow> digest \<Rightarrow> bool option) \<Rightarrow> 's store_ops \<Rightarrow> file_infos \<Rightarrow> 's
   \<Rightarrow> (nat \<Rightarrow> bool) \<Rightarrow> u64 \<Rightarrow> bf res \<times> u64" where
  "initial_check L sha1 compare_hash ops files s is_cancelled progress =
     (case enum files of
        [] \<Rightarrow> (Inl (Bail ''empty input file list''), progress)
      | x # rest \<Rightarrow> initial_check_loop ops s sha1 compare_hash is_cancelled (iter_piece_infos L)
          (cf_new x) rest (bf_zero (piece_bitfield_bytes L)) progress)"

subsection \<open>The torrent as one sequence of bytes\<close>

text \<open>
  The specification: byte \<open>p\<close> of the concatenated files; padding files read as zero.
\<close>

definition file_byte :: "(nat \<Rightarrow> byte list option) \<Rightarrow> nat \<Rightarrow> file_info \<Rightarrow> nat \<Rightarrow> byte" where
  "file_byte v i fi p = (if padding fi then 0 else the (v i) ! p)"

fun torrent_byte :: "(nat \<Rightarrow> byte list option) \<Rightarrow> (nat \<times> file_info) list \<Rightarrow> nat \<Rightarrow> byte" where
  "torrent_byte v [] p = 0"
| "torrent_byte v ((i, fi) # fs) p =
     (if p < fi_len fi then file_byte v i fi p else torrent_byte v fs (p - fi_len fi))"

definition torrent_slice ::
  "(nat \<Rightarrow> byte list option) \<Rightarrow> (nat \<times> file_info) list \<Rightarrow> nat \<Rightarrow> nat \<Rightarrow> byte list" where
  "torrent_slice v fs off n = map (torrent_byte v fs) [off..<off + n]"

definition files_len :: "(nat \<times> file_info) list \<Rightarrow> nat" where
  "files_len fs = sum_list (map (fi_len \<circ> snd) fs)"

text \<open>Every file that is not padding is open and has its full length.\<close>

definition layout_ok :: "(nat \<Rightarrow> byte list option) \<Rightarrow> (nat \<times> file_info) list \<Rightarrow> bool" where
  "layout_ok v fs \<longleftrightarrow> distinct (map fst fs)
     \<and> (\<forall>(i, fi) \<in> set fs. \<not> padding fi \<longrightarrow>
          (\<exists>c. v i = Some c \<and> length c = fi_len fi \<and> fi_len fi < 2 ^ 63))"

lemma layout_ok_Cons [simp]:
  "layout_ok v ((i, fi) # fs) \<longleftrightarrow> i \<notin> fst ` set fs \<and> layout_ok v fs
     \<and> (\<not> padding fi \<longrightarrow> (\<exists>c. v i = Some c \<and> length c = fi_len fi \<and> fi_len fi < 2 ^ 63))"
  by (auto simp: layout_ok_def)

lemma files_len_simps [simp]:
  "files_len [] = 0" "files_len ((i, fi) # fs) = fi_len fi + files_len fs"
  by (simp_all add: files_len_def)

lemma torrent_slice_simps [simp]:
  "torrent_slice v fs off 0 = []" "length (torrent_slice v fs off n) = n"
  by (simp_all add: torrent_slice_def)

lemma torrent_slice_nth [simp]: "i < n \<Longrightarrow> torrent_slice v fs off n ! i = torrent_byte v fs (off + i)"
  by (simp add: torrent_slice_def)

lemma torrent_slice_skip:
  "fi_len fi \<le> off \<Longrightarrow> torrent_slice v ((i, fi) # fs) off n = torrent_slice v fs (off - fi_len fi) n"
  by (rule nth_equalityI) auto

lemma torrent_slice_split:
  assumes "off \<le> fi_len fi" and "k = min (fi_len fi - off) n"
  shows "torrent_slice v ((i, fi) # fs) off n
     = map (file_byte v i fi) [off..<off + k] @ torrent_slice v fs 0 (n - k)"
proof (rule nth_equalityI)
  fix j
  assume "j < length (torrent_slice v ((i, fi) # fs) off n)"
  then show "torrent_slice v ((i, fi) # fs) off n ! j
     = (map (file_byte v i fi) [off..<off + k] @ torrent_slice v fs 0 (n - k)) ! j"
    using assms by (cases "j < k") (auto simp: nth_append add.commute)
qed (use assms in auto)

lemma torrent_slice_append:
  "torrent_slice v fs off (a + b) = torrent_slice v fs off a @ torrent_slice v fs (off + a) b"
  by (rule nth_equalityI) (auto simp: nth_append)

lemma slice_conv_map: "off + n \<le> length c \<Longrightarrow> take n (drop off c) = map ((!) c) [off..<off + n]"
  by (rule nth_equalityI) auto

lemma replicate_conv_map:
  "padding fi \<Longrightarrow> replicate n 0 = map (file_byte v i fi) [off..<off + n]"
  by (rule nth_equalityI) (auto simp: file_byte_def)

context torrent_storage
begin

lemma read_file:
  assumes "layout_ok (view s) ((i, fi) # fs)" and "off + n \<le> fi_len fi"
  shows "(if padding fi then Inr (replicate n 0) else so_pread_exact ops s i off n)
     = Inr (map (file_byte (view s) i fi) [off..<off + n])"
proof (cases "padding fi")
  case True
  then show ?thesis by (simp add: replicate_conv_map [OF True])
next
  case False
  then obtain c where "view s i = Some c" "length c = fi_len fi" using assms(1) by auto
  then show ?thesis
    using assms(2) False pread_ok [of s i c off n] by (simp add: slice_conv_map file_byte_def)
qed

lemma update_hash_spec:
  assumes "layout_ok (view s) ((i, fi) # fs)" and "0 < buf_len" and "pos + n \<le> fi_len fi"
  shows "update_hash_from_file ops s i fi pos buf_len n h
     = Inr (h @ map (file_byte (view s) i fi) [pos..<pos + n])"
  using assms(3)
proof (induction n arbitrary: pos h rule: less_induct)
  case (less n)
  show ?case
  proof (cases "n = 0")
    case True
    then show ?thesis by (simp add: update_hash_from_file.simps)
  next
    case False
    define chunk where "chunk = min buf_len n"
    have chunk: "0 < chunk" "chunk \<le> n" using assms(2) False by (auto simp: chunk_def)
    have "[pos..<pos + n] = [pos..<pos + chunk] @ [pos + chunk..<pos + n]"
      using chunk upt_add_eq_append [of pos "pos + chunk" "n - chunk"] by simp
    moreover have "update_hash_from_file ops s i fi (pos + chunk) buf_len (n - chunk)
          (h @ map (file_byte (view s) i fi) [pos..<pos + chunk])
        = Inr ((h @ map (file_byte (view s) i fi) [pos..<pos + chunk])
            @ map (file_byte (view s) i fi) [pos + chunk..<pos + chunk + (n - chunk)])"
      using less chunk by simp
    moreover have "pos + chunk \<le> fi_len fi" using less.prems chunk by simp
    ultimately show ?thesis
      using False chunk read_file [OF assms(1), of pos chunk]
      by (subst update_hash_from_file.simps) (simp add: Let_def chunk_def [symmetric])
  qed
qed

lemma read_chunk_loop_spec:
  assumes "layout_ok (view s) fs" and "off + n \<le> files_len fs"
  shows "read_chunk_loop ops s fs off n = Inr (torrent_slice (view s) fs off n)"
  using assms
proof (induction fs arbitrary: off n)
  case Nil
  then show ?case by simp
next
  case (Cons x fs)
  obtain i fi where x: "x = (i, fi)" by (cases x)
  show ?case
  proof (cases "fi_len fi < off")
    case True
    then show ?thesis using Cons x by (simp add: torrent_slice_skip)
  next
    case False
    define k where "k = min (fi_len fi - off) n"
    have rd: "(if padding fi then Inr (replicate k 0) else so_pread_exact ops s i off k)
       = Inr (map (file_byte (view s) i fi) [off..<off + k])"
      using Cons.prems(1) False by (intro read_file [of s i fi fs]) (auto simp: x k_def)
    have rest: "read_chunk_loop ops s fs 0 (n - k) = Inr (torrent_slice (view s) fs 0 (n - k))"
      using Cons.prems False by (intro Cons.IH) (auto simp: x k_def)
    show ?thesis
      using False rd rest torrent_slice_split [of off fi k n "view s" i fs]
      by (simp add: x k_def [symmetric] Let_def)
  qed
qed

text \<open>A buffer that reaches beyond the end of the torrent is filled up to that end.\<close>

lemma read_chunk_loop_upto_end:
  assumes "layout_ok (view s) fs" and "off \<le> files_len fs"
  shows "read_chunk_loop ops s fs off n = Inr (torrent_slice (view s) fs off (min n (files_len fs - off)))"
  using assms
proof (induction fs arbitrary: off n)
  case Nil
  then show ?case by (simp add: torrent_slice_def files_len_def)
next
  case (Cons x fs)
  obtain i fi where x: "x = (i, fi)" by (cases x)
  show ?case
  proof (cases "fi_len fi < off")
    case True
    then show ?thesis using Cons x by (simp add: torrent_slice_skip add.commute)
  next
    case False
    define k where "k = min (fi_len fi - off) n"
    let ?m = "min n (files_len (x # fs) - off)"
    have rd: "(if padding fi then Inr (replicate k 0) else so_pread_exact ops s i off k)
       = Inr (map (file_byte (view s) i fi) [off..<off + k])"
      using Cons.prems(1) False by (intro read_file [of s i fi fs]) (auto simp: x k_def)
    have rest: "read_chunk_loop ops s fs 0 (n - k) = Inr (torrent_slice (view s) fs 0 (min (n - k) (files_len fs)))"
      using Cons.IH [of 0 "n - k"] Cons.prems(1) by (simp add: x)
    have m: "?m - k = min (n - k) (files_len fs)" "k = min (fi_len fi - off) ?m"
      using False by (auto simp: x k_def min_def)
    have "torrent_slice (view s) (x # fs) off ?m
        = map (file_byte (view s) i fi) [off..<off + k] @ torrent_slice (view s) fs 0 (?m - k)"
      unfolding x by (rule torrent_slice_split) (use False m(2) x in simp_all)
    also have "\<dots> = map (file_byte (view s) i fi) [off..<off + k] @ torrent_slice (view s) fs 0 (min (n - k) (files_len fs))"
      unfolding m(1) ..
    finally show ?thesis
      using False rd rest by (auto simp: x k_def [symmetric] Let_def)
  qed
qed

lemma check_piece_loop_spec:
  assumes "layout_ok (view s) fs" and "0 < buf_len" and "off + n \<le> files_len fs"
  shows "check_piece_loop ops s buf_len fs off n h = Inr (h @ torrent_slice (view s) fs off n)"
  using assms
proof (induction fs arbitrary: off n h)
  case Nil
  then show ?case by simp
next
  case (Cons x fs)
  obtain i fi where x: "x = (i, fi)" by (cases x)
  show ?case
  proof (cases "fi_len fi < off")
    case True
    then show ?thesis using Cons x by (simp add: torrent_slice_skip)
  next
    case False
    define k where "k = min (fi_len fi - off) n"
    have upd: "update_hash_from_file ops s i fi off buf_len k h
       = Inr (h @ map (file_byte (view s) i fi) [off..<off + k])"
      using Cons.prems False by (intro update_hash_spec [of s i fi fs]) (auto simp: x k_def)
    have rest: "check_piece_loop ops s buf_len fs 0 (n - k) h' = Inr (h' @ torrent_slice (view s) fs 0 (n - k))"
      for h' using Cons.prems False by (intro Cons.IH) (auto simp: x k_def)
    show ?thesis
      using False upd rest torrent_slice_split [of off fi k n "view s" i fs]
      by (simp add: x k_def [symmetric] Let_def)
  qed
qed

lemma write_file:
  assumes "layout_ok (view s) ((i, fi) # fs)" and "off + length d \<le> fi_len fi"
    and "fst (sp d) @ snd (sp d) = d"
    and w: "(if padding fi then (Inr (length d), s) else so_pwrite_all_vectored ops s i off (sp d)) = (r, s1)"
  shows "layout_ok (view s1) ((i, fi) # fs) \<and> (\<forall>j. j \<noteq> i \<longrightarrow> view s1 j = view s j)
    \<and> (\<exists>lost. (\<forall>p. p < fi_len fi \<longrightarrow> file_byte (view s1) i fi p =
       (if off \<le> p \<and> p < off + length d \<and> \<not> padding fi \<and> \<not> lost p then d ! (p - off) else file_byte (view s) i fi p))
      \<and> (full_writes ops \<longrightarrow> (\<exists>n. r = Inr n) \<longrightarrow> lost = (\<lambda>_. False)))"
proof (cases "padding fi")
  case True
  then show ?thesis using assms by (auto simp: file_byte_def)
next
  case False
  then obtain c where c: "view s i = Some c" "length c = fi_len fi" "length c < 2 ^ 63"
    using assms(1) by auto
  obtain a b where ab: "sp d = (a, b)" "a @ b = d" using assms(3) by (cases "sp d") auto
  then have len: "length a + length b = length d" by (metis length_append)
  have w': "so_pwrite_all_vectored ops s i off (a, b) = (r, s1)" using w False ab by simp
  obtain n where n: "n \<le> length d" "view s1 = (view s)(i \<mapsto> overwrite off (take n d) c)" "\<And>m. r = Inr m \<Longrightarrow> m = n"
    using pwrite_ok [OF c(1), of off a b r s1] w' c assms(2) len ab(2) by (auto simp: add.assoc)
  have olen: "off + length (take n d) \<le> length c" using assms(2) c(2) n(1) by simp
  have "layout_ok (view s1) ((i, fi) # fs)"
    using assms(1) c n(2) olen by (force simp: layout_ok_def)
  moreover have "file_byte (view s1) i fi p = (if off \<le> p \<and> p < off + length d \<and> \<not> padding fi \<and> \<not> off + n \<le> p then d ! (p - off)
        else file_byte (view s) i fi p)" if "p < fi_len fi" for p
    using that n(1,2) c overwrite_nth [OF olen, of p] False by (auto simp: file_byte_def)
  moreover have "n = length d" if "full_writes ops" "r = Inr m" for m
    using that n(3) w' len unfolding full_writes_def by metis
  ultimately show ?thesis
    using n(2) by (intro conjI exI [of _ "\<lambda>p. off + n \<le> p \<and> n < length d"]) auto
qed

end

text \<open>
  Files that are open but not complete: a position can be read when it is in a padding file or below the present end of its file.
\<close>

definition files_open :: "(nat \<Rightarrow> byte list option) \<Rightarrow> (nat \<times> file_info) list \<Rightarrow> bool" where
  "files_open v fs \<longleftrightarrow> (\<forall>(i, fi) \<in> set fs. \<not> padding fi \<longrightarrow> v i \<noteq> None)"

lemma layout_open: "layout_ok v fs \<Longrightarrow> files_open v fs"
  by (auto simp: layout_ok_def files_open_def)

fun readable :: "(nat \<Rightarrow> byte list option) \<Rightarrow> (nat \<times> file_info) list \<Rightarrow> nat \<Rightarrow> bool" where
  "readable v [] p = False"
| "readable v ((i, fi) # fs) p =
     (if p < fi_len fi then padding fi \<or> (case v i of Some c \<Rightarrow> p < length c | None \<Rightarrow> False) else readable v fs (p - fi_len fi))"

context os_files
begin

lemma fs_read_fd:
  assumes "fs_view content s i = Some c"
  obtains fd where "content fd = c" and "\<And>off n. so_pread_exact (fs_ops os) s i off n = os_read_exact_at os fd off n"
  using fs_view_Some [OF assms] that by (auto simp: fs_ops_def fs_pread_exact_def file_pread_exact_def)

lemma fs_read:
  assumes "fs_view content s i = Some c"
  shows "n = 0 \<or> off + n \<le> length c \<Longrightarrow> so_pread_exact (fs_ops os) s i off n = Inr (take n (drop off c))"
    and "so_pread_exact (fs_ops os) s i off n = Inr d \<Longrightarrow> n = 0 \<or> off + n \<le> length c"
proof -
  obtain fd where fd: "content fd = c" "\<And>off n. so_pread_exact (fs_ops os) s i off n = os_read_exact_at os fd off n"
    by (rule fs_read_fd [OF assms]) blast
  show "n = 0 \<or> off + n \<le> length c \<Longrightarrow> so_pread_exact (fs_ops os) s i off n = Inr (take n (drop off c))"
    unfolding fd(2) fd(1) [symmetric] by (rule os_read)
  show "so_pread_exact (fs_ops os) s i off n = Inr d \<Longrightarrow> n = 0 \<or> off + n \<le> length c"
    unfolding fd(2) fd(1) [symmetric] by (rule os_read_full)
qed

lemma fs_read_open: "so_pread_exact (fs_ops os) s i off n = Inr d \<Longrightarrow> \<exists>c. fs_view content s i = Some c"
  by (auto simp: fs_ops_def fs_pread_exact_def fs_get_def of_lock_read_def vec_get_def fs_view_def res_bind_eq_Inr ok_or_def
      split: option.splits if_splits)

lemma read_part:
  assumes "(if padding fi then Inr (replicate k 0) else so_pread_exact (fs_ops os) s i off k) = Inr d"
  shows "d = map (file_byte (fs_view content s) i fi) [off..<off + k]
    \<and> (0 < k \<and> \<not> padding fi \<longrightarrow> (\<exists>c. fs_view content s i = Some c \<and> off + k \<le> length c))"
proof (cases "padding fi")
  case True
  then show ?thesis using assms map_replicate_const [of "0 :: byte" "[off..<off + k]"] by (auto simp: file_byte_def [abs_def])
next
  case False
  then obtain c where c: "fs_view content s i = Some c" using assms fs_read_open by fastforce
  have ok: "k = 0 \<or> off + k \<le> length c" using fs_read(2) [OF c, of off k d] assms False by simp
  then have "d = take k (drop off c)" using assms False fs_read(1) [OF c, of k off] by simp
  then show ?thesis using ok c False slice_conv_map [of off k c] by (auto simp: file_byte_def)
qed

text \<open>A read that succeeds gives the bytes of the files, and every position of it could be read.\<close>

lemma read_chunk_loop_sound:
  assumes "read_chunk_loop (fs_ops os) s fs off n = Inr d" and "off \<le> files_len fs"
  shows "d = torrent_slice (fs_view content s) fs off (min n (files_len fs - off))
    \<and> (\<forall>p. off \<le> p \<and> p < off + min n (files_len fs - off) \<longrightarrow> readable (fs_view content s) fs p)"
  using assms
proof (induction fs arbitrary: off n d)
  case Nil
  then show ?case by (simp add: torrent_slice_def files_len_def)
next
  case (Cons x fs)
  obtain i fi where x: "x = (i, fi)" by (cases x)
  show ?case
  proof (cases "fi_len fi < off")
    case True
    then show ?thesis using Cons.IH [of "off - fi_len fi" n d] Cons.prems x
      by (auto simp: torrent_slice_skip add.commute less_diff_conv2 le_diff_conv2)
  next
    case False
    define k where "k = min (fi_len fi - off) n"
    let ?m = "min n (files_len (x # fs) - off)" and ?v = "fs_view content s"
    obtain b where b: "(if padding fi then Inr (replicate k 0) else so_pread_exact (fs_ops os) s i off k) = Inr b"
      using Cons.prems(1) False unfolding k_def by (simp only: x read_chunk_loop.simps Let_def if_False res_bind_eq_Inr) blast
    note part = read_part [OF b]
    have m: "?m - k = min (n - k) (files_len fs)" "k = min (fi_len fi - off) ?m"
      using False by (auto simp: x k_def min_def)
    have "\<exists>r. d = b @ r \<and> r = torrent_slice ?v fs 0 (?m - k) \<and> (\<forall>p < ?m - k. readable ?v fs p)"
    proof (cases "n - k = 0")
      case True
      then show ?thesis using Cons.prems(1) False b m(1) by (auto simp: x k_def [symmetric] Let_def torrent_slice_def)
    next
      case rest: False
      then obtain r where "read_chunk_loop (fs_ops os) s fs 0 (n - k) = Inr r" "d = b @ r"
        using Cons.prems(1) False b by (auto simp: x k_def [symmetric] Let_def res_bind_eq_Inr)
      then show ?thesis using Cons.IH [of 0 "n - k" r] m(1) by auto
    qed
    then obtain r where r: "d = b @ r" "r = torrent_slice ?v fs 0 (?m - k)" "\<And>p. p < ?m - k \<Longrightarrow> readable ?v fs p" by blast
    have "torrent_slice ?v (x # fs) off ?m = map (file_byte ?v i fi) [off..<off + k] @ torrent_slice ?v fs 0 (?m - k)"
      unfolding x by (rule torrent_slice_split) (use False m(2) x in simp_all)
    moreover have "readable ?v (x # fs) p" if "off \<le> p" "p < off + ?m" for p
    proof (cases "p < fi_len fi")
      case True
      then have "p < off + k" using that by (auto simp: k_def min_def split: if_splits)
      then show ?thesis using True that(1) part by (auto simp: x)
    next
      case pf: False
      have "p - fi_len fi < ?m - k" using that pf False by (auto simp: x k_def min_def split: if_splits)
      then show ?thesis using r(3) pf by (simp add: x)
    qed
    ultimately show ?thesis using part r(1,2) by auto
  qed
qed

text \<open>Conversely a read succeeds when every position up to the end of the torrent that it covers can be read.\<close>

lemma read_chunk_loop_complete:
  assumes "files_open (fs_view content s) fs"
    and "\<And>p. off \<le> p \<Longrightarrow> p < off + n \<Longrightarrow> p < files_len fs \<Longrightarrow> readable (fs_view content s) fs p"
  shows "\<exists>d. read_chunk_loop (fs_ops os) s fs off n = Inr d"
  using assms
proof (induction fs arbitrary: off n)
  case Nil
  then show ?case by simp
next
  case (Cons x fs)
  obtain i fi where x: "x = (i, fi)" by (cases x)
  have op: "files_open (fs_view content s) fs" using Cons.prems(1) by (simp add: files_open_def)
  show ?case
  proof (cases "fi_len fi < off")
    case True
    have "readable (fs_view content s) fs p" if "off - fi_len fi \<le> p" "p < off - fi_len fi + n" "p < files_len fs" for p
      using Cons.prems(2) [of "p + fi_len fi"] that True by (auto simp: x)
    from Cons.IH [OF op this] show ?thesis using True by (simp add: x)
  next
    case False
    define k where "k = min (fi_len fi - off) n"
    have "\<exists>b. (if padding fi then Inr (replicate k 0) else so_pread_exact (fs_ops os) s i off k) = Inr b"
    proof (cases "padding fi")
      case np: False
      then obtain c where c: "fs_view content s i = Some c" using Cons.prems(1) by (auto simp: x files_open_def)
      have "k = 0 \<or> off + k \<le> length c"
      proof (cases "k = 0")
        case k: False
        then have "readable (fs_view content s) (x # fs) (off + k - 1)"
          by (intro Cons.prems(2)) (auto simp: x k_def)
        then show ?thesis using k np c by (auto simp: x k_def split: if_splits)
      qed simp
      then show ?thesis using fs_read(1) [OF c, of k off] np by auto
    qed simp
    then obtain b where b: "(if padding fi then Inr (replicate k 0) else so_pread_exact (fs_ops os) s i off k) = Inr b" by blast
    have "readable (fs_view content s) fs p" if "p < n - k" "p < files_len fs" for p
      using Cons.prems(2) [of "p + fi_len fi"] that False by (auto simp: x k_def min_def split: if_splits)
    then obtain r where "n - k = 0 \<or> read_chunk_loop (fs_ops os) s fs 0 (n - k) = Inr r"
      using Cons.IH [OF op, of 0 "n - k"] by auto
    then show ?thesis using False b by (auto simp: x k_def [symmetric] Let_def)
  qed
qed

end

text \<open>Which positions belong to padding files.\<close>

fun in_padding :: "(nat \<times> file_info) list \<Rightarrow> nat \<Rightarrow> bool" where
  "in_padding [] p = False"
| "in_padding ((i, fi) # fs) p = (if p < fi_len fi then padding fi else in_padding fs (p - fi_len fi))"

lemma torrent_byte_cong:
  "(\<And>i. i \<in> fst ` set fs \<Longrightarrow> v i = w i) \<Longrightarrow> torrent_byte v fs p = torrent_byte w fs p"
  by (induction fs arbitrary: p) (force simp: file_byte_def)+

lemma layout_ok_cong:
  "(\<And>i. i \<in> fst ` set fs \<Longrightarrow> v i = w i) \<Longrightarrow> layout_ok v fs = layout_ok w fs"
  by (force simp: layout_ok_def)

text \<open>
  What a write of \<open>data\<close> at \<open>off\<close> does to the content: the bytes of its range that are neither padding nor among the ones \<open>lost\<close> by a short or
  failed write are the new ones, all others the old ones.
\<close>

definition written ::
  "(nat \<times> file_info) list \<Rightarrow> nat \<Rightarrow> byte list \<Rightarrow> (nat \<Rightarrow> bool) \<Rightarrow> (nat \<Rightarrow> byte list option) \<Rightarrow> (nat \<Rightarrow> byte list option) \<Rightarrow> bool" where
  "written fs off data lost v w \<longleftrightarrow> layout_ok w fs \<and> (\<forall>i. i \<notin> fst ` set fs \<longrightarrow> w i = v i)
     \<and> (\<forall>p. torrent_byte w fs p = (if off \<le> p \<and> p < off + length data \<and> p < files_len fs \<and> \<not> in_padding fs p \<and> \<not> lost p
          then data ! (p - off) else torrent_byte v fs p))"

lemma written_refl: "layout_ok v fs \<Longrightarrow> data = [] \<or> lost = (\<lambda>_. True) \<Longrightarrow> written fs off data lost v v"
  by (auto simp: written_def)

lemma written_skip:
  assumes "written fs (off - fi_len fi) data lost v w" and "fi_len fi \<le> off"
    and "layout_ok v ((i, fi) # fs)"
  shows "written ((i, fi) # fs) off data (\<lambda>p. lost (p - fi_len fi)) v w"
proof -
  have "w i = v i" using assms(1,3) by (simp add: written_def)
  with assms show ?thesis
    by (auto simp: written_def file_byte_def le_diff_conv2 less_diff_conv2)
qed

lemma written_split:
  assumes "written fs 0 (drop k data) lost v1 w" and "off \<le> fi_len fi" and "k = min (length data) (fi_len fi - off)"
    and lay: "layout_ok v1 ((i, fi) # fs)" and oth: "\<And>j. j \<noteq> i \<Longrightarrow> v1 j = v j"
    and byt: "\<And>p. p < fi_len fi \<Longrightarrow> file_byte v1 i fi p =
       (if off \<le> p \<and> p < off + k \<and> \<not> padding fi \<and> \<not> l1 p then data ! (p - off) else file_byte v i fi p)"
  shows "written ((i, fi) # fs) off data (\<lambda>p. if p < fi_len fi then l1 p else lost (p - fi_len fi)) v w"
proof -
  have wi: "w i = v1 i" using assms(1) lay by (simp add: written_def)
  have "torrent_byte v1 fs p = torrent_byte v fs p" for p
  proof (rule torrent_byte_cong)
    fix j assume "j \<in> fst ` set fs"
    then show "v1 j = v j" using lay oth [of j] by (cases "j = i") auto
  qed
  moreover have "file_byte w i fi p = file_byte v1 i fi p" for p using wi by (simp add: file_byte_def)
  moreover have "data ! (k + (p - fi_len fi)) = data ! (p - off)"
    if "\<not> p < fi_len fi" "p - fi_len fi < length data - k" for p
    using that assms(2,3) by (auto simp: min_def split: if_splits)
  moreover have "torrent_byte w fs q = (if q < length data - k \<and> q < files_len fs \<and> \<not> in_padding fs q \<and> \<not> lost q
      then data ! (k + q) else torrent_byte v1 fs q)" for q
    using assms(1,3) by (auto simp: written_def)
  ultimately have "torrent_byte w ((i, fi) # fs) p = (if off \<le> p \<and> p < off + length data
      \<and> p < files_len ((i, fi) # fs) \<and> \<not> in_padding ((i, fi) # fs) p
      \<and> \<not> (if p < fi_len fi then l1 p else lost (p - fi_len fi))
      then data ! (p - off) else torrent_byte v ((i, fi) # fs) p)" for p
    using assms(2,3) byt [of p] by (cases "p < fi_len fi") (auto split: if_splits)
  moreover have "layout_ok w ((i, fi) # fs)" using assms(1) lay wi by (simp add: written_def)
  moreover have "\<forall>j. j \<notin> fst ` set ((i, fi) # fs) \<longrightarrow> w j = v j"
    using assms(1) oth by (simp add: written_def)
  ultimately show ?thesis unfolding written_def by blast
qed

context torrent_storage
begin

lemma write_chunk_loop_spec:
  assumes "layout_ok (view s) fs" and "off + length data \<le> files_len fs"
    and sp: "\<And>d. fst (sp d) @ snd (sp d) = d"
    and "write_chunk_loop ops sp fs off data s = (r, s')"
  shows "\<exists>lost. written fs off data lost (view s) (view s') \<and> (full_writes ops \<longrightarrow> r = Inr () \<longrightarrow> lost = (\<lambda>_. False))
    \<and> (\<forall>e. r = Inl e \<longrightarrow> (\<exists>s f off d s1. so_pwrite_all_vectored ops s f off (sp d) = (Inl e, s1) \<and> view s f \<noteq> None \<and> off < 2 ^ 63))"
  using assms(1,2,4)
proof (induction fs arbitrary: off data s r s')
  case Nil
  then show ?case by (intro exI [of _ "\<lambda>_. False"]) (auto simp: written_def)
next
  case (Cons x fs)
  obtain i fi where x: "x = (i, fi)" by (cases x)
  show ?case
  proof (cases "fi_len fi < off")
    case True
    have "layout_ok (view s) fs" "off - fi_len fi + length data \<le> files_len fs"
      "write_chunk_loop ops sp fs (off - fi_len fi) data s = (r, s')"
      using Cons.prems x True by simp_all
    from Cons.IH [OF this] show ?thesis
      using True Cons.prems(1) written_skip [of fs off fi _ _ "view s" "view s'" i] unfolding x by fastforce
  next
    case False
    define k where "k = min (length data) (fi_len fi - off)"
    have lk: "length (take k data) = k" by (simp add: k_def)
    have pre: "layout_ok (view s) ((i, fi) # fs)" "off + length (take k data) \<le> fi_len fi"
      using Cons.prems False by (auto simp: x k_def)
    obtain r1 s1 where w1: "(if padding fi then (Inr (length (take k data)), s) else so_pwrite_all_vectored ops s i off (sp (take k data)))
         = (r1, s1)" by (cases "if padding fi then (Inr (length (take k data)), s) else so_pwrite_all_vectored ops s i off (sp (take k data))")
    note wf = write_file [where sp = sp and d = "take k data", OF pre sp w1]
    have s1: "layout_ok (view s1) ((i, fi) # fs)" "\<And>j. j \<noteq> i \<Longrightarrow> view s1 j = view s j" using wf by blast+
    obtain l1 where b1: "\<forall>p. p < fi_len fi \<longrightarrow> file_byte (view s1) i fi p =
         (if off \<le> p \<and> p < off + k \<and> \<not> padding fi \<and> \<not> l1 p then take k data ! (p - off) else file_byte (view s) i fi p)"
      and l1: "full_writes ops \<longrightarrow> (\<exists>n. r1 = Inr n) \<longrightarrow> l1 = (\<lambda>_. False)"
      using wf [THEN conjunct2, THEN conjunct2] unfolding lk by (elim exE conjE) (rule that)
    have byt: "\<And>p. p < fi_len fi \<Longrightarrow> file_byte (view s1) i fi p =
         (if off \<le> p \<and> p < off + k \<and> \<not> padding fi \<and> \<not> l1 p then data ! (p - off) else file_byte (view s) i fi p)"
      using b1 by auto
    have loop: "(case r1 of Inl e \<Rightarrow> (Inl e, s1) | Inr _ \<Rightarrow> if drop k data = [] then (Inr (), s1)
        else write_chunk_loop ops sp fs 0 (drop k data) s1) = (r, s')"
      using Cons.prems(3) False by (simp add: x k_def [symmetric] Let_def w1 [unfolded lk] del: drop_eq_Nil)
    have rest: "\<exists>lost. written fs 0 (drop k data) lost (view s1) (view s') \<and> (full_writes ops \<longrightarrow> r = Inr () \<longrightarrow> l1 = (\<lambda>_. False) \<and> lost = (\<lambda>_. False))
      \<and> (\<forall>e. r = Inl e \<longrightarrow> (\<exists>s f off d s1. so_pwrite_all_vectored ops s f off (sp d) = (Inl e, s1) \<and> view s f \<noteq> None \<and> off < 2 ^ 63))"
    proof (cases r1)
      case (Inl e)
      have np: "\<not> padding fi" using w1 Inl by auto
      then have "view s i \<noteq> None" "off < 2 ^ 63" "so_pwrite_all_vectored ops s i off (sp (take k data)) = (Inl e, s1)"
        using pre w1 Inl False by auto
      then have f: "\<exists>s f off d s1. so_pwrite_all_vectored ops s f off (sp d) = (Inl e, s1) \<and> view s f \<noteq> None \<and> off < 2 ^ 63"
        by blast
      have rs: "r = Inl e" "s' = s1" using loop Inl by auto
      have "written fs 0 (drop k data) (\<lambda>_. True) (view s1) (view s1)" using s1(1) by (intro written_refl) auto
      then show ?thesis using f unfolding rs by blast
    next
      case (Inr n)
      show ?thesis
      proof (cases "drop k data = []")
        case True
        then show ?thesis using s1(1) loop Inr l1 by (intro exI [of _ "\<lambda>_. False"]) (auto simp: written_def)
      next
        case nz: False
        have "write_chunk_loop ops sp fs 0 (drop k data) s1 = (r, s')" using loop Inr nz by simp
        from Cons.IH [OF _ _ this] show ?thesis
          using s1(1) Cons.prems(2) x False Inr l1 nz by (auto simp: k_def)
      qed
    qed
    then obtain lost where lost: "written fs 0 (drop k data) lost (view s1) (view s')"
      "full_writes ops \<longrightarrow> r = Inr () \<longrightarrow> l1 = (\<lambda>_. False) \<and> lost = (\<lambda>_. False)"
      by blast
    show ?thesis
      using written_split [OF lost(1) _ k_def s1 byt] False lost(2) rest
      by (intro exI [of _ "\<lambda>p. if p < fi_len fi then l1 p else lost (p - fi_len fi)"]) (auto simp: x)
  qed
qed

text \<open>What the initial check reads: the bytes from its current position on.\<close>

end

definition cur_files :: "current_file \<Rightarrow> (nat \<times> file_info) list \<Rightarrow> (nat \<times> file_info) list" where
  "cur_files cur rest = (cf_index cur, cf_fi cur) # rest"

definition cur_byte ::
  "(nat \<Rightarrow> byte list option) \<Rightarrow> current_file \<Rightarrow> (nat \<times> file_info) list \<Rightarrow> nat \<Rightarrow> byte" where
  "cur_byte v cur rest j = torrent_byte v (cur_files cur rest) (processed_bytes cur + j)"

definition cur_left :: "current_file \<Rightarrow> (nat \<times> file_info) list \<Rightarrow> nat" where
  "cur_left cur rest = cf_remaining cur + files_len rest"

definition cur_ok :: "(nat \<Rightarrow> byte list option) \<Rightarrow> current_file \<Rightarrow> (nat \<times> file_info) list \<Rightarrow> bool" where
  "cur_ok v cur rest \<longleftrightarrow> layout_ok v (cur_files cur rest) \<and> processed_bytes cur \<le> fi_len (cf_fi cur)
     \<and> \<not> is_broken cur"

lemma cur_new:
  "layout_ok v (x # rest) \<Longrightarrow> cur_ok v (cf_new x) rest \<and> cur_byte v (cf_new x) rest = torrent_byte v (x # rest)
     \<and> cur_left (cf_new x) rest = files_len (x # rest)"
  by (cases x) (auto simp: cur_ok_def cur_files_def cf_new_def cur_byte_def cur_left_def cf_remaining_def)

lemma next_nonempty_spec:
  assumes "cur_ok v cur rest" and "0 < n" and "n \<le> cur_left cur rest"
  shows "\<exists>cur' rest'. next_nonempty cur rest n = Inr (min (cf_remaining cur') n, cur', rest')
     \<and> 0 < cf_remaining cur' \<and> cur_ok v cur' rest' \<and> cur_left cur' rest' = cur_left cur rest
     \<and> cur_byte v cur' rest' = cur_byte v cur rest"
  using assms
proof (induction rest arbitrary: cur)
  case Nil
  then show ?case by (subst next_nonempty.simps) (auto simp: cur_left_def Let_def)
next
  case (Cons x rest)
  show ?case
  proof (cases "cf_remaining cur = 0")
    case True
    have skip: "cur_byte v cur (x # rest) = torrent_byte v (x # rest)"
      using True Cons.prems(1)
      by (auto simp: cur_byte_def cur_files_def cf_remaining_def cur_ok_def fun_eq_iff)
    have lay: "layout_ok v (x # rest)" using Cons.prems(1) by (simp add: cur_ok_def cur_files_def)
    have left: "cur_left cur (x # rest) = files_len (x # rest)" using True by (simp add: cur_left_def)
    show ?thesis
      using Cons.IH [of "cf_new x"] cur_new [OF lay] Cons.prems(2,3) skip left True
      by (subst next_nonempty.simps) (simp add: Let_def)
  next
    case False
    then show ?thesis
      using Cons.prems by (subst next_nonempty.simps) (auto simp: Let_def)
  qed
qed

lemma cur_advance:
  assumes "cur_ok v cur rest" and "k \<le> cf_remaining cur"
  shows "cur_ok v (mark_processed_bytes k cur) rest"
    and "cur_byte v (mark_processed_bytes k cur) rest j = cur_byte v cur rest (k + j)"
    and "cur_left (mark_processed_bytes k cur) rest = cur_left cur rest - k"
  using assms
  by (auto simp: cur_ok_def cur_files_def mark_processed_bytes_def cur_byte_def cur_left_def
      cf_remaining_def add.assoc)

context torrent_storage
begin

lemma cur_read:
  assumes "cur_ok (view s) cur rest" and "k \<le> cf_remaining cur"
  shows "update_hash_from_file ops s (cf_index cur) (cf_fi cur) (processed_bytes cur) 65536 k h
     = Inr (h @ map (cur_byte (view s) cur rest) [0..<k])"
proof -
  have lay: "layout_ok (view s) ((cf_index cur, cf_fi cur) # rest)"
    using assms(1) by (simp add: cur_ok_def cur_files_def)
  have fit: "processed_bytes cur + k \<le> fi_len (cf_fi cur)"
    using assms by (auto simp: cur_ok_def cf_remaining_def)
  have "map (file_byte (view s) (cf_index cur) (cf_fi cur)) [processed_bytes cur..<processed_bytes cur + k]
     = map (cur_byte (view s) cur rest) [0..<k]"
    using fit by (intro nth_equalityI) (auto simp: cur_byte_def cur_files_def)
  then show ?thesis using update_hash_spec [OF lay _ fit, of 65536 h] by simp
qed

lemma initial_check_piece_spec:
  assumes "cur_ok (view s) cur rest" and "n \<le> cur_left cur rest"
  shows "\<exists>cur' rest'. initial_check_piece ops s cur rest n h b
       = Inr (cur', rest', h @ map (cur_byte (view s) cur rest) [0..<n], b)
     \<and> cur_ok (view s) cur' rest' \<and> cur_left cur' rest' = cur_left cur rest - n
     \<and> (\<forall>j. cur_byte (view s) cur' rest' j = cur_byte (view s) cur rest (n + j))"
  using assms
proof (induction n arbitrary: cur rest h rule: less_induct)
  case (less n)
  show ?case
  proof (cases "n = 0")
    case True
    then show ?thesis using less.prems by (simp add: initial_check_piece.simps)
  next
    case False
    obtain cur1 rest1 where nx: "next_nonempty cur rest n = Inr (min (cf_remaining cur1) n, cur1, rest1)"
      "0 < cf_remaining cur1" "cur_ok (view s) cur1 rest1" "cur_left cur1 rest1 = cur_left cur rest"
      "cur_byte (view s) cur1 rest1 = cur_byte (view s) cur rest"
      using next_nonempty_spec [OF less.prems(1) _ less.prems(2)] False by auto
    define k where "k = min (cf_remaining cur1) n"
    define cur2 where "cur2 = mark_processed_bytes k cur1"
    have k: "0 < k" "k \<le> cf_remaining cur1" "k \<le> n" using nx(2) False by (auto simp: k_def)
    note adv = cur_advance [OF nx(3) k(2), folded cur2_def]
    have same: "cf_index cur2 = cf_index cur1" "cf_fi cur2 = cf_fi cur1" "\<not> is_broken cur2"
      using adv(1) by (auto simp: cur2_def mark_processed_bytes_def cur_ok_def)
    have small: "n - k < n" "n - k \<le> cur_left cur2 rest1"
      using k False adv(3) nx(4) less.prems(2) by auto
    obtain cur' rest' where rec: "initial_check_piece ops s cur2 rest1 (n - k)
          (h @ map (cur_byte (view s) cur1 rest1) [0..<k]) b
        = Inr (cur', rest', (h @ map (cur_byte (view s) cur1 rest1) [0..<k])
            @ map (cur_byte (view s) cur2 rest1) [0..<n - k], b)"
      "cur_ok (view s) cur' rest'" "cur_left cur' rest' = cur_left cur2 rest1 - (n - k)"
      "\<forall>j. cur_byte (view s) cur' rest' j = cur_byte (view s) cur2 rest1 (n - k + j)"
      using less.IH [OF small(1) adv(1) small(2)] by blast
    have step: "initial_check_piece ops s cur rest n h b = Inr (cur', rest',
        (h @ map (cur_byte (view s) cur1 rest1) [0..<k]) @ map (cur_byte (view s) cur2 rest1) [0..<n - k], b)"
      using False nx(1) rec(1) same cur_read [OF nx(3) k(2)]
      by (subst initial_check_piece.simps) (simp add: k_def [symmetric] cur2_def [symmetric] Let_def)
    have "map (cur_byte (view s) cur1 rest1) [0..<k] @ map (cur_byte (view s) cur2 rest1) [0..<n - k]
        = map (cur_byte (view s) cur rest) [0..<n]"
      using k(3) by (intro nth_equalityI) (auto simp: nth_append adv(2) nx(5))
    then show ?thesis
      using step rec k adv(2,3) nx(4,5) by (auto simp: add.assoc [symmetric])
  qed
qed

lemma initial_check_loop_spec:
  assumes "T \<le> length have_pieces" and "a \<le> T"
    and "cur_ok (view s) cur rest" and "sum_list (map plen [a..<T]) \<le> cur_left cur rest"
    and "\<forall>j. cur_byte (view s) cur rest j = torrent_byte (view s) fs (sum_list (map plen [0..<a]) + j)"
    and nc: "\<forall>i. \<not> is_cancelled i" and cmp: "\<forall>i<T. \<forall>d. cmp i d \<noteq> None"
  shows "\<exists>bits. initial_check_loop ops s sha1 cmp is_cancelled (map (\<lambda>i. (i, plen i)) [a..<T]) cur rest
         have_pieces progress = (Inr bits, progress + of_nat (sum_list (map plen [a..<T])))
     \<and> length bits = length have_pieces
     \<and> (\<forall>i<length bits. bits ! i = (have_pieces ! i \<or> a \<le> i \<and> i < T \<and>
          cmp i (sha1 (torrent_slice (view s) fs (sum_list (map plen [0..<i])) (plen i))) = Some True))"
  using assms(1-5)
proof (induction "T - a" arbitrary: a cur rest have_pieces progress)
  case 0
  then show ?case by auto
next
  case (Suc k)
  then have a: "a < T" by simp
  define off where "off = sum_list (map plen [0..<a])"
  have left: "plen a + sum_list (map plen [Suc a..<T]) \<le> cur_left cur rest"
    using Suc.prems(4) a by (simp add: upt_conv_Cons)
  obtain cur1 rest1 where pc: "initial_check_piece ops s cur rest (plen a) [] False
       = Inr (cur1, rest1, map (cur_byte (view s) cur rest) [0..<plen a], False)"
     "cur_ok (view s) cur1 rest1" "cur_left cur1 rest1 = cur_left cur rest - plen a"
     "\<forall>j. cur_byte (view s) cur1 rest1 j = cur_byte (view s) cur rest (plen a + j)"
    using initial_check_piece_spec [OF Suc.prems(3), of "plen a" "[]" False] left by auto
  have slice: "map (cur_byte (view s) cur rest) [0..<plen a] = torrent_slice (view s) fs off (plen a)"
    using Suc.prems(5) by (intro nth_equalityI) (auto simp: off_def)
  define h1 where "h1 = (if cmp a (sha1 (torrent_slice (view s) fs off (plen a))) = Some True
      then have_pieces[a := True] else have_pieces)"
  have pos: "\<forall>j. cur_byte (view s) cur1 rest1 j = torrent_byte (view s) fs (sum_list (map plen [0..<Suc a]) + j)"
    using pc(4) Suc.prems(5) by (simp add: add.assoc)
  have pre: "k = T - Suc a" "T \<le> length h1" "Suc a \<le> T"
    "sum_list (map plen [Suc a..<T]) \<le> cur_left cur1 rest1"
    using Suc.hyps(2) Suc.prems(1) a pc(3) left by (auto simp: h1_def)
  obtain bits where bits: "initial_check_loop ops s sha1 cmp is_cancelled (map (\<lambda>i. (i, plen i)) [Suc a..<T])
        cur1 rest1 h1 (progress + of_nat (plen a))
      = (Inr bits, progress + of_nat (plen a) + of_nat (sum_list (map plen [Suc a..<T])))"
    "length bits = length h1"
    "\<forall>i<length bits. bits ! i = (h1 ! i \<or> Suc a \<le> i \<and> i < T \<and>
          cmp i (sha1 (torrent_slice (view s) fs (sum_list (map plen [0..<i])) (plen i))) = Some True)"
    using Suc.hyps(1) [OF pre(1-3) pc(2) pre(4) pos] by blast
  have set: "(if v then bf_set have_pieces a True else Inr have_pieces)
      = Inr (if v then have_pieces[a := True] else have_pieces)" for v
    using a Suc.prems(1) by (simp add: bf_set_def)
  obtain v where v: "cmp a (sha1 (torrent_slice (view s) fs off (plen a))) = Some v"
    using cmp a by blast
  have "initial_check_loop ops s sha1 cmp is_cancelled (map (\<lambda>i. (i, plen i)) [a..<T]) cur rest
         have_pieces progress = (Inr bits, progress + of_nat (plen a) + of_nat (sum_list (map plen [Suc a..<T])))"
    using a nc pc(1) slice v bits(1) set [of v] by (simp add: upt_conv_Cons Let_def h1_def)
  moreover have "bits ! i = (have_pieces ! i \<or> a \<le> i \<and> i < T \<and>
          cmp i (sha1 (torrent_slice (view s) fs (sum_list (map plen [0..<i])) (plen i))) = Some True)"
    if "i < length bits" for i
    using bits(2,3) that a v by (cases "i = a") (auto simp: h1_def off_def nth_list_update)
  moreover have "length bits = length have_pieces" using bits(2) by (simp add: h1_def)
  ultimately show ?case using a by (auto simp: upt_conv_Cons add.assoc)
qed

end

subsection \<open>Properties\<close>


definition ex_fo_files :: file_infos where
  "ex_fo_files =
     [\<lparr>relative_filename = ''a'', offset_in_torrent = 0, piece_range = (0, 2), padding = False, fi_len = 5\<rparr>,
      \<lparr>relative_filename = ''pad'', offset_in_torrent = 5, piece_range = (1, 2), padding = True, fi_len = 1\<rparr>,
      \<lparr>relative_filename = ''b'', offset_in_torrent = 6, piece_range = (1, 3), padding = False, fi_len = 4\<rparr>]"

definition ex_fs :: "byte list fs_storage" where
  "ex_fs = \<lparr>output_folder = [],
     opened_files = [opened_file_new ''a'' [1, 2, 3, 4, 5], opened_file_new_dummy, opened_file_new ''b'' [7, 8, 9, 10]]\<rparr>"

lemma ex_fo_layout:
  "files_len (enum ex_fo_files) = total_length ex_lengths"
  "layout_ok (fs_view (\<lambda>c. c) ex_fs) (enum ex_fo_files)" "ex_fo_files \<noteq> []"
proof -
  have e: "enum ex_fo_files = [(0, ex_fo_files ! 0), (1, ex_fo_files ! 1), (2, ex_fo_files ! 2)]"
    by (simp add: enum_def ex_fo_files_def upt_rec)
  show "files_len (enum ex_fo_files) = total_length ex_lengths"
    "layout_ok (fs_view (\<lambda>c. c) ex_fs) (enum ex_fo_files)" "ex_fo_files \<noteq> []"
    unfolding e
    by (simp_all add: ex_fo_files_def ex_fs_def fs_view_def opened_file_new_def opened_file_new_dummy_def
        layout_ok_def)
qed


text \<open>A short write is a success for \<open>write_chunk\<close>: the second byte of the block is not on the disk.\<close>

lemma short_write_loses_bytes:
  "os_files short_os (\<lambda>c. c)
   \<and> fst (write_chunk ex_lengths (fs_ops short_os) (\<lambda>d. (d, [])) ex_fo_files [11, 12] (ex_chunk 1 1) ex_fs) = Inr ()
   \<and> fs_view (\<lambda>c. c) (snd (write_chunk ex_lengths (fs_ops short_os) (\<lambda>d. (d, [])) ex_fo_files [11, 12] (ex_chunk 1 1) ex_fs)) 2 = Some [11, 8, 9, 10]"
proof -
  have "chunk_absolute_offset ex_lengths (ex_chunk 1 1) = 6" by (simp add: ex_lengths_def ex_chunk_def)
  then show ?thesis
    using short_os_files
    by (simp add: write_chunk_def enum_def upt_rec ex_fo_files_def fs_ops_def fs_pwrite_all_vectored_def fs_on_file_def
        fs_get_def ex_fs_def opened_file_new_def opened_file_new_dummy_def of_lock_read_def vec_get_def file_pwrite_all_vectored_def short_os_def
        mem_os_def overwrite_def fs_put_def fs_view_def)
qed

lemma check_piece_spec:
  assumes os: "os_files os content" and L: "lengths_ok L" "lengths_bytes_ok L"
    and files: "files_len (enum files) = total_length L" "layout_ok (fs_view content s) (enum files)"
    and p: "p < total_pieces L"
  shows "check_piece L sha1 compare_hash (fs_ops os) files s p =
     (case compare_hash p (sha1 (torrent_slice (fs_view content s) (enum files) (piece_offset L p) (piece_length L p))) of
        Some v \<Rightarrow> Inr v | None \<Rightarrow> Inl (Bail ''compare_hash() did not find the piece''))"
proof -
  have fit: "piece_offset L p + piece_length L p \<le> files_len (enum files)"
    using lengths_bytes_piece [OF L p] files(1) by simp
  have "0 < min 65536 (piece_length L p)" using lengths_ok_chunks(2) [OF L(1) p] by simp
  from torrent_storage.check_piece_loop_spec [OF fs_storage [OF os] files(2) this fit, of "[]"]
  show ?thesis by (simp add: check_piece_def Let_def)
qed

text \<open>C14. Checking a piece: on the file system back end with complete files, \<open>check_piece\<close> always
  returns, and its answer is whether the SHA-1 of exactly the bytes of that piece, taken across file
  boundaries, is the expected one; it fails only when the metadata has no hash for the piece.\<close>

theorem check_piece_correct:
  assumes os: "os_files os content" and L: "lengths_ok L" "lengths_bytes_ok L"
    and files: "files_len (enum files) = total_length L" "layout_ok (fs_view content s) (enum files)"
    and p: "p < total_pieces L"
  shows "check_piece L sha1 compare_hash (fs_ops os) files s p =
     (case compare_hash p (sha1 (torrent_slice (fs_view content s) (enum files) (piece_offset L p) (piece_length L p))) of
        Some v \<Rightarrow> Inr v | None \<Rightarrow> Inl (Bail ''compare_hash() did not find the piece''))"
  by (rule check_piece_spec [OF assms])

lemma initial_check_spec:
  assumes os: "os_files os content" and L: "lengths_ok L" "lengths_bytes_ok L"
    and files: "files_len (enum files) = total_length L" "layout_ok (fs_view content s) (enum files)" "files \<noteq> []"
    and run: "\<forall>i. \<not> is_cancelled i" "\<forall>i<total_pieces L. \<forall>d. compare_hash i d \<noteq> None"
  shows "\<exists>bits. initial_check L sha1 compare_hash (fs_ops os) files s is_cancelled progress
       = (Inr bits, progress + of_nat (total_length L))
     \<and> length bits = 8 * piece_bitfield_bytes L
     \<and> (\<forall>i<length bits. bits ! i = (i < total_pieces L \<and>
          compare_hash i (sha1 (torrent_slice (fs_view content s) (enum files) (piece_offset L i) (piece_length L i)))
            = Some True))"
proof -
  have "length (enum files) = length files" by (simp add: enum_def)
  then obtain x rest where e: "enum files = x # rest" using files(3) by (cases "enum files") auto
  note new = cur_new [OF files(2) [unfolded e]]
  have off: "piece_offset L i = sum_list (map (piece_length L) [0..<i])" if "i < total_pieces L" for i
    using L(2) that by (simp add: lengths_bytes_ok_def)
  have "total_pieces L \<le> length (bf_zero (piece_bitfield_bytes L))"
    using lengths_okD(1) [OF L(1)] by (simp add: bf_zero_def)
  from torrent_storage.initial_check_loop_spec [OF fs_storage [OF os] this _ new [THEN conjunct1], of 0 "piece_length L"
      "x # rest" is_cancelled compare_hash sha1 progress]
  show ?thesis
    using new files(1) run lengths_okD(3,4) [OF L(1)] off
    by (simp add: initial_check_def e) (auto simp: bf_zero_def)
qed

text \<open>The initial check: on the file system back end with complete files and no cancellation,
  \<open>initial_check\<close> succeeds, and a bit of the result is set exactly for the pieces whose bytes have
  the expected SHA-1; the progress counter advances by the length of the torrent.\<close>

theorem initial_check_correct:
  assumes os: "os_files os content" and L: "lengths_ok L" "lengths_bytes_ok L"
    and files: "files_len (enum files) = total_length L" "layout_ok (fs_view content s) (enum files)" "files \<noteq> []"
    and run: "\<forall>i. \<not> is_cancelled i" "\<forall>i<total_pieces L. \<forall>d. compare_hash i d \<noteq> None"
  shows "\<exists>bits. initial_check L sha1 compare_hash (fs_ops os) files s is_cancelled progress
       = (Inr bits, progress + of_nat (total_length L))
     \<and> length bits = 8 * piece_bitfield_bytes L
     \<and> (\<forall>i<length bits. bits ! i = (i < total_pieces L \<and>
          compare_hash i (sha1 (torrent_slice (fs_view content s) (enum files) (piece_offset L i) (piece_length L i)))
            = Some True))"
  by (rule initial_check_spec [OF assms])

theorem check_piece_correct_witness:
  "check_piece ex_lengths (\<lambda>h. h) (\<lambda>i d. Some (i = 1 \<and> d = [5, 0, 7, 8])) (fs_ops mem_os) ex_fo_files ex_fs 1 = Inr True"
proof -
  have sl: "torrent_slice (fs_view (\<lambda>c. c) ex_fs) (enum ex_fo_files) (piece_offset ex_lengths 1)
      (piece_length ex_lengths 1) = [5, 0, 7, 8]"
    by code_simp
  show ?thesis
    using check_piece_correct [OF mem_os.os_files_axioms ex_lengths_ok ex_lengths_bytes_ok ex_fo_layout(1,2),
        of 1 "\<lambda>h. h" "\<lambda>i d. Some (i = 1 \<and> d = [5, 0, 7, 8])"] sl
    by simp
qed

theorem initial_check_correct_witness:
  "\<exists>bits. fst (initial_check ex_lengths (\<lambda>h. h) (\<lambda>i d. Some (d = [5, 0, 7, 8])) (fs_ops mem_os) ex_fo_files ex_fs
       (\<lambda>_. False) 0) = Inr bits \<and> bits ! 1"
proof -
  have sl: "torrent_slice (fs_view (\<lambda>c. c) ex_fs) (enum ex_fo_files) (piece_offset ex_lengths 1)
      (piece_length ex_lengths 1) = [5, 0, 7, 8]"
    by code_simp
  show ?thesis
    using initial_check_correct [OF mem_os.os_files_axioms ex_lengths_ok ex_lengths_bytes_ok ex_fo_layout,
        of "\<lambda>_. False" "\<lambda>i d. Some (d = [5, 0, 7, 8])" "\<lambda>h. h" 0] sl
    by auto
qed

end
