(* ===== verification/Streaming.thy ===== *)
theory Streaming
  imports File_Ops
begin

text \<open>
  \<open>src/src/torrent_state/streaming.rs\<close>: the streams open on a torrent, the pieces they want next and
  the reader of one file. Wakers are numbers. What \<open>poll_read\<close> needs from the torrent is an argument:
  \<open>have_bits\<close> is the result of \<open>with_chunk_tracker\<close> (the bit field of pieces), \<open>pread\<close> that of
  \<open>with_storage_and_file\<close> and \<open>pread_exact\<close> on the stream's file. Positions are \<open>u64\<close>, seeks are computed
  in \<open>i64\<close> with the wrap-around of a release build.
\<close>

record stream_state =
  ss_file_id :: nat
  ss_file_len :: nat
  file_abs_offset :: nat
  ss_position :: nat
  waker :: "nat option"

record torrent_streams =
  next_stream_id :: nat
  streams :: "(nat \<times> stream_state) list"

record file_stream =
  stream_id :: nat
  file_id :: nat
  position :: nat
  file_len :: nat
  file_torrent_abs_offset :: nat

definition PER_STREAM_BUF_DEFAULT :: nat where
  "PER_STREAM_BUF_DEFAULT = 32 * 1024 * 1024"

definition current_piece :: "lengths \<Rightarrow> stream_state \<Rightarrow> (nat \<times> nat \<times> nat) option" where
  "current_piece L s = compute_current_piece L (ss_position s) (file_abs_offset s)"

text \<open>Conversions to \<open>u32\<close> panic when they do not fit, and so does a division by zero.\<close>

definition stream_queue :: "lengths \<Rightarrow> stream_state \<Rightarrow> nat list res" where
  "stream_queue L s =
     (let start = file_abs_offset s + ss_position s;
          stop = min (start + PER_STREAM_BUF_DEFAULT) (file_abs_offset s + ss_file_len s);
          dpl = default_piece_length L;
          start_id = start div dpl;
          end_id = (stop + dpl - 1) div dpl
      in if dpl = 0 \<or> 2 ^ 32 \<le> start_id \<or> 2 ^ 32 \<le> end_id then Inl Panic
         else Inr (List.map_filter (validate_piece_index L) [start_id..<end_id]))"

definition next_id :: "torrent_streams \<Rightarrow> nat \<times> torrent_streams" where
  "next_id t = (next_stream_id t, t\<lparr>next_stream_id := (next_stream_id t + 1) mod 2 ^ 64\<rparr>)"

definition register_waker :: "nat \<Rightarrow> nat \<Rightarrow> torrent_streams \<Rightarrow> torrent_streams" where
  "register_waker sid w t =
     (case map_of (streams t) sid of
        None \<Rightarrow> t
      | Some s \<Rightarrow> t\<lparr>streams := AList.update sid (s\<lparr>waker := Some w\<rparr>) (streams t)\<rparr>)"

text \<open>\<open>Interleave\<close>: an item from the front iterator, which then goes to the back; empty ones are dropped.\<close>

fun interleave_weight :: "'a list list \<Rightarrow> nat" where
  "interleave_weight [] = 0"
| "interleave_weight (q # qs) = 2 * length q + 1 + interleave_weight qs"

lemma interleave_weight_append [simp]:
  "interleave_weight (xs @ ys) = interleave_weight xs + interleave_weight ys"
  by (induction xs) auto

function interleave :: "'a list list \<Rightarrow> 'a list" where
  "interleave [] = []"
| "interleave ([] # qs) = interleave qs"
| "interleave ((x # xs) # qs) = x # interleave (qs @ [xs])"
  by pat_completeness auto
termination by (relation "measure interleave_weight") auto

fun res_mapM :: "('a \<Rightarrow> 'b res) \<Rightarrow> 'a list \<Rightarrow> 'b list res" where
  "res_mapM f [] = Inr []"
| "res_mapM f (x # xs) = res_bind (f x) (\<lambda>y. res_bind (res_mapM f xs) (\<lambda>ys. Inr (y # ys)))"

definition iter_next_pieces ::
  "(nat list list \<Rightarrow> nat list list) \<Rightarrow> lengths \<Rightarrow> torrent_streams \<Rightarrow> nat list res" where
  "iter_next_pieces shuffle L t =
     res_bind (res_mapM (\<lambda>(_, s). stream_queue L s) (streams t)) (\<lambda>qs. Inr (interleave (shuffle qs)))"

text \<open>The streams after the call and the wakers woken.\<close>

definition wake_streams_on_piece_completed ::
  "nat \<Rightarrow> lengths \<Rightarrow> torrent_streams \<Rightarrow> torrent_streams \<times> nat list" where
  "wake_streams_on_piece_completed piece L t =
     (let due = (\<lambda>s. map_option fst (current_piece L s) = Some piece) in
      (t\<lparr>streams := map (\<lambda>(k, s). (k, if due s then s\<lparr>waker := None\<rparr> else s)) (streams t)\<rparr>,
       List.map_filter (\<lambda>(_, s). if due s then waker s else None) (streams t)))"

definition drop_stream :: "nat \<Rightarrow> torrent_streams \<Rightarrow> stream_state option \<times> torrent_streams" where
  "drop_stream sid t = (map_of (streams t) sid, t\<lparr>streams := AList.delete sid (streams t)\<rparr>)"

definition streamed_file_ids :: "torrent_streams \<Rightarrow> nat list" where
  "streamed_file_ids t = map (\<lambda>(_, s). ss_file_id s) (streams t)"

subsection \<open>A reader\<close>

definition set_position :: "nat \<Rightarrow> file_stream \<Rightarrow> torrent_streams \<Rightarrow> (file_stream \<times> torrent_streams) res" where
  "set_position new_pos f t =
     (case map_of (streams t) (stream_id f) of
        None \<Rightarrow> Inl Panic
      | Some s \<Rightarrow> Inr (f\<lparr>position := new_pos\<rparr>,
          t\<lparr>streams := AList.update (stream_id f) (s\<lparr>ss_position := new_pos\<rparr>) (streams t)\<rparr>))"

definition advance :: "nat \<Rightarrow> file_stream \<Rightarrow> torrent_streams \<Rightarrow> (file_stream \<times> torrent_streams) res" where
  "advance diff f t = set_position (position f + diff) f t"

datatype poll_result = Pending | Ready "byte list"

definition poll_read ::
  "lengths \<Rightarrow> bf res \<Rightarrow> (nat \<Rightarrow> nat \<Rightarrow> nat \<Rightarrow> byte list res) \<Rightarrow> nat \<Rightarrow> nat \<Rightarrow> file_stream \<Rightarrow> torrent_streams
   \<Rightarrow> (poll_result \<times> file_stream \<times> torrent_streams) res" where
  "poll_read L have_bits pread cx_waker buf_len f t =
     (if position f = file_len f then Inr (Ready [], f, t)
      else case compute_current_piece L (position f) (file_torrent_abs_offset f) of
        None \<Rightarrow> Inl (Bail ''invalid position'')
      | Some (piece, piece_remaining, _) \<Rightarrow>
        res_bind have_bits (\<lambda>bits.
        res_bind (bf_index bits piece) (\<lambda>h.
        if \<not> h then Inr (Pending, f, register_waker (stream_id f) cx_waker t)
        else let bytes_to_read = min (min buf_len piece_remaining) (file_len f - position f) in
          res_bind (pread (file_id f) (position f) bytes_to_read) (\<lambda>buf.
          res_bind (advance bytes_to_read f t) (\<lambda>(f', t'). Inr (Ready buf, f', t'))))))"

datatype seek_from = SeekStart nat | SeekEnd "64 word" | SeekCurrent "64 word"

definition to_i64 :: "nat \<Rightarrow> 64 word res" where
  "to_i64 n = (if n < 2 ^ 63 then Inr (of_nat n) else Inl (Bail ''out of range integral type conversion attempted''))"

definition start_seek :: "seek_from \<Rightarrow> file_stream \<Rightarrow> torrent_streams \<Rightarrow> (file_stream \<times> torrent_streams) res" where
  "start_seek pos f t =
     res_bind (to_i64 (file_len f)) (\<lambda>end_i64.
     res_bind (case pos of
         SeekStart s \<Rightarrow> to_i64 s
       | SeekEnd e \<Rightarrow> res_bind (to_i64 (file_len f)) (\<lambda>l. Inr (l + e))
       | SeekCurrent off \<Rightarrow> res_bind (to_i64 (position f)) (\<lambda>p. Inr (p + off))) (\<lambda>new_pos.
     if sint new_pos < 0 \<or> sint end_i64 < sint new_pos then Inl (Bail ''invalid seek'')
     else set_position (unat new_pos) f t))"

definition poll_complete :: "file_stream \<Rightarrow> nat" where
  "poll_complete f = position f"

text \<open>
  \<open>stream\<close>: opening a stream on a file of the torrent. \<open>streams_open\<close> and the file list are read under
  the torrent's state (which must be paused or live); the last component says whether
  peers that were not needed are reconnected because the file is not complete.
\<close>

definition stream_open ::
  "file_infos \<Rightarrow> bool \<Rightarrow> nat \<Rightarrow> torrent_streams \<Rightarrow> (file_stream \<times> torrent_streams \<times> bool) res" where
  "stream_open file_infos file_finished fid t =
     res_bind (ok_or (Bail ''invalid file'') (vec_get file_infos fid)) (\<lambda>fi.
       let (sid, t1) = next_id t;
           f = \<lparr>stream_id = sid, file_id = fid, position = 0, file_len = fi_len fi,
                file_torrent_abs_offset = offset_in_torrent fi\<rparr>
       in Inr (f, t1\<lparr>streams := AList.update sid
             \<lparr>ss_file_id = fid, ss_file_len = fi_len fi, file_abs_offset = offset_in_torrent fi,
              ss_position = 0, waker = None\<rparr> (streams t1)\<rparr>, \<not> file_finished))"

subsection \<open>Interleaving\<close>

lemma interleave_front:
  "\<forall>q \<in> set qs. q \<noteq> [] \<Longrightarrow> interleave (qs @ rs) = map hd qs @ interleave (rs @ map tl qs)"
proof (induction qs arbitrary: rs)
  case Nil
  then show ?case by simp
next
  case (Cons q qs)
  then obtain x xs where q: "q = x # xs" by (cases q) auto
  have "interleave ((q # qs) @ rs) = x # interleave (qs @ rs @ [xs])" by (simp add: q)
  also have "interleave (qs @ rs @ [xs]) = map hd qs @ interleave ((rs @ [xs]) @ map tl qs)"
    using Cons.prems by (intro Cons.IH) simp
  finally show ?case by (simp add: q)
qed

lemma interleave_mset: "mset (interleave qs) = mset (concat qs)"
  by (induction qs rule: interleave.induct) auto

text \<open>Streams get their pieces in turn: the pieces wanted by the open streams are those of the
  single streams' queues, none lost and none repeated more often, and they start with one piece of
  each stream that wants one, before any stream gets its second.\<close>

theorem iter_next_pieces_fair:
  assumes "mset (shuffle qs) = mset qs" and "res_mapM (\<lambda>(_, s). stream_queue L s) (streams t) = Inr qs"
    and "\<forall>q \<in> set qs. q \<noteq> []"
  shows "\<exists>ps. iter_next_pieces shuffle L t = Inr ps \<and> mset ps = mset (concat qs)
     \<and> mset (take (length qs) ps) = mset (map hd qs)"
proof -
  let ?qs = "shuffle qs"
  have len: "length ?qs = length qs" using assms(1) by (rule mset_eq_length)
  have ne: "\<forall>q \<in> set ?qs. q \<noteq> []" using assms(1,3) mset_eq_setD by metis
  have "take (length qs) (interleave ?qs) = map hd ?qs"
    using interleave_front [OF ne, of "[]"] len by simp
  moreover have "mset (map hd ?qs) = mset (map hd qs)" using assms(1) by simp
  moreover have "mset (concat ?qs) = mset (concat qs)"
    using assms(1) by (simp add: mset_concat sum_mset_sum_list [symmetric])
  ultimately show ?thesis
    using assms(2) by (auto simp: iter_next_pieces_def interleave_mset)
qed

subsection \<open>Readers\<close>

text \<open>The reader and its entry in the table agree.\<close>

definition stream_ok :: "file_stream \<Rightarrow> torrent_streams \<Rightarrow> bool" where
  "stream_ok f t \<longleftrightarrow> position f \<le> file_len f \<and> distinct (map fst (streams t))
     \<and> (\<exists>s. map_of (streams t) (stream_id f) = Some s \<and> ss_file_id s = file_id f \<and> ss_file_len s = file_len f
          \<and> file_abs_offset s = file_torrent_abs_offset f \<and> ss_position s = position f)"

lemma set_position_ok:
  assumes "stream_ok f t" and "p \<le> file_len f"
  shows "\<exists>f' t'. set_position p f t = Inr (f', t') \<and> stream_ok f' t' \<and> position f' = p
     \<and> stream_id f' = stream_id f \<and> file_id f' = file_id f \<and> file_len f' = file_len f
     \<and> (\<forall>k. k \<noteq> stream_id f \<longrightarrow> map_of (streams t') k = map_of (streams t) k)"
  using assms by (auto simp: stream_ok_def set_position_def update_conv' distinct_update)

lemma set_map_filter_iff: "y \<in> set (List.map_filter g xs) \<longleftrightarrow> (\<exists>x \<in> set xs. g x = Some y)"
  by (force simp: List.map_filter_def)

lemma wake_registered:
  assumes "stream_ok f t" and "compute_current_piece L (position f) (file_torrent_abs_offset f) = Some (piece, r, po)"
  shows "w \<in> set (snd (wake_streams_on_piece_completed piece L (register_waker (stream_id f) w t)))"
proof -
  obtain s where s: "map_of (streams t) (stream_id f) = Some s" "file_abs_offset s = file_torrent_abs_offset f"
    "ss_position s = position f" using assms(1) by (auto simp: stream_ok_def)
  let ?s = "s\<lparr>waker := Some w\<rparr>"
  have "(stream_id f, ?s) \<in> set (streams (register_waker (stream_id f) w t))"
    using s(1) map_of_SomeD [of "AList.update (stream_id f) ?s (streams t)" "stream_id f" ?s]
    by (simp add: register_waker_def update_conv')
  moreover have "map_option fst (current_piece L ?s) = Some piece"
    using assms(2) s(2,3) by (simp add: current_piece_def)
  ultimately show ?thesis
    by (auto simp: wake_streams_on_piece_completed_def Let_def set_map_filter_iff intro!: bexI)
qed

text \<open>Reading from a stream: at the end of the file nothing is read; otherwise the piece under the
  position decides. If it is there, the stream returns the bytes of the file at its position, at least one
  when the buffer is not empty, all of them from that piece, and moves on by as many, in the table
  too. If it is not, the read is pending, and the completion of exactly that piece wakes the reader.\<close>

theorem poll_read_correct:
  assumes L: "lengths_bytes_ok L" and f: "stream_ok f t"
    and fits: "file_torrent_abs_offset f + file_len f \<le> total_length L" "total_pieces L \<le> length bits"
    and pread: "\<And>p n. p + n \<le> file_len f \<Longrightarrow> pread (file_id f) p n = Inr (take n (drop p content))"
  shows "if position f = file_len f then poll_read L (Inr bits) pread w buf_len f t = Inr (Ready [], f, t)
    else \<exists>piece r po. compute_current_piece L (position f) (file_torrent_abs_offset f) = Some (piece, r, po)
      \<and> piece < total_pieces L
      \<and> (if bits ! piece
         then \<exists>n f' t'. poll_read L (Inr bits) pread w buf_len f t = Inr (Ready (take n (drop (position f) content)), f', t')
            \<and> n \<le> buf_len \<and> (0 < buf_len \<longrightarrow> 0 < n) \<and> po + n \<le> piece_length L piece
            \<and> position f' = position f + n \<and> stream_ok f' t'
         else \<exists>t'. poll_read L (Inr bits) pread w buf_len f t = Inr (Pending, f, t')
            \<and> w \<in> set (snd (wake_streams_on_piece_completed piece L t')))"
proof (cases "position f = file_len f")
  case True
  then show ?thesis by (simp add: poll_read_def)
next
  case False
  then have pos: "position f < file_len f" using f by (simp add: stream_ok_def)
  then have "compute_current_piece L (position f) (file_torrent_abs_offset f) \<noteq> None"
    using L fits(1) by (auto simp: lengths_bytes_ok_def)
  then obtain piece r po where cur: "compute_current_piece L (position f) (file_torrent_abs_offset f) = Some (piece, r, po)"
    by auto
  then have pc: "piece < total_pieces L" "po + r = piece_length L piece" "0 < r"
    using L unfolding lengths_bytes_ok_def by blast+
  have idx: "bf_index bits piece = Inr (bits ! piece)" using pc fits(2) by (simp add: bf_index_def)
  show ?thesis
  proof (cases "bits ! piece")
    case True
    define n where "n = min (min buf_len r) (file_len f - position f)"
    have n: "n \<le> buf_len" "0 < buf_len \<longrightarrow> 0 < n" "po + n \<le> piece_length L piece" "position f + n \<le> file_len f"
      using pos pc by (auto simp: n_def)
    obtain f' t' where "set_position (position f + n) f t = Inr (f', t')" "stream_ok f' t'" "position f' = position f + n"
      using set_position_ok [OF f n(4)] by blast
    then have "poll_read L (Inr bits) pread w buf_len f t = Inr (Ready (take n (drop (position f) content)), f', t')"
      using False cur idx True pread [OF n(4)] by (simp add: poll_read_def advance_def n_def [symmetric] Let_def)
    then show ?thesis using False cur pc True n \<open>stream_ok f' t'\<close> \<open>position f' = position f + n\<close> by auto
  next
    case nohave: False
    then have "poll_read L (Inr bits) pread w buf_len f t = Inr (Pending, f, register_waker (stream_id f) w t)"
      using False cur idx by (simp add: poll_read_def)
    then show ?thesis using False cur pc nohave wake_registered [OF f cur] by auto
  qed
qed

subsection \<open>Seeking\<close>

lemma sint_add_nat:
  fixes e :: "64 word"
  assumes "n < 2 ^ 63"
  shows "sint (of_nat n + e) = (if int n + sint e < 2 ^ 63 then int n + sint e else int n + sint e - 2 ^ 64)"
proof -
  have n: "sint (of_nat n :: 64 word) = int n"
    using assms by (simp add: signed_of_nat signed_take_bit_int_eq_self)
  have e: "sint e < 2 ^ 63" "- (2 ^ 63) \<le> sint e"
    using sint_lt [of e] sint_ge [of e] by simp_all
  have "(x :: int) mod 2 ^ 64 = (if x < 2 ^ 64 then x else x - 2 ^ 64)" if "0 \<le> x" "x < 2 ^ 65" for x
  proof (cases "x < 2 ^ 64")
    case True
    then show ?thesis using that(1) by (simp add: mod_pos_pos_trivial)
  next
    case False
    have "x mod 2 ^ 64 = (x - 2 ^ 64) mod 2 ^ 64" by simp
    also have "\<dots> = x - 2 ^ 64" using that False by (intro mod_pos_pos_trivial) auto
    finally show ?thesis using False by simp
  qed
  from this [of "int n + sint e + 2 ^ 63"] show ?thesis
    using n e assms by (simp add: sint_word_ariths signed_take_bit_eq_take_bit_shift take_bit_eq_mod)
qed

definition seek_target :: "file_stream \<Rightarrow> seek_from \<Rightarrow> int" where
  "seek_target f pos = (case pos of SeekStart s \<Rightarrow> int s | SeekEnd e \<Rightarrow> int (file_len f) + sint e
     | SeekCurrent e \<Rightarrow> int (position f) + sint e)"

text \<open>Seeking: for a file shorter than \<open>2 ^ 63\<close> bytes a seek succeeds exactly when the target,
  computed without overflow, lies between the start and the end of the file, and then the stream
  stands there; otherwise it fails and nothing changes. In particular an \<open>i64\<close> overflow of the
  sum is always rejected.\<close>

theorem start_seek_correct:
  assumes "stream_ok f t" and "file_len f < 2 ^ 63"
  shows "if 0 \<le> seek_target f pos \<and> seek_target f pos \<le> int (file_len f)
     then \<exists>f' t'. start_seek pos f t = Inr (f', t') \<and> stream_ok f' t' \<and> int (poll_complete f') = seek_target f pos
     else \<exists>m. start_seek pos f t = Inl (Bail m)"
proof -
  have len: "to_i64 (file_len f) = Inr (of_nat (file_len f))" "sint (of_nat (file_len f) :: 64 word) = int (file_len f)"
    using assms(2) by (simp_all add: to_i64_def signed_of_nat signed_take_bit_int_eq_self)
  have p: "position f < 2 ^ 63" "position f \<le> file_len f" using assms(1,2) by (auto simp: stream_ok_def)
  have goal: "if 0 \<le> x \<and> x \<le> int (file_len f)
      then \<exists>f' t'. (if sint y < 0 \<or> int (file_len f) < sint y then Inl (Bail ''invalid seek'')
          else set_position (unat y) f t) = Inr (f', t') \<and> stream_ok f' t' \<and> int (poll_complete f') = x
      else \<exists>m. (if sint y < 0 \<or> int (file_len f) < sint y then Inl (Bail ''invalid seek'')
          else set_position (unat y) f t) = Inl (Bail m)"
    if y: "sint y = x \<or> 2 ^ 63 \<le> x \<and> sint y < 0" for x :: int and y :: "64 word"
  proof (cases "0 \<le> x \<and> x \<le> int (file_len f)")
    case True
    then have "sint y = x" using y assms(2) by auto
    moreover have un: "int (unat y) = x"
      using calculation True assms(2) uint_sint [of y] by (simp add: take_bit_int_eq_self)
    moreover have "unat y \<le> file_len f" using un True by (metis of_nat_le_iff)
    then obtain f' t' where "set_position (unat y) f t = Inr (f', t')" "stream_ok f' t'" "position f' = unat y"
      using set_position_ok [OF assms(1)] by blast
    ultimately show ?thesis using True by (auto simp: poll_complete_def)
  next
    case False
    then show ?thesis using y assms(2) by auto
  qed
  show ?thesis
  proof (cases pos)
    case (SeekStart n)
    show ?thesis
    proof (cases "n < 2 ^ 63")
      case True
      then have "to_i64 n = Inr (of_nat n)" "sint (of_nat n :: 64 word) = int n"
        by (simp_all add: to_i64_def signed_of_nat signed_take_bit_int_eq_self)
      then show ?thesis
        using goal [of "of_nat n" "int n"] len by (auto simp: start_seek_def SeekStart seek_target_def split: if_splits)
    next
      case False
      then show ?thesis using assms(2) len by (simp add: start_seek_def SeekStart seek_target_def to_i64_def)
    qed
  next
    case (SeekEnd e)
    then show ?thesis
      using goal [of "of_nat (file_len f) + e" "int (file_len f) + sint e"] len sint_add_nat [OF assms(2), of e]
        sint_lt [of e] assms(2)
      by (auto simp: start_seek_def seek_target_def split: if_splits)
  next
    case (SeekCurrent e)
    have "to_i64 (position f) = Inr (of_nat (position f))" using p by (simp add: to_i64_def)
    then show ?thesis
      using goal [of "of_nat (position f) + e" "int (position f) + sint e"] len sint_add_nat [OF p(1), of e]
        sint_lt [of e] p(1) SeekCurrent
      by (auto simp: start_seek_def seek_target_def split: if_splits)
  qed
qed

subsection \<open>The files of open streams\<close>

text \<open>Reading, seeking and closing add no file to the streamed ones; opening adds the file that is opened, and only a file there is.\<close>

lemma streamed_file_ids_update:
  "set (streamed_file_ids (t\<lparr>streams := AList.update k s (streams t)\<rparr>)) \<subseteq> insert (ss_file_id s) (set (streamed_file_ids t))"
proof -
  have "set (map (\<lambda>(_, s). ss_file_id s) (AList.update k s xs)) \<subseteq> insert (ss_file_id s) (set (map (\<lambda>(_, s). ss_file_id s) xs))" for xs
    by (induction xs) auto
  from this [of "streams t"] show ?thesis by (simp add: streamed_file_ids_def)
qed

lemma streamed_file_ids_keep:
  assumes "map_of (streams t) k = Some s0" and "ss_file_id s = ss_file_id s0"
  shows "set (streamed_file_ids (t\<lparr>streams := AList.update k s (streams t)\<rparr>)) \<subseteq> set (streamed_file_ids t)"
proof -
  have "ss_file_id s \<in> set (streamed_file_ids t)" using assms by (force simp: streamed_file_ids_def dest: map_of_SomeD)
  then show ?thesis using streamed_file_ids_update [of k s t] by blast
qed

lemma register_waker_files: "set (streamed_file_ids (register_waker sid w t)) \<subseteq> set (streamed_file_ids t)"
  using streamed_file_ids_keep [of t sid] by (simp add: register_waker_def split: option.split)

lemma set_position_files:
  "set_position p f t = Inr (f', t') \<Longrightarrow> set (streamed_file_ids t') \<subseteq> set (streamed_file_ids t)"
proof (cases "map_of (streams t) (stream_id f)")
  case (Some s)
  assume "set_position p f t = Inr (f', t')"
  with Some have "t' = t\<lparr>streams := AList.update (stream_id f) (s\<lparr>ss_position := p\<rparr>) (streams t)\<rparr>" by (auto simp: set_position_def)
  with streamed_file_ids_keep [OF Some, of "s\<lparr>ss_position := p\<rparr>"] show ?thesis by simp
qed (simp add: set_position_def)

lemma drop_stream_files: "set (streamed_file_ids (snd (drop_stream sid t))) \<subseteq> set (streamed_file_ids t)"
proof -
  have "set (AList.delete sid (streams t)) \<subseteq> set (streams t)" by (simp add: AList.delete_eq)
  then show ?thesis by (auto simp: drop_stream_def streamed_file_ids_def)
qed

lemma start_seek_files:
  "start_seek pos f t = Inr (f', t') \<Longrightarrow> set (streamed_file_ids t') \<subseteq> set (streamed_file_ids t)"
  by (auto simp: start_seek_def res_bind_def split: sum.splits if_splits seek_from.splits dest: set_position_files)

lemma poll_read_files:
  assumes "poll_read L have_bits pread w n f t = Inr (r, f', t')"
  shows "set (streamed_file_ids t') \<subseteq> set (streamed_file_ids t)"
proof -
  have "t' = t \<or> t' = register_waker (stream_id f) w t \<or> (\<exists>p f'. set_position p f t = Inr (f', t'))"
    using assms by (auto simp: poll_read_def res_bind_def advance_def Let_def split: sum.splits if_splits option.splits)
  then show ?thesis using register_waker_files set_position_files by blast
qed

lemma stream_open_files:
  assumes "stream_open fis finished fid t = Inr (f, t', reconnect)"
  shows "fid < length fis" and "set (streamed_file_ids t') \<subseteq> insert fid (set (streamed_file_ids t))"
  using assms streamed_file_ids_update
  by (fastforce simp: stream_open_def res_bind_def ok_or_def vec_get_def next_id_def Let_def streamed_file_ids_def
      split: option.splits if_splits sum.splits)+

definition ex_streams :: torrent_streams where
  "ex_streams = (case stream_open ex_fo_files False 2 \<lparr>next_stream_id = 0, streams = []\<rparr> of
     Inr (_, t, _) \<Rightarrow> (case stream_open ex_fo_files False 0 t of Inr (_, t2, _) \<Rightarrow> t2 | _ \<Rightarrow> t))"

definition ex_stream :: file_stream where
  "ex_stream = \<lparr>stream_id = 1, file_id = 0, position = 0, file_len = 5, file_torrent_abs_offset = 0\<rparr>"

lemma ex_stream_ok: "stream_ok ex_stream ex_streams"
  by (simp add: stream_ok_def ex_stream_def ex_streams_def stream_open_def ex_fo_files_def vec_get_def next_id_def
      Let_def)

theorem iter_next_pieces_fair_witness:
  "\<exists>ps. iter_next_pieces rev ex_lengths ex_streams = Inr ps \<and> mset (take 2 ps) = {#0, 1#}"
proof -
  have q: "res_mapM (\<lambda>(_, s). stream_queue ex_lengths s) (streams ex_streams) = Inr [[1, 2], [0, 1]]"
    by code_simp
  show ?thesis
    using iter_next_pieces_fair [of rev, OF _ q] by (auto simp: numeral_2_eq_2 add_mset_commute)
qed

theorem poll_read_correct_witness:
  "\<exists>n f' t'. poll_read ex_lengths (Inr [True, False, False]) (\<lambda>_ p n. Inr (take n (drop p [1, 2, 3, 4, 5]))) 9 3
      ex_stream ex_streams = Inr (Ready (take n [1, 2, 3, 4, 5]), f', t') \<and> 0 < n \<and> n \<le> 3"
proof -
  have c: "compute_current_piece ex_lengths 0 0 = Some (0, 4, 0)"
    by (simp add: ex_lengths_def ex_piece_length_def)
  have f: "position ex_stream = 0" "file_len ex_stream = 5" "file_torrent_abs_offset ex_stream = 0"
    by (simp_all add: ex_stream_def)
  show ?thesis
    using poll_read_correct [OF ex_lengths_bytes_ok ex_stream_ok, of "[True, False, False]"
        "\<lambda>_ p n. Inr (take n (drop p [1, 2, 3, 4, 5]))" "[1, 2, 3, 4, 5]" 9 3] c f
    by auto
qed

theorem start_seek_correct_witness:
  "(\<exists>f' t'. start_seek (SeekEnd (- 2)) ex_stream ex_streams = Inr (f', t') \<and> poll_complete f' = 3)
   \<and> (\<exists>m. start_seek (SeekCurrent (- 1)) ex_stream ex_streams = Inl (Bail m))"
proof
  have f: "file_len ex_stream < 2 ^ 63" "seek_target ex_stream (SeekEnd (- 2)) = 3"
    "seek_target ex_stream (SeekCurrent (- 1)) = - 1"
    by (simp_all add: ex_stream_def seek_target_def)
  show "\<exists>f' t'. start_seek (SeekEnd (- 2)) ex_stream ex_streams = Inr (f', t') \<and> poll_complete f' = 3"
    using start_seek_correct [OF ex_stream_ok f(1), of "SeekEnd (- 2)"] f by (auto simp: ex_stream_def)
  show "\<exists>m. start_seek (SeekCurrent (- 1)) ex_stream ex_streams = Inl (Bail m)"
    using start_seek_correct [OF ex_stream_ok f(1), of "SeekCurrent (- 1)"] f by (auto simp: ex_stream_def)
qed

end
