(* ===== verification/Live.thy ===== *)
theory Live
  imports Piece_Tracker Peers Streaming
begin

text \<open>
  \<open>src/src/torrent_state/live/mod.rs\<close>: a torrent that is being downloaded or seeded. The locked state, the
  peer table, the storage, the streams and the counters are one record; every method is an operation on
  it, run as one step under the locks the code holds. Channels are queues and logs in the state:
  \<open>lv_queue\<close> is the bounded queue of addresses to dial, \<open>lv_outbox\<close> what was sent to peers,
  \<open>lv_events\<close> notifications, wake-ups, broadcasts and spawned tasks. Parameters of the environment stand
  for code outside the repository: lengths and the chunk size, SHA-1, the metadata's hashes, the storage, the shuffle,
  the backoff delays, flushing the bit field to disk. \<open>now\<close> and fresh channel and counter numbers are arguments.
\<close>

record atomic_stats =
  st_have_bytes :: u64
  st_downloaded_and_checked_bytes :: u64
  st_downloaded_and_checked_pieces :: u64
  st_uploaded_bytes :: u64
  st_fetched_bytes :: u64
  st_total_piece_download_ms :: u64

datatype event =
    EvFinished
  | EvNewPieces
  | EvRediscovery
  | EvWake nat
  | EvFlush bool
  | EvFatal error
  | EvHave nat
  | EvSpawnIncoming socket_addr
  | EvSpawnWait socket_addr nat
  | EvSpawnPex socket_addr tx
  | EvBitfieldNotify
  | EvUnchokeNotify

record 's live_env =
  le_lengths :: lengths
  le_file_infos :: file_infos
  le_private :: bool
  le_disable_upload :: bool
  le_info_bytes :: "byte list"
  le_chunk_size :: nat
  le_ops :: "'s store_ops"
  le_as_ioslices :: "byte list \<Rightarrow> byte list \<times> byte list"
  le_sha1 :: "byte list \<Rightarrow> digest"
  le_compare_hash :: "nat \<Rightarrow> digest \<Rightarrow> bool option"
  le_shuffle :: "nat list list \<Rightarrow> nat list list"
  le_backoff :: "nat \<Rightarrow> nat option"
  le_flush :: "bool \<Rightarrow> unit res"
  le_fatal_rx_alive :: bool

record 's live =
  lv_peers :: peer_states
  lv_pieces :: "piece_tracker option"
  lv_file_priorities :: file_priorities
  lv_fatal_errors_tx :: bool
  unflushed_bitv_bytes :: u64
  lv_files :: 's
  lv_stats :: atomic_stats
  lv_session_fetched :: u64
  lv_session_uploaded :: u64
  lv_permits :: nat
  lv_queue :: "socket_addr list"
  lv_queue_closed :: bool
  lv_streams :: torrent_streams
  lv_upload_queue :: "(tx \<times> chunk_info) list"
  lv_cancelled :: bool
  lv_outbox :: outbox
  lv_events :: "event list"

type_synonym ('s, 'a) lm = "('s live, 'a) sm"

definition FLUSH_BITV_EVERY_BYTES :: u64 where
  "FLUSH_BITV_EVERY_BYTES = 16 * 1024 * 1024"

definition PEER_QUEUE_CAPACITY :: nat where
  "PEER_QUEUE_CAPACITY = 10000"

definition MIN_PEERS_THRESHOLD :: nat where
  "MIN_PEERS_THRESHOLD = 5"

definition FROZEN_PEER_RETRY_INTERVAL :: nat where
  "FROZEN_PEER_RETRY_INTERVAL = 600 * 10 ^ 9"

definition make_piece_bitfield :: "lengths \<Rightarrow> bf" where
  "make_piece_bitfield L = bf_zero (piece_bitfield_bytes L)"

definition emit :: "event \<Rightarrow> ('s, unit) lm" where
  "emit e = sm_modify (\<lambda>s. s\<lparr>lv_events := lv_events s @ [e]\<rparr>)"

definition send_all :: "outbox \<Rightarrow> ('s, unit) lm" where
  "send_all out = sm_modify (\<lambda>s. s\<lparr>lv_outbox := lv_outbox s @ out\<rparr>)"

definition modify_peers :: "(peer_states \<Rightarrow> peer_states) \<Rightarrow> ('s, unit) lm" where
  "modify_peers g = sm_modify (\<lambda>s. s\<lparr>lv_peers := g (lv_peers s)\<rparr>)"

text \<open>A peer table operation that also returns something.\<close>

definition on_peers :: "(peer_states \<Rightarrow> 'r \<times> peer_states) \<Rightarrow> ('s, 'r) lm" where
  "on_peers g s = (case g (lv_peers s) of (r, ps) \<Rightarrow> (Inr r, s\<lparr>lv_peers := ps\<rparr>))"

subsection \<open>The locked state\<close>

definition get_chunks :: "'s live \<Rightarrow> chunk_tracker res" where
  "get_chunks s = ok_or ChunkTrackerEmpty (map_option chunks (lv_pieces s))"

definition get_pieces :: "'s live \<Rightarrow> piece_tracker res" where
  "get_pieces s = ok_or ChunkTrackerEmpty (lv_pieces s)"

text \<open>\<open>get_pieces_mut()?\<close> followed by an operation of the piece tracker.\<close>

definition with_pieces_mut :: "(piece_tracker \<Rightarrow> ('a \<times> piece_tracker) res) \<Rightarrow> ('s, 'a) lm" where
  "with_pieces_mut op s =
     (case lv_pieces s of
        None \<Rightarrow> (Inl ChunkTrackerEmpty, s)
      | Some pt \<Rightarrow> (case op pt of Inl e \<Rightarrow> (Inl e, s) | Inr (x, pt') \<Rightarrow> (Inr x, s\<lparr>lv_pieces := Some pt'\<rparr>)))"

definition try_flush_bitv :: "'s live_env \<Rightarrow> bool \<Rightarrow> ('s, unit) lm" where
  "try_flush_bitv E flush_async s =
     (if unflushed_bitv_bytes s = 0 then (Inr (), s)
      else case lv_pieces s of
        None \<Rightarrow> (Inr (), s\<lparr>unflushed_bitv_bytes := 0\<rparr>)
      | Some _ \<Rightarrow>
        (case le_flush E flush_async of
           Inl _ \<Rightarrow> (Inr (), s)
         | Inr _ \<Rightarrow> (Inr (), s\<lparr>unflushed_bitv_bytes := 0, lv_events := lv_events s @ [EvFlush flush_async]\<rparr>)))"

subsection \<open>Starting\<close>

text \<open>\<open>sort_unstable_by_key\<close> on the file names; \<open>le\<close> is the order of paths.\<close>

definition initial_file_priorities :: "(string \<Rightarrow> string \<Rightarrow> bool) \<Rightarrow> file_infos \<Rightarrow> file_priorities" where
  "initial_file_priorities le fis =
     fold (\<lambda>i acc. takeWhile (\<lambda>j. le (relative_filename (fis ! j)) (relative_filename (fis ! i))) acc
             @ i # dropWhile (\<lambda>j. le (relative_filename (fis ! j)) (relative_filename (fis ! i))) acc)
       [0..<length fis] []"

definition live_state_new ::
  "(string \<Rightarrow> string \<Rightarrow> bool) \<Rightarrow> agg_stats \<Rightarrow> nat option \<Rightarrow> file_infos \<Rightarrow> chunk_tracker \<Rightarrow> 's \<Rightarrow> torrent_streams
   \<Rightarrow> u64 \<Rightarrow> u64 \<Rightarrow> 's live" where
  "live_state_new le session peer_limit fis ct files strms sess_fetched sess_uploaded =
     \<lparr>lv_peers = \<lparr>session_stats = session, ps_stats = agg_zero, live_outgoing_peers = {}, states = [],
        ctrs = (\<lambda>_. peer_counters_default)\<rparr>,
      lv_pieces = Some (pt_new ct),
      lv_file_priorities = initial_file_priorities le fis,
      lv_fatal_errors_tx = True,
      unflushed_bitv_bytes = 0,
      lv_files = files,
      lv_stats = \<lparr>st_have_bytes = of_nat (have_bytes (hns ct)), st_downloaded_and_checked_bytes = 0,
        st_downloaded_and_checked_pieces = 0, st_uploaded_bytes = 0, st_fetched_bytes = 0,
        st_total_piece_download_ms = 0\<rparr>,
      lv_session_fetched = sess_fetched, lv_session_uploaded = sess_uploaded,
      lv_permits = (case peer_limit of None \<Rightarrow> 200 | Some n \<Rightarrow> n),
      lv_queue = [], lv_queue_closed = False, lv_streams = strms, lv_upload_queue = [],
      lv_cancelled = False, lv_outbox = [], lv_events = []\<rparr>"

subsection \<open>Peers\<close>

datatype add_incoming_peer_result = Added | AlreadyActive | ConcurrencyLimitReached

definition inc_incoming :: "peer_counters \<Rightarrow> peer_counters" where
  "inc_incoming c = c\<lparr>incoming_connections := atomic_inc (incoming_connections c)\<rparr>"

text \<open>The \<open>Vacant\<close> branch: only the torrent's own \<open>seen\<close> counter goes up.\<close>

definition add_incoming_vacant ::
  "socket_addr \<Rightarrow> id20 \<Rightarrow> tx \<Rightarrow> connection_kind \<Rightarrow> nat \<Rightarrow> nat \<Rightarrow> peer_states \<Rightarrow> peer_states" where
  "add_incoming_vacant a pid t kind cid now ps =
     (let ps1 = ps\<lparr>ps_stats := agg_inc_seen (ps_stats ps)\<rparr>;
          (p, ps2) = new_live_for_incoming_connection a pid t kind cid now ps1
      in ps2\<lparr>states := AList.update a p (states ps2)\<rparr>)"

definition add_incoming_peer ::
  "socket_addr \<Rightarrow> id20 \<Rightarrow> connection_kind \<Rightarrow> tx \<Rightarrow> nat \<Rightarrow> nat \<Rightarrow> ('s, add_incoming_peer_result) lm" where
  "add_incoming_peer a pid kind t cid now s =
     (if lv_permits s = 0 then
        (Inr ConcurrencyLimitReached,
         (case with_peer a counters (lv_peers s) of None \<Rightarrow> s
          | Some c \<Rightarrow> s\<lparr>lv_peers := upd_counters c inc_incoming (lv_peers s)\<rparr>))
      else case map_of (states (lv_peers s)) a of
        Some _ \<Rightarrow>
          (case with_peer_mut a (incoming_connection pid t kind now) (lv_peers s) of
             (Some (Some _), ps) \<Rightarrow>
               (Inr Added, s\<lparr>lv_permits := lv_permits s - 1,
                 lv_peers := upd_counters (the (with_peer a counters ps)) inc_incoming ps,
                 lv_events := lv_events s @ [EvSpawnIncoming a]\<rparr>)
           | (_, ps) \<Rightarrow> (Inr AlreadyActive, s\<lparr>lv_peers := ps\<rparr>))
      | None \<Rightarrow>
        (Inr Added, s\<lparr>lv_permits := lv_permits s - 1,
           lv_peers := upd_counters cid inc_incoming (add_incoming_vacant a pid t kind cid now (lv_peers s)),
           lv_events := lv_events s @ [EvSpawnIncoming a]\<rparr>))"

definition set_peer_live :: "peer_handle \<Rightarrow> id20 \<Rightarrow> connection_kind \<Rightarrow> nat \<Rightarrow> ('s, unit) lm" where
  "set_peer_live a pid kind now =
     sm_bind (on_peers (with_peer_mut a (connecting_to_live pid kind now))) (\<lambda>_. sm_ret ())"

text \<open>\<open>peer_queue_tx.try_send\<close>.\<close>

definition try_send_queue :: "socket_addr \<Rightarrow> ('s, bool) lm" where
  "try_send_queue a s =
     (if lv_queue_closed s \<or> PEER_QUEUE_CAPACITY \<le> length (lv_queue s) then (Inr False, s)
      else (Inr True, s\<lparr>lv_queue := lv_queue s @ [a]\<rparr>))"

definition add_peer_if_not_seen :: "socket_addr \<Rightarrow> nat \<Rightarrow> nat \<Rightarrow> ('s, bool) lm" where
  "add_peer_if_not_seen a cid now =
     sm_bind (on_peers (add_if_not_seen a cid now)) (\<lambda>r.
       case r of None \<Rightarrow> sm_ret False
       | Some _ \<Rightarrow> sm_bind (try_send_queue a) (\<lambda>_. sm_ret True))"

subsection \<open>Progress\<close>

definition get_hns :: "'s live \<Rightarrow> have_needed_selected option" where
  "get_hns s = (case get_chunks s of Inl _ \<Rightarrow> None | Inr c \<Rightarrow> Some (hns c))"

definition live_is_finished :: "'s live \<Rightarrow> bool" where
  "live_is_finished s = (case get_hns s of None \<Rightarrow> False | Some h \<Rightarrow> hns_finished h)"

definition transmit_haves :: "nat \<Rightarrow> ('s, unit) lm" where
  "transmit_haves i = emit (EvHave i)"

text \<open>\<open>Iterator::any\<close> with a body that indexes: stops at the first hit or panic.\<close>

fun res_any :: "('x \<Rightarrow> bool res) \<Rightarrow> 'x list \<Rightarrow> bool res" where
  "res_any f [] = Inr False"
| "res_any f (x # xs) = res_bind (f x) (\<lambda>b. if b then Inr True else res_any f xs)"

definition has_active_streams_unfinished_files :: "'s live_env \<Rightarrow> 's live \<Rightarrow> bool res" where
  "has_active_streams_unfinished_files E s =
     (case get_chunks s of
        Inl _ \<Rightarrow> Inr False
      | Inr c \<Rightarrow> res_any (\<lambda>fid. res_bind (vec_index (le_file_infos E) fid) (\<lambda>fi. Inr (\<not> is_file_finished fi c)))
          (streamed_file_ids (lv_streams s)))"

definition is_finished_and_no_active_streams :: "'s live_env \<Rightarrow> 's live \<Rightarrow> bool res" where
  "is_finished_and_no_active_streams E s =
     (if live_is_finished s
      then res_bind (has_active_streams_unfinished_files E s) (\<lambda>b. Inr (\<not> b)) else Inr False)"

definition get_active_peer_count :: "'s live \<Rightarrow> u32" where
  "get_active_peer_count s = ag_live (ps_stats (lv_peers s)) + ag_connecting (ps_stats (lv_peers s))"

subsection \<open>Operations on every peer\<close>

definition disconnect_if_full :: "lengths \<Rightarrow> nat \<Rightarrow> peer_handle \<Rightarrow> ('s, unit) lm" where
  "disconnect_if_full L now a s =
     (case map_of (states (lv_peers s)) a of
        Some p \<Rightarrow>
          (case pstate p of
             Live l \<Rightarrow>
               if has_full_torrent (total_pieces L) l
               then (case with_peer_mut a (set_not_needed now) (lv_peers s) of
                       (_, ps) \<Rightarrow> (Inr (), s\<lparr>lv_peers := ps, lv_outbox := lv_outbox s @ [(live_tx l, WrDisconnect)]\<rparr>))
               else (Inr (), s)
           | _ \<Rightarrow> (Inr (), s))
      | None \<Rightarrow> (Inr (), s))"

definition disconnect_all_peers_that_have_full_torrent :: "lengths \<Rightarrow> nat \<Rightarrow> ('s, unit) lm" where
  "disconnect_all_peers_that_have_full_torrent L now s =
     sm_fold (disconnect_if_full L now) (map fst (states (lv_peers s))) s"

text \<open>The lazy chain over the table: it stops at the first address the queue does not take.\<close>

fun reconnect_loop :: "nat \<Rightarrow> peer_handle list \<Rightarrow> ('s, unit) lm" where
  "reconnect_loop now [] s = (Inr (), s)"
| "reconnect_loop now (a # as) s =
     (case on_peers (with_peer_mut a (reconnect_not_needed_peer now)) s of
        (Inr (Some (Some target)), s1) \<Rightarrow>
          (case try_send_queue target s1 of
             (Inr True, s2) \<Rightarrow> reconnect_loop now as s2
           | (_, s2) \<Rightarrow> (Inr (), s2))
      | (_, s1) \<Rightarrow> reconnect_loop now as s1)"

definition reconnect_all_not_needed_peers :: "nat \<Rightarrow> ('s, unit) lm" where
  "reconnect_all_not_needed_peers now s = reconnect_loop now (map fst (states (lv_peers s))) s"

definition dead_to_queued_reset :: "nat \<Rightarrow> peer \<Rightarrow> peer_states \<Rightarrow> socket_addr option \<times> peer \<times> peer_states" where
  "dead_to_queued_reset now p ps =
     (case pstate p of
        Dead \<Rightarrow> let (_, p1, ps1) = reset_backoff p ps; (_, p2, ps2) = set_state Queued now p1 ps1
                in (Some (addr p2), p2, ps2)
      | _ \<Rightarrow> (None, p, ps))"

fun requeue_loop :: "nat \<Rightarrow> peer_handle list \<Rightarrow> ('s, unit) lm" where
  "requeue_loop now [] s = (Inr (), s)"
| "requeue_loop now (a # as) s =
     (case on_peers (with_peer_mut a (dead_to_queued_reset now)) s of
        (Inr (Some (Some target)), s1) \<Rightarrow>
          (case try_send_queue target s1 of
             (Inr True, s2) \<Rightarrow> requeue_loop now as s2
           | (_, s2) \<Rightarrow> (Inr (), s2))
      | (_, s1) \<Rightarrow> requeue_loop now as s1)"

definition requeue_dead_peers :: "nat \<Rightarrow> ('s, unit) lm" where
  "requeue_dead_peers now s = requeue_loop now (map fst (states (lv_peers s))) s"

subsection \<open>Pausing, fatal errors, selection, completed pieces\<close>

definition live_pause :: "'s live_env \<Rightarrow> ('s, chunk_tracker \<times> 's) lm" where
  "live_pause E s =
     (let s1 = s\<lparr>lv_cancelled := True, lv_fatal_errors_tx := False\<rparr> in
      case lv_pieces s1 of
        None \<Rightarrow> (Inl (Bail ''bug: pausing already paused torrent''), s1)
      | Some pt \<Rightarrow>
        let s2 = s1\<lparr>lv_pieces := None\<rparr> in
        case into_chunks pt of
          Inl e \<Rightarrow> (Inl e, s2)
        | Inr ct \<Rightarrow>
          (case so_take (le_ops E) (lv_files s2) of
             (Inl e, f) \<Rightarrow> (Inl e, s2\<lparr>lv_files := f\<rparr>)
           | (Inr taken, f) \<Rightarrow> (Inr (ct, taken), s2\<lparr>lv_files := f\<rparr>)))"

definition on_fatal_error :: "'s live_env \<Rightarrow> error \<Rightarrow> ('s, unit) lm" where
  "on_fatal_error E e s =
     (if \<not> lv_fatal_errors_tx s then (Inl (Bail ''fatal_errors_tx already taken''), s)
      else let s1 = s\<lparr>lv_fatal_errors_tx := False\<rparr>;
               s2 = (if le_fatal_rx_alive E then s1\<lparr>lv_events := lv_events s1 @ [EvFatal e]\<rparr>
                     else s1\<lparr>lv_cancelled := True\<rparr>)
           in (Inl (Bail ''fatal error: ''), s2))"

definition live_update_only_files :: "'s live_env \<Rightarrow> nat set \<Rightarrow> nat \<Rightarrow> ('s, unit) lm" where
  "live_update_only_files E only_files now =
     sm_bind (with_pieces_mut (pt_update_only_files (le_file_infos E) only_files)) (\<lambda>h.
       if hns_finished h then sm_ret () else reconnect_all_not_needed_peers now)"

definition files_of_piece :: "file_infos \<Rightarrow> nat \<Rightarrow> (nat \<times> file_info) list" where
  "files_of_piece fis i =
     (let inside = (\<lambda>(_, fi). fst (piece_range fi) \<le> i \<and> i < snd (piece_range fi))
      in takeWhile inside (dropWhile (\<lambda>x. \<not> inside x) (enum fis)))"

definition wake_streams :: "lengths \<Rightarrow> nat \<Rightarrow> ('s, unit) lm" where
  "wake_streams L i s =
     (case wake_streams_on_piece_completed i L (lv_streams s) of
        (t, woken) \<Rightarrow> (Inr (), s\<lparr>lv_streams := t, lv_events := lv_events s @ map EvWake woken\<rparr>))"

definition maybe_flush :: "'s live_env \<Rightarrow> ('s, unit) lm" where
  "maybe_flush E s =
     (if FLUSH_BITV_EVERY_BYTES \<le> unflushed_bitv_bytes s then try_flush_bitv E True s else (Inr (), s))"

text \<open>The part of \<open>on_piece_completed\<close> after the bit field was flushed.\<close>

definition on_piece_completed_finish :: "'s live_env \<Rightarrow> nat \<Rightarrow> nat \<Rightarrow> ('s, unit) lm" where
  "on_piece_completed_finish E i now =
     sm_bind (\<lambda>s. (get_chunks s, s)) (\<lambda>c.
       if \<not> is_finished c then sm_ret ()
       else sm_bind (sm_res (bf_index (selected c) i)) (\<lambda>sel.
         sm_bind (if sel then try_flush_bitv E False else sm_ret ()) (\<lambda>_.
         sm_bind (emit EvFinished) (\<lambda>_.
         sm_bind (\<lambda>s. (has_active_streams_unfinished_files E s, s)) (\<lambda>active.
           if active then sm_ret ()
           else disconnect_all_peers_that_have_full_torrent (le_lengths E) now)))))"

definition on_piece_completed :: "'s live_env \<Rightarrow> nat \<Rightarrow> nat \<Rightarrow> ('s, unit) lm" where
  "on_piece_completed E i now =
     sm_bind (\<lambda>s. (Inr (), s\<lparr>lv_files := snd (so_on_piece_completed (le_ops E) (lv_files s) i)\<rparr>)) (\<lambda>_.
     sm_bind (\<lambda>s. (get_pieces s, s)) (\<lambda>_.
     sm_bind (sm_fold (\<lambda>(idx, fi). sm_bind (with_pieces_mut (pt_update_file_have_on_piece_completed i idx fi)) (\<lambda>_. sm_ret ()))
       (files_of_piece (le_file_infos E) i)) (\<lambda>_.
     sm_bind (wake_streams (le_lengths E) i) (\<lambda>_.
     sm_bind (sm_modify (\<lambda>s. s\<lparr>unflushed_bitv_bytes :=
       unflushed_bitv_bytes s + of_nat (piece_length (le_lengths E) i)\<rparr>)) (\<lambda>_.
     sm_bind (maybe_flush E) (\<lambda>_. on_piece_completed_finish E i now))))))"

end
