(* ===== verification/Bitv_Files.thy ===== *)
theory Bitv_Files
  imports File_Ops
begin

text \<open>
  \<open>src/src/bitv.rs\<close> and the \<open>BitVFactory\<close> part of \<open>src/src/session_persistence/json.rs\<close>: the bit field of the
  pieces we have, kept in memory and written to disk by a flusher task. The file system is a map from
  file names to bytes, CRC32 a parameter. A step of the flusher is one system call, so that the
  states between two steps are those a crash can leave behind.
\<close>

unbundle bit_operations_syntax

definition BITV_MAGIC :: "byte list" where
  "BITV_MAGIC = [0x52, 0x42, 0x56, 0x02]"

definition BITV_HEADER_LEN :: nat where
  "BITV_HEADER_LEN = 8"

text \<open>\<open>u32::to_le_bytes\<close> and \<open>u32::from_le_bytes\<close>.\<close>

definition to_le_bytes :: "u32 \<Rightarrow> byte list" where
  "to_le_bytes w = map (\<lambda>i. ucast (drop_bit (8 * i) w)) [0..<4]"

definition from_le_bytes :: "byte list \<Rightarrow> u32" where
  "from_le_bytes bs = foldr (\<lambda>b acc. ucast b OR push_bit 8 acc) bs 0"

definition bitv_with_header :: "(byte list \<Rightarrow> u32) \<Rightarrow> byte list \<Rightarrow> byte list" where
  "bitv_with_header crc payload = BITV_MAGIC @ to_le_bytes (crc payload) @ payload"

record bitv_read_result =
  br_payload :: "byte list"
  checksum_verified :: bool
  has_header :: bool

definition read_bitv_file :: "(byte list \<Rightarrow> u32) \<Rightarrow> byte list \<Rightarrow> bitv_read_result" where
  "read_bitv_file crc buf =
     (if BITV_HEADER_LEN \<le> length buf \<and> take 4 buf = BITV_MAGIC
      then let stored_crc = from_le_bytes (take 4 (drop 4 buf)); payload = drop BITV_HEADER_LEN buf
           in \<lparr>br_payload = payload, checksum_verified = (stored_crc = crc payload), has_header = True\<rparr>
      else \<lparr>br_payload = buf, checksum_verified = False, has_header = False\<rparr>)"

type_synonym file_name = string
type_synonym file_system = "file_name \<rightharpoonup> byte list"

text \<open>The outcomes of the system calls of one operation; \<open>io_written\<close> is how much a failed write left behind.\<close>

record bitv_io =
  io_read_ok :: bool
  io_open_ok :: bool
  io_write_ok :: bool
  io_written :: nat
  io_rename_ok :: bool
  io_remove_ok :: bool

definition io_fine :: bitv_io where
  "io_fine = \<lparr>io_read_ok = True, io_open_ok = True, io_write_ok = True, io_written = 0, io_rename_ok = True, io_remove_ok = True\<rparr>"

datatype load_error = NotFound | ReadFailed | CrcMismatch

definition disk_backed_bitv_new ::
  "(byte list \<Rightarrow> u32) \<Rightarrow> bitv_io \<Rightarrow> file_name \<Rightarrow> file_system \<Rightarrow> load_error + byte list" where
  "disk_backed_bitv_new crc io filename fs =
     (case fs filename of
        None \<Rightarrow> Inl NotFound
      | Some raw \<Rightarrow>
        if \<not> io_read_ok io then Inl ReadFailed
        else let r = read_bitv_file crc raw in
        if has_header r \<and> \<not> checksum_verified r then Inl CrcMismatch else Inr (br_payload r))"

subsection \<open>The JSON store's bit field factory\<close>

text \<open>\<open>load\<close>: a missing or damaged file means that everything is checked again.\<close>

definition json_load :: "(byte list \<Rightarrow> u32) \<Rightarrow> bitv_io \<Rightarrow> file_name \<Rightarrow> file_system \<Rightarrow> byte list option res" where
  "json_load crc io filename fs =
     (case disk_backed_bitv_new crc io filename fs of
        Inr bits \<Rightarrow> Inr (Some bits)
      | Inl NotFound \<Rightarrow> Inr None
      | Inl CrcMismatch \<Rightarrow> Inr None
      | Inl ReadFailed \<Rightarrow> Inl (Bail ''error reading''))"

definition json_clear :: "bitv_io \<Rightarrow> file_name \<Rightarrow> file_system \<Rightarrow> unit res \<times> file_system" where
  "json_clear io filename fs =
     (if fs filename = None \<or> \<not> io_remove_ok io then (Inl (Bail ''error removing''), fs)
      else (Inr (), fs(filename := None)))"

definition json_store_initial_check ::
  "(byte list \<Rightarrow> u32) \<Rightarrow> bitv_io \<Rightarrow> file_name \<Rightarrow> byte list \<Rightarrow> file_system \<Rightarrow> byte list res \<times> file_system" where
  "json_store_initial_check crc io filename b fs =
     (let tmp = filename @ ''.init_tmp''; data = bitv_with_header crc b in
      if \<not> io_open_ok io then (Inl (Bail ''error opening''), fs)
      else if \<not> io_write_ok io then (Inl (Bail ''error writing bitslice''), fs(tmp \<mapsto> take (io_written io) data))
      else let fs1 = fs(tmp \<mapsto> data) in
      if \<not> io_rename_ok io then (Inl (Bail ''error renaming''), fs1)
      else let fs2 = fs1(filename := fs1 tmp, tmp := None) in
        case disk_backed_bitv_new crc io filename fs2 of
        Inr bits \<Rightarrow> (Inr bits, fs2)
      | Inl _ \<Rightarrow> (Inl (Bail ''error constructing MmapBitV from file''), fs2))"

subsection \<open>The flusher task\<close>

datatype flusher_phase = Idle | Writing "byte list" nat | Stopped

text \<open>\<open>fl_sent\<close> is a ghost: every snapshot that was ever sent to the flusher.\<close>

record flusher =
  fl_fs :: file_system
  fl_queue :: "byte list list"
  fl_phase :: flusher_phase
  fl_sent :: "byte list set"

text \<open>\<open>with_extension("bitv.tmp")\<close>, for file names that end in \<open>.bitv\<close>.\<close>

definition tmp_path :: "file_name \<Rightarrow> file_name" where
  "tmp_path filename = filename @ ''.tmp''"

text \<open>\<open>flush\<close> (and the final one of \<open>Drop\<close>) puts a snapshot in the queue of the flusher, unless that task is gone.\<close>

definition bitv_flush :: "byte list \<Rightarrow> flusher \<Rightarrow> unit res \<times> flusher" where
  "bitv_flush snapshot s =
     (if fl_phase s = Stopped then (Inl (Bail ''flusher task is dead''), s)
      else (Inr (), s\<lparr>fl_queue := fl_queue s @ [snapshot], fl_sent := insert snapshot (fl_sent s)\<rparr>))"

text \<open>After a failed call the task tries to remove both files, and ends.\<close>

inductive flusher_step :: "(byte list \<Rightarrow> u32) \<Rightarrow> file_name \<Rightarrow> flusher \<Rightarrow> flusher \<Rightarrow> bool" for crc :: "byte list \<Rightarrow> u32" and fname :: file_name where
  send: "bitv_flush snapshot s = (Inr (), s') \<Longrightarrow> flusher_step crc fname s s'"
| begin_write: "fl_phase s = Idle \<Longrightarrow> fl_queue s \<noteq> [] \<Longrightarrow>
    flusher_step crc fname s (s\<lparr>fl_fs := (fl_fs s)(tmp_path fname \<mapsto> []), fl_queue := [], fl_phase := Writing (last (fl_queue s)) 0\<rparr>)"
| sys_write: "fl_phase s = Writing snapshot n \<Longrightarrow> n < m \<Longrightarrow> m \<le> length (bitv_with_header crc snapshot) \<Longrightarrow>
    flusher_step crc fname s (s\<lparr>fl_fs := (fl_fs s)(tmp_path fname \<mapsto> take m (bitv_with_header crc snapshot)), fl_phase := Writing snapshot m\<rparr>)"
| sys_rename: "fl_phase s = Writing snapshot n \<Longrightarrow> n = length (bitv_with_header crc snapshot) \<Longrightarrow>
    flusher_step crc fname s (s\<lparr>fl_fs := (fl_fs s)(fname := fl_fs s (tmp_path fname), tmp_path fname := None), fl_phase := Idle\<rparr>)"
| io_error: "fl_phase s = Writing snapshot n \<Longrightarrow>
    flusher_step crc fname s (s\<lparr>fl_fs := (fl_fs s)
      (tmp_path fname := (if rm_tmp then None else fl_fs s (tmp_path fname)),
       fname := (if rm_file then None else fl_fs s fname)), fl_phase := Stopped\<rparr>)"

inductive_cases flusher_stepE: "flusher_step crc fname s s'"

subsection \<open>Round trip\<close>

lemma to_le_bytes_eq: "to_le_bytes w = [ucast w, ucast (drop_bit 8 w), ucast (drop_bit 16 w), ucast (drop_bit 24 w)]"
  by (simp add: to_le_bytes_def upt_rec)

lemma from_to_le_bytes [simp]: "from_le_bytes (to_le_bytes w) = w"
proof (rule bit_word_eqI)
  fix n assume "n < LENGTH(32)"
  then have "n < 32" by simp
  then show "bit (from_le_bytes (to_le_bytes w)) n = bit w n"
    by (cases "n < 8"; cases "n < 16"; cases "n < 24")
      (auto simp: from_le_bytes_def to_le_bytes_eq bit_or_iff bit_push_bit_iff bit_ucast_iff bit_drop_bit_eq)
qed

lemma length_to_le_bytes [simp]: "length (to_le_bytes w) = 4"
  by (simp add: to_le_bytes_def)

lemma read_with_header:
  "read_bitv_file crc (bitv_with_header crc payload)
     = \<lparr>br_payload = payload, checksum_verified = True, has_header = True\<rparr>"
  by (simp add: read_bitv_file_def bitv_with_header_def BITV_MAGIC_def BITV_HEADER_LEN_def Let_def)

lemma store_then_load:
  assumes "json_store_initial_check crc io fname b fs = (r, fs')"
  shows "r = Inr b' \<Longrightarrow> b' = b \<and> json_load crc io fname fs' = Inr (Some b)"
    and "r = Inl e \<Longrightarrow> io_rename_ok io \<and> io_write_ok io \<and> io_open_ok io \<or> fs' fname = fs fname"
  using assms
  by (auto simp: json_store_initial_check_def json_load_def disk_backed_bitv_new_def read_with_header Let_def
      split: if_splits)

subsection \<open>Crash safety\<close>

definition flusher_init :: "(byte list \<Rightarrow> u32) \<Rightarrow> file_name \<Rightarrow> flusher \<Rightarrow> bool" where
  "flusher_init crc fname s \<longleftrightarrow> fl_phase s = Idle \<and> fl_queue s = []
     \<and> (\<exists>b. fl_sent s = {b} \<and> fl_fs s fname = Some (bitv_with_header crc b))"

definition flusher_inv :: "(byte list \<Rightarrow> u32) \<Rightarrow> file_name \<Rightarrow> flusher \<Rightarrow> bool" where
  "flusher_inv crc fname s \<longleftrightarrow>
     (case fl_fs s fname of
        None \<Rightarrow> fl_phase s = Stopped
      | Some raw \<Rightarrow> raw \<in> bitv_with_header crc ` fl_sent s)
   \<and> set (fl_queue s) \<subseteq> fl_sent s
   \<and> (\<forall>b n. fl_phase s = Writing b n \<longrightarrow> b \<in> fl_sent s
        \<and> fl_fs s (tmp_path fname) = Some (take n (bitv_with_header crc b)))"

lemma tmp_path_neq [simp]: "tmp_path fname \<noteq> fname" "fname \<noteq> tmp_path fname"
  by (simp_all add: tmp_path_def)

interpretation flusher_sys: invariant_system "flusher_init crc fname" "flusher_step crc fname" "flusher_inv crc fname"
  for crc fname
proof unfold_locales
  show "flusher_inv crc fname s" if "flusher_init crc fname s" for s
    using that unfolding flusher_init_def flusher_inv_def by (elim conjE exE) simp
  show "flusher_inv crc fname t" if "flusher_inv crc fname s" and "flusher_step crc fname s t" for s t
    using that(2,1)
  proof cases
    case (send snapshot)
    then show ?thesis using that(1)
      by (auto simp: bitv_flush_def flusher_inv_def split: if_splits option.splits)
  next
    case begin_write
    then have "last (fl_queue s) \<in> fl_sent s" using that(1) by (auto simp: flusher_inv_def)
    then show ?thesis using begin_write that(1) by (auto simp: flusher_inv_def split: option.splits)
  qed (auto simp: flusher_inv_def split: option.splits)
qed

text \<open>C36. The bit field on disk survives a crash: whenever the process stops, between or within the writes of the
  flusher, the next start finds a complete bit field that was current at some flush, never a torn one.
  Only after a failed write is there no file, and the next start checks all data again.\<close>

theorem bitv_crash_safe:
  assumes "reach (flusher_init crc fname) (flusher_step crc fname) s"
  shows "case disk_backed_bitv_new crc io_fine fname (fl_fs s) of
      Inr bits \<Rightarrow> bits \<in> fl_sent s
    | Inl NotFound \<Rightarrow> fl_phase s = Stopped
    | Inl CrcMismatch \<Rightarrow> False
    | Inl ReadFailed \<Rightarrow> False"
  using flusher_sys.reach_inv [OF assms]
  by (auto simp: flusher_inv_def disk_backed_bitv_new_def read_with_header io_fine_def Let_def split: option.splits)

text \<open>A flusher in the middle of its first write.\<close>

definition ex_flusher :: flusher where
  "ex_flusher = \<lparr>fl_fs = (\<lambda>_. None)(''x'' \<mapsto> bitv_with_header (\<lambda>_. 7) [1]), fl_queue = [], fl_phase = Idle, fl_sent = {[1]}\<rparr>"

definition ex_flusher_writing :: flusher where
  "ex_flusher_writing = (let s = snd (bitv_flush [3] ex_flusher)
     in s\<lparr>fl_fs := (fl_fs s)(tmp_path ''x'' \<mapsto> []), fl_queue := [], fl_phase := Writing (last (fl_queue s)) 0\<rparr>)"

lemma ex_flusher_reach: "reach (flusher_init (\<lambda>_. 7) ''x'') (flusher_step (\<lambda>_. 7) ''x'') ex_flusher_writing"
proof -
  have "reach (flusher_init (\<lambda>_. 7) ''x'') (flusher_step (\<lambda>_. 7) ''x'') ex_flusher"
    by (rule reach_init) (simp add: flusher_init_def ex_flusher_def)
  moreover have "flusher_step (\<lambda>_. 7) ''x'' ex_flusher (snd (bitv_flush [3] ex_flusher))"
    by (rule send [of "[3]"]) (simp add: bitv_flush_def ex_flusher_def)
  moreover have "flusher_step (\<lambda>_. 7) ''x'' (snd (bitv_flush [3] ex_flusher)) ex_flusher_writing"
    unfolding ex_flusher_writing_def Let_def
    by (rule begin_write) (simp_all add: bitv_flush_def ex_flusher_def)
  ultimately show ?thesis by (meson reach_step)
qed

theorem bitv_crash_safe_witness:
  "case disk_backed_bitv_new (\<lambda>_. 7) io_fine ''x'' (fl_fs ex_flusher_writing) of
      Inr bits \<Rightarrow> bits \<in> fl_sent ex_flusher_writing
    | Inl NotFound \<Rightarrow> fl_phase ex_flusher_writing = Stopped
    | Inl CrcMismatch \<Rightarrow> False
    | Inl ReadFailed \<Rightarrow> False"
  by (rule bitv_crash_safe [OF ex_flusher_reach])

end
