(* ===== verification/Initializing.thy ===== *)
theory Initializing
  imports Live Bitv_Files
begin

text \<open>
  \<open>src/src/torrent_state/initializing.rs\<close>, \<open>src/src/torrent_state/paused.rs\<close> and \<open>src/src/bitv_factory.rs\<close>: how a
  torrent finds out which pieces it has, from the stored bit field or by hashing everything, and the
  paused torrent that results. The bit field store is a record of operations (a \<open>&dyn BitVFactory\<close>)
  with the laws of the locale \<open>bitv_store\<close>; the random choices of the validation and the cancellation token
  are parameters. Progress in bytes is computed without the rounding of \<open>f64\<close>.
\<close>

datatype torrent_id_or_hash = TorrentId nat | TorrentHash id20

subsection \<open>Bit field factories\<close>

record 'f bitv_factory =
  bv_load :: "'f \<Rightarrow> torrent_id_or_hash \<Rightarrow> byte list option res"
  bv_clear :: "'f \<Rightarrow> torrent_id_or_hash \<Rightarrow> unit res \<times> 'f"
  bv_store_initial_check :: "'f \<Rightarrow> torrent_id_or_hash \<Rightarrow> bf \<Rightarrow> byte list res \<times> 'f"

definition non_persistent_bitv_factory :: "'f bitv_factory" where
  "non_persistent_bitv_factory =
     \<lparr>bv_load = (\<lambda>_ _. Inr None), bv_clear = (\<lambda>f _. (Inr (), f)),
      bv_store_initial_check = (\<lambda>f _ b. (Inr (bf_to_bytes b), f))\<rparr>"

text \<open>The JSON store: \<open>to_hash\<close> looks an id up in its table, \<open>bitv_filename\<close> names the file of a hash.\<close>

record json_bitv =
  jb_to_hash :: "torrent_id_or_hash \<Rightarrow> id20 res"
  jb_filename :: "id20 \<Rightarrow> file_name"
  jb_crc :: "byte list \<Rightarrow> u32"
  jb_io :: bitv_io

definition json_bitv_factory :: "json_bitv \<Rightarrow> file_system bitv_factory" where
  "json_bitv_factory j =
     \<lparr>bv_load = (\<lambda>fs i. res_bind (jb_to_hash j i) (\<lambda>h. json_load (jb_crc j) (jb_io j) (jb_filename j h) fs)),
      bv_clear = (\<lambda>fs i. case jb_to_hash j i of Inl e \<Rightarrow> (Inl e, fs) | Inr h \<Rightarrow> json_clear (jb_io j) (jb_filename j h) fs),
      bv_store_initial_check = (\<lambda>fs i b. case jb_to_hash j i of Inl e \<Rightarrow> (Inl e, fs)
        | Inr h \<Rightarrow> json_store_initial_check (jb_crc j) (jb_io j) (jb_filename j h) (bf_to_bytes b) fs)\<rparr>"

text \<open>What the initialisation relies on: the stored bit field is given back as it was.\<close>

locale bitv_store =
  fixes F :: "'f bitv_factory"
  assumes store_result: "bv_store_initial_check F f i b = (Inr bytes, f') \<Longrightarrow> bytes = bf_to_bytes b"
begin

lemma stored_bits:
  "bv_store_initial_check F f i b = (Inr bytes, f') \<Longrightarrow> 8 dvd length b \<Longrightarrow> bf_from_bytes bytes = b"
  by (drule store_result) (simp add: bf_from_to_bytes)

end

locale persistent_bitv_store = bitv_store +
  assumes load_stored: "bv_store_initial_check F f i b = (Inr bytes, f') \<Longrightarrow> bv_load F f' i = Inr (Some bytes)"

interpretation non_persistent: bitv_store non_persistent_bitv_factory
  by unfold_locales (simp add: non_persistent_bitv_factory_def)

interpretation json: persistent_bitv_store "json_bitv_factory j" for j
  by unfold_locales
    (auto simp: json_bitv_factory_def split: sum.splits dest: store_then_load(1) [OF _ refl])

subsection \<open>The initializing state\<close>

record ('s, 'f) initializing =
  in_files :: 's
  in_factory :: 'f
  in_only_files :: "nat list option"
  in_checked_bytes :: u64
  in_queued_for_init :: bool
  in_previously_errored :: bool

record ('s, 'f) init_env =
  ie_live :: "'s live_env"
  ie_factory :: "'f bitv_factory"
  ie_id :: nat
  ie_info_hash :: id20
  ie_session_alive :: bool
  ie_denom :: "nat option"
  ie_shuffle :: "nat list \<Rightarrow> nat list"
  ie_pick :: "nat \<Rightarrow> nat \<Rightarrow> bool"
  ie_validate_cancelled :: "nat \<Rightarrow> bool"
  ie_check_cancelled :: "nat \<Rightarrow> bool"

record 's paused =
  pa_files :: 's
  pa_chunk_tracker :: chunk_tracker
  pa_streams :: torrent_streams

type_synonym ('s, 'f, 'a) im = "(('s, 'f) initializing, 'a) sm"

definition init_new :: "nat list option \<Rightarrow> 's \<Rightarrow> 'f \<Rightarrow> bool \<Rightarrow> ('s, 'f) initializing" where
  "init_new only_files files f errored =
     \<lparr>in_files = files, in_factory = f, in_only_files = only_files, in_checked_bytes = 0,
      in_queued_for_init = False, in_previously_errored = errored\<rparr>"

definition get_checked_bytes :: "('s, 'f) initializing \<Rightarrow> u64" where
  "get_checked_bytes s = in_checked_bytes s"

definition is_queued_for_init :: "('s, 'f) initializing \<Rightarrow> bool" where
  "is_queued_for_init s = in_queued_for_init s"

subsection \<open>Validation of a stored bit field\<close>

text \<open>The first piece of the file that the bit field claims.\<close>

definition mandatory_piece :: "bf \<Rightarrow> file_info \<Rightarrow> nat list" where
  "mandatory_piece hp fi =
     (let prange = piece_range_usize fi in
      take 1 (map (\<lambda>pid. pid + fst prange)
        (case bf_get_range hp prange of None \<Rightarrow> [] | Some b \<Rightarrow> bf_iter_ones b)))"

definition mark_mandatory :: "nat \<Rightarrow> bf \<times> bf \<Rightarrow> (bf \<times> bf) res" where
  "mark_mandatory piece_id v =
     res_bind (bf_set (fst v) piece_id True) (\<lambda>to_validate.
     res_bind (bf_set (snd v) piece_id False) (\<lambda>queue. Inr (to_validate, queue)))"

text \<open>The other pieces, in random order, the \<open>n\<close>-th with probability one in \<open>min n cap\<close>.\<close>

fun mark_random :: "(nat \<Rightarrow> nat \<Rightarrow> bool) \<Rightarrow> nat \<Rightarrow> nat \<Rightarrow> nat list \<Rightarrow> bf \<Rightarrow> bf res" where
  "mark_random pick cap tmp_id [] to_validate = Inr to_validate"
| "mark_random pick cap tmp_id (piece_id # rest) to_validate =
     (let denom = min (tmp_id + 1) cap in
      if pick tmp_id denom
      then res_bind (bf_set to_validate piece_id True) (mark_random pick cap (tmp_id + 1) rest)
      else mark_random pick cap (tmp_id + 1) rest to_validate)"

definition pieces_to_validate :: "('s, 'f) init_env \<Rightarrow> bf \<Rightarrow> bf res" where
  "pieces_to_validate I hp =
     (let L = le_lengths (ie_live I);
          cap = (case ie_denom I of None \<Rightarrow> 50 | Some n \<Rightarrow> n)
      in res_bind (res_fold mark_mandatory (concat (map (mandatory_piece hp) (le_file_infos (ie_live I))))
           (bf_zero (piece_bitfield_bytes L), hp)) (\<lambda>(to_validate, queue).
         if 0 < cap then mark_random (ie_pick I) cap 0 (ie_shuffle I (bf_iter_ones queue)) to_validate
         else Inr to_validate))"

fun validate_pieces :: "('s, 'f) init_env \<Rightarrow> nat \<Rightarrow> (nat \<times> nat) list \<Rightarrow> ('s, 'f, bool) im" where
  "validate_pieces I n [] s = (Inr False, s)"
| "validate_pieces I n ((i, piece_id) # rest) s =
     (let E = ie_live I; tot = total_length (le_lengths E) in
      if ie_validate_cancelled I i then (Inl (Bail ''fastresume validation cancelled''), s)
      else case check_piece (le_lengths E) (le_sha1 E) (le_compare_hash E) (le_ops E) (le_file_infos E) (in_files s) piece_id of
        Inl e \<Rightarrow> if e = Panic \<or> e = Diverges then (Inl e, s) else (Inr True, s)
      | Inr _ \<Rightarrow>
        let progress = min (tot * (i + 1) div n) tot
        in validate_pieces I n rest (s\<lparr>in_checked_bytes := of_nat progress\<rparr>))"

definition validate_fastresume :: "('s, 'f) init_env \<Rightarrow> byte list option \<Rightarrow> ('s, 'f, byte list option) im" where
  "validate_fastresume I loaded s =
     (let L = le_lengths (ie_live I) in
      case loaded of
        None \<Rightarrow> (Inr None, s)
      | Some hp \<Rightarrow>
        if length hp \<noteq> piece_bitfield_bytes L then (Inr None, s)
        else case pieces_to_validate I (bf_from_bytes hp) of
          Inl e \<Rightarrow> (Inl e, s)
        | Inr to_validate \<Rightarrow>
          (case validate_pieces I (length (bf_iter_ones to_validate))
               (List.enumerate 0 (List.map_filter (\<lambda>i. if i < 2 ^ 32 then validate_piece_index L i else None) (bf_iter_ones to_validate))) s of
             (Inl e, s1) \<Rightarrow> (Inl e, s1)
           | (Inr broken, s1) \<Rightarrow>
             if broken then
               (Inr None, s1\<lparr>in_factory := snd (bv_clear (ie_factory I) (in_factory s1) (TorrentId (ie_id I))),
                             in_checked_bytes := 0\<rparr>)
             else (Inr (Some hp), s1)))"

subsection \<open>The check\<close>

definition file_selected :: "nat list option \<Rightarrow> nat \<Rightarrow> bool" where
  "file_selected only_files idx = (case only_files of None \<Rightarrow> True | Some v \<Rightarrow> idx \<in> set v)"

definition ensure_length :: "('s, 'f) init_env \<Rightarrow> nat list option \<Rightarrow> nat \<times> file_info \<Rightarrow> 's \<Rightarrow> 's" where
  "ensure_length I only_files x files =
     (case x of (idx, fi) \<Rightarrow>
        if \<not> file_selected only_files idx \<or> padding fi then files
        else snd (so_ensure_file_length (le_ops (ie_live I)) files idx (fi_len fi)))"

definition load_have_pieces :: "('s, 'f) init_env \<Rightarrow> ('s, 'f, byte list option) im" where
  "load_have_pieces I s =
     (let i = TorrentHash (ie_info_hash I) in
      if in_previously_errored s then (Inr None, s\<lparr>in_factory := snd (bv_clear (ie_factory I) (in_factory s) i)\<rparr>)
      else (bv_load (ie_factory I) (in_factory s) i, s))"

definition full_check :: "('s, 'f) init_env \<Rightarrow> ('s, 'f, byte list) im" where
  "full_check I s =
     (let E = ie_live I;
          (r, progress) = initial_check (le_lengths E) (le_sha1 E) (le_compare_hash E) (le_ops E) (le_file_infos E)
             (in_files s) (ie_check_cancelled I) (in_checked_bytes s);
          s1 = s\<lparr>in_checked_bytes := progress\<rparr>
      in case r of
        Inl e \<Rightarrow> (Inl e, s1)
      | Inr haves \<Rightarrow>
        (case bv_store_initial_check (ie_factory I) (in_factory s1) (TorrentHash (ie_info_hash I)) haves of
           (r', f) \<Rightarrow> (r', s1\<lparr>in_factory := f\<rparr>)))"

definition finish_check :: "('s, 'f) init_env \<Rightarrow> byte list \<Rightarrow> ('s, 'f, 's paused) im" where
  "finish_check I bytes s =
     (let E = ie_live I;
          selected_pieces = compute_selected_pieces (le_lengths E) (file_selected (in_only_files s)) (le_file_infos E)
      in case ct_new (bf_from_bytes bytes) selected_pieces (le_lengths E) (le_file_infos E) of
        Inl e \<Rightarrow> (Inl e, s)
      | Inr ct \<Rightarrow>
        let s1 = s\<lparr>in_files := fold (ensure_length I (in_only_files s)) (enum (le_file_infos E)) (in_files s)\<rparr>
        in case so_take (le_ops E) (in_files s1) of
          (Inl e, f) \<Rightarrow> (Inl e, s1\<lparr>in_files := f\<rparr>)
        | (Inr taken, f) \<Rightarrow>
          (Inr \<lparr>pa_files = taken, pa_chunk_tracker = ct, pa_streams = \<lparr>next_stream_id = 0, streams = []\<rparr>\<rparr>, s1\<lparr>in_files := f\<rparr>))"

definition initializing_check :: "('s, 'f) init_env \<Rightarrow> ('s, 'f, 's paused) im" where
  "initializing_check I =
     (if \<not> ie_session_alive I then sm_res (Inl (Bail ''session is dead''))
      else sm_bind (load_have_pieces I) (\<lambda>loaded.
           sm_bind (validate_fastresume I loaded) (\<lambda>valid.
           sm_bind (case valid of Some h \<Rightarrow> sm_ret h | None \<Rightarrow> full_check I) (finish_check I))))"

subsection \<open>Paused torrents\<close>

definition paused_update_only_files :: "file_infos \<Rightarrow> nat set \<Rightarrow> ('s paused, unit) sm" where
  "paused_update_only_files fis only_files p =
     (case update_only_files fis only_files (pa_chunk_tracker p) of
        Inl e \<Rightarrow> (Inl e, p)
      | Inr (_, ct) \<Rightarrow> (Inr (), p\<lparr>pa_chunk_tracker := ct\<rparr>))"

definition paused_hns :: "'s paused \<Rightarrow> have_needed_selected" where
  "paused_hns p = hns (pa_chunk_tracker p)"

subsection \<open>The selection of pieces to validate\<close>

definition choices_ok :: "('s, 'f) init_env \<Rightarrow> bool" where
  "choices_ok I \<longleftrightarrow> (\<forall>xs. mset (ie_shuffle I xs) = mset xs)"

lemma mandatory_piece_bound: "p \<in> set (mandatory_piece hp fi) \<Longrightarrow> p < length hp"
  by (auto simp: mandatory_piece_def Let_def bf_get_range_def bf_iter_ones_def split: if_splits option.splits
      dest!: in_set_takeD)

lemma mark_mandatory_ok:
  "\<forall>p \<in> set ps. p < n \<Longrightarrow> length (fst v) = n \<Longrightarrow> length (snd v) = n \<Longrightarrow>
   \<exists>tv q. res_fold mark_mandatory ps v = Inr (tv, q) \<and> length tv = n \<and> length q = n"
proof (induction ps arbitrary: v)
  case (Cons p ps)
  then show ?case by (simp add: mark_mandatory_def bf_set_def)
qed (auto intro: prod.collapse [symmetric])

lemma mark_random_ok:
  "\<forall>p \<in> set ps. p < length tv \<Longrightarrow>
   \<exists>tv'. mark_random pick cap k ps tv = Inr tv' \<and> length tv' = length tv"
proof (induction ps arbitrary: k tv)
  case (Cons p ps)
  have "\<exists>tv'. mark_random pick cap (k + 1) ps u = Inr tv' \<and> length tv' = length u" if "length u = length tv" for u
    using Cons.IH [of u "k + 1"] Cons.prems that by simp
  from this [of tv] this [of "tv[p := True]"] show ?case using Cons.prems by (auto simp: Let_def bf_set_def)
qed simp

lemma pieces_to_validate_ok:
  assumes "choices_ok I" and "length hp = 8 * piece_bitfield_bytes (le_lengths (ie_live I))"
  shows "\<exists>tv. pieces_to_validate I hp = Inr tv"
proof -
  let ?n = "8 * piece_bitfield_bytes (le_lengths (ie_live I))"
  have "\<forall>p \<in> set (concat (map (mandatory_piece hp) (le_file_infos (ie_live I)))). p < ?n"
    using mandatory_piece_bound [of _ hp] assms(2) by auto
  from mark_mandatory_ok [OF this, of "(bf_zero (piece_bitfield_bytes (le_lengths (ie_live I))), hp)"]
  obtain tv q where *: "res_fold mark_mandatory (concat (map (mandatory_piece hp) (le_file_infos (ie_live I))))
      (bf_zero (piece_bitfield_bytes (le_lengths (ie_live I))), hp) = Inr (tv, q)" "length tv = ?n" "length q = ?n"
    using assms(2) by (auto simp: bf_zero_def)
  have "set (ie_shuffle I (bf_iter_ones q)) = set (bf_iter_ones q)"
    using assms(1) by (metis choices_ok_def set_mset_mset)
  then have "\<forall>p \<in> set (ie_shuffle I (bf_iter_ones q)). p < length tv"
    using * by (auto simp: bf_bit_def)
  from mark_random_ok [OF this, of "ie_pick I" "case ie_denom I of None \<Rightarrow> 50 | Some n \<Rightarrow> n" 0] show ?thesis using * by (auto simp: pieces_to_validate_def Let_def)
qed

lemma validate_pieces_ok:
  assumes "\<forall>i. \<not> ie_validate_cancelled I i"
    and "\<forall>(_, p) \<in> set ps. \<exists>v. check_piece (le_lengths (ie_live I)) (le_sha1 (ie_live I)) (le_compare_hash (ie_live I))
        (le_ops (ie_live I)) (le_file_infos (ie_live I)) (in_files s) p = Inr v"
  shows "\<exists>cb. validate_pieces I n ps s = (Inr False, s\<lparr>in_checked_bytes := cb\<rparr>)"
  using assms(2)
proof (induction ps arbitrary: s)
  case Nil
  have "s = s\<lparr>in_checked_bytes := in_checked_bytes s\<rparr>" by simp
  then show ?case by (metis validate_pieces.simps(1))
next
  case (Cons x ps)
  obtain i p where x: "x = (i, p)" by (cases x)
  with Cons.prems assms(1) show ?case
    using Cons.IH [of "s\<lparr>in_checked_bytes := cb\<rparr>" for cb] by (auto simp: Let_def split: sum.splits)
qed

subsection \<open>What the check returns\<close>

definition ranges_ok :: "'s live_env \<Rightarrow> bool" where
  "ranges_ok E \<longleftrightarrow> lengths_ok (le_lengths E)
     \<and> (\<forall>fi \<in> set (le_file_infos E). snd (piece_range fi) \<le> 8 * piece_bitfield_bytes (le_lengths E))"

text \<open>The tracker made from a have bit field and a selection.\<close>

definition tracker_of :: "'s live_env \<Rightarrow> bf \<Rightarrow> (nat \<Rightarrow> bool) \<Rightarrow> chunk_tracker \<Rightarrow> bool" where
  "tracker_of E haves sel t \<longleftrightarrow> ct_inv t \<and> ct_lengths t = le_lengths E \<and> have_pieces t = haves
     \<and> length (per_file_bytes t) = length (le_file_infos E)
     \<and> selected t = compute_selected_pieces (le_lengths E) sel (le_file_infos E)
     \<and> (\<forall>i. bf_bit (queue_pieces t) i \<longleftrightarrow> bf_bit (selected t) i \<and> \<not> bf_bit haves i)"

lemma ct_new_tracker:
  assumes "ranges_ok E"
  shows "length haves = 8 * piece_bitfield_bytes (le_lengths E) \<Longrightarrow>
      \<exists>t. ct_new haves (compute_selected_pieces (le_lengths E) sel (le_file_infos E)) (le_lengths E) (le_file_infos E) = Inr t"
    and "ct_new haves (compute_selected_pieces (le_lengths E) sel (le_file_infos E)) (le_lengths E) (le_file_infos E) = Inr t
      \<Longrightarrow> tracker_of E haves sel t"
proof -
  have spec: "\<exists>t. ct_new haves (compute_selected_pieces (le_lengths E) sel (le_file_infos E)) (le_lengths E) (le_file_infos E) = Inr t
      \<and> tracker_of E haves sel t" if "length haves = 8 * piece_bitfield_bytes (le_lengths E)"
    by (rule ct_new_spec [of "le_lengths E" haves "compute_selected_pieces (le_lengths E) sel (le_file_infos E)" "le_file_infos E"])
      (use assms that in \<open>auto simp: ranges_ok_def tracker_of_def\<close>)
  then show "length haves = 8 * piece_bitfield_bytes (le_lengths E) \<Longrightarrow>
      \<exists>t. ct_new haves (compute_selected_pieces (le_lengths E) sel (le_file_infos E)) (le_lengths E) (le_file_infos E) = Inr t"
    by blast
  assume new: "ct_new haves (compute_selected_pieces (le_lengths E) sel (le_file_infos E)) (le_lengths E) (le_file_infos E) = Inr t"
  then have "length haves = 8 * piece_bitfield_bytes (le_lengths E)"
    by (auto simp: ct_new_def compute_queued_pieces_def split: if_splits)
  with spec new show "tracker_of E haves sel t" by auto
qed

lemma finish_check_tracker:
  assumes "ranges_ok (ie_live I)" and "finish_check I bytes s = (Inr p, s')"
  shows "tracker_of (ie_live I) (bf_from_bytes bytes) (file_selected (in_only_files s)) (pa_chunk_tracker p)"
    and "pa_streams p = \<lparr>next_stream_id = 0, streams = []\<rparr>"
  using assms(2) ct_new_tracker(2) [OF assms(1)]
  by (auto simp: finish_check_def Let_def split: sum.splits prod.splits)

lemma load_frame: "load_have_pieces I s = (r, s') \<Longrightarrow> in_only_files s' = in_only_files s \<and> in_files s' = in_files s"
  by (auto simp: load_have_pieces_def Let_def split: if_splits)

lemma validate_pieces_frame:
  "validate_pieces I n ps s = (r, s') \<Longrightarrow> in_only_files s' = in_only_files s \<and> in_files s' = in_files s"
  by (induction I n ps s rule: validate_pieces.induct) (auto simp: Let_def split: if_splits sum.splits)

lemma validate_frame:
  "validate_fastresume I hp s = (r, s') \<Longrightarrow> in_only_files s' = in_only_files s \<and> in_files s' = in_files s"
  by (auto simp: validate_fastresume_def Let_def dest: validate_pieces_frame split: if_splits option.splits sum.splits prod.splits)

lemma full_check_frame:
  "full_check I s = (r, s') \<Longrightarrow> in_only_files s' = in_only_files s \<and> in_files s' = in_files s"
  by (auto simp: full_check_def Let_def split: sum.splits prod.splits)

lemmas check_frames = load_frame validate_frame full_check_frame

lemma initializing_check_tracker:
  assumes "ranges_ok (ie_live I)" and "initializing_check I s = (Inr p, s')"
  shows "\<exists>haves. tracker_of (ie_live I) haves (file_selected (in_only_files s)) (pa_chunk_tracker p)"
    and "pa_streams p = \<lparr>next_stream_id = 0, streams = []\<rparr>"
proof -
  obtain loaded s1 valid s2 bytes s3 where run: "load_have_pieces I s = (Inr loaded, s1)"
    "validate_fastresume I loaded s1 = (Inr valid, s2)"
    "(case valid of Some h \<Rightarrow> sm_ret h | None \<Rightarrow> full_check I) s2 = (Inr bytes, s3)"
    "finish_check I bytes s3 = (Inr p, s')"
    using assms(2) by (auto simp: initializing_check_def sm_bind_def sm_res_def split: if_splits prod.splits sum.splits)
  then have "in_only_files s3 = in_only_files s"
    by (auto simp: sm_ret_def dest!: check_frames split: option.splits)
  with finish_check_tracker [OF assms(1) run(4)]
  show "\<exists>haves. tracker_of (ie_live I) haves (file_selected (in_only_files s)) (pa_chunk_tracker p)"
    and "pa_streams p = \<lparr>next_stream_id = 0, streams = []\<rparr>"
    by auto
qed

subsection \<open>Properties\<close>

text \<open>A torrent on disk: the file system back end with every file complete, a hash for every piece, nothing cancelled.\<close>

definition on_disk :: "'fd os_file_ops \<Rightarrow> ('fd \<Rightarrow> byte list) \<Rightarrow> ('fd fs_storage, 'f) init_env \<Rightarrow> 'fd fs_storage \<Rightarrow> bool" where
  "on_disk os content I files \<longleftrightarrow>
     (let E = ie_live I; L = le_lengths E; fis = le_file_infos E in
      le_ops E = fs_ops os \<and> ranges_ok E \<and> lengths_bytes_ok L \<and> fis \<noteq> []
      \<and> files_len (enum fis) = total_length L \<and> layout_ok (fs_view content files) (enum fis)
      \<and> (\<forall>i<total_pieces L. \<forall>d. le_compare_hash E i d \<noteq> None)
      \<and> (\<forall>i. \<not> ie_validate_cancelled I i \<and> \<not> ie_check_cancelled I i))"

definition piece_hash_ok :: "('fd \<Rightarrow> byte list) \<Rightarrow> 'fd fs_storage live_env \<Rightarrow> 'fd fs_storage \<Rightarrow> nat \<Rightarrow> bool" where
  "piece_hash_ok content E files i \<longleftrightarrow>
     le_compare_hash E i (le_sha1 E (torrent_slice (fs_view content files) (enum (le_file_infos E))
       (piece_offset (le_lengths E) i) (piece_length (le_lengths E) i))) = Some True"

lemma on_diskD:
  assumes "on_disk os content I files"
  shows "le_ops (ie_live I) = fs_ops os" "ranges_ok (ie_live I)" "lengths_ok (le_lengths (ie_live I))"
    "lengths_bytes_ok (le_lengths (ie_live I))" "le_file_infos (ie_live I) \<noteq> []"
    "files_len (enum (le_file_infos (ie_live I))) = total_length (le_lengths (ie_live I))"
    "layout_ok (fs_view content files) (enum (le_file_infos (ie_live I)))"
    "\<forall>i<total_pieces (le_lengths (ie_live I)). \<forall>d. le_compare_hash (ie_live I) i d \<noteq> None"
    "\<forall>i. \<not> ie_validate_cancelled I i" "\<forall>i. \<not> ie_check_cancelled I i"
  using assms by (auto simp: on_disk_def ranges_ok_def Let_def)

lemma finish_check_fs:
  assumes "ranges_ok (ie_live I)" and "le_ops (ie_live I) = fs_ops os"
    and "length bytes = piece_bitfield_bytes (le_lengths (ie_live I))"
  shows "\<exists>p s'. finish_check I bytes s = (Inr p, s')"
proof -
  obtain t where "ct_new (bf_from_bytes bytes) (compute_selected_pieces (le_lengths (ie_live I)) (file_selected (in_only_files s))
      (le_file_infos (ie_live I))) (le_lengths (ie_live I)) (le_file_infos (ie_live I)) = Inr t"
    using ct_new_tracker(1) [OF assms(1), of "bf_from_bytes bytes"] assms(3) by auto
  then show ?thesis using assms(2) by (simp add: finish_check_def Let_def fs_ops_def fs_take_def)
qed

lemma initializing_check_run:
  assumes "ranges_ok (ie_live I)" "le_ops (ie_live I) = fs_ops os" "ie_session_alive I"
    and "load_have_pieces I s = (Inr loaded, s1)" and "validate_fastresume I loaded s1 = (Inr valid, s2)"
    and "(case valid of Some h \<Rightarrow> sm_ret h | None \<Rightarrow> full_check I) s2 = (Inr bytes, s3)"
    and "length bytes = piece_bitfield_bytes (le_lengths (ie_live I))"
  shows "\<exists>p s'. initializing_check I s = (Inr p, s')
     \<and> tracker_of (ie_live I) (bf_from_bytes bytes) (file_selected (in_only_files s)) (pa_chunk_tracker p)"
proof -
  obtain p s' where f: "finish_check I bytes s3 = (Inr p, s')" using finish_check_fs [OF assms(1,2,7)] by blast
  have "in_only_files s3 = in_only_files s"
    using assms(4-6) by (auto simp: sm_ret_def dest!: check_frames split: option.splits)
  with f finish_check_tracker(1) [OF assms(1) f] assms(3-6) show ?thesis
    by (auto simp: initializing_check_def sm_bind_def)
qed

lemma full_check_fs:
  assumes "os_files os content" and "on_disk os content I (in_files s)" and "bitv_store (ie_factory I)"
    and "\<forall>f b. \<exists>r f'. bv_store_initial_check (ie_factory I) f (TorrentHash (ie_info_hash I)) b = (Inr r, f')"
  shows "\<exists>bytes s'. full_check I s = (Inr bytes, s') \<and> length bytes = piece_bitfield_bytes (le_lengths (ie_live I))
     \<and> (\<forall>i. bf_bit (bf_from_bytes bytes) i \<longleftrightarrow> i < total_pieces (le_lengths (ie_live I)) \<and> piece_hash_ok content (ie_live I) (in_files s) i)"
proof -
  let ?E = "ie_live I"
  note d = on_diskD [OF assms(2)]
  obtain bits where bits: "initial_check (le_lengths ?E) (le_sha1 ?E) (le_compare_hash ?E) (le_ops ?E) (le_file_infos ?E) (in_files s)
       (ie_check_cancelled I) (in_checked_bytes s) = (Inr bits, in_checked_bytes s + of_nat (total_length (le_lengths ?E)))"
     "length bits = 8 * piece_bitfield_bytes (le_lengths ?E)"
     "\<forall>i<length bits. bits ! i = (i < total_pieces (le_lengths ?E) \<and> piece_hash_ok content ?E (in_files s) i)"
    using initial_check_spec [OF assms(1) d(3,4,6,7,5,10,8), of "le_sha1 ?E" "in_checked_bytes s"] d(1)
    by (auto simp: piece_hash_ok_def)
  obtain bytes f' where st: "bv_store_initial_check (ie_factory I) (in_factory s) (TorrentHash (ie_info_hash I)) bits = (Inr bytes, f')"
    using assms(4) by blast
  then have b: "bf_from_bytes bytes = bits" and len: "length bytes = piece_bitfield_bytes (le_lengths ?E)"
    using bitv_store.stored_bits [OF assms(3) st] bitv_store.store_result [OF assms(3) st] bits(2)
    by (auto simp: length_bf_to_bytes)
  have "total_pieces (le_lengths ?E) \<le> length bits" using lengths_okD(1) [OF d(3)] bits(2) by simp
  with bits b len st show ?thesis by (auto simp: full_check_def bf_bit_def)
qed

text \<open>C37. Initialising without a usable bit field (none stored, one of the wrong size, or after an error): with
  complete files the check succeeds, and the tracker it hands to the paused torrent has exactly the pieces
  whose bytes have the expected SHA-1, queues exactly the selected ones of the others, and satisfies the
  tracker's invariant.\<close>

theorem initializing_full_check:
  assumes "os_files os content" and "on_disk os content I (in_files s)" and "bitv_store (ie_factory I)" and "ie_session_alive I"
    and "\<forall>f b. \<exists>r f'. bv_store_initial_check (ie_factory I) f (TorrentHash (ie_info_hash I)) b = (Inr r, f')"
    and "in_previously_errored s \<or> bv_load (ie_factory I) (in_factory s) (TorrentHash (ie_info_hash I)) = Inr None
      \<or> (\<exists>hp. bv_load (ie_factory I) (in_factory s) (TorrentHash (ie_info_hash I)) = Inr (Some hp)
           \<and> length hp \<noteq> piece_bitfield_bytes (le_lengths (ie_live I)))"
  shows "\<exists>p s' t. initializing_check I s = (Inr p, s') \<and> t = pa_chunk_tracker p \<and> ct_inv t
     \<and> (\<forall>i. bf_bit (have_pieces t) i \<longleftrightarrow> i < total_pieces (le_lengths (ie_live I)) \<and> piece_hash_ok content (ie_live I) (in_files s) i)
     \<and> (\<forall>i. bf_bit (queue_pieces t) i \<longleftrightarrow> bf_bit (selected t) i \<and> \<not> bf_bit (have_pieces t) i)"
proof -
  obtain loaded s1 where load: "load_have_pieces I s = (Inr loaded, s1)" "validate_fastresume I loaded s1 = (Inr None, s1)"
    using assms(6) by (cases "in_previously_errored s") (auto simp: load_have_pieces_def validate_fastresume_def Let_def)
  have files: "in_files s1 = in_files s" using load_frame [OF load(1)] by simp
  then have disk: "on_disk os content I (in_files s1)" using assms(2) by simp
  from full_check_fs [OF assms(1) disk assms(3,5)] obtain bytes s3 where fc: "full_check I s1 = (Inr bytes, s3)"
    "length bytes = piece_bitfield_bytes (le_lengths (ie_live I))"
    "\<forall>i. bf_bit (bf_from_bytes bytes) i \<longleftrightarrow> i < total_pieces (le_lengths (ie_live I)) \<and> piece_hash_ok content (ie_live I) (in_files s1) i"
    by blast
  from initializing_check_run [OF on_diskD(2,1) [OF disk] assms(4) load, of bytes s3] fc
  obtain p s' where "initializing_check I s = (Inr p, s')"
    "tracker_of (ie_live I) (bf_from_bytes bytes) (file_selected (in_only_files s)) (pa_chunk_tracker p)"
    by auto
  with fc(3) files show ?thesis by (auto simp: tracker_of_def)
qed

text \<open>The validation of a stored bit field never notices wrong data: with complete files, a bit field of the
  right size is accepted as it is, whatever the pieces hash to, although the comments and the warning \<open>data corrupted\<close>
  say that pieces of every file are validated. Only errors of \<open>check_piece\<close> are looked at, not its answer.\<close>

theorem fastresume_trusts_bitfield:
  assumes "os_files os content" and "on_disk os content I (in_files s)" and "ie_session_alive I" and "choices_ok I"
    and "\<not> in_previously_errored s"
    and "bv_load (ie_factory I) (in_factory s) (TorrentHash (ie_info_hash I)) = Inr (Some hp)"
    and "length hp = piece_bitfield_bytes (le_lengths (ie_live I))"
  shows "\<exists>p s'. initializing_check I s = (Inr p, s') \<and> have_pieces (pa_chunk_tracker p) = bf_from_bytes hp"
proof -
  let ?E = "ie_live I"
  note d = on_diskD [OF assms(2)]
  have load: "load_have_pieces I s = (Inr (Some hp), s)" using assms(5,6) by (simp add: load_have_pieces_def Let_def)
  obtain tv where tv: "pieces_to_validate I (bf_from_bytes hp) = Inr tv"
    using pieces_to_validate_ok [OF assms(4), of "bf_from_bytes hp"] assms(7) by auto
  let ?ps = "List.enumerate 0 (List.map_filter (\<lambda>i. if i < 2 ^ 32 then validate_piece_index (le_lengths ?E) i else None) (bf_iter_ones tv))"
  have "\<exists>v. check_piece (le_lengths ?E) (le_sha1 ?E) (le_compare_hash ?E) (le_ops ?E) (le_file_infos ?E) (in_files s) p = Inr v"
    if "p < total_pieces (le_lengths ?E)" for p
    using check_piece_spec [OF assms(1) d(3,4,6,7) that, of "le_sha1 ?E" "le_compare_hash ?E"] d(1) d(8) that
    by (auto split: option.splits)
  moreover have "p < total_pieces (le_lengths ?E)" if "(k, p) \<in> set ?ps" for k p
  proof -
    have "p \<in> set (map snd ?ps)" unfolding set_map by (rule image_eqI [OF _ that]) simp
    then show ?thesis by (auto simp: List.map_filter_def lengths_okD(2) [OF d(3)] split: if_splits)
  qed
  ultimately have "\<forall>(_, p) \<in> set ?ps. \<exists>v. check_piece (le_lengths ?E) (le_sha1 ?E) (le_compare_hash ?E) (le_ops ?E)
      (le_file_infos ?E) (in_files s) p = Inr v" by blast
  from validate_pieces_ok [OF d(9) this, of "length (bf_iter_ones tv)"] obtain cb
    where "validate_fastresume I (Some hp) s = (Inr (Some hp), s\<lparr>in_checked_bytes := cb\<rparr>)"
    using tv assms(7) by (auto simp: validate_fastresume_def Let_def)
  from initializing_check_run [OF d(2,1) assms(3) load this, of hp] assms(7)
  show ?thesis by (auto simp: sm_ret_def tracker_of_def)
qed

text \<open>A torrent of two files in memory.\<close>

definition ex_init_live :: "(nat \<Rightarrow> digest \<Rightarrow> bool option) \<Rightarrow> byte list fs_storage live_env" where
  "ex_init_live compare_hash = \<lparr>le_lengths = ex_lengths, le_file_infos = ex_fo_files, le_private = False, le_disable_upload = False,
     le_info_bytes = [], le_chunk_size = 16384, le_ops = fs_ops mem_os, le_as_ioslices = (\<lambda>b. (b, [])), le_sha1 = (\<lambda>h. h),
     le_compare_hash = compare_hash, le_shuffle = (\<lambda>x. x), le_backoff = (\<lambda>_. None), le_flush = (\<lambda>_. Inr ()),
     le_fatal_rx_alive = True\<rparr>"

definition ex_init_env :: "(nat \<Rightarrow> digest \<Rightarrow> bool option) \<Rightarrow> 'f bitv_factory \<Rightarrow> (byte list fs_storage, 'f) init_env" where
  "ex_init_env compare_hash F = \<lparr>ie_live = ex_init_live compare_hash, ie_factory = F, ie_id = 1, ie_info_hash = 7,
     ie_session_alive = True, ie_denom = None, ie_shuffle = rev, ie_pick = (\<lambda>_ d. d = 1),
     ie_validate_cancelled = (\<lambda>_. False), ie_check_cancelled = (\<lambda>_. False)\<rparr>"

definition ex_json :: json_bitv where
  "ex_json = \<lparr>jb_to_hash = (\<lambda>_. Inr 7), jb_filename = (\<lambda>_. ''x''), jb_crc = (\<lambda>_. 9), jb_io = io_fine\<rparr>"

lemma ex_on_disk:
  "(\<And>i d. compare_hash i d \<noteq> None) \<Longrightarrow> on_disk mem_os (\<lambda>c. c) (ex_init_env compare_hash F) ex_fs"
  using ex_lengths_ok ex_lengths_bytes_ok ex_fo_layout
  by (simp add: on_disk_def Let_def ex_init_env_def ex_init_live_def ranges_ok_def ex_fo_files_def ex_lengths_def)

theorem initializing_full_check_witness:
  "\<exists>p s'. initializing_check (ex_init_env (\<lambda>i d. Some (d = [5, 0, 7, 8])) non_persistent_bitv_factory) (init_new None ex_fs () False)
       = (Inr p, s') \<and> bf_bit (have_pieces (pa_chunk_tracker p)) 1"
proof -
  let ?I = "ex_init_env (\<lambda>i d. Some (d = [5, 0, 7, 8])) (non_persistent_bitv_factory :: unit bitv_factory)"
  let ?s = "init_new None ex_fs () False"
  have "torrent_slice (fs_view (\<lambda>c. c) ex_fs) (enum ex_fo_files) (piece_offset ex_lengths 1) (piece_length ex_lengths 1) = [5, 0, 7, 8]"
    by code_simp
  then have ok: "piece_hash_ok (\<lambda>c. c) (ie_live ?I) (in_files ?s) 1"
    by (simp add: piece_hash_ok_def ex_init_env_def ex_init_live_def init_new_def)
  have "on_disk mem_os (\<lambda>c. c) ?I (in_files ?s)" by (simp add: init_new_def ex_on_disk)
  moreover have "bitv_store (ie_factory ?I)"
    using non_persistent.bitv_store_axioms by (simp add: ex_init_env_def)
  moreover have "1 < total_pieces (le_lengths (ie_live ?I))" by (simp add: ex_init_env_def ex_init_live_def ex_lengths_def)
  ultimately show ?thesis
    using initializing_full_check [OF mem_os.os_files_axioms, of ?I ?s] ok
    by (auto simp: ex_init_env_def non_persistent_bitv_factory_def)
qed

theorem fastresume_trusts_bitfield_witness:
  "\<exists>p s'. initializing_check (ex_init_env (\<lambda>_ _. Some False) (json_bitv_factory ex_json))
       (init_new None ex_fs [''x'' \<mapsto> bitv_with_header (\<lambda>_. 9) [0xE0]] False)
       = (Inr p, s') \<and> have_pieces (pa_chunk_tracker p) = bf_from_bytes [0xE0]"
proof -
  let ?I = "ex_init_env (\<lambda>_ _. Some False) (json_bitv_factory ex_json)"
  let ?s = "init_new None ex_fs [''x'' \<mapsto> bitv_with_header (\<lambda>_. 9) [0xE0]] False"
  have "on_disk mem_os (\<lambda>c. c) ?I (in_files ?s)" by (simp add: init_new_def ex_on_disk)
  moreover have "ie_session_alive ?I" "choices_ok ?I" by (simp_all add: ex_init_env_def choices_ok_def)
  moreover have "bv_load (ie_factory ?I) (in_factory ?s) (TorrentHash (ie_info_hash ?I)) = Inr (Some [0xE0])"
    by (simp add: ex_init_env_def json_bitv_factory_def ex_json_def init_new_def json_load_def disk_backed_bitv_new_def
        read_with_header io_fine_def)
  moreover have "\<not> in_previously_errored ?s" by (simp add: init_new_def)
  moreover have "length [0xE0 :: byte] = piece_bitfield_bytes (le_lengths (ie_live ?I))"
    by (simp add: ex_init_env_def ex_init_live_def ex_lengths_def)
  ultimately show ?thesis using fastresume_trusts_bitfield [OF mem_os.os_files_axioms] by blast
qed

end
