(* ===== verification/Peer_Handler.thy ===== *)
theory Peer_Handler
  imports Live
begin

text \<open>
  \<open>src/src/torrent_state/live/peer_handler.rs\<close>: what one connected peer does to the torrent. The
  handler's own state (\<open>i_am_choked\<close>, the request semaphore, the first-message flag) is the record
  \<open>handler\<close>, threaded together with the live torrent. Sends on a peer's channel are recorded in the
  outbox. A handler runs as one step; \<open>write_to_disk\<close> is cut at the places where the code drops its
  locks. Test-only features (\<open>_disable_reconnect_test\<close>, the disk benchmark) are off.
\<close>

record handler =
  ph_addr :: socket_addr
  ph_counters :: nat
  ph_incoming :: bool
  ph_tx :: tx
  i_am_choked :: bool
  first_message_received :: bool
  requests_sem :: nat

type_synonym 's hstate = "handler \<times> 's live"
type_synonym ('s, 'a) hm = "('s hstate, 'a) sm"

text \<open>An operation on the torrent, and an update of the handler's own state.\<close>

definition on_live :: "('s, 'a) lm \<Rightarrow> ('s, 'a) hm" where
  "on_live m hs = (case m (snd hs) of (r, s) \<Rightarrow> (r, (fst hs, s)))"

definition on_handler :: "(handler \<Rightarrow> handler) \<Rightarrow> ('s, unit) hm" where
  "on_handler g = sm_modify (\<lambda>(h, s). (g h, s))"

definition handler_new :: "socket_addr \<Rightarrow> nat \<Rightarrow> bool \<Rightarrow> tx \<Rightarrow> handler" where
  "handler_new a c incoming t = \<lparr>ph_addr = a, ph_counters = c, ph_incoming = incoming, ph_tx = t,
     i_am_choked = True, first_message_received = False, requests_sem = 0\<rparr>"

subsection \<open>Callbacks of the connection\<close>

definition on_connected :: "handler \<Rightarrow> nat \<Rightarrow> ('s, unit) lm" where
  "on_connected h connection_time =
     modify_peers (upd_counters (ph_counters h) (\<lambda>c.
       c\<lparr>outgoing_connections := outgoing_connections c + 1,
         total_time_connecting_ms := total_time_connecting_ms c + of_nat (connection_time div 1000000)\<rparr>))"

definition on_handshake :: "handler \<Rightarrow> id20 \<Rightarrow> connection_kind \<Rightarrow> nat \<Rightarrow> ('s, unit) lm" where
  "on_handshake h pid kind now = set_peer_live (ph_addr h) pid kind now"

definition on_uploaded_bytes :: "handler \<Rightarrow> u32 \<Rightarrow> ('s, unit) lm" where
  "on_uploaded_bytes h bytes =
     sm_bind (modify_peers (upd_counters (ph_counters h)
       (\<lambda>c. c\<lparr>uploaded_bytes := uploaded_bytes c + ucast bytes\<rparr>))) (\<lambda>_.
     sm_modify (\<lambda>s. s\<lparr>lv_stats := (lv_stats s)\<lparr>st_uploaded_bytes := st_uploaded_bytes (lv_stats s) + ucast bytes\<rparr>,
       lv_session_uploaded := lv_session_uploaded s + ucast bytes\<rparr>))"

definition set_outgoing_address :: "socket_addr \<Rightarrow> peer \<Rightarrow> peer_states \<Rightarrow> unit \<times> peer \<times> peer_states" where
  "set_outgoing_address a p ps = ((), p\<lparr>outgoing_address := Some a\<rparr>, ps)"

definition on_extended_handshake :: "'s live_env \<Rightarrow> handler \<Rightarrow> ext_handshake \<Rightarrow> ('s, unit) lm" where
  "on_extended_handshake E h hs =
     sm_bind (if \<not> le_private E \<and> eh_ut_pex hs \<noteq> None then emit (EvSpawnPex (ph_addr h) (ph_tx h)) else sm_ret ()) (\<lambda>_.
       if ph_incoming h then
         (case eh_port hs of
            None \<Rightarrow> sm_ret ()
          | Some p \<Rightarrow>
            let peer_ip = (case eh_ip hs of Some i \<Rightarrow> i | None \<Rightarrow> fst (ph_addr h)) in
            sm_bind (on_peers (with_peer_mut (ph_addr h) (set_outgoing_address (peer_ip, p)))) (\<lambda>_. sm_ret ()))
       else sm_ret ())"

definition should_send_bitfield :: "'s live_env \<Rightarrow> 's live \<Rightarrow> bool" where
  "should_send_bitfield E s = (if le_disable_upload E then False else 0 < st_have_bytes (lv_stats s))"

definition should_transmit_have :: "'s live_env \<Rightarrow> handler \<Rightarrow> nat \<Rightarrow> 's live \<Rightarrow> bool" where
  "should_transmit_have E h i s =
     (if le_disable_upload E then False
      else \<not> (case with_live (ph_addr h) (\<lambda>l. case bf_get (bitfield l) i of Some v \<Rightarrow> v | None \<Rightarrow> True) (lv_peers s) of
                Some v \<Rightarrow> v | None \<Rightarrow> True))"

text \<open>The bitfield message; \<open>serialize\<close> is the serializer of the external crate.\<close>

definition serialize_bitfield_message_to_buf :: "(message \<Rightarrow> byte list option) \<Rightarrow> 's live \<Rightarrow> byte list res" where
  "serialize_bitfield_message_to_buf serialize s =
     res_bind (get_chunks s) (\<lambda>c. ok_or ProtoSerialize (serialize (MsgBitfield (bf_to_bytes (have_pieces c)))))"

definition handler_read_chunk :: "'s live_env \<Rightarrow> chunk_info \<Rightarrow> byte list \<Rightarrow> 's live \<Rightarrow> byte list res" where
  "handler_read_chunk E chunk buf s = read_chunk (le_lengths E) (le_ops E) (le_file_infos E) (lv_files s) chunk buf"

text \<open>The metadata size offered in our extended handshake, when it fits into \<open>u32\<close>.\<close>

definition update_my_extended_handshake :: "'s live_env \<Rightarrow> nat option \<Rightarrow> nat option" where
  "update_my_extended_handshake E metadata_size =
     (if le_info_bytes E \<noteq> [] \<and> length (le_info_bytes E) < 2 ^ 32
      then Some (length (le_info_bytes E)) else metadata_size)"

subsection \<open>The end of a connection\<close>

definition set_state_of :: "peer_handle \<Rightarrow> peer_state \<Rightarrow> nat \<Rightarrow> ('s, unit) lm" where
  "set_state_of a new now = sm_bind (on_peers (with_peer_mut a (set_state new now))) (\<lambda>_. sm_ret ())"

definition release_pieces_of :: "peer_handle \<Rightarrow> live_peer_state \<Rightarrow> ('s, unit) lm" where
  "release_pieces_of a l =
     sm_bind (with_pieces_mut (release_pieces_owned_by a)) (\<lambda>released.
       if 0 < released \<or> inflight_requests l \<noteq> [] then emit EvNewPieces else sm_ret ())"

definition next_backoff :: "'s live_env \<Rightarrow> peer \<Rightarrow> peer_states \<Rightarrow> nat option \<times> peer \<times> peer_states" where
  "next_backoff E p ps = (le_backoff E (backoff p), p\<lparr>backoff := backoff p + 1\<rparr>, ps)"

text \<open>From the point where the peer is known to have died with an error.\<close>

definition on_peer_died_error :: "'s live_env \<Rightarrow> handler \<Rightarrow> nat \<Rightarrow> ('s, unit) lm" where
  "on_peer_died_error E h now =
     sm_bind (modify_peers (upd_counters (ph_counters h) (\<lambda>c. c\<lparr>pc_errors := pc_errors c + 1\<rparr>))) (\<lambda>_.
     sm_bind (\<lambda>s. (is_finished_and_no_active_streams E s, s)) (\<lambda>fin.
       if fin then set_state_of (ph_addr h) NotNeeded now
       else sm_bind (set_state_of (ph_addr h) Dead now) (\<lambda>_.
         if ph_incoming h then sm_ret ()
         else sm_bind (on_peers (with_peer_mut (ph_addr h) (next_backoff E))) (\<lambda>d.
           case Option.bind d (\<lambda>x. x) of
             Some dur \<Rightarrow> emit (EvSpawnWait (ph_addr h) dur)
           | None \<Rightarrow>
             sm_bind (on_peers (reset_peer_backoff (ph_addr h))) (\<lambda>reset_ok.
               if reset_ok = None then sm_ret ()
               else emit (EvSpawnWait (ph_addr h) FROZEN_PEER_RETRY_INTERVAL))))))"

definition on_peer_died :: "'s live_env \<Rightarrow> handler \<Rightarrow> error option \<Rightarrow> nat \<Rightarrow> ('s, unit) lm" where
  "on_peer_died E h err now =
     sm_bind (on_peers (with_peer_mut (ph_addr h) (take_state now))) (\<lambda>prev.
       case prev of
         None \<Rightarrow> sm_ret ()
       | Some NotNeeded \<Rightarrow> set_state_of (ph_addr h) NotNeeded now
       | Some Queued \<Rightarrow> sm_bind (on_peers (drop_peer (ph_addr h))) (\<lambda>_. sm_ret ())
       | Some Dead \<Rightarrow> sm_bind (on_peers (drop_peer (ph_addr h))) (\<lambda>_. sm_ret ())
       | Some st \<Rightarrow>
         sm_bind (case st of Live l \<Rightarrow> release_pieces_of (ph_addr h) l | _ \<Rightarrow> sm_ret ()) (\<lambda>_.
           case err of
             None \<Rightarrow> set_state_of (ph_addr h) NotNeeded now
           | Some _ \<Rightarrow> on_peer_died_error E h now))"

text \<open>What the spawned \<open>wait_for_peer\<close> task does after its sleep.\<close>

definition dead_to_queued :: "nat \<Rightarrow> peer \<Rightarrow> peer_states \<Rightarrow> bool \<times> peer \<times> peer_states" where
  "dead_to_queued now p ps =
     (case pstate p of Dead \<Rightarrow> (True, snd (set_state Queued now p ps)) | _ \<Rightarrow> (False, p, ps))"

definition wait_for_peer_done :: "peer_handle \<Rightarrow> nat \<Rightarrow> ('s, unit) lm" where
  "wait_for_peer_done a now =
     sm_bind (on_peers (with_peer_mut a (dead_to_queued now))) (\<lambda>r.
       if r = Some True then sm_bind (try_send_queue a) (\<lambda>_. sm_ret ()) else sm_ret ())"

subsection \<open>Requesting pieces\<close>

text \<open>\<open>locked p\<close>: somebody holds the per-piece lock of \<open>p\<close>, so that it cannot be stolen.\<close>

definition acquire_next_piece ::
  "'s live_env \<Rightarrow> handler \<Rightarrow> (nat \<Rightarrow> bool) \<Rightarrow> nat \<Rightarrow> ('s, nat option) lm" where
  "acquire_next_piece E h locked now s =
     (case with_live (ph_addr h) (\<lambda>l. l) (lv_peers s) of
        None \<Rightarrow> (Inr None, s)
      | Some l \<Rightarrow>
        if i_am_choked h then (Inr None, s)
        else sm_bind (sm_res (iter_next_pieces (le_shuffle E) (le_lengths E) (lv_streams s))) (\<lambda>prio.
          sm_bind (with_pieces_mut (acquire_piece
            \<lparr>rq_peer = ph_addr h,
             rq_peer_avg_time = average_piece_download_time (ctrs (lv_peers s) (ph_counters h)),
             rq_priority_pieces = prio,
             rq_file_priorities = lv_file_priorities s,
             rq_file_infos = le_file_infos E,
             rq_peer_has_piece = (\<lambda>p. bf_get (bitfield l) p = Some True),
             rq_can_steal = (\<lambda>p. \<not> locked p)\<rparr> now)) (\<lambda>r.
          case r of
            Reserved piece \<Rightarrow> sm_ret (Some piece)
          | Stolen piece from_peer \<Rightarrow>
            sm_bind (\<lambda>s. case on_steal from_peer (ph_addr h) piece (lv_peers s) of
                (ps, out) \<Rightarrow> (Inr (), s\<lparr>lv_peers := ps, lv_outbox := lv_outbox s @ out\<rparr>))
              (\<lambda>_. sm_ret (Some piece))
          | NoneAvailable \<Rightarrow> sm_ret None)) s)"

definition insert_request :: "chunk_info \<Rightarrow> live_peer_state \<Rightarrow> bool \<times> live_peer_state" where
  "insert_request c l =
     (c \<notin> set (inflight_requests l), l\<lparr>inflight_requests := List.insert c (inflight_requests l)\<rparr>)"

datatype request_result = RequestsSent | RequestsBlocked "chunk_info list" | PeerGone

text \<open>
  The loop over the chunks of the piece \<open>nxt\<close>. \<open>download_ok\<close> is the result of the rate limiters;
  \<open>tx_open\<close> whether the peer's writer is still there. Without a permit of the request semaphore the task
  waits: the result is then the chunks that are left, and the loop goes on with \<open>prepared\<close> set, as the
  first of them is already in the table and past the rate limiters.
\<close>

fun request_chunks ::
  "(nat \<Rightarrow> unit res) \<Rightarrow> bool \<Rightarrow> nat \<Rightarrow> bool \<Rightarrow> chunk_info list \<Rightarrow> ('s, request_result) hm"
and send_request ::
  "(nat \<Rightarrow> unit res) \<Rightarrow> bool \<Rightarrow> nat \<Rightarrow> chunk_info \<Rightarrow> chunk_info list \<Rightarrow> ('s, request_result) hm" where
  "request_chunks download_ok tx_open nxt prepared [] hs = (Inr RequestsSent, hs)"
| "request_chunks download_ok tx_open nxt prepared (c # cs) (h, s) =
     (if prepared then send_request download_ok tx_open nxt c cs (h, s)
      else case with_live_mut (ph_addr h) (insert_request c) (lv_peers s) of
        (None, _) \<Rightarrow> (Inr PeerGone, (h, s))
      | (Some False, ps) \<Rightarrow> request_chunks download_ok tx_open nxt False cs (h, s\<lparr>lv_peers := ps\<rparr>)
      | (Some True, ps) \<Rightarrow>
        if ci_size c = 0 then request_chunks download_ok tx_open nxt False cs (h, s\<lparr>lv_peers := ps\<rparr>)
        else case download_ok (ci_size c) of
          Inl e \<Rightarrow> (Inl e, (h, s\<lparr>lv_peers := ps\<rparr>))
        | Inr _ \<Rightarrow> send_request download_ok tx_open nxt c cs (h, s\<lparr>lv_peers := ps\<rparr>))"
| "send_request download_ok tx_open nxt c cs (h, s) =
     (if requests_sem h = 0 then (Inr (RequestsBlocked (c # cs)), (h, s))
      else let h' = h\<lparr>requests_sem := requests_sem h - 1\<rparr> in
        if \<not> tx_open then (Inr PeerGone, (h', s))
        else request_chunks download_ok tx_open nxt False cs
          (h', s\<lparr>lv_outbox := lv_outbox s @ [(ph_tx h, WrMessage (MsgRequest
             \<lparr>rq_index = nxt, rq_begin = ci_offset c, rq_length = ci_size c\<rparr>))]\<rparr>))"

definition update_interest :: "handler \<Rightarrow> bool \<Rightarrow> bool \<Rightarrow> bool \<Rightarrow> ('s, bool) lm" where
  "update_interest h tx_open current new_value =
     (if new_value = current then sm_ret current
      else if \<not> tx_open then sm_res (Inl PeerTaskDead)
      else sm_bind (send_all [(ph_tx h, WrMessage (if new_value then MsgInterested else MsgNotInterested))])
        (\<lambda>_. sm_ret new_value))"

datatype requester_result = Disconnecting | SleepAndRetry | WaitUnchoke | NoPieces | Requesting nat request_result

text \<open>One round of the requester's loop, with the current interest as its local variable.\<close>

definition requester_round ::
  "'s live_env \<Rightarrow> (nat \<Rightarrow> unit res) \<Rightarrow> bool \<Rightarrow> (nat \<Rightarrow> bool) \<Rightarrow> nat \<Rightarrow> bool \<Rightarrow> ('s, bool \<times> requester_result) hm" where
  "requester_round E download_ok tx_open locked now interest =
     sm_bind (on_live (\<lambda>s. (is_finished_and_no_active_streams E s, s))) (\<lambda>fin.
     sm_bind (\<lambda>hs. on_live (update_interest (fst hs) tx_open interest (\<not> fin)) hs) (\<lambda>interest'.
       if fin then
         sm_bind (sm_gets (\<lambda>(h, s). is_peer_not_interested_and_has_full_torrent (ph_addr h)
             (total_pieces (le_lengths E)) (lv_peers s))) (\<lambda>is_done.
           if is_done then
             (if tx_open then \<lambda>hs. on_live (sm_bind (send_all [(ph_tx (fst hs), WrDisconnect)])
                 (\<lambda>_. sm_ret (interest', Disconnecting))) hs
              else sm_res (Inl PeerTaskDead))
           else sm_ret (interest', SleepAndRetry))
       else sm_bind (sm_gets (\<lambda>(h, _). i_am_choked h)) (\<lambda>choked.
         if choked then sm_ret (interest', WaitUnchoke)
         else sm_bind (\<lambda>hs. on_live (acquire_next_piece E (fst hs) locked now) hs) (\<lambda>nxt.
           case nxt of
             None \<Rightarrow> sm_ret (interest', NoPieces)
           | Some piece \<Rightarrow>
             sm_bind (request_chunks download_ok tx_open piece False (iter_chunk_infos (le_lengths E) piece))
               (\<lambda>r. sm_ret (interest', Requesting piece r))))))"

subsection \<open>Messages\<close>

definition on_download_request :: "'s live_env \<Rightarrow> handler \<Rightarrow> request \<Rightarrow> ('s, unit) lm" where
  "on_download_request E h req s =
     (if le_disable_upload E then (Inl (Bail ''upload disabled, but peer requested a piece''), s)
      else case validate_piece_index (le_lengths E) (rq_index req) of
        None \<Rightarrow> (Inl (Bail ''not a valid chunk request (piece index is invalid)''), s)
      | Some pi \<Rightarrow>
        (case chunk_info_from_received_data (le_lengths E) pi (rq_begin req) (rq_length req) of
           None \<Rightarrow> (Inl (Bail ''not a valid chunk request (chunk data is invalid)''), s)
         | Some ci \<Rightarrow>
           (case get_chunks s of
              Inl e \<Rightarrow> (Inl e, s)
            | Inr c \<Rightarrow>
              if \<not> is_chunk_ready_to_upload ci c
              then (Inl (Bail ''got request for a chunk that is not ready to upload''), s)
              else (Inr (), s\<lparr>lv_upload_queue := lv_upload_queue s @ [(ph_tx h, ci)]\<rparr>))))"

definition set_have_bit :: "lengths \<Rightarrow> nat \<Rightarrow> live_peer_state \<Rightarrow> unit \<times> live_peer_state" where
  "set_have_bit L idx l =
     (let b = (if bitfield l = [] then make_piece_bitfield L else bitfield l)
      in ((), l\<lparr>bitfield := (if idx < length b then b[idx := True] else b)\<rparr>))"

definition on_have :: "'s live_env \<Rightarrow> handler \<Rightarrow> nat \<Rightarrow> ('s, unit) lm" where
  "on_have E h idx =
     sm_bind (on_peers (with_live_mut (ph_addr h) (set_have_bit (le_lengths E) idx)))
       (\<lambda>_. emit EvBitfieldNotify)"

definition on_bitfield :: "'s live_env \<Rightarrow> handler \<Rightarrow> byte list \<Rightarrow> ('s, unit) lm" where
  "on_bitfield E h bs =
     (if length bs \<noteq> piece_bitfield_bytes (le_lengths E)
      then sm_res (Inl (Bail ''dropping peer as its bitfield has unexpected size''))
      else sm_bind (on_peers (update_bitfield (ph_addr h) (bf_from_bytes bs))) (\<lambda>_. emit EvBitfieldNotify))"

definition on_i_am_choked :: "('s, unit) hm" where
  "on_i_am_choked = on_handler (\<lambda>h. h\<lparr>i_am_choked := True\<rparr>)"

definition on_peer_interested :: "handler \<Rightarrow> ('s, unit) lm" where
  "on_peer_interested h = sm_bind (on_peers (mark_peer_interested (ph_addr h) True)) (\<lambda>_. sm_ret ())"

definition on_i_am_unchoked :: "('s, unit) hm" where
  "on_i_am_unchoked =
     sm_bind (on_handler (\<lambda>h. h\<lparr>i_am_choked := False, requests_sem := requests_sem h + 128\<rparr>))
       (\<lambda>_. on_live (emit EvUnchokeNotify))"

text \<open>A received block of data.\<close>

record piece_data =
  pd_index :: nat
  pd_begin :: nat
  pd_data :: "byte list"

definition msg_of :: "piece_data \<Rightarrow> piece_msg" where
  "msg_of p = \<lparr>pm_index = pd_index p, pm_begin = pd_begin p, pm_len = length (pd_data p)\<rparr>"

text \<open>
  \<open>write_to_disk\<close>, first part, under the read lock: is the piece still ours?
\<close>

definition check_steal :: "handler \<Rightarrow> chunk_info \<Rightarrow> 's live \<Rightarrow> bool res" where
  "check_steal h ci s =
     res_bind (get_pieces s) (\<lambda>pt.
       case get_inflight (piece_index ci) pt of
         Some i \<Rightarrow> Inr (ifp_peer i = ph_addr h)
       | None \<Rightarrow> Inr False)"

definition live_write_chunk :: "'s live_env \<Rightarrow> piece_data \<Rightarrow> chunk_info \<Rightarrow> ('s, unit) lm" where
  "live_write_chunk E p ci s =
     (case write_chunk (le_lengths E) (le_ops E) (le_as_ioslices E) (le_file_infos E) (pd_data p) ci (lv_files s) of
        (Inl e, f) \<Rightarrow> on_fatal_error E e (s\<lparr>lv_files := f\<rparr>)
      | (Inr _, f) \<Rightarrow> (Inr (), s\<lparr>lv_files := f\<rparr>))"

text \<open>
  Second part, under the write lock: mark the chunk, and take a completed piece out of the in-flight
  map. The result is the download time of a completed piece, and \<open>None\<close> when there is nothing more to do.
\<close>

definition mark_and_take :: "piece_data \<Rightarrow> chunk_info \<Rightarrow> nat \<Rightarrow> ('s, nat option) lm" where
  "mark_and_take p ci now =
     sm_bind (with_pieces_mut (pt_mark_chunk_downloaded (msg_of p))) (\<lambda>r.
       case r of
         Some Completed \<Rightarrow> with_pieces_mut (\<lambda>pt. Inr (take_inflight (piece_index ci) now pt))
       | Some PreviouslyCompleted \<Rightarrow> sm_ret None
       | Some NotCompleted \<Rightarrow> sm_ret None
       | None \<Rightarrow> sm_res (Inl (Bail ''bogus data received, cannot map this to a chunk, dropping peer'')))"

definition count_piece :: "nat \<Rightarrow> nat \<Rightarrow> atomic_stats \<Rightarrow> atomic_stats" where
  "count_piece piece_len elapsed a =
     a\<lparr>st_downloaded_and_checked_bytes := st_downloaded_and_checked_bytes a + of_nat piece_len,
       st_downloaded_and_checked_pieces := st_downloaded_and_checked_pieces a + 1,
       st_have_bytes := st_have_bytes a + of_nat piece_len,
       st_total_piece_download_ms := st_total_piece_download_ms a + of_nat (elapsed div 1000000)\<rparr>"

text \<open>Third part: the checksum, and what follows from it.\<close>

definition piece_verified :: "'s live_env \<Rightarrow> handler \<Rightarrow> nat \<Rightarrow> nat \<Rightarrow> nat \<Rightarrow> ('s, unit) lm" where
  "piece_verified E h piece elapsed now =
     (let piece_len = piece_length (le_lengths E) piece in
     sm_bind (with_pieces_mut (\<lambda>pt. res_bind (mark_piece_hash_ok piece pt) (\<lambda>pt'. Inr ((), pt')))) (\<lambda>_.
     sm_bind (sm_modify (\<lambda>s. s\<lparr>lv_stats := count_piece piece_len elapsed (lv_stats s)\<rparr>)) (\<lambda>_.
     sm_bind (modify_peers (upd_counters (ph_counters h) (counters_on_piece_completed (of_nat piece_len) elapsed))) (\<lambda>_.
     sm_bind (on_peers (reset_peer_backoff (ph_addr h))) (\<lambda>_.
     sm_bind (on_piece_completed E piece now) (\<lambda>_. transmit_haves piece))))))"

definition piece_broken :: "nat \<Rightarrow> ('s, unit) lm" where
  "piece_broken piece =
     sm_bind (with_pieces_mut (\<lambda>pt. res_bind (mark_piece_hash_failed piece pt) (\<lambda>pt'. Inr ((), pt')))) (\<lambda>_.
     sm_bind (emit EvNewPieces) (\<lambda>_. sm_res (Inl (Bail ''i am probably a bogus peer. dying.''))))"

definition check_downloaded_piece :: "'s live_env \<Rightarrow> handler \<Rightarrow> nat \<Rightarrow> nat \<Rightarrow> nat \<Rightarrow> ('s, unit) lm" where
  "check_downloaded_piece E h piece elapsed now =
     sm_bind (\<lambda>s. (check_piece (le_lengths E) (le_sha1 E) (le_compare_hash E) (le_ops E) (le_file_infos E)
         (lv_files s) piece, s)) (\<lambda>ok.
       if ok then piece_verified E h piece elapsed now else piece_broken piece)"

definition write_to_disk :: "'s live_env \<Rightarrow> handler \<Rightarrow> piece_data \<Rightarrow> chunk_info \<Rightarrow> nat \<Rightarrow> ('s, unit) lm" where
  "write_to_disk E h p ci now =
     sm_bind (\<lambda>s. (check_steal h ci s, s)) (\<lambda>mine.
       if \<not> mine then sm_ret ()
       else sm_bind (live_write_chunk E p ci) (\<lambda>_.
         sm_bind (mark_and_take p ci now) (\<lambda>t.
           case t of None \<Rightarrow> sm_ret ()
           | Some elapsed \<Rightarrow> check_downloaded_piece E h (piece_index ci) elapsed now)))"

definition remove_request :: "chunk_info \<Rightarrow> live_peer_state \<Rightarrow> bool \<times> live_peer_state" where
  "remove_request c l =
     (c \<in> set (inflight_requests l), l\<lparr>inflight_requests := removeAll c (inflight_requests l)\<rparr>)"

definition on_received_piece :: "'s live_env \<Rightarrow> piece_data \<Rightarrow> nat \<Rightarrow> ('s, unit) hm" where
  "on_received_piece E p now =
     (case validate_piece_index (le_lengths E) (pd_index p) of
        None \<Rightarrow> sm_res (Inl (Bail ''peer sent an invalid piece''))
      | Some pi \<Rightarrow>
        if 2 ^ 32 \<le> length (pd_data p) then sm_res (Inl (Bail ''bug''))
        else case chunk_info_from_received_data (le_lengths E) pi (pd_begin p) (length (pd_data p)) of
          None \<Rightarrow> sm_res (Inl (Bail ''peer sent us an invalid piece''))
        | Some ci \<Rightarrow>
          sm_bind (on_handler (\<lambda>h. h\<lparr>requests_sem := requests_sem h + 1\<rparr>)) (\<lambda>_.
          sm_bind (\<lambda>hs. on_live (modify_peers (upd_counters (ph_counters (fst hs)) (\<lambda>c.
              c\<lparr>fetched_bytes := fetched_bytes c + of_nat (length (pd_data p)),
                fetched_chunks := fetched_chunks c + 1\<rparr>))) hs) (\<lambda>_.
          sm_bind (\<lambda>hs. on_live (on_peers (with_live_mut (ph_addr (fst hs)) (remove_request ci))) hs) (\<lambda>removed.
            case removed of
              None \<Rightarrow> sm_res (Inl (Bail ''peer not found''))
            | Some False \<Rightarrow> sm_res (Inl (Bail ''peer sent us a piece we did not ask''))
            | Some True \<Rightarrow>
              sm_bind (on_live (sm_modify (\<lambda>s. s\<lparr>
                  lv_stats := (lv_stats s)\<lparr>st_fetched_bytes := st_fetched_bytes (lv_stats s) + of_nat (length (pd_data p))\<rparr>,
                  lv_session_fetched := lv_session_fetched s + of_nat (length (pd_data p))\<rparr>))) (\<lambda>_.
              (\<lambda>hs. on_live (write_to_disk E (fst hs) p ci now) hs))))))"

text \<open>
  \<open>send_metadata_piece\<close>: the arithmetic on \<open>piece_id\<close> is \<open>u32\<close>. A slice whose start lies beyond
  its end panics. \<open>CHUNK_SIZE\<close> is a constant of \<open>librtbit_core\<close>, the parameter \<open>le_chunk_size\<close>.
\<close>

definition send_metadata_piece :: "'s live_env \<Rightarrow> handler \<Rightarrow> nat \<Rightarrow> ('s, unit) lm" where
  "send_metadata_piece E h piece_id =
     (let data = le_info_bytes E;
          metadata_size = length data;
          total_ps = (metadata_size + le_chunk_size E - 1) div le_chunk_size E
      in if metadata_size = 0 then sm_res (Inl (Bail ''peer requested for info metadata but we don't have it''))
         else if total_ps < piece_id then sm_res (Inl (Bail ''piece out of bounds''))
         else if 2 ^ 32 \<le> piece_id * le_chunk_size E + le_chunk_size E then sm_res (Inl Panic)
         else if 2 ^ 32 \<le> metadata_size then sm_res (Inl (Bail ''out of range integral type conversion attempted''))
         else let offset = piece_id * le_chunk_size E;
                  stop = min (offset + le_chunk_size E) metadata_size
              in if stop < offset then sm_res (Inl Panic)
                 else send_all [(ph_tx h, WrUtMetadata piece_id metadata_size (take (stop - offset) (drop offset data)))])"

text \<open>Each added peer gets its own counters, numbered from \<open>cid\<close>.\<close>

definition on_pex_message :: "ut_pex \<Rightarrow> nat \<Rightarrow> nat \<Rightarrow> ('s, unit) lm" where
  "on_pex_message msg cid now =
     sm_fold (\<lambda>(i, a). sm_bind (add_peer_if_not_seen a (cid + i) now) (\<lambda>_. sm_ret ()))
       (enum (px_dropped msg @ px_added msg))"

definition on_holepunch_message :: "'s live_env \<Rightarrow> handler \<Rightarrow> holepunch_msg \<Rightarrow> nat \<Rightarrow> nat \<Rightarrow> ('s, unit) lm" where
  "on_holepunch_message E h msg cid now =
     (if le_private E then sm_ret ()
      else case hp_type msg of
        Rendezvous \<Rightarrow>
          sm_bind (sm_gets (\<lambda>s. with_live (hp_addr msg) live_tx (lv_peers s))) (\<lambda>target.
            case target of
              Some t \<Rightarrow> send_all
                [(t, WrUtHolepunch \<lparr>hp_type = ConnectHp, hp_addr = ph_addr h, hp_not_connected = False\<rparr>),
                 (ph_tx h, WrUtHolepunch \<lparr>hp_type = ConnectHp, hp_addr = hp_addr msg, hp_not_connected = False\<rparr>)]
            | None \<Rightarrow> send_all
                [(ph_tx h, WrUtHolepunch \<lparr>hp_type = ErrorHp, hp_addr = hp_addr msg, hp_not_connected = True\<rparr>)])
      | ConnectHp \<Rightarrow> sm_bind (add_peer_if_not_seen (hp_addr msg) cid now) (\<lambda>_. sm_ret ())
      | ErrorHp \<Rightarrow> sm_ret ())"

definition note_first_message :: "message \<Rightarrow> ('s, unit) hm" where
  "note_first_message m hs =
     (case m of
        MsgBitfield _ \<Rightarrow> (Inr (), hs)
      | _ \<Rightarrow> if first_message_received (fst hs) then (Inr (), hs)
            else on_live (emit EvBitfieldNotify) ((fst hs)\<lparr>first_message_received := True\<rparr>, snd hs))"

definition dispatch_message :: "'s live_env \<Rightarrow> message \<Rightarrow> nat \<Rightarrow> nat \<Rightarrow> ('s, unit) hm" where
  "dispatch_message E m cid now =
     (case m of
        MsgRequest r \<Rightarrow> (\<lambda>hs. on_live (on_download_request E (fst hs) r) hs)
      | MsgBitfield b \<Rightarrow> (\<lambda>hs. on_live (on_bitfield E (fst hs) b) hs)
      | MsgChoke \<Rightarrow> on_i_am_choked
      | MsgUnchoke \<Rightarrow> on_i_am_unchoked
      | MsgInterested \<Rightarrow> (\<lambda>hs. on_live (on_peer_interested (fst hs)) hs)
      | MsgPiece i b d \<Rightarrow> on_received_piece E \<lparr>pd_index = i, pd_begin = b, pd_data = d\<rparr> now
      | MsgKeepAlive \<Rightarrow> sm_ret ()
      | MsgHave i \<Rightarrow> (\<lambda>hs. on_live (on_have E (fst hs) i) hs)
      | MsgNotInterested \<Rightarrow> sm_ret ()
      | MsgCancel _ \<Rightarrow> sm_ret ()
      | MsgExtended (UtMetadataRequest i) \<Rightarrow>
          if le_private E then sm_ret () else (\<lambda>hs. on_live (send_metadata_piece E (fst hs) i) hs)
      | MsgExtended (UtPexMsg p) \<Rightarrow> if le_private E then sm_ret () else on_live (on_pex_message p cid now)
      | MsgExtended (UtHolepunchMsg p) \<Rightarrow> (\<lambda>hs. on_live (on_holepunch_message E (fst hs) p cid now) hs)
      | MsgExtended _ \<Rightarrow> sm_ret ())"

definition on_received_message :: "'s live_env \<Rightarrow> message \<Rightarrow> nat \<Rightarrow> nat \<Rightarrow> ('s, unit) hm" where
  "on_received_message E m cid now = sm_bind (note_first_message m) (\<lambda>_. dispatch_message E m cid now)"

end
