(* ===== verification/Live_Safety.thy ===== *)
theory Live_Safety
  imports Peer_Handler
begin

text \<open>
  Safety of the live torrent: an invariant of its whole state, that the handlers of
  \<open>src/src/torrent_state/live/\<close> preserve it without panicking, and that a piece is recorded as
  downloaded only after its checksum was verified.
\<close>

subsection \<open>The piece tracker without the queue discipline\<close>

text \<open>
  What holds of the tracker whatever the user selects: its chunk tracker is consistent and its
  in-flight map has valid, distinct pieces.
\<close>

definition pt_wf :: "piece_tracker \<Rightarrow> bool" where
  "pt_wf t \<longleftrightarrow> ct_inv (chunks t) \<and> distinct (map fst (inflight t))
     \<and> (\<forall>p \<in> hm_keys (inflight t). ct_valid (chunks t) p)"

text \<open>Lengths, number of files and the pieces had: what most operations leave alone.\<close>

definition pt_frame :: "piece_tracker \<Rightarrow> lengths \<times> nat \<times> (nat \<Rightarrow> bool)" where
  "pt_frame t = (ct_lengths (chunks t), length (per_file_bytes (chunks t)), bf_bit (have_pieces (chunks t)))"

definition ct_frame :: "chunk_tracker \<Rightarrow> lengths \<times> nat" where
  "ct_frame c = (ct_lengths c, length (per_file_bytes c))"

lemma pt_frame_ct: "pt_frame t = (fst (ct_frame (chunks t)), snd (ct_frame (chunks t)), bf_bit (have_pieces (chunks t)))"
  by (simp add: pt_frame_def ct_frame_def)

lemma pt_wfI:
  assumes "ct_inv (chunks t)" and "distinct (map fst (inflight t))"
    and "\<And>p. p \<in> hm_keys (inflight t) \<Longrightarrow> ct_valid (chunks t) p"
  shows "pt_wf t"
  using assms unfolding pt_wf_def by blast

lemma pt_wfD:
  assumes "pt_wf t"
  shows "ct_inv (chunks t)" "distinct (map fst (inflight t))"
    "p \<in> hm_keys (inflight t) \<Longrightarrow> ct_valid (chunks t) p"
  using assms unfolding pt_wf_def by blast+

lemma ct_frame_ops:
  "reserve_needed_piece p c = Inr c' \<Longrightarrow> ct_frame c' = ct_frame c"
  "mark_piece_broken_if_not_have p c = Inr c' \<Longrightarrow> ct_frame c' = ct_frame c"
  "mark_piece_downloaded p c = Inr c' \<Longrightarrow> ct_frame c' = ct_frame c"
  "mark_chunk_downloaded m c = Inr (r, c') \<Longrightarrow> ct_frame c' = ct_frame c"
  "update_file_have_on_piece_completed p k fi c = Inr (n, c') \<Longrightarrow> ct_frame c' = ct_frame c"
  by (auto simp: ct_frame_def reserve_needed_piece_def mark_piece_broken_if_not_have_def
      mark_piece_downloaded_def mark_chunk_downloaded_frame update_file_have_on_piece_completed_def Let_def
      res_bind_eq_Inr split: if_splits option.splits dest: mark_chunk_downloaded_frame)

lemma ct_frame_fold:
  assumes "res_fold f xs c = Inr c'" and "\<And>x c c'. f x c = Inr c' \<Longrightarrow> ct_frame c' = ct_frame c"
  shows "ct_frame c' = ct_frame c"
  using res_fold_invariant [OF assms(1), of "\<lambda>d. ct_frame d = ct_frame c"] assms(2) by metis

text \<open>
  An operation of the tracker that neither panics nor disturbs well-formedness and frame.
\<close>

definition pt_safe :: "lengths \<times> nat \<times> (nat \<Rightarrow> bool) \<Rightarrow> (piece_tracker \<Rightarrow> ('a \<times> piece_tracker) res) \<Rightarrow> bool" where
  "pt_safe F op \<longleftrightarrow> (\<forall>t. pt_wf t \<and> pt_frame t = F \<longrightarrow>
     res_ok (op t) \<and> (\<forall>x t'. op t = Inr (x, t') \<longrightarrow> pt_wf t' \<and> pt_frame t' = F))"

lemma pt_safeI:
  assumes "\<And>t. pt_wf t \<Longrightarrow> pt_frame t = F \<Longrightarrow> \<exists>x t'. op t = Inr (x, t') \<and> pt_wf t' \<and> pt_frame t' = F"
  shows "pt_safe F op"
  unfolding pt_safe_def using assms by fastforce

lemma chunks_update_wf:
  assumes "pt_wf t" and "ct_inv c" and "ct_frame c = ct_frame (chunks t)"
  shows "pt_wf (t\<lparr>chunks := c\<rparr>)"
proof -
  have "ct_lengths c = ct_lengths (chunks t)" using assms(3) by (simp add: ct_frame_def)
  then show ?thesis using assms(1,2) unfolding pt_wf_def by simp
qed

lemma acquire_piece_wf:
  assumes "pt_wf t" and "\<And>p. p \<in> set (rq_priority_pieces req) \<Longrightarrow> ct_valid (chunks t) p"
    and "acquire_piece req now t = Inr (r, t')"
  shows "pt_wf t' \<and> pt_frame t' = pt_frame t"
  using pt_wfD(1,2) [OF assms(1)] assms(3)
proof (cases rule: acquire_piece_cases)
  case none
  then show ?thesis using assms(1) by simp
next
  case (reserved p)
  then have v: "ct_valid (chunks t) p" using assms(2) by blast
  obtain c where c: "reserve_needed_piece p (chunks t) = Inr c" "ct_inv c"
    "bf_bit (have_pieces c) = bf_bit (have_pieces (chunks t))"
    using ct_store.reserve_law [OF pt_wfD(1) [OF assms(1)] v] by blast
  have t': "t' = \<lparr>chunks = c, inflight = AList.update p \<lparr>ifp_peer = rq_peer req, ifp_started = now\<rparr> (inflight t)\<rparr>"
    using reserved(4) c(1) by (simp add: reserve_piece_def)
  have fr: "ct_frame c = ct_frame (chunks t)" using ct_frame_ops(1) [OF c(1)] .
  have "pt_wf t'"
    by (rule pt_wfI) (use c pt_wfD [OF assms(1)] v fr in \<open>auto simp: t' distinct_update ct_frame_def\<close>)
  then show ?thesis using fr c(3) by (simp add: pt_frame_ct t')
next
  case (stolen p i avg)
  have "p \<in> hm_keys (inflight t)" using stolen(2) by (rule in_keysI)
  then have "pt_wf t'"
    by (intro pt_wfI) (use stolen pt_wfD [OF assms(1)] in \<open>auto simp: steal_to_def distinct_update\<close>)
  then show ?thesis by (simp add: stolen pt_frame_def steal_to_def)
qed

lemma take_inflight_safe: "pt_safe F (\<lambda>t. Inr (take_inflight p now t))"
proof (rule pt_safeI)
  fix t assume wf: "pt_wf t" and F: "pt_frame t = F"
  obtain x t' where x: "take_inflight p now t = (x, t')" by (cases "take_inflight p now t")
  then have t': "t' = t \<or> t' = t\<lparr>inflight := AList.delete p (inflight t)\<rparr>"
    by (auto simp: take_inflight_def split: option.splits)
  have "pt_wf t'"
    using t' wf by (auto simp: pt_wf_def distinct_delete)
  then show "\<exists>x t'. Inr (take_inflight p now t) = Inr (x, t') \<and> pt_wf t' \<and> pt_frame t' = F"
    using x t' F by (auto simp: pt_frame_def)
qed

lemma hash_failed_safe:
  assumes "p < total_pieces (fst F)"
  shows "pt_safe F (\<lambda>t. res_bind (mark_piece_hash_failed p t) (\<lambda>t'. Inr ((), t')))"
proof (rule pt_safeI)
  fix t assume wf: "pt_wf t" and F: "pt_frame t = F"
  have v: "ct_valid (chunks t) p" using assms F by (auto simp: pt_frame_def)
  obtain c where c: "mark_piece_broken_if_not_have p (chunks t) = Inr c" "ct_inv c"
    "bf_bit (have_pieces c) = bf_bit (have_pieces (chunks t))"
    using ct_store.broken_law [OF pt_wfD(1) [OF wf] v] by blast
  show "\<exists>x t'. res_bind (mark_piece_hash_failed p t) (\<lambda>t'. Inr ((), t')) = Inr (x, t') \<and> pt_wf t' \<and> pt_frame t' = F"
    using c F chunks_update_wf [OF wf c(2) ct_frame_ops(2) [OF c(1)]] ct_frame_ops(2) [OF c(1)]
    by (auto simp: mark_piece_hash_failed_def pt_frame_ct)
qed

lemma hash_ok_effect:
  assumes "pt_wf t" and "ct_valid (chunks t) p"
  shows "\<exists>t'. mark_piece_hash_ok p t = Inr t' \<and> pt_wf t' \<and> inflight t' = inflight t
    \<and> pt_frame t' = (ct_lengths (chunks t), length (per_file_bytes (chunks t)),
        (bf_bit (have_pieces (chunks t)))(p := True))"
proof -
  obtain c where c: "mark_piece_downloaded p (chunks t) = Inr c" "ct_inv c"
    "bf_bit (have_pieces c) = (bf_bit (have_pieces (chunks t)))(p := True)"
    using ct_store.downloaded_law [OF pt_wfD(1) [OF assms(1)] assms(2)] by blast
  show ?thesis
    using c chunks_update_wf [OF assms(1) c(2) ct_frame_ops(3) [OF c(1)]] ct_frame_ops(3) [OF c(1)]
    by (auto simp: mark_piece_hash_ok_def pt_frame_ct ct_frame_def)
qed

lemma release_safe: "pt_safe F (release_pieces_owned_by a)"
proof (rule pt_safeI)
  fix t assume wf: "pt_wf t" and F: "pt_frame t = F"
  note D = pt_wfD [OF wf]
  let ?ps = "map fst (filter (\<lambda>(_, info). ifp_peer info = a) (inflight t))"
  have "p \<in> hm_keys (inflight t)" if "p \<in> set ?ps" for p
    using that by (force simp: hm_keys_def)
  then obtain c where c: "res_fold mark_piece_broken_if_not_have ?ps (chunks t) = Inr c" "ct_inv c"
    "bf_bit (have_pieces c) = bf_bit (have_pieces (chunks t))"
    using ct_store.requeue_all [OF D(1), of ?ps] D(3) by blast
  have fr: "ct_frame c = ct_frame (chunks t)"
    by (rule ct_frame_fold [OF c(1)]) (rule ct_frame_ops(2))
  let ?t = "t\<lparr>chunks := c, inflight := filter (\<lambda>x. fst x \<notin> set ?ps) (inflight t)\<rparr>"
  have "pt_wf ?t"
  proof (rule pt_wfI)
    fix p assume "p \<in> hm_keys (inflight ?t)"
    then have "p \<in> hm_keys (inflight t)" by (auto simp: hm_keys_def)
    then show "ct_valid (chunks ?t) p" using D(3) fr by (simp add: ct_frame_def)
  qed (use c(2) D(2) in \<open>simp_all add: distinct_keys_filter\<close>)
  moreover have "release_pieces_owned_by a t = Inr (length ?ps, ?t)"
    unfolding release_pieces_owned_by_def Let_def release_fold_eq c(1) by simp
  moreover have "pt_frame ?t = F" using F fr c(3) by (simp add: pt_frame_ct)
  ultimately show "\<exists>x t'. release_pieces_owned_by a t = Inr (x, t') \<and> pt_wf t' \<and> pt_frame t' = F"
    by blast
qed

lemma mark_chunk_safe:
  assumes "pm_len m < 2 ^ 32"
  shows "pt_safe F (pt_mark_chunk_downloaded m)"
proof (rule pt_safeI)
  fix t assume wf: "pt_wf t" and F: "pt_frame t = F"
  obtain r c where c: "mark_chunk_downloaded m (chunks t) = Inr (r, c)"
    using mark_chunk_downloaded_total [OF pt_wfD(1) [OF wf] assms] by blast
  have inv: "ct_inv c" using ct_inv_chunk [OF pt_wfD(1) [OF wf] c] .
  note fr = ct_frame_ops(4) [OF c]
  have "pt_mark_chunk_downloaded m t = Inr (r, t\<lparr>chunks := c\<rparr>)"
    using c by (simp add: pt_mark_chunk_downloaded_def)
  moreover have "pt_frame (t\<lparr>chunks := c\<rparr>) = F"
    using F fr mark_chunk_downloaded_frame [OF c] by (auto simp: pt_frame_ct)
  ultimately show "\<exists>x t'. pt_mark_chunk_downloaded m t = Inr (x, t') \<and> pt_wf t' \<and> pt_frame t' = F"
    using chunks_update_wf [OF wf inv fr] by blast
qed

lemma file_have_safe:
  assumes "k < fst (snd F)" and "p < total_pieces (fst F)"
  shows "pt_safe F (pt_update_file_have_on_piece_completed p k fi)"
proof (rule pt_safeI)
  fix t assume wf: "pt_wf t" and F: "pt_frame t = F"
  have "k < length (per_file_bytes (chunks t))" "ct_valid (chunks t) p"
    using assms F by (auto simp: pt_frame_def)
  then obtain n c where c: "update_file_have_on_piece_completed p k fi (chunks t) = Inr (n, c)"
    by (auto simp: update_file_have_on_piece_completed_def vec_index_def Let_def)
  have inv: "ct_inv c"
    using ct_step_inv [OF step_file_have [OF \<open>ct_valid (chunks t) p\<close> c]] pt_wfD(1) [OF wf] .
  note fr = ct_frame_ops(5) [OF c]
  have hv: "have_pieces c = have_pieces (chunks t)"
    using c by (auto simp: update_file_have_on_piece_completed_def Let_def res_bind_eq_Inr)
  have "pt_update_file_have_on_piece_completed p k fi t = Inr (n, t\<lparr>chunks := c\<rparr>)"
    using c by (simp add: pt_update_file_have_on_piece_completed_def)
  moreover have "pt_frame (t\<lparr>chunks := c\<rparr>) = F" using F fr hv by (simp add: pt_frame_ct)
  ultimately show "\<exists>x t'. pt_update_file_have_on_piece_completed p k fi t = Inr (x, t') \<and> pt_wf t' \<and> pt_frame t' = F"
    using chunks_update_wf [OF wf inv fr] by blast
qed

subsection \<open>The invariant of the live torrent\<close>

text \<open>
  Accurate counters, a well-formed tracker for this torrent that has exactly the pieces \<open>H\<close> (unless the
  torrent was paused), and streams on files that exist.
\<close>

definition live_ok ::
  "'s live_env \<Rightarrow> (counter_class \<Rightarrow> u32) \<Rightarrow> (nat \<Rightarrow> bool) \<Rightarrow> 's live \<Rightarrow> bool" where
  "live_ok E others H s \<longleftrightarrow> peers_inv others (lv_peers s)
     \<and> (\<forall>pt. lv_pieces s = Some pt \<longrightarrow> pt_wf pt \<and> pt_frame pt = (le_lengths E, length (le_file_infos E), H))
     \<and> (\<forall>f \<in> set (streamed_file_ids (lv_streams s)). f < length (le_file_infos E))"

lemma live_ok_upd [simp]:
  "live_ok E others H (s\<lparr>lv_events := ev\<rparr>) = live_ok E others H s"
  "live_ok E others H (s\<lparr>lv_outbox := ob\<rparr>) = live_ok E others H s"
  "live_ok E others H (s\<lparr>lv_queue := q\<rparr>) = live_ok E others H s"
  "live_ok E others H (s\<lparr>lv_stats := st\<rparr>) = live_ok E others H s"
  "live_ok E others H (s\<lparr>lv_session_fetched := x\<rparr>) = live_ok E others H s"
  "live_ok E others H (s\<lparr>lv_session_uploaded := x\<rparr>) = live_ok E others H s"
  "live_ok E others H (s\<lparr>lv_files := fl\<rparr>) = live_ok E others H s"
  "live_ok E others H (s\<lparr>unflushed_bitv_bytes := x\<rparr>) = live_ok E others H s"
  "live_ok E others H (s\<lparr>lv_fatal_errors_tx := b\<rparr>) = live_ok E others H s"
  "live_ok E others H (s\<lparr>lv_cancelled := b\<rparr>) = live_ok E others H s"
  "live_ok E others H (s\<lparr>lv_upload_queue := uq\<rparr>) = live_ok E others H s"
  "live_ok E others H (s\<lparr>lv_permits := n\<rparr>) = live_ok E others H s"
  by (simp_all add: live_ok_def)

lemma live_ok_peers:
  "live_ok E others H s \<Longrightarrow> peers_inv others ps \<Longrightarrow> live_ok E others H (s\<lparr>lv_peers := ps\<rparr>)"
  "live_ok E others H s \<Longrightarrow> peers_inv others (lv_peers s)"
  by (simp_all add: live_ok_def)

lemma emit_safe [safe_intros]: "safe (live_ok E others H) (emit e)"
  unfolding emit_def by (rule safe_modify) simp

lemma send_all_safe [safe_intros]: "safe (live_ok E others H) (send_all out)"
  unfolding send_all_def by (rule safe_modify) simp

lemma modify_peers_safe:
  "(\<And>ps. peers_inv others ps \<Longrightarrow> peers_inv others (g ps)) \<Longrightarrow> safe (live_ok E others H) (modify_peers g)"
  unfolding modify_peers_def by (rule safe_modify) (simp add: live_ok_peers)

lemma upd_counters_safe [safe_intros]: "safe (live_ok E others H) (modify_peers (upd_counters c f))"
  by (rule modify_peers_safe) (simp add: peers_inv_counters_irrelevant)

lemma on_peers_safe:
  assumes "\<And>ps. peers_inv others ps \<Longrightarrow> peers_inv others (snd (g ps))"
  shows "safe (live_ok E others H) (on_peers g)"
  unfolding safe_def on_peers_def
proof (intro allI impI)
  fix s assume s: "live_ok E others H s"
  obtain r ps where g: "g (lv_peers s) = (r, ps)" by (cases "g (lv_peers s)")
  have "peers_inv others ps" using assms [OF live_ok_peers(2) [OF s]] g by simp
  then show "live_ok E others H (snd (case g (lv_peers s) of (r, ps) \<Rightarrow> (Inr r, s\<lparr>lv_peers := ps\<rparr>)))
      \<and> res_ok (fst (case g (lv_peers s) of (r, ps) \<Rightarrow> (Inr r, s\<lparr>lv_peers := ps\<rparr>)))"
    using s by (simp add: g live_ok_peers)
qed

lemma with_pieces_mut_safe:
  assumes "pt_safe (le_lengths E, length (le_file_infos E), H) op"
  shows "safe (live_ok E others H) (with_pieces_mut op)"
  unfolding safe_def
proof (intro allI impI)
  fix s assume s: "live_ok E others H s"
  show "live_ok E others H (snd (with_pieces_mut op s)) \<and> res_ok (fst (with_pieces_mut op s))"
  proof (cases "lv_pieces s")
    case None
    with s show ?thesis by (simp add: with_pieces_mut_def)
  next
    case (Some pt)
    have "res_ok (op pt)" "\<And>x pt'. op pt = Inr (x, pt') \<Longrightarrow> pt_wf pt'
        \<and> pt_frame pt' = (le_lengths E, length (le_file_infos E), H)"
      using assms s Some unfolding pt_safe_def live_ok_def by blast+
    then show ?thesis
      using s Some by (cases "op pt") (auto simp: with_pieces_mut_def live_ok_def res_ok_def)
  qed
qed

lemma try_send_queue_safe [safe_intros]: "safe (live_ok E others H) (try_send_queue a)"
  by (simp add: safe_def try_send_queue_def)

lemma try_flush_bitv_safe [safe_intros]: "safe (live_ok E others H) (try_flush_bitv E b)"
  by (auto simp: safe_def try_flush_bitv_def split: option.splits sum.splits)

lemma maybe_flush_safe [safe_intros]: "safe (live_ok E others H) (maybe_flush E)"
  using try_flush_bitv_safe [of E others H True] by (simp add: safe_def maybe_flush_def)

lemma res_any_ok: "(\<And>x. x \<in> set xs \<Longrightarrow> res_ok (f x)) \<Longrightarrow> res_ok (res_any f xs)"
proof (induction xs)
  case (Cons x xs)
  then show ?case by (cases "f x") (auto simp: res_ok_def)
qed simp

lemma active_streams_ok: "live_ok E others H s \<Longrightarrow> res_ok (has_active_streams_unfinished_files E s)"
  unfolding has_active_streams_unfinished_files_def
  by (cases "get_chunks s") (auto intro!: res_any_ok simp: live_ok_def vec_index_def)

lemma finished_no_streams_ok: "live_ok E others H s \<Longrightarrow> res_ok (is_finished_and_no_active_streams E s)"
  using active_streams_ok [of E others H s]
  by (cases "has_active_streams_unfinished_files E s") (auto simp: is_finished_and_no_active_streams_def res_ok_def)

lemma get_chunks_ok: "res_ok (get_chunks s)" "res_ok (get_pieces s)"
  by (cases "lv_pieces s"; simp add: get_chunks_def get_pieces_def)+

lemma disconnect_if_full_safe: "safe (live_ok E others H) (disconnect_if_full L now a)"
  unfolding safe_def
proof (intro allI impI)
  fix s assume s: "live_ok E others H s"
  have "live_ok E others H (s\<lparr>lv_peers := snd (with_peer_mut a (set_not_needed now) (lv_peers s))\<rparr>)"
    by (rule live_ok_peers(1) [OF s]) (rule set_not_needed_tr.with_peer_mut_inv [OF live_ok_peers(2) [OF s]])
  with s show "live_ok E others H (snd (disconnect_if_full L now a s)) \<and> res_ok (fst (disconnect_if_full L now a s))"
    by (auto simp: disconnect_if_full_def live_ok_def split: option.splits peer_state.splits prod.splits)
qed

lemma disconnect_all_safe [safe_intros]:
  "safe (live_ok E others H) (disconnect_all_peers_that_have_full_torrent L now)"
  using safe_fold [of _ "live_ok E others H" "disconnect_if_full L now"] disconnect_if_full_safe [of E others H L now]
  by (simp add: safe_def disconnect_all_peers_that_have_full_torrent_def)

lemma wake_streams_safe [safe_intros]: "safe (live_ok E others H) (wake_streams L i)"
  by (auto simp: safe_def wake_streams_def wake_streams_on_piece_completed_def Let_def live_ok_def
      streamed_file_ids_def)

lemma files_of_piece_bound: "(k, fi) \<in> set (files_of_piece fis i) \<Longrightarrow> k < length fis"
  unfolding files_of_piece_def Let_def
  by (auto dest!: set_takeWhileD set_dropWhileD simp: set_enum)

lemma on_piece_completed_safe:
  assumes "i < total_pieces (le_lengths E)"
  shows "safe (live_ok E others H) (on_piece_completed E i now)"
proof -
  have finish: "safe (live_ok E others H) (on_piece_completed_finish E i now)"
    unfolding on_piece_completed_finish_def
  proof (rule safe_bind_read [OF get_chunks_ok(1)])
    fix c s assume "live_ok E others H s" and "get_chunks s = Inr c"
    then have "ct_inv c" "ct_lengths c = le_lengths E"
      by (auto simp: get_chunks_def live_ok_def pt_wf_def pt_frame_def)
    then have "i < length (selected c)" using assms valid_in_range [of c i] by simp
    then have sel: "res_ok (bf_index (selected c) i)" by (simp add: bf_index_def)
    show "safe (live_ok E others H) (if \<not> is_finished c then sm_ret ()
       else sm_bind (sm_res (bf_index (selected c) i)) (\<lambda>sel.
         sm_bind (if sel then try_flush_bitv E False else sm_ret ()) (\<lambda>_.
         sm_bind (emit EvFinished) (\<lambda>_.
         sm_bind (\<lambda>s. (has_active_streams_unfinished_files E s, s)) (\<lambda>active.
           if active then sm_ret ()
           else disconnect_all_peers_that_have_full_torrent (le_lengths E) now)))))"
      by (auto intro!: safe_intros sel active_streams_ok)
  qed
  have files: "safe (live_ok E others H) (sm_fold (\<lambda>(idx, fi).
      sm_bind (with_pieces_mut (pt_update_file_have_on_piece_completed i idx fi)) (\<lambda>_. sm_ret ()))
       (files_of_piece (le_file_infos E) i))"
    by (rule safe_fold)
      (auto intro!: safe_intros with_pieces_mut_safe file_have_safe simp: assms files_of_piece_bound)
  have "safe (live_ok E others H) (\<lambda>s. (Inr (), s\<lparr>lv_files := snd (so_on_piece_completed (le_ops E) (lv_files s) i)\<rparr>))"
    by (simp add: safe_def)
  then show ?thesis
    unfolding on_piece_completed_def
    by (intro safe_bind files finish safe_read get_chunks_ok wake_streams_safe safe_modify maybe_flush_safe) simp_all
qed

subsection \<open>The handlers keep the invariant\<close>

interpretation set_have_bit_upd: live_update "set_have_bit L i" for L i
  by unfold_locales (simp add: set_have_bit_def Let_def)

interpretation insert_request_upd: live_update "insert_request c" for c
  by unfold_locales (simp add: insert_request_def)

interpretation remove_request_upd: live_update "remove_request c" for c
  by unfold_locales (simp add: remove_request_def)

interpretation set_outgoing_tr: peer_transition "set_outgoing_address a" for a
  by unfold_locales (simp_all add: set_outgoing_address_def)

interpretation next_backoff_tr: peer_transition "next_backoff E" for E
  by unfold_locales (simp_all add: next_backoff_def)

interpretation dead_to_queued_tr: peer_transition "dead_to_queued now" for now
  by unfold_locales (simp_all add: dead_to_queued_def split: peer_state.split)

interpretation dead_to_queued_reset_tr: peer_transition "dead_to_queued_reset now" for now
  by unfold_locales (simp_all add: dead_to_queued_reset_def reset_backoff_def split_beta split: peer_state.split)

interpretation take_state_tr: peer_transition "take_state now" for now
  by unfold_locales (simp_all add: take_state_def)

lemmas handler_peers_inv = peers_op_inv set_have_bit_upd.with_live_mut_inv insert_request_upd.with_live_mut_inv
  remove_request_upd.with_live_mut_inv set_outgoing_tr.with_peer_mut_inv next_backoff_tr.with_peer_mut_inv
  dead_to_queued_tr.with_peer_mut_inv dead_to_queued_reset_tr.with_peer_mut_inv take_state_tr.with_peer_mut_inv

lemma on_peers_ops_safe [safe_intros]:
  "safe (live_ok E others H) (on_peers (with_peer_mut a (set_state new now)))"
  "safe (live_ok E others H) (on_peers (with_peer_mut a (take_state now)))"
  "safe (live_ok E others H) (on_peers (with_peer_mut a (connecting_to_live pid kind now)))"
  "safe (live_ok E others H) (on_peers (with_peer_mut a (set_outgoing_address b)))"
  "safe (live_ok E others H) (on_peers (with_peer_mut a (next_backoff E')))"
  "safe (live_ok E others H) (on_peers (with_peer_mut a (dead_to_queued now)))"
  "safe (live_ok E others H) (on_peers (with_peer_mut a (reconnect_not_needed_peer now)))"
  "safe (live_ok E others H) (on_peers (with_live_mut a (set_have_bit L i)))"
  "safe (live_ok E others H) (on_peers (with_live_mut a (remove_request c)))"
  "safe (live_ok E others H) (on_peers (update_bitfield a v))"
  "safe (live_ok E others H) (on_peers (mark_peer_interested a b'))"
  "safe (live_ok E others H) (on_peers (reset_peer_backoff a))"
  "safe (live_ok E others H) (on_peers (drop_peer a))"
  "safe (live_ok E others H) (on_peers (add_if_not_seen a cid now))"
  by (rule on_peers_safe, simp add: handler_peers_inv update_bitfield_def mark_peer_interested_def
      reset_peer_backoff_def)+

lemma add_peer_if_not_seen_safe [safe_intros]: "safe (live_ok E others H) (add_peer_if_not_seen a cid now)"
  unfolding add_peer_if_not_seen_def by (auto intro!: safe_intros split: option.split)

lemma set_state_of_safe [safe_intros]: "safe (live_ok E others H) (set_state_of a new now)"
  unfolding set_state_of_def by (intro safe_intros)

lemma release_pieces_of_safe [safe_intros]: "safe (live_ok E others H) (release_pieces_of a l)"
  unfolding release_pieces_of_def by (auto intro!: safe_intros with_pieces_mut_safe release_safe)

lemma on_peer_died_safe: "safe (live_ok E others H) (on_peer_died E h err now)"
proof -
  have err: "safe (live_ok E others H) (on_peer_died_error E h now)"
    unfolding on_peer_died_error_def
    by (auto intro!: safe_intros finished_no_streams_ok split: option.split)
  show ?thesis
    unfolding on_peer_died_def
    by (auto intro!: safe_intros err split: option.split peer_state.split)
qed

definition hok :: "'s live_env \<Rightarrow> (counter_class \<Rightarrow> u32) \<Rightarrow> (nat \<Rightarrow> bool) \<Rightarrow> 's hstate \<Rightarrow> bool" where
  "hok E others H hs = live_ok E others H (snd hs)"

lemma on_live_safe [safe_intros]:
  "(\<And>h. safe (live_ok E others H) (m h)) \<Longrightarrow> safe (hok E others H) (\<lambda>hs. on_live (m (fst hs)) hs)"
  by (simp add: safe_def hok_def on_live_def split_beta)

lemma on_live_safe' [safe_intros]:
  "safe (live_ok E others H) m \<Longrightarrow> safe (hok E others H) (on_live m)"
  by (simp add: safe_def hok_def on_live_def split_beta)

lemma on_handler_safe [safe_intros]: "safe (hok E others H) (on_handler g)"
  by (auto simp: safe_def hok_def on_handler_def sm_modify_def)

lemma note_first_message_safe [safe_intros]: "safe (hok E others H) (note_first_message m)"
proof -
  have cases: "note_first_message m hs = (Inr (), hs) \<or>
     note_first_message m hs = on_live (emit EvBitfieldNotify) ((fst hs)\<lparr>first_message_received := True\<rparr>, snd hs)" for hs :: "'a hstate"
    by (cases m) (simp_all add: note_first_message_def)
  show ?thesis
    unfolding safe_def hok_def
  proof (intro allI impI)
    fix hs :: "'a hstate" assume s: "live_ok E others H (snd hs)"
    show "live_ok E others H (snd (snd (note_first_message m hs))) \<and> res_ok (fst (note_first_message m hs))"
      using cases [of hs] s safeD [OF emit_safe s, of EvBitfieldNotify] by (auto simp: on_live_def split_beta)
  qed
qed

text \<open>Blocks of data: the part of the chain up to the checksum.\<close>

definition store_safe :: "'s store_ops \<Rightarrow> bool" where
  "store_safe ops \<longleftrightarrow> (\<forall>s f off n. res_ok (so_pread_exact ops s f off n))
     \<and> (\<forall>s f off b. res_ok (fst (so_pwrite_all_vectored ops s f off b)))"

definition env_ok :: "'s live_env \<Rightarrow> bool" where
  "env_ok E \<longleftrightarrow> lengths_ok (le_lengths E) \<and> store_safe (le_ops E) \<and> (\<forall>qs. mset (le_shuffle E qs) = mset qs)"

lemma update_hash_ok:
  assumes "store_safe ops" and "0 < buf_len"
  shows "res_ok (update_hash_from_file ops s i fi pos buf_len n h)"
proof (induction n arbitrary: pos h rule: less_induct)
  case (less n)
  have rd: "res_ok (if padding fi then Inr (replicate k 0) else so_pread_exact ops s i pos k)" for k
    using assms(1) by (simp add: store_safe_def)
  show ?case
  proof (cases "n = 0")
    case True
    then show ?thesis by (simp add: update_hash_from_file.simps)
  next
    case False
    have "res_ok (update_hash_from_file ops s i fi (pos + min buf_len n) buf_len (n - min buf_len n) h')" for h'
      using False assms(2) by (intro less.IH) auto
    then show ?thesis
      using False assms(2) rd [of "min buf_len n"]
      by (subst update_hash_from_file.simps)
        (auto simp: Let_def res_bind_def res_ok_def split: sum.split if_splits)
  qed
qed

lemma check_piece_loop_ok:
  assumes "store_safe ops" and "0 < buf_len"
  shows "res_ok (check_piece_loop ops s buf_len fs off n h)"
proof (induction fs arbitrary: off n h)
  case (Cons x fs)
  obtain i fi where x: "x = (i, fi)" by (cases x)
  have "res_ok (update_hash_from_file ops s i fi off buf_len k h)" for k
    using update_hash_ok [OF assms] .
  then show ?case
    using Cons by (auto simp: x Let_def res_bind_def res_ok_def split: sum.split)
qed simp

lemma check_piece_ok:
  assumes "env_ok E" and "i < total_pieces (le_lengths E)"
  shows "res_ok (check_piece (le_lengths E) sha1 cmp (le_ops E) files s i)"
proof -
  have pos: "0 < min 65536 (piece_length (le_lengths E) i)"
    using assms lengths_ok_chunks(2) by (simp add: env_ok_def)
  have "store_safe (le_ops E)" using assms(1) by (simp add: env_ok_def)
  from check_piece_loop_ok [OF this pos]
  show ?thesis
    unfolding check_piece_def Let_def
    by (auto simp: res_bind_def res_ok_def split: sum.split option.split)
qed

lemma write_chunk_loop_ok:
  assumes "store_safe ops"
  shows "res_ok (fst (write_chunk_loop ops sp fs off data s))"
proof (induction fs arbitrary: off data s)
  case (Cons x fs)
  obtain i fi where x: "x = (i, fi)" by (cases x)
  let ?k = "min (length data) (fi_len fi - off)"
  have "res_ok (fst (if padding fi then (Inr ?k, s) else so_pwrite_all_vectored ops s i off (sp (take ?k data))))"
    using assms unfolding store_safe_def by (cases "sp (take ?k data)") simp
  then show ?case
    using Cons by (auto simp: x Let_def res_ok_def split: prod.split sum.split if_splits)
qed simp

lemma live_write_chunk_safe:
  assumes "env_ok E"
  shows "safe (live_ok E others H) (live_write_chunk E p ci)"
  unfolding safe_def
proof (intro allI impI)
  fix s assume s: "live_ok E others H s"
  obtain r f where rf: "write_chunk (le_lengths E) (le_ops E) (le_as_ioslices E) (le_file_infos E) (pd_data p) ci
      (lv_files s) = (r, f)" by fastforce
  have "res_ok r" using write_chunk_loop_ok [of "le_ops E"] rf assms
    by (metis env_ok_def fst_conv write_chunk_def)
  then show "live_ok E others H (snd (live_write_chunk E p ci s)) \<and> res_ok (fst (live_write_chunk E p ci s))"
    using s rf by (cases r) (auto simp: live_write_chunk_def on_fatal_error_def Let_def)
qed

lemma mark_and_take_safe:
  assumes "length (pd_data p) < 2 ^ 32"
  shows "safe (live_ok E others H) (mark_and_take p ci now)"
  unfolding mark_and_take_def using assms
  by (auto intro!: safe_intros with_pieces_mut_safe mark_chunk_safe take_inflight_safe simp: msg_of_def
      split: option.split chunk_marking_result.split)

text \<open>
  After the checksum: either nothing is recorded, or the checksum was right and exactly this
  piece is recorded.
\<close>

lemma check_downloaded_piece_outcome:
  fixes E :: "'s live_env" and h elapsed now
  assumes "env_ok E" and "i < total_pieces (le_lengths E)" and s: "live_ok E others H s"
  defines "ok \<equiv> check_piece (le_lengths E) (le_sha1 E) (le_compare_hash E) (le_ops E) (le_file_infos E) (lv_files s) i"
    and "out \<equiv> check_downloaded_piece E h i elapsed now s"
  shows "res_ok (fst out) \<and> (live_ok E others H (snd out) \<or> ok = Inr True \<and> live_ok E others (H(i := True)) (snd out))"
proof (cases ok)
  case (Inl e)
  then show ?thesis
    using s check_piece_ok [OF assms(1,2), of "le_sha1 E" "le_compare_hash E" "le_file_infos E" "lv_files s"] by (simp add: out_def check_downloaded_piece_def sm_bind_def ok_def res_ok_def)
next
  case (Inr b)
  show ?thesis
  proof (cases b)
    case False
    have "safe (live_ok E others H) (piece_broken i)"
      unfolding piece_broken_def using assms(2)
      by (auto intro!: safe_intros with_pieces_mut_safe hash_failed_safe)
    then show ?thesis
      using s Inr False by (simp add: out_def check_downloaded_piece_def sm_bind_def ok_def safe_def)
  next
    case True
    let ?rest = "sm_bind (sm_modify (\<lambda>s. s\<lparr>lv_stats := count_piece (piece_length (le_lengths E) i) elapsed (lv_stats s)\<rparr>)) (\<lambda>_.
     sm_bind (modify_peers (upd_counters (ph_counters h) (counters_on_piece_completed (of_nat (piece_length (le_lengths E) i)) elapsed))) (\<lambda>_.
     sm_bind (on_peers (reset_peer_backoff (ph_addr h))) (\<lambda>_.
     sm_bind (on_piece_completed E i now) (\<lambda>_. transmit_haves i))))"
    have rest: "safe (live_ok E others H') ?rest" for H'
      unfolding transmit_haves_def
      by (auto intro!: safe_intros on_piece_completed_safe assms(2))
    have out: "out = sm_bind (with_pieces_mut (\<lambda>pt. res_bind (mark_piece_hash_ok i pt) (\<lambda>pt'. Inr ((), pt')))) (\<lambda>_. ?rest) s"
      using Inr True by (simp add: out_def check_downloaded_piece_def sm_bind_def ok_def piece_verified_def Let_def)
    show ?thesis
    proof (cases "lv_pieces s")
      case None
      then show ?thesis using s by (simp add: out sm_bind_def with_pieces_mut_def)
    next
      case (Some pt)
      have pt: "pt_wf pt" "pt_frame pt = (le_lengths E, length (le_file_infos E), H)"
        using s Some by (auto simp: live_ok_def)
      then obtain pt' where pt': "mark_piece_hash_ok i pt = Inr pt'" "pt_wf pt'"
        "pt_frame pt' = (le_lengths E, length (le_file_infos E), H(i := True))"
        using hash_ok_effect [OF pt(1), of i] assms(2) by (auto simp: pt_frame_def)
      have "live_ok E others (H(i := True)) (s\<lparr>lv_pieces := Some pt'\<rparr>)"
        using s pt' by (simp add: live_ok_def)
      note fin = safeD [OF rest this]
      have step: "out = ?rest (s\<lparr>lv_pieces := Some pt'\<rparr>)"
        unfolding out using Some pt' by (simp add: sm_bind_def [of "with_pieces_mut _"] with_pieces_mut_def)
      have "ok = Inr True" using Inr True by simp
      then show ?thesis unfolding step using fin by blast
    qed
  qed
qed

lemma write_to_disk_outcome:
  fixes E :: "'s live_env" and h now
  assumes E: "env_ok E" and i: "piece_index ci < total_pieces (le_lengths E)" and s: "live_ok E others H s"
    and len: "length (pd_data p) < 2 ^ 32"
  defines "out \<equiv> write_to_disk E h p ci now s"
  shows "res_ok (fst out) \<and> (live_ok E others H (snd out) \<or>
     (\<exists>f. write_chunk (le_lengths E) (le_ops E) (le_as_ioslices E) (le_file_infos E) (pd_data p) ci (lv_files s) = (Inr (), f)
        \<and> check_piece (le_lengths E) (le_sha1 E) (le_compare_hash E) (le_ops E) (le_file_infos E) f (piece_index ci) = Inr True)
     \<and> live_ok E others (H(piece_index ci := True)) (snd out))"
proof -
  have steal: "res_ok (check_steal h ci s)"
    unfolding check_steal_def using get_chunks_ok(2) [of s]
    by (cases "get_pieces s") (auto simp: res_ok_def split: option.split)
  show ?thesis
  proof (cases "check_steal h ci s = Inr True")
    case False
    then show ?thesis
      using s steal by (cases "check_steal h ci s") (auto simp: out_def write_to_disk_def sm_bind_def sm_ret_def res_ok_def)
  next
    case True
    obtain r1 s1 where w: "live_write_chunk E p ci s = (r1, s1)" by (cases "live_write_chunk E p ci s")
    have s1: "live_ok E others H s1" "res_ok r1"
      using safeD [OF live_write_chunk_safe [OF E] s, of p ci] w by simp_all
    obtain r2 s2 where m: "mark_and_take p ci now s1 = (r2, s2)" by (cases "mark_and_take p ci now s1")
    have s2: "live_ok E others H s2" "res_ok r2"
      using safeD [OF mark_and_take_safe [OF len] s1(1), of ci now] m by simp_all
    have files: "lv_files s2 = lv_files s1"
      using m by (auto simp: mark_and_take_def sm_bind_def with_pieces_mut_def sm_ret_def sm_res_def
          split: option.splits sum.splits prod.splits chunk_marking_result.splits)
    have wc: "\<exists>f. write_chunk (le_lengths E) (le_ops E) (le_as_ioslices E) (le_file_infos E) (pd_data p) ci
        (lv_files s) = (Inr (), f) \<and> lv_files s1 = f" if "r1 = Inr u" for u
      using w that by (auto simp: live_write_chunk_def on_fatal_error_def Let_def split: prod.splits sum.splits if_splits)
    show ?thesis
    proof (cases "\<exists>elapsed. r1 = Inr () \<and> r2 = Inr (Some elapsed)")
      case False
      then have "out = (Inr (), s2) \<or> (\<exists>e. out = (Inl e, s1) \<and> r1 = Inl e) \<or> (\<exists>e. out = (Inl e, s2) \<and> r2 = Inl e)"
        using True w m by (cases r1; cases r2)
          (auto simp: out_def write_to_disk_def sm_bind_def sm_ret_def split: option.split)
      then show ?thesis using s1 s2 by (auto simp: res_ok_def)
    next
      case r: True
      then obtain elapsed where r: "r1 = Inr ()" "r2 = Inr (Some elapsed)" by blast
      have "out = check_downloaded_piece E h (piece_index ci) elapsed now s2"
        using True w m r by (simp add: out_def write_to_disk_def sm_bind_def)
      then show ?thesis
        using check_downloaded_piece_outcome [OF E i s2(1), of h elapsed now] wc [OF r(1)] files by auto
    qed
  qed
qed

text \<open>
  Which state a received message may lead to: the pieces had are the same, or the message was the last
  missing block of a piece that then passed its checksum on the storage it was written to.
\<close>

definition block_verified :: "'s live_env \<Rightarrow> 's live \<Rightarrow> nat \<Rightarrow> nat \<Rightarrow> byte list \<Rightarrow> bool" where
  "block_verified E s i b d \<longleftrightarrow> (\<exists>ci f. chunk_info_from_received_data (le_lengths E) i b (length d) = Some ci
     \<and> write_chunk (le_lengths E) (le_ops E) (le_as_ioslices E) (le_file_infos E) d ci (lv_files s) = (Inr (), f)
     \<and> check_piece (le_lengths E) (le_sha1 E) (le_compare_hash E) (le_ops E) (le_file_infos E) f i = Inr True)"

lemma on_received_piece_outcome:
  fixes E :: "'s live_env" and p now h
  assumes E: "env_ok E" and s: "live_ok E others H s"
  defines "out \<equiv> on_received_piece E p now (h, s)"
  shows "res_ok (fst out) \<and> (hok E others H (snd out) \<or>
     block_verified E s (pd_index p) (pd_begin p) (pd_data p) \<and> hok E others (H(pd_index p := True)) (snd out))"
proof -
  have L: "lengths_ok (le_lengths E)" using E by (simp add: env_ok_def)
  let ?cd = "chunk_info_from_received_data (le_lengths E) (pd_index p) (pd_begin p) (length (pd_data p))"
  show ?thesis
  proof (cases "pd_index p < total_pieces (le_lengths E) \<and> length (pd_data p) < 2 ^ 32 \<and> ?cd \<noteq> None")
    case False
    then show ?thesis
      using s by (auto simp: out_def on_received_piece_def lengths_okD(2) [OF L] sm_res_def hok_def split: option.split)
  next
    case True
    then obtain ci where ci: "?cd = Some ci" and i: "pd_index p < total_pieces (le_lengths E)"
      and len: "length (pd_data p) < 2 ^ 32" by auto
    have pi: "piece_index ci = pd_index p" using lengths_ok_received(1) [OF L ci i] .
    define h1 where "h1 = h\<lparr>requests_sem := requests_sem h + 1\<rparr>"
    define s1 where "s1 = s\<lparr>lv_peers := upd_counters (ph_counters h) (\<lambda>c.
              c\<lparr>fetched_bytes := fetched_bytes c + of_nat (length (pd_data p)),
                fetched_chunks := fetched_chunks c + 1\<rparr>) (lv_peers s)\<rparr>"
    obtain r ps where rm: "with_live_mut (ph_addr h) (remove_request ci) (lv_peers s1) = (r, ps)"
      by fastforce
    define s2 where "s2 = s1\<lparr>lv_peers := ps\<rparr>"
    have s1: "live_ok E others H s1"
      unfolding s1_def using s by (intro live_ok_peers(1)) (simp_all add: peers_inv_counters_irrelevant live_ok_peers(2))
    have s2: "live_ok E others H s2"
      unfolding s2_def
      using remove_request_upd.with_live_mut_inv [OF live_ok_peers(2) [OF s1], of "ph_addr h" ci] rm
      by (intro live_ok_peers(1) [OF s1]) simp
    define s3 where "s3 = s2\<lparr>lv_stats := (lv_stats s2)\<lparr>st_fetched_bytes := st_fetched_bytes (lv_stats s2) + of_nat (length (pd_data p))\<rparr>,
                  lv_session_fetched := lv_session_fetched s2 + of_nat (length (pd_data p))\<rparr>"
    have s3: "live_ok E others H s3" using s2 by (simp add: s3_def)
    have files: "lv_files s3 = lv_files s" by (simp add: s3_def s2_def s1_def)
    have out: "out = (case r of None \<Rightarrow> (Inl (Bail ''peer not found''), (h1, s2))
        | Some False \<Rightarrow> (Inl (Bail ''peer sent us a piece we did not ask''), (h1, s2))
        | Some True \<Rightarrow> on_live (write_to_disk E h1 p ci now) (h1, s3))"
      using i len ci rm
      by (simp add: out_def on_received_piece_def lengths_okD(2) [OF L] on_handler_def on_live_def modify_peers_def
          on_peers_def sm_bind_def sm_modify_def sm_res_def h1_def s1_def s2_def s3_def split: option.split bool.split)
    show ?thesis
    proof (cases "r = Some True")
      case False
      then show ?thesis using s2 by (auto simp: out hok_def split: option.split bool.split)
    next
      case r: True
      have "piece_index ci < total_pieces (le_lengths E)" using i pi by simp
      from write_to_disk_outcome [OF E this s3 len, of h1 now] show ?thesis
        using ci by (auto simp: out r hok_def on_live_def pi block_verified_def files split_beta)
    qed
  qed
qed

lemma send_metadata_piece_safe:
  assumes "piece_id * le_chunk_size E \<le> length (le_info_bytes E)" and "length (le_info_bytes E) + le_chunk_size E < 2 ^ 32"
  shows "safe (live_ok E others H) (send_metadata_piece E h piece_id)"
  unfolding send_metadata_piece_def Let_def
  using assms by (auto intro!: safe_intros)

lemma on_download_request_safe: "safe (live_ok E others H) (on_download_request E h r)"
  unfolding safe_def on_download_request_def
  using get_chunks_ok(1)
  by (auto simp: res_ok_def get_chunks_def split: option.split sum.split)

lemma on_holepunch_safe: "safe (live_ok E others H) (on_holepunch_message E h p cid now)"
  unfolding on_holepunch_message_def
  by (auto intro!: safe_intros split: holepunch_type.split option.split)

lemma simple_messages_safe:
  "safe (live_ok E others H) (on_bitfield E h b)"
  "safe (live_ok E others H) (on_peer_interested h)"
  "safe (live_ok E others H) (on_have E h i)"
  "safe (live_ok E others H) (on_pex_message x cid now)"
  unfolding on_bitfield_def on_peer_interested_def on_have_def on_pex_message_def
  by (auto intro!: safe_intros)

lemma dispatch_other_safe:
  assumes "\<And>i b d. m \<noteq> MsgPiece i b d"
    and "\<And>i. m = MsgExtended (UtMetadataRequest i) \<Longrightarrow> i * le_chunk_size E \<le> length (le_info_bytes E)"
    and "length (le_info_bytes E) + le_chunk_size E < 2 ^ 32"
  shows "safe (hok E others H) (dispatch_message E m cid now)"
proof (cases m)
  case (MsgExtended x)
  then show ?thesis
    using assms unfolding dispatch_message_def
    by (cases x) (auto intro!: safe_intros send_metadata_piece_safe on_holepunch_safe simple_messages_safe)
qed (use assms in \<open>auto intro!: safe_intros simple_messages_safe on_download_request_safe
      simp: dispatch_message_def on_i_am_choked_def on_i_am_unchoked_def\<close>)

lemma note_first_message_files: "lv_files (snd (snd (note_first_message m hs))) = lv_files (snd hs)"
  by (cases m) (simp_all add: note_first_message_def on_live_def emit_def sm_modify_def)

lemma note_first_message_Inr: "fst (note_first_message m hs) = Inr ()"
  by (cases m) (simp_all add: note_first_message_def on_live_def emit_def sm_modify_def)

lemma on_received_message_outcome:
  fixes E :: "'s live_env" and m cid now
  assumes E: "env_ok E" and s: "live_ok E others H (snd hs)"
    and meta: "\<And>i. m = MsgExtended (UtMetadataRequest i) \<Longrightarrow> i * le_chunk_size E \<le> length (le_info_bytes E)"
      "length (le_info_bytes E) + le_chunk_size E < 2 ^ 32"
  defines "out \<equiv> on_received_message E m cid now hs"
  shows "res_ok (fst out) \<and> (live_ok E others H (snd (snd out)) \<or>
     (\<exists>i b d. m = MsgPiece i b d \<and> block_verified E (snd hs) i b d \<and> live_ok E others (H(i := True)) (snd (snd out))))"
proof -
  obtain hs1 where hs1: "note_first_message m hs = (Inr (), hs1)"
    using note_first_message_Inr [of m hs] by (cases "note_first_message m hs") auto
  have s1: "live_ok E others H (snd hs1)" "lv_files (snd hs1) = lv_files (snd hs)"
    using safeD(1) [OF note_first_message_safe, of E others H hs m] s hs1 note_first_message_files [of m hs]
    by (simp_all add: hok_def)
  have out: "out = dispatch_message E m cid now hs1" using hs1 by (simp add: out_def on_received_message_def sm_bind_def)
  show ?thesis
  proof (cases "\<exists>i b d. m = MsgPiece i b d")
    case True
    then obtain i b d where m: "m = MsgPiece i b d" by blast
    have "out = on_received_piece E \<lparr>pd_index = i, pd_begin = b, pd_data = d\<rparr> now (fst hs1, snd hs1)"
      by (simp add: out m dispatch_message_def)
    with on_received_piece_outcome [OF E s1(1), of "\<lparr>pd_index = i, pd_begin = b, pd_data = d\<rparr>" now "fst hs1"]
    show ?thesis using s1(2) by (auto simp: m hok_def block_verified_def)
  next
    case False
    have "hok E others H hs1" using s1(1) by (simp add: hok_def)
    moreover have "safe (hok E others H) (dispatch_message E m cid now)"
      using False meta by (intro dispatch_other_safe) auto
    ultimately have "hok E others H (snd out) \<and> res_ok (fst out)"
      unfolding out by (blast dest: safeD)
    then show ?thesis by (simp add: hok_def)
  qed
qed

subsection \<open>Properties of message handling\<close>

text \<open>C5. A remote peer cannot crash the client or corrupt its state: from any consistent state of the
  torrent, every message a peer can send is handled without a panic and without an endless loop, and
  the state is consistent again (counters, piece tracker, streams), whether the message is accepted
  or the peer is dropped for it. The one exception is a request for metadata beyond its end, see
  \<open>metadata_request_panics\<close>.\<close>

theorem peer_message_safe:
  assumes "env_ok E" and "live_ok E others H (snd hs)"
    and "\<And>i. m = MsgExtended (UtMetadataRequest i) \<Longrightarrow> i * le_chunk_size E \<le> length (le_info_bytes E)"
    and "length (le_info_bytes E) + le_chunk_size E < 2 ^ 32"
  shows "res_ok (fst (on_received_message E m cid now hs))
     \<and> (\<exists>H'. live_ok E others H' (snd (snd (on_received_message E m cid now hs))))"
  using on_received_message_outcome [OF assms, of m cid now] by blast

lemma metadata_keeps_pieces:
  "lv_pieces (snd (snd (on_received_message E (MsgExtended (UtMetadataRequest i)) cid now hs))) = lv_pieces (snd hs)"
  by (cases hs) (auto simp: on_received_message_def sm_bind_def note_first_message_def dispatch_message_def on_live_def
      emit_def sm_modify_def send_metadata_piece_def send_all_def sm_res_def sm_ret_def Let_def split: if_splits)

text \<open>C1. Only verified data counts as downloaded: if handling a message makes the torrent have a piece it
  did not have before, then the message was a block of that piece, the block was written to the
  storage, and the checksum of the piece, read back from that storage, was the expected one.\<close>

theorem have_only_after_check:
  assumes E: "env_ok E" and s: "live_ok E others H (snd hs)" and size: "length (le_info_bytes E) + le_chunk_size E < 2 ^ 32"
    and pt: "lv_pieces (snd (snd (on_received_message E m cid now hs))) = Some pt"
    and new: "bf_bit (have_pieces (chunks pt)) p" "\<not> H p"
  shows "\<exists>b d. m = MsgPiece p b d \<and> block_verified E (snd hs) p b d"
proof (cases "\<exists>i. m = MsgExtended (UtMetadataRequest i)")
  case True
  then have "lv_pieces (snd hs) = Some pt" using pt metadata_keeps_pieces [of E _ cid now hs] by auto
  then show ?thesis using s new by (auto simp: live_ok_def pt_frame_def)
next
  case False
  then have meta: "\<And>i. m = MsgExtended (UtMetadataRequest i) \<Longrightarrow> i * le_chunk_size E \<le> length (le_info_bytes E)" by blast
  have bits: "bf_bit (have_pieces (chunks pt)) = H'"
    if "live_ok E others H' (snd (snd (on_received_message E m cid now hs)))" for H'
    using that pt by (auto simp: live_ok_def pt_frame_def)
  have "live_ok E others H (snd (snd (on_received_message E m cid now hs))) \<or>
     (\<exists>i b d. m = MsgPiece i b d \<and> block_verified E (snd hs) i b d
        \<and> live_ok E others (H(i := True)) (snd (snd (on_received_message E m cid now hs))))"
    by (rule conjunct2 [OF on_received_message_outcome [OF E s _ size]]) (rule meta)
  then show ?thesis
  proof (elim conjE disjE exE)
    assume "live_ok E others H (snd (snd (on_received_message E m cid now hs)))"
    then show ?thesis using bits new by auto
  next
    fix i b d
    assume m: "m = MsgPiece i b d" "block_verified E (snd hs) i b d"
      and "live_ok E others (H(i := True)) (snd (snd (on_received_message E m cid now hs)))"
    then have "p = i" using bits new by (metis fun_upd_apply)
    then show ?thesis using m by blast
  qed
qed

text \<open>C32. The bound check of metadata requests is off by one: when the size of the metadata is not a multiple
  of the chunk size, a peer that asks for the piece just after the last one makes the handler panic,
  instead of getting the error "piece out of bounds" it gets for larger numbers.\<close>

theorem metadata_request_panics:
  fixes E :: "'s live_env"
  assumes "\<not> le_private E" and "0 < le_chunk_size E" and "length (le_info_bytes E) mod le_chunk_size E \<noteq> 0"
    and "length (le_info_bytes E) + 2 * le_chunk_size E < 2 ^ 32"
  shows "fst (on_received_message E (MsgExtended (UtMetadataRequest (length (le_info_bytes E) div le_chunk_size E + 1)))
     cid now hs) = Inl Panic"
proof -
  define n where "n = length (le_info_bytes E)"
  define C where "C = le_chunk_size E"
  define q where "q = n div C"
  have n: "n = q * C + n mod C" "0 < n mod C" "n mod C < C" "n + 2 * C < 2 ^ 32"
    using assms(2-4) by (simp_all add: n_def q_def C_def)
  have tot: "(n + C - 1) div C = q + 1"
    by (rule div_nat_eqI) (use n in \<open>auto simp: algebra_simps\<close>)
  have "n < q * C + C" using n by linarith
  then have "fst (send_metadata_piece E h (q + 1) s) = Inl Panic" for h s
    using n tot unfolding send_metadata_piece_def Let_def n_def [symmetric] C_def [symmetric]
    by (auto simp: sm_res_def algebra_simps)
  then show ?thesis
    using assms(1) note_first_message_Inr [of "MsgExtended (UtMetadataRequest (q + 1))" hs]
    by (simp add: n_def [symmetric] C_def [symmetric] q_def [symmetric] on_received_message_def sm_bind_def
        dispatch_message_def on_live_def split_beta)
qed

subsection \<open>A concrete run\<close>

text \<open>
  The torrent of \<open>ex_tracker\<close> with piece 0 there; the peer was asked for the only block of piece 2.
\<close>

definition ex_env :: "byte list fs_storage live_env" where
  "ex_env = \<lparr>le_lengths = ex_lengths, le_file_infos = ex_files, le_private = False, le_disable_upload = False,
     le_info_bytes = [1, 2, 3], le_chunk_size = 16384, le_ops = fs_ops mem_os, le_as_ioslices = (\<lambda>d. (d, [])), le_sha1 = (\<lambda>h. h),
     le_compare_hash = (\<lambda>i d. Some (d = [8, 9])), le_shuffle = (\<lambda>q. q), le_backoff = (\<lambda>n. Some n),
     le_flush = (\<lambda>_. Inr ()), le_fatal_rx_alive = True\<rparr>"

definition ex_pt2 :: piece_tracker where
  "ex_pt2 = \<lparr>chunks = projr (reserve_needed_piece 2 ex_tracker),
     inflight = [(2, \<lparr>ifp_peer = ex_addr 1, ifp_started = 5\<rparr>)]\<rparr>"

definition ex_ls :: "byte list fs_storage live" where
  "ex_ls = (live_state_new (\<lambda>_ _. True) agg_zero None ex_files ex_tracker
       \<lparr>output_folder = [], opened_files = [opened_file_new ''a'' [1, 2, 3, 4, 5, 6], opened_file_new ''b'' [0, 0, 0, 0]]\<rparr>
       \<lparr>next_stream_id = 0, streams = []\<rparr> 0 0)
     \<lparr>lv_pieces := Some ex_pt2,
      lv_peers := snd (with_live_mut (ex_addr 1) (insert_request (ex_chunk 2 0)) ex_live)\<rparr>"

definition ex_handler :: handler where
  "ex_handler = (handler_new (ex_addr 1) 0 False 7)\<lparr>i_am_choked := False\<rparr>"

lemma ex_env_ok: "env_ok ex_env"
  by (auto simp: env_ok_def ex_env_def ex_lengths_ok store_safe_def fs_ops_def fs_pread_exact_def
      fs_pwrite_all_vectored_def fs_on_file_def fs_get_def of_lock_read_def file_pread_exact_def
      file_pwrite_all_vectored_def mem_os_def res_ok_def res_bind_def ok_or_def split: sum.split option.split)

lemma ex_pt2_wf: "pt_wf ex_pt2 \<and> pt_frame ex_pt2 = (ex_lengths, 2, bf_bit (have_pieces ex_tracker))"
proof -
  have "reserve_needed_piece 2 ex_tracker = Inr (ex_tracker\<lparr>queue_pieces := (queue_pieces ex_tracker)[2 := False]\<rparr>)"
    by (rule reserve_needed_piece_eq) (use ct_invD(1) [OF ex_tracker_inv] in simp_all)
  moreover obtain c where "reserve_needed_piece 2 ex_tracker = Inr c" "ct_inv c"
    using ct_store.reserve_law [OF ex_tracker_inv, of 2] by auto
  ultimately have c: "ct_inv (chunks ex_pt2)"
    "chunks ex_pt2 = ex_tracker\<lparr>queue_pieces := (queue_pieces ex_tracker)[2 := False]\<rparr>"
    by (auto simp: ex_pt2_def)
  have "pt_wf ex_pt2"
  proof (rule pt_wfI)
    fix p assume "p \<in> hm_keys (inflight ex_pt2)"
    then have "p = 2" by (simp add: ex_pt2_def hm_keys_def)
    then show "ct_valid (chunks ex_pt2) p" by (simp add: c(2))
  qed (use c(1) in \<open>simp_all add: ex_pt2_def\<close>)
  then show ?thesis using c(2) by (simp add: pt_frame_def)
qed

lemma ex_ls_ok: "live_ok ex_env (\<lambda>_. 0) (bf_bit (have_pieces ex_tracker)) ex_ls"
proof -
  have "peers_inv (\<lambda>_. 0) ex_live" by (rule peers_sys.reach_inv [OF ex_live_reach])
  then have "peers_inv (\<lambda>_. 0) (snd (with_live_mut (ex_addr 1) (insert_request (ex_chunk 2 0)) ex_live))"
    by (rule insert_request_upd.with_live_mut_inv)
  then show ?thesis
    using ex_pt2_wf
    by (simp add: live_ok_def ex_ls_def ex_env_def live_state_new_def streamed_file_ids_def ex_files_def)
qed

theorem peer_message_safe_witness:
  "res_ok (fst (on_received_message ex_env (MsgHave 7) 3 9 (ex_handler, ex_ls)))"
proof -
  have "live_ok ex_env (\<lambda>_. 0) (bf_bit (have_pieces ex_tracker)) (snd (ex_handler, ex_ls))"
    using ex_ls_ok by simp
  moreover have "length (le_info_bytes ex_env) + le_chunk_size ex_env < 2 ^ 32" by (simp add: ex_env_def)
  ultimately show ?thesis
    using peer_message_safe [OF ex_env_ok, of "\<lambda>_. 0" "bf_bit (have_pieces ex_tracker)" "(ex_handler, ex_ls)" "MsgHave 7" 3 9]
    by simp
qed

definition ex_after :: "piece_tracker option" where
  "ex_after = lv_pieces (snd (snd (on_received_message ex_env (MsgPiece 2 0 [8, 9]) 3 9 (ex_handler, ex_ls))))"

lemma ex_after_value: "(case ex_after of None \<Rightarrow> False | Some pt \<Rightarrow> bf_bit (have_pieces (chunks pt)) 2)"
  by code_simp

theorem have_only_after_check_witness:
  "\<exists>pt. ex_after = Some pt \<and> bf_bit (have_pieces (chunks pt)) 2 \<and> block_verified ex_env ex_ls 2 0 [8, 9]"
proof -
  obtain pt where pt: "ex_after = Some pt" "bf_bit (have_pieces (chunks pt)) 2"
    using ex_after_value by (auto split: option.splits)
  have "live_ok ex_env (\<lambda>_. 0) (bf_bit (have_pieces ex_tracker)) (snd (ex_handler, ex_ls))"
    using ex_ls_ok by simp
  moreover have "length (le_info_bytes ex_env) + le_chunk_size ex_env < 2 ^ 32" by (simp add: ex_env_def)
  moreover have "\<not> bf_bit (have_pieces ex_tracker) 2" by (simp add: bf_bit_def)
  ultimately show ?thesis
    using have_only_after_check [OF ex_env_ok, of "\<lambda>_. 0" "bf_bit (have_pieces ex_tracker)" "(ex_handler, ex_ls)"
        "MsgPiece 2 0 [8, 9]" 3 9 pt 2] pt
    by (auto simp: ex_after_def)
qed

theorem metadata_request_panics_witness:
  "fst (on_received_message ex_env (MsgExtended (UtMetadataRequest 1)) 3 9 (ex_handler, ex_ls)) = Inl Panic"
  using metadata_request_panics [of ex_env 3 9 "(ex_handler, ex_ls)"] by (simp add: ex_env_def)

end
