(* ===== verification/Peer_Lifecycle.thy ===== *)
theory Peer_Lifecycle
  imports Live_Safety "HOL-Library.Sublist"
begin

text \<open>
  What happens to a peer over its life in the table: how it is queued, how many requests it gets, and
  what is left of it when its connection ends (\<open>src/src/torrent_state/live/\<close>).
\<close>

subsection \<open>The end of a connection\<close>

definition pst :: "peer_handle \<Rightarrow> 's live \<Rightarrow> peer_state option" where
  "pst a s = map_option pstate (map_of (states (lv_peers s)) a)"

definition inactive :: "peer_handle \<Rightarrow> 's live \<Rightarrow> bool" where
  "inactive a s \<longleftrightarrow> (\<forall>st. pst a s = Some st \<longrightarrow> \<not> in_class CConnecting st \<and> \<not> in_class CLive st)"

lemma pst_upd [simp]:
  "pst a (s\<lparr>lv_events := ev\<rparr>) = pst a s" "pst a (s\<lparr>lv_pieces := q\<rparr>) = pst a s"
  "pst a (s\<lparr>lv_peers := upd_counters c f (lv_peers s)\<rparr>) = pst a s"
  by (simp_all add: pst_def)

lemma pst_with_peer_mut:
  "pst a (s\<lparr>lv_peers := snd (with_peer_mut a f ps)\<rparr>) =
     (case map_of (states ps) a of None \<Rightarrow> None
      | Some p \<Rightarrow> map_option pstate (map_of (AList.update a (fst (snd (f p ps))) (states (snd (snd (f p ps))))) a))"
  by (simp add: pst_def with_peer_mut_def split_beta split: option.split)

lemma on_peers_unfold: "on_peers g s = (Inr (fst (g (lv_peers s))), s\<lparr>lv_peers := snd (g (lv_peers s))\<rparr>)"
  by (simp add: on_peers_def split_beta)

lemma set_state_of_unfold:
  "set_state_of a new now s = (Inr (), s\<lparr>lv_peers := snd (with_peer_mut a (set_state new now) (lv_peers s))\<rparr>)"
  by (simp add: set_state_of_def sm_bind_def on_peers_unfold sm_ret_def)

lemma set_state_of_inactive:
  assumes "\<not> in_class CConnecting new" and "\<not> in_class CLive new"
  shows "inactive a (snd (set_state_of a new now s))"
  using assms by (auto simp: inactive_def set_state_of_unfold pst_with_peer_mut update_conv' split: option.splits)

lemma inactive_upd [simp]:
  "inactive a (s\<lparr>lv_events := ev\<rparr>) = inactive a s" "inactive a (s\<lparr>lv_pieces := q\<rparr>) = inactive a s"
  "inactive a (s\<lparr>lv_peers := upd_counters c f (lv_peers s)\<rparr>) = inactive a s"
  by (simp_all add: inactive_def)

lemma drop_peer_inactive: "inactive a (s\<lparr>lv_peers := snd (drop_peer a (lv_peers s))\<rparr>)"
  by (auto simp: inactive_def pst_def drop_peer_def delete_conv' split: option.split)

lemma keep_state_inactive:
  assumes "inactive a s" and "\<And>p ps. states (snd (snd (f p ps))) = states ps"
    and "\<And>p ps. pstate (fst (snd (f p ps))) = pstate p"
  shows "inactive a (s\<lparr>lv_peers := snd (with_peer_mut a f (lv_peers s))\<rparr>)"
proof (cases "map_of (states (lv_peers s)) a")
  case None
  then show ?thesis by (simp add: inactive_def pst_with_peer_mut)
next
  case (Some p)
  have "pst a (s\<lparr>lv_peers := snd (with_peer_mut a f (lv_peers s))\<rparr>) = pst a s"
    unfolding pst_with_peer_mut using Some assms(2,3) by (simp add: update_conv' pst_def)
  then show ?thesis using assms(1) by (simp add: inactive_def)
qed

lemma inactive_keeps [keeps_intros]:
  "keeps (inactive a) (emit e)" "keeps (inactive a) (modify_peers (upd_counters c f))"
  "keeps (inactive a) (on_peers (with_peer_mut a (next_backoff E)))"
  "keeps (inactive a) (on_peers (reset_peer_backoff a))" "keeps (inactive a) (on_peers (drop_peer a))"
  "keeps (inactive a) (with_pieces_mut op)"
  by (auto simp: keeps_def emit_def modify_peers_def sm_modify_def on_peers_unfold reset_peer_backoff_def with_pieces_mut_def
      next_backoff_def reset_backoff_def intro!: keep_state_inactive drop_peer_inactive split: option.split sum.split)

lemma set_state_of_keeps [keeps_intros]:
  "keeps (inactive a) (set_state_of a NotNeeded now)" "keeps (inactive a) (set_state_of a Dead now)"
  by (simp_all add: keeps_def set_state_of_inactive in_class_def)

lemma on_peer_died_error_inactive: "keeps (inactive (ph_addr h)) (on_peer_died_error E h now)"
  unfolding on_peer_died_error_def by (auto intro!: keeps_intros split: option.split)

lemma release_pieces_of_inactive: "keeps (inactive a) (release_pieces_of b l)"
  unfolding release_pieces_of_def by (auto intro!: keeps_intros)

text \<open>What is in flight for a peer.\<close>

definition owned_in_flight :: "peer_handle \<Rightarrow> 's live \<Rightarrow> nat set" where
  "owned_in_flight a s =
     (case lv_pieces s of None \<Rightarrow> {} | Some pt \<Rightarrow> {p. \<exists>i. (p, i) \<in> set (inflight pt) \<and> ifp_peer i = a})"

lemma release_clears:
  assumes "release_pieces_owned_by a t = Inr (n, t')" and "distinct (map fst (inflight t))"
    and "(p, i) \<in> set (inflight t')"
  shows "ifp_peer i \<noteq> a"
proof
  assume a: "ifp_peer i = a"
  let ?ps = "map fst (filter (\<lambda>(_, info). ifp_peer info = a) (inflight t))"
  have "inflight t' = filter (\<lambda>x. fst x \<notin> set ?ps) (inflight t)"
    using assms(1) unfolding release_pieces_owned_by_def Let_def release_fold_eq
    by (auto simp: res_bind_eq_Inr)
  then have m: "(p, i) \<in> set (inflight t)" "p \<notin> set ?ps" using assms(3) by auto
  then show False using a by force
qed

text \<open>Operations on the peers alone do not touch the piece tracker.\<close>

lemma pieces_keeps [keeps_intros]:
  "keeps (\<lambda>s. lv_pieces s = q) (emit e)" "keeps (\<lambda>s. lv_pieces s = q) (modify_peers g)"
  "keeps (\<lambda>s. lv_pieces s = q) (on_peers f)"
  by (simp_all add: keeps_def emit_def modify_peers_def sm_modify_def on_peers_unfold)

lemma set_state_of_pieces [keeps_intros]: "keeps (\<lambda>s. lv_pieces s = q) (set_state_of a new now)"
  unfolding set_state_of_def by (intro keeps_intros)

lemma on_peer_died_error_pieces: "keeps (\<lambda>s. lv_pieces s = q) (on_peer_died_error E h now)"
  unfolding on_peer_died_error_def by (auto intro!: keeps_intros split: option.split)

text \<open>What follows once the state was taken out of a connecting or live peer.\<close>

definition died_rest :: "'s live_env \<Rightarrow> handler \<Rightarrow> error option \<Rightarrow> nat \<Rightarrow> ('s, unit) lm" where
  "died_rest E h err now = (case err of None \<Rightarrow> set_state_of (ph_addr h) NotNeeded now
     | Some _ \<Rightarrow> on_peer_died_error E h now)"

lemma on_peer_died_unfold:
  fixes now
  assumes "map_of (states (lv_peers s)) (ph_addr h) = Some p"
  defines "s1 \<equiv> s\<lparr>lv_peers := snd (with_peer_mut (ph_addr h) (take_state now) (lv_peers s))\<rparr>"
  shows "on_peer_died E h err now s = (case pstate p of
       NotNeeded \<Rightarrow> set_state_of (ph_addr h) NotNeeded now s1
     | Queued \<Rightarrow> sm_bind (on_peers (drop_peer (ph_addr h))) (\<lambda>_. sm_ret ()) s1
     | Dead \<Rightarrow> sm_bind (on_peers (drop_peer (ph_addr h))) (\<lambda>_. sm_ret ()) s1
     | Connecting _ \<Rightarrow> died_rest E h err now s1
     | Live l \<Rightarrow> sm_bind (release_pieces_of (ph_addr h) l) (\<lambda>_. died_rest E h err now) s1)"
proof -
  have "fst (with_peer_mut (ph_addr h) (take_state now) (lv_peers s)) = Some (pstate p)"
    using assms(1) by (simp add: with_peer_mut_def take_state_def split_beta)
  then show ?thesis
    by (cases "pstate p") (simp_all add: on_peer_died_def sm_bind_def [of "on_peers (with_peer_mut _ _)"]
        sm_bind_def [of "sm_ret _"] sm_ret_def on_peers_unfold s1_def died_rest_def)
qed

lemma release_pieces_of_clears:
  assumes "live_ok E others H s" and "lv_pieces s \<noteq> None"
  shows "\<exists>s'. release_pieces_of a l s = (Inr (), s') \<and> owned_in_flight a s' = {}"
proof -
  obtain pt where pt: "lv_pieces s = Some pt" "pt_wf pt" using assms by (auto simp: live_ok_def)
  have "\<exists>n pt'. release_pieces_owned_by a pt = Inr (n, pt')"
  proof -
    let ?ps = "map fst (filter (\<lambda>(_, info). ifp_peer info = a) (inflight pt))"
    have "p \<in> hm_keys (inflight pt)" if "p \<in> set ?ps" for p using that by (force simp: hm_keys_def)
    then obtain c where "res_fold mark_piece_broken_if_not_have ?ps (chunks pt) = Inr c"
      using ct_store.requeue_all [OF pt_wfD(1) [OF pt(2)], of ?ps] pt_wfD(3) [OF pt(2)] by blast
    then show ?thesis unfolding release_pieces_owned_by_def Let_def release_fold_eq by simp
  qed
  then obtain n pt' where r: "release_pieces_owned_by a pt = Inr (n, pt')" by blast
  then have "owned_in_flight a (s\<lparr>lv_pieces := Some pt', lv_events := ev\<rparr>) = {}" for ev
    using release_clears [OF r pt_wfD(2) [OF pt(2)]] by (auto simp: owned_in_flight_def)
  from this [of "lv_events s"] this [of "lv_events s @ [EvNewPieces]"] show ?thesis
    using pt(1) r by (simp add: release_pieces_of_def sm_bind_def with_pieces_mut_def emit_def sm_modify_def sm_ret_def)
qed

text \<open>C18. The end of a connection: whatever state the peer was in and however the connection ended,
  afterwards the peer is neither live nor connecting; if the peer was live and the torrent was not
  paused, none of the pieces in flight belongs to it any more.\<close>

theorem on_peer_died_effect:
  assumes s: "live_ok E others H s" and run: "lv_pieces s \<noteq> None"
  shows "inactive (ph_addr h) (snd (on_peer_died E h err now s))
    \<and> (\<forall>p. map_of (states (lv_peers s)) (ph_addr h) = Some p \<and> in_class CLive (pstate p) \<longrightarrow>
         owned_in_flight (ph_addr h) (snd (on_peer_died E h err now s)) = {})"
proof (cases "map_of (states (lv_peers s)) (ph_addr h)")
  case None
  then have "snd (on_peer_died E h err now s) = s"
    by (simp add: on_peer_died_def sm_bind_def on_peers_unfold with_peer_mut_def sm_ret_def)
  with None show ?thesis by (simp add: inactive_def pst_def)
next
  case (Some p)
  let ?a = "ph_addr h"
  define s1 where "s1 = s\<lparr>lv_peers := snd (with_peer_mut ?a (take_state now) (lv_peers s))\<rparr>"
  note unf = on_peer_died_unfold [OF Some, of E err now, folded s1_def]
  have i1: "inactive ?a s1"
    using Some by (auto simp: s1_def inactive_def pst_with_peer_mut take_state_def update_conv' in_class_def)
  have rest: "keeps (inactive ?a) (died_rest E h err now)"
    unfolding died_rest_def by (auto intro!: keeps_intros on_peer_died_error_inactive split: option.split)
  have "inactive ?a (snd (on_peer_died E h err now s))"
    unfolding unf
    by (auto intro!: keepsD [where P = "inactive (ph_addr h)" and s = s1, OF _ i1] rest keeps_intros release_pieces_of_inactive split: peer_state.split)
  moreover have "owned_in_flight ?a (snd (on_peer_died E h err now s)) = {}" if live: "in_class CLive (pstate p)"
  proof -
    obtain l where l: "pstate p = Live l" using live by (cases "pstate p") (auto simp: in_class_def)
    have ok1: "live_ok E others H s1"
      unfolding s1_def by (rule live_ok_peers(1) [OF s], rule take_state_tr.with_peer_mut_inv, rule live_ok_peers(2) [OF s])
    have "lv_pieces s1 \<noteq> None" using run by (simp add: s1_def)
    then obtain s2 where s2: "release_pieces_of ?a l s1 = (Inr (), s2)" "owned_in_flight ?a s2 = {}"
      using release_pieces_of_clears [OF ok1] by blast
    have out: "on_peer_died E h err now s = died_rest E h err now s2" using s2(1) by (simp add: unf l sm_bind_def)
    have "keeps (\<lambda>t. lv_pieces t = lv_pieces s2) (died_rest E h err now)"
      unfolding died_rest_def by (auto intro!: keeps_intros on_peer_died_error_pieces split: option.split)
    then have "lv_pieces (snd (died_rest E h err now s2)) = lv_pieces s2" by (rule keepsD) simp
    then show ?thesis using s2(2) by (simp add: out owned_in_flight_def)
  qed
  ultimately show ?thesis using Some by auto
qed

theorem on_peer_died_effect_witness:
  "inactive (ex_addr 1) (snd (on_peer_died ex_env ex_handler (Some PeerDisconnected) 9 ex_ls))"
  using on_peer_died_effect [OF ex_ls_ok, of ex_handler "Some PeerDisconnected" 9]
  by (simp add: ex_ls_def ex_handler_def handler_new_def)

subsection \<open>The request window\<close>

definition live_reqs :: "peer_handle \<Rightarrow> 's live \<Rightarrow> chunk_info set" where
  "live_reqs a s = (case with_live a inflight_requests (lv_peers s) of None \<Rightarrow> {} | Some q \<Rightarrow> set q)"

definition request_msg :: "nat \<Rightarrow> handler \<Rightarrow> chunk_info \<Rightarrow> tx \<times> writer_request" where
  "request_msg nxt h c = (ph_tx h, WrMessage (MsgRequest
     \<lparr>rq_index = nxt, rq_begin = ci_offset c, rq_length = ci_size c\<rparr>))"

lemma live_reqs_upd [simp]: "live_reqs a (s\<lparr>lv_outbox := ob\<rparr>) = live_reqs a s"
  by (simp add: live_reqs_def)

lemma insert_request_effect:
  assumes "with_live_mut a (insert_request c) (lv_peers s) = (Some b, ps)"
  shows "live_reqs a (s\<lparr>lv_peers := ps\<rparr>) = insert c (live_reqs a s)"
  using assms
  by (auto simp: live_reqs_def with_live_mut_def with_peer_mut_def get_live_mut_map_def insert_request_def
      with_live_def with_peer_def take_live_no_counters_def update_conv' List.insert_def
      split: option.splits peer_state.splits if_splits)

text \<open>The requests \<open>sent\<close> go out in order, each one recorded, one permit each; the loop ends with
  every chunk recorded, or blocked on an empty semaphore at a recorded chunk.\<close>

definition window_ok :: "nat \<Rightarrow> handler \<Rightarrow> 's live \<Rightarrow> chunk_info list \<Rightarrow> request_result res \<times> handler \<times> 's live \<Rightarrow> bool" where
  "window_ok nxt h s cs out \<longleftrightarrow> (case out of (r, h', s') \<Rightarrow>
     (\<exists>sent. lv_outbox s' = lv_outbox s @ map (request_msg nxt h) sent
       \<and> subseq sent cs \<and> set sent \<subseteq> live_reqs (ph_addr h) s'
       \<and> length sent + requests_sem h' \<le> requests_sem h)
     \<and> live_reqs (ph_addr h) s \<subseteq> live_reqs (ph_addr h) s'
     \<and> (case r of Inr RequestsSent \<Rightarrow> set cs \<subseteq> live_reqs (ph_addr h) s'
        | Inr (RequestsBlocked rest) \<Rightarrow> requests_sem h' = 0 \<and> suffix rest cs \<and> rest \<noteq> []
            \<and> hd rest \<in> live_reqs (ph_addr h) s'
        | _ \<Rightarrow> True))"

lemma request_msg_sem [simp]: "request_msg nxt (h\<lparr>requests_sem := n\<rparr>) = request_msg nxt h"
  by (simp add: request_msg_def fun_eq_iff)

lemma window_ok_stop: "live_reqs (ph_addr h) s \<subseteq> live_reqs (ph_addr h) s' \<Longrightarrow> lv_outbox s' = lv_outbox s
    \<Longrightarrow> requests_sem h' \<le> requests_sem h
    \<Longrightarrow> r = Inr PeerGone \<or> (\<exists>e. r = Inl e) \<Longrightarrow> window_ok nxt h s cs (r, h', s')"
  by (auto simp: window_ok_def intro!: exI [of _ "[]"])

lemma window_ok_mono:
  assumes "window_ok nxt h s1 cs out" and "lv_outbox s1 = lv_outbox s"
    and "live_reqs (ph_addr h) s \<subseteq> live_reqs (ph_addr h) s1"
  shows "window_ok nxt h s cs out"
  using assms unfolding window_ok_def by (cases out) auto

lemma window_ok_skip:
  assumes "window_ok nxt h s cs out" and "c \<in> live_reqs (ph_addr h) s"
  shows "window_ok nxt h s (c # cs) out"
  using assms unfolding window_ok_def
  by (cases out) (auto split: sum.splits request_result.splits intro: suffix_ConsI)

lemma window_ok_send:
  assumes "window_ok nxt (h\<lparr>requests_sem := requests_sem h - 1\<rparr>) (s\<lparr>lv_outbox := lv_outbox s @ [request_msg nxt h c]\<rparr>) cs out"
    and "0 < requests_sem h" and "c \<in> live_reqs (ph_addr h) s"
  shows "window_ok nxt h s (c # cs) out"
proof -
  obtain r h' s' where out: "out = (r, h', s')" by (cases out)
  obtain sent where sent: "lv_outbox s' = lv_outbox s @ [request_msg nxt h c] @ map (request_msg nxt h) sent"
    "subseq sent cs" "set sent \<subseteq> live_reqs (ph_addr h) s'"
    "length sent + requests_sem h' \<le> requests_sem h - 1"
    using assms(1) by (auto simp: window_ok_def out)
  have "\<exists>sent. lv_outbox s' = lv_outbox s @ map (request_msg nxt h) sent
       \<and> subseq sent (c # cs) \<and> set sent \<subseteq> live_reqs (ph_addr h) s'
       \<and> length sent + requests_sem h' \<le> requests_sem h"
    by (rule exI [of _ "c # sent"]) (use sent assms in \<open>auto simp: window_ok_def out\<close>)
  then show ?thesis
    using assms(1,3) unfolding window_ok_def out
    by (auto split: sum.splits request_result.splits intro: suffix_ConsI)
qed

lemma request_chunks_window:
  "\<lbrakk>prepared \<and> cs \<noteq> [] \<longrightarrow> hd cs \<in> live_reqs (ph_addr (fst hs)) (snd hs)\<rbrakk> \<Longrightarrow>
   window_ok nxt (fst hs) (snd hs) cs (request_chunks dl txo nxt prepared cs hs)"
  "\<lbrakk>c \<in> live_reqs (ph_addr (fst hs)) (snd hs)\<rbrakk> \<Longrightarrow>
   window_ok nxt (fst hs) (snd hs) (c # cs) (send_request dl txo nxt c cs hs)"
proof (induction dl txo nxt prepared cs hs and dl txo nxt c cs hs rule: request_chunks_send_request.induct)
  case (1 dl txo nxt prepared hs)
  then show ?case by (cases hs) (auto simp: window_ok_def)
next
  case (2 dl txo nxt prepared c cs h s)
  show ?case
  proof (cases prepared)
    case True
    then show ?thesis using "2.IH"(1) "2.prems" by simp
  next
    case False
    obtain r ps where r: "with_live_mut (ph_addr h) (insert_request c) (lv_peers s) = (r, ps)" by fastforce
    show ?thesis
    proof (cases r)
      case None
      then show ?thesis using False r by (simp add: window_ok_stop)
    next
      case (Some b)
      let ?s = "s\<lparr>lv_peers := ps\<rparr>"
      have reqs: "live_reqs (ph_addr h) ?s = insert c (live_reqs (ph_addr h) s)"
        using insert_request_effect [of "ph_addr h" c s b ps] r Some by simp
      have skip: "window_ok nxt h s (c # cs) (request_chunks dl txo nxt False cs (h, ?s))"
        if "b \<longrightarrow> ci_size c = 0"
      proof (rule window_ok_mono [of nxt h ?s "c # cs"], rule window_ok_skip)
        show "window_ok nxt h ?s cs (request_chunks dl txo nxt False cs (h, ?s))"
          using "2.IH"(2) [OF False r [symmetric] Some] "2.IH"(4) [OF False r [symmetric] Some] that
          by (cases b) auto
      qed (use reqs in auto)
      have fail: "window_ok nxt h s (c # cs) (Inl e, h, ?s)" for e using reqs by (intro window_ok_stop) auto
      have send: "window_ok nxt h s (c # cs) (send_request dl txo nxt c cs (h, ?s))"
        if "b" "ci_size c \<noteq> 0" "dl (ci_size c) = Inr u" for u
      proof (rule window_ok_mono [of nxt h ?s "c # cs"])
        show "window_ok nxt h ?s (c # cs) (send_request dl txo nxt c cs (h, ?s))"
          using "2.IH"(3) [OF False r [symmetric] Some _ that(2,3)] that reqs by auto
      qed (use reqs in auto)
      show ?thesis
        using False r Some skip fail send by (cases b; cases "dl (ci_size c)") auto
    qed
  qed
next
  case (3 dl txo nxt c cs h s)
  show ?case
  proof (cases "requests_sem h = 0 \<or> \<not> txo")
    case True
    then show ?thesis
      using "3.prems" by (auto simp: Let_def window_ok_def intro!: exI [of _ "[]"])
  next
    case False
    let ?h = "h\<lparr>requests_sem := requests_sem h - 1\<rparr>"
    let ?s = "s\<lparr>lv_outbox := lv_outbox s @ [request_msg nxt h c]\<rparr>"
    have "window_ok nxt ?h ?s cs (request_chunks dl txo nxt False cs (?h, ?s))"
      using "3.IH" [OF _ refl] False by (auto simp: request_msg_def)
    then have "window_ok nxt h s (c # cs) (request_chunks dl txo nxt False cs (?h, ?s))"
      by (rule window_ok_send) (use False "3.prems" in auto)
    then show ?thesis using False by (simp add: Let_def request_msg_def)
  qed
qed

text \<open>C19. The request window: when the requester works through the chunks of a piece, the messages it sends
  are requests for a subsequence of these chunks in order, each sent request is recorded in the peer's
  in-flight requests, and every one uses up a permit of the peer's semaphore. When the loop reports that
  all requests were sent every chunk is recorded; when it blocks, no permit is left and the chunk it blocks
  on is already recorded.\<close>

theorem request_window:
  "case request_chunks download_ok tx_open nxt False cs (h, s) of (r, h', s') \<Rightarrow>
     (\<exists>sent. lv_outbox s' = lv_outbox s @ map (request_msg nxt h) sent
       \<and> subseq sent cs \<and> set sent \<subseteq> live_reqs (ph_addr h) s'
       \<and> length sent + requests_sem h' \<le> requests_sem h)
     \<and> (r = Inr RequestsSent \<longrightarrow> set cs \<subseteq> live_reqs (ph_addr h) s')
     \<and> (\<forall>rest. r = Inr (RequestsBlocked rest) \<longrightarrow> requests_sem h' = 0 \<and> suffix rest cs \<and> rest \<noteq> []
          \<and> hd rest \<in> live_reqs (ph_addr h) s')"
  using request_chunks_window(1) [of False cs "(h, s)" nxt download_ok tx_open]
  by (auto simp: window_ok_def split: prod.splits)

definition ex_window :: "request_result res \<times> handler \<times> byte list fs_storage live" where
  "ex_window = request_chunks (\<lambda>_. Inr ()) True 1 False [ex_chunk 1 0, ex_chunk 1 1]
     (ex_handler\<lparr>requests_sem := 1\<rparr>, ex_ls)"

lemma ex_window_blocked: "fst ex_window = Inr (RequestsBlocked [ex_chunk 1 1])"
  by code_simp

theorem request_window_witness:
  "requests_sem (fst (snd ex_window)) = 0 \<and> ex_chunk 1 1 \<in> live_reqs (ex_addr 1) (snd (snd ex_window))"
proof -
  obtain r h' s' where w: "ex_window = (r, h', s')" by (cases ex_window)
  have "ph_addr (ex_handler\<lparr>requests_sem := 1\<rparr>) = ex_addr 1" by (simp add: ex_handler_def handler_new_def)
  then show ?thesis
    using request_window [where download_ok = "\<lambda>_. Inr ()" and tx_open = True and nxt = 1 and cs = "[ex_chunk 1 0, ex_chunk 1 1]"
        and h = "ex_handler\<lparr>requests_sem := 1\<rparr>" and s = ex_ls, folded ex_window_def]
      ex_window_blocked
    by (simp add: w)
qed

subsection \<open>The queue of addresses to dial\<close>

text \<open>A peer discovered while the queue of addresses is full (or closed) is lost: the call reports that
  the peer was added and leaves it in the table as queued, but its address is not in the queue, and every
  later discovery of the same address is refused.\<close>

theorem add_peer_queue_full:
  assumes "map_of (states (lv_peers s)) a = None"
    and "lv_queue_closed s \<or> PEER_QUEUE_CAPACITY \<le> length (lv_queue s)"
  shows "case add_peer_if_not_seen a cid now s of (r, s') \<Rightarrow>
     r = Inr True \<and> pst a s' = Some Queued \<and> lv_queue s' = lv_queue s
     \<and> add_peer_if_not_seen a cid' now' s' = (Inr False, s')"
  using assms
  by (auto simp: add_peer_if_not_seen_def sm_bind_def on_peers_unfold sm_ret_def try_send_queue_def pst_def
      add_if_not_seen_def new_with_outgoing_address_def update_conv' Let_def split_beta split: option.split)

theorem add_peer_queue_full_witness:
  "fst (add_peer_if_not_seen (ex_addr 4) 3 9 (ex_ls\<lparr>lv_queue_closed := True\<rparr>)) = Inr True
   \<and> lv_queue (snd (add_peer_if_not_seen (ex_addr 4) 3 9 (ex_ls\<lparr>lv_queue_closed := True\<rparr>))) = []"
proof -
  have "map_of (states (lv_peers ex_ls)) (ex_addr 4) = None" by code_simp
  then have "case add_peer_if_not_seen (ex_addr 4) 3 9 (ex_ls\<lparr>lv_queue_closed := True\<rparr>) of (r, s') \<Rightarrow>
      r = Inr True \<and> pst (ex_addr 4) s' = Some Queued \<and> lv_queue s' = lv_queue ex_ls
      \<and> add_peer_if_not_seen (ex_addr 4) 3 9 s' = (Inr False, s')"
    using add_peer_queue_full [where s = "ex_ls\<lparr>lv_queue_closed := True\<rparr>" and a = "ex_addr 4" and cid = 3 and now = 9
        and cid' = 3 and now' = 9] by simp
  moreover have "lv_queue ex_ls = []" by (simp add: ex_ls_def live_state_new_def)
  ultimately show ?thesis by (simp add: split_beta)
qed

end
