(* ===== verification/Ip_Ranges.thy ===== *)
theory Ip_Ranges
  imports Prelude
begin

text \<open>
  \<open>src/src/ip_ranges.rs\<close>: block and allow lists of IP addresses. Parsing of one address (\<open>IpAddr::from_str\<close>) and
  the interval tree of the external crate \<open>intervaltree\<close> are parameters; of the tree it is assumed that a point query
  finds something exactly when one of the half-open ranges contains the point (\<open>query_ok\<close>).
\<close>

type_synonym v4 = "32 word"
type_synonym v6 = "128 word"

datatype ip_range = RangeV4 v4 v4 | RangeV6 v6 v6

record ip_ranges =
  ir_v4 :: "(v4 \<times> v4) list"
  ir_v6 :: "(v6 \<times> v6) list"

definition ip_ranges_default :: ip_ranges where
  "ip_ranges_default = \<lparr>ir_v4 = [], ir_v6 = []\<rparr>"

definition ip_ranges_new :: "(v4 \<times> v4) list \<Rightarrow> (v6 \<times> v6) list \<Rightarrow> ip_ranges" where
  "ip_ranges_new v4_ranges v6_ranges = \<lparr>ir_v4 = v4_ranges, ir_v6 = v6_ranges\<rparr>"

definition ip_ranges_len :: "ip_ranges \<Rightarrow> nat" where
  "ip_ranges_len r = length (ir_v4 r) + length (ir_v6 r)"

record interval_query =
  query_v4 :: "(v4 \<times> v4) list \<Rightarrow> v4 \<Rightarrow> bool"
  query_v6 :: "(v6 \<times> v6) list \<Rightarrow> v6 \<Rightarrow> bool"

definition ip_has :: "interval_query \<Rightarrow> ip_ranges \<Rightarrow> ip_addr \<Rightarrow> bool" where
  "ip_has q r ip = (case ip of V4 a \<Rightarrow> query_v4 q (ir_v4 r) a | V6 a \<Rightarrow> query_v6 q (ir_v6 r) a)"

subsection \<open>The order of addresses\<close>

text \<open>As \<open>derive(Ord)\<close> gives it: IPv4 before IPv6.\<close>

instantiation ip_addr :: linorder
begin

fun less_eq_ip_addr :: "ip_addr \<Rightarrow> ip_addr \<Rightarrow> bool" where
  "less_eq_ip_addr (V4 a) (V4 b) = (a \<le> b)"
| "less_eq_ip_addr (V4 a) (V6 b) = True"
| "less_eq_ip_addr (V6 a) (V4 b) = False"
| "less_eq_ip_addr (V6 a) (V6 b) = (a \<le> b)"

definition less_ip_addr :: "ip_addr \<Rightarrow> ip_addr \<Rightarrow> bool" where
  "less_ip_addr a b \<longleftrightarrow> a \<le> b \<and> \<not> b \<le> a"

instance
proof
  fix x y z :: ip_addr
  show "(x < y) = (x \<le> y \<and> \<not> y \<le> x)" by (rule less_ip_addr_def)
  show "x \<le> x" by (cases x) simp_all
  show "x \<le> y \<or> y \<le> x" by (cases x; cases y) auto
  show "x = y" if "x \<le> y" "y \<le> x" using that by (cases x; cases y) simp_all
  show "x \<le> z" if "x \<le> y" "y \<le> z" using that by (cases x; cases y; cases z) auto
qed

end

subsection \<open>Parsing a line\<close>

definition is_space :: "char \<Rightarrow> bool" where
  "is_space c = (c \<in> {CHR '' '', CHR 0x09, CHR 0x0A, CHR 0x0B, CHR 0x0C, CHR 0x0D})"

definition trim :: "string \<Rightarrow> string" where
  "trim s = rev (dropWhile is_space (rev (dropWhile is_space s)))"

text \<open>\<open>str::split_once\<close> and \<open>str::rsplit_once\<close> with a character.\<close>

definition split_once :: "char \<Rightarrow> string \<Rightarrow> (string \<times> string) option" where
  "split_once c s = (if c \<in> set s then Some (takeWhile (\<lambda>x. x \<noteq> c) s, tl (dropWhile (\<lambda>x. x \<noteq> c) s)) else None)"

definition rsplit_once :: "char \<Rightarrow> string \<Rightarrow> (string \<times> string) option" where
  "rsplit_once c s = map_option (\<lambda>(a, b). (rev b, rev a)) (split_once c (rev s))"

definition saturating_add_1 :: "'a::len word \<Rightarrow> 'a word" where
  "saturating_add_1 x = (if x = - 1 then x else x + 1)"

text \<open>The two ends of the range on a line.\<close>

definition parse_range_ends :: "(string \<Rightarrow> ip_addr option) \<Rightarrow> string \<Rightarrow> (ip_addr \<times> ip_addr) option" where
  "parse_range_ends parse_ip ln =
     (let s = trim ln in
      if s = [] \<or> hd s = CHR ''#'' then None
      else case (if length (filter (\<lambda>c. c = CHR '':'') s) > 2 then split_once CHR '':'' s else rsplit_once CHR '':'' s) of
        None \<Rightarrow> None
      | Some (_, ips) \<Rightarrow>
        (case split_once CHR ''-'' ips of
           None \<Rightarrow> None
         | Some (from_ip, to_ip) \<Rightarrow>
           (case (parse_ip from_ip, parse_ip to_ip) of (Some a, Some b) \<Rightarrow> Some (a, b) | _ \<Rightarrow> None)))"

definition parse_ip_range :: "(string \<Rightarrow> ip_addr option) \<Rightarrow> string \<Rightarrow> ip_range option" where
  "parse_ip_range parse_ip ln =
     (case parse_range_ends parse_ip ln of
        Some (V4 a, V4 b) \<Rightarrow> Some (RangeV4 a (saturating_add_1 b))
      | Some (V6 a, V6 b) \<Rightarrow> Some (RangeV6 a (saturating_add_1 b))
      | _ \<Rightarrow> None)"

text \<open>The line loop of \<open>create_from_decoded_stream\<close>; a line is \<open>Inl\<close> when reading it fails.\<close>

fun read_ranges :: "(string \<Rightarrow> ip_addr option) \<Rightarrow> string res list \<Rightarrow> ip_ranges \<Rightarrow> ip_ranges res" where
  "read_ranges parse_ip [] r = Inr (ip_ranges_new (ir_v4 r) (ir_v6 r))"
| "read_ranges parse_ip (Inl e # ls) r = Inl e"
| "read_ranges parse_ip (Inr l # ls) r =
     read_ranges parse_ip ls (case parse_ip_range parse_ip l of
         Some (RangeV4 a b) \<Rightarrow> r\<lparr>ir_v4 := ir_v4 r @ [(a, b)]\<rparr>
       | Some (RangeV6 a b) \<Rightarrow> r\<lparr>ir_v6 := ir_v6 r @ [(a, b)]\<rparr>
       | None \<Rightarrow> r)"

definition create_from_decoded_stream :: "(string \<Rightarrow> ip_addr option) \<Rightarrow> string res list \<Rightarrow> ip_ranges res" where
  "create_from_decoded_stream parse_ip lines = read_ranges parse_ip lines ip_ranges_default"

text \<open>The first bytes decide whether the stream is decompressed; \<open>plain\<close> and \<open>gunzip\<close> split a stream into lines.\<close>

definition create_from_stream ::
  "(string \<Rightarrow> ip_addr option) \<Rightarrow> (8 word list \<Rightarrow> string res list) \<Rightarrow> (8 word list \<Rightarrow> string res list) \<Rightarrow> 8 word list \<Rightarrow> ip_ranges res" where
  "create_from_stream parse_ip plain gunzip bytes =
     (if length bytes < 2 then Inl (Bail ''content too short: not enough data to determine compression'')
      else if take 2 bytes = [0x1F, 0x8B] then create_from_decoded_stream parse_ip (gunzip bytes)
      else create_from_decoded_stream parse_ip (plain bytes))"

subsection \<open>What a list contains\<close>

definition query_ok :: "interval_query \<Rightarrow> bool" where
  "query_ok q \<longleftrightarrow> (\<forall>rs p. query_v4 q rs p \<longleftrightarrow> (\<exists>(a, b) \<in> set rs. a \<le> p \<and> p < b))
     \<and> (\<forall>rs p. query_v6 q rs p \<longleftrightarrow> (\<exists>(a, b) \<in> set rs. a \<le> p \<and> p < b))"

text \<open>The addresses a line stands for: from the first to the last, both included.\<close>

definition line_ips :: "(string \<Rightarrow> ip_addr option) \<Rightarrow> string \<Rightarrow> ip_addr set" where
  "line_ips parse_ip l =
     (case parse_range_ends parse_ip l of
        Some (V4 a, V4 b) \<Rightarrow> V4 ` {a..b}
      | Some (V6 a, V6 b) \<Rightarrow> V6 ` {a..b}
      | _ \<Rightarrow> {})"

text \<open>The largest address of each family.\<close>

definition max_ip :: "ip_addr \<Rightarrow> bool" where
  "max_ip ip \<longleftrightarrow> ip = V4 (- 1) \<or> ip = V6 (- 1)"

lemma less_saturating_add_1: "x < saturating_add_1 b \<longleftrightarrow> x \<le> b \<and> x \<noteq> - 1" for x b :: "'a::len word"
proof (cases "b = - 1")
  case True
  then show ?thesis using word_order.not_eq_extremum by (auto simp: saturating_add_1_def)
next
  case False
  have b: "b < - 1" using False word_order.not_eq_extremum by blast
  have "x < b + 1 \<longleftrightarrow> x \<le> b" using False inc_less_eq_iff [of b x] by (simp flip: not_less) (metis not_less)
  then show ?thesis using b by (auto simp: saturating_add_1_def False)
qed

lemma line_added:
  assumes "query_ok q"
  shows "ip_has q (case parse_ip_range parse_ip l of
         Some (RangeV4 a b) \<Rightarrow> r\<lparr>ir_v4 := ir_v4 r @ [(a, b)]\<rparr>
       | Some (RangeV6 a b) \<Rightarrow> r\<lparr>ir_v6 := ir_v6 r @ [(a, b)]\<rparr>
       | None \<Rightarrow> r) ip \<longleftrightarrow> ip_has q r ip \<or> ip \<in> line_ips parse_ip l \<and> \<not> max_ip ip"
  using assms
  by (auto simp: query_ok_def ip_has_def parse_ip_range_def line_ips_def max_ip_def less_saturating_add_1
      split: option.splits ip_addr.splits prod.splits)

lemma read_ranges_has:
  assumes "query_ok q"
  shows "\<exists>r'. read_ranges parse_ip (map Inr ls) r = Inr r'
     \<and> (\<forall>ip. ip_has q r' ip \<longleftrightarrow> ip_has q r ip \<or> (\<exists>l \<in> set ls. ip \<in> line_ips parse_ip l) \<and> \<not> max_ip ip)"
proof (induction ls arbitrary: r)
  case Nil
  show ?case by (simp add: ip_ranges_new_def ip_has_def split: ip_addr.split)
next
  case (Cons l ls)
  let ?r = "case parse_ip_range parse_ip l of
         Some (RangeV4 a b) \<Rightarrow> r\<lparr>ir_v4 := ir_v4 r @ [(a, b)]\<rparr>
       | Some (RangeV6 a b) \<Rightarrow> r\<lparr>ir_v6 := ir_v6 r @ [(a, b)]\<rparr>
       | None \<Rightarrow> r"
  from Cons [of ?r] obtain r' where r': "read_ranges parse_ip (map Inr ls) ?r = Inr r'"
    "\<forall>ip. ip_has q r' ip \<longleftrightarrow> ip_has q ?r ip \<or> (\<exists>l \<in> set ls. ip \<in> line_ips parse_ip l) \<and> \<not> max_ip ip" by blast
  then show ?case using line_added [OF assms] by (intro exI [of _ r']) auto
qed

text \<open>A block or allow list holds exactly the addresses its lines stand for, both ends included, except the largest address of
  each family: the exclusive end of a range that reaches it saturates, so that address is never in a list.\<close>

theorem ip_list_members:
  assumes "query_ok q"
  shows "\<exists>r. create_from_decoded_stream parse_ip (map Inr ls) = Inr r
     \<and> (\<forall>ip. ip_has q r ip \<longleftrightarrow> (\<exists>l \<in> set ls. ip \<in> line_ips parse_ip l) \<and> \<not> max_ip ip)"
proof -
  have "\<not> ip_has q ip_ranges_default ip" for ip
    using assms by (simp add: ip_has_def ip_ranges_default_def query_ok_def split: ip_addr.split)
  then show ?thesis
    using read_ranges_has [OF assms, of parse_ip ls ip_ranges_default] by (simp add: create_from_decoded_stream_def)
qed

text \<open>Linear search, and a parser for two addresses.\<close>

definition list_query :: interval_query where
  "list_query = \<lparr>query_v4 = (\<lambda>rs p. list_ex (\<lambda>(a, b). a \<le> p \<and> p < b) rs), query_v6 = (\<lambda>rs p. list_ex (\<lambda>(a, b). a \<le> p \<and> p < b) rs)\<rparr>"

definition ex_parse_ip :: "string \<Rightarrow> ip_addr option" where
  "ex_parse_ip s = (if s = ''1.0.0.0'' then Some (V4 0x01000000) else if s = ''1.0.0.9'' then Some (V4 0x01000009) else None)"

theorem ip_list_members_witness:
  "\<exists>r. create_from_decoded_stream ex_parse_ip (map Inr [''# a'', ''b:1.0.0.0-1.0.0.9 '']) = Inr r
     \<and> ip_has list_query r (V4 0x01000009) \<and> \<not> ip_has list_query r (V4 0x0100000A)"
proof -
  have "query_ok list_query" by (auto simp: query_ok_def list_query_def list_ex_iff)
  moreover have "line_ips ex_parse_ip ''# a'' = {}" "line_ips ex_parse_ip ''b:1.0.0.0-1.0.0.9 '' = V4 ` {0x01000000..0x01000009}"
    by (simp_all add: line_ips_def parse_range_ends_def trim_def is_space_def split_once_def rsplit_once_def ex_parse_ip_def)
  ultimately show ?thesis
    using ip_list_members [of list_query ex_parse_ip "[''# a'', ''b:1.0.0.0-1.0.0.9 '']"] by (auto simp: max_ip_def)
qed

end
