(* ===== verification/Limits.thy ===== *)
theory Limits
  imports Prelude
begin

text \<open>
  \<open>src/src/limits.rs\<close>: upload and download rate limits. The limiter of the external crate \<open>governor\<close> is a
  parameter: how it is made for a rate, and what waiting for a number of cells answers.
\<close>

record limits_config =
  lc_upload_bps :: "u32 option"
  lc_download_bps :: "u32 option"
  lc_peer_limit :: "nat option"
  lc_concurrent_init_limit :: "nat option"

record 'l limiter_ops =
  rl_direct :: "u32 \<Rightarrow> 'l"
  rl_until_n_ready :: "'l \<Rightarrow> u32 \<Rightarrow> unit res \<times> 'l"

record 'l limit =
  lm_limiter :: "'l option"
  lm_current_bps :: u32

definition limit_new_inner :: "'l limiter_ops \<Rightarrow> u32 option \<Rightarrow> 'l option" where
  "limit_new_inner G bps = map_option (rl_direct G) bps"

definition limit_new :: "'l limiter_ops \<Rightarrow> u32 option \<Rightarrow> 'l limit" where
  "limit_new G bps = \<lparr>lm_limiter = limit_new_inner G bps, lm_current_bps = (case bps of None \<Rightarrow> 0 | Some v \<Rightarrow> v)\<rparr>"

definition limit_acquire :: "'l limiter_ops \<Rightarrow> u32 \<Rightarrow> ('l limit, unit) sm" where
  "limit_acquire G n l =
     (case lm_limiter l of
        None \<Rightarrow> (Inr (), l)
      | Some rl \<Rightarrow> (case rl_until_n_ready G rl n of (r, rl') \<Rightarrow> (r, l\<lparr>lm_limiter := Some rl'\<rparr>)))"

definition limit_set :: "'l limiter_ops \<Rightarrow> u32 option \<Rightarrow> 'l limit \<Rightarrow> 'l limit" where
  "limit_set G bps l = l\<lparr>lm_limiter := limit_new_inner G bps, lm_current_bps := (case bps of None \<Rightarrow> 0 | Some v \<Rightarrow> v)\<rparr>"

definition limit_get :: "'l limit \<Rightarrow> u32 option" where
  "limit_get l = (if lm_current_bps l = 0 then None else Some (lm_current_bps l))"

record 'l limits =
  ls_down :: "'l limit"
  ls_up :: "'l limit"

definition limits_new :: "'l limiter_ops \<Rightarrow> limits_config \<Rightarrow> 'l limits" where
  "limits_new G config = \<lparr>ls_down = limit_new G (lc_download_bps config), ls_up = limit_new G (lc_upload_bps config)\<rparr>"

definition prepare_for_upload :: "'l limiter_ops \<Rightarrow> u32 \<Rightarrow> ('l limits, unit) sm" where
  "prepare_for_upload G n s = (case limit_acquire G n (ls_up s) of (r, l) \<Rightarrow> (r, s\<lparr>ls_up := l\<rparr>))"

definition prepare_for_download :: "'l limiter_ops \<Rightarrow> u32 \<Rightarrow> ('l limits, unit) sm" where
  "prepare_for_download G n s = (case limit_acquire G n (ls_down s) of (r, l) \<Rightarrow> (r, s\<lparr>ls_down := l\<rparr>))"

definition set_upload_bps :: "'l limiter_ops \<Rightarrow> u32 option \<Rightarrow> 'l limits \<Rightarrow> 'l limits" where
  "set_upload_bps G bps s = s\<lparr>ls_up := limit_set G bps (ls_up s)\<rparr>"

definition set_download_bps :: "'l limiter_ops \<Rightarrow> u32 option \<Rightarrow> 'l limits \<Rightarrow> 'l limits" where
  "set_download_bps G bps s = s\<lparr>ls_down := limit_set G bps (ls_down s)\<rparr>"

definition get_upload_bps :: "'l limits \<Rightarrow> u32 option" where
  "get_upload_bps s = limit_get (ls_up s)"

definition get_download_bps :: "'l limits \<Rightarrow> u32 option" where
  "get_download_bps s = limit_get (ls_down s)"

definition get_config :: "'l limits \<Rightarrow> limits_config" where
  "get_config s = \<lparr>lc_upload_bps = get_upload_bps s, lc_download_bps = get_download_bps s, lc_peer_limit = None,
     lc_concurrent_init_limit = None\<rparr>"

subsection \<open>The reported rate is the one in force\<close>

text \<open>\<open>NonZeroU32\<close>: a rate that is given is not zero.\<close>

definition nonzero :: "u32 option \<Rightarrow> bool" where
  "nonzero bps \<longleftrightarrow> bps \<noteq> Some 0"

definition limit_inv :: "'l limit \<Rightarrow> bool" where
  "limit_inv l \<longleftrightarrow> (lm_limiter l = None \<longleftrightarrow> lm_current_bps l = 0)"

lemma limit_get_new: "nonzero bps \<Longrightarrow> limit_get (limit_new G bps) = bps"
  by (auto simp: limit_get_def limit_new_def nonzero_def split: option.splits)

lemma limit_get_set: "nonzero bps \<Longrightarrow> limit_get (limit_set G bps l) = bps"
  by (auto simp: limit_get_def limit_set_def nonzero_def split: option.splits)

lemma limit_inv_ops:
  "nonzero bps \<Longrightarrow> limit_inv (limit_new G bps)"
  "nonzero bps \<Longrightarrow> limit_inv (limit_set G bps l)"
  "limit_inv l \<Longrightarrow> limit_inv (snd (limit_acquire G n l))"
  by (auto simp: limit_inv_def limit_new_def limit_set_def limit_new_inner_def limit_acquire_def nonzero_def
      split: option.splits prod.splits)

lemma get_config_new:
  "nonzero (lc_upload_bps c) \<Longrightarrow> nonzero (lc_download_bps c) \<Longrightarrow>
   get_config (limits_new G c) = c\<lparr>lc_peer_limit := None, lc_concurrent_init_limit := None\<rparr>"
  by (simp add: get_config_def limits_new_def get_upload_bps_def get_download_bps_def limit_get_new)

lemma set_bps_independent:
  "nonzero bps \<Longrightarrow> get_upload_bps (set_upload_bps G bps s) = bps"
  "get_download_bps (set_upload_bps G bps s) = get_download_bps s"
  "nonzero bps \<Longrightarrow> get_download_bps (set_download_bps G bps s) = bps"
  "get_upload_bps (set_download_bps G bps s) = get_upload_bps s"
  by (simp_all add: get_upload_bps_def set_upload_bps_def get_download_bps_def set_download_bps_def limit_get_set)

text \<open>Waiting never changes a rate, and without a limit there is no waiting.\<close>

lemma acquire_keeps_rate: "limit_get (snd (limit_acquire G n l)) = limit_get l"
  by (auto simp: limit_get_def limit_acquire_def split: option.splits prod.splits)

lemma unlimited_upload: "limit_inv (ls_up s) \<Longrightarrow> get_upload_bps s = None \<Longrightarrow> fst (prepare_for_upload G n s) = Inr ()"
  by (auto simp: prepare_for_upload_def limit_acquire_def limit_inv_def get_upload_bps_def limit_get_def split: if_splits option.splits)

end
