(* ===== verification/Tasks.thy ===== *)
theory Tasks
  imports Peer_Lifecycle Ip_Ranges Limits "HOL-Library.Product_Lexorder"
begin

text \<open>
  \<open>src/src/torrent_state/live/tasks.rs\<close>: the tasks of a live torrent. One turn of a task's loop is one operation: the
  upload scheduler takes one request, the peer adder one address, the health monitor and the PEX
  sender do one round, and the task of a connection has a beginning and an end around the
  connection itself. Which arm of a \<open>select!\<close> wins, the clock, and the order in which a hash set is iterated are
  arguments. A permit of the peer semaphore is taken from \<open>lv_permits\<close> and given back at the end of the task.
\<close>

unbundle bit_operations_syntax

record 'l session_view =
  sv_alive :: bool
  sv_ipv4_only :: bool
  sv_blocklist :: ip_ranges
  sv_allowlist :: "ip_ranges option"
  sv_blocked_outgoing :: u64
  sv_limits :: "'l limits"

record ('s, 'l) tasks =
  tt_live :: "'s live"
  tt_limits :: "'l limits"
  tt_session :: "'l session_view"
  tt_uploader_alive :: bool

type_synonym ('s, 'l, 'a) tm = "(('s, 'l) tasks, 'a) sm"

definition live_upd :: "('s live \<Rightarrow> 's live) \<Rightarrow> ('s, 'l) tasks \<Rightarrow> ('s, 'l) tasks" where
  "live_upd g T = T\<lparr>tt_live := g (tt_live T)\<rparr>"

text \<open>An operation of the live torrent inside a task.\<close>

definition in_live :: "('s, 'a) lm \<Rightarrow> ('s, 'l, 'a) tm" where
  "in_live m T = (case m (tt_live T) of (r, s) \<Rightarrow> (r, T\<lparr>tt_live := s\<rparr>))"

subsection \<open>Upload scheduler\<close>

text \<open>\<open>closed1\<close> and \<open>closed2\<close>: the peer went away while waiting for the torrent's or the session's limit.\<close>

definition upload_wait :: "'l limiter_ops \<Rightarrow> bool \<Rightarrow> bool \<Rightarrow> u32 \<Rightarrow> ('s, 'l, bool) tm" where
  "upload_wait G closed1 closed2 n T =
     (if closed1 then (Inr False, T)
      else case prepare_for_upload G n (tt_limits T) of
        (Inl e, l) \<Rightarrow> (Inl e, T\<lparr>tt_limits := l\<rparr>)
      | (Inr _, l) \<Rightarrow>
        let T1 = T\<lparr>tt_limits := l\<rparr> in
        if \<not> sv_alive (tt_session T1) then (Inr True, T1)
        else if closed2 then (Inr False, T1)
        else (case prepare_for_upload G n (sv_limits (tt_session T1)) of
                (Inl e, l') \<Rightarrow> (Inl e, T1\<lparr>tt_session := (tt_session T1)\<lparr>sv_limits := l'\<rparr>\<rparr>)
              | (Inr _, l') \<Rightarrow> (Inr True, T1\<lparr>tt_session := (tt_session T1)\<lparr>sv_limits := l'\<rparr>\<rparr>)))"

text \<open>An error of a limiter ends the task.\<close>

definition upload_scheduler_turn :: "'l limiter_ops \<Rightarrow> bool \<Rightarrow> bool \<Rightarrow> ('s, 'l, unit) tm" where
  "upload_scheduler_turn G closed1 closed2 T =
     (if \<not> tt_uploader_alive T then (Inr (), T)
      else case lv_upload_queue (tt_live T) of
        [] \<Rightarrow> (Inr (), T)
      | (t, ci) # rest \<Rightarrow>
        let T1 = live_upd (\<lambda>s. s\<lparr>lv_upload_queue := rest\<rparr>) T in
        if (of_nat (ci_size ci) :: u32) = 0 then (Inl Panic, T1\<lparr>tt_uploader_alive := False\<rparr>)
        else (case upload_wait G closed1 closed2 (of_nat (ci_size ci)) T1 of
                (Inl e, T2) \<Rightarrow> (Inl e, T2\<lparr>tt_uploader_alive := False\<rparr>)
              | (Inr False, T2) \<Rightarrow> (Inr (), T2)
              | (Inr True, T2) \<Rightarrow>
                (Inr (), live_upd (\<lambda>s. s\<lparr>lv_outbox := lv_outbox s @ [(t, WrReadChunkRequest ci)]\<rparr>) T2)))"

subsection \<open>Connections\<close>

definition release_permit :: "'s live \<Rightarrow> 's live" where
  "release_permit s = s\<lparr>lv_permits := lv_permits s + 1\<rparr>"

definition outgoing_handler :: "socket_addr \<Rightarrow> tx \<Rightarrow> nat \<Rightarrow> ('s, handler) lm" where
  "outgoing_handler a t now =
     sm_bind (on_peers (mark_peer_connecting a t now)) (\<lambda>r.
     sm_bind (sm_res r) (\<lambda>_.
     sm_bind (\<lambda>s. (ok_or BugPeerNotFound (with_peer a counters (lv_peers s)), s)) (\<lambda>c.
     sm_bind (modify_peers (upd_counters c (\<lambda>k. k\<lparr>outgoing_connection_attempts := atomic_inc (outgoing_connection_attempts k)\<rparr>)))
       (\<lambda>_. sm_ret (handler_new a c False t)))))"

text \<open>\<open>task_manage_outgoing_peer\<close> up to the connection: the permit guard gives the permit back when it fails.\<close>

definition manage_outgoing_begin :: "socket_addr \<Rightarrow> tx \<Rightarrow> nat \<Rightarrow> ('s, handler) lm" where
  "manage_outgoing_begin a t now s =
     (case outgoing_handler a t now s of
        (Inl e, s') \<Rightarrow> (Inl e, release_permit s')
      | (Inr h, s') \<Rightarrow> (Inr h, s'))"

definition manage_incoming_begin :: "socket_addr \<Rightarrow> nat \<Rightarrow> tx \<Rightarrow> handler" where
  "manage_incoming_begin a c t = handler_new a c True t"

text \<open>What both tasks do when the connection or the requester has ended with \<open>res\<close>.\<close>

definition manage_peer_end :: "'s live_env \<Rightarrow> handler \<Rightarrow> unit res \<Rightarrow> nat \<Rightarrow> ('s, unit) lm" where
  "manage_peer_end E h res now s =
     (case on_peer_died E h (case res of Inr _ \<Rightarrow> None | Inl e \<Rightarrow> Some e) now s of
        (r, s') \<Rightarrow> (r, release_permit s'))"

subsection \<open>Peer adder\<close>

datatype adder_turn = AdderWaits | AdderSkipped socket_addr | AdderBlocked socket_addr | AdderSpawned socket_addr

definition count_blocked :: "('s, 'l) tasks \<Rightarrow> ('s, 'l) tasks" where
  "count_blocked T = T\<lparr>tt_session := (tt_session T)\<lparr>sv_blocked_outgoing := sv_blocked_outgoing (tt_session T) + 1\<rparr>\<rparr>"

definition is_ipv6 :: "socket_addr \<Rightarrow> bool" where
  "is_ipv6 a = (case fst a of V4 _ \<Rightarrow> False | V6 _ \<Rightarrow> True)"

text \<open>The filters on an address that was taken from the queue: whether it is refused, and counted as blocked.\<close>

definition adder_filter :: "interval_query \<Rightarrow> 'l session_view \<Rightarrow> socket_addr \<Rightarrow> bool \<times> bool" where
  "adder_filter q sv a =
     (if sv_ipv4_only sv \<and> is_ipv6 a then (True, False)
      else if snd a = 0 then (True, False)
      else if ip_has q (sv_blocklist sv) (fst a) then (True, True)
      else if (case sv_allowlist sv of None \<Rightarrow> False | Some l \<Rightarrow> \<not> ip_has q l (fst a)) then (True, True)
      else (False, False))"

text \<open>The address was taken and let through the filters; the task waits until there is a permit.\<close>

definition adder_spawn :: "socket_addr \<Rightarrow> ('s, 'l, adder_turn) tm" where
  "adder_spawn a T =
     (if lv_permits (tt_live T) = 0 then (Inr (AdderBlocked a), T)
      else (Inr (AdderSpawned a), live_upd (\<lambda>s. s\<lparr>lv_permits := lv_permits s - 1\<rparr>) T))"

definition peer_adder_turn :: "interval_query \<Rightarrow> 's live_env \<Rightarrow> nat \<Rightarrow> ('s, 'l, adder_turn) tm" where
  "peer_adder_turn q E now T =
     (case lv_queue (tt_live T) of
        [] \<Rightarrow> if lv_queue_closed (tt_live T) then (Inl TorrentIsNotLive, T) else (Inr AdderWaits, T)
      | a # rest \<Rightarrow>
        let T1 = live_upd (\<lambda>s. s\<lparr>lv_queue := rest\<rparr>) T in
        sm_bind (sm_res (if le_disable_upload E then is_finished_and_no_active_streams E (tt_live T1) else Inr False)) (\<lambda>finished.
          if finished
          then sm_bind (in_live (on_peers (mark_peer_not_needed a now))) (\<lambda>_. sm_ret (AdderSkipped a))
          else if \<not> sv_alive (tt_session T1) then sm_res (Inl SessionDestroyed)
          else case adder_filter q (tt_session T1) a of
            (True, blocked) \<Rightarrow>
              sm_bind (sm_modify (if blocked then count_blocked else (\<lambda>x. x))) (\<lambda>_. sm_ret (AdderSkipped a))
          | (False, _) \<Rightarrow> adder_spawn a) T1)"

subsection \<open>Health monitor\<close>

definition REDISCOVERY_COOLDOWN :: nat where
  "REDISCOVERY_COOLDOWN = 30 * 10 ^ 9"

text \<open>A round after the sleep; \<open>last\<close> is the time of the last rediscovery.\<close>

definition health_round :: "'s live_env \<Rightarrow> nat \<Rightarrow> nat option \<Rightarrow> ('s, nat option) lm" where
  "health_round E now last_rediscovery =
     sm_bind (\<lambda>s. (is_finished_and_no_active_streams E s, s)) (\<lambda>finished.
       if finished then sm_ret last_rediscovery
       else sm_bind (sm_gets get_active_peer_count) (\<lambda>active.
         if of_nat MIN_PEERS_THRESHOLD \<le> active then sm_ret last_rediscovery
         else if (case last_rediscovery of None \<Rightarrow> False | Some t \<Rightarrow> now - t < REDISCOVERY_COOLDOWN) then sm_ret last_rediscovery
         else sm_bind (requeue_dead_peers now) (\<lambda>_. sm_bind (emit EvRediscovery) (\<lambda>_. sm_ret (Some now)))))"

subsection \<open>Peer exchange\<close>

definition MAX_SENT_PEERS :: nat where
  "MAX_SENT_PEERS = 50"

text \<open>The predicates of \<open>std::net\<close> on addresses.\<close>

definition is_loopback :: "ip_addr \<Rightarrow> bool" where
  "is_loopback ip = (case ip of V4 a \<Rightarrow> drop_bit 24 a = 127 | V6 a \<Rightarrow> a = 1)"

definition is_private_v4 :: "32 word \<Rightarrow> bool" where
  "is_private_v4 a \<longleftrightarrow> drop_bit 24 a = 10 \<or> drop_bit 20 a = 0xAC1 \<or> drop_bit 16 a = 0xC0A8"

definition is_unique_local :: "128 word \<Rightarrow> bool" where
  "is_unique_local a \<longleftrightarrow> drop_bit 121 a = 0x7E"

definition is_unicast_link_local :: "128 word \<Rightarrow> bool" where
  "is_unicast_link_local a \<longleftrightarrow> drop_bit 118 a = 0x3FA"

definition peer_ip_non_local :: "ip_addr \<Rightarrow> bool" where
  "peer_ip_non_local ip = (case ip of V4 a \<Rightarrow> \<not> is_loopback ip \<and> \<not> is_private_v4 a | V6 a \<Rightarrow> \<not> is_loopback ip \<and> \<not> is_unique_local a)"

definition other_ip_is_local :: "ip_addr \<Rightarrow> bool" where
  "other_ip_is_local ip = (case ip of V4 a \<Rightarrow> is_loopback ip \<or> is_private_v4 a
     | V6 a \<Rightarrow> is_loopback ip \<or> is_unicast_link_local a \<or> is_unique_local a)"

definition pex_filter :: "socket_addr \<Rightarrow> socket_addr \<Rightarrow> bool" where
  "pex_filter this_peer a \<longleftrightarrow> \<not> (peer_ip_non_local (fst this_peer) \<and> other_ip_is_local (fst a))"

text \<open>
  A round after the tick: \<open>view\<close> is what the peer was told, \<open>order\<close> how a set is iterated, \<open>sent\<close> whether the channel took
  the message. \<open>None\<close> as the new view means that the task ends.
\<close>

definition pex_round ::
  "(socket_addr set \<Rightarrow> socket_addr list) \<Rightarrow> socket_addr \<Rightarrow> tx \<Rightarrow> bool \<Rightarrow> bool \<Rightarrow> socket_addr set
   \<Rightarrow> ('s, socket_addr set option) lm" where
  "pex_round order this_peer t closed sent view s =
     (if closed then (Inr None, s)
      else let live_peers = live_outgoing_peers (lv_peers s);
               connected = take MAX_SENT_PEERS (order (live_peers - view));
               dropped = take MAX_SENT_PEERS (order (view - live_peers))
      in if connected = [] \<and> dropped = [] then (Inr (Some view), s)
         else if \<not> sent then (Inr None, s)
         else (Inr (Some (view - set dropped \<union> set (filter (pex_filter this_peer) connected))),
               s\<lparr>lv_outbox := lv_outbox s @ [(t, WrUtPex \<lparr>px_added = connected, px_dropped = dropped\<rparr>)]\<rparr>))"

subsection \<open>The tasks keep the torrent consistent\<close>

lemma mark_peer_connecting_safe: "safe (live_ok E others H) (on_peers (mark_peer_connecting a t now))"
  by (rule on_peers_safe) (simp add: mark_peer_connecting_inv)

lemma not_needed_safe: "safe (live_ok E others H) (on_peers (mark_peer_not_needed a now))"
  by (rule on_peers_safe) (simp add: mark_peer_not_needed_def peers_op_inv)

lemma release_permit_ok [simp]: "live_ok E others H (release_permit s) = live_ok E others H s"
  by (simp add: release_permit_def)

lemma mark_peer_connecting_error: "fst (mark_peer_connecting a t now ps) = Inl e \<Longrightarrow> e = BugPeerNotFound \<or> e = BugInvalidPeerState"
  by (auto simp: mark_peer_connecting_def Let_def ok_or_def split: prod.splits option.splits)

lemma outgoing_handler_safe: "safe (live_ok E others H) (outgoing_handler a t now)"
proof (rule safeI)
  fix s assume ok: "live_ok E others H s"
  obtain r ps where m: "mark_peer_connecting a t now (lv_peers s) = (r, ps)" by fastforce
  have ok1: "live_ok E others H (s\<lparr>lv_peers := ps\<rparr>)"
    using safeD(1) [OF mark_peer_connecting_safe ok, of a t now] m by (simp add: on_peers_def)
  have "res_ok r" using mark_peer_connecting_error [of a t now "lv_peers s"] m by (auto simp: res_ok_def)
  then show "live_ok E others H (snd (outgoing_handler a t now s))" "res_ok (fst (outgoing_handler a t now s))"
    using ok1 safeD(1) [OF upd_counters_safe ok1] m
    by (auto simp: outgoing_handler_def sm_bind_def on_peers_def sm_res_def sm_ret_def modify_peers_def sm_modify_def ok_or_def res_ok_def
        split: sum.splits option.splits)
qed

lemma manage_outgoing_begin_ok:
  assumes "live_ok E others H s"
  shows "live_ok E others H (snd (manage_outgoing_begin a t now s))"
  using safeD(1) [OF outgoing_handler_safe assms, of a t now]
  by (auto simp: manage_outgoing_begin_def split: prod.splits sum.splits)

lemma manage_peer_end_ok:
  assumes "live_ok E others H s"
  shows "live_ok E others H (snd (manage_peer_end E h res now s))"
  using safeD(1) [OF on_peer_died_safe assms]
  by (auto simp: manage_peer_end_def split: prod.splits) (metis snd_conv)+

lemma upload_wait_live: "tt_live (snd (upload_wait G c1 c2 n T)) = tt_live T"
  by (auto simp: upload_wait_def Let_def split: prod.splits sum.splits)

lemma upload_scheduler_ok:
  assumes "live_ok E others H (tt_live T)"
  shows "live_ok E others H (tt_live (snd (upload_scheduler_turn G c1 c2 T)))"
proof (cases "lv_upload_queue (tt_live T)")
  case (Cons x rest)
  obtain t ci where x: "x = (t, ci)" by (cases x)
  let ?T = "live_upd (\<lambda>s. s\<lparr>lv_upload_queue := rest\<rparr>) T"
  obtain r T2 where w: "upload_wait G c1 c2 (of_nat (ci_size ci)) ?T = (r, T2)" by fastforce
  have "tt_live T2 = (tt_live T)\<lparr>lv_upload_queue := rest\<rparr>"
    using upload_wait_live [of G c1 c2 "of_nat (ci_size ci)" ?T] w by (simp add: live_upd_def)
  with Cons x w assms show ?thesis
    by (auto simp: upload_scheduler_turn_def live_upd_def Let_def split: sum.splits bool.splits)
qed (use assms in \<open>simp add: upload_scheduler_turn_def\<close>)

lemma requeue_loop_ok:
  "live_ok E others H s \<Longrightarrow> live_ok E others H (snd (requeue_loop now as s)) \<and> res_ok (fst (requeue_loop now as s))"
proof (induction as arbitrary: s)
  case (Cons a as)
  obtain r s1 where s1: "on_peers (with_peer_mut a (dead_to_queued_reset now)) s = (r, s1)" by fastforce
  have "safe (live_ok E others H) (on_peers (with_peer_mut a (dead_to_queued_reset now)))"
    by (rule on_peers_safe) (rule dead_to_queued_reset_tr.with_peer_mut_inv)
  from safeD(1) [OF this Cons.prems] s1 have ok1: "live_ok E others H s1" by simp
  have ok2: "live_ok E others H (snd (try_send_queue target s1))" for target
    using safeD(1) [OF try_send_queue_safe ok1] .
  show ?case
    using s1 Cons.IH [OF ok1] Cons.IH [OF ok2] ok1 ok2
    by (auto split: sum.splits option.splits prod.splits bool.splits) (metis prod.collapse snd_conv)+
qed simp

lemma health_round_safe: "safe (live_ok E others H) (health_round E now last_rediscovery)"
proof -
  have "safe (live_ok E others H) (requeue_dead_peers now)"
    using requeue_loop_ok [of E others H _ now] by (auto simp: safe_def requeue_dead_peers_def)
  then show ?thesis
    unfolding health_round_def by (auto intro!: safe_intros finished_no_streams_ok)
qed

lemma peer_adder_ok:
  assumes "live_ok E others H (tt_live T)"
  shows "live_ok E others H (tt_live (snd (peer_adder_turn q E now T)))"
proof (cases "lv_queue (tt_live T)")
  case (Cons a rest)
  let ?T = "live_upd (\<lambda>s. s\<lparr>lv_queue := rest\<rparr>) T"
  have ok: "live_ok E others H (tt_live ?T)" using assms by (simp add: live_upd_def)
  have "live_ok E others H (snd (on_peers (mark_peer_not_needed a now) (tt_live ?T)))"
    by (rule safeD(1) [OF not_needed_safe ok])
  with ok Cons show ?thesis
    by (auto simp: peer_adder_turn_def sm_bind_def sm_res_def in_live_def sm_ret_def sm_modify_def adder_spawn_def count_blocked_def
        live_upd_def Let_def split: prod.splits sum.splits bool.splits if_splits)
qed (use assms in \<open>simp add: peer_adder_turn_def\<close>)

lemma pex_round_ok: "live_ok E others H s \<Longrightarrow> live_ok E others H (snd (pex_round order this_peer t closed sent view s))"
  by (auto simp: pex_round_def Let_def)

text \<open>Accepting an incoming peer.\<close>

lemma add_incoming_vacant_inv:
  assumes "peers_inv others ps" and "map_of (states ps) a = None"
  shows "peers_inv others (add_incoming_vacant a pid t kind cid now ps)"
  using assms peers_in_class_update_fresh [OF assms(2)]
  by (simp add: add_incoming_vacant_def new_live_for_incoming_connection_def both_counters_def peers_inv_def distinct_update Let_def)

lemma add_incoming_peer_ok:
  assumes "live_ok E others H s"
  shows "live_ok E others H (snd (add_incoming_peer a pid kind t cid now s))"
proof -
  note inv = live_ok_peers(2) [OF assms]
  obtain r ps where ps: "with_peer_mut a (incoming_connection pid t kind now) (lv_peers s) = (r, ps)" by fastforce
  have "peers_inv others ps" using incoming_connection_tr.with_peer_mut_inv [OF inv, of a pid t kind now] ps by simp
  with assms inv show ?thesis
    unfolding add_incoming_peer_def ps
    by (auto simp: live_ok_peers peers_inv_counters_irrelevant add_incoming_vacant_inv split: option.split)
qed

text \<open>The chunk requester: the pieces the streams want are valid, so that whatever piece is acquired, the tracker stays well-formed.\<close>

lemma iter_next_pieces_valid:
  assumes "lengths_ok L" and "\<And>qs. mset (shuffle qs) = mset qs" and "iter_next_pieces shuffle L t = Inr ps" and "p \<in> set ps"
  shows "p < total_pieces L"
proof -
  obtain qs where qs: "res_mapM (\<lambda>(_, s). stream_queue L s) (streams t) = Inr qs" "ps = interleave (shuffle qs)"
    using assms(3) by (auto simp: iter_next_pieces_def res_bind_eq_Inr)
  have "\<forall>q \<in> set qs. \<forall>p \<in> set q. p < total_pieces L"
    using qs(1)
  proof (induction "streams t" arbitrary: qs t)
    case (Cons x xs)
    obtain q qs' where "stream_queue L (snd x) = Inr q" "res_mapM (\<lambda>(_, s). stream_queue L s) xs = Inr qs'" "qs = q # qs'"
      using Cons.prems Cons.hyps(2) [symmetric] by (cases x) (auto simp: res_bind_eq_Inr)
    moreover have "\<forall>q \<in> set qs'. \<forall>p \<in> set q. p < total_pieces L"
      using Cons.hyps(1) [of "t\<lparr>streams := xs\<rparr>"] calculation(2) by simp
    ultimately show ?case
      using lengths_okD(1) [OF assms(1)] assms(1)
      by (auto simp: stream_queue_def Let_def List.map_filter_def lengths_ok_def split: if_splits)
  qed simp
  moreover have "set ps = set (concat qs)"
  proof -
    have "set (shuffle qs) = set qs" using assms(2) by (metis set_mset_mset)
    moreover have "set ps = set (concat (shuffle qs))" using interleave_mset qs(2) by (metis set_mset_mset)
    ultimately show ?thesis by simp
  qed
  ultimately show ?thesis using assms(4) by auto
qed

lemma acquire_pieces_keeps:
  assumes "\<And>p. p \<in> set (rq_priority_pieces req) \<Longrightarrow> p < total_pieces (le_lengths E)"
  shows "keeps (live_ok E others H) (with_pieces_mut (acquire_piece req now))"
proof -
  have "live_ok E others H (snd (with_pieces_mut (acquire_piece req now) s))" if s: "live_ok E others H s" for s
  proof (cases "\<exists>pt r pt'. lv_pieces s = Some pt \<and> acquire_piece req now pt = Inr (r, pt')")
    case True
    then obtain pt r pt' where pt: "lv_pieces s = Some pt" "acquire_piece req now pt = Inr (r, pt')" by blast
    have wf: "pt_wf pt" "pt_frame pt = (le_lengths E, length (le_file_infos E), H)" using s pt(1) by (simp_all add: live_ok_def)
    then have "ct_valid (chunks pt) p" if "p \<in> set (rq_priority_pieces req)" for p
      using assms [OF that] by (simp add: pt_frame_def)
    from acquire_piece_wf [OF wf(1) this pt(2)] s pt wf(2) show ?thesis by (simp add: with_pieces_mut_def live_ok_def)
  next
    case False
    then have "snd (with_pieces_mut (acquire_piece req now) s) = s"
      by (auto simp: with_pieces_mut_def split: option.split sum.split)
    with s show ?thesis by simp
  qed
  then show ?thesis by (simp add: keeps_def)
qed

lemma acquire_next_piece_keeps:
  assumes "env_ok E"
  shows "keeps (live_ok E others H) (acquire_next_piece E h locked now)"
proof -
  have steal: "keeps (live_ok E others H) (\<lambda>s. case on_steal a b p (lv_peers s) of
      (ps, out) \<Rightarrow> (Inr (), s\<lparr>lv_peers := ps, lv_outbox := lv_outbox s @ out\<rparr>))" for a b p
    by (simp add: keeps_def live_ok_def split_beta on_steal_inv)
  have "live_ok E others H (snd (acquire_next_piece E h locked now s))" if s: "live_ok E others H s" for s
  proof (cases "iter_next_pieces (le_shuffle E) (le_lengths E) (lv_streams s)")
    case (Inl e)
    then show ?thesis using s by (auto simp: acquire_next_piece_def sm_bind_def sm_res_def split: option.split)
  next
    case (Inr prio)
    have "p < total_pieces (le_lengths E)" if "p \<in> set prio" for p
      using iter_next_pieces_valid [OF _ _ Inr that] assms by (simp add: env_ok_def)
    then have "keeps (live_ok E others H) (sm_bind (with_pieces_mut (acquire_piece rq now)) (\<lambda>r.
          case r of
            Reserved piece \<Rightarrow> sm_ret (Some piece)
          | Stolen piece from_peer \<Rightarrow>
            sm_bind (\<lambda>s. case on_steal from_peer (ph_addr h) piece (lv_peers s) of
                (ps, out) \<Rightarrow> (Inr (), s\<lparr>lv_peers := ps, lv_outbox := lv_outbox s @ out\<rparr>))
              (\<lambda>_. sm_ret (Some piece))
          | NoneAvailable \<Rightarrow> sm_ret None))" if "rq_priority_pieces rq = prio" for rq
      using that by (auto intro!: keeps_intros acquire_pieces_keeps steal split: acquire_result.split)
    note acq = keepsD [OF this s]
    show ?thesis
    proof (cases "with_live (ph_addr h) (\<lambda>l. l) (lv_peers s) = None \<or> i_am_choked h")
      case False
      then show ?thesis
        unfolding acquire_next_piece_def using Inr by (auto simp: sm_bind_def [of "sm_res _"] sm_res_def intro!: acq)
    qed (use s in \<open>auto simp: acquire_next_piece_def split: option.split\<close>)
  qed
  then show ?thesis by (simp add: keeps_def)
qed

lemma request_chunks_keeps:
  "live_ok E others H (snd hs) \<Longrightarrow> live_ok E others H (snd (snd (request_chunks dl tx_open nxt prepared cs hs)))"
  "live_ok E others H (snd hs) \<Longrightarrow> live_ok E others H (snd (snd (send_request dl tx_open nxt c cs hs)))"
proof (induction dl tx_open nxt prepared cs hs and dl tx_open nxt c cs hs rule: request_chunks_send_request.induct)
  case (2 dl tx_open nxt prepared c cs h s)
  obtain r ps where ps: "with_live_mut (ph_addr h) (insert_request c) (lv_peers s) = (r, ps)" by fastforce
  have "live_ok E others H (s\<lparr>lv_peers := ps\<rparr>)"
    using live_ok_peers [of E others H s] insert_request_upd.with_live_mut_inv [of others "lv_peers s" "ph_addr h" c] 2 ps by simp
  then show ?case using 2 ps by (auto split: option.split bool.split sum.split)
qed (auto simp: Let_def)

lemma requester_round_keeps:
  assumes "env_ok E"
  shows "keeps (hok E others H) (requester_round E dl tx_open locked now interest)"
proof -
  have int: "keeps (hok E others H) (\<lambda>hs. on_live (update_interest (fst hs) tx_open cur new) hs)" for cur new
    by (auto simp: keeps_def hok_def on_live_def update_interest_def sm_ret_def sm_res_def sm_bind_def send_all_def sm_modify_def)
  have fin: "keeps (hok E others H) (on_live (\<lambda>s. (is_finished_and_no_active_streams E s, s)))"
    by (simp add: keeps_def hok_def on_live_def)
  have acq: "keeps (hok E others H) (\<lambda>hs. on_live (acquire_next_piece E (fst hs) locked now) hs)"
    using acquire_next_piece_keeps [OF assms] by (simp add: keeps_def hok_def on_live_def split_beta)
  have dis: "keeps (hok E others H) (\<lambda>hs. on_live (sm_bind (send_all [(ph_tx (fst hs), WrDisconnect)]) (\<lambda>_. sm_ret x)) hs)" for x
    by (auto simp: keeps_def hok_def on_live_def sm_ret_def sm_bind_def send_all_def sm_modify_def)
  have req: "keeps (hok E others H) (request_chunks dl t piece False cs)" for t piece cs
    using request_chunks_keeps(1) by (auto simp: keeps_def hok_def)
  show ?thesis
    unfolding requester_round_def
    by (auto intro!: keeps_intros int fin acq dis req split: option.split)
qed

subsection \<open>Permits\<close>

text \<open>A permit taken by the adder comes back when the task ends, however it ends.\<close>

lemma keeps_permits [keeps_intros]:
  "keeps (\<lambda>s. lv_permits s = n) (emit e)" "keeps (\<lambda>s. lv_permits s = n) (modify_peers g)"
  "keeps (\<lambda>s. lv_permits s = n) (on_peers g')" "keeps (\<lambda>s. lv_permits s = n) (with_pieces_mut op)"
  "keeps (\<lambda>s. lv_permits s = n) (send_all out)"
  by (auto simp: keeps_def emit_def modify_peers_def on_peers_def with_pieces_mut_def send_all_def sm_modify_def
      split: prod.splits option.splits sum.splits)

lemma on_peer_died_permits: "lv_permits (snd (on_peer_died E h err now s)) = lv_permits s"
proof -
  have st: "keeps (\<lambda>s. lv_permits s = n) (set_state_of a new now)" for n a new
    unfolding set_state_of_def by (intro keeps_intros)
  have rel: "keeps (\<lambda>s. lv_permits s = n) (release_pieces_of a l)" for n a l
    unfolding release_pieces_of_def by (auto intro!: keeps_intros)
  have err: "keeps (\<lambda>s. lv_permits s = n) (on_peer_died_error E h now)" for n
    unfolding on_peer_died_error_def by (auto intro!: keeps_intros st split: option.split)
  have "keeps (\<lambda>s. lv_permits s = n) (on_peer_died E h err now)" for n
    unfolding on_peer_died_def by (auto intro!: keeps_intros st rel err split: option.split peer_state.split)
  from keepsD [OF this, of s "lv_permits s"] show ?thesis by simp
qed

lemma outgoing_handler_permits: "lv_permits (snd (outgoing_handler a t now s)) = lv_permits s"
proof -
  have "keeps (\<lambda>s. lv_permits s = n) (outgoing_handler a t now)" for n
    unfolding outgoing_handler_def by (intro keeps_intros)
  from keepsD [OF this, of s "lv_permits s"] show ?thesis by simp
qed

lemma adder_takes_permit:
  assumes "peer_adder_turn q E now T = (Inr (AdderSpawned a), T')"
  shows "lv_permits (tt_live T) = lv_permits (tt_live T') + 1" and "fst (adder_filter q (tt_session T) a) = False"
  using assms
  by (auto simp: peer_adder_turn_def sm_bind_def sm_res_def in_live_def sm_ret_def sm_modify_def adder_spawn_def live_upd_def Let_def
      split: list.splits prod.splits sum.splits bool.splits if_splits)

lemma connection_returns_permit:
  "fst (manage_outgoing_begin a t now s) = Inl e \<Longrightarrow> lv_permits (snd (manage_outgoing_begin a t now s)) = lv_permits s + 1"
  "fst (manage_outgoing_begin a t now s) = Inr h \<Longrightarrow> lv_permits (snd (manage_outgoing_begin a t now s)) = lv_permits s"
  "lv_permits (snd (manage_peer_end E h res now s)) = lv_permits s + 1"
  using outgoing_handler_permits [of a t now s] on_peer_died_permits [of E h _ now s]
  by (auto simp: manage_outgoing_begin_def manage_peer_end_def release_permit_def split: prod.splits sum.splits) (metis snd_conv)+

subsection \<open>Uploads\<close>

text \<open>Only requests that were accepted are sent on, in order, each at most once.\<close>

lemma upload_scheduler_fifo:
  assumes "upload_scheduler_turn G c1 c2 T = (r, T')"
  shows "(lv_outbox (tt_live T') = lv_outbox (tt_live T) \<and> lv_upload_queue (tt_live T') \<in> {lv_upload_queue (tt_live T), tl (lv_upload_queue (tt_live T))})
     \<or> (\<exists>t ci rest. lv_upload_queue (tt_live T) = (t, ci) # rest \<and> lv_upload_queue (tt_live T') = rest
          \<and> lv_outbox (tt_live T') = lv_outbox (tt_live T) @ [(t, WrReadChunkRequest ci)])"
proof (cases "lv_upload_queue (tt_live T)")
  case (Cons x rest)
  obtain t ci where x: "x = (t, ci)" by (cases x)
  let ?T = "live_upd (\<lambda>s. s\<lparr>lv_upload_queue := rest\<rparr>) T"
  obtain q T2 where w: "upload_wait G c1 c2 (of_nat (ci_size ci)) ?T = (q, T2)" by fastforce
  have "tt_live T2 = (tt_live T)\<lparr>lv_upload_queue := rest\<rparr>"
    using upload_wait_live [of G c1 c2 "of_nat (ci_size ci)" ?T] w by (simp add: live_upd_def)
  with Cons x w assms show ?thesis
    by (auto simp: upload_scheduler_turn_def live_upd_def Let_def split: sum.splits bool.splits if_splits)
qed (use assms in \<open>auto simp: upload_scheduler_turn_def split: if_splits\<close>)

text \<open>An error of a rate limiter, such as a block larger than the limit allows at all, ends the task: no block is uploaded any more.\<close>

lemma upload_error_is_final:
  assumes "fst (upload_scheduler_turn G c1 c2 T) = Inl e"
  shows "upload_scheduler_turn G d1 d2 (snd (upload_scheduler_turn G c1 c2 T)) = (Inr (), snd (upload_scheduler_turn G c1 c2 T))"
  using assms
  by (auto simp: upload_scheduler_turn_def [of G c1 c2] Let_def upload_scheduler_turn_def [of G d1 d2]
      split: list.splits prod.splits sum.splits bool.splits if_splits)

subsection \<open>Rediscovery\<close>

lemma requeue_loop_Inr: "fst (requeue_loop now as s) = Inr ()"
  by (induction as arbitrary: s)
    (auto simp: on_peers_def try_send_queue_def split: prod.splits option.splits)

text \<open>A round that starts a rediscovery found too few active peers and came at least the cooldown after the last one.\<close>

lemma health_round_cooldown:
  assumes "health_round E now last_rediscovery s = (Inr l, s')"
  shows "l = last_rediscovery \<and> s' = s
     \<or> l = Some now \<and> get_active_peer_count s < of_nat MIN_PEERS_THRESHOLD
       \<and> (\<forall>t. last_rediscovery = Some t \<longrightarrow> REDISCOVERY_COOLDOWN \<le> now - t)"
proof -
  obtain u s1 where r: "requeue_dead_peers now s = (u, s1)" by fastforce
  then have "u = Inr ()" using requeue_loop_Inr [of now _ s] by (auto simp: requeue_dead_peers_def dest: arg_cong [of _ _ fst])
  with assms r show ?thesis
    by (auto simp: health_round_def sm_bind_def sm_ret_def sm_gets_def emit_def sm_modify_def not_le not_less
        split: sum.splits if_splits option.splits)
qed

subsection \<open>Skipped peers\<close>

text \<open>An address that the filters refuse leaves the queue but stays queued in the table, where \<open>add_if_not_seen\<close> refuses it from then on.\<close>

lemma skipped_peer_stays_queued:
  assumes "lv_queue (tt_live T) = a # rest" and "sv_alive (tt_session T)" and "\<not> le_disable_upload E"
    and "fst (adder_filter q (tt_session T) a)" and "map_of (states (lv_peers (tt_live T))) a = Some p"
  shows "\<exists>T'. peer_adder_turn q E now T = (Inr (AdderSkipped a), T') \<and> lv_queue (tt_live T') = rest
     \<and> map_of (states (lv_peers (tt_live T'))) a = Some p
     \<and> fst (add_peer_if_not_seen a cid now' (tt_live T')) = Inr False"
  using assms
  by (cases "adder_filter q (tt_session T) a")
    (auto simp: peer_adder_turn_def sm_bind_def sm_res_def sm_ret_def sm_modify_def count_blocked_def live_upd_def Let_def
      add_peer_if_not_seen_def on_peers_def add_if_not_seen_def)

subsection \<open>Peer exchange\<close>

definition order_ok :: "(socket_addr set \<Rightarrow> socket_addr list) \<Rightarrow> bool" where
  "order_ok order \<longleftrightarrow> (\<forall>X. finite X \<longrightarrow> set (order X) = X \<and> distinct (order X))"

lemma pex_sent:
  assumes "pex_round order p t False True view s = (Inr (Some view'), s')" and "lv_outbox s' \<noteq> lv_outbox s"
  shows "\<exists>m. lv_outbox s' = lv_outbox s @ [(t, WrUtPex m)]
     \<and> px_added m = take MAX_SENT_PEERS (order (live_outgoing_peers (lv_peers s) - view))
     \<and> px_dropped m = take MAX_SENT_PEERS (order (view - live_outgoing_peers (lv_peers s)))
     \<and> view' = view - set (px_dropped m) \<union> set (filter (pex_filter p) (px_added m))"
  using assms by (auto simp: pex_round_def Let_def split: if_splits)

text \<open>What a peer exchange round tells a peer: at most 50 added and 50 dropped peers; the added ones are connected and were not
  told before, the dropped ones were told before and are not connected any more. But the filter that is to keep local
  addresses from a peer outside is applied only to the record of what was told: a local address is sent, is not
  recorded, and is sent again in the next round.\<close>

theorem pex_local_address_leak:
  assumes "order_ok order" and "finite (live_outgoing_peers (lv_peers s))" and "finite view"
    and "pex_round order p t False True view s = (Inr (Some view'), s')" and "lv_outbox s' \<noteq> lv_outbox s"
  shows "\<exists>m. lv_outbox s' = lv_outbox s @ [(t, WrUtPex m)]
     \<and> length (px_added m) \<le> 50 \<and> length (px_dropped m) \<le> 50 \<and> set (px_added m) \<inter> set (px_dropped m) = {}
     \<and> set (px_added m) \<subseteq> live_outgoing_peers (lv_peers s) - view \<and> set (px_dropped m) \<subseteq> view - live_outgoing_peers (lv_peers s)
     \<and> (\<forall>a \<in> live_outgoing_peers (lv_peers s) - view. card (live_outgoing_peers (lv_peers s) - view) \<le> 50
          \<and> peer_ip_non_local (fst p) \<and> other_ip_is_local (fst a)
          \<longrightarrow> a \<in> set (px_added m) \<and> a \<in> live_outgoing_peers (lv_peers s') - view')"
proof -
  let ?live = "live_outgoing_peers (lv_peers s)"
  obtain m where m: "lv_outbox s' = lv_outbox s @ [(t, WrUtPex m)]"
    "px_added m = take MAX_SENT_PEERS (order (?live - view))" "px_dropped m = take MAX_SENT_PEERS (order (view - ?live))"
    "view' = view - set (px_dropped m) \<union> set (filter (pex_filter p) (px_added m))"
    using pex_sent [OF assms(4,5)] by blast
  have s': "lv_peers s' = lv_peers s" using assms(4) by (auto simp: pex_round_def Let_def split: if_splits)
  have o: "set (order (?live - view)) = ?live - view" "distinct (order (?live - view))" "set (order (view - ?live)) = view - ?live"
    using assms(1-3) by (simp_all add: order_ok_def)
  then have sub: "set (px_added m) \<subseteq> ?live - view" "set (px_dropped m) \<subseteq> view - ?live"
    by (auto simp: m dest: in_set_takeD)
  moreover have "a \<in> set (px_added m)" if "card (?live - view) \<le> 50" "a \<in> ?live - view" for a
  proof -
    have "length (order (?live - view)) \<le> 50" using that(1) o distinct_card [of "order (?live - view)"] by simp
    then show ?thesis using that(2) o by (simp add: m MAX_SENT_PEERS_def)
  qed
  moreover have "length (px_added m) \<le> 50" "length (px_dropped m) \<le> 50" by (simp_all add: m MAX_SENT_PEERS_def)
  ultimately show ?thesis
    using m(1,4) by (intro exI [of _ m]) (auto simp: s' pex_filter_def)
qed

text \<open>A connected peer at 10.0.0.1, and a peer at 8.8.8.8.\<close>

definition ex_pex_live :: "byte list fs_storage live" where
  "ex_pex_live = ex_ls\<lparr>lv_peers := (lv_peers ex_ls)\<lparr>live_outgoing_peers := {(V4 0x0A000001, 6881)}\<rparr>\<rparr>"

theorem pex_local_address_leak_witness:
  "(V4 0x0A000001, 6881) \<in> (case snd (last (lv_outbox (snd (pex_round sorted_list_of_set (V4 0x08080808, 1) 3 False True {} ex_pex_live))))
      of WrUtPex m \<Rightarrow> set (px_added m) | _ \<Rightarrow> {})"
proof -
  let ?r = "pex_round sorted_list_of_set (V4 0x08080808, 1) 3 False True {} ex_pex_live"
  have r: "?r = (Inr (Some {}), ex_pex_live\<lparr>lv_outbox := lv_outbox ex_pex_live
      @ [(3, WrUtPex \<lparr>px_added = [(V4 0x0A000001, 6881)], px_dropped = []\<rparr>)]\<rparr>)"
    by (simp add: pex_round_def ex_pex_live_def MAX_SENT_PEERS_def pex_filter_def peer_ip_non_local_def other_ip_is_local_def
        is_private_v4_def is_loopback_def)
  have "order_ok sorted_list_of_set" by (simp add: order_ok_def)
  moreover have "peer_ip_non_local (V4 0x08080808)" "other_ip_is_local (V4 0x0A000001)"
    by (simp_all add: peer_ip_non_local_def other_ip_is_local_def is_private_v4_def is_loopback_def)
  ultimately show ?thesis
    using pex_local_address_leak [OF _ _ _ r] r by (auto simp: ex_pex_live_def)
qed

end
