(* ===== verification/Read_Buf.thy ===== *)
theory Read_Buf
  imports Wire
begin

text \<open>
  \<open>src/src/read_buf.rs\<close>: the ring buffer between a peer's socket and the message parser. The socket
  is a parameter, a function from its state and the room offered to the result of one read (error,
  timeout or bytes); so is the parser of the external crate \<open>peer_binary_protocol\<close>. \<open>rb_contents\<close> is the
  abstract value, the queue of bytes received and not yet parsed; \<open>byte_queue\<close> is what the reader relies on.
\<close>

definition BUFLEN :: nat where
  "BUFLEN = 32768"

lemma BUFLEN_pos [simp]: "0 < BUFLEN" "BUFLEN \<noteq> 0"
  by (simp_all add: BUFLEN_def)

record read_buf =
  rb_buf :: "byte list"
  rb_start :: nat
  rb_len :: nat

text \<open>One read of the socket under its timeout; the answers of the parsers.\<close>

datatype io_read = IoErr | IoTimeout | IoBytes "byte list"

datatype 'm parsed = Parsed 'm nat | NotEnoughData nat | NeedContiguous | ParseError

type_synonym 'c reader = "'c \<Rightarrow> nat \<Rightarrow> io_read \<times> 'c"
type_synonym 'm parser = "byte list \<Rightarrow> byte list \<Rightarrow> 'm parsed"

definition read_buf_new :: read_buf where
  "read_buf_new = \<lparr>rb_buf = replicate BUFLEN 0, rb_start = 0, rb_len = 0\<rparr>"

definition rb_advance :: "nat \<Rightarrow> read_buf \<Rightarrow> read_buf" where
  "rb_advance n b = b\<lparr>rb_len := rb_len b - n, rb_start := (rb_start b + n) mod BUFLEN\<rparr>"

definition is_contiguous :: "read_buf \<Rightarrow> bool" where
  "is_contiguous b \<longleftrightarrow> rb_start b + rb_len b = (rb_start b + rb_len b) mod BUFLEN"

definition as_slice_ranges :: "read_buf \<Rightarrow> (nat \<times> nat) \<times> (nat \<times> nat)" where
  "as_slice_ranges b =
     (let len = min (rb_len b) BUFLEN; start = min (rb_start b) BUFLEN;
          first_len = min len (BUFLEN - start)
      in ((start, start + first_len), (0, len - first_len)))"

definition slice :: "'a list \<Rightarrow> nat \<times> nat \<Rightarrow> 'a list" where
  "slice xs r = take (snd r - fst r) (drop (fst r) xs)"

definition as_slices :: "read_buf \<Rightarrow> byte list \<times> byte list" where
  "as_slices b = (case as_slice_ranges b of (r1, r2) \<Rightarrow> (slice (rb_buf b) r1, slice (rb_buf b) r2))"

definition make_contiguous :: "read_buf \<Rightarrow> read_buf res" where
  "make_contiguous b =
     (if is_contiguous b
      then Inl (BugReadBufMakeContiguous (min (rb_start b) 65535) (min (rb_len b) 65535))
      else case as_slices b of (first, second) \<Rightarrow>
        Inr (b\<lparr>rb_buf := first @ second @ replicate (BUFLEN - length first - length second) 0, rb_start := 0\<rparr>))"

definition is_full :: "read_buf \<Rightarrow> bool" where
  "is_full b \<longleftrightarrow> rb_len b = BUFLEN"

text \<open>The two ranges offered to the socket, and what the socket does with them.\<close>

definition unfilled_ioslices :: "read_buf \<Rightarrow> (nat \<times> nat) \<times> (nat \<times> nat)" where
  "unfilled_ioslices b =
     (let write_start = (rb_start b + rb_len b) mod BUFLEN;
          available_len = BUFLEN - rb_len b;
          first_len = min (BUFLEN - write_start) available_len;
          second_len = available_len - first_len
      in ((write_start, write_start + min first_len (BUFLEN - write_start)), (0, min second_len write_start)))"

definition put_range :: "nat \<times> nat \<Rightarrow> 'a list \<Rightarrow> 'a list \<Rightarrow> 'a list" where
  "put_range r new xs = take (fst r) xs @ take (snd r - fst r) new @ drop (fst r + min (length new) (snd r - fst r)) xs"

definition fill_ioslices :: "byte list \<Rightarrow> read_buf \<Rightarrow> read_buf" where
  "fill_ioslices new b =
     (case unfilled_ioslices b of (r1, r2) \<Rightarrow>
        b\<lparr>rb_buf := put_range r2 (drop (snd r1 - fst r1) new) (put_range r1 new (rb_buf b))\<rparr>)"

definition room :: "read_buf \<Rightarrow> nat" where
  "room b = (case unfilled_ioslices b of (r1, r2) \<Rightarrow> (snd r1 - fst r1) + (snd r2 - fst r2))"

definition read_handshake :: "('h parser) \<Rightarrow> 'c reader \<Rightarrow> read_buf \<Rightarrow> 'c \<Rightarrow> 'h res \<times> read_buf \<times> 'c" where
  "read_handshake deserialize conn b c =
     (case conn c BUFLEN of
        (IoErr, c') \<Rightarrow> (Inl ReadHandshake, b, c')
      | (IoTimeout, c') \<Rightarrow> (Inl (Timeout ''reading''), b, c')
      | (IoBytes new, c') \<Rightarrow>
        let b1 = b\<lparr>rb_buf := put_range (0, BUFLEN) new (rb_buf b), rb_len := length new\<rparr> in
        if rb_len b1 = 0 then (Inl PeerDisconnectedReadingHandshake, b1, c')
        else case deserialize (take (rb_len b1) (rb_buf b1)) [] of
          Parsed h sz \<Rightarrow> (Inr h, rb_advance sz b1, c')
        | _ \<Rightarrow> (Inl DeserializeHandshake, b1, c'))"

text \<open>The inner loop of \<open>read_message\<close>: read until \<open>need\<close> more bytes are there.\<close>

function read_more :: "'c reader \<Rightarrow> nat \<Rightarrow> read_buf \<Rightarrow> 'c \<Rightarrow> unit res \<times> read_buf \<times> 'c" where
  "read_more conn need b c =
     (if need = 0 then (Inr (), b, c)
      else if is_full b then (Inl (ReadBufFull (min need 65535)), b, c)
      else case conn c (room b) of
        (IoErr, c') \<Rightarrow> (Inl WriteErr, b, c')
      | (IoTimeout, c') \<Rightarrow> (Inl (Timeout ''reading''), b, c')
      | (IoBytes new, c') \<Rightarrow>
        if new = [] then (Inl PeerDisconnected, b, c')
        else read_more conn (need - length new) ((fill_ioslices new b)\<lparr>rb_len := rb_len b + length new\<rparr>) c')"
  by pat_completeness auto

termination
  by (relation "measure (\<lambda>(conn, need, b, c). need)") (auto simp: length_greater_0_conv [symmetric] simp del: length_greater_0_conv)

declare read_more.simps [simp del]

partial_function (option) read_message ::
  "'m parser \<Rightarrow> 'c reader \<Rightarrow> read_buf \<Rightarrow> 'c \<Rightarrow> ('m res \<times> read_buf \<times> 'c) option" where
  [code]: "read_message deserialize conn b c =
     (case deserialize (fst (as_slices b)) (snd (as_slices b)) of
        Parsed msg sz \<Rightarrow> Some (Inr msg, rb_advance sz b, c)
      | NotEnoughData need \<Rightarrow>
        (case read_more conn need b c of
           (Inl e, b', c') \<Rightarrow> Some (Inl e, b', c')
         | (Inr _, b', c') \<Rightarrow> read_message deserialize conn b' c')
      | NeedContiguous \<Rightarrow>
        (case make_contiguous b of
           Inl e \<Rightarrow> Some (Inl e, b, c)
         | Inr b' \<Rightarrow> read_message deserialize conn b' c)
      | ParseError \<Rightarrow> Some (Inl Deserialize, b, c))"

subsection \<open>The buffer is a queue of bytes\<close>

definition rb_ok :: "read_buf \<Rightarrow> bool" where
  "rb_ok b \<longleftrightarrow> length (rb_buf b) = BUFLEN \<and> rb_start b < BUFLEN \<and> rb_len b \<le> BUFLEN"

definition rb_contents :: "read_buf \<Rightarrow> byte list" where
  "rb_contents b = map (\<lambda>i. rb_buf b ! ((rb_start b + i) mod BUFLEN)) [0..<rb_len b]"

definition rb_push :: "byte list \<Rightarrow> read_buf \<Rightarrow> read_buf" where
  "rb_push new b = (fill_ioslices new b)\<lparr>rb_len := rb_len b + length new\<rparr>"

text \<open>What a reader of messages needs of its buffer.\<close>

locale byte_queue =
  fixes inv :: "'b \<Rightarrow> bool" and contents :: "'b \<Rightarrow> byte list" and cap :: nat
    and push :: "byte list \<Rightarrow> 'b \<Rightarrow> 'b" and pop :: "nat \<Rightarrow> 'b \<Rightarrow> 'b"
  assumes contents_cap: "inv b \<Longrightarrow> length (contents b) \<le> cap"
    and push_inv: "inv b \<Longrightarrow> length new + length (contents b) \<le> cap \<Longrightarrow> inv (push new b)"
    and push_contents: "inv b \<Longrightarrow> length new + length (contents b) \<le> cap \<Longrightarrow> contents (push new b) = contents b @ new"
    and pop_inv: "inv b \<Longrightarrow> n \<le> length (contents b) \<Longrightarrow> inv (pop n b)"
    and pop_contents: "inv b \<Longrightarrow> n \<le> length (contents b) \<Longrightarrow> contents (pop n b) = drop n (contents b)"
begin

lemma push_all:
  "inv b \<Longrightarrow> length (concat chunks) + length (contents b) \<le> cap
    \<Longrightarrow> inv (fold push chunks b) \<and> contents (fold push chunks b) = contents b @ concat chunks"
  by (induction chunks arbitrary: b) (simp_all add: push_inv push_contents)

lemma push_pop:
  "inv b \<Longrightarrow> length new + length (contents b) \<le> cap \<Longrightarrow> n \<le> length (contents b) \<Longrightarrow>
    contents (pop n (push new b)) = drop n (contents b) @ new"
  by (simp add: push_inv push_contents pop_contents)

end

lemma mod_BUFLEN: "x < 2 * BUFLEN \<Longrightarrow> x mod BUFLEN = (if x < BUFLEN then x else x - BUFLEN)"
  by (auto simp: le_mod_geq)

lemma put_range_length [simp]: "snd r \<le> length xs \<Longrightarrow> fst r \<le> snd r \<Longrightarrow> length (put_range r new xs) = length xs"
  by (auto simp: put_range_def)

lemma put_range_nth:
  assumes "snd r \<le> length xs" and "fst r \<le> snd r" and "j < length xs"
  shows "put_range r new xs ! j =
    (if fst r \<le> j \<and> j < fst r + min (length new) (snd r - fst r) then new ! (j - fst r) else xs ! j)"
  using assms by (auto simp: put_range_def nth_append min_def)

lemma rb_contents_length [simp]: "length (rb_contents b) = rb_len b"
  by (simp add: rb_contents_def)

lemma rb_contents_nth: "i < rb_len b \<Longrightarrow> rb_contents b ! i = rb_buf b ! ((rb_start b + i) mod BUFLEN)"
  by (simp add: rb_contents_def)

lemma as_slices_contents:
  assumes "rb_ok b"
  shows "fst (as_slices b) @ snd (as_slices b) = rb_contents b"
proof (rule nth_equalityI)
  have ok: "length (rb_buf b) = BUFLEN" "rb_start b < BUFLEN" "rb_len b \<le> BUFLEN"
    using assms by (simp_all add: rb_ok_def)
  show len: "length (fst (as_slices b) @ snd (as_slices b)) = length (rb_contents b)"
    using ok by (auto simp: as_slices_def as_slice_ranges_def slice_def Let_def)
  fix i assume "i < length (fst (as_slices b) @ snd (as_slices b))"
  then have i: "i < rb_len b" using len by simp
  show "(fst (as_slices b) @ snd (as_slices b)) ! i = rb_contents b ! i"
    using ok i by (auto simp: as_slices_def as_slice_ranges_def slice_def Let_def rb_contents_nth nth_append
        mod_BUFLEN min_def add.commute split: if_splits)
qed

lemma rb_room: "rb_ok b \<Longrightarrow> room b = BUFLEN - rb_len b"
  using mod_BUFLEN [of "rb_start b + rb_len b"]
  by (auto simp: rb_ok_def room_def unfilled_ioslices_def Let_def)

text \<open>The free part of the ring: one range when the used part wraps around, two otherwise.\<close>

lemma unfilled_ioslices_eq:
  assumes "rb_ok b"
  shows "unfilled_ioslices b =
    (if rb_start b + rb_len b < BUFLEN then ((rb_start b + rb_len b, BUFLEN), (0, rb_start b))
     else ((rb_start b + rb_len b - BUFLEN, rb_start b), (0, 0)))"
proof -
  have "(rb_start b + rb_len b) mod BUFLEN =
      (if rb_start b + rb_len b < BUFLEN then rb_start b + rb_len b else rb_start b + rb_len b - BUFLEN)"
    using assms by (intro mod_BUFLEN) (simp add: rb_ok_def)
  then show ?thesis using assms by (auto simp: unfilled_ioslices_def rb_ok_def Let_def)
qed

lemma rb_push_fields:
  assumes "rb_ok b"
  shows "rb_start (rb_push new b) = rb_start b" "rb_len (rb_push new b) = rb_len b + length new"
    and "length (rb_buf (rb_push new b)) = BUFLEN"
  using assms by (auto simp: rb_push_def fill_ioslices_def unfilled_ioslices_eq rb_ok_def)

lemma rb_push_ok:
  assumes "rb_ok b" and "length new + rb_len b \<le> BUFLEN"
  shows "rb_ok (rb_push new b)"
  using assms rb_push_fields [OF assms(1)] by (simp add: rb_ok_def)

lemma rb_push_nth:
  assumes b: "rb_ok b" and n: "length new + rb_len b \<le> BUFLEN" and i: "i < rb_len b + length new"
  shows "rb_buf (rb_push new b) ! ((rb_start b + i) mod BUFLEN)
    = (if i < rb_len b then rb_buf b ! ((rb_start b + i) mod BUFLEN) else new ! (i - rb_len b))"
proof -
  have ok: "length (rb_buf b) = BUFLEN" "rb_start b < BUFLEN" "rb_len b \<le> BUFLEN"
    using b by (simp_all add: rb_ok_def)
  have j: "(rb_start b + i) mod BUFLEN = (if rb_start b + i < BUFLEN then rb_start b + i else rb_start b + i - BUFLEN)"
    using ok n i by (intro mod_BUFLEN) simp
  show ?thesis
  proof (cases "rb_start b + rb_len b < BUFLEN")
    case True
    then have "rb_buf (rb_push new b) = put_range (0, rb_start b) (drop (BUFLEN - (rb_start b + rb_len b)) new)
        (put_range (rb_start b + rb_len b, BUFLEN) new (rb_buf b))"
      by (simp add: rb_push_def fill_ioslices_def unfilled_ioslices_eq [OF b])
    then show ?thesis using True ok n i
      by (cases "i < rb_len b"; cases "rb_start b + i < BUFLEN") (auto simp: j put_range_nth)
  next
    case False
    then have "rb_buf (rb_push new b) = put_range (0, 0) (drop (rb_start b - (rb_start b + rb_len b - BUFLEN)) new)
        (put_range (rb_start b + rb_len b - BUFLEN, rb_start b) new (rb_buf b))"
      by (simp add: rb_push_def fill_ioslices_def unfilled_ioslices_eq [OF b])
    then show ?thesis using False ok n i
      by (cases "i < rb_len b"; cases "rb_start b + i < BUFLEN") (auto simp: j put_range_nth)
  qed
qed

interpretation ring: byte_queue rb_ok rb_contents BUFLEN rb_push rb_advance
proof unfold_locales
  fix b :: read_buf and new n
  assume b: "rb_ok b"
  show "length (rb_contents b) \<le> BUFLEN" using b by (simp add: rb_ok_def)
  show "rb_ok (rb_push new b)" if "length new + length (rb_contents b) \<le> BUFLEN"
    using rb_push_ok [OF b] that by simp
  show "rb_contents (rb_push new b) = rb_contents b @ new" if "length new + length (rb_contents b) \<le> BUFLEN"
  proof (rule nth_equalityI)
    show "length (rb_contents (rb_push new b)) = length (rb_contents b @ new)"
      by (simp add: rb_push_fields [OF b])
    fix i assume i: "i < length (rb_contents (rb_push new b))"
    show "rb_contents (rb_push new b) ! i = (rb_contents b @ new) ! i"
      using rb_push_nth [OF b, of new i] that i by (simp add: rb_push_fields [OF b] rb_contents_nth nth_append)
  qed
  show "rb_ok (rb_advance n b)" if "n \<le> length (rb_contents b)"
    using b that by (auto simp: rb_ok_def rb_advance_def)
  show "rb_contents (rb_advance n b) = drop n (rb_contents b)" if "n \<le> length (rb_contents b)"
    by (rule nth_equalityI) (use that in \<open>simp_all add: rb_advance_def rb_contents_def mod_add_left_eq add.assoc less_diff_conv add.commute [of n]\<close>)
qed

subsection \<open>Reading a message\<close>

lemma make_contiguous_contents:
  assumes "rb_ok b" and "make_contiguous b = Inr b'"
  shows "rb_ok b'" "rb_contents b' = rb_contents b" "rb_start b' = 0" "rb_len b' = rb_len b"
proof -
  let ?q = "fst (as_slices b) @ snd (as_slices b)"
  have b': "b' = b\<lparr>rb_buf := ?q @ replicate (BUFLEN - length ?q) 0, rb_start := 0\<rparr>"
    using assms(2) by (auto simp: make_contiguous_def split: if_splits prod.splits)
  have q: "?q = rb_contents b" by (rule as_slices_contents [OF assms(1)])
  have len: "length ?q = rb_len b" unfolding q by simp
  show "rb_start b' = 0" "rb_len b' = rb_len b" using b' by simp_all
  show ok: "rb_ok b'" using assms(1) len by (simp add: b' rb_ok_def)
  show "rb_contents b' = rb_contents b"
    by (rule nth_equalityI) (use assms(1) len q in \<open>auto simp: b' rb_contents_nth nth_append rb_ok_def rb_contents_def\<close>)
qed

lemma make_contiguous_slices:
  assumes "rb_ok b" and "rb_start b = 0"
  shows "snd (as_slices b) = []"
  using assms by (simp add: rb_ok_def as_slices_def as_slice_ranges_def slice_def Let_def)

lemma second_slice_wraps: "rb_ok b \<Longrightarrow> snd (as_slices b) \<noteq> [] \<Longrightarrow> \<not> is_contiguous b"
  using mod_BUFLEN [of "rb_start b + rb_len b"]
  by (auto simp: rb_ok_def as_slices_def as_slice_ranges_def slice_def Let_def is_contiguous_def)

text \<open>The bytes a connection delivers over a number of reads.\<close>

inductive conn_reads :: "'c reader \<Rightarrow> 'c \<Rightarrow> nat \<Rightarrow> byte list \<Rightarrow> 'c \<Rightarrow> bool" for conn :: "'c reader" where
  no_read: "conn_reads conn c 0 [] c"
| read_bytes: "conn_reads conn c n xs c1 \<Longrightarrow> conn c1 r = (IoBytes new, c2) \<Longrightarrow> conn_reads conn c (Suc n) (xs @ new) c2"
| read_fail: "conn_reads conn c n xs c1 \<Longrightarrow> conn c1 r = (f, c2) \<Longrightarrow> f \<in> {IoErr, IoTimeout} \<Longrightarrow> conn_reads conn c (Suc n) xs c2"

lemma conn_reads_trans:
  "conn_reads conn c1 m ys c2 \<Longrightarrow> conn_reads conn c n xs c1 \<Longrightarrow> conn_reads conn c (n + m) (xs @ ys) c2"
  by (induction rule: conn_reads.induct) (auto intro: conn_reads.intros simp flip: append_assoc)

definition conn_ok :: "'c reader \<Rightarrow> bool" where
  "conn_ok conn \<longleftrightarrow> (\<forall>c r new c'. conn c r = (IoBytes new, c') \<longrightarrow> length new \<le> r)"

definition parser_ok :: "'m parser \<Rightarrow> bool" where
  "parser_ok d \<longleftrightarrow> (\<forall>f s. (case d f s of
       Parsed m n \<Rightarrow> n \<le> length f + length s
     | NotEnoughData n \<Rightarrow> 0 < n
     | NeedContiguous \<Rightarrow> s \<noteq> []
     | ParseError \<Rightarrow> True))"

lemma parser_okD:
  assumes "parser_ok d"
  shows "d f s = Parsed m n \<Longrightarrow> n \<le> length f + length s" "d f s = NotEnoughData n \<Longrightarrow> 0 < n"
    "d f s = NeedContiguous \<Longrightarrow> s \<noteq> []"
proof -
  have *: "case d f s of Parsed m n \<Rightarrow> n \<le> length f + length s | NotEnoughData n \<Rightarrow> 0 < n
     | NeedContiguous \<Rightarrow> s \<noteq> [] | ParseError \<Rightarrow> True"
    using assms unfolding parser_ok_def by (elim allE)
  show "d f s = Parsed m n \<Longrightarrow> n \<le> length f + length s" "d f s = NotEnoughData n \<Longrightarrow> 0 < n"
    "d f s = NeedContiguous \<Longrightarrow> s \<noteq> []"
    using * by simp_all
qed

lemma read_more_reads:
  assumes "conn_ok conn" and "rb_ok b" and "read_more conn need b c = (r, b', c')"
  shows "\<exists>n xs. conn_reads conn c n xs c' \<and> rb_ok b' \<and> rb_contents b' = rb_contents b @ xs
    \<and> n \<le> length xs + (if r = Inr () then 0 else 1) \<and> (0 < need \<and> r = Inr () \<longrightarrow> xs \<noteq> [])"
  using assms
proof (induction conn need b c rule: read_more.induct)
  case (1 conn need b c)
  note res = "1.prems"(3) [unfolded read_more.simps [of conn need b c]]
  show ?case
  proof (cases "need = 0 \<or> is_full b")
    case True
    then have "b' = b \<and> c' = c \<and> (0 < need \<longrightarrow> r \<noteq> Inr ())" using res by (auto split: if_splits)
    then show ?thesis using "1.prems"(2) no_read [of conn c] by (intro exI [of _ 0] exI [of _ "[]"]) auto
  next
    case False
    obtain f c1 where f: "conn c (room b) = (f, c1)" by fastforce
    show ?thesis
    proof (cases "f \<in> {IoErr, IoTimeout, IoBytes []}")
      case True
      then have "(\<exists>e. r = Inl e) \<and> b' = b \<and> c' = c1" using res False f by auto
      moreover have "conn_reads conn c 1 [] c1"
        using True f read_fail [OF no_read [of conn c], of "room b" f c1]
          read_bytes [OF no_read [of conn c], of "room b" "[]" c1] by auto
      ultimately show ?thesis using "1.prems"(2) by auto
    next
      case new: False
      then obtain new where new: "f = IoBytes new" "new \<noteq> []" by (cases f) auto
      have room: "length new + length (rb_contents b) \<le> BUFLEN"
      proof -
        have "length new \<le> room b" using "1.prems"(1) f new(1) unfolding conn_ok_def by blast
        then show ?thesis using rb_room [OF "1.prems"(2)] "1.prems"(2) by (auto simp: rb_ok_def)
      qed
      have rest: "read_more conn (need - length new) (rb_push new b) c1 = (r, b', c')"
        using res False f new by (simp add: rb_push_def)
      obtain n xs where n: "conn_reads conn c1 n xs c'" "rb_ok b'" "rb_contents b' = rb_contents (rb_push new b) @ xs"
        "n \<le> length xs + (if r = Inr () then 0 else 1)"
        using "1.IH" [OF _ _ f [symmetric] new(1,2), folded rb_push_def, OF _ _ "1.prems"(1) ring.push_inv [OF "1.prems"(2) room] rest] False
        by (auto split: if_splits)
      have "conn_reads conn c (Suc 0 + n) (new @ xs) c'"
        using conn_reads_trans [OF n(1) read_bytes [OF no_read [of conn c] f [unfolded new(1)]]] by simp
      moreover have "Suc 0 \<le> length new" using new(2) by (cases new) auto
      then have "Suc 0 + n \<le> length (new @ xs) + (if r = Inr () then 0 else 1)" using n(4) by auto
      ultimately show ?thesis
        using n(2,3) new ring.push_contents [OF "1.prems"(2) room]
        by (intro exI [of _ "Suc 0 + n"] exI [of _ "new @ xs"]) auto
    qed
  qed
qed

text \<open>
  One run of \<open>read_message\<close> that returned: \<open>xs\<close> are the bytes read meanwhile, in \<open>n\<close> reads. A message was
  parsed from the front of the queue, an error leaves every byte in the queue.
\<close>

definition message_read :: "'m parser \<Rightarrow> 'c reader \<Rightarrow> read_buf \<Rightarrow> 'c \<Rightarrow> 'm res \<times> read_buf \<times> 'c \<Rightarrow> bool" where
  "message_read d conn b c out \<longleftrightarrow> (case out of (r, b', c') \<Rightarrow> \<exists>n xs.
     conn_reads conn c n xs c' \<and> n \<le> length xs + 1 \<and> rb_len b + length xs \<le> BUFLEN \<and> rb_ok b'
     \<and> (case r of
          Inl e \<Rightarrow> rb_contents b' = rb_contents b @ xs
        | Inr m \<Rightarrow> \<exists>f s used. d f s = Parsed m (length used) \<and> f @ s = rb_contents b @ xs
            \<and> rb_contents b @ xs = used @ rb_contents b'))"

lemma message_read_later:
  assumes "message_read d conn b1 c1 out" and "conn_reads conn c n xs c1" and "n \<le> length xs"
    and "rb_contents b1 = rb_contents b @ xs"
  shows "message_read d conn b c out"
proof -
  obtain r b' c' where out: "out = (r, b', c')" by (cases out)
  from assms(1) obtain m ys where m: "conn_reads conn c1 m ys c'" "m \<le> length ys + 1" "rb_ok b'" "rb_len b1 + length ys \<le> BUFLEN"
    "case r of Inl e \<Rightarrow> rb_contents b' = rb_contents b1 @ ys
        | Inr m \<Rightarrow> \<exists>f s used. d f s = Parsed m (length used) \<and> f @ s = rb_contents b1 @ ys
            \<and> rb_contents b1 @ ys = used @ rb_contents b'"
    unfolding message_read_def out by blast
  from conn_reads_trans [OF m(1) assms(2)] have "conn_reads conn c (n + m) (xs @ ys) c'" .
  moreover have "n + m \<le> length (xs @ ys) + 1" using m(2) assms(3) by simp
  moreover have "rb_len b + length (xs @ ys) \<le> BUFLEN" using m(4) arg_cong [OF assms(4), of length] by simp
  ultimately show ?thesis
    using m(3,5) assms(4) unfolding message_read_def out prod.case
    by (intro exI [of _ "n + m"] exI [of _ "xs @ ys"]) (auto split: sum.splits)
qed

lemma read_message_total:
  assumes conn: "conn_ok conn" and d: "parser_ok d" and b: "rb_ok b"
  shows "\<exists>out. read_message d conn b c = Some out \<and> message_read d conn b c out"
  using b
proof (induction "2 * (BUFLEN - rb_len b) + (if snd (as_slices b) = [] then 0 else 1)" arbitrary: b c rule: less_induct)
  case less
  let ?f = "fst (as_slices b)" and ?s = "snd (as_slices b)"
  have q: "?f @ ?s = rb_contents b" by (rule as_slices_contents [OF less.prems])
  have stop: "message_read d conn b c (Inl e, b', c')"
    if "conn_reads conn c n xs c'" "n \<le> length xs + 1" "rb_ok b'" "rb_contents b' = rb_contents b @ xs" for e n xs b' c'
  proof -
    have "rb_len b + length xs \<le> BUFLEN" using arg_cong [OF that(4), of length] that(3) by (simp add: rb_ok_def)
    then show ?thesis using that unfolding message_read_def by auto
  qed
  show ?case
  proof (cases "d ?f ?s")
    case (Parsed m n)
    have n: "n \<le> length (rb_contents b)" using parser_okD(1) [OF d Parsed] q by (metis length_append)
    have "message_read d conn b c (Inr m, rb_advance n b, c)"
      unfolding message_read_def prod.case sum.case
    proof (intro exI conjI)
      show "d ?f ?s = Parsed m (length (take n (rb_contents b)))" using Parsed n by simp
      show "?f @ ?s = rb_contents b @ []" using q by simp
      show "rb_contents b @ [] = take n (rb_contents b) @ rb_contents (rb_advance n b)"
        by (simp add: ring.pop_contents [OF less.prems n])
    qed (use no_read ring.pop_inv [OF less.prems n] less.prems in \<open>auto simp: rb_ok_def\<close>)
    then show ?thesis using Parsed by (subst read_message.simps) simp
  next
    case (NotEnoughData need)
    obtain r b1 c1 where rm: "read_more conn need b c = (r, b1, c1)" by (cases "read_more conn need b c")
    obtain n xs where n: "conn_reads conn c n xs c1" "rb_ok b1" "rb_contents b1 = rb_contents b @ xs"
      "n \<le> length xs + (if r = Inr () then 0 else 1)" "0 < need \<and> r = Inr () \<longrightarrow> xs \<noteq> []"
      using read_more_reads [OF conn less.prems rm] by blast
    show ?thesis
    proof (cases r)
      case (Inl e)
      then show ?thesis using NotEnoughData rm stop [OF n(1) _ n(2,3)] n(4) by (subst read_message.simps) simp
    next
      case (Inr u)
      then have "xs \<noteq> []" using n(5) parser_okD(2) [OF d NotEnoughData] by simp
      then have "rb_len b < rb_len b1" "rb_len b1 \<le> BUFLEN"
        using arg_cong [OF n(3), of length] n(2) by (simp_all add: rb_ok_def)
      then have "2 * (BUFLEN - rb_len b1) + (if snd (as_slices b1) = [] then 0 else 1)
          < 2 * (BUFLEN - rb_len b) + (if snd (as_slices b) = [] then 0 else 1)" by (auto split: if_split)
      from less.hyps [OF this n(2)] obtain out where
        out: "read_message d conn b1 c1 = Some out" "message_read d conn b1 c1 out" by blast
      have "message_read d conn b c out"
        by (rule message_read_later [OF out(2) n(1) _ n(3)]) (use n(4) Inr in simp)
      then show ?thesis using NotEnoughData rm Inr out(1) by (subst read_message.simps) simp
    qed
  next
    case NeedContiguous
    have "\<not> is_contiguous b" using parser_okD(3) [OF d NeedContiguous] second_slice_wraps [OF less.prems] by blast
    then obtain b1 where b1: "make_contiguous b = Inr b1" by (cases "as_slices b") (auto simp: make_contiguous_def)
    note m = make_contiguous_contents [OF less.prems b1]
    have "2 * (BUFLEN - rb_len b1) + (if snd (as_slices b1) = [] then 0 else 1)
        < 2 * (BUFLEN - rb_len b) + (if snd (as_slices b) = [] then 0 else 1)"
      using m make_contiguous_slices [OF m(1,3)] parser_okD(3) [OF d NeedContiguous] by simp
    from less.hyps [OF this m(1)] obtain out where
      out: "read_message d conn b1 c = Some out" "message_read d conn b1 c out" by blast
    have "message_read d conn b c out"
      by (rule message_read_later [OF out(2) no_read]) (use m in simp_all)
    then show ?thesis using NeedContiguous b1 out(1) by (subst read_message.simps) simp
  next
    case ParseError
    then show ?thesis using stop [OF no_read _ less.prems] by (subst read_message.simps) simp
  qed
qed

text \<open>C33. Reading a message always comes to an end: whatever the peer sends, as long as each read of the socket
  returns (data, an error or a timeout) and the parser asks for at least one more byte when it lacks data,
  \<open>read_message\<close> returns, after at most as many reads as the buffer has free bytes, plus one.\<close>

theorem read_message_terminates:
  assumes "conn_ok conn" and "parser_ok deserialize" and "rb_ok b"
  shows "\<exists>r b' c' n xs. read_message deserialize conn b c = Some (r, b', c')
    \<and> conn_reads conn c n xs c' \<and> n \<le> BUFLEN - rb_len b + 1"
proof -
  obtain r b' c' where out: "read_message deserialize conn b c = Some (r, b', c')"
    "message_read deserialize conn b c (r, b', c')"
    using read_message_total [OF assms] by (metis prod.exhaust)
  then obtain n xs where "conn_reads conn c n xs c'" "n \<le> length xs + 1" "rb_len b + length xs \<le> BUFLEN"
    unfolding message_read_def by blast
  then show ?thesis using out(1) by (intro exI conjI) auto
qed

text \<open>C34. The reader is a faithful byte queue: the bytes parsed so far, the message just returned and what
  is left in the buffer are exactly the bytes the peer sent, in order. A message is parsed from the
  front of the queue and takes exactly the bytes the parser used; an error loses nothing.\<close>

theorem read_message_fifo:
  assumes "conn_ok conn" and "parser_ok deserialize" and "rb_ok b"
    and "read_message deserialize conn b c = Some (r, b', c')"
  shows "\<exists>n xs. conn_reads conn c n xs c' \<and> rb_ok b'
     \<and> (case r of
          Inl e \<Rightarrow> rb_contents b' = rb_contents b @ xs
        | Inr m \<Rightarrow> \<exists>f s used. deserialize f s = Parsed m (length used) \<and> f @ s = rb_contents b @ xs
            \<and> rb_contents b @ xs = used @ rb_contents b')"
  using read_message_total [OF assms(1-3), of c] assms(4) by (auto simp: message_read_def)

text \<open>A connection that holds its bytes in a list, and a protocol of one-byte messages.\<close>

definition ex_conn :: "byte list reader" where
  "ex_conn c r = (IoBytes (take r c), drop r c)"

definition ex_parser :: "byte parser" where
  "ex_parser f s = (case f @ s of [] \<Rightarrow> NotEnoughData 1 | x # _ \<Rightarrow> Parsed x 1)"

lemma ex_reader_ok: "conn_ok ex_conn" "parser_ok ex_parser" "rb_ok read_buf_new"
  by (auto simp: conn_ok_def ex_conn_def parser_ok_def ex_parser_def rb_ok_def read_buf_new_def
      split: list.split dest: arg_cong [of _ _ length])

theorem read_message_terminates_witness:
  "\<exists>r b' c' n xs. read_message ex_parser ex_conn read_buf_new [7, 8] = Some (r, b', c')
    \<and> conn_reads ex_conn [7, 8] n xs c' \<and> n \<le> 32769"
  using read_message_terminates [OF ex_reader_ok, of "[7, 8]"] by (simp add: read_buf_new_def BUFLEN_def)

lemma ex_read: "\<exists>b'. read_message ex_parser ex_conn read_buf_new [7, 8] = Some (Inr 7, b', [])"
proof -
  let ?b = "rb_push [7, 8] read_buf_new"
  have new: "rb_contents read_buf_new = []" "rb_len read_buf_new = 0"
    by (simp_all add: rb_contents_def read_buf_new_def)
  have room: "length [7, 8] + length (rb_contents read_buf_new) \<le> BUFLEN" by (simp add: new BUFLEN_def)
  have parse: "ex_parser (fst (as_slices b)) (snd (as_slices b)) = ex_parser (rb_contents b) []" if "rb_ok b" for b
    using as_slices_contents [OF that] by (simp add: ex_parser_def)
  have "ex_parser (fst (as_slices read_buf_new)) (snd (as_slices read_buf_new)) = NotEnoughData 1"
    using parse [OF ex_reader_ok(3)] by (simp add: new ex_parser_def)
  moreover have "read_more ex_conn 1 read_buf_new [7, 8] = (Inr (), ?b, [])"
    using rb_room [OF ex_reader_ok(3)]
    by (simp add: read_more.simps [of _ "Suc 0"] read_more.simps [of _ 0] new is_full_def ex_conn_def rb_push_def BUFLEN_def)
  moreover have "ex_parser (fst (as_slices ?b)) (snd (as_slices ?b)) = Parsed 7 1"
    using parse [OF ring.push_inv [OF ex_reader_ok(3) room]] ring.push_contents [OF ex_reader_ok(3) room]
    by (simp add: new ex_parser_def)
  ultimately show ?thesis
    by (simp add: read_message.simps [of _ _ read_buf_new] read_message.simps [of _ _ ?b])
qed

theorem read_message_fifo_witness:
  "\<exists>b' n xs used. read_message ex_parser ex_conn read_buf_new [7, 8] = Some (Inr 7, b', [])
    \<and> conn_reads ex_conn [7, 8] n xs [] \<and> xs = used @ rb_contents b' \<and> length used = 1"
proof -
  obtain b' where b': "read_message ex_parser ex_conn read_buf_new [7, 8] = Some (Inr 7, b', [])"
    using ex_read by blast
  have new: "rb_contents read_buf_new = []" by (simp add: rb_contents_def read_buf_new_def)
  obtain n xs f s used where r: "conn_reads ex_conn [7, 8] n xs []" "ex_parser f s = Parsed 7 (length used)"
    "xs = used @ rb_contents b'"
    using read_message_fifo [OF ex_reader_ok b'] by (auto simp: new)
  from r(2) have "length used = 1" by (auto simp: ex_parser_def split: list.splits)
  then show ?thesis using b' r by blast
qed

end
