(* ===== verification/Metadata_Reader.thy ===== *)
theory Metadata_Reader
  imports File_Ops
begin

text \<open>
  \<open>src/src/peer_info_reader/mod.rs\<close>: fetching a torrent's metadata (its info dictionary) from one peer.
  The chunk size and \<open>last_element_size\<close> of \<open>librtbit_core\<close> are parameters, as are SHA-1 and the parser of the
  info dictionary. The channel to the writer is a log; the one-shot channel with the result is an option that is
  \<open>None\<close> until something was sent.
\<close>

record metadata_env =
  me_chunk_size :: nat
  me_last_element_size :: "nat \<Rightarrow> nat \<Rightarrow> nat"
  me_sha1 :: "byte list \<Rightarrow> digest"
  me_info_hash :: digest

record handler_locked =
  hl_metadata_size :: nat
  hl_total_pieces :: nat
  hl_buffer :: "byte list"
  hl_received_pieces :: "bool list"

definition handler_locked_new :: "metadata_env \<Rightarrow> nat \<Rightarrow> handler_locked res" where
  "handler_locked_new E sz =
     (if 32 * 1024 * 1024 < sz then Inl (Bail ''metadata size is too big'')
      else let total_ps = (sz + me_chunk_size E - 1) div me_chunk_size E
           in Inr \<lparr>hl_metadata_size = sz, hl_total_pieces = total_ps, hl_buffer = replicate sz 0,
                hl_received_pieces = replicate total_ps False\<rparr>)"

definition piece_size :: "metadata_env \<Rightarrow> nat \<Rightarrow> handler_locked \<Rightarrow> nat res" where
  "piece_size E i st =
     res_bind (checked_sub (hl_total_pieces st) 1) (\<lambda>l.
       Inr (if i = l then me_last_element_size E (hl_metadata_size st) (me_chunk_size E) else me_chunk_size E))"

text \<open>
  \<open>record_piece\<close>: the checks in the order of the code; the buffer is changed from the copy on. A slice of the
  buffer out of range panics.
\<close>

definition store_piece :: "nat \<Rightarrow> nat \<Rightarrow> byte list \<Rightarrow> handler_locked \<Rightarrow> handler_locked" where
  "store_piece offset i data st =
     st\<lparr>hl_buffer := take offset (hl_buffer st) @ data @ drop (offset + length data) (hl_buffer st),
        hl_received_pieces := (hl_received_pieces st)[i := True]\<rparr>"

definition record_piece :: "metadata_env \<Rightarrow> nat \<times> byte list \<Rightarrow> handler_locked \<Rightarrow> bool res \<times> handler_locked" where
  "record_piece E d st =
     (case d of (i, data) \<Rightarrow>
        if hl_total_pieces st \<le> i then (Inl (Bail ''wrong index''), st)
        else case piece_size E i st of
          Inl e \<Rightarrow> (Inl e, st)
        | Inr sz \<Rightarrow>
          if length data \<noteq> sz then (Inl (Bail ''expected length of piece''), st)
          else case vec_index (hl_received_pieces st) i of
            Inl e \<Rightarrow> (Inl e, st)
          | Inr True \<Rightarrow> (Inl (Bail ''already received piece''), st)
          | Inr False \<Rightarrow>
            let offset = i * me_chunk_size E in
            if length (hl_buffer st) < offset + length data then (Inl Panic, st)
            else let st' = store_piece offset i data st in
              if list_all (\<lambda>p. p) (hl_received_pieces st')
              then (if me_sha1 E (hl_buffer st') \<noteq> me_info_hash E then (Inl (Bail ''info checksum invalid''), st')
                    else (Inr True, st'))
              else (Inr False, st'))"

subsection \<open>The handler\<close>

datatype 'i meta_result = MetaInfo 'i "byte list" | MetaInvalid

record 'i meta_handler =
  mh_locked :: "handler_locked option"
  mh_result_tx :: bool
  mh_result :: "'i meta_result option"
  mh_writer :: "writer_request list"

type_synonym ('i, 'a) mhm = "('i meta_handler, 'a) sm"

definition meta_on_handshake :: "bool \<Rightarrow> ('i, unit) mhm" where
  "meta_on_handshake supports_extended =
     (if supports_extended then sm_ret () else sm_res (Inl (Bail ''this peer does not support extended handshaking'')))"

text \<open>\<open>parse_info\<close> is \<open>from_bytes\<close> of the info dictionary, \<open>rx_open\<close> whether the receiver of the result is still
  there. The receiver gets what was parsed together with the bytes.\<close>

definition send_result :: "bool \<Rightarrow> 'i meta_result \<Rightarrow> ('i, unit) mhm" where
  "send_result rx_open r s =
     (if \<not> mh_result_tx s then (Inl (Bail ''oneshot is consumed''), s)
      else if \<not> rx_open then (Inl (Bail ''torrent info deserialized, but consumer closed''), s\<lparr>mh_result_tx := False\<rparr>)
      else (Inr (), s\<lparr>mh_result_tx := False, mh_result := Some r\<rparr>))"

definition meta_on_received_message ::
  "metadata_env \<Rightarrow> (byte list \<Rightarrow> 'i option) \<Rightarrow> bool \<Rightarrow> message \<Rightarrow> ('i, unit) mhm" where
  "meta_on_received_message E parse_info rx_open m s =
     (case m of
        MsgExtended (UtMetadataData i data) \<Rightarrow>
        (case mh_locked s of
           None \<Rightarrow> (Inl Panic, s)
         | Some st \<Rightarrow>
           (case record_piece E (i, data) st of
              (Inl e, st') \<Rightarrow> (Inl e, s\<lparr>mh_locked := Some st'\<rparr>)
            | (Inr False, st') \<Rightarrow> (Inr (), s\<lparr>mh_locked := Some st'\<rparr>)
            | (Inr True, st') \<Rightarrow>
              let buf = hl_buffer st' in
              send_result rx_open (case parse_info buf of Some info \<Rightarrow> MetaInfo info buf | None \<Rightarrow> MetaInvalid)
                (s\<lparr>mh_locked := None\<rparr>)))
      | _ \<Rightarrow> (Inr (), s))"

definition meta_on_extended_handshake :: "metadata_env \<Rightarrow> bool \<Rightarrow> ext_handshake \<Rightarrow> ('i, unit) mhm" where
  "meta_on_extended_handshake E tx_open hs s =
     (case eh_metadata_size hs of
        None \<Rightarrow> (Inl (Bail ''peer does not have metadata_size''), s)
      | Some sz \<Rightarrow>
        if eh_ut_metadata hs = None then (Inl (Bail ''peer does not support ut_metadata''), s)
        else if \<not> tx_open then (Inl (Bail ''channel closed''), s)
        else let s1 = s\<lparr>mh_writer := mh_writer s @ [WrMessage MsgUnchoke, WrMessage MsgInterested]\<rparr> in
          case handler_locked_new E sz of
            Inl e \<Rightarrow> (Inl e, s1)
          | Inr inner \<Rightarrow>
            (Inr (), s1\<lparr>mh_locked := Some inner,
               mh_writer := mh_writer s1 @ map (\<lambda>i. WrMessage (MsgExtended (UtMetadataRequest i))) [0..<hl_total_pieces inner]\<rparr>))"

definition meta_should_send_bitfield :: bool where
  "meta_should_send_bitfield = False"

definition meta_read_chunk :: "('i, unit) mhm" where
  "meta_read_chunk = sm_res (Inl (Bail ''the peer is not supposed to be requesting chunks''))"

definition meta_should_transmit_have :: bool where
  "meta_should_transmit_have = False"

subsection \<open>The metadata is assembled from its pieces and verified\<close>

definition meta_pieces :: "metadata_env \<Rightarrow> nat \<Rightarrow> nat" where
  "meta_pieces E sz = (sz + me_chunk_size E - 1) div me_chunk_size E"

definition meta_piece_len :: "metadata_env \<Rightarrow> nat \<Rightarrow> nat \<Rightarrow> nat" where
  "meta_piece_len E sz i = (if Suc i = meta_pieces E sz then sz - i * me_chunk_size E else me_chunk_size E)"

text \<open>What is assumed of \<open>last_element_size\<close>: the size of the last, possibly shorter, piece.\<close>

definition meta_env_ok :: "metadata_env \<Rightarrow> nat \<Rightarrow> bool" where
  "meta_env_ok E sz \<longleftrightarrow> 0 < me_chunk_size E
     \<and> (0 < meta_pieces E sz \<longrightarrow>
          me_last_element_size E sz (me_chunk_size E) = sz - (meta_pieces E sz - 1) * me_chunk_size E)"

text \<open>The states of the collector, with the pieces accepted so far.\<close>

inductive collected :: "metadata_env \<Rightarrow> nat \<Rightarrow> (nat \<rightharpoonup> byte list) \<Rightarrow> handler_locked \<Rightarrow> bool" for E :: metadata_env and sz :: nat where
  collected_new: "handler_locked_new E sz = Inr st \<Longrightarrow> collected E sz (\<lambda>_. None) st"
| collected_piece: "collected E sz got st \<Longrightarrow> record_piece E (i, data) st = (Inr b, st')
    \<Longrightarrow> collected E sz (got(i \<mapsto> data)) st'"

lemma meta_pieces_bounds:
  assumes "0 < me_chunk_size E" and "i < meta_pieces E sz"
  shows "i * me_chunk_size E < sz" "sz \<le> meta_pieces E sz * me_chunk_size E"
proof -
  let ?c = "me_chunk_size E"
  have "i * ?c + ?c \<le> meta_pieces E sz * ?c" using assms(2) by (metis Suc_leI add.commute mult_Suc mult_le_mono1)
  also have "\<dots> \<le> sz + ?c - 1" by (simp add: meta_pieces_def)
  finally show "i * ?c < sz" using assms(1) by linarith
  have "(sz + ?c - 1) mod ?c < ?c" using assms(1) by simp
  then have "sz + ?c - 1 < meta_pieces E sz * ?c + ?c"
    unfolding meta_pieces_def by (metis add_strict_left_mono div_mult_mod_eq)
  then show "sz \<le> meta_pieces E sz * ?c" using assms(1) by linarith
qed

lemma meta_piece_end:
  assumes "0 < me_chunk_size E" and "i < meta_pieces E sz"
  shows "i * me_chunk_size E + meta_piece_len E sz i = min sz (Suc i * me_chunk_size E)"
    "meta_piece_len E sz i \<le> me_chunk_size E"
proof -
  show "i * me_chunk_size E + meta_piece_len E sz i = min sz (Suc i * me_chunk_size E)"
  proof (cases "Suc i = meta_pieces E sz")
    case True
    then show ?thesis using meta_pieces_bounds [OF assms] by (simp add: meta_piece_len_def)
  next
    case False
    then have "Suc i < meta_pieces E sz" using assms(2) by simp
    from meta_pieces_bounds(1) [OF assms(1) this] show ?thesis using False by (simp add: meta_piece_len_def)
  qed
  then show "meta_piece_len E sz i \<le> me_chunk_size E" by (simp add: min_def split: if_splits)
qed

lemma piece_size_eq:
  assumes "meta_env_ok E sz" and "hl_metadata_size st = sz" and "hl_total_pieces st = meta_pieces E sz" and "i < meta_pieces E sz"
  shows "piece_size E i st = Inr (meta_piece_len E sz i)"
proof (cases "Suc i = meta_pieces E sz")
  case True
  then show ?thesis using assms by (auto simp: piece_size_def checked_sub_def meta_piece_len_def meta_env_ok_def)
next
  case False
  then have "i \<noteq> meta_pieces E sz - 1" using assms(4) by linarith
  then show ?thesis using False assms by (simp add: piece_size_def checked_sub_def meta_piece_len_def)
qed

text \<open>A write leaves the bytes of other ranges alone.\<close>

lemma slice_store_other:
  assumes "o2 + m \<le> o1 \<or> o1 + length d \<le> o2" and "o1 + length d \<le> length b"
  shows "take m (drop o2 (take o1 b @ d @ drop (o1 + length d) b)) = take m (drop o2 b)"
  by (rule nth_equalityI) (use assms in \<open>auto simp: nth_append\<close>)

lemma slice_store_same:
  "o1 + length d \<le> length b \<Longrightarrow> take (length d) (drop o1 (take o1 b @ d @ drop (o1 + length d) b)) = d"
  by simp

definition meta_inv :: "metadata_env \<Rightarrow> nat \<Rightarrow> (nat \<rightharpoonup> byte list) \<Rightarrow> handler_locked \<Rightarrow> bool" where
  "meta_inv E sz got st \<longleftrightarrow> hl_metadata_size st = sz \<and> hl_total_pieces st = meta_pieces E sz
     \<and> length (hl_buffer st) = sz \<and> length (hl_received_pieces st) = meta_pieces E sz
     \<and> (\<forall>i<meta_pieces E sz. hl_received_pieces st ! i \<longleftrightarrow> got i \<noteq> None)
     \<and> (\<forall>i d. got i = Some d \<longrightarrow> i < meta_pieces E sz \<and> length d = meta_piece_len E sz i
          \<and> take (length d) (drop (i * me_chunk_size E) (hl_buffer st)) = d)"

lemma meta_invD:
  assumes "meta_inv E sz got st"
  shows "hl_metadata_size st = sz" "hl_total_pieces st = meta_pieces E sz" "length (hl_buffer st) = sz"
    "length (hl_received_pieces st) = meta_pieces E sz"
    "i < meta_pieces E sz \<Longrightarrow> hl_received_pieces st ! i \<longleftrightarrow> got i \<noteq> None"
    "got i = Some d \<Longrightarrow> i < meta_pieces E sz" "got i = Some d \<Longrightarrow> length d = meta_piece_len E sz i"
    "got i = Some d \<Longrightarrow> take (length d) (drop (i * me_chunk_size E) (hl_buffer st)) = d"
  using assms unfolding meta_inv_def by blast+

text \<open>What an accepted piece is.\<close>

lemma record_piece_Inr:
  assumes ok: "meta_env_ok E sz" and inv: "meta_inv E sz got st" and r: "record_piece E (i, d) st = (Inr b, st')"
  shows "i < meta_pieces E sz" "length d = meta_piece_len E sz i" "got i = None"
    "st' = store_piece (i * me_chunk_size E) i d st"
    "b \<longleftrightarrow> list_all (\<lambda>p. p) (hl_received_pieces st')" "b \<Longrightarrow> me_sha1 E (hl_buffer st') = me_info_hash E"
proof -
  have st: "hl_metadata_size st = sz" "hl_total_pieces st = meta_pieces E sz" "length (hl_received_pieces st) = meta_pieces E sz"
    "\<And>i. i < meta_pieces E sz \<Longrightarrow> hl_received_pieces st ! i \<longleftrightarrow> got i \<noteq> None"
    using inv by (auto simp: meta_inv_def)
  show i: "i < meta_pieces E sz" using r st by (auto simp: record_piece_def split: if_splits)
  note ps = piece_size_eq [OF ok st(1,2) i]
  note r = r [unfolded record_piece_def prod.case ps sum.case vec_index_eq [OF i [folded st(3)]]]
  show "length d = meta_piece_len E sz i" "got i = None" "st' = store_piece (i * me_chunk_size E) i d st"
    "b \<longleftrightarrow> list_all (\<lambda>p. p) (hl_received_pieces st')" "b \<Longrightarrow> me_sha1 E (hl_buffer st') = me_info_hash E"
    using r st(4) [OF i] by (auto simp: Let_def split: if_splits bool.splits)
qed

lemma meta_inv_step:
  assumes ok: "meta_env_ok E sz" and inv: "meta_inv E sz got st" and r: "record_piece E (i, d) st = (Inr b, st')"
  shows "meta_inv E sz (got(i \<mapsto> d)) st'"
proof -
  let ?c = "me_chunk_size E"
  have c: "0 < ?c" using ok by (simp add: meta_env_ok_def)
  note i = record_piece_Inr [OF ok inv r]
  have st: "length (hl_buffer st) = sz" using inv by (simp add: meta_inv_def)
  have fit: "i * ?c + length d \<le> length (hl_buffer st)" using meta_piece_end [OF c i(1)] i(2) st by simp
  have other: "take (length x) (drop (j * ?c) (hl_buffer st')) = x" if "got j = Some x" for j x
  proof -
    have j: "j < meta_pieces E sz" "length x = meta_piece_len E sz j"
      "take (length x) (drop (j * ?c) (hl_buffer st)) = x" "j \<noteq> i"
      using meta_invD(6-8) [OF inv that] that i(3) by auto
    have "j * ?c + length x \<le> Suc j * ?c" "i * ?c + length d \<le> Suc i * ?c"
      using meta_piece_end [OF c j(1)] meta_piece_end [OF c i(1)] j(2) i(2) by simp_all
    moreover have "Suc j * ?c \<le> i * ?c \<or> Suc i * ?c \<le> j * ?c"
      using j(4) by (metis Suc_leI mult_le_mono1 nat_neq_iff)
    ultimately have "j * ?c + length x \<le> i * ?c \<or> i * ?c + length d \<le> j * ?c" by linarith
    from slice_store_other [OF this fit] show ?thesis using j(3) by (simp add: i(4) store_piece_def)
  qed
  have "length (hl_buffer st') = sz" using fit st by (simp add: i(4) store_piece_def)
  then show ?thesis
    using inv i(1,2) other slice_store_same [OF fit]
    by (auto simp: meta_inv_def i(4) store_piece_def nth_list_update)
qed

lemma collected_inv:
  assumes "meta_env_ok E sz" and "collected E sz got st"
  shows "meta_inv E sz got st"
  using assms(2)
proof induction
  case (collected_new st)
  then show ?case by (auto simp: meta_inv_def handler_locked_new_def meta_pieces_def Let_def split: if_splits)
next
  case (collected_piece got st i data b st')
  then show ?case using meta_inv_step [OF assms(1)] by blast
qed

lemma concat_chunks: "concat (map (\<lambda>i. take c (drop (i * c) b)) [0..<n]) = take (n * c) b"
  by (induction n) (simp_all add: take_add add.commute [of c])

lemma meta_complete:
  assumes ok: "meta_env_ok E sz" and inv: "meta_inv E sz got st" and "list_all (\<lambda>p. p) (hl_received_pieces st)"
  shows "hl_buffer st = concat (map (\<lambda>i. the (got i)) [0..<meta_pieces E sz])"
proof -
  let ?c = "me_chunk_size E" and ?n = "meta_pieces E sz" and ?b = "hl_buffer st"
  have c: "0 < ?c" using ok by (simp add: meta_env_ok_def)
  have st: "length ?b = sz" "length (hl_received_pieces st) = ?n" using inv by (auto simp: meta_inv_def)
  have "the (got i) = take ?c (drop (i * ?c) ?b)" if i: "i < ?n" for i
  proof -
    obtain d where d: "got i = Some d" using meta_invD(5) [OF inv i] assms(3) i st(2) by (auto simp: list_all_length)
    then have d': "length d = meta_piece_len E sz i" "take (length d) (drop (i * ?c) ?b) = d"
      using meta_invD(7,8) [OF inv] by blast+
    note e = meta_piece_end [OF c i]
    have "take ?c (drop (i * ?c) ?b) = take (length d) (drop (i * ?c) ?b)"
    proof (cases "length d = ?c")
      case False
      then have "length ?b \<le> i * ?c + length d" using e d'(1) st(1) by (simp add: min_def split: if_splits)
      then have "length (drop (i * ?c) ?b) \<le> length d" "length d \<le> ?c" using e(2) d'(1) by simp_all
      then show ?thesis by simp
    qed simp
    then show ?thesis using d d'(2) by simp
  qed
  then have "concat (map (\<lambda>i. the (got i)) [0..<?n]) = concat (map (\<lambda>i. take ?c (drop (i * ?c) ?b)) [0..<?n])"
    by (intro arg_cong [where f = concat] map_cong) auto
  also have "\<dots> = take (?n * ?c) ?b" by (rule concat_chunks)
  also have "\<dots> = ?b"
  proof (cases "?n = 0")
    case True
    then have "sz = 0" using c by (simp add: meta_pieces_def div_eq_0_iff)
    then show ?thesis using st by simp
  next
    case False
    then show ?thesis using meta_pieces_bounds(2) [OF c, of 0 sz] st by simp
  qed
  finally show ?thesis by simp
qed

text \<open>Metadata from a magnet link is only handed on when verified: when the handler delivers a result, the
  bytes it delivers are the accepted pieces in order, one for each index, they have the announced size, and their
  SHA-1 is the info hash of the magnet link.\<close>

theorem metadata_verified:
  assumes "meta_env_ok E sz" and "collected E sz got st" and "mh_locked s = Some st" and "mh_result s = None"
    and "meta_on_received_message E parse_info rx_open (MsgExtended (UtMetadataData i data)) s = (r, s')"
    and "mh_result s' = Some (MetaInfo info buf)"
  shows "me_sha1 E buf = me_info_hash E \<and> length buf = sz \<and> parse_info buf = Some info
    \<and> buf = concat (map (\<lambda>j. the ((got(i \<mapsto> data)) j)) [0..<meta_pieces E sz])
    \<and> dom (got(i \<mapsto> data)) = {..<meta_pieces E sz}"
proof -
  note inv = collected_inv [OF assms(1,2)]
  obtain b st' where rp: "record_piece E (i, data) st = (b, st')" by fastforce
  have "b = Inr True"
    using assms(3-6) rp by (auto simp: meta_on_received_message_def split: sum.splits bool.splits)
  then have rp: "record_piece E (i, data) st = (Inr True, st')" using rp by simp
  have buf: "buf = hl_buffer st'" "parse_info buf = Some info"
    using assms(3-6) rp by (auto simp: meta_on_received_message_def send_result_def Let_def split: if_splits option.splits)
  note i = record_piece_Inr [OF assms(1) inv rp]
  note inv' = meta_inv_step [OF assms(1) inv rp]
  have all: "list_all (\<lambda>p. p) (hl_received_pieces st')" using i(5) by simp
  have "dom (got(i \<mapsto> data)) = {..<meta_pieces E sz}"
  proof (intro set_eqI iffI)
    fix j assume "j \<in> {..<meta_pieces E sz}"
    then show "j \<in> dom (got(i \<mapsto> data))"
      using meta_invD(5) [OF inv', of j] meta_invD(4) [OF inv'] all by (auto simp: list_all_length split: if_splits)
  qed (use meta_invD(6) [OF inv'] in blast)
  then show ?thesis using buf i(6) inv' meta_complete [OF assms(1) inv' all] by (simp add: meta_inv_def)
qed

text \<open>A peer that sends metadata before its extended handshake, or once more after the metadata is complete, makes
  the handler panic.\<close>

lemma metadata_unexpected_panics:
  "mh_locked s = None \<Longrightarrow> fst (meta_on_received_message E parse_info rx_open (MsgExtended (UtMetadataData i data)) s) = Inl Panic"
  by (simp add: meta_on_received_message_def)

text \<open>Five bytes of metadata in chunks of two, the last one arriving last.\<close>

definition ex_menv :: metadata_env where
  "ex_menv = \<lparr>me_chunk_size = 2, me_last_element_size = (\<lambda>n c. n - (n - 1) div c * c), me_sha1 = (\<lambda>d. d),
     me_info_hash = [1, 2, 3, 4, 5]\<rparr>"

definition ex_meta :: handler_locked where
  "ex_meta = \<lparr>hl_metadata_size = 5, hl_total_pieces = 3, hl_buffer = [1, 2, 3, 4, 0],
     hl_received_pieces = [True, True, False]\<rparr>"

definition ex_meta_handler :: "byte list meta_handler" where
  "ex_meta_handler = \<lparr>mh_locked = Some ex_meta, mh_result_tx = True, mh_result = None, mh_writer = []\<rparr>"

lemma ex_collected: "collected ex_menv 5 ((\<lambda>_. None)(0 \<mapsto> [1, 2], 1 \<mapsto> [3, 4])) ex_meta"
proof -
  define st0 where "st0 = \<lparr>hl_metadata_size = 5, hl_total_pieces = 3, hl_buffer = [0, 0, 0, 0, 0::byte],
     hl_received_pieces = [False, False, False]\<rparr>"
  define st1 where "st1 = \<lparr>hl_metadata_size = 5, hl_total_pieces = 3, hl_buffer = [1, 2, 0, 0, 0::byte],
     hl_received_pieces = [True, False, False]\<rparr>"
  have "handler_locked_new ex_menv 5 = Inr st0" unfolding st0_def by code_simp
  moreover have "record_piece ex_menv (0, [1, 2]) st0 = (Inr False, st1)" unfolding st0_def st1_def by code_simp
  moreover have "record_piece ex_menv (1, [3, 4]) st1 = (Inr False, ex_meta)" unfolding st1_def ex_meta_def by code_simp
  ultimately show ?thesis by (blast intro: collected.intros)
qed

theorem metadata_verified_witness:
  "\<exists>s'. meta_on_received_message ex_menv Some True (MsgExtended (UtMetadataData 2 [5])) ex_meta_handler = (Inr (), s')
    \<and> mh_result s' = Some (MetaInfo [1, 2, 3, 4, 5] [1, 2, 3, 4, 5])
    \<and> me_sha1 ex_menv [1, 2, 3, 4, 5] = me_info_hash ex_menv"
proof -
  have ok: "meta_env_ok ex_menv 5" by (simp add: meta_env_ok_def meta_pieces_def ex_menv_def)
  have "fst (meta_on_received_message ex_menv Some True (MsgExtended (UtMetadataData 2 [5])) ex_meta_handler) = Inr ()"
    and res: "mh_result (snd (meta_on_received_message ex_menv Some True (MsgExtended (UtMetadataData 2 [5])) ex_meta_handler))
      = Some (MetaInfo [1, 2, 3, 4, 5] [1, 2, 3, 4, 5])"
    by code_simp+
  then obtain s' where s': "meta_on_received_message ex_menv Some True (MsgExtended (UtMetadataData 2 [5])) ex_meta_handler = (Inr (), s')"
    "mh_result s' = Some (MetaInfo [1, 2, 3, 4, 5] [1, 2, 3, 4, 5])"
    by (metis fst_conv snd_conv prod.collapse)
  have "mh_locked ex_meta_handler = Some ex_meta" "mh_result ex_meta_handler = None"
    by (simp_all add: ex_meta_handler_def)
  from metadata_verified [OF ok ex_collected this s'] show ?thesis using s' by blast
qed

end
