(* ===== verification/Peer_Connection.thy ===== *)
theory Peer_Connection
  imports Tasks Read_Buf Metadata_Reader
begin

text \<open>
  \<open>src/src/peer_connection.rs\<close>: the protocol with one peer. The trait \<open>PeerConnectionHandler\<close> is the record
  \<open>conn_handler\<close> of its methods over a handler state; both implementations of the repository, the peer handler of a live torrent
  and the metadata reader, are values of it. The crate \<open>peer_binary_protocol\<close> is the parameter \<open>codec\<close> (serializers) and a parser; the
  socket is a reader as in \<open>Read_Buf\<close> and, for each write, the outcome of the write under its timeout. The reader and the writer
  run as turns that may come in any order. Errors wrapped by \<open>Error::Anyhow\<close> are kept as they are.
\<close>

subsection \<open>The handler interface and the external codec\<close>

record handshake =
  hs_info_hash :: id20
  hs_peer_id :: id20
  hs_extended :: bool

text \<open>The number of the next counters and the clock, when a handler is called.\<close>

type_synonym tick = "nat \<times> nat"

record 'h conn_handler =
  hd_on_connected :: "nat \<Rightarrow> ('h, unit) sm"
  hd_should_send_bitfield :: "'h \<Rightarrow> bool"
  hd_serialize_bitfield :: "'h \<Rightarrow> byte list res"
  hd_on_handshake :: "handshake \<Rightarrow> connection_kind \<Rightarrow> nat \<Rightarrow> ('h, unit) sm"
  hd_on_extended_handshake :: "ext_handshake \<Rightarrow> ('h, unit) sm"
  hd_on_received_message :: "message \<Rightarrow> tick \<Rightarrow> ('h, unit) sm"
  hd_should_transmit_have :: "nat \<Rightarrow> 'h \<Rightarrow> bool"
  hd_on_uploaded_bytes :: "u32 \<Rightarrow> ('h, unit) sm"
  hd_read_chunk :: "chunk_info \<Rightarrow> byte list \<Rightarrow> 'h \<Rightarrow> byte list res"
  hd_update_my_extended_handshake :: "nat option \<Rightarrow> 'h \<Rightarrow> nat option"

text \<open>
  \<open>'x\<close> are the extension ids a peer announced. \<open>cc_my_extended\<close> is our extended handshake, with the peer's address and the size
  of the metadata; \<open>cc_ut_metadata\<close> a metadata piece with its index and the total size.
\<close>

record 'x codec =
  cc_max_msg_len :: nat
  cc_handshake_new :: "id20 \<Rightarrow> id20 \<Rightarrow> handshake"
  cc_handshake_bytes :: "handshake \<Rightarrow> byte list"
  cc_my_extended :: "ip_addr \<Rightarrow> nat option \<Rightarrow> byte list option"
  cc_message :: "message \<Rightarrow> 'x \<Rightarrow> byte list option"
  cc_ut_metadata :: "nat \<Rightarrow> nat \<Rightarrow> byte list \<Rightarrow> 'x \<Rightarrow> byte list option"
  cc_piece_preamble :: "chunk_info \<Rightarrow> byte list"
  cc_peer_ids :: "ext_handshake \<Rightarrow> 'x"
  cc_default_ids :: 'x

record peer_connection =
  pc_addr :: socket_addr
  pc_info_hash :: id20
  pc_peer_id :: id20

datatype writer_phase = SendBitfield | SendUnchoke | WriterLoop

record ('h, 'x, 'c) conn =
  cn_handler :: 'h
  cn_write_buf :: "byte list"
  cn_written :: "byte list"
  cn_read_buf :: read_buf
  cn_sock :: 'c
  cn_ids :: "'x option"
  cn_phase :: writer_phase
  cn_broadcast_closed :: bool

type_synonym ('h, 'x, 'c, 'a) cm = "(('h, 'x, 'c) conn, 'a) sm"

text \<open>A write can fail or time out after some of the bytes.\<close>

datatype io_write = WriteOk | WriteFailed nat | WriteTimedOut nat

definition conn_new :: "'x codec \<Rightarrow> 'h \<Rightarrow> read_buf \<Rightarrow> 'c \<Rightarrow> ('h, 'x, 'c) conn" where
  "conn_new X h b c = \<lparr>cn_handler = h, cn_write_buf = replicate (cc_max_msg_len X) 0, cn_written = [], cn_read_buf = b, cn_sock = c,
     cn_ids = None, cn_phase = SendBitfield, cn_broadcast_closed = False\<rparr>"

definition on_conn_handler :: "('h, 'a) sm \<Rightarrow> ('h, 'x, 'c, 'a) cm" where
  "on_conn_handler m C = (case m (cn_handler C) of (r, h) \<Rightarrow> (r, C\<lparr>cn_handler := h\<rparr>))"

text \<open>\<open>with_timeout(name, rwtimeout, write.write_all(&write_buf[..n]))\<close>.\<close>

definition write_all :: "string \<Rightarrow> error \<Rightarrow> io_write \<Rightarrow> nat \<Rightarrow> ('h, 'x, 'c, unit) cm" where
  "write_all name err w n C =
     (if length (cn_write_buf C) < n then (Inl Panic, C)
      else let data = take n (cn_write_buf C) in
        case w of
          WriteOk \<Rightarrow> (Inr (), C\<lparr>cn_written := cn_written C @ data\<rparr>)
        | WriteFailed k \<Rightarrow> (Inl err, C\<lparr>cn_written := cn_written C @ take k data\<rparr>)
        | WriteTimedOut k \<Rightarrow> (Inl (Timeout name), C\<lparr>cn_written := cn_written C @ take k data\<rparr>))"

text \<open>A message serialized to the front of the write buffer; the result is its length.\<close>

definition serialize_to :: "byte list option \<Rightarrow> ('h, 'x, 'c, nat) cm" where
  "serialize_to b C =
     (case b of
        None \<Rightarrow> (Inl ProtoSerialize, C)
      | Some bs \<Rightarrow>
        if length (cn_write_buf C) < length bs then (Inl Panic, C)
        else (Inr (length bs), C\<lparr>cn_write_buf := bs @ drop (length bs) (cn_write_buf C)\<rparr>))"

subsection \<open>Handshake\<close>

text \<open>
  An incoming connection. The handshake of the peer was read before; what is handed to the handler, and asked whether
  extensions are supported, is our own handshake.
\<close>

definition manage_peer_incoming ::
  "'x codec \<Rightarrow> 'h conn_handler \<Rightarrow> peer_connection \<Rightarrow> handshake \<Rightarrow> connection_kind \<Rightarrow> io_write \<Rightarrow> nat \<Rightarrow> ('h, 'x, 'c, bool) cm" where
  "manage_peer_incoming X Hd pc incoming kind w now =
     (if hs_info_hash incoming \<noteq> pc_info_hash pc then sm_res (Inl WrongInfoHash)
      else if hs_peer_id incoming = pc_peer_id pc then sm_res (Inl ConnectingToOurselves)
      else let handshake = cc_handshake_new X (pc_info_hash pc) (pc_peer_id pc) in
        sm_bind (serialize_to (Some (cc_handshake_bytes X handshake))) (\<lambda>hlen.
        sm_bind (write_all ''writing handshake'' WriteHandshake w hlen) (\<lambda>_.
        sm_bind (on_conn_handler (hd_on_handshake Hd handshake kind now)) (\<lambda>_. sm_ret (hs_extended handshake)))))"

text \<open>An outgoing connection; \<open>connected\<close> is the result of the connector, with the connection's kind and the time it took.\<close>

definition manage_peer_outgoing ::
  "'x codec \<Rightarrow> 'h conn_handler \<Rightarrow> peer_connection \<Rightarrow> handshake parser \<Rightarrow> 'c reader \<Rightarrow> (connection_kind \<times> nat) res \<Rightarrow> io_write \<Rightarrow> nat
   \<Rightarrow> ('h, 'x, 'c, bool) cm" where
  "manage_peer_outgoing X Hd pc deserialize sock connected w now =
     sm_bind (sm_res connected) (\<lambda>(kind, elapsed).
     sm_bind (on_conn_handler (hd_on_connected Hd elapsed)) (\<lambda>_.
     sm_bind (serialize_to (Some (cc_handshake_bytes X (cc_handshake_new X (pc_info_hash pc) (pc_peer_id pc))))) (\<lambda>hsz.
     sm_bind (write_all ''writing'' WriteHandshake w hsz) (\<lambda>_.
     sm_bind (\<lambda>C. case read_handshake deserialize sock read_buf_new (cn_sock C) of
         (r, b, c) \<Rightarrow> (r, C\<lparr>cn_read_buf := b, cn_sock := c\<rparr>)) (\<lambda>h.
       if hs_info_hash h \<noteq> pc_info_hash pc then sm_res (Inl WrongInfoHash)
       else if hs_peer_id h = pc_peer_id pc then sm_res (Inl ConnectingToOurselves)
       else sm_bind (on_conn_handler (hd_on_handshake Hd h kind now)) (\<lambda>_. sm_ret (hs_extended h)))))))"

definition send_extended_handshake ::
  "'x codec \<Rightarrow> 'h conn_handler \<Rightarrow> peer_connection \<Rightarrow> bool \<Rightarrow> io_write \<Rightarrow> ('h, 'x, 'c, unit) cm" where
  "send_extended_handshake X Hd pc supports_extended w =
     (if supports_extended then
        sm_bind (sm_gets (\<lambda>C. hd_update_my_extended_handshake Hd None (cn_handler C))) (\<lambda>sz.
        sm_bind (serialize_to (cc_my_extended X (fst (pc_addr pc)) sz)) (\<lambda>n.
          write_all ''writing extended handshake'' WriteErr w n))
      else sm_ret ())"

subsection \<open>The writer\<close>

datatype writer_event = HaveBroadcast nat | BroadcastClosed | BroadcastLagged
  | Outgoing writer_request | OutgoingClosed | KeepAliveTimeout

text \<open>The inner loop of the writer takes one event: a request to send, or nothing to do for it.\<close>

definition writer_select :: "'h conn_handler \<Rightarrow> writer_event \<Rightarrow> ('h, 'x, 'c, writer_request option) cm" where
  "writer_select Hd ev C =
     (case ev of
        HaveBroadcast i \<Rightarrow>
          if \<not> cn_broadcast_closed C \<and> hd_should_transmit_have Hd i (cn_handler C)
          then (Inr (Some (WrMessage (MsgHave i))), C) else (Inr None, C)
      | BroadcastClosed \<Rightarrow> (Inr None, C\<lparr>cn_broadcast_closed := True\<rparr>)
      | BroadcastLagged \<Rightarrow> (Inr None, C)
      | Outgoing r \<Rightarrow> (Inr (Some r), C)
      | OutgoingClosed \<Rightarrow> (Inl TorrentIsNotLive, C)
      | KeepAliveTimeout \<Rightarrow> (Inr (Some (WrMessage MsgKeepAlive)), C))"

definition ext_msg_ids :: "'x codec \<Rightarrow> ('h, 'x, 'c) conn \<Rightarrow> 'x" where
  "ext_msg_ids X C = (case cn_ids C of Some i \<Rightarrow> i | None \<Rightarrow> cc_default_ids X)"

text \<open>A block for the peer: the storage is read into everything behind the preamble.\<close>

definition serialize_chunk :: "'x codec \<Rightarrow> 'h conn_handler \<Rightarrow> chunk_info \<Rightarrow> ('h, 'x, 'c, nat) cm" where
  "serialize_chunk X Hd chunk =
     sm_bind (serialize_to (Some (cc_piece_preamble X chunk))) (\<lambda>preamble_len C.
       case hd_read_chunk Hd chunk (drop preamble_len (cn_write_buf C)) (cn_handler C) of
         Inl e \<Rightarrow> (Inl (if e = Panic \<or> e = Diverges then e else ReadChunkErr), C)
       | Inr data \<Rightarrow> (Inr (preamble_len + ci_size chunk), C\<lparr>cn_write_buf := take preamble_len (cn_write_buf C) @ data\<rparr>))"

text \<open>The bytes of the requests that are messages.\<close>

definition request_bytes :: "'x codec \<Rightarrow> 'x \<Rightarrow> writer_request \<Rightarrow> byte list option" where
  "request_bytes X ids req =
     (case req of
        WrMessage m \<Rightarrow> cc_message X m ids
      | WrUtMetadata i sz d \<Rightarrow> cc_ut_metadata X i sz d ids
      | WrUtPex p \<Rightarrow> cc_message X (MsgExtended (UtPexMsg p)) ids
      | WrUtHolepunch m \<Rightarrow> cc_message X (MsgExtended (UtHolepunchMsg m)) ids
      | _ \<Rightarrow> None)"

text \<open>The length of the message, and the bytes to count as uploaded.\<close>

definition writer_serialize :: "'x codec \<Rightarrow> 'h conn_handler \<Rightarrow> writer_request \<Rightarrow> ('h, 'x, 'c, nat \<times> u32 option) cm" where
  "writer_serialize X Hd req =
     (case req of
        WrReadChunkRequest ci \<Rightarrow> sm_bind (serialize_chunk X Hd ci) (\<lambda>n. sm_ret (n, Some (of_nat (ci_size ci))))
      | WrDisconnect \<Rightarrow> sm_res (Inl Disconnect)
      | _ \<Rightarrow> sm_bind (sm_gets (ext_msg_ids X)) (\<lambda>ids.
             sm_bind (serialize_to (request_bytes X ids req)) (\<lambda>n. sm_ret (n, None))))"

definition writer_send :: "'x codec \<Rightarrow> 'h conn_handler \<Rightarrow> io_write \<Rightarrow> writer_request \<Rightarrow> ('h, 'x, 'c, unit) cm" where
  "writer_send X Hd w req =
     sm_bind (writer_serialize X Hd req) (\<lambda>(n, uploaded_add).
     sm_bind (write_all ''writing'' WriteErr w n) (\<lambda>_.
       case uploaded_add of None \<Rightarrow> sm_ret () | Some k \<Rightarrow> on_conn_handler (hd_on_uploaded_bytes Hd k)))"

text \<open>The writer goes from the bitfield over the unchoke to its loop.\<close>

definition writer_bitfield :: "'h conn_handler \<Rightarrow> io_write \<Rightarrow> ('h, 'x, 'c, unit) cm" where
  "writer_bitfield Hd w =
     sm_bind (sm_gets (\<lambda>C. hd_should_send_bitfield Hd (cn_handler C))) (\<lambda>send.
     sm_bind (if send
              then sm_bind (\<lambda>C. (hd_serialize_bitfield Hd (cn_handler C), C)) (\<lambda>bs.
                   sm_bind (serialize_to (Some bs)) (\<lambda>n. write_all ''writing bitfield'' WriteErr w n))
              else sm_ret ()) (\<lambda>_. sm_modify (\<lambda>C. C\<lparr>cn_phase := SendUnchoke\<rparr>)))"

definition writer_unchoke :: "'x codec \<Rightarrow> io_write \<Rightarrow> ('h, 'x, 'c, unit) cm" where
  "writer_unchoke X w =
     sm_bind (serialize_to (cc_message X MsgUnchoke (cc_default_ids X))) (\<lambda>n.
     sm_bind (write_all ''writing'' WriteErr w n) (\<lambda>_. sm_modify (\<lambda>C. C\<lparr>cn_phase := WriterLoop\<rparr>)))"

definition writer_loop :: "'x codec \<Rightarrow> 'h conn_handler \<Rightarrow> writer_event \<Rightarrow> io_write \<Rightarrow> ('h, 'x, 'c, unit) cm" where
  "writer_loop X Hd ev w =
     sm_bind (writer_select Hd ev) (\<lambda>req. case req of None \<Rightarrow> sm_ret () | Some r \<Rightarrow> writer_send X Hd w r)"

definition writer_turn :: "'x codec \<Rightarrow> 'h conn_handler \<Rightarrow> writer_event \<Rightarrow> io_write \<Rightarrow> ('h, 'x, 'c, unit) cm" where
  "writer_turn X Hd ev w C =
     (case cn_phase C of
        SendBitfield \<Rightarrow> writer_bitfield Hd w C
      | SendUnchoke \<Rightarrow> writer_unchoke X w C
      | WriterLoop \<Rightarrow> writer_loop X Hd ev w C)"

subsection \<open>The reader\<close>

definition reader_read :: "message parser \<Rightarrow> 'c reader \<Rightarrow> ('h, 'x, 'c, message) cm" where
  "reader_read deserialize sock C =
     (case read_message deserialize sock (cn_read_buf C) (cn_sock C) of
        None \<Rightarrow> (Inl Diverges, C)
      | Some (r, b, c) \<Rightarrow> (r, C\<lparr>cn_read_buf := b, cn_sock := c\<rparr>))"

definition reader_dispatch :: "'x codec \<Rightarrow> 'h conn_handler \<Rightarrow> tick \<Rightarrow> message \<Rightarrow> ('h, 'x, 'c, unit) cm" where
  "reader_dispatch X Hd tick message =
     (case message of
        MsgExtended (ExtHandshake h) \<Rightarrow>
          sm_bind (sm_modify (\<lambda>C. C\<lparr>cn_ids := Some (cc_peer_ids X h)\<rparr>))
            (\<lambda>_. on_conn_handler (hd_on_extended_handshake Hd h))
      | m \<Rightarrow> on_conn_handler (hd_on_received_message Hd m tick))"

definition reader_turn ::
  "'x codec \<Rightarrow> 'h conn_handler \<Rightarrow> message parser \<Rightarrow> 'c reader \<Rightarrow> tick \<Rightarrow> ('h, 'x, 'c, unit) cm" where
  "reader_turn X Hd deserialize sock tick =
     sm_bind (reader_read deserialize sock) (reader_dispatch X Hd tick)"

text \<open>The \<open>select!\<close> of reader and writer: turns of both in any order, until one of them ends.\<close>

datatype conn_turn = ReaderTurn tick | WriterTurn writer_event io_write

fun conn_turn_step :: "'x codec \<Rightarrow> 'h conn_handler \<Rightarrow> message parser \<Rightarrow> 'c reader \<Rightarrow> conn_turn \<Rightarrow> ('h, 'x, 'c, unit) cm" where
  "conn_turn_step X Hd deserialize sock (ReaderTurn tick) = reader_turn X Hd deserialize sock tick"
| "conn_turn_step X Hd deserialize sock (WriterTurn ev w) = writer_turn X Hd ev w"

definition manage_peer ::
  "'x codec \<Rightarrow> 'h conn_handler \<Rightarrow> peer_connection \<Rightarrow> message parser \<Rightarrow> 'c reader \<Rightarrow> bool \<Rightarrow> io_write \<Rightarrow> conn_turn list
   \<Rightarrow> ('h, 'x, 'c, unit) cm" where
  "manage_peer X Hd pc deserialize sock supports_extended w turns =
     sm_bind (send_extended_handshake X Hd pc supports_extended w)
       (\<lambda>_. sm_fold (conn_turn_step X Hd deserialize sock) turns)"

subsection \<open>What a connection keeps, for any handler\<close>

lemma keeps_fold [keeps_intros]: "(\<And>x. x \<in> set xs \<Longrightarrow> keeps P (f x)) \<Longrightarrow> keeps P (sm_fold f xs)"
proof (induction xs)
  case (Cons x xs)
  show ?case
    unfolding keeps_def
  proof (intro allI impI)
    fix s assume "P s"
    moreover obtain r s1 where "f x s = (r, s1)" by fastforce
    ultimately show "P (snd (sm_fold f (x # xs) s))"
      using keepsD [OF Cons.prems, of x s] keepsD [OF Cons.IH] Cons.prems by (auto split: sum.split)
  qed
qed (simp add: keeps_def)

text \<open>The law of \<open>PeerConnectionHandler\<close> implementations: every callback keeps an invariant.\<close>

locale connection_handler =
  fixes inv :: "'h \<Rightarrow> bool" and Hd :: "'h conn_handler"
  assumes on_connected_keeps: "keeps inv (hd_on_connected Hd elapsed)"
    and on_handshake_keeps: "keeps inv (hd_on_handshake Hd h kind now)"
    and on_extended_handshake_keeps: "keeps inv (hd_on_extended_handshake Hd eh)"
    and on_received_message_keeps: "keeps inv (hd_on_received_message Hd m tick)"
    and on_uploaded_bytes_keeps: "keeps inv (hd_on_uploaded_bytes Hd k)"
begin

lemma on_conn_handler_keeps: "keeps inv m \<Longrightarrow> keeps (\<lambda>C. inv (cn_handler C)) (on_conn_handler m)"
  by (auto simp: keeps_def on_conn_handler_def split_beta)

lemma write_all_keeps: "keeps (\<lambda>C. inv (cn_handler C)) (write_all name err w n)"
  by (auto simp: keeps_def write_all_def Let_def split: io_write.split)

lemma serialize_to_keeps: "keeps (\<lambda>C. inv (cn_handler C)) (serialize_to b)"
  by (auto simp: keeps_def serialize_to_def split: option.split)

lemmas conn_keeps = on_conn_handler_keeps write_all_keeps serialize_to_keeps on_connected_keeps on_handshake_keeps
  on_extended_handshake_keeps on_received_message_keeps on_uploaded_bytes_keeps

lemma incoming_keeps: "keeps (\<lambda>C. inv (cn_handler C)) (manage_peer_incoming X Hd pc incoming kind w now)"
  unfolding manage_peer_incoming_def Let_def by (auto intro!: keeps_intros conn_keeps)

lemma outgoing_keeps: "keeps (\<lambda>C. inv (cn_handler C)) (manage_peer_outgoing X Hd pc d sock connected w now)"
proof -
  have "keeps (\<lambda>C. inv (cn_handler C))
      (\<lambda>C. case read_handshake d sock read_buf_new (cn_sock C) of (r, b, c) \<Rightarrow> (r, C\<lparr>cn_read_buf := b, cn_sock := c\<rparr>))"
    by (auto simp: keeps_def split: prod.split)
  then show ?thesis
    unfolding manage_peer_outgoing_def by (auto intro!: keeps_intros conn_keeps split: prod.split)
qed

lemma writer_turn_keeps: "keeps (\<lambda>C. inv (cn_handler C)) (writer_turn X Hd ev w)"
proof -
  have sel: "keeps (\<lambda>C. inv (cn_handler C)) (writer_select Hd ev)"
    by (auto simp: keeps_def writer_select_def split: writer_event.split)
  have chunk: "keeps (\<lambda>C. inv (cn_handler C)) (serialize_chunk X Hd ci)" for ci
    unfolding serialize_chunk_def
    by (intro keeps_intros conn_keeps) (auto simp: keeps_def split: sum.split)
  have ser: "keeps (\<lambda>C. inv (cn_handler C)) (writer_serialize X Hd r)" for r
    unfolding writer_serialize_def by (auto intro!: keeps_intros conn_keeps chunk split: writer_request.split)
  have snd: "keeps (\<lambda>C. inv (cn_handler C)) (writer_send X Hd w r)" for r
    unfolding writer_send_def by (auto intro!: keeps_intros conn_keeps ser split: prod.split option.split)
  have bf: "keeps (\<lambda>C. inv (cn_handler C)) (writer_bitfield Hd w)"
    unfolding writer_bitfield_def by (auto intro!: keeps_intros conn_keeps)
  have un: "keeps (\<lambda>C. inv (cn_handler C)) (writer_unchoke X w)"
    unfolding writer_unchoke_def by (auto intro!: keeps_intros conn_keeps)
  have lp: "keeps (\<lambda>C. inv (cn_handler C)) (writer_loop X Hd ev w)"
    unfolding writer_loop_def by (auto intro!: keeps_intros sel snd split: option.split)
  show ?thesis
    using keepsD [OF bf] keepsD [OF un] keepsD [OF lp] by (auto simp: keeps_def writer_turn_def split: writer_phase.split)
qed

lemma reader_turn_keeps: "keeps (\<lambda>C. inv (cn_handler C)) (reader_turn X Hd d sock tick)"
proof -
  have "keeps (\<lambda>C. inv (cn_handler C)) (reader_read d sock)"
    by (auto simp: keeps_def reader_read_def split: option.split)
  moreover have "keeps (\<lambda>C. inv (cn_handler C)) (reader_dispatch X Hd tick m)" for m
    unfolding reader_dispatch_def
    by (auto intro!: keeps_intros conn_keeps split: message.split extended_message.split)
  ultimately show ?thesis unfolding reader_turn_def by (intro keeps_bind)
qed

lemma turn_keeps: "keeps (\<lambda>C. inv (cn_handler C)) (conn_turn_step X Hd d sock t)"
  by (cases t) (simp_all add: reader_turn_keeps writer_turn_keeps)

lemma manage_peer_keeps: "keeps (\<lambda>C. inv (cn_handler C)) (manage_peer X Hd pc d sock ext w turns)"
  unfolding manage_peer_def send_extended_handshake_def
  by (auto intro!: keeps_intros conn_keeps turn_keeps)

end

subsection \<open>Safety\<close>

text \<open>What the codec promises: everything it serializes fits into the write buffer.\<close>

definition codec_ok :: "'x codec \<Rightarrow> bool" where
  "codec_ok X \<longleftrightarrow> (\<forall>h. length (cc_handshake_bytes X h) \<le> cc_max_msg_len X)
     \<and> (\<forall>ip sz b. cc_my_extended X ip sz = Some b \<longrightarrow> length b \<le> cc_max_msg_len X)
     \<and> (\<forall>m ids b. cc_message X m ids = Some b \<longrightarrow> length b \<le> cc_max_msg_len X)
     \<and> (\<forall>i sz d ids b. cc_ut_metadata X i sz d ids = Some b \<longrightarrow> length b \<le> cc_max_msg_len X)
     \<and> (\<forall>c. length (cc_piece_preamble X c) \<le> cc_max_msg_len X)"

lemma codec_okD:
  assumes "codec_ok X"
  shows "length (cc_handshake_bytes X h) \<le> cc_max_msg_len X"
    "cc_my_extended X ip sz = Some b \<Longrightarrow> length b \<le> cc_max_msg_len X"
    "cc_message X m ids = Some b \<Longrightarrow> length b \<le> cc_max_msg_len X"
    "cc_ut_metadata X i total_size d ids = Some b \<Longrightarrow> length b \<le> cc_max_msg_len X"
    "length (cc_piece_preamble X c) \<le> cc_max_msg_len X"
  using assms by (simp_all add: codec_ok_def)

lemma safe_bind_with:
  assumes "safe P m" and "\<And>s x s'. P s \<Longrightarrow> m s = (Inr x, s') \<Longrightarrow> safe P (f x)"
  shows "safe P (sm_bind m f)"
  unfolding safe_def
proof (intro allI impI)
  fix s assume s: "P s"
  obtain r s' where m: "m s = (r, s')" by fastforce
  then have "P s'" "res_ok r" using safeD [OF assms(1) s] by simp_all
  with m assms(2) [OF s] show "P (snd (sm_bind m f s)) \<and> res_ok (fst (sm_bind m f s))"
    by (cases r) (auto simp: sm_bind_def safe_def res_ok_def)
qed

lemma read_more_error: "read_more conn need b c = (Inl e, b', c') \<Longrightarrow> res_ok (Inl e)"
proof (induction conn need b c arbitrary: b' c' rule: read_more.induct)
  case (1 conn need b c)
  then show ?case
    by (subst (asm) (2) read_more.simps) (auto simp: res_ok_def split: if_splits prod.splits io_read.splits)
qed

lemma read_message_result:
  assumes "read_message d conn b c = Some out"
  shows "res_ok (fst out) \<and> (\<forall>m. fst out = Inr m \<longrightarrow> (\<exists>f s n. d f s = Parsed m n))"
proof (rule read_message.raw_induct [OF _ assms, where P = "\<lambda>d conn b c out. res_ok (fst out) \<and> (\<forall>m. fst out = Inr m \<longrightarrow> (\<exists>f s n. d f s = Parsed m n))"])
  fix rm d conn b c out
  assume IH: "\<And>d conn b c y. rm d conn b c = Some y \<Longrightarrow> res_ok (fst y) \<and> (\<forall>m. fst y = Inr m \<longrightarrow> (\<exists>f s n. d f s = Parsed m n))"
    and out: "(case d (fst (as_slices b)) (snd (as_slices b)) of
        Parsed msg sz \<Rightarrow> Some (Inr msg, rb_advance sz b, c)
      | NotEnoughData need \<Rightarrow>
        (case read_more conn need b c of (Inl e, b', c') \<Rightarrow> Some (Inl e, b', c') | (Inr _, b', c') \<Rightarrow> rm d conn b' c')
      | NeedContiguous \<Rightarrow> (case make_contiguous b of Inl e \<Rightarrow> Some (Inl e, b, c) | Inr b' \<Rightarrow> rm d conn b' c)
      | ParseError \<Rightarrow> Some (Inl Deserialize, b, c)) = Some out"
  show "res_ok (fst out) \<and> (\<forall>m. fst out = Inr m \<longrightarrow> (\<exists>f s n. d f s = Parsed m n))"
  proof (cases "d (fst (as_slices b)) (snd (as_slices b))")
    case (NotEnoughData n)
    then show ?thesis using IH out read_more_error [of conn n b c] by (auto split: prod.splits sum.splits)
  next
    case (Parsed m n)
    then have o: "fst out = Inr m" using out by auto
    have "\<exists>f s n. d f s = Parsed m n" using Parsed by (intro exI)
    then show ?thesis by (simp add: o res_ok_def)
  qed (use IH out in \<open>auto simp: make_contiguous_def res_ok_def split: if_splits prod.splits\<close>)
qed

lemma read_handshake_ok:
  assumes "conn_ok conn" and "parser_ok d" and "read_handshake d conn read_buf_new c = (r, b, c')"
  shows "res_ok r" "rb_ok b"
proof -
  have new: "length new \<le> BUFLEN" if "conn c BUFLEN = (IoBytes new, c1)" for new c1
    using assms(1) that unfolding conn_ok_def by blast
  show "res_ok r"
    using assms(3) by (auto simp: read_handshake_def res_ok_def Let_def split: prod.splits io_read.splits parsed.splits if_splits)
  show "rb_ok b"
    using assms(3) new parser_okD(1) [OF assms(2)]
    by (fastforce simp: read_handshake_def read_buf_new_def rb_ok_def rb_advance_def Let_def
        split: prod.splits io_read.splits parsed.splits if_splits)
qed

definition conn_inv :: "('h \<Rightarrow> bool) \<Rightarrow> nat \<Rightarrow> ('h, 'x, 'c) conn \<Rightarrow> bool" where
  "conn_inv P cap C \<longleftrightarrow> P (cn_handler C) \<and> length (cn_write_buf C) = cap \<and> rb_ok (cn_read_buf C)"

lemma write_all_safe: "n \<le> cap \<Longrightarrow> err \<noteq> Panic \<Longrightarrow> err \<noteq> Diverges \<Longrightarrow> safe (conn_inv P cap) (write_all name err w n)"
  by (auto simp: safe_def conn_inv_def write_all_def res_ok_def Let_def split: io_write.split)

lemma serialize_to_safe: "(\<And>bs. b = Some bs \<Longrightarrow> length bs \<le> cap) \<Longrightarrow> safe (conn_inv P cap) (serialize_to b)"
  by (auto simp: safe_def conn_inv_def serialize_to_def res_ok_def split: option.split)

lemma serialize_to_len: "serialize_to b C = (Inr n, C') \<Longrightarrow> \<exists>bs. b = Some bs \<and> n = length bs"
  by (auto simp: serialize_to_def split: option.splits if_splits)

text \<open>A message put into the buffer and written.\<close>

lemma send_bytes_safe:
  assumes "\<And>bs. b = Some bs \<Longrightarrow> length bs \<le> cap"
    and "\<And>n. n \<le> cap \<Longrightarrow> safe (conn_inv P cap) (f n)"
  shows "safe (conn_inv P cap) (sm_bind (serialize_to b) f)"
  using assms by (intro safe_bind_with serialize_to_safe) (auto dest!: serialize_to_len)

text \<open>A handler that does not panic either, on messages it admits, and respects the buffers it is given.\<close>

locale safe_connection_handler = connection_handler inv Hd for inv :: "'h \<Rightarrow> bool" and Hd :: "'h conn_handler" +
  fixes cap :: nat and admissible :: "message \<Rightarrow> bool"
  assumes on_connected_ok: "inv h \<Longrightarrow> res_ok (fst (hd_on_connected Hd elapsed h))"
    and on_handshake_ok: "inv h \<Longrightarrow> res_ok (fst (hd_on_handshake Hd hs kind now h))"
    and on_extended_handshake_ok: "inv h \<Longrightarrow> res_ok (fst (hd_on_extended_handshake Hd eh h))"
    and on_received_message_ok: "inv h \<Longrightarrow> admissible m \<Longrightarrow> res_ok (fst (hd_on_received_message Hd m tick h))"
    and on_received_message_ends: "inv h \<Longrightarrow> fst (hd_on_received_message Hd m tick h) \<noteq> Inl Diverges"
    and on_uploaded_bytes_ok: "inv h \<Longrightarrow> res_ok (fst (hd_on_uploaded_bytes Hd k h))"
    and serialize_bitfield_ok: "inv h \<Longrightarrow> res_ok (hd_serialize_bitfield Hd h)"
    and serialize_bitfield_fits: "inv h \<Longrightarrow> hd_serialize_bitfield Hd h = Inr bs \<Longrightarrow> length bs \<le> cap"
    and read_chunk_ok: "inv h \<Longrightarrow> res_ok (hd_read_chunk Hd c buf h)"
    and read_chunk_fits: "inv h \<Longrightarrow> hd_read_chunk Hd c buf h = Inr data \<Longrightarrow> length data = length buf \<and> ci_size c \<le> length buf"
begin

lemma on_conn_handler_safe:
  assumes "keeps inv m" and "\<And>h. inv h \<Longrightarrow> res_ok (fst (m h))"
  shows "safe (conn_inv inv cap) (on_conn_handler m)"
  using assms by (auto simp: safe_def conn_inv_def keeps_def on_conn_handler_def split_beta)

lemmas handler_safe = on_conn_handler_safe [OF on_connected_keeps on_connected_ok] on_conn_handler_safe [OF on_handshake_keeps on_handshake_ok]
  on_conn_handler_safe [OF on_extended_handshake_keeps on_extended_handshake_ok]
  on_conn_handler_safe [OF on_uploaded_bytes_keeps on_uploaded_bytes_ok]

lemmas conn_safe = handler_safe write_all_safe send_bytes_safe handler_safe [THEN safe_bind] write_all_safe [THEN safe_bind]
  safe_ret safe_res

lemma incoming_safe:
  assumes "codec_ok X" and "cc_max_msg_len X = cap"
  shows "safe (conn_inv inv cap) (manage_peer_incoming X Hd pc incoming kind w now)"
  unfolding manage_peer_incoming_def Let_def using codec_okD(1) [OF assms(1), unfolded assms(2)]
  by (auto intro!: conn_safe simp: res_ok_def)

lemma outgoing_safe:
  assumes "codec_ok X" and "cc_max_msg_len X = cap" and "conn_ok sock" and "parser_ok d" and "res_ok connected"
  shows "safe (conn_inv inv cap) (manage_peer_outgoing X Hd pc d sock connected w now)"
proof -
  have "safe (conn_inv inv cap)
      (\<lambda>C. case read_handshake d sock read_buf_new (cn_sock C) of (r, b, c) \<Rightarrow> (r, C\<lparr>cn_read_buf := b, cn_sock := c\<rparr>))"
    using read_handshake_ok [OF assms(3,4)] by (auto simp: safe_def conn_inv_def split: prod.split)
  note rd = this [THEN safe_bind]
  show ?thesis
    unfolding manage_peer_outgoing_def using codec_okD(1) [OF assms(1), unfolded assms(2)] assms(5)
    by (auto intro!: safe_bind [OF safe_res] conn_safe rd simp: res_ok_def split: prod.split)
qed

lemma serialize_chunk_safe:
  assumes "codec_ok X" and "cc_max_msg_len X = cap"
  shows "safe (conn_inv inv cap) (serialize_chunk X Hd ci)"
    and "conn_inv inv cap C \<Longrightarrow> serialize_chunk X Hd ci C = (Inr n, C') \<Longrightarrow> n \<le> cap"
proof -
  let ?rd = "\<lambda>k C. case hd_read_chunk Hd ci (drop k (cn_write_buf C)) (cn_handler C) of
         Inl e \<Rightarrow> (Inl (if e = Panic \<or> e = Diverges then e else ReadChunkErr), C)
       | Inr data \<Rightarrow> (Inr (k + ci_size ci), C\<lparr>cn_write_buf := take k (cn_write_buf C) @ data\<rparr>)"
  have "safe (conn_inv inv cap) (?rd k)" if "k \<le> cap" for k
    using read_chunk_ok read_chunk_fits that
    by (fastforce simp: safe_def conn_inv_def res_ok_def split: sum.split)
  then show "safe (conn_inv inv cap) (serialize_chunk X Hd ci)"
    unfolding serialize_chunk_def using codec_okD(5) [OF assms(1)] assms(2) by (intro send_bytes_safe) auto
  show "n \<le> cap" if "conn_inv inv cap C" "serialize_chunk X Hd ci C = (Inr n, C')"
    using that read_chunk_fits
    by (fastforce simp: serialize_chunk_def sm_bind_def serialize_to_def conn_inv_def split: sum.splits if_splits)
qed

lemma request_bytes_fit:
  assumes "codec_ok X" and "cc_max_msg_len X = cap" and "request_bytes X ids r = Some bs"
  shows "length bs \<le> cap"
  using assms(3) codec_okD(3,4) [OF assms(1)] assms(2) by (auto simp: request_bytes_def split: writer_request.splits)

lemma writer_serialize_safe:
  assumes "codec_ok X" and "cc_max_msg_len X = cap"
  shows "safe (conn_inv inv cap) (writer_serialize X Hd r)"
    and "conn_inv inv cap C \<Longrightarrow> writer_serialize X Hd r C = (Inr (n, u), C') \<Longrightarrow> n \<le> cap"
proof -
  note fit = request_bytes_fit [OF assms]
  have "safe (conn_inv inv cap) (sm_bind (sm_gets (ext_msg_ids X)) (\<lambda>ids.
      sm_bind (serialize_to (request_bytes X ids r)) (\<lambda>n. sm_ret (n, None :: u32 option))))"
    by (rule safe_bind [OF safe_ret(2)], rule send_bytes_safe) (auto intro: safe_intros dest: fit)
  moreover have "safe (conn_inv inv cap) (sm_bind (serialize_chunk X Hd ci) (\<lambda>n. sm_ret (n, Some (of_nat (ci_size ci) :: u32))))" for ci
    by (intro safe_intros serialize_chunk_safe assms)
  ultimately show "safe (conn_inv inv cap) (writer_serialize X Hd r)"
    unfolding writer_serialize_def by (auto simp: res_ok_def intro: safe_res split: writer_request.split)
  show "n \<le> cap" if "conn_inv inv cap C" "writer_serialize X Hd r C = (Inr (n, u), C')"
    using that(2) fit serialize_chunk_safe(2) [OF assms that(1)]
    by (cases r) (auto simp: writer_serialize_def sm_bind_def sm_ret_def sm_gets_def sm_res_def split: sum.splits prod.splits dest!: serialize_to_len)
qed

lemma writer_bitfield_safe: "safe (conn_inv inv cap) (writer_bitfield Hd w)"
proof -
  have "safe (conn_inv inv cap) (sm_bind (\<lambda>C :: ('h, 'x, 'c) conn. (hd_serialize_bitfield Hd (cn_handler C), C))
      (\<lambda>bs. sm_bind (serialize_to (Some bs)) (write_all ''writing bitfield'' WriteErr w)))"
    by (rule safe_bind_with, rule safe_read)
      (auto intro!: conn_safe simp: conn_inv_def serialize_bitfield_ok dest: serialize_bitfield_fits)
  then show "safe (conn_inv inv cap) (writer_bitfield Hd w :: ('h, 'x, 'c, unit) cm)"
    unfolding writer_bitfield_def
    by (intro safe_bind [OF safe_ret(2)] safe_bind [OF _ safe_modify]) (auto intro: safe_ret simp: conn_inv_def)
qed

lemma writer_turn_safe:
  assumes "codec_ok X" and "cc_max_msg_len X = cap"
  shows "safe (conn_inv inv cap) (writer_turn X Hd ev w)"
proof -
  have sel: "safe (conn_inv inv cap) (writer_select Hd ev)"
    by (auto simp: safe_def conn_inv_def writer_select_def res_ok_def split: writer_event.split)
  have snd: "safe (conn_inv inv cap) (writer_send X Hd w r)" for r
    unfolding writer_send_def
    by (rule safe_bind_with)
      (auto intro!: conn_safe safe_intros writer_serialize_safe assms split: option.split dest: writer_serialize_safe(2) [OF assms])
  have bf: "safe (conn_inv inv cap) (writer_bitfield Hd w)" by (rule writer_bitfield_safe)
  have un: "safe (conn_inv inv cap) (writer_unchoke X w)"
    unfolding writer_unchoke_def using codec_okD(3) [OF assms(1), unfolded assms(2)]
    by (auto intro!: conn_safe safe_modify simp: conn_inv_def)
  have lp: "safe (conn_inv inv cap) (writer_loop X Hd ev w)"
    unfolding writer_loop_def by (auto intro!: safe_intros sel snd split: option.split)
  show ?thesis
    using safeD [OF bf] safeD [OF un] safeD [OF lp] by (auto simp: safe_def writer_turn_def split: writer_phase.split)
qed

text \<open>The reader: a message that was read is one the parser found.\<close>

lemma message_from_parser:
  assumes "conn_ok sock" and "parser_ok d" and "conn_inv inv cap C"
  shows "\<exists>r b c. read_message d sock (cn_read_buf C) (cn_sock C) = Some (r, b, c) \<and> rb_ok b \<and> res_ok r
     \<and> (\<forall>m. r = Inr m \<longrightarrow> (\<exists>f s n. d f s = Parsed m n))"
proof -
  have "rb_ok (cn_read_buf C)" using assms(3) by (simp add: conn_inv_def)
  then obtain out where out: "read_message d sock (cn_read_buf C) (cn_sock C) = Some out"
    "message_read d sock (cn_read_buf C) (cn_sock C) out"
    using read_message_total [OF assms(1,2)] by blast
  then show ?thesis
    using read_message_result [OF out(1)] by (cases out) (fastforce simp: message_read_def)
qed

text \<open>A turn of the reader ends without a panic unless the message it read is one the handler does not admit.\<close>

lemma reader_turn_outcome:
  assumes "conn_ok sock" and "parser_ok d" and C: "conn_inv inv cap C" and run: "reader_turn X Hd d sock tick C = (r, C')"
  shows "conn_inv inv cap C' \<and> (res_ok r \<or> r = Inl Panic \<and> (\<exists>m C1. reader_read d sock C = (Inr m, C1) \<and> \<not> admissible m))"
proof -
  have rd: "safe (conn_inv inv cap) (reader_read d sock)"
    using message_from_parser [OF assms(1,2)] by (fastforce simp: safe_def reader_read_def conn_inv_def)
  obtain r1 C1 where r1: "reader_read d sock C = (r1, C1)" by fastforce
  then have C1: "conn_inv inv cap C1" "res_ok r1" using safeD [OF rd C] by simp_all
  show ?thesis
  proof (cases r1)
    case (Inl e)
    then show ?thesis using run r1 C1 by (auto simp: reader_turn_def sm_bind_def res_ok_def)
  next
    case (Inr m)
    then have d: "reader_dispatch X Hd tick m C1 = (r, C')" using run r1 by (simp add: reader_turn_def sm_bind_def)
    show ?thesis
    proof (cases "(\<exists>eh. m = MsgExtended (ExtHandshake eh)) \<or> admissible m")
      case True
      have "safe (conn_inv inv cap) (on_conn_handler (hd_on_received_message Hd m tick))" if "admissible m"
        using that by (intro on_conn_handler_safe on_received_message_keeps on_received_message_ok)
      with True have "safe (conn_inv inv cap) (reader_dispatch X Hd tick m)"
        unfolding reader_dispatch_def
        by (auto intro!: safe_bind [OF safe_modify] handler_safe simp: conn_inv_def split: message.split extended_message.split)
      from safeD [OF this C1(1)] show ?thesis by (simp add: d)
    next
      case False
      then have h: "reader_dispatch X Hd tick m = on_conn_handler (hd_on_received_message Hd m tick)"
        by (auto simp: reader_dispatch_def split: message.split extended_message.split)
      obtain r2 h2 where r2: "hd_on_received_message Hd m tick (cn_handler C1) = (r2, h2)" by fastforce
      have "inv h2" using keepsD [OF on_received_message_keeps, of "cn_handler C1" m tick] C1(1) r2 by (simp add: conn_inv_def)
      have dh: "on_conn_handler (hd_on_received_message Hd m tick) C1 = (r, C')" using d unfolding h .
      have "conn_inv inv cap C'" using dh r2 C1(1) \<open>inv h2\<close> by (auto simp: on_conn_handler_def conn_inv_def)
      moreover have "r \<noteq> Inl Diverges"
        using on_received_message_ends [of "cn_handler C1" m tick] C1(1) dh r2 by (auto simp: on_conn_handler_def conn_inv_def)
      ultimately show ?thesis using r1 Inr False unfolding res_ok_def by blast
    qed
  qed
qed

lemma turns_outcome:
  assumes "codec_ok X" and "cc_max_msg_len X = cap" and "conn_ok sock" and "parser_ok d"
    and "conn_inv inv cap C" and "sm_fold (conn_turn_step X Hd d sock) turns C = (r, C')"
  shows "conn_inv inv cap C' \<and> (res_ok r \<or> r = Inl Panic \<and> (\<exists>pre tick post C1 m C2. turns = pre @ ReaderTurn tick # post
    \<and> sm_fold (conn_turn_step X Hd d sock) pre C = (Inr (), C1) \<and> reader_read d sock C1 = (Inr m, C2) \<and> \<not> admissible m))"
  using assms(5,6)
proof (induction turns arbitrary: C)
  case Nil
  then show ?case by (auto simp: res_ok_def)
next
  case (Cons t ts)
  obtain r1 C1 where r1: "conn_turn_step X Hd d sock t C = (r1, C1)" by fastforce
  have t: "conn_inv inv cap C1 \<and> (res_ok r1 \<or> r1 = Inl Panic \<and> (\<exists>tick m C2. t = ReaderTurn tick \<and> reader_read d sock C = (Inr m, C2) \<and> \<not> admissible m))"
  proof (cases t)
    case (ReaderTurn tick)
    then show ?thesis using reader_turn_outcome [OF assms(3,4) Cons.prems(1)] r1 by auto
  next
    case (WriterTurn ev w)
    then show ?thesis using safeD [OF writer_turn_safe [OF assms(1,2)] Cons.prems(1), of ev w] r1 by simp
  qed
  show ?case
  proof (cases r1)
    case (Inl e)
    then have "r = r1" "C' = C1" using Cons.prems(2) r1 by simp_all
    then show ?thesis using t by (fastforce intro: exI [of _ "[]"])
  next
    case (Inr u)
    then have rest: "sm_fold (conn_turn_step X Hd d sock) ts C1 = (r, C')" using Cons.prems(2) r1 by simp
    have "\<exists>pre' tick post C2 m C3. t # ts = pre' @ ReaderTurn tick # post
        \<and> sm_fold (conn_turn_step X Hd d sock) pre' C = (Inr (), C2) \<and> reader_read d sock C2 = (Inr m, C3) \<and> \<not> admissible m"
      if "ts = pre @ ReaderTurn tick # post" "sm_fold (conn_turn_step X Hd d sock) pre C1 = (Inr (), C2)"
        "reader_read d sock C2 = (Inr m, C3)" "\<not> admissible m" for pre tick post C2 m C3
      using that r1 Inr by (intro exI [of _ "t # pre"]) auto
    then show ?thesis using Cons.IH [OF conjunct1 [OF t] rest] by blast
  qed
qed

lemma send_extended_handshake_safe:
  assumes "codec_ok X" and "cc_max_msg_len X = cap"
  shows "safe (conn_inv inv cap) (send_extended_handshake X Hd pc ext w)"
  unfolding send_extended_handshake_def using codec_okD(2) [OF assms(1), unfolded assms(2)]
  by (auto intro!: safe_bind conn_safe)

text \<open>The same for a whole connection, with \<open>shake\<close> for its handshake.\<close>

lemma run_outcome:
  assumes "codec_ok X" and "cc_max_msg_len X = cap" and "conn_ok sock" and "parser_ok d"
    and shake: "safe (conn_inv inv cap) shake"
    and run: "\<And>ts. run ts = sm_bind shake (\<lambda>ext. manage_peer X Hd pc d sock ext w ts)"
    and "conn_inv inv cap C" and "run turns C = (r, C')"
  shows "conn_inv inv cap C' \<and> (res_ok r \<or> r = Inl Panic \<and> (\<exists>pre tick post C1 m C2. turns = pre @ ReaderTurn tick # post
    \<and> run pre C = (Inr (), C1) \<and> reader_read d sock C1 = (Inr m, C2) \<and> \<not> admissible m))"
proof -
  obtain r1 C1 where r1: "shake C = (r1, C1)" by fastforce
  then have s1: "conn_inv inv cap C1" "res_ok r1" using safeD [OF shake assms(7)] by simp_all
  show ?thesis
  proof (cases r1)
    case (Inl e)
    then show ?thesis using assms(8) run r1 s1 by (simp add: sm_bind_def res_ok_def) blast
  next
    case (Inr ext)
    obtain r2 C2 where r2: "send_extended_handshake X Hd pc ext w C1 = (r2, C2)" by fastforce
    then have s2: "conn_inv inv cap C2" "res_ok r2"
      using safeD [OF send_extended_handshake_safe [OF assms(1,2)] s1(1)] by (metis fst_conv snd_conv)+
    have runs: "run ts C = (case r2 of Inl e \<Rightarrow> (Inl e, C2) | Inr _ \<Rightarrow> sm_fold (conn_turn_step X Hd d sock) ts C2)" for ts
      using run r1 r2 Inr by (auto simp: sm_bind_def manage_peer_def split: sum.split)
    show ?thesis
    proof (cases r2)
      case (Inl e)
      then show ?thesis using assms(8) runs s2 by auto
    next
      case i2: (Inr u)
      then show ?thesis using turns_outcome [OF assms(1-4) s2(1), of turns r C'] assms(8) runs by simp
    qed
  qed
qed

end

subsection \<open>The handler of a live torrent\<close>

definition live_handler :: "'s live_env \<Rightarrow> 'x codec \<Rightarrow> 's hstate conn_handler" where
  "live_handler E X = \<lparr>
     hd_on_connected = (\<lambda>t hs. on_live (on_connected (fst hs) t) hs),
     hd_should_send_bitfield = (\<lambda>hs. should_send_bitfield E (snd hs)),
     hd_serialize_bitfield = (\<lambda>hs. serialize_bitfield_message_to_buf (\<lambda>m. cc_message X m (cc_default_ids X)) (snd hs)),
     hd_on_handshake = (\<lambda>h kind now hs. on_live (on_handshake (fst hs) (hs_peer_id h) kind now) hs),
     hd_on_extended_handshake = (\<lambda>eh hs. on_live (on_extended_handshake E (fst hs) eh) hs),
     hd_on_received_message = (\<lambda>m (cid, now). on_received_message E m cid now),
     hd_should_transmit_have = (\<lambda>i hs. should_transmit_have E (fst hs) i (snd hs)),
     hd_on_uploaded_bytes = (\<lambda>k hs. on_live (on_uploaded_bytes (fst hs) k) hs),
     hd_read_chunk = (\<lambda>c buf hs. handler_read_chunk E c buf (snd hs)),
     hd_update_my_extended_handshake = (\<lambda>sz hs. update_my_extended_handshake E sz)\<rparr>"

definition live_consistent :: "'s live_env \<Rightarrow> 's live \<Rightarrow> bool" where
  "live_consistent E l \<longleftrightarrow> (\<exists>others H. live_ok E others H l)"

text \<open>\<open>pread_exact\<close> of the storage fills the buffer or fails.\<close>

definition read_fills :: "'s store_ops \<Rightarrow> bool" where
  "read_fills ops \<longleftrightarrow> (\<forall>s f off n b. so_pread_exact ops s f off n = Inr b \<longrightarrow> length b = n)"

definition live_conn_env :: "'s live_env \<Rightarrow> 'x codec \<Rightarrow> bool" where
  "live_conn_env E X \<longleftrightarrow> env_ok E \<and> codec_ok X \<and> read_fills (le_ops E) \<and> length (le_info_bytes E) + le_chunk_size E < 2 ^ 32"

definition live_conn_inv :: "'s live_env \<Rightarrow> 'x codec \<Rightarrow> 's hstate \<Rightarrow> bool" where
  "live_conn_inv E X hs \<longleftrightarrow> live_conn_env E X \<and> live_consistent E (snd hs)"

text \<open>The messages the handler can answer: a metadata request lies within the metadata.\<close>

definition live_admissible :: "'s live_env \<Rightarrow> message \<Rightarrow> bool" where
  "live_admissible E m \<longleftrightarrow> (case m of MsgExtended (UtMetadataRequest i) \<Rightarrow> i * le_chunk_size E \<le> length (le_info_bytes E) | _ \<Rightarrow> True)"

lemma read_chunk_loop_length:
  "read_fills ops \<Longrightarrow> read_chunk_loop ops s fs off n = Inr b \<Longrightarrow> length b \<le> n"
proof (induction fs arbitrary: off n b)
  case (Cons x fs)
  obtain i fi where x: "x = (i, fi)" by (cases x)
  show ?case
  proof (cases "fi_len fi < off")
    case True
    then show ?thesis using Cons x by auto
  next
    case False
    let ?k = "min (fi_len fi - off) n"
    obtain b1 where b1: "(if padding fi then Inr (replicate ?k 0) else so_pread_exact ops s i off ?k) = Inr b1"
      and rest: "if n - ?k = 0 then b = b1 else \<exists>b2. read_chunk_loop ops s fs 0 (n - ?k) = Inr b2 \<and> b = b1 @ b2"
      using Cons.prems(2) False x by (auto simp: Let_def res_bind_def split: sum.splits if_splits)
    have "length b1 = ?k" using b1 Cons.prems(1) by (auto simp: read_fills_def split: if_splits)
    then show ?thesis using rest Cons.IH [OF Cons.prems(1), of 0 "n - ?k"] by (auto split: if_splits)
  qed
qed simp

lemma read_chunk_loop_ok: "store_safe ops \<Longrightarrow> res_ok (read_chunk_loop ops s fs off n)"
proof (induction fs arbitrary: off n)
  case (Cons x fs)
  obtain i fi where x: "x = (i, fi)" by (cases x)
  have "res_ok (so_pread_exact ops s i off k)" for k using Cons.prems by (simp add: store_safe_def)
  then show ?case
    using x Cons.IH [OF Cons.prems] by (fastforce simp: Let_def res_bind_def res_ok_def split: sum.split)
qed simp

lemma handler_read_chunk_ok:
  assumes "live_conn_env E X"
  shows "res_ok (handler_read_chunk E c buf s)"
    and "handler_read_chunk E c buf s = Inr data \<Longrightarrow> length data = length buf \<and> ci_size c \<le> length buf"
proof -
  have E: "store_safe (le_ops E)" "read_fills (le_ops E)" using assms by (simp_all add: live_conn_env_def env_ok_def)
  show "res_ok (handler_read_chunk E c buf s)"
    using read_chunk_loop_ok [OF E(1)] by (auto simp: handler_read_chunk_def read_chunk_def res_bind_def res_ok_def split: sum.split)
  show "length data = length buf \<and> ci_size c \<le> length buf" if "handler_read_chunk E c buf s = Inr data"
    using that read_chunk_loop_length [OF E(2)]
    by (auto simp: handler_read_chunk_def read_chunk_def res_bind_def split: sum.splits if_splits)
qed

lemma live_callbacks_safe:
  "safe (live_ok E others H) (on_connected h t)"
  "safe (live_ok E others H) (on_handshake h pid kind now)"
  "safe (live_ok E others H) (on_uploaded_bytes h k)"
  "safe (live_ok E others H) (on_extended_handshake E h eh)"
proof -
  show "safe (live_ok E others H) (on_connected h t)"
    unfolding on_connected_def by (intro safe_intros)
  show "safe (live_ok E others H) (on_handshake h pid kind now)"
    unfolding on_handshake_def set_peer_live_def by (intro safe_intros)
  show "safe (live_ok E others H) (on_uploaded_bytes h k)"
    unfolding on_uploaded_bytes_def by (intro safe_intros) simp
  have "safe (live_ok E others H) (on_peers (with_peer_mut a (set_outgoing_address b)))" for a b
    by (rule on_peers_safe) (rule set_outgoing_tr.with_peer_mut_inv)
  then show "safe (live_ok E others H) (on_extended_handshake E h eh)"
    unfolding on_extended_handshake_def Let_def by (auto intro!: safe_intros split: option.split)
qed

text \<open>A callback that is safe for the torrent, as a callback of the connection.\<close>

lemma on_live_conn:
  assumes "\<And>others H h. safe (live_ok E others H) (m h)"
  shows "keeps (live_conn_inv E X) (\<lambda>hs. on_live (m (fst hs)) hs)"
    and "live_conn_inv E X hs \<Longrightarrow> res_ok (fst (on_live (m (fst hs)) hs))"
  using assms by (fastforce simp: keeps_def live_conn_inv_def live_consistent_def on_live_def split_beta dest: safeD)+

lemmas live_callbacks_conn =
  on_live_conn [of E "\<lambda>h. on_connected h t" for E t, OF live_callbacks_safe(1)]
  on_live_conn [of E "\<lambda>h. on_handshake h pid kind now" for E pid kind now, OF live_callbacks_safe(2)]
  on_live_conn [of E "\<lambda>h. on_uploaded_bytes h k" for E k, OF live_callbacks_safe(3)]
  on_live_conn [of E "\<lambda>h. on_extended_handshake E h eh" for E eh, OF live_callbacks_safe(4)]

lemma metadata_request_keeps:
  "live_ok E others H (snd hs) \<Longrightarrow> live_ok E others H (snd (snd (on_received_message E (MsgExtended (UtMetadataRequest i)) cid now hs)))"
proof -
  assume hs: "live_ok E others H (snd hs)"
  have "keeps (live_ok E others H) (send_metadata_piece E h i)" for h
    unfolding send_metadata_piece_def Let_def
    by (simp add: keeps_def send_all_def sm_modify_def sm_res_def)
  then have "keeps (hok E others H) (dispatch_message E (MsgExtended (UtMetadataRequest i)) cid now)"
    by (auto simp: dispatch_message_def keeps_def hok_def on_live_def sm_ret_def split_beta)
  moreover have "keeps (hok E others H) (note_first_message m)" for m
    using note_first_message_safe [of E others H m] by (simp add: safe_def keeps_def)
  ultimately have "keeps (hok E others H) (on_received_message E (MsgExtended (UtMetadataRequest i)) cid now)"
    unfolding on_received_message_def by (intro keeps_bind)
  from keepsD [OF this, of hs] hs show ?thesis by (simp add: hok_def)
qed

lemma on_received_message_conn:
  assumes "live_conn_inv E X hs"
  shows "live_conn_inv E X (snd (on_received_message E m cid now hs))"
    and "live_admissible E m \<Longrightarrow> res_ok (fst (on_received_message E m cid now hs))"
    and "fst (on_received_message E m cid now hs) \<noteq> Inl Diverges"
proof -
  obtain others H where ok: "live_ok E others H (snd hs)" and E: "env_ok E" "length (le_info_bytes E) + le_chunk_size E < 2 ^ 32"
    using assms by (auto simp: live_conn_inv_def live_consistent_def live_conn_env_def)
  have adm: "res_ok (fst (on_received_message E m cid now hs)) \<and> (\<exists>H'. live_ok E others H' (snd (snd (on_received_message E m cid now hs))))"
    if "live_admissible E m"
  proof -
    have "i * le_chunk_size E \<le> length (le_info_bytes E)" if "m = MsgExtended (UtMetadataRequest i)" for i
      using \<open>live_admissible E m\<close> that by (simp add: live_admissible_def)
    from on_received_message_outcome [OF E(1) ok this E(2), of m cid now] show ?thesis by blast
  qed
  show "live_admissible E m \<Longrightarrow> res_ok (fst (on_received_message E m cid now hs))" using adm by simp
  have "fst (send_metadata_piece E h i s) \<noteq> Inl Diverges" for h i and s :: "'a live"
    by (simp add: send_metadata_piece_def Let_def sm_res_def send_all_def sm_modify_def)
  then have "fst (on_received_message E (MsgExtended (UtMetadataRequest i)) cid now hs) \<noteq> Inl Diverges" for i
    using note_first_message_Inr [of "MsgExtended (UtMetadataRequest i)" hs]
    by (simp add: on_received_message_def sm_bind_def dispatch_message_def on_live_def sm_ret_def split_beta)
  then show "fst (on_received_message E m cid now hs) \<noteq> Inl Diverges"
    using adm by (cases "live_admissible E m") (auto simp: live_admissible_def res_ok_def split: message.splits extended_message.splits)
  have "\<exists>H'. live_ok E others H' (snd (snd (on_received_message E m cid now hs)))"
  proof (cases "live_admissible E m")
    case False
    then obtain i where m: "m = MsgExtended (UtMetadataRequest i)"
      by (auto simp: live_admissible_def split: message.splits extended_message.splits)
    from metadata_request_keeps [OF ok] show ?thesis unfolding m by blast
  qed (use adm in blast)
  then show "live_conn_inv E X (snd (on_received_message E m cid now hs))"
    using assms by (auto simp: live_conn_inv_def live_consistent_def)
qed

lemma serialize_bitfield_fit:
  assumes "live_conn_env E X"
    and "serialize_bitfield_message_to_buf (\<lambda>m. cc_message X m (cc_default_ids X)) s = Inr bs"
  shows "length bs \<le> cc_max_msg_len X"
proof -
  obtain m where "cc_message X m (cc_default_ids X) = Some bs"
    using assms(2) by (auto simp: serialize_bitfield_message_to_buf_def res_bind_def ok_or_def split: sum.splits option.splits)
  with codec_okD(3) assms(1) show ?thesis by (auto simp: live_conn_env_def)
qed

interpretation live_conn: safe_connection_handler "live_conn_inv E X" "live_handler E X" "cc_max_msg_len X" "live_admissible E" for E X
proof unfold_locales
  fix h k elapsed hs kind now eh m and tick :: tick and c buf data
  show "keeps (live_conn_inv E X) (hd_on_connected (live_handler E X) elapsed)"
    "keeps (live_conn_inv E X) (hd_on_handshake (live_handler E X) hs kind now)"
    "keeps (live_conn_inv E X) (hd_on_extended_handshake (live_handler E X) eh)"
    "keeps (live_conn_inv E X) (hd_on_uploaded_bytes (live_handler E X) k)"
    by (simp_all add: live_handler_def live_callbacks_conn)
  show "keeps (live_conn_inv E X) (hd_on_received_message (live_handler E X) m tick)"
    by (cases tick) (simp add: live_handler_def keeps_def on_received_message_conn)
  assume h: "live_conn_inv E X h"
  then have env: "live_conn_env E X" by (simp add: live_conn_inv_def)
  show "res_ok (fst (hd_on_connected (live_handler E X) elapsed h))"
    "res_ok (fst (hd_on_handshake (live_handler E X) hs kind now h))"
    "res_ok (fst (hd_on_extended_handshake (live_handler E X) eh h))"
    "res_ok (fst (hd_on_uploaded_bytes (live_handler E X) k h))"
    using h by (simp_all add: live_handler_def live_callbacks_conn)
  show "res_ok (fst (hd_on_received_message (live_handler E X) m tick h))" if "live_admissible E m"
    using on_received_message_conn(2) [OF h that] by (cases tick) (simp add: live_handler_def)
  show "fst (hd_on_received_message (live_handler E X) m tick h) \<noteq> Inl Diverges"
    using on_received_message_conn(3) [OF h] by (cases tick) (simp add: live_handler_def)
  show "res_ok (hd_serialize_bitfield (live_handler E X) h)"
    using get_chunks_ok(1) [of "snd h"]
    by (auto simp: live_handler_def serialize_bitfield_message_to_buf_def res_bind_def ok_or_def res_ok_def split: sum.split option.split)
  show "length data \<le> cc_max_msg_len X" if "hd_serialize_bitfield (live_handler E X) h = Inr data"
    using serialize_bitfield_fit [OF env] that by (simp add: live_handler_def)
  show "res_ok (hd_read_chunk (live_handler E X) c buf h)"
    using handler_read_chunk_ok(1) [OF env] by (simp add: live_handler_def)
  show "length data = length buf \<and> ci_size c \<le> length buf" if "hd_read_chunk (live_handler E X) c buf h = Inr data"
    using handler_read_chunk_ok(2) [OF env] that by (simp add: live_handler_def)
qed

subsection \<open>The metadata reader as a handler\<close>

text \<open>\<open>tx_open\<close> and \<open>rx_open\<close>: whether the channels to the writer and to the receiver of the result are open.\<close>

definition metadata_handler :: "metadata_env \<Rightarrow> (byte list \<Rightarrow> 'i option) \<Rightarrow> bool \<Rightarrow> bool \<Rightarrow> 'i meta_handler conn_handler" where
  "metadata_handler E parse_info tx_open rx_open = \<lparr>
     hd_on_connected = (\<lambda>_. sm_ret ()),
     hd_should_send_bitfield = (\<lambda>_. meta_should_send_bitfield),
     hd_serialize_bitfield = (\<lambda>_. Inr []),
     hd_on_handshake = (\<lambda>h kind now. meta_on_handshake (hs_extended h)),
     hd_on_extended_handshake = meta_on_extended_handshake E tx_open,
     hd_on_received_message = (\<lambda>m tick. meta_on_received_message E parse_info rx_open m),
     hd_should_transmit_have = (\<lambda>i s. meta_should_transmit_have),
     hd_on_uploaded_bytes = (\<lambda>k. sm_ret ()),
     hd_read_chunk = (\<lambda>c buf s. Inl (Bail ''the peer is not supposed to be requesting chunks'')),
     hd_update_my_extended_handshake = (\<lambda>sz s. sz)\<rparr>"

definition meta_result_ok :: "metadata_env \<Rightarrow> (byte list \<Rightarrow> 'i option) \<Rightarrow> 'i meta_handler \<Rightarrow> bool" where
  "meta_result_ok E parse_info s \<longleftrightarrow>
     (\<forall>info buf. mh_result s = Some (MetaInfo info buf) \<longrightarrow> me_sha1 E buf = me_info_hash E \<and> parse_info buf = Some info)"

lemma record_piece_hash: "record_piece E d st = (Inr True, st') \<Longrightarrow> me_sha1 E (hl_buffer st') = me_info_hash E"
  by (auto simp: record_piece_def Let_def split: prod.splits sum.splits if_splits bool.splits)

lemma meta_on_received_message_result:
  assumes "meta_result_ok E parse_info s"
  shows "meta_result_ok E parse_info (snd (meta_on_received_message E parse_info rx_open m s))"
  using assms
  by (auto simp: meta_on_received_message_def meta_result_ok_def send_result_def Let_def record_piece_hash
      split: message.split extended_message.split option.split prod.split sum.split bool.split)

interpretation meta_conn: connection_handler "meta_result_ok E parse_info" "metadata_handler E parse_info tx_open rx_open"
  for E parse_info tx_open rx_open
proof unfold_locales
  fix h k elapsed kind now eh m and tick :: tick
  show "keeps (meta_result_ok E parse_info) (hd_on_extended_handshake (metadata_handler E parse_info tx_open rx_open) eh)"
    by (auto simp: metadata_handler_def keeps_def meta_on_extended_handshake_def meta_result_ok_def Let_def split: option.split sum.split)
  show "keeps (meta_result_ok E parse_info) (hd_on_received_message (metadata_handler E parse_info tx_open rx_open) m tick)"
    by (simp add: metadata_handler_def keeps_def meta_on_received_message_result)
  show "keeps (meta_result_ok E parse_info) (hd_on_connected (metadata_handler E parse_info tx_open rx_open) elapsed)"
    "keeps (meta_result_ok E parse_info) (hd_on_handshake (metadata_handler E parse_info tx_open rx_open) h kind now)"
    "keeps (meta_result_ok E parse_info) (hd_on_uploaded_bytes (metadata_handler E parse_info tx_open rx_open) k)"
    by (simp_all add: metadata_handler_def meta_on_handshake_def keeps_basic)
qed

text \<open>\<open>read_metainfo_from_peer\<close>: connect, shake hands, and run the connection.\<close>

definition run_outgoing ::
  "'x codec \<Rightarrow> 'h conn_handler \<Rightarrow> peer_connection \<Rightarrow> handshake parser \<Rightarrow> message parser \<Rightarrow> 'c reader
   \<Rightarrow> (connection_kind \<times> nat) res \<Rightarrow> io_write \<Rightarrow> nat \<Rightarrow> io_write \<Rightarrow> conn_turn list \<Rightarrow> ('h, 'x, 'c, unit) cm" where
  "run_outgoing X Hd pc dh d sock connected w now w2 turns =
     sm_bind (manage_peer_outgoing X Hd pc dh sock connected w now) (\<lambda>ext. manage_peer X Hd pc d sock ext w2 turns)"

definition run_incoming ::
  "'x codec \<Rightarrow> 'h conn_handler \<Rightarrow> peer_connection \<Rightarrow> handshake \<Rightarrow> connection_kind \<Rightarrow> message parser \<Rightarrow> 'c reader
   \<Rightarrow> io_write \<Rightarrow> nat \<Rightarrow> io_write \<Rightarrow> conn_turn list \<Rightarrow> ('h, 'x, 'c, unit) cm" where
  "run_incoming X Hd pc incoming kind d sock w now w2 turns =
     sm_bind (manage_peer_incoming X Hd pc incoming kind w now) (\<lambda>ext. manage_peer X Hd pc d sock ext w2 turns)"

subsection \<open>Properties\<close>

lemma conn_new_inv: "P h \<Longrightarrow> rb_ok b \<Longrightarrow> conn_inv P (cc_max_msg_len X) (conn_new X h b c)"
  by (simp add: conn_inv_def conn_new_def)


lemma metadata_run_verified:
  assumes "mh_result h = None"
    and "run_outgoing X (metadata_handler E parse_info tx_open rx_open) pc dh d sock connected w now w2 turns (conn_new X h b c) = (r, C)"
    and "mh_result (cn_handler C) = Some (MetaInfo info buf)"
  shows "me_sha1 E buf = me_info_hash E \<and> parse_info buf = Some info"
proof -
  have "keeps (\<lambda>C. meta_result_ok E parse_info (cn_handler C))
      (run_outgoing X (metadata_handler E parse_info tx_open rx_open) pc dh d sock connected w now w2 turns)"
    unfolding run_outgoing_def by (intro keeps_bind meta_conn.outgoing_keeps meta_conn.manage_peer_keeps)
  from keepsD [OF this, of "conn_new X h b c"] show ?thesis
    using assms by (simp add: meta_result_ok_def conn_new_def)
qed

text \<open>A peer cannot plant metadata: whatever it sends over a connection of the metadata reader, the result handed to
  the caller, if there is one with a parsed info dictionary, is the parse of bytes whose SHA-1 is the info hash asked for.\<close>

theorem metadata_connection_verified:
  assumes "mh_result h = None"
    and "run_outgoing X (metadata_handler E parse_info tx_open rx_open) pc dh d sock connected w now w2 turns (conn_new X h b c) = (r, C)"
    and "mh_result (cn_handler C) = Some (MetaInfo info buf)"
  shows "me_sha1 E buf = me_info_hash E \<and> parse_info buf = Some info"
  using assms by (rule metadata_run_verified)

text \<open>Uploading a block: what the handler reads into the buffer behind the preamble.\<close>

lemma upload_turn:
  assumes "cn_phase C = WriterLoop" and "length pre \<le> length (cn_write_buf C)" and "pre = cc_piece_preamble X c"
    and "hd_read_chunk Hd c (drop (length pre) (cn_write_buf C)) (cn_handler C) = rd"
  shows "case rd of
      Inl e \<Rightarrow> fst (writer_turn X Hd (Outgoing (WrReadChunkRequest c)) WriteOk C) = Inl (if e = Panic \<or> e = Diverges then e else ReadChunkErr)
    | Inr data \<Rightarrow> length data = length (cn_write_buf C) - length pre \<longrightarrow> ci_size c \<le> length data \<longrightarrow>
        (\<exists>C'. writer_turn X Hd (Outgoing (WrReadChunkRequest c)) WriteOk C = on_conn_handler (hd_on_uploaded_bytes Hd (of_nat (ci_size c))) C'
          \<and> cn_handler C' = cn_handler C \<and> cn_written C' = cn_written C @ pre @ take (ci_size c) data)"
  using assms
  by (auto simp: writer_turn_def writer_loop_def writer_select_def writer_send_def writer_serialize_def serialize_chunk_def
      serialize_to_def write_all_def sm_bind_def sm_ret_def Let_def split: sum.split)


text \<open>The storage is asked to fill the whole rest of the write buffer, not just the block. So when the block lies at the end
  of one file and the next file cannot be read there (it is not selected and was never written, say), the upload fails
  and the peer is dropped, although every byte of the block is there.\<close>

theorem upload_reads_past_block:
  assumes files: "le_file_infos E = fa # fb # rest" "\<not> padding fa" "\<not> padding fb" "0 < fi_len fb"
    and c: "chunk_absolute_offset (le_lengths E) c + ci_size c \<le> fi_len fa"
    and a: "\<And>off n. off + n \<le> fi_len fa \<Longrightarrow> \<exists>d. so_pread_exact (le_ops E) (lv_files l) 0 off n = Inr d"
    and b: "\<And>n. 0 < n \<Longrightarrow> so_pread_exact (le_ops E) (lv_files l) 1 0 n = Inl (Bail msg)"
    and C: "cn_phase C = WriterLoop" "cn_handler C = (h, l)"
    and buf: "length (cc_piece_preamble X c) + (fi_len fa - chunk_absolute_offset (le_lengths E) c) < length (cn_write_buf C)"
  shows "fst (writer_turn X (live_handler E X) (Outgoing (WrReadChunkRequest c)) WriteOk C) = Inl ReadChunkErr"
proof -
  let ?off = "chunk_absolute_offset (le_lengths E) c" and ?pre = "cc_piece_preamble X c"
  let ?n = "length (cn_write_buf C) - length ?pre" and ?k = "fi_len fa - chunk_absolute_offset (le_lengths E) c"
  obtain fs where e: "enum (le_file_infos E) = (0, fa) # (1, fb) # fs"
    by (simp add: files(1) enum_def upt_rec)
  have k: "min ?k ?n = ?k" "\<not> fi_len fa < ?off" "0 < ?n - ?k" "0 < min (fi_len fb) (?n - ?k)" using buf c files(4) by auto
  obtain d where "so_pread_exact (le_ops E) (lv_files l) 0 ?off ?k = Inr d" using a [of ?off ?k] k(2) by auto
  then have "read_chunk_loop (le_ops E) (lv_files l) (enum (le_file_infos E)) ?off ?n = Inl (Bail msg)"
    using k b [OF k(4)] files(2,3) by (simp add: e Let_def)
  moreover have "\<not> ?n < ci_size c" using buf c by linarith
  ultimately have "hd_read_chunk (live_handler E X) c (drop (length ?pre) (cn_write_buf C)) (cn_handler C) = Inl (Bail msg)"
    using C(2) by (simp add: live_handler_def handler_read_chunk_def read_chunk_def)
  then show ?thesis
    using upload_turn [OF C(1) _ refl, of X c "live_handler E X"] buf by fastforce
qed

subsection \<open>A concrete connection\<close>

text \<open>
  A codec with messages of one byte, a socket that holds its bytes in a list, and a peer that says it has the piece of each
  byte it sends.
\<close>

definition ex_codec :: "unit codec" where
  "ex_codec = \<lparr>cc_max_msg_len = 16, cc_handshake_new = (\<lambda>ih pid. \<lparr>hs_info_hash = ih, hs_peer_id = pid, hs_extended = True\<rparr>),
     cc_handshake_bytes = (\<lambda>h. [1]), cc_my_extended = (\<lambda>ip sz. Some [2]), cc_message = (\<lambda>m ids. Some [3]),
     cc_ut_metadata = (\<lambda>i sz d ids. Some [4]), cc_piece_preamble = (\<lambda>c. [5]), cc_peer_ids = (\<lambda>h. ()), cc_default_ids = ()\<rparr>"

definition ex_have_parser :: "message parser" where
  "ex_have_parser f s = (case f @ s of [] \<Rightarrow> NotEnoughData 1 | x # _ \<Rightarrow> Parsed (MsgHave (unat x)) 1)"

definition ex_handshake_parser :: "handshake parser" where
  "ex_handshake_parser f s = (if f @ s = [] then NotEnoughData 1 else Parsed \<lparr>hs_info_hash = 1, hs_peer_id = 3, hs_extended = True\<rparr> 1)"

definition ex_pc :: peer_connection where
  "ex_pc = \<lparr>pc_addr = ex_addr 1, pc_info_hash = 1, pc_peer_id = 2\<rparr>"

lemma ex_codec_ok: "codec_ok ex_codec"
  by (simp add: codec_ok_def ex_codec_def)

lemma ex_conn_parsers:
  "parser_ok ex_have_parser" "parser_ok ex_handshake_parser"
  by (auto simp: parser_ok_def ex_have_parser_def ex_handshake_parser_def Suc_le_eq
      split: list.splits if_splits dest: arg_cong [of _ _ length])

lemma ex_conn_env: "live_conn_env ex_env ex_codec"
proof -
  have "read_fills (fs_ops mem_os)"
    by (auto simp: read_fills_def fs_ops_def fs_pread_exact_def fs_on_file_def fs_get_def of_lock_read_def file_pread_exact_def
        mem_os_def res_bind_def ok_or_def split: sum.splits option.splits if_splits)
  then show ?thesis using ex_env_ok ex_codec_ok by (simp add: live_conn_env_def ex_env_def)
qed

lemma ex_never_beyond: "reader_read ex_have_parser sock C \<noteq> (Inr (MsgExtended (UtMetadataRequest i)), C2)"
proof
  assume "reader_read ex_have_parser sock C = (Inr (MsgExtended (UtMetadataRequest i)), C2)"
  then obtain b c where "read_message ex_have_parser sock (cn_read_buf C) (cn_sock C) = Some (Inr (MsgExtended (UtMetadataRequest i)), b, c)"
    by (auto simp: reader_read_def split: option.splits)
  from read_message_result [OF this] obtain f s n where "ex_have_parser f s = Parsed (MsgExtended (UtMetadataRequest i)) n" by auto
  then show False by (cases "f @ s") (simp_all add: ex_have_parser_def)
qed

abbreviation ex_outgoing :: "conn_turn list \<Rightarrow> (byte list fs_storage hstate, unit, byte list, unit) cm" where
  "ex_outgoing \<equiv> run_outgoing ex_codec (live_handler ex_env ex_codec) ex_pc ex_handshake_parser ex_have_parser ex_conn (Inr (Tcp, 5)) WriteOk 7 WriteOk"

definition ex_turns :: "conn_turn list" where
  "ex_turns = [ReaderTurn (3, 9), WriterTurn KeepAliveTimeout WriteOk, ReaderTurn (4, 10)]"


text \<open>A peer that sends the last piece of the metadata, again and again.\<close>

definition ex_meta_parser :: "message parser" where
  "ex_meta_parser f s = Parsed (MsgExtended (UtMetadataData 2 [5])) 0"

definition ex_meta_run :: "(byte list meta_handler, unit, byte list, unit) cm" where
  "ex_meta_run = run_outgoing ex_codec (metadata_handler ex_menv Some True True) ex_pc ex_handshake_parser ex_meta_parser
     (\<lambda>c r. (IoBytes [0], c)) (Inr (Tcp, 5)) WriteOk 7 WriteOk [ReaderTurn (3, 9)]"

lemma ex_meta_handshake:
  "\<exists>b. read_handshake ex_handshake_parser (\<lambda>c r. (IoBytes [0], c)) read_buf_new c
    = (Inr \<lparr>hs_info_hash = 1, hs_peer_id = 3, hs_extended = True\<rparr>, b, c)"
  by (simp add: read_handshake_def ex_handshake_parser_def read_buf_new_def put_range_def BUFLEN_def Let_def)

lemma ex_meta_message:
  "mh_result (snd (meta_on_received_message ex_menv Some True (MsgExtended (UtMetadataData 2 [5])) ex_meta_handler))
    = Some (MetaInfo [1, 2, 3, 4, 5] [1, 2, 3, 4, 5])"
  by code_simp

lemma ex_meta_result:
  "mh_result (cn_handler (snd (ex_meta_run (conn_new ex_codec ex_meta_handler read_buf_new []))))
    = Some (MetaInfo [1, 2, 3, 4, 5] [1, 2, 3, 4, 5])"
proof -
  obtain b where b: "read_handshake ex_handshake_parser (\<lambda>c r. (IoBytes [0], c)) read_buf_new ([] :: byte list)
    = (Inr \<lparr>hs_info_hash = 1, hs_peer_id = 3, hs_extended = True\<rparr>, b, [])"
    using ex_meta_handshake [of "[]"] by (elim exE)
  have rm: "read_message ex_meta_parser conn b c = Some (Inr (MsgExtended (UtMetadataData 2 [5])), rb_advance 0 b, c)" for conn b c
    by (subst read_message.simps) (simp add: ex_meta_parser_def)
  note defs = ex_meta_run_def run_outgoing_def manage_peer_outgoing_def manage_peer_def send_extended_handshake_def conn_new_def
    serialize_to_def write_all_def on_conn_handler_def reader_turn_def reader_read_def reader_dispatch_def
    sm_bind_def sm_ret_def sm_res_def sm_gets_def metadata_handler_def meta_on_handshake_def ex_codec_def ex_pc_def
  show ?thesis
    using ex_meta_message
    by (cases "meta_on_received_message ex_menv Some True (MsgExtended (UtMetadataData 2 [5])) ex_meta_handler")
      (simp add: defs b rm Let_def split: sum.split)
qed

theorem metadata_connection_verified_witness:
  "me_sha1 ex_menv [1, 2, 3, 4, 5] = me_info_hash ex_menv \<and> Some [1, 2, 3, 4, 5 :: byte] = Some [1, 2, 3, 4, 5]"
proof -
  obtain r C where run: "ex_meta_run (conn_new ex_codec ex_meta_handler read_buf_new []) = (r, C)" by fastforce
  then have "mh_result (cn_handler C) = Some (MetaInfo [1, 2, 3, 4, 5] [1, 2, 3, 4, 5])" using ex_meta_result by simp
  with metadata_connection_verified [OF _ run [unfolded ex_meta_run_def]] show ?thesis by (simp add: ex_meta_handler_def)
qed

text \<open>The last block of file \<open>a\<close>, across the padding file and \<open>b\<close>, and a peer that asks for it.\<close>

definition ex_upload_env :: "byte list fs_storage live_env" where
  "ex_upload_env = ex_env\<lparr>le_file_infos := ex_fo_files\<rparr>"

definition ex_upload_conn :: "byte list fs_storage \<Rightarrow> (byte list fs_storage hstate, unit, byte list) conn" where
  "ex_upload_conn fs = (conn_new ex_codec (ex_handler, ex_ls\<lparr>lv_files := fs\<rparr>) read_buf_new [])\<lparr>cn_phase := WriterLoop\<rparr>"


definition ex_partial_fs :: "byte list fs_storage" where
  "ex_partial_fs = \<lparr>output_folder = [], opened_files = [opened_file_new ''a'' [1, 2, 3, 4, 5, 6], opened_file_new ''b'' []]\<rparr>"

theorem upload_reads_past_block_witness:
  "fst (writer_turn ex_codec (live_handler ex_env ex_codec) (Outgoing (WrReadChunkRequest (ex_chunk 0 0))) WriteOk
     (ex_upload_conn ex_partial_fs)) = Inl ReadChunkErr"
proof -
  have rd: "so_pread_exact (le_ops ex_env) ex_partial_fs i off n =
      (if n = 0 \<or> off + n \<le> (if i = 0 then 6 else 0) then Inr (take n (drop off (if i = 0 then [1, 2, 3, 4, 5, 6] else [])))
       else Inl (Bail ''failed to fill whole buffer''))" if "i < 2" for i off n
    using that
    by (auto simp: ex_env_def ex_partial_fs_def fs_ops_def fs_pread_exact_def fs_on_file_def fs_get_def of_lock_read_def file_pread_exact_def
        mem_os_def opened_file_new_def res_bind_def ok_or_def less_2_cases_iff vec_get_def)
  show ?thesis
    by (rule upload_reads_past_block [of ex_env "ex_files ! 0" "ex_files ! 1" "[]" _ "ex_ls\<lparr>lv_files := ex_partial_fs\<rparr>"
          "''failed to fill whole buffer''" _ ex_handler])
      (auto simp: rd, auto simp: ex_env_def ex_files_def ex_upload_conn_def conn_new_def ex_codec_def ex_lengths_def ex_chunk_def)
qed

end
