(* ===== verification/Torrent_State.thy ===== *)
theory Torrent_State
  imports Initializing Peer_Connection
begin

text \<open>
  \<open>src/src/torrent_state/mod.rs\<close>: a managed torrent, that is the state machine around the initializing,
  paused and live states, its lock, its cancellation tokens and the tasks it spawns. The initializing state is
  shared between the state machine and the tasks that check it (an \<open>Arc\<close>), so those live in a table and are
  referred to by number. A token is a generation of the torrent's own token and a number; cancelling a
  generation cancels all its children. Every operation runs under the write lock and is one step; what a
  spawned task does when it gets the lock again is a step of its own.
\<close>

type_synonym token = "nat \<times> nat"

datatype 's managed_state = MInitializing nat | MPaused "'s paused" | MLive token "'s live" | MError error | MNone

definition managed_state_name :: "'s managed_state \<Rightarrow> string" where
  "managed_state_name st = (case st of MInitializing _ \<Rightarrow> ''initializing'' | MPaused _ \<Rightarrow> ''paused'' | MLive _ _ \<Rightarrow> ''live''
     | MError _ \<Rightarrow> ''error'' | MNone \<Rightarrow> ''<invalid: none>'')"

text \<open>The task spawned by \<open>start\<close> for an initializing torrent.\<close>

record init_task =
  ta_init :: nat
  ta_start_paused :: bool
  ta_peer_rx :: bool
  ta_token :: token

record ('s, 'f) managed =
  mt_paused :: bool
  mt_state :: "'s managed_state"
  mt_only_files :: "nat list option"
  mt_metadata :: bool
  mt_inits :: "nat \<Rightarrow> ('s, 'f) initializing"
  mt_next_init :: nat
  mt_tasks :: "init_task list"
  mt_generation :: nat
  mt_next_child :: nat
  mt_dead_generations :: "nat set"
  mt_dead_tokens :: "token set"
  mt_fatal_receivers :: "token list"
  mt_peer_adders :: "token list"
  mt_notified :: nat

record ('s, 'f) managed_env =
  me_init :: "('s, 'f) init_env"
  me_path_le :: "string \<Rightarrow> string \<Rightarrow> bool"
  me_peer_limit :: "nat option"

text \<open>What a call finds outside the torrent: the session's counters, the storage factory's result, the bit field store.\<close>

record ('s, 'f) surroundings =
  su_session_alive :: bool
  su_session_stats :: agg_stats
  su_fetched :: u64
  su_uploaded :: u64
  su_storage :: "'s res"
  su_factory :: 'f

type_synonym ('s, 'f, 'a) mm = "(('s, 'f) managed, 'a) sm"

subsection \<open>Tokens\<close>

definition token_cancelled :: "token \<Rightarrow> ('s, 'f) managed \<Rightarrow> bool" where
  "token_cancelled t m \<longleftrightarrow> fst t \<in> mt_dead_generations m \<or> t \<in> mt_dead_tokens m"

definition child_token :: "('s, 'f) managed \<Rightarrow> token \<times> ('s, 'f) managed" where
  "child_token m = ((mt_generation m, mt_next_child m), m\<lparr>mt_next_child := mt_next_child m + 1\<rparr>)"

definition cancel_token :: "('s, 'f) managed \<Rightarrow> ('s, 'f) managed" where
  "cancel_token m = m\<lparr>mt_dead_generations := insert (mt_generation m) (mt_dead_generations m)\<rparr>"

definition cancel_and_reset_token :: "bool \<Rightarrow> ('s, 'f) managed \<Rightarrow> ('s, 'f) managed" where
  "cancel_and_reset_token session_alive m =
     (let m1 = cancel_token m in if session_alive then m1\<lparr>mt_generation := mt_generation m1 + 1\<rparr> else m1)"

definition notify_waiters :: "('s, 'f) managed \<Rightarrow> ('s, 'f) managed" where
  "notify_waiters m = m\<lparr>mt_notified := mt_notified m + 1\<rparr>"

definition set_mstate :: "'s managed_state \<Rightarrow> ('s, 'f) managed \<Rightarrow> ('s, 'f) managed" where
  "set_mstate st m = notify_waiters (m\<lparr>mt_state := st\<rparr>)"

subsection \<open>Starting\<close>

text \<open>\<open>TorrentStateLive::new\<close>; it fails only when the session is gone.\<close>

definition torrent_live_new :: "('s, 'f) managed_env \<Rightarrow> ('s, 'f) surroundings \<Rightarrow> bool \<Rightarrow> 's paused \<Rightarrow> 's live res" where
  "torrent_live_new M u session_alive p =
     (if \<not> session_alive then Inl (Bail ''session is dead, cannot start torrent'')
      else Inr (live_state_new (me_path_le M) (su_session_stats u) (me_peer_limit M) (le_file_infos (ie_live (me_init M)))
        (pa_chunk_tracker p) (pa_files p) (pa_streams p) (su_fetched u) (su_uploaded u)))"

definition spawn_initialize_and_start :: "nat \<Rightarrow> bool \<Rightarrow> bool \<Rightarrow> token \<Rightarrow> ('s, 'f) managed \<Rightarrow> ('s, 'f) managed" where
  "spawn_initialize_and_start a peer_rx start_paused t m =
     m\<lparr>mt_tasks := mt_tasks m @ [\<lparr>ta_init = a, ta_start_paused = start_paused, ta_peer_rx = peer_rx, ta_token = t\<rparr>]\<rparr>"

text \<open>
  \<open>_start\<close>, with its recursion from the error state into the initializing branch written out. The caller holds an
  \<open>Arc\<close> of the session, so \<open>TorrentStateLive::new\<close> finds it alive.
\<close>

definition start_locked :: "('s, 'f) managed_env \<Rightarrow> ('s, 'f) surroundings \<Rightarrow> bool \<Rightarrow> bool \<Rightarrow> token \<Rightarrow> ('s, 'f, unit) mm" where
  "start_locked M u peer_rx start_paused t m =
     (case mt_state m of
        MLive _ _ \<Rightarrow> (Inl (Bail ''torrent is already live''), m)
      | MInitializing a \<Rightarrow> (Inr (), spawn_initialize_and_start a peer_rx start_paused t m)
      | MPaused p \<Rightarrow>
        if start_paused then (Inr (), m)
        else (case torrent_live_new M u True p of
            Inl e \<Rightarrow> (Inl e, m\<lparr>mt_state := MNone\<rparr>)
          | Inr l \<Rightarrow>
            let m1 = set_mstate (MLive t l) m;
                m2 = m1\<lparr>mt_fatal_receivers := mt_fatal_receivers m1 @ [t]\<rparr>
            in (Inr (), if peer_rx then m2\<lparr>mt_peer_adders := mt_peer_adders m2 @ [t]\<rparr> else m2))
      | MError _ \<Rightarrow>
        if \<not> mt_metadata m then (Inl (Bail ''torrent metadata was not loaded''), m)
        else (case su_storage u of
            Inl e \<Rightarrow> (Inl e, m)
          | Inr files \<Rightarrow>
            let a = mt_next_init m;
                m1 = set_mstate (MInitializing a)
                  (m\<lparr>mt_inits := (mt_inits m)(a := init_new (mt_only_files m) files (su_factory u) False), mt_next_init := a + 1\<rparr>)
            in (Inr (), spawn_initialize_and_start a peer_rx start_paused t m1))
      | MNone \<Rightarrow> (Inl (Bail ''bug: torrent is in empty state''), m))"

definition start :: "('s, 'f) managed_env \<Rightarrow> ('s, 'f) surroundings \<Rightarrow> bool \<Rightarrow> bool \<Rightarrow> ('s, 'f, unit) mm" where
  "start M u peer_rx start_paused m =
     (if \<not> su_session_alive u then (Inl (Bail ''session is dead, cannot start torrent''), m)
      else case child_token (m\<lparr>mt_paused := start_paused\<rparr>) of
        (t, m1) \<Rightarrow> start_locked M u peer_rx start_paused t m1)"

text \<open>The task: waiting for a permit of the session's semaphore, then the check, then the lock.\<close>

definition init_set_queued :: "bool \<Rightarrow> init_task \<Rightarrow> ('s, 'f) managed \<Rightarrow> ('s, 'f) managed" where
  "init_set_queued q ta m = m\<lparr>mt_inits := (mt_inits m)(ta_init ta := (mt_inits m (ta_init ta))\<lparr>in_queued_for_init := q\<rparr>)\<rparr>"

definition is_initializing :: "'s managed_state \<Rightarrow> bool" where
  "is_initializing st = (case st of MInitializing _ \<Rightarrow> True | _ \<Rightarrow> False)"

definition initialize_and_start ::
  "('s, 'f) managed_env \<Rightarrow> ('s, 'f) init_env \<Rightarrow> ('s, 'f) surroundings \<Rightarrow> init_task \<Rightarrow> ('s, 'f, unit) mm" where
  "initialize_and_start M I u ta m =
     (case initializing_check I (mt_inits m (ta_init ta)) of
        (r, init') \<Rightarrow>
        let m1 = m\<lparr>mt_inits := (mt_inits m)(ta_init ta := init'), mt_tasks := remove1 ta (mt_tasks m)\<rparr>
        in case r of
          Inr paused \<Rightarrow>
            if \<not> is_initializing (mt_state m1) then (Inr (), m1)
            else start_locked M u (ta_peer_rx ta) (ta_start_paused ta) (ta_token ta) (set_mstate (MPaused paused) m1)
        | Inl e \<Rightarrow>
            if e = Panic \<or> e = Diverges then (Inl e, m1) else (Inl e, set_mstate (MError e) m1))"

subsection \<open>Pausing and errors\<close>

definition pause :: "('s, 'f) managed_env \<Rightarrow> bool \<Rightarrow> ('s, 'f, unit) mm" where
  "pause M session_alive m =
     (case mt_state m of
        MLive t l \<Rightarrow>
          let m1 = m\<lparr>mt_dead_tokens := insert t (mt_dead_tokens m)\<rparr> in
          (case live_pause (ie_live (me_init M)) l of
             (Inl e, l') \<Rightarrow> (Inl e, m1\<lparr>mt_state := MLive t l'\<rparr>)
           | (Inr (ct, files), l') \<Rightarrow>
             (Inr (), (set_mstate (MPaused \<lparr>pa_files = files, pa_chunk_tracker = ct, pa_streams = lv_streams l'\<rparr>) m1)\<lparr>mt_paused := True\<rparr>))
      | MInitializing _ \<Rightarrow>
          (Inr (), (set_mstate (MError (Bail ''paused during initialization'')) (cancel_and_reset_token session_alive m))\<lparr>mt_paused := True\<rparr>)
      | MPaused _ \<Rightarrow> (Inl (Bail ''torrent is already paused''), m)
      | MError _ \<Rightarrow> (Inl (Bail ''can't pause torrent in error state''), m)
      | MNone \<Rightarrow> (Inl (Bail ''bug: torrent is in empty state''), m))"

definition stop_with_error :: "error \<Rightarrow> ('s, 'f) managed \<Rightarrow> ('s, 'f) managed" where
  "stop_with_error e m =
     (let m1 = (case mt_state m of MLive t _ \<Rightarrow> m\<lparr>mt_dead_tokens := insert t (mt_dead_tokens m)\<rparr> | _ \<Rightarrow> m)
      in set_mstate (MError e) m1)"

text \<open>What the fatal error receiver does with the error it gets.\<close>

definition fatal_errors_receiver :: "token \<Rightarrow> error \<Rightarrow> ('s, 'f) managed \<Rightarrow> ('s, 'f) managed" where
  "fatal_errors_receiver t e m = stop_with_error e (m\<lparr>mt_fatal_receivers := remove1 t (mt_fatal_receivers m)\<rparr>)"

subsection \<open>Selection and views\<close>

definition managed_update_only_files :: "('s, 'f) managed_env \<Rightarrow> nat list \<Rightarrow> nat \<Rightarrow> ('s, 'f, unit) mm" where
  "managed_update_only_files M only_files now m =
     (let E = ie_live (me_init M); fis = le_file_infos E;
          keep = (\<lambda>m'. m'\<lparr>mt_only_files := Some only_files\<rparr>)
      in if \<not> mt_metadata m then (Inl (Bail ''torrent is not resolved''), m)
         else if \<not> list_all (\<lambda>f. f < length fis) only_files then (Inl (Bail ''only_files contains invalid value''), m)
         else case mt_state m of
           MInitializing _ \<Rightarrow> (Inl (Bail ''can't update initializing torrent''), m)
         | MError _ \<Rightarrow> (Inr (), keep m)
         | MNone \<Rightarrow> (Inr (), keep m)
         | MPaused p \<Rightarrow>
           (case paused_update_only_files fis (set only_files) p of
              (Inl e, p') \<Rightarrow> (Inl e, m\<lparr>mt_state := MPaused p'\<rparr>)
            | (Inr _, p') \<Rightarrow> (Inr (), keep (m\<lparr>mt_state := MPaused p'\<rparr>)))
         | MLive t l \<Rightarrow>
           (case live_update_only_files E (set only_files) now l of
              (Inl e, l') \<Rightarrow> (Inl e, m\<lparr>mt_state := MLive t l'\<rparr>)
            | (Inr _, l') \<Rightarrow> (Inr (), keep (m\<lparr>mt_state := MLive t l'\<rparr>))))"

definition with_chunk_tracker :: "(chunk_tracker \<Rightarrow> 'r) \<Rightarrow> ('s, 'f) managed \<Rightarrow> 'r res" where
  "with_chunk_tracker f m =
     (case mt_state m of
        MPaused p \<Rightarrow> Inr (f (pa_chunk_tracker p))
      | MLive _ l \<Rightarrow> res_bind (get_chunks l) (\<lambda>c. Inr (f c))
      | _ \<Rightarrow> Inl (Bail ''no chunk tracker, torrent neither paused nor live''))"

definition managed_live :: "('s, 'f) managed \<Rightarrow> 's live option" where
  "managed_live m = (case mt_state m of MLive _ l \<Rightarrow> Some l | _ \<Rightarrow> None)"

definition is_paused :: "('s, 'f) managed \<Rightarrow> bool" where
  "is_paused m = mt_paused m"

text \<open>One look of the loops of \<open>wait_until_initialized\<close> and \<open>wait_until_completed\<close> at the state.\<close>

definition poll_initialized :: "('s, 'f) managed \<Rightarrow> bool res" where
  "poll_initialized m =
     (case mt_state m of
        MInitializing _ \<Rightarrow> Inr False
      | MError e \<Rightarrow> Inl e
      | MNone \<Rightarrow> Inl (Bail ''bug: torrent state is None'')
      | _ \<Rightarrow> Inr True)"

definition poll_live :: "('s, 'f) managed \<Rightarrow> 's live option res" where
  "poll_live m =
     (case mt_state m of
        MInitializing _ \<Rightarrow> Inr None
      | MPaused _ \<Rightarrow> Inr None
      | MLive _ l \<Rightarrow> Inr (Some l)
      | MError e \<Rightarrow> Inl e
      | MNone \<Rightarrow> Inl (Bail ''bug: torrent state is None''))"

datatype torrent_stats_state = SInitializing | SLive | SPaused | SError

record torrent_stats =
  ts_state :: torrent_stats_state
  ts_file_progress :: "nat list"
  ts_error :: "error option"
  ts_progress_bytes :: u64
  ts_uploaded_bytes :: u64
  ts_total_bytes :: nat
  ts_finished :: bool
  ts_live :: bool
  ts_queued_for_init :: "bool option"

definition stats :: "('s, 'f) managed_env \<Rightarrow> ('s, 'f) managed \<Rightarrow> torrent_stats res" where
  "stats M m =
     (let resp = \<lparr>ts_state = SError, ts_file_progress = [], ts_error = None, ts_progress_bytes = 0, ts_uploaded_bytes = 0,
            ts_total_bytes = (if mt_metadata m then total_length (le_lengths (ie_live (me_init M))) else 0),
            ts_finished = False, ts_live = False, ts_queued_for_init = None\<rparr>;
          with_hns = (\<lambda>h r. res_bind (hns_progress h) (\<lambda>pr.
            Inr (r\<lparr>ts_total_bytes := hns_total h, ts_progress_bytes := of_nat pr, ts_finished := hns_finished h\<rparr>)))
      in case mt_state m of
        MInitializing a \<Rightarrow>
          Inr (resp\<lparr>ts_state := SInitializing, ts_progress_bytes := get_checked_bytes (mt_inits m a),
               ts_queued_for_init := Some (is_queued_for_init (mt_inits m a))\<rparr>)
      | MPaused p \<Rightarrow>
          with_hns (paused_hns p) (resp\<lparr>ts_state := SPaused, ts_file_progress := per_file_bytes (pa_chunk_tracker p)\<rparr>)
      | MLive _ l \<Rightarrow>
          with_hns (case get_hns l of None \<Rightarrow> hns_default | Some h \<Rightarrow> h)
            (resp\<lparr>ts_state := SLive, ts_uploaded_bytes := st_uploaded_bytes (lv_stats l), ts_live := True,
               ts_file_progress := (case get_chunks l of Inl _ \<Rightarrow> [] | Inr c \<Rightarrow> per_file_bytes c)\<rparr>)
      | MError e \<Rightarrow> Inr (resp\<lparr>ts_state := SError, ts_error := Some e\<rparr>)
      | MNone \<Rightarrow> Inr (resp\<lparr>ts_state := SError, ts_error := Some (Bail ''bug: torrent in broken None state'')\<rparr>))"

subsection \<open>Peers from trackers and the DHT\<close>

datatype peer_stream_event = PeerFound socket_addr | StreamEnd | StreamTimeout

text \<open>
  \<open>drain_peer_stream\<close> over the events of the stream, each with whether the torrent is still alive then and the fresh counter
  number and time for a new peer; \<open>Inr False\<close> means that the loop waits for the next event.
\<close>

fun drain_peer_stream :: "(peer_stream_event \<times> bool \<times> nat \<times> nat) list \<Rightarrow> ('s, bool) lm" where
  "drain_peer_stream [] l = (Inr False, l)"
| "drain_peer_stream ((PeerFound a, alive, cid, now) # evs) l =
     (if \<not> alive then (Inr True, l)
      else case add_peer_if_not_seen a cid now l of
        (Inl e, l') \<Rightarrow> (Inl e, l')
      | (Inr _, l') \<Rightarrow> drain_peer_stream evs l')"
| "drain_peer_stream ((StreamEnd, _) # evs) l = (Inr True, l)"
| "drain_peer_stream ((StreamTimeout, alive, _) # evs) l = (if \<not> alive then (Inr True, l) else drain_peer_stream evs l)"

subsection \<open>Streams\<close>

text \<open>
  The streams of the torrent (\<open>streaming.rs\<close>): the table belongs to the paused or live state. A reader holds the table it was
  opened on; what it does to a table that is no longer the torrent's does not touch the torrent.
\<close>

definition managed_streams :: "('s, 'f) managed \<Rightarrow> torrent_streams res" where
  "managed_streams m =
     (case mt_state m of
        MPaused p \<Rightarrow> Inr (pa_streams p)
      | MLive _ l \<Rightarrow> Inr (lv_streams l)
      | st \<Rightarrow> Inl (Bail (''streams: invalid state '' @ managed_state_name st)))"

definition set_streams :: "torrent_streams \<Rightarrow> ('s, 'f) managed \<Rightarrow> ('s, 'f) managed" where
  "set_streams ts m =
     (case mt_state m of
        MPaused p \<Rightarrow> m\<lparr>mt_state := MPaused (p\<lparr>pa_streams := ts\<rparr>)\<rparr>
      | MLive t l \<Rightarrow> m\<lparr>mt_state := MLive t (l\<lparr>lv_streams := ts\<rparr>)\<rparr>
      | _ \<Rightarrow> m)"

definition with_storage_and_file :: "('s, 'f) managed_env \<Rightarrow> nat \<Rightarrow> ('s \<Rightarrow> file_info \<Rightarrow> 'r) \<Rightarrow> ('s, 'f) managed \<Rightarrow> 'r res" where
  "with_storage_and_file M fid f m =
     res_bind (case mt_state m of
         MPaused p \<Rightarrow> Inr (pa_files p)
       | MLive _ l \<Rightarrow> Inr (lv_files l)
       | st \<Rightarrow> Inl (Bail (''with_storage_and_file: invalid state: '' @ managed_state_name st))) (\<lambda>files.
     res_bind (ok_or (Bail ''invalid file'') (vec_get (le_file_infos (ie_live (me_init M))) fid)) (\<lambda>fi. Inr (f files fi)))"

definition managed_file_finished :: "('s, 'f) managed_env \<Rightarrow> nat \<Rightarrow> ('s, 'f) managed \<Rightarrow> bool" where
  "managed_file_finished M fid m \<longleftrightarrow> mt_metadata m \<and>
     (case with_chunk_tracker (is_file_finished (le_file_infos (ie_live (me_init M)) ! fid)) m of Inr b \<Rightarrow> b | Inl _ \<Rightarrow> False)"

definition reconnect_live :: "nat \<Rightarrow> ('s, 'f) managed \<Rightarrow> ('s, 'f) managed" where
  "reconnect_live now m =
     (case mt_state m of MLive t l \<Rightarrow> m\<lparr>mt_state := MLive t (snd (reconnect_all_not_needed_peers now l))\<rparr> | _ \<Rightarrow> m)"

text \<open>\<open>stream\<close>, with its permit of the blocking pool at hand.\<close>

definition managed_stream :: "('s, 'f) managed_env \<Rightarrow> nat \<Rightarrow> nat \<Rightarrow> ('s, 'f, file_stream) mm" where
  "managed_stream M fid now m =
     (if \<not> mt_metadata m then (Inl (Bail ''torrent metadata is not resolved''), m)
      else case res_bind (with_storage_and_file M fid (\<lambda>_ _. ()) m) (\<lambda>_. res_bind (managed_streams m) (\<lambda>ts.
          stream_open (le_file_infos (ie_live (me_init M))) (managed_file_finished M fid m) fid ts)) of
        Inl e \<Rightarrow> (Inl e, m)
      | Inr (f, ts, reconnect) \<Rightarrow> (Inr f, set_streams ts (if reconnect then reconnect_live now m else m)))"

text \<open>A reader whose table is the torrent's: \<open>poll_read\<close>, \<open>start_seek\<close> and its end.\<close>

definition managed_poll_read :: "('s, 'f) managed_env \<Rightarrow> nat \<Rightarrow> nat \<Rightarrow> file_stream \<Rightarrow> ('s, 'f, poll_result \<times> file_stream) mm" where
  "managed_poll_read M w n f m =
     (case res_bind (managed_streams m) (poll_read (le_lengths (ie_live (me_init M))) (with_chunk_tracker have_pieces m)
          (\<lambda>i off k. res_bind (with_storage_and_file M i (\<lambda>files _. so_pread_exact (le_ops (ie_live (me_init M))) files i off k) m) (\<lambda>x. x)) w n f) of
        Inl e \<Rightarrow> (Inl e, m)
      | Inr (r, f', ts) \<Rightarrow> (Inr (r, f'), set_streams ts m))"

definition managed_seek :: "seek_from \<Rightarrow> file_stream \<Rightarrow> ('s, 'f, file_stream) mm" where
  "managed_seek pos f m =
     (case res_bind (managed_streams m) (start_seek pos f) of
        Inl e \<Rightarrow> (Inl e, m)
      | Inr (f', ts) \<Rightarrow> (Inr f', set_streams ts m))"

definition managed_drop_stream :: "nat \<Rightarrow> ('s, 'f) managed \<Rightarrow> ('s, 'f) managed" where
  "managed_drop_stream sid m =
     (case managed_streams m of Inl _ \<Rightarrow> m | Inr ts \<Rightarrow> set_streams (snd (drop_stream sid ts)) m)"

subsection \<open>Deletion\<close>

text \<open>
  Taking the storage out of a torrent that is deleted; its state is left empty. For a live torrent, \<open>pause\<close> gives the
  storage; for an initializing one it is the storage's own \<open>take\<close>. \<open>None\<close> makes the session create a new storage object.
\<close>

definition take_storage :: "('s, 'f) managed_env \<Rightarrow> ('s, 'f) managed \<Rightarrow> 's option \<times> ('s, 'f) managed" where
  "take_storage M m =
     (case mt_state m of
        MInitializing a \<Rightarrow>
          (case so_take (le_ops (ie_live (me_init M))) (in_files (mt_inits m a)) of
             (r, files) \<Rightarrow> (case r of Inl _ \<Rightarrow> None | Inr f \<Rightarrow> Some f,
               m\<lparr>mt_state := MNone, mt_inits := (mt_inits m)(a := (mt_inits m a)\<lparr>in_files := files\<rparr>)\<rparr>))
      | MPaused p \<Rightarrow> (Some (pa_files p), m\<lparr>mt_state := MNone\<rparr>)
      | MLive t l \<Rightarrow>
          (case live_pause (ie_live (me_init M)) l of
             (Inl _, _) \<Rightarrow> (None, m\<lparr>mt_state := MNone\<rparr>)
           | (Inr (_, files), _) \<Rightarrow> (Some files, m\<lparr>mt_state := MNone\<rparr>))
      | _ \<Rightarrow> (None, m\<lparr>mt_state := MNone\<rparr>))"

text \<open>What happens to the torrent itself first: its token is cancelled and it is paused; an error of that is only logged.\<close>

definition dismantle :: "('s, 'f) managed_env \<Rightarrow> ('s, 'f) managed \<Rightarrow> ('s, 'f) managed" where
  "dismantle M m = snd (pause M True (cancel_token m))"

subsection \<open>Reachable states\<close>

text \<open>
  What happens to a live torrent: messages of its peers (also the metadata request that panics), connections that begin and end, new
  peers, the turns of its tasks (requester, peer adder, upload scheduler, health monitor, PEX sender, dead peer pruner, the
  task that waits before a dead peer is queued again), fatal errors, and the other torrents of the session changing the
  counters they share with it. What the speed limiters answer is arbitrary in each turn, so their state does not matter here.
\<close>

inductive live_activity :: "'s live_env \<Rightarrow> 's live \<Rightarrow> 's live \<Rightarrow> bool" for E where
  la_message: "on_received_message E msg cid now (h, l) = (r, (h', l')) \<Longrightarrow> live_activity E l l'"
| la_requester: "requester_round E dl tx_open locked now interest (h, l) = (r, (h', l')) \<Longrightarrow> live_activity E l l'"
| la_connected: "on_connected h t l = (r, l') \<Longrightarrow> live_activity E l l'"
| la_handshake: "on_handshake h pid kind now l = (r, l') \<Longrightarrow> live_activity E l l'"
| la_ext_handshake: "on_extended_handshake E h eh l = (r, l') \<Longrightarrow> live_activity E l l'"
| la_uploaded: "on_uploaded_bytes h k l = (r, l') \<Longrightarrow> live_activity E l l'"
| la_died: "on_peer_died E h err now l = (r, l') \<Longrightarrow> live_activity E l l'"
| la_add_peer: "add_peer_if_not_seen a cid now l = (r, l') \<Longrightarrow> live_activity E l l'"
| la_peer_stream: "drain_peer_stream evs l = (r, l') \<Longrightarrow> live_activity E l l'"
| la_incoming: "add_incoming_peer a pid kind t cid now l = (r, l') \<Longrightarrow> live_activity E l l'"
| la_outgoing: "manage_outgoing_begin a t now l = (r, l') \<Longrightarrow> live_activity E l l'"
| la_peer_end: "manage_peer_end E h res now l = (r, l') \<Longrightarrow> live_activity E l l'"
| la_health: "health_round E now last_rediscovery l = (r, l') \<Longrightarrow> live_activity E l l'"
| la_pex: "pex_round order a t closed sent view l = (r, l') \<Longrightarrow> live_activity E l l'"
| la_fatal: "on_fatal_error E e l = (r, l') \<Longrightarrow> live_activity E l l'"
| la_prune: "on_peers (prune_dead_peers retention now) l = (r, l') \<Longrightarrow> live_activity E l l'"
| la_wait_done: "wait_for_peer_done a now l = (r, l') \<Longrightarrow> live_activity E l l'"
| la_adder: "tt_live T = l \<Longrightarrow> peer_adder_turn q E now T = (r, T') \<Longrightarrow> live_activity E l (tt_live (T' :: ('s, unit) tasks))"
| la_upload: "tt_live T = l \<Longrightarrow> upload_scheduler_turn G closed1 closed2 T = (r, T') \<Longrightarrow>
    live_activity E l (tt_live (T' :: ('s, unit) tasks))"
| la_session: "live_activity E l (l\<lparr>lv_peers := (lv_peers l)\<lparr>session_stats := shared\<rparr>\<rparr>)"

text \<open>
  The steps of a managed torrent. The code is the relation with \<open>strict\<close> false: the check of any task may still fail, such as that of a
  task that was cancelled while it was checking, and then the torrent is put in the error state whatever state it is in. With \<open>strict\<close>
  a check that fails belongs to the current initializing state; this is the code as long as no stale check fails.
\<close>

inductive managed_step :: "('s, 'f) managed_env \<Rightarrow> bool \<Rightarrow> ('s, 'f) managed \<Rightarrow> ('s, 'f) managed \<Rightarrow> bool" for M strict where
  ms_start: "start M u peer_rx start_paused m = (r, m') \<Longrightarrow> managed_step M strict m m'"
| ms_queued: "ta \<in> set (mt_tasks m) \<Longrightarrow> managed_step M strict m (init_set_queued q ta m)"
| ms_task: "ta \<in> set (mt_tasks m) \<Longrightarrow> ie_live I = ie_live (me_init M) \<Longrightarrow>
    (strict \<longrightarrow> (\<exists>e. fst (initializing_check I (mt_inits m (ta_init ta))) = Inl e) \<longrightarrow> mt_state m = MInitializing (ta_init ta)) \<Longrightarrow>
    initialize_and_start M I u ta m = (r, m') \<Longrightarrow> managed_step M strict m m'"
| ms_task_cancelled: "ta \<in> set (mt_tasks m) \<Longrightarrow> token_cancelled (ta_token ta) m \<Longrightarrow>
    managed_step M strict m (m\<lparr>mt_tasks := remove1 ta (mt_tasks m)\<rparr>)"
| ms_pause: "pause M alive m = (r, m') \<Longrightarrow> managed_step M strict m m'"
| ms_fatal: "t \<in> set (mt_fatal_receivers m) \<Longrightarrow> \<not> token_cancelled t m \<Longrightarrow> managed_step M strict m (fatal_errors_receiver t e m)"
| ms_only_files: "managed_update_only_files M only_files now m = (r, m') \<Longrightarrow> managed_step M strict m m'"
| ms_live: "mt_state m = MLive t l \<Longrightarrow> live_activity (ie_live (me_init M)) l l' \<Longrightarrow>
    managed_step M strict m (m\<lparr>mt_state := MLive t l'\<rparr>)"
| ms_delete: "managed_step M strict m (cancel_token m)"
| ms_stream: "managed_stream M fid now m = (r, m') \<Longrightarrow> managed_step M strict m m'"
| ms_stream_reconnect: "managed_step M strict m (reconnect_live now m)"
| ms_stream_read: "managed_poll_read M w n f m = (r, m') \<Longrightarrow> managed_step M strict m m'"
| ms_stream_seek: "managed_seek pos f m = (r, m') \<Longrightarrow> managed_step M strict m m'"
| ms_stream_drop: "managed_step M strict m (managed_drop_stream sid m)"

inductive_cases managed_stepE: "managed_step M strict m m'"

text \<open>With deletion from the session: what \<open>Session::delete\<close> does to the torrent (\<open>session/mod.rs\<close>).\<close>

inductive torrent_step :: "('s, 'f) managed_env \<Rightarrow> bool \<Rightarrow> ('s, 'f) managed \<Rightarrow> ('s, 'f) managed \<Rightarrow> bool" for M strict where
  ts_step: "managed_step M strict m m' \<Longrightarrow> torrent_step M strict m m'"
| ts_delete: "take_storage M (dismantle M m) = (files, m') \<Longrightarrow> torrent_step M strict m m'"

definition managed_init :: "('s, 'f) managed \<Rightarrow> bool" where
  "managed_init m \<longleftrightarrow> (\<exists>a. mt_state m = MInitializing a) \<and> mt_tasks m = [] \<and> mt_fatal_receivers m = []"

subsection \<open>Consistency\<close>

definition paused_ok :: "'s live_env \<Rightarrow> 's paused \<Rightarrow> bool" where
  "paused_ok E p \<longleftrightarrow> ct_inv (pa_chunk_tracker p) \<and> ct_frame (pa_chunk_tracker p) = (le_lengths E, length (le_file_infos E))
     \<and> (\<forall>f \<in> set (streamed_file_ids (pa_streams p)). f < length (le_file_infos E))"

definition state_ok :: "'s live_env \<Rightarrow> 's managed_state \<Rightarrow> bool" where
  "state_ok E st \<longleftrightarrow> (case st of MPaused p \<Rightarrow> paused_ok E p | MLive _ l \<Rightarrow> live_consistent E l | MNone \<Rightarrow> False | _ \<Rightarrow> True)"

lemma checked_paused_ok:
  assumes "ranges_ok (ie_live I)" and "initializing_check I s = (Inr p, s')"
  shows "paused_ok (ie_live I) p"
  using initializing_check_tracker [OF assms] by (auto simp: paused_ok_def tracker_of_def ct_frame_def streamed_file_ids_def)

lemma torrent_live_new_consistent:
  assumes "paused_ok E p" and "E = ie_live (me_init M)" and "torrent_live_new M u alive p = Inr l"
  shows "live_consistent E l"
proof -
  have l: "l = live_state_new (me_path_le M) (su_session_stats u) (me_peer_limit M) (le_file_infos E)
        (pa_chunk_tracker p) (pa_files p) (pa_streams p) (su_fetched u) (su_uploaded u)"
    using assms(2,3) by (simp add: torrent_live_new_def split: if_splits)
  have "peers_init (\<lambda>k. class_counter k (su_session_stats u)) (lv_peers l)"
    by (simp add: l live_state_new_def peers_init_def agg_zero_def class_counter_def split: counter_class.splits connection_kind.splits)
  then have "peers_inv (\<lambda>k. class_counter k (su_session_stats u)) (lv_peers l)" by (rule peers_sys.init_inv)
  then have "live_ok E (\<lambda>k. class_counter k (su_session_stats u)) (bf_bit (have_pieces (pa_chunk_tracker p))) l"
    using assms(1)
    by (simp add: live_ok_def l live_state_new_def pt_new_def pt_wf_def hm_keys_def pt_frame_def paused_ok_def ct_frame_def)
  then show ?thesis by (auto simp: live_consistent_def)
qed

lemma into_chunks_ok:
  assumes "pt_wf t" and "into_chunks t = Inr c"
  shows "ct_inv c \<and> ct_frame c = ct_frame (chunks t)"
proof -
  have keys: "\<And>p. p \<in> set (map fst (inflight t)) \<Longrightarrow> ct_valid (chunks t) p"
    using pt_wfD(3) [OF assms(1)] by (auto simp: hm_keys_def)
  from ct_store.requeue_all [OF pt_wfD(1) [OF assms(1)], of "map fst (inflight t)"] keys
  have "ct_inv c" using assms(2) by (auto simp: into_chunks_def)
  then show ?thesis using ct_frame_fold [OF assms(2) [unfolded into_chunks_def]] ct_frame_ops(2) by blast
qed

lemma live_pause_ok:
  assumes "live_ok E others H l" and "live_pause E l = (r, l')"
  shows "live_ok E others H l'"
    and "r = Inr (ct, files) \<Longrightarrow> paused_ok E \<lparr>pa_files = files, pa_chunk_tracker = ct, pa_streams = lv_streams l'\<rparr>"
proof -
  show "live_ok E others H l'" using assms
    by (auto simp: live_pause_def Let_def live_ok_def split: option.splits sum.splits prod.splits)
  assume r: "r = Inr (ct, files)"
  with assms(2) obtain pt where pt: "lv_pieces l = Some pt" "into_chunks pt = Inr ct" "lv_streams l' = lv_streams l"
    by (auto simp: live_pause_def Let_def split: option.splits sum.splits prod.splits)
  with assms(1) have "pt_wf pt" "ct_frame (chunks pt) = (le_lengths E, length (le_file_infos E))"
    by (auto simp: live_ok_def pt_frame_def ct_frame_def)
  with into_chunks_ok [OF _ pt(2)] assms(1) pt(3)
  show "paused_ok E \<lparr>pa_files = files, pa_chunk_tracker = ct, pa_streams = lv_streams l'\<rparr>"
    by (simp add: paused_ok_def live_ok_def)
qed

lemma update_only_files_keeps:
  assumes "ct_inv c" and "update_only_files fis new c = Inr (h, c')"
  shows "ct_inv c' \<and> ct_frame c' = ct_frame c \<and> have_pieces c' = have_pieces c"
  using update_only_files_spec [OF ct_invD(1) [OF assms(1)], of fis new] assms(2) by (auto simp: ct_frame_def)

lemma pt_update_only_files_safe: "pt_safe F (pt_update_only_files fis new)"
proof (rule pt_safeI)
  fix t assume wf: "pt_wf t" and F: "pt_frame t = F"
  obtain h c where c: "update_only_files fis new (chunks t) = Inr (h, c)"
    using update_only_files_spec [OF ct_invD(1) [OF pt_wfD(1) [OF wf]], of fis new] by blast
  note k = update_only_files_keeps [OF pt_wfD(1) [OF wf] c]
  have "pt_update_only_files fis new t = Inr (h, t\<lparr>chunks := c\<rparr>)" using c by (simp add: pt_update_only_files_def)
  moreover have "pt_frame (t\<lparr>chunks := c\<rparr>) = F" using F k by (simp add: pt_frame_ct)
  ultimately show "\<exists>x t'. pt_update_only_files fis new t = Inr (x, t') \<and> pt_wf t' \<and> pt_frame t' = F"
    using chunks_update_wf [OF wf] k by blast
qed

lemma reconnect_loop_ok:
  "live_ok E others H s \<Longrightarrow> live_ok E others H (snd (reconnect_loop now as s)) \<and> res_ok (fst (reconnect_loop now as s))"
proof (induction as arbitrary: s)
  case (Cons a as)
  obtain r s1 where s1: "on_peers (with_peer_mut a (reconnect_not_needed_peer now)) s = (r, s1)" by fastforce
  have "safe (live_ok E others H) (on_peers (with_peer_mut a (reconnect_not_needed_peer now)))"
    by (rule on_peers_safe) (simp add: peers_op_inv)
  from safeD(1) [OF this Cons.prems] s1 have ok1: "live_ok E others H s1" by simp
  have ok2: "live_ok E others H (snd (try_send_queue target s1))" for target
    using safeD(1) [OF try_send_queue_safe ok1] .
  show ?case
    using s1 Cons.IH [OF ok1] Cons.IH [OF ok2] ok1 ok2
    by (auto split: sum.splits option.splits prod.splits bool.splits) (metis prod.collapse snd_conv)+
qed simp

lemma live_update_only_files_safe: "safe (live_ok E others H) (live_update_only_files E new now)"
proof -
  have "safe (live_ok E others H) (reconnect_all_not_needed_peers now)"
    using reconnect_loop_ok [of E others H _ now] by (auto simp: safe_def reconnect_all_not_needed_peers_def)
  then show ?thesis
    unfolding live_update_only_files_def
    by (auto intro!: safe_intros with_pieces_mut_safe pt_update_only_files_safe)
qed

lemma on_fatal_error_safe: "safe (live_ok E others H) (on_fatal_error E e)"
  by (auto simp: safe_def on_fatal_error_def Let_def)

lemma drain_peer_stream_safe: "safe (live_ok E others H) (drain_peer_stream evs)"
proof -
  have "live_ok E others H l \<Longrightarrow> live_ok E others H (snd (drain_peer_stream evs l)) \<and> res_ok (fst (drain_peer_stream evs l))" for l
  proof (induction evs l rule: drain_peer_stream.induct)
    case (2 a alive cid now evs l)
    obtain r l' where l': "add_peer_if_not_seen a cid now l = (r, l')" by fastforce
    have "live_ok E others H l'" "res_ok r"
      using safeD [OF add_peer_if_not_seen_safe 2(2), of a cid now] l' by simp_all
    with 2(1) l' 2(2) show ?case by (auto simp: res_ok_def split: sum.splits)
  qed simp_all
  then show ?thesis by (simp add: safe_def)
qed

lemma prune_safe: "safe (live_ok E others H) (on_peers (prune_dead_peers retention now))"
  by (rule on_peers_safe) (simp add: prune_dead_peers_inv)

lemma wait_for_peer_done_safe: "safe (live_ok E others H) (wait_for_peer_done a now)"
  unfolding wait_for_peer_done_def by (auto intro!: safe_intros)

lemma session_counters_ok:
  assumes "live_ok E others H l"
  shows "\<exists>others'. live_ok E others' H (l\<lparr>lv_peers := (lv_peers l)\<lparr>session_stats := shared\<rparr>\<rparr>)"
proof -
  let ?ps = "lv_peers l"
  have "peers_inv others ?ps" by (rule live_ok_peers(2) [OF assms])
  then have "peers_inv (\<lambda>k. class_counter k shared - of_nat (peers_in_class k (states ?ps))) (?ps\<lparr>session_stats := shared\<rparr>)"
    by (simp add: peers_inv_def)
  with assms show ?thesis by (auto simp: live_ok_def)
qed

text \<open>Any message, also the one that makes the handler panic.\<close>

lemma message_keeps_consistent:
  assumes "env_ok E" and "length (le_info_bytes E) + le_chunk_size E < 2 ^ 32" and "live_ok E others H (snd hs)"
  shows "\<exists>H'. live_ok E others H' (snd (snd (on_received_message E msg cid now hs)))"
proof (cases "\<exists>i. msg = MsgExtended (UtMetadataRequest i)")
  case True
  then show ?thesis using metadata_request_keeps [OF assms(3)] by blast
next
  case False
  then show ?thesis using on_received_message_outcome [OF assms(1,3) _ assms(2), of msg cid now] by blast
qed

lemma live_activity_consistent:
  assumes "env_ok E" and "length (le_info_bytes E) + le_chunk_size E < 2 ^ 32"
    and "live_activity E l l'" and "live_consistent E l"
  shows "live_consistent E l'"
proof -
  obtain others H where ok: "live_ok E others H l" using assms(4) by (auto simp: live_consistent_def)
  from assms(3) have "\<exists>others H'. live_ok E others H' l'"
  proof cases
    case (la_message msg cid now h r h')
    then show ?thesis using message_keeps_consistent [OF assms(1,2), of others H "(h, l)" msg cid now] ok by auto
  next
    case (la_requester dl tx_open locked now interest h r h')
    then show ?thesis using keepsD [OF requester_round_keeps [OF assms(1)], of others H "(h, l)"] ok
      by (auto simp: hok_def) (metis snd_conv)
  next
    case (la_connected h t r)
    then show ?thesis using safeD(1) [OF live_callbacks_safe(1) ok, of h t] by auto
  next
    case (la_handshake h pid kind now r)
    then show ?thesis using safeD(1) [OF live_callbacks_safe(2) ok, of h pid kind now] by auto
  next
    case (la_ext_handshake h eh r)
    then show ?thesis using safeD(1) [OF live_callbacks_safe(4) ok, of h eh] by auto
  next
    case (la_uploaded h k r)
    then show ?thesis using safeD(1) [OF live_callbacks_safe(3) ok, of h k] by auto
  next
    case (la_died h err now r)
    then show ?thesis using safeD(1) [OF on_peer_died_safe ok, of h err now] by auto
  next
    case (la_add_peer a cid now r)
    then show ?thesis using safeD(1) [OF add_peer_if_not_seen_safe ok, of a cid now] by auto
  next
    case (la_peer_stream evs r)
    then show ?thesis using safeD(1) [OF drain_peer_stream_safe ok, of evs] by auto
  next
    case (la_incoming a pid kind t cid now r)
    then show ?thesis using add_incoming_peer_ok [OF ok, of a pid kind t cid now] by auto
  next
    case (la_outgoing a t now r)
    then show ?thesis using manage_outgoing_begin_ok [OF ok, of a t now] by auto
  next
    case (la_peer_end h res now r)
    then show ?thesis using manage_peer_end_ok [OF ok, of h res now] by auto
  next
    case (la_health now last_rediscovery r)
    then show ?thesis using safeD(1) [OF health_round_safe ok, of now last_rediscovery] by auto
  next
    case (la_pex order a t closed sent view r)
    then show ?thesis using pex_round_ok [OF ok, of order a t closed sent view] by auto
  next
    case (la_fatal e r)
    then show ?thesis using safeD(1) [OF on_fatal_error_safe ok, of e] by auto
  next
    case (la_prune retention now r)
    then show ?thesis using safeD(1) [OF prune_safe ok, of retention now] by auto
  next
    case (la_wait_done a now r)
    then show ?thesis using safeD(1) [OF wait_for_peer_done_safe ok, of a now] by auto
  next
    case (la_adder T q now r T')
    then show ?thesis using peer_adder_ok [of E others H T q now] ok by auto
  next
    case (la_upload T G c1 c2 r T')
    then show ?thesis using upload_scheduler_ok [of E others H T G c1 c2] ok by auto
  next
    case (la_session shared)
    then show ?thesis using session_counters_ok [OF ok] by blast
  qed
  then show ?thesis by (auto simp: live_consistent_def)
qed

subsection \<open>Operations keep the state consistent\<close>

definition menv_ok :: "('s, 'f) managed_env \<Rightarrow> bool" where
  "menv_ok M \<longleftrightarrow> (let E = ie_live (me_init M) in env_ok E \<and> ranges_ok E \<and> length (le_info_bytes E) + le_chunk_size E < 2 ^ 32)"

lemma mstate_upd [simp]:
  "mt_state (set_mstate st m) = st" "mt_state (cancel_token m) = mt_state m"
  "mt_state (cancel_and_reset_token b m) = mt_state m" "mt_state (spawn_initialize_and_start a rx sp t m) = mt_state m"
  "mt_state (init_set_queued q ta m) = mt_state m" "mt_state (notify_waiters m) = mt_state m"
  "mt_fatal_receivers (set_mstate st m) = mt_fatal_receivers m" "mt_fatal_receivers (cancel_token m) = mt_fatal_receivers m"
  "mt_fatal_receivers (cancel_and_reset_token b m) = mt_fatal_receivers m"
  "mt_fatal_receivers (spawn_initialize_and_start a rx sp t m) = mt_fatal_receivers m"
  "mt_fatal_receivers (init_set_queued q ta m) = mt_fatal_receivers m"
  by (simp_all add: set_mstate_def notify_waiters_def cancel_token_def cancel_and_reset_token_def
      spawn_initialize_and_start_def init_set_queued_def Let_def)

lemma start_locked_state:
  assumes "start_locked M u rx sp t m = (r, m')"
  shows "mt_state m' = mt_state m
     \<or> (\<exists>p l. mt_state m = MPaused p \<and> torrent_live_new M u True p = Inr l \<and> mt_state m' = MLive t l)
     \<or> (\<exists>e a. mt_state m = MError e \<and> mt_state m' = MInitializing a)"
  using assms
  by (auto simp: start_locked_def torrent_live_new_def Let_def split: managed_state.splits if_splits sum.splits)

lemma start_locked_ok:
  assumes "state_ok (ie_live (me_init M)) (mt_state m)" and "start_locked M u rx sp t m = (r, m')"
  shows "state_ok (ie_live (me_init M)) (mt_state m')"
  using start_locked_state [OF assms(2)] assms(1) torrent_live_new_consistent [OF _ refl] by (auto simp: state_ok_def)

lemma initialize_and_start_ok:
  assumes "menv_ok M" and "ie_live I = ie_live (me_init M)" and "state_ok (ie_live (me_init M)) (mt_state m)"
    and "initialize_and_start M I u ta m = (r, m')"
  shows "state_ok (ie_live (me_init M)) (mt_state m')"
proof -
  obtain c init' where c: "initializing_check I (mt_inits m (ta_init ta)) = (c, init')" by fastforce
  have "ranges_ok (ie_live I)" using assms(1,2) by (simp add: menv_ok_def Let_def)
  then have "state_ok (ie_live (me_init M)) (MPaused p)" if "c = Inr p" for p
    using checked_paused_ok [of I] c that assms(2) by (simp add: state_ok_def)
  then show ?thesis using assms(3,4) start_locked_ok [of M "set_mstate (MPaused p) m1" for p m1]
    by (auto simp: initialize_and_start_def c state_ok_def Let_def split: sum.splits if_splits)
qed

lemma pause_ok:
  assumes "state_ok (ie_live (me_init M)) (mt_state m)" and "pause M alive m = (r, m')"
  shows "state_ok (ie_live (me_init M)) (mt_state m')"
proof (cases "\<exists>t l. mt_state m = MLive t l")
  case True
  then obtain t l where l: "mt_state m = MLive t l" by blast
  obtain q l' where q: "live_pause (ie_live (me_init M)) l = (q, l')" by fastforce
  from l assms(1) obtain others H where ok: "live_ok (ie_live (me_init M)) others H l"
    by (auto simp: state_ok_def live_consistent_def)
  note p = live_pause_ok [OF ok q]
  show ?thesis
  proof (cases q)
    case (Inl e)
    have "live_consistent (ie_live (me_init M)) l'" unfolding live_consistent_def using p(1) by blast
    with Inl l q assms(2) show ?thesis by (auto simp: pause_def state_ok_def)
  next
    case (Inr x)
    then have "paused_ok (ie_live (me_init M)) \<lparr>pa_files = snd x, pa_chunk_tracker = fst x, pa_streams = lv_streams l'\<rparr>"
      using p(2) [of "fst x" "snd x"] by simp
    with Inr l q assms(2) show ?thesis by (cases x) (auto simp: pause_def state_ok_def Let_def)
  qed
next
  case False
  with assms show ?thesis by (auto simp: pause_def state_ok_def split: managed_state.splits)
qed

lemma update_only_files_ok:
  assumes "state_ok (ie_live (me_init M)) (mt_state m)" and "managed_update_only_files M only_files now m = (r, m')"
  shows "state_ok (ie_live (me_init M)) (mt_state m')"
proof (cases "mt_state m")
  case (MPaused p)
  with assms(1) have ok: "paused_ok (ie_live (me_init M)) p" by (simp add: state_ok_def)
  then have "paused_ok (ie_live (me_init M)) (snd (paused_update_only_files fis new p))" for fis new
    using update_only_files_keeps [of "pa_chunk_tracker p" fis new]
    by (auto simp: paused_update_only_files_def paused_ok_def split: sum.splits)
  then show ?thesis using MPaused assms ok
    by (auto simp: managed_update_only_files_def state_ok_def Let_def split: if_splits sum.splits prod.splits) (metis snd_conv)+
next
  case (MLive t l)
  with assms(1) obtain others H where ok: "live_ok (ie_live (me_init M)) others H l"
    by (auto simp: state_ok_def live_consistent_def)
  then have "live_consistent (ie_live (me_init M)) (snd (live_update_only_files (ie_live (me_init M)) new now l))" for new
    using safeD(1) [OF live_update_only_files_safe ok] by (auto simp: live_consistent_def)
  then show ?thesis using MLive assms
    by (auto simp: managed_update_only_files_def state_ok_def Let_def split: if_splits sum.splits prod.splits) (metis snd_conv)+
qed (use assms in \<open>auto simp: managed_update_only_files_def state_ok_def Let_def split: if_splits\<close>)

lemma set_streams_ok:
  assumes "state_ok E (mt_state m)" and "\<And>f. f \<in> set (streamed_file_ids ts) \<Longrightarrow> f < length (le_file_infos E)"
  shows "state_ok E (mt_state (set_streams ts m))"
  using assms by (cases "mt_state m") (auto simp: set_streams_def state_ok_def paused_ok_def live_consistent_def live_ok_def)

lemma managed_streams_bound:
  assumes "state_ok E (mt_state m)" and "managed_streams m = Inr ts" and "f \<in> set (streamed_file_ids ts)"
  shows "f < length (le_file_infos E)"
  using assms by (auto simp: managed_streams_def state_ok_def paused_ok_def live_consistent_def live_ok_def split: managed_state.splits)

lemma reconnect_live_ok:
  assumes "state_ok E (mt_state m)"
  shows "state_ok E (mt_state (reconnect_live now m))"
proof (cases "\<exists>t l. mt_state m = MLive t l")
  case True
  then obtain t l others H where l: "mt_state m = MLive t l" "live_ok E others H l"
    using assms by (auto simp: state_ok_def live_consistent_def)
  then show ?thesis
    using reconnect_loop_ok [OF l(2), of now]
    by (auto simp: reconnect_live_def state_ok_def live_consistent_def reconnect_all_not_needed_peers_def)
next
  case False
  then show ?thesis using assms by (auto simp: reconnect_live_def split: managed_state.splits)
qed

text \<open>A reader's operation on the table of the torrent that adds no file.\<close>

lemma reader_op_ok:
  assumes "state_ok E (mt_state m)" and "managed_streams m = Inr ts" and "set (streamed_file_ids ts') \<subseteq> set (streamed_file_ids ts)"
  shows "state_ok E (mt_state (set_streams ts' m))"
  using assms by (intro set_streams_ok managed_streams_bound [OF assms(1,2)]) auto

lemma managed_stream_ok:
  assumes "state_ok (ie_live (me_init M)) (mt_state m)" and "managed_stream M fid now m = (r, m')"
  shows "state_ok (ie_live (me_init M)) (mt_state m')"
proof (cases "m' = m")
  case False
  then obtain ts f ts' b where ts: "managed_streams m = Inr ts" and
    op: "stream_open (le_file_infos (ie_live (me_init M))) (managed_file_finished M fid m) fid ts = Inr (f, ts', b)" and
    m': "m' = set_streams ts' (if b then reconnect_live now m else m)"
    using assms(2) by (auto simp: managed_stream_def res_bind_def split: if_splits sum.splits prod.splits)
  show ?thesis unfolding m'
  proof (rule set_streams_ok)
    show "state_ok (ie_live (me_init M)) (mt_state (if b then reconnect_live now m else m))"
      using assms(1) reconnect_live_ok [OF assms(1), of now] by simp
    show "k < length (le_file_infos (ie_live (me_init M)))" if "k \<in> set (streamed_file_ids ts')" for k
      using that stream_open_files [OF op] managed_streams_bound [OF assms(1) ts] by auto
  qed
qed (use assms in simp)

lemma reader_ops_ok:
  assumes "state_ok E (mt_state m)"
  shows "managed_poll_read M w n f m = (r, m') \<Longrightarrow> state_ok E (mt_state m')"
    and "managed_seek pos f m = (r', m') \<Longrightarrow> state_ok E (mt_state m')"
    and "state_ok E (mt_state (managed_drop_stream sid m))"
  using assms reader_op_ok [OF assms] poll_read_files start_seek_files drop_stream_files
  by (auto simp: managed_poll_read_def managed_seek_def managed_drop_stream_def res_bind_def split: sum.splits)

lemma managed_step_ok:
  assumes "menv_ok M" and "managed_step M strict m m'" and "state_ok (ie_live (me_init M)) (mt_state m)"
  shows "state_ok (ie_live (me_init M)) (mt_state m')"
  using assms(2)
proof cases
  case (ms_start u rx sp r)
  then show ?thesis
    using assms(3) start_locked_ok [of M "snd (child_token (m\<lparr>mt_paused := sp\<rparr>))"]
    by (auto simp: start_def child_token_def split: if_splits)
next
  case (ms_task ta I u r)
  then show ?thesis using initialize_and_start_ok [OF assms(1)] assms(3) by blast
next
  case (ms_live t l l')
  then show ?thesis using live_activity_consistent assms(1,3) by (auto simp: state_ok_def menv_ok_def Let_def)
qed (use assms(3) pause_ok update_only_files_ok managed_stream_ok reconnect_live_ok reader_ops_ok in
      \<open>auto simp: fatal_errors_receiver_def stop_with_error_def Let_def state_ok_def\<close>)

interpretation managed_sys: invariant_system managed_init "managed_step M strict"
    "\<lambda>m. menv_ok M \<longrightarrow> state_ok (ie_live (me_init M)) (mt_state m)" for M strict
  by unfold_locales (auto simp: managed_init_def state_ok_def dest: managed_step_ok)

subsection \<open>Transitions\<close>

datatype state_kind = KInitializing | KPaused | KLive | KError | KNone

definition kind :: "'s managed_state \<Rightarrow> state_kind" where
  "kind st = (case st of MInitializing _ \<Rightarrow> KInitializing | MPaused _ \<Rightarrow> KPaused | MLive _ _ \<Rightarrow> KLive | MError _ \<Rightarrow> KError | MNone \<Rightarrow> KNone)"

text \<open>The transitions listed at \<open>ManagedTorrentState\<close>.\<close>

inductive documented :: "state_kind \<Rightarrow> state_kind \<Rightarrow> bool" where
  "documented KError KInitializing"
| "documented KInitializing KPaused"
| "documented KPaused KLive"
| "documented KLive KPaused"
| "documented KInitializing KError"
| "documented KLive KError"

text \<open>A fatal error receiver that was not cancelled belongs to the torrent that is live now.\<close>

definition receivers_ok :: "('s, 'f) managed \<Rightarrow> bool" where
  "receivers_ok m \<longleftrightarrow> (\<forall>t \<in> set (mt_fatal_receivers m). token_cancelled t m \<or> (\<exists>l. mt_state m = MLive t l))"

lemma token_cancelled_upd [simp]:
  "token_cancelled t (set_mstate st m) = token_cancelled t m"
  "token_cancelled t (spawn_initialize_and_start a rx sp tk m) = token_cancelled t m"
  "token_cancelled t (init_set_queued q ta m) = token_cancelled t m"
  by (simp_all add: token_cancelled_def set_mstate_def notify_waiters_def spawn_initialize_and_start_def init_set_queued_def)

lemma mt_dead_upd [simp]:
  "mt_dead_generations (set_mstate st m) = mt_dead_generations m" "mt_dead_tokens (set_mstate st m) = mt_dead_tokens m"
  "mt_dead_generations (cancel_and_reset_token b m) = insert (mt_generation m) (mt_dead_generations m)"
  "mt_dead_tokens (cancel_and_reset_token b m) = mt_dead_tokens m"
  by (simp_all add: set_mstate_def notify_waiters_def cancel_and_reset_token_def cancel_token_def Let_def)

lemma start_locked_receivers:
  "receivers_ok m \<Longrightarrow> start_locked M u rx sp t m = (r, m') \<Longrightarrow> receivers_ok m'"
  by (fastforce simp: receivers_ok_def start_locked_def torrent_live_new_def token_cancelled_def set_mstate_def notify_waiters_def
      spawn_initialize_and_start_def Let_def split: managed_state.splits if_splits sum.splits)

lemma initialize_and_start_cases:
  assumes "initialize_and_start M I u ta m = (r, m')"
  shows "mt_state m' = mt_state m \<and> mt_fatal_receivers m' = mt_fatal_receivers m \<and> mt_dead_generations m' = mt_dead_generations m
       \<and> mt_dead_tokens m' = mt_dead_tokens m
     \<or> (\<exists>a p m1. mt_state m = MInitializing a \<and> start_locked M u (ta_peer_rx ta) (ta_start_paused ta) (ta_token ta)
          (set_mstate (MPaused p) m1) = (r, m') \<and> mt_fatal_receivers m1 = mt_fatal_receivers m
          \<and> mt_dead_generations m1 = mt_dead_generations m \<and> mt_dead_tokens m1 = mt_dead_tokens m)
     \<or> (\<exists>e m1. fst (initializing_check I (mt_inits m (ta_init ta))) = Inl e \<and> m' = set_mstate (MError e) m1
          \<and> mt_fatal_receivers m1 = mt_fatal_receivers m
          \<and> mt_dead_generations m1 = mt_dead_generations m \<and> mt_dead_tokens m1 = mt_dead_tokens m)"
proof -
  obtain c init' where c: "initializing_check I (mt_inits m (ta_init ta)) = (c, init')" by fastforce
  let ?m1 = "m\<lparr>mt_inits := (mt_inits m)(ta_init ta := init'), mt_tasks := remove1 ta (mt_tasks m)\<rparr>"
  show ?thesis
  proof (cases c)
    case (Inl e)
    with c assms have "m' = ?m1 \<or> m' = set_mstate (MError e) ?m1"
      by (auto simp: initialize_and_start_def Let_def split: if_splits)
    with Inl c show ?thesis by auto
  next
    case (Inr p)
    show ?thesis
    proof (cases "mt_state m")
      case (MInitializing a)
      with Inr c assms have "start_locked M u (ta_peer_rx ta) (ta_start_paused ta) (ta_token ta) (set_mstate (MPaused p) ?m1) = (r, m')"
        by (simp add: initialize_and_start_def Let_def is_initializing_def)
      with MInitializing show ?thesis by (intro disjI2 disjI1 exI [of _ a] exI [of _ p] exI [of _ ?m1]) simp
    qed (use Inr c assms in \<open>auto simp: initialize_and_start_def Let_def is_initializing_def\<close>)
  qed
qed

lemma pause_cases:
  assumes "pause M alive m = (r, m')"
  shows "m' = m
     \<or> (\<exists>t l. mt_state m = MLive t l \<and> mt_dead_tokens m' = insert t (mt_dead_tokens m) \<and> mt_dead_generations m' = mt_dead_generations m
          \<and> mt_fatal_receivers m' = mt_fatal_receivers m \<and> ((\<exists>l'. mt_state m' = MLive t l') \<or> (\<exists>p. mt_state m' = MPaused p)))
     \<or> (\<exists>a e m1. mt_state m = MInitializing a \<and> m' = (set_mstate (MError e) (cancel_and_reset_token alive m))\<lparr>mt_paused := True\<rparr>)"
  using assms
  by (auto simp: pause_def Let_def set_mstate_def notify_waiters_def split: managed_state.splits sum.splits prod.splits)

text \<open>A step within a state: receivers and tokens stay.\<close>

definition stays :: "('s, 'f) managed \<Rightarrow> ('s, 'f) managed \<Rightarrow> bool" where
  "stays m m' \<longleftrightarrow> mt_fatal_receivers m' = mt_fatal_receivers m \<and> mt_dead_generations m' = mt_dead_generations m
     \<and> mt_dead_tokens m' = mt_dead_tokens m
     \<and> (mt_state m' = mt_state m \<or> (\<exists>p p'. mt_state m = MPaused p \<and> mt_state m' = MPaused p')
        \<or> (\<exists>t l l'. mt_state m = MLive t l \<and> mt_state m' = MLive t l'))"

lemma stays_receivers: "stays m m' \<Longrightarrow> receivers_ok m \<Longrightarrow> receivers_ok m'"
  by (auto simp: stays_def receivers_ok_def token_cancelled_def)

lemma stays_kind: "stays m m' \<Longrightarrow> kind (mt_state m') = kind (mt_state m)"
  by (auto simp: stays_def kind_def)

lemma stays_set_streams: "stays m (set_streams ts m)"
  by (auto simp: stays_def set_streams_def split: managed_state.split)

lemma stays_reconnect: "stays m (reconnect_live now m)"
  by (auto simp: stays_def reconnect_live_def split: managed_state.split)

lemma stays_steps:
  "managed_update_only_files M only_files now m = (r1, m') \<Longrightarrow> stays m m'"
  "managed_stream M fid now m = (r2, m') \<Longrightarrow> stays m m'"
  "managed_poll_read M w n f m = (r3, m') \<Longrightarrow> stays m m'"
  "managed_seek pos f m = (r4, m') \<Longrightarrow> stays m m'"
  "stays m (managed_drop_stream sid m)"
proof -
  show "stays m m'" if "managed_update_only_files M only_files now m = (r1, m')"
    using that by (auto simp: managed_update_only_files_def Let_def stays_def split: managed_state.splits sum.splits prod.splits if_splits)
  have same: "stays m m" by (simp add: stays_def)
  have rec: "stays m (set_streams ts (reconnect_live now m))" for ts
    by (auto simp: stays_def set_streams_def reconnect_live_def split: managed_state.split)
  show "stays m m'" if "managed_stream M fid now m = (r2, m')"
    using that same rec stays_set_streams by (auto simp: managed_stream_def split: if_splits sum.splits prod.splits)
  show "stays m m'" if "managed_poll_read M w n f m = (r3, m')"
    using that same stays_set_streams by (auto simp: managed_poll_read_def split: sum.splits prod.splits)
  show "stays m m'" if "managed_seek pos f m = (r4, m')"
    using that same stays_set_streams by (auto simp: managed_seek_def split: sum.splits prod.splits)
  show "stays m (managed_drop_stream sid m)"
    using same stays_set_streams by (auto simp: managed_drop_stream_def split: sum.splits)
qed

lemma pause_receivers:
  assumes "receivers_ok m" and "pause M alive m = (r, m')"
  shows "receivers_ok m'"
  using pause_cases [OF assms(2)] assms(1) by (auto simp: receivers_ok_def token_cancelled_def) (metis fst_conv)

text \<open>What happens with \<open>strict\<close> can happen without.\<close>

lemma managed_step_weaken: "managed_step M strict m m' \<Longrightarrow> managed_step M False m m'"
  by (erule managed_step.cases) (auto intro: managed_step.intros)

lemma initialize_and_start_receivers:
  assumes "receivers_ok m" and "initialize_and_start M I u ta m = (r, m')"
    and "\<And>e. fst (initializing_check I (mt_inits m (ta_init ta))) = Inl e \<Longrightarrow> mt_state m = MInitializing (ta_init ta)"
  shows "receivers_ok m'"
  using initialize_and_start_cases [OF assms(2)]
proof (elim disjE exE conjE)
  fix a p and m1 :: "('a, 'b) managed"
  assume *: "mt_state m = MInitializing a" "mt_fatal_receivers m1 = mt_fatal_receivers m"
    "mt_dead_generations m1 = mt_dead_generations m" "mt_dead_tokens m1 = mt_dead_tokens m"
  assume st: "start_locked M u (ta_peer_rx ta) (ta_start_paused ta) (ta_token ta) (set_mstate (MPaused p) m1) = (r, m')"
  have "receivers_ok (set_mstate (MPaused p) m1)" using assms(1) * by (simp add: receivers_ok_def token_cancelled_def)
  from start_locked_receivers [OF this st] show ?thesis .
next
  fix e m1
  assume "fst (initializing_check I (mt_inits m (ta_init ta))) = Inl e" "m' = set_mstate (MError e) m1"
    "mt_fatal_receivers m1 = mt_fatal_receivers m" "mt_dead_generations m1 = mt_dead_generations m" "mt_dead_tokens m1 = mt_dead_tokens m"
  then show ?thesis using assms(1) assms(3) [of e] by (simp add: receivers_ok_def token_cancelled_def)
qed (use assms(1) in \<open>simp add: receivers_ok_def token_cancelled_def\<close>)

lemma managed_step_receivers:
  assumes "managed_step M True m m'" and "receivers_ok m"
  shows "receivers_ok m'"
  using assms(1)
proof cases
  case (ms_start u rx sp r)
  then show ?thesis
    using assms(2) start_locked_receivers [of "snd (child_token (m\<lparr>mt_paused := sp\<rparr>))"]
    by (auto simp: start_def child_token_def receivers_ok_def token_cancelled_def split: if_splits)
next
  case (ms_task ta I u r)
  then show ?thesis using initialize_and_start_receivers [OF assms(2), of M I u ta r m'] by blast
next
  case (ms_pause alive r)
  from pause_receivers [OF assms(2) this] show ?thesis .
next
  case (ms_fatal t e)
  then have "\<exists>l. mt_state m = MLive t l" using assms(2) by (auto simp: receivers_ok_def)
  with ms_fatal assms(2) show ?thesis
    by (auto simp: fatal_errors_receiver_def stop_with_error_def receivers_ok_def token_cancelled_def set_mstate_def notify_waiters_def
        dest: notin_set_remove1 set_remove1_subset [THEN subsetD])
      (metis fst_conv set_remove1_subset subsetD)
next
  case (ms_only_files only_files now r)
  from stays_receivers [OF stays_steps(1) [OF this] assms(2)] show ?thesis .
next
  case (ms_stream fid now r)
  from stays_receivers [OF stays_steps(2) [OF this] assms(2)] show ?thesis .
next
  case (ms_stream_reconnect now)
  then show ?thesis using stays_receivers [OF stays_reconnect assms(2)] by simp
next
  case (ms_stream_read w n f r)
  from stays_receivers [OF stays_steps(3) [OF this] assms(2)] show ?thesis .
next
  case (ms_stream_seek pos f r)
  from stays_receivers [OF stays_steps(4) [OF this] assms(2)] show ?thesis .
next
  case (ms_stream_drop sid)
  then show ?thesis using stays_receivers [OF stays_steps(5) assms(2)] by simp
qed (use assms(2) in \<open>auto simp: receivers_ok_def token_cancelled_def cancel_token_def init_set_queued_def\<close>)

text \<open>Deletion cancels the token of a live torrent, so no receiver is left.\<close>

lemma deletion_receivers:
  assumes "receivers_ok m" and "take_storage M (dismantle M m) = (files, m')"
  shows "receivers_ok m'" and "mt_state m' = MNone"
proof -
  obtain r m1 where m1: "pause M True (cancel_token m) = (r, m1)" by fastforce
  have kept: "mt_fatal_receivers m1 = mt_fatal_receivers m" "\<And>t. token_cancelled t m \<Longrightarrow> token_cancelled t m1"
    using pause_cases [OF m1] by (auto simp: token_cancelled_def cancel_token_def)
  have "token_cancelled t m1" if "t \<in> set (mt_fatal_receivers m1)" for t
  proof (cases "token_cancelled t m")
    case False
    with that assms(1) kept obtain l where "mt_state m = MLive t l" by (auto simp: receivers_ok_def)
    then have "t \<in> mt_dead_tokens m1" using m1 by (auto simp: pause_def Let_def set_mstate_def notify_waiters_def split: sum.splits prod.splits)
    then show ?thesis by (simp add: token_cancelled_def)
  qed (rule kept)
  moreover have "mt_fatal_receivers m' = mt_fatal_receivers m1" "mt_dead_generations m' = mt_dead_generations m1"
    "mt_dead_tokens m' = mt_dead_tokens m1" "mt_state m' = MNone"
    using assms(2) by (auto simp: dismantle_def m1 take_storage_def split: managed_state.splits prod.splits sum.splits)
  ultimately show "receivers_ok m'" "mt_state m' = MNone" by (auto simp: receivers_ok_def token_cancelled_def)
qed

lemma torrent_step_receivers:
  "torrent_step M True m m' \<Longrightarrow> receivers_ok m \<Longrightarrow> receivers_ok m'"
  by (erule torrent_step.cases) (auto dest: managed_step_receivers deletion_receivers(1))

lemma start_locked_kind:
  "start_locked M u rx sp t m = (r, m') \<Longrightarrow>
   kind (mt_state m') = kind (mt_state m) \<or> documented (kind (mt_state m)) (kind (mt_state m'))"
  by (drule start_locked_state) (auto simp: kind_def intro: documented.intros)

text \<open>The two ways in which the code leaves the documented transitions: the check of a task fails whose initialisation is not the current
  state, and, after that, a receiver of fatal errors that was not cancelled gets an error although its torrent is not live any more.\<close>

definition stale_check :: "('s, 'f) managed_env \<Rightarrow> ('s, 'f) managed \<Rightarrow> ('s, 'f) managed \<Rightarrow> bool" where
  "stale_check M m m' \<longleftrightarrow> (\<exists>ta \<in> set (mt_tasks m). mt_state m \<noteq> MInitializing (ta_init ta)
     \<and> (\<exists>I e. ie_live I = ie_live (me_init M) \<and> fst (initializing_check I (mt_inits m (ta_init ta))) = Inl e \<and> mt_state m' = MError e))"

definition stale_receiver :: "('s, 'f) managed \<Rightarrow> ('s, 'f) managed \<Rightarrow> bool" where
  "stale_receiver m m' \<longleftrightarrow> (\<exists>t \<in> set (mt_fatal_receivers m). \<not> token_cancelled t m \<and> (\<nexists>l. mt_state m = MLive t l)
     \<and> (\<exists>e. mt_state m' = MError e))"

lemma managed_step_kind:
  assumes "managed_step M strict m m'" and "strict \<Longrightarrow> receivers_ok m"
  shows "kind (mt_state m') = kind (mt_state m) \<or> documented (kind (mt_state m)) (kind (mt_state m'))
     \<or> kind (mt_state m) = KInitializing \<and> kind (mt_state m') = KLive
     \<or> \<not> strict \<and> (stale_check M m m' \<or> stale_receiver m m')"
  using assms(1)
proof cases
  case (ms_start u rx sp r)
  then show ?thesis
    using start_locked_kind [of M u rx sp _ "snd (child_token (m\<lparr>mt_paused := sp\<rparr>))"]
    by (auto simp: start_def child_token_def split: if_splits)
next
  case (ms_task ta I u r)
  from initialize_and_start_cases [OF ms_task(4)] show ?thesis
  proof (elim disjE exE conjE)
    fix a p m1
    assume "mt_state m = MInitializing a" "start_locked M u (ta_peer_rx ta) (ta_start_paused ta) (ta_token ta)
          (set_mstate (MPaused p) m1) = (r, m')"
    then show ?thesis using start_locked_state by (fastforce simp: kind_def intro: documented.intros)
  next
    fix e m1
    assume e: "fst (initializing_check I (mt_inits m (ta_init ta))) = Inl e" "m' = set_mstate (MError e) m1"
    show ?thesis
    proof (cases "mt_state m = MInitializing (ta_init ta)")
      case True
      with e show ?thesis by (simp add: kind_def documented.intros)
    next
      case False
      with e ms_task(1-3) have "\<not> strict" "stale_check M m m'" unfolding stale_check_def by auto
      then show ?thesis by blast
    qed
  qed simp
next
  case (ms_pause alive r)
  from pause_cases [OF this] show ?thesis by (auto simp: kind_def intro: documented.intros)
next
  case (ms_fatal t e)
  have e: "mt_state m' = MError e" by (simp add: ms_fatal(1) fatal_errors_receiver_def stop_with_error_def)
  show ?thesis
  proof (cases "\<exists>l. mt_state m = MLive t l")
    case True
    with e show ?thesis by (auto simp: kind_def intro: documented.intros)
  next
    case False
    with ms_fatal assms(2) e have "\<not> strict" "stale_receiver m m'" by (auto simp: stale_receiver_def receivers_ok_def)
    then show ?thesis by blast
  qed
next
  case (ms_live t l l')
  then show ?thesis by (simp add: kind_def)
next
  case (ms_only_files only_files now r)
  from stays_kind [OF stays_steps(1) [OF this]] show ?thesis by simp
next
  case (ms_stream fid now r)
  from stays_kind [OF stays_steps(2) [OF this]] show ?thesis by simp
next
  case (ms_stream_reconnect now)
  then show ?thesis using stays_kind [OF stays_reconnect, of now m] by simp
next
  case (ms_stream_read w n f r)
  from stays_kind [OF stays_steps(3) [OF this]] show ?thesis by simp
next
  case (ms_stream_seek pos f r)
  from stays_kind [OF stays_steps(4) [OF this]] show ?thesis by simp
next
  case (ms_stream_drop sid)
  then show ?thesis using stays_kind [OF stays_steps(5), of sid m] by simp
qed simp_all

lemma managed_step_none:
  assumes "managed_step M strict m m'" and "mt_state m = MNone"
  shows "mt_state m' = MNone \<or> (\<exists>e. mt_state m' = MError e)"
proof -
  have "kind (mt_state m') = KNone \<or> kind (mt_state m') = KError"
    using managed_step_kind [of M False m m'] managed_step_weaken [OF assms(1)] assms(2)
    by (auto simp: kind_def stale_check_def stale_receiver_def elim: documented.cases)
  then show ?thesis by (auto simp: kind_def split: managed_state.splits)
qed

interpretation torrent_strict: invariant_system managed_init "torrent_step M True" receivers_ok for M
  by unfold_locales (simp add: managed_init_def receivers_ok_def, rule torrent_step_receivers)

interpretation torrent_sys: invariant_system managed_init "torrent_step M strict"
    "\<lambda>m. menv_ok M \<longrightarrow> mt_state m = MNone \<or> state_ok (ie_live (me_init M)) (mt_state m)" for M strict
proof unfold_locales
  fix m m' :: "('a, 'b) managed"
  assume inv: "menv_ok M \<longrightarrow> mt_state m = MNone \<or> state_ok (ie_live (me_init M)) (mt_state m)" and "torrent_step M strict m m'"
  from this(2) show "menv_ok M \<longrightarrow> mt_state m' = MNone \<or> state_ok (ie_live (me_init M)) (mt_state m')"
  proof cases
    case ts_step
    then show ?thesis using inv managed_step_ok managed_step_none by (fastforce simp: state_ok_def)
  next
    case (ts_delete files)
    then have "mt_state m' = MNone" by (auto simp: take_storage_def split: managed_state.splits prod.splits sum.splits)
    then show ?thesis by simp
  qed
qed (auto simp: managed_init_def state_ok_def)

subsection \<open>Properties\<close>


text \<open>C3. Whatever happens to a torrent, in which order its user, its tasks, its peers and its readers act, and even when a stale check
  fails: when it is paused its chunk tracker satisfies its invariant and fits the torrent, when it is live it is in a
  consistent state (counters, piece tracker, streams), and in both its streams are on files of the torrent; it is in the empty
  state only after it was deleted.\<close>

theorem torrent_consistent:
  assumes "menv_ok M" and "reach managed_init (torrent_step M strict) m"
  shows "case mt_state m of
      MPaused p \<Rightarrow> ct_inv (pa_chunk_tracker p) \<and> ct_lengths (pa_chunk_tracker p) = le_lengths (ie_live (me_init M))
        \<and> (\<forall>f \<in> set (streamed_file_ids (pa_streams p)). f < length (le_file_infos (ie_live (me_init M))))
    | MLive _ l \<Rightarrow> (\<exists>others H. live_ok (ie_live (me_init M)) others H l)
    | MNone \<Rightarrow> \<not> reach managed_init (managed_step M strict) m
    | _ \<Rightarrow> True"
proof (cases "mt_state m = MNone")
  case True
  then show ?thesis using managed_sys.reach_inv [of M strict m] assms(1) by (auto simp: state_ok_def)
next
  case False
  then show ?thesis
    using torrent_sys.reach_inv [OF assms(2)] assms(1)
    by (auto simp: state_ok_def paused_ok_def live_consistent_def ct_frame_def split: managed_state.splits)
qed

text \<open>A failing check of a task that is not the current one puts even a live torrent in the error state, and leaves its
  token, and so its tasks, running.\<close>

lemma stale_check_stops_live_torrent:
  assumes "initializing_check I (mt_inits m (ta_init ta)) = (Inl (Bail e), init')" and "mt_state m = MLive t l"
  shows "mt_state (snd (initialize_and_start M I u ta m)) = MError (Bail e)
     \<and> (token_cancelled t (snd (initialize_and_start M I u ta m)) \<longleftrightarrow> token_cancelled t m)"
  using assms by (simp add: initialize_and_start_def Let_def token_cancelled_def)

subsection \<open>A concrete torrent\<close>

definition ex_managed_env :: "(byte list fs_storage, unit) managed_env" where
  "ex_managed_env = \<lparr>me_init = ex_init_env (\<lambda>_ d. Some (d = [5, 0, 7, 8])) non_persistent_bitv_factory, me_path_le = (\<lambda>_ _. True),
     me_peer_limit = None\<rparr>"

definition ex_managed :: "(byte list fs_storage, unit) managed" where
  "ex_managed = \<lparr>mt_paused = False, mt_state = MInitializing 0, mt_only_files = None, mt_metadata = True,
     mt_inits = (\<lambda>_. init_new None ex_fs () False), mt_next_init = 1, mt_tasks = [], mt_generation = 0, mt_next_child = 0,
     mt_dead_generations = {}, mt_dead_tokens = {}, mt_fatal_receivers = [], mt_peer_adders = [], mt_notified = 0\<rparr>"

definition ex_surroundings :: "(byte list fs_storage, unit) surroundings" where
  "ex_surroundings = \<lparr>su_session_alive = True, su_session_stats = agg_zero, su_fetched = 0, su_uploaded = 0,
     su_storage = Inr ex_fs, su_factory = ()\<rparr>"

definition ex_started :: "(byte list fs_storage, unit) managed" where
  "ex_started = snd (start ex_managed_env ex_surroundings True True ex_managed)"

lemma ex_managed_env_ok: "menv_ok ex_managed_env"
  using ex_env_ok ex_on_disk [of "\<lambda>_ d. Some (d = [5, 0, 7, 8])" non_persistent_bitv_factory, THEN on_diskD(2)]
  by (simp add: menv_ok_def ex_managed_env_def env_ok_def Let_def ex_init_env_def ex_init_live_def ex_env_def)

lemma ex_started_reach: "reach managed_init (torrent_step ex_managed_env strict) ex_started"
proof (rule reach_step [OF reach_init])
  show "managed_init ex_managed" by (simp add: managed_init_def ex_managed_def)
  show "torrent_step ex_managed_env strict ex_managed ex_started"
    unfolding ex_started_def by (intro ts_step ms_start [OF surjective_pairing])
qed

lemma ex_started_values:
  "mt_state ex_started = MInitializing 0"
  "mt_tasks ex_started = [\<lparr>ta_init = 0, ta_start_paused = True, ta_peer_rx = True, ta_token = (0, 0)\<rparr>]"
  "mt_inits ex_started 0 = init_new None ex_fs () False"
  by (simp_all add: ex_started_def start_def ex_surroundings_def ex_managed_def child_token_def start_locked_def
      spawn_initialize_and_start_def)

lemma ex_check_succeeds: "\<exists>p s'. initializing_check (me_init ex_managed_env) (init_new None ex_fs () False) = (Inr p, s')"
proof -
  let ?I = "me_init ex_managed_env" and ?s = "init_new None ex_fs () False"
  have I: "?I = ex_init_env (\<lambda>_ d. Some (d = [5, 0, 7, 8])) non_persistent_bitv_factory" by (simp add: ex_managed_env_def)
  have disk: "on_disk mem_os (\<lambda>c. c) ?I (in_files ?s)" unfolding I by (simp add: init_new_def ex_on_disk)
  have load: "load_have_pieces ?I ?s = (Inr None, ?s)" "validate_fastresume ?I None ?s = (Inr None, ?s)"
    by (simp_all add: I load_have_pieces_def validate_fastresume_def init_new_def ex_init_env_def non_persistent_bitv_factory_def)
  obtain bytes s3 where "full_check ?I ?s = (Inr bytes, s3)" "length bytes = piece_bitfield_bytes (le_lengths (ie_live ?I))"
  proof -
    have "bitv_store (ie_factory ?I)" using non_persistent.bitv_store_axioms by (simp add: I ex_init_env_def)
    moreover have "\<forall>f b. \<exists>r f'. bv_store_initial_check (ie_factory ?I) f (TorrentHash (ie_info_hash ?I)) b = (Inr r, f')"
      by (simp add: I ex_init_env_def non_persistent_bitv_factory_def)
    ultimately show ?thesis using full_check_fs [OF mem_os.os_files_axioms disk] that by blast
  qed
  moreover have "ie_session_alive ?I" by (simp add: I ex_init_env_def)
  ultimately show ?thesis
    using initializing_check_run [OF on_diskD(2,1) [OF disk] _ load] by fastforce
qed

text \<open>Starting the torrent paused and letting the check finish.\<close>

lemma ex_checked:
  assumes "m' = snd (initialize_and_start ex_managed_env (me_init ex_managed_env) ex_surroundings (hd (mt_tasks ex_started)) ex_started)"
  shows "managed_step ex_managed_env strict ex_started m'" and "\<exists>p. mt_state m' = MPaused p"
proof -
  obtain p s' where c: "initializing_check (me_init ex_managed_env) (mt_inits ex_started 0) = (Inr p, s')"
    using ex_check_succeeds by (auto simp: ex_started_values)
  show "managed_step ex_managed_env strict ex_started m'"
    by (rule ms_task [where ta = "hd (mt_tasks ex_started)" and I = "me_init ex_managed_env"])
      (auto simp: ex_started_values c assms intro: prod.collapse [symmetric])
  show "\<exists>p. mt_state m' = MPaused p"
    using c by (auto simp: assms initialize_and_start_def ex_started_values is_initializing_def start_locked_def)
qed


theorem torrent_consistent_witness:
  "\<exists>p. mt_state (snd (initialize_and_start ex_managed_env (me_init ex_managed_env) ex_surroundings (hd (mt_tasks ex_started)) ex_started)) = MPaused p
     \<and> ct_inv (pa_chunk_tracker p) \<and> ct_lengths (pa_chunk_tracker p) = ex_lengths"
proof -
  let ?m = "snd (initialize_and_start ex_managed_env (me_init ex_managed_env) ex_surroundings (hd (mt_tasks ex_started)) ex_started)"
  obtain p where p: "mt_state ?m = MPaused p" using ex_checked(2) [OF refl] by blast
  have "reach managed_init (torrent_step ex_managed_env True) ?m" by (rule reach_step [OF ex_started_reach ts_step [OF ex_checked(1) [OF refl]]])
  from torrent_consistent [OF ex_managed_env_ok this] p show ?thesis
    by (simp add: ex_managed_env_def ex_init_env_def ex_init_live_def)
qed

end
