(* ===== verification/Paths.thy ===== *)
theory Paths
  imports Ip_Ranges File_Info
begin

text \<open>
  What the session uses of \<open>std::path\<close> (unix): components, \<open>join\<close>, \<open>parent\<close> and \<open>file_stem\<close>, on paths as strings; and
  from \<open>src/src/session/mod.rs\<close> and \<open>src/src/session/helpers.rs\<close> what is computed with paths: the default folder of a torrent, the
  selection of files, and the removal of a torrent's files and directories.
\<close>

abbreviation slash :: char where
  "slash \<equiv> CHR ''/''"

fun split_slash :: "string \<Rightarrow> string list" where
  "split_slash [] = [[]]"
| "split_slash (c # cs) = (if c = slash then [] # split_slash cs else (c # hd (split_slash cs)) # tl (split_slash cs))"

definition segments :: "string \<Rightarrow> string list" where
  "segments p = filter (\<lambda>x. x \<noteq> []) (split_slash p)"

datatype component = RootDir | CurDir | ParentDir | Normal string

definition has_root :: "string \<Rightarrow> bool" where
  "has_root p \<longleftrightarrow> p \<noteq> [] \<and> hd p = slash"

definition segment_component :: "string \<Rightarrow> component" where
  "segment_component x = (if x = ''..'' then ParentDir else Normal x)"

definition components :: "string \<Rightarrow> component list" where
  "components p =
     (if has_root p then [RootDir] else if segments p \<noteq> [] \<and> hd (segments p) = ''.'' then [CurDir] else [])
       @ map segment_component (filter (\<lambda>x. x \<noteq> ''.'') (segments p))"

definition path_join :: "string \<Rightarrow> string \<Rightarrow> string" where
  "path_join a b = (if has_root b then b else if a = [] \<or> last a = slash then a @ b else a @ slash # b)"

text \<open>\<open>parent\<close>, for relative paths without redundant separators.\<close>

definition path_parent :: "string \<Rightarrow> string option" where
  "path_parent p = (if p = [] then None else Some (case rsplit_once slash p of None \<Rightarrow> [] | Some (d, _) \<Rightarrow> d))"

definition file_stem :: "string \<Rightarrow> string option" where
  "file_stem p =
     (case rev (components p) of
        Normal f # _ \<Rightarrow> Some (case rsplit_once (CHR ''.'') f of None \<Rightarrow> f | Some (b, _) \<Rightarrow> if b = [] then f else b)
      | _ \<Rightarrow> None)"

subsection \<open>The default folder of a torrent\<close>

definition check_valid :: "string \<Rightarrow> unit res" where
  "check_valid p =
     (if \<exists>c \<in> set (components p). (case c of Normal _ \<Rightarrow> False | _ \<Rightarrow> True)
      then Inl (Bail ''path traversal in torrent name detected'') else Inr ())"

text \<open>\<open>max_by_key\<close> takes the last of the longest files.\<close>

fun longest_file :: "(string \<times> nat) list \<Rightarrow> (string \<times> nat) option" where
  "longest_file [] = None"
| "longest_file (x # xs) = (case longest_file xs of None \<Rightarrow> Some x | Some y \<Rightarrow> if snd y < snd x then Some x else Some y)"

definition get_default_subfolder_for_torrent :: "(string \<times> nat) list \<Rightarrow> string option \<Rightarrow> string option \<Rightarrow> string option res" where
  "get_default_subfolder_for_torrent files name magnet_name =
     (if length files < 2 then Inr None
      else case name of
        Some (c # n) \<Rightarrow> res_bind (check_valid (c # n)) (\<lambda>_. Inr (Some (c # n)))
      | _ \<Rightarrow>
        (case magnet_name of
           Some n \<Rightarrow> res_bind (check_valid n) (\<lambda>_. Inr (Some n))
         | None \<Rightarrow>
           res_bind (ok_or Panic (longest_file files)) (\<lambda>(f, _).
           res_bind (ok_or (Bail ''can't determine longest filename'') (file_stem f)) (\<lambda>st. Inr (Some st)))))"

text \<open>The choice between the options and the default.\<close>

definition choose_output_folder ::
  "string \<Rightarrow> (string \<times> nat) list \<Rightarrow> string option \<Rightarrow> string option \<Rightarrow> string option \<Rightarrow> string option \<Rightarrow> string res" where
  "choose_output_folder session_folder files name magnet_name output_folder sub_folder =
     (case (output_folder, sub_folder) of
        (None, None) \<Rightarrow> res_bind (get_default_subfolder_for_torrent files name magnet_name)
          (\<lambda>sub. Inr (path_join session_folder (case sub of None \<Rightarrow> [] | Some p \<Rightarrow> p)))
      | (Some out, None) \<Rightarrow> Inr out
      | (Some _, Some _) \<Rightarrow> Inl (Bail ''you can't provide both output_folder and sub_folder'')
      | (None, Some sub) \<Rightarrow> Inr (path_join session_folder sub))"

subsection \<open>Selecting files\<close>

text \<open>\<open>re\<close> is the compiled regular expression, if it compiles; a name that is not valid UTF-8 is \<open>None\<close>.\<close>

definition compute_only_files_regex :: "(string \<Rightarrow> bool) option \<Rightarrow> string option list \<Rightarrow> nat list res" where
  "compute_only_files_regex re names =
     res_bind (ok_or (Bail ''filename regex is incorrect'') re) (\<lambda>is_match.
       let only = map fst (filter (\<lambda>(_, n). case n of None \<Rightarrow> False | Some s \<Rightarrow> is_match s) (enum names))
       in if only = [] then Inl (Bail ''none of the filenames match the given regex'') else Inr only)"

definition compute_only_files ::
  "(string \<Rightarrow> (string \<Rightarrow> bool) option) \<Rightarrow> string option list \<Rightarrow> nat list option \<Rightarrow> string option \<Rightarrow> nat list option res" where
  "compute_only_files regex names only_files only_files_regex =
     (case (only_files, only_files_regex) of
        (Some _, Some _) \<Rightarrow> Inl (Bail ''only_files and only_files_regex are mutually exclusive'')
      | (Some only, None) \<Rightarrow> if \<exists>i \<in> set only. length names \<le> i then Inl (Bail ''file id is out of range'') else Inr (Some only)
      | (None, Some r) \<Rightarrow> res_bind (compute_only_files_regex (regex r) names) (\<lambda>only. Inr (Some only))
      | (None, None) \<Rightarrow> Inr None)"

subsection \<open>Removing files and directories\<close>

lemma rsplit_once_length: "rsplit_once c p = Some (d, e) \<Longrightarrow> length d < length p"
proof -
  assume "rsplit_once c p = Some (d, e)"
  then have "c \<in> set p" "d = rev (tl (dropWhile (\<lambda>x. x \<noteq> c) (rev p)))"
    by (auto simp: rsplit_once_def split_once_def split: if_splits)
  moreover have "length (dropWhile (\<lambda>x. x \<noteq> c) (rev p)) \<le> length p" using length_dropWhile_le [of _ "rev p"] by simp
  ultimately show ?thesis by (cases p) (auto simp: less_Suc_eq_le)
qed

lemma path_parent_length: "path_parent p = Some d \<Longrightarrow> length d < length p"
  by (auto simp: path_parent_def split: if_splits option.splits dest: rsplit_once_length)

text \<open>The directories above a file, innermost first, without the torrent's folder itself.\<close>

function parents :: "string \<Rightarrow> string list" where
  "parents p = (case path_parent p of None \<Rightarrow> [] | Some d \<Rightarrow> if d = [] then [] else d # parents d)"
  by pat_completeness auto

termination
  by (relation "measure length") (auto simp: path_parent_length)

declare parents.simps [simp del]

text \<open>
  What the storage is told to remove, in order. The directories come out of a hash set and are then sorted by length, the longest
  first; the order of directories of the same length is that of the hash set, here any enumeration \<open>set_order\<close>.
\<close>

datatype removal = RemoveFile nat string | RemoveDirectoryIfEmpty string

definition sort_longest_first :: "string list \<Rightarrow> string list" where
  "sort_longest_first ds = sort_key (\<lambda>d. - int (length d)) ds"

definition removed_files :: "file_infos \<Rightarrow> (nat \<times> string) list" where
  "removed_files infos = map (\<lambda>(i, fi). (i, relative_filename fi)) (filter (\<lambda>(i, fi). \<not> padding fi) (enum infos))"

definition remove_files_and_dirs :: "(string list \<Rightarrow> string list) \<Rightarrow> file_infos \<Rightarrow> removal list" where
  "remove_files_and_dirs set_order infos =
     (let files = removed_files infos;
          all_dirs = set_order (remdups (concat (map (\<lambda>(i, f). parents f) files)))
      in map (\<lambda>(i, f). RemoveFile i f) files @ map RemoveDirectoryIfEmpty (sort_longest_first all_dirs))"

subsection \<open>Joining paths\<close>

lemma split_slash_nonempty [simp]: "split_slash p \<noteq> []"
  by (cases p) auto

lemma split_slash_append: "split_slash (a @ slash # b) = split_slash a @ split_slash b"
  by (induction a) auto

lemma segments_append: "segments (a @ slash # b) = segments a @ segments b"
  by (simp add: segments_def split_slash_append)

lemma segments_Nil [simp]: "segments [] = []"
  by (simp add: segments_def)

lemma no_root_segments: "\<not> has_root p \<Longrightarrow> p \<noteq> [] \<Longrightarrow> segments p \<noteq> []"
  by (cases p) (auto simp: has_root_def segments_def)

lemma has_root_append [simp]: "a \<noteq> [] \<Longrightarrow> has_root (a @ b) = has_root a"
  by (cases a) (simp_all add: has_root_def)

definition plain_path :: "string \<Rightarrow> bool" where
  "plain_path p \<longleftrightarrow> (\<exists>cs. components p = map Normal cs)"

lemma check_valid_plain: "check_valid p = Inr u \<Longrightarrow> plain_path p"
proof -
  assume "check_valid p = Inr u"
  then have "\<forall>c \<in> set (components p). (case c of Normal _ \<Rightarrow> True | _ \<Rightarrow> False)"
    by (auto simp: check_valid_def split: if_splits component.splits)
  moreover have "c \<in> range Normal" if "case c of Normal _ \<Rightarrow> True | _ \<Rightarrow> False" for c using that by (cases c) auto
  ultimately have "set (components p) \<subseteq> range Normal" by blast
  then show ?thesis unfolding plain_path_def by (metis ex_map_conv subset_iff rangeE)
qed

lemma components_no_root:
  "plain_path b \<Longrightarrow> \<not> has_root b \<and> components b = map segment_component (filter (\<lambda>x. x \<noteq> ''.'') (segments b))"
  by (cases "components b") (auto simp: plain_path_def components_def split: if_splits)

lemma components_slash:
  assumes "a \<noteq> []"
  shows "components (a @ slash # b) = components a @ map segment_component (filter (\<lambda>x. x \<noteq> ''.'') (segments b))"
  using assms no_root_segments [of a] by (auto simp: components_def segments_append)

text \<open>Joining a path of plain names only appends these names.\<close>

lemma components_join:
  assumes "plain_path b"
  shows "components (path_join a b) = components a @ components b"
proof -
  note b = components_no_root [OF assms]
  consider "a = []" | a' where "a = a' @ [slash]" "a' \<noteq> []" | "a = [slash]" | "a \<noteq> []" "last a \<noteq> slash"
    by (metis append_Nil append_butlast_last_id)
  then show ?thesis
  proof cases
    case 1
    then show ?thesis using components_no_root [OF assms] by (simp add: path_join_def components_def [of "[]"] has_root_def)
  next
    case 2
    then show ?thesis using b components_slash [of a' b] components_slash [of a' "[]"] by (simp add: path_join_def)
  next
    case 3
    then show ?thesis using b segments_append [of "[]" b] segments_append [of "[]" "[]"]
      by (simp add: path_join_def components_def has_root_def)
  next
    case 4
    then show ?thesis using b components_slash [of a b] by (simp add: path_join_def)
  qed
qed

subsection \<open>Properties\<close>

text \<open>The default folder of a torrent that has a name, in its metadata or in the magnet link, is the session's folder followed by
  plain names: it cannot leave the session's folder, whatever the name is.\<close>

theorem default_folder_inside:
  assumes out: "choose_output_folder folder files name magnet_name None None = Inr out"
    and named: "length files < 2 \<or> (\<exists>c n. name = Some (c # n)) \<or> magnet_name \<noteq> None"
  shows "\<exists>cs. components out = components folder @ map Normal cs"
proof -
  obtain sub where sub: "get_default_subfolder_for_torrent files name magnet_name = Inr sub"
    and o: "out = path_join folder (case sub of None \<Rightarrow> [] | Some p \<Rightarrow> p)"
    using out by (auto simp: choose_output_folder_def res_bind_def split: sum.splits)
  have "plain_path (case sub of None \<Rightarrow> [] | Some p \<Rightarrow> p)"
  proof (cases sub)
    case None
    then show ?thesis by (simp add: plain_path_def components_def has_root_def)
  next
    case (Some p)
    then have "check_valid p = Inr ()" using sub named
      by (auto simp: get_default_subfolder_for_torrent_def res_bind_def split: if_splits option.splits list.splits sum.splits)
    then show ?thesis using Some check_valid_plain by simp
  qed
  then show ?thesis unfolding o using components_join by (metis plain_path_def)
qed

text \<open>Without a name the longest file names the folder, and that name is not checked: with a longest file \<open>"...ext"\<close> the files
  go to the parent of the session's folder.\<close>

theorem subfolder_escape:
  assumes ext: "CHR ''.'' \<notin> set ext" "slash \<notin> set ext" and folder: "folder \<noteq> []"
    and longest: "\<forall>(f, n) \<in> set files. n < len" and files: "files \<noteq> []"
  shows "\<exists>out. choose_output_folder folder (files @ [(''...'' @ ext, len)]) None None None None = Inr out
    \<and> components out = components folder @ [ParentDir]"
proof -
  have sp: "split_slash x = [x]" if "slash \<notin> set x" for x using that by (induction x) auto
  have "longest_file (files @ [(f, len)]) = Some (f, len)" for f using longest by (induction files) auto
  moreover have "file_stem (''...'' @ ext) = Some ''..''"
  proof -
    have "components (''...'' @ ext) = [Normal (''...'' @ ext)]"
      using ext sp [of "''...'' @ ext"] by (simp add: components_def has_root_def segments_def segment_component_def)
    moreover have "rsplit_once CHR ''.'' (''...'' @ ext) = Some (''..'', ext)"
    proof -
      have all: "\<And>x. x \<in> set (rev ext) \<Longrightarrow> x \<noteq> CHR ''.''" using ext by auto
      show ?thesis
        unfolding rsplit_once_def split_once_def using takeWhile_append2 [of "rev ext" "\<lambda>x. x \<noteq> CHR ''.''" "''...''"] dropWhile_append2 [of "rev ext" "\<lambda>x. x \<noteq> CHR ''.''" "''...''"] all by simp
    qed
    ultimately show ?thesis by (simp add: file_stem_def)
  qed
  ultimately have "choose_output_folder folder (files @ [(''...'' @ ext, len)]) None None None None = Inr (path_join folder ''..'')"
    using files by (cases files) (simp_all add: choose_output_folder_def get_default_subfolder_for_torrent_def)
  moreover have "components (path_join folder ''..'') = components folder @ [ParentDir]"
  proof (cases "last folder = slash")
    case True
    then obtain a where a: "folder = a @ [slash]" using folder by (metis append_butlast_last_id)
    then show ?thesis using components_slash [of a "''..''"] components_slash [of a "[]"] segments_append [of "[]" "''..''"] segments_append [of "[]" "[]"]
      by (cases "a = []") (simp_all add: path_join_def has_root_def segments_def segment_component_def components_def)
  next
    case False
    then show ?thesis using folder components_slash [of folder "''..''"]
      by (simp add: path_join_def has_root_def segments_def segment_component_def)
  qed
  ultimately show ?thesis by blast
qed

lemma parents_shorter: "d \<in> set (parents p) \<Longrightarrow> length d < length p"
proof (induction p rule: parents.induct)
  case (1 p)
  from 1(2) obtain q where q: "path_parent p = Some q" "q \<noteq> []" "d = q \<or> d \<in> set (parents q)"
    unfolding parents.simps [of p] by (auto split: option.splits if_splits dest: sym)
  then show ?case using 1(1) path_parent_length [OF q(1)] by fastforce
qed

fun removal_path :: "removal \<Rightarrow> string" where
  "removal_path (RemoveFile i f) = f"
| "removal_path (RemoveDirectoryIfEmpty d) = d"

lemma sort_longest_first_antimono:
  "i \<le> j \<Longrightarrow> j < length ds \<Longrightarrow> length (sort_longest_first ds ! j) \<le> length (sort_longest_first ds ! i)"
  using sorted_nth_mono [of "map (\<lambda>d. - int (length d)) (sort_longest_first ds)" i j] by (simp add: sort_longest_first_def)

text \<open>When a torrent's files are removed, a directory is tried only after every file and directory of the torrent below it.\<close>

theorem removal_order:
  assumes "i < length rs" "j < length rs" and rs: "rs = remove_files_and_dirs set_order infos"
    and i: "rs ! i = RemoveDirectoryIfEmpty d" and below: "d \<in> set (parents (removal_path (rs ! j)))"
  shows "j < i"
proof (rule ccontr)
  define fs where "fs = removed_files infos"
  define ds where "ds = set_order (remdups (concat (map (\<lambda>(i, f). parents f) fs)))"
  have split: "rs = map (\<lambda>(i, f). RemoveFile i f) fs @ map RemoveDirectoryIfEmpty (sort_longest_first ds)"
    by (simp add: rs remove_files_and_dirs_def Let_def fs_def ds_def)
  assume "\<not> j < i"
  have nth: "k < length fs \<Longrightarrow> rs ! k \<noteq> RemoveDirectoryIfEmpty x" for k x by (simp add: split nth_append split_beta)
  have len: "length (sort_longest_first ds) = length ds" by (simp add: sort_longest_first_def)
  have ij: "length fs \<le> i" "i \<le> j" using nth i \<open>\<not> j < i\<close> by (metis not_less)+
  then have "length (sort_longest_first ds ! (j - length fs)) \<le> length (sort_longest_first ds ! (i - length fs))"
    using assms(2) by (intro sort_longest_first_antimono) (auto simp: split len)
  moreover have "rs ! k = RemoveDirectoryIfEmpty (sort_longest_first ds ! (k - length fs))" if "length fs \<le> k" "k < length rs" for k
    using that by (auto simp: split nth_append len)
  ultimately show False using parents_shorter [OF below] ij assms(1, 2) i by force
qed

theorem default_folder_inside_witness:
  "choose_output_folder ''/d'' [(''a'', 1), (''b'', 2)] (Some ''x/y'') None None None = Inr ''/d/x/y''
   \<and> (\<exists>cs. components ''/d/x/y'' = components ''/d'' @ map Normal cs)"
proof -
  have "choose_output_folder ''/d'' [(''a'', 1), (''b'', 2)] (Some ''x/y'') None None None = Inr ''/d/x/y''"
    by code_simp
  with default_folder_inside [OF this] show ?thesis by simp
qed

theorem subfolder_escape_witness:
  "\<exists>out. choose_output_folder ''/d'' ([(''a'', 1)] @ [(''...'' @ ''mkv'', 2)]) None None None None = Inr out
    \<and> components out = components ''/d'' @ [ParentDir]"
  by (rule subfolder_escape) simp_all

definition ex_removed :: file_infos where
  "ex_removed = [\<lparr>relative_filename = ''a/b/f'', offset_in_torrent = 0, piece_range = (0, 1), padding = False, fi_len = 1\<rparr>]"

lemma ex_parents: "parents ''a/b/f'' = [''a/b'', ''a'']" "parents ''a/b'' = [''a'']"
  by (simp_all add: parents.simps path_parent_def rsplit_once_def split_once_def)

lemma ex_removals: "remove_files_and_dirs (\<lambda>x. x) ex_removed = [RemoveFile 0 ''a/b/f'', RemoveDirectoryIfEmpty ''a/b'', RemoveDirectoryIfEmpty ''a'']"
  by (simp add: remove_files_and_dirs_def removed_files_def ex_removed_def enum_def sort_longest_first_def ex_parents)

theorem removal_order_witness:
  "remove_files_and_dirs (\<lambda>x. x) ex_removed ! 2 = RemoveDirectoryIfEmpty ''a'' \<and> (1 :: nat) < 2"
  using removal_order [of 2 "remove_files_and_dirs (\<lambda>x. x) ex_removed" 1 "\<lambda>x. x" ex_removed "''a''"]
  by (simp add: ex_removals ex_parents)

end
