(* ===== verification/Session_Persistence.thy ===== *)
theory Session_Persistence
  imports Initializing Paths
begin

text \<open>
  \<open>src/src/session_persistence/mod.rs\<close> and \<open>src/src/session_persistence/json.rs\<close>: what a session remembers of its torrents, and the JSON
  store that keeps it in files. The disk is the file system of \<open>Bitv_Files\<close> with the outcomes of its calls as arguments; \<open>serde_json\<close>,
  the magnet link printer and the printing of a hash are the parameters \<open>json_codec\<close>. A \<open>HashMap\<close> is an association list,
  of which only the map it stands for is used.
\<close>

subsection \<open>Serialized torrents\<close>

record serialized_torrent =
  st_info_hash :: id20
  st_torrent_bytes :: "byte list"
  st_trackers :: "string list"
  st_output_folder :: string
  st_only_files :: "nat list option"
  st_is_paused :: bool
  st_category :: "string option"

text \<open>\<open>AddTorrent\<close> and the fields of \<open>AddTorrentOptions\<close> that a session uses.\<close>

datatype add_torrent = AddUrl string | AddTorrentFileBytes "byte list"

record peer_connection_options =
  po_connect_timeout :: "nat option"
  po_read_write_timeout :: "nat option"
  po_keep_alive_interval :: "nat option"

record add_options =
  ao_paused :: bool
  ao_only_files :: "nat list option"
  ao_only_files_regex :: "string option"
  ao_overwrite :: bool
  ao_list_only :: bool
  ao_output_folder :: "string option"
  ao_sub_folder :: "string option"
  ao_preferred_id :: "nat option"
  ao_category :: "string option"
  ao_trackers :: "string list option"
  ao_initial_peers :: "socket_addr list option"
  ao_peer_opts :: "peer_connection_options option"
  ao_peer_limit :: "nat option"
  ao_magnet_resolution_timeout_secs :: "nat option"

definition add_options_default :: add_options where
  "add_options_default = \<lparr>ao_paused = False, ao_only_files = None, ao_only_files_regex = None, ao_overwrite = False, ao_list_only = False,
     ao_output_folder = None, ao_sub_folder = None, ao_preferred_id = None, ao_category = None, ao_trackers = None, ao_initial_peers = None,
     ao_peer_opts = None, ao_peer_limit = None, ao_magnet_resolution_timeout_secs = None\<rparr>"

text \<open>\<open>magnet\<close> prints a magnet link of a hash, trackers and a selection.\<close>

definition into_add_torrent ::
  "(id20 \<Rightarrow> string list \<Rightarrow> nat list option \<Rightarrow> string) \<Rightarrow> serialized_torrent \<Rightarrow> add_torrent \<times> add_options" where
  "into_add_torrent magnet st =
     (if st_torrent_bytes st \<noteq> [] then AddTorrentFileBytes (st_torrent_bytes st)
      else AddUrl (magnet (st_info_hash st) (st_trackers st) (st_only_files st)),
      add_options_default\<lparr>ao_paused := st_is_paused st, ao_output_folder := Some (st_output_folder st),
        ao_only_files := st_only_files st, ao_overwrite := True, ao_category := st_category st\<rparr>)"

text \<open>What the store reads of a managed torrent.\<close>

record torrent_view =
  tv_fs_storage :: bool
  tv_info_hash :: id20
  tv_torrent_bytes :: "byte list option"
  tv_trackers :: "string list"
  tv_only_files :: "nat list option"
  tv_is_paused :: bool
  tv_output_folder :: string
  tv_category :: "string option"

subsection \<open>The JSON store\<close>

type_synonym json_table = "(nat \<times> serialized_torrent) list"

record json_codec =
  jc_to_json :: "json_table \<Rightarrow> byte list option"
  jc_from_json :: "byte list \<Rightarrow> json_table option"
  jc_hash_name :: "id20 \<Rightarrow> string"

record json_store =
  js_folder :: string
  js_content :: json_table
  js_fs :: file_system

definition db_filename :: "string \<Rightarrow> file_name" where
  "db_filename folder = path_join folder ''session.json''"

definition torrent_bytes_filename :: "json_codec \<Rightarrow> json_store \<Rightarrow> id20 \<Rightarrow> file_name" where
  "torrent_bytes_filename J s h = path_join (js_folder s) (jc_hash_name J h @ ''.torrent'')"

definition bitv_filename :: "json_codec \<Rightarrow> json_store \<Rightarrow> id20 \<Rightarrow> file_name" where
  "bitv_filename J s h = path_join (js_folder s) (jc_hash_name J h @ ''.bitv'')"

definition json_new :: "json_codec \<Rightarrow> bool \<Rightarrow> bitv_io \<Rightarrow> string \<Rightarrow> file_system \<Rightarrow> json_store res" where
  "json_new J dir_ok io folder fs =
     (if \<not> dir_ok then Inl (Bail ''couldn't create directory for session storage'')
      else let made = (\<lambda>db. \<lparr>js_folder = folder, js_content = db, js_fs = fs\<rparr>) in
        case fs (db_filename folder) of
          None \<Rightarrow> Inr (made [])
        | Some raw \<Rightarrow>
          if \<not> io_open_ok io then Inl (Bail ''error opening session file'')
          else if \<not> io_read_ok io then Inl (Bail ''error reading session file'')
          else case jc_from_json J raw of
            None \<Rightarrow> Inl (Bail ''error deserializing session database'')
          | Some db \<Rightarrow> Inr (made db))"

definition to_hash :: "json_store \<Rightarrow> torrent_id_or_hash \<Rightarrow> id20 res" where
  "to_hash s i = (case i of TorrentId n \<Rightarrow> ok_or (Bail ''not found'') (map_option st_info_hash (map_of (js_content s) n)) | TorrentHash h \<Rightarrow> Inr h)"

text \<open>A file is written beside the old one and renamed over it.\<close>

definition replace_file :: "bitv_io \<Rightarrow> file_name \<Rightarrow> byte list option \<Rightarrow> file_system \<Rightarrow> unit res \<times> file_system" where
  "replace_file io filename data fs =
     (let tmp = filename @ ''.tmp'' in
      if \<not> io_open_ok io then (Inl (Bail ''error opening''), fs)
      else case data of
        None \<Rightarrow> (Inl (Bail ''error serializing''), fs(tmp \<mapsto> []))
      | Some d \<Rightarrow>
        if \<not> io_write_ok io then (Inl (Bail ''error writing''), fs(tmp \<mapsto> take (io_written io) d))
        else if \<not> io_rename_ok io then (Inl (Bail ''error renaming persistence file''), fs(tmp \<mapsto> d))
        else (Inr (), fs(filename \<mapsto> d, tmp := None)))"

definition json_flush :: "json_codec \<Rightarrow> bitv_io \<Rightarrow> (json_store, unit) sm" where
  "json_flush J io s =
     (case replace_file io (db_filename (js_folder s)) (jc_to_json J (js_content s)) (js_fs s) of
        (r, fs) \<Rightarrow> (r, s\<lparr>js_fs := fs\<rparr>))"

definition serialize_torrent :: "torrent_view \<Rightarrow> serialized_torrent" where
  "serialize_torrent t = \<lparr>st_info_hash = tv_info_hash t, st_torrent_bytes = [], st_trackers = tv_trackers t,
     st_output_folder = tv_output_folder t, st_only_files = tv_only_files t, st_is_paused = tv_is_paused t, st_category = tv_category t\<rparr>"

text \<open>Errors of writing the torrent file are only logged.\<close>

definition write_torrent_bytes :: "json_codec \<Rightarrow> bitv_io \<Rightarrow> torrent_view \<Rightarrow> json_store \<Rightarrow> json_store" where
  "write_torrent_bytes J io t s =
     (let data = (case tv_torrent_bytes t of None \<Rightarrow> [] | Some b \<Rightarrow> b); name = torrent_bytes_filename J s (tv_info_hash t) in
      if data = [] \<or> \<not> io_open_ok io then s
      else s\<lparr>js_fs := (js_fs s)(name \<mapsto> (if io_write_ok io then data else take (io_written io) data))\<rparr>)"

definition json_update_db :: "json_codec \<Rightarrow> bitv_io \<Rightarrow> bitv_io \<Rightarrow> nat \<Rightarrow> torrent_view \<Rightarrow> bool \<Rightarrow> (json_store, unit) sm" where
  "json_update_db J io_file io_db i t write_torrent_file s =
     (if \<not> tv_fs_storage t
      then (Inl (Bail ''storages other than FilesystemStorageFactory are not supported''), s)
      else let s1 = (if write_torrent_file then write_torrent_bytes J io_file t s else s)
           in json_flush J io_db (s1\<lparr>js_content := AList.update i (serialize_torrent t) (js_content s1)\<rparr>))"

definition json_store_torrent :: "json_codec \<Rightarrow> bitv_io \<Rightarrow> bitv_io \<Rightarrow> nat \<Rightarrow> torrent_view \<Rightarrow> (json_store, unit) sm" where
  "json_store_torrent J io_file io_db i t = json_update_db J io_file io_db i t True"

definition json_update_metadata :: "json_codec \<Rightarrow> bitv_io \<Rightarrow> nat \<Rightarrow> torrent_view \<Rightarrow> (json_store, unit) sm" where
  "json_update_metadata J io i t = json_update_db J io io i t False"

definition json_next_id :: "json_store \<Rightarrow> nat" where
  "json_next_id s = (if js_content s = [] then 0 else Max (set (map fst (js_content s))) + 1)"

definition remove_file :: "bool \<Rightarrow> file_name \<Rightarrow> file_system \<Rightarrow> file_system" where
  "remove_file ok f fs = (if ok then fs(f := None) else fs)"

definition json_delete :: "json_codec \<Rightarrow> bitv_io \<Rightarrow> bool \<Rightarrow> bool \<Rightarrow> nat \<Rightarrow> (json_store, unit) sm" where
  "json_delete J io rm_torrent rm_bitv i s =
     (case map_of (js_content s) i of
        None \<Rightarrow> (Inl (Bail ''error deleting: didn't find torrent''), s)
      | Some t \<Rightarrow>
        sm_bind (json_flush J io) (\<lambda>_. sm_modify (\<lambda>s. s\<lparr>js_fs :=
            remove_file rm_bitv (bitv_filename J s (st_info_hash t))
              (remove_file rm_torrent (torrent_bytes_filename J s (st_info_hash t)) (js_fs s))\<rparr>))
          (s\<lparr>js_content := AList.delete i (js_content s)\<rparr>))"

definition json_get :: "json_codec \<Rightarrow> bitv_io \<Rightarrow> nat \<Rightarrow> json_store \<Rightarrow> serialized_torrent res" where
  "json_get J io i s =
     res_bind (ok_or (Bail ''no torrent found'') (map_of (js_content s) i)) (\<lambda>st.
       case js_fs s (torrent_bytes_filename J s (st_info_hash st)) of
         None \<Rightarrow> Inr st
       | Some raw \<Rightarrow> Inr (if io_open_ok io \<and> io_read_ok io then st\<lparr>st_torrent_bytes := raw\<rparr> else st))"

definition json_stream_all :: "json_codec \<Rightarrow> bitv_io \<Rightarrow> json_store \<Rightarrow> (nat \<times> serialized_torrent res) list" where
  "json_stream_all J io s = map (\<lambda>i. (i, json_get J io i s)) (remdups (map fst (js_content s)))"

subsection \<open>Categories\<close>

text \<open>\<open>src/src/category.rs\<close>: a table of names with an optional folder.\<close>

record torrent_category =
  tc_name :: string
  tc_save_path :: "string option"

type_synonym categories = "string \<rightharpoonup> torrent_category"

definition category_create :: "string \<Rightarrow> string option \<Rightarrow> (categories, unit) sm" where
  "category_create name p cats =
     (if cats name \<noteq> None then (Inl (Bail ''category already exists''), cats)
      else (Inr (), cats(name \<mapsto> \<lparr>tc_name = name, tc_save_path = p\<rparr>)))"

definition category_edit :: "string \<Rightarrow> string option \<Rightarrow> (categories, unit) sm" where
  "category_edit name p cats =
     (case cats name of
        None \<Rightarrow> (Inl (Bail ''category does not exist''), cats)
      | Some c \<Rightarrow> (Inr (), cats(name \<mapsto> c\<lparr>tc_save_path := p\<rparr>)))"

definition category_remove :: "string \<Rightarrow> (categories, unit) sm" where
  "category_remove name cats =
     (if cats name = None then (Inl (Bail ''category does not exist''), cats) else (Inr (), cats(name := None)))"

definition categories_filename :: "json_store \<Rightarrow> file_name" where
  "categories_filename s = path_join (js_folder s) ''categories.json''"

definition load_categories :: "(byte list \<Rightarrow> categories option) \<Rightarrow> bitv_io \<Rightarrow> json_store \<Rightarrow> categories res" where
  "load_categories from_json io s =
     (case js_fs s (categories_filename s) of
        None \<Rightarrow> Inr Map.empty
      | Some raw \<Rightarrow>
        if \<not> io_open_ok io then Inl (Bail ''error opening categories file'')
        else if \<not> io_read_ok io then Inl (Bail ''error reading categories file'')
        else ok_or (Bail ''error deserializing categories'') (from_json raw))"

definition store_categories :: "(categories \<Rightarrow> byte list option) \<Rightarrow> bitv_io \<Rightarrow> categories \<Rightarrow> (json_store, unit) sm" where
  "store_categories to_json io cats s =
     (case replace_file io (categories_filename s) (to_json cats) (js_fs s) of (r, fs) \<Rightarrow> (r, s\<lparr>js_fs := fs\<rparr>))"

subsection \<open>What a session relies on\<close>

locale session_store =
  fixes entries :: "'s \<Rightarrow> nat \<rightharpoonup> serialized_torrent" and next_id :: "'s \<Rightarrow> nat"
    and store :: "nat \<Rightarrow> torrent_view \<Rightarrow> ('s, unit) sm" and delete :: "nat \<Rightarrow> ('s, unit) sm"
  assumes next_id_fresh: "entries s (next_id s) = None"
    and store_entries: "store i t s = (Inr (), s') \<Longrightarrow> entries s' = (entries s)(i \<mapsto> serialize_torrent t)"
    and delete_entries: "delete i s = (Inr (), s') \<Longrightarrow> entries s' = (entries s)(i := None)"
begin

lemma store_next_keeps: "store (next_id s) t s = (Inr (), s') \<Longrightarrow> entries s \<subseteq>\<^sub>m entries s'"
  using next_id_fresh [of s] by (auto simp: store_entries map_le_def)

lemma store_delete: "store (next_id s) t s = (Inr (), s1) \<Longrightarrow> delete (next_id s) s1 = (Inr (), s2) \<Longrightarrow> entries s2 = entries s"
  using next_id_fresh [of s] by (auto simp: store_entries delete_entries fun_eq_iff)

end

definition json_entries :: "json_store \<Rightarrow> nat \<rightharpoonup> serialized_torrent" where
  "json_entries s = map_of (js_content s)"

lemma json_flush_content: "js_content (snd (json_flush J io s)) = js_content s" "js_folder (snd (json_flush J io s)) = js_folder s"
  by (auto simp: json_flush_def split: prod.split)

lemma write_torrent_bytes_content [simp]:
  "js_content (write_torrent_bytes J io t s) = js_content s" "js_folder (write_torrent_bytes J io t s) = js_folder s"
  by (simp_all add: write_torrent_bytes_def Let_def)

lemma json_update_db_content:
  assumes "json_update_db J io1 io2 i t w s = (r, s')" and "tv_fs_storage t"
  shows "json_entries s' = (json_entries s)(i \<mapsto> serialize_torrent t)" "js_folder s' = js_folder s"
proof -
  define s1 where "s1 = (if w then write_torrent_bytes J io1 t s else s)"
  have s1: "js_content s1 = js_content s" "js_folder s1 = js_folder s" by (simp_all add: s1_def)
  have s': "s' = snd (json_flush J io2 (s1\<lparr>js_content := AList.update i (serialize_torrent t) (js_content s1)\<rparr>))"
    using assms by (simp add: json_update_db_def s1_def Let_def)
  show "json_entries s' = (json_entries s)(i \<mapsto> serialize_torrent t)" "js_folder s' = js_folder s"
    by (simp_all add: s' s1 json_flush_content json_entries_def update_conv')
qed

interpretation json_st: session_store json_entries json_next_id "json_store_torrent J io1 io2" "json_delete J io3 rm1 rm2"
  for J io1 io2 io3 rm1 rm2
proof unfold_locales
  fix s s' :: json_store and i t
  show "json_entries s (json_next_id s) = None"
    using Max_ge [of "set (map fst (js_content s))"]
    by (fastforce simp: json_entries_def json_next_id_def map_of_eq_None_iff)
  show "json_entries s' = (json_entries s)(i \<mapsto> serialize_torrent t)" if "json_store_torrent J io1 io2 i t s = (Inr (), s')"
    using json_update_db_content(1) [of J io1 io2 i t True s "Inr ()" s'] that
    by (auto simp: json_store_torrent_def json_update_db_def split: if_splits)
  show "json_entries s' = (json_entries s)(i := None)" if "json_delete J io3 rm1 rm2 i s = (Inr (), s')"
  proof -
    obtain r s1 where f: "json_flush J io3 (s\<lparr>js_content := AList.delete i (js_content s)\<rparr>) = (r, s1)" by fastforce
    have "js_content s1 = AList.delete i (js_content s)"
      using json_flush_content(1) [of J io3 "s\<lparr>js_content := AList.delete i (js_content s)\<rparr>"] f by simp
    with that f show ?thesis
      by (auto simp: json_delete_def json_entries_def sm_bind_def sm_modify_def delete_conv' split: option.splits sum.splits)
  qed
qed

subsection \<open>Properties\<close>

text \<open>The table in memory never holds torrent bytes; \<open>serde_json\<close> gives back a table that was written.\<close>

definition plain_table :: "json_table \<Rightarrow> bool" where
  "plain_table db \<longleftrightarrow> (\<forall>(i, t) \<in> set db. st_torrent_bytes t = [])"

definition json_codec_ok :: "json_codec \<Rightarrow> bool" where
  "json_codec_ok J \<longleftrightarrow> (\<forall>db b. plain_table db \<longrightarrow> jc_to_json J db = Some b \<longrightarrow>
     (\<exists>db'. jc_from_json J b = Some db' \<and> map_of db' = map_of db))"

text \<open>Reopening the store from what is on disk gives the table \<open>m\<close>.\<close>

definition reopens_to :: "json_codec \<Rightarrow> string \<Rightarrow> file_system \<Rightarrow> (nat \<rightharpoonup> serialized_torrent) \<Rightarrow> bool" where
  "reopens_to J folder fs m \<longleftrightarrow> (\<exists>s. json_new J True io_fine folder fs = Inr s \<and> json_entries s = m)"

lemma reopens_to_cong: "fs (db_filename folder) = fs' (db_filename folder) \<Longrightarrow> reopens_to J folder fs m = reopens_to J folder fs' m"
  by (auto simp: reopens_to_def json_new_def json_entries_def io_fine_def Let_def split: option.split)

lemma plain_table_update: "plain_table db \<Longrightarrow> plain_table (AList.update i (serialize_torrent t) db)"
  by (induction db) (auto simp: plain_table_def serialize_torrent_def)

text \<open>The files of the store have different names.\<close>

lemma file_names_differ:
  "torrent_bytes_filename J s h \<noteq> db_filename folder" "torrent_bytes_filename J s h \<noteq> db_filename folder @ ''.tmp''"
  by (auto simp: torrent_bytes_filename_def db_filename_def path_join_def has_root_def dest: arg_cong [of _ _ last] split: if_splits)

text \<open>The states of the disk between the calls of a replacement, which a crash can leave behind.\<close>

definition replace_crash :: "file_name \<Rightarrow> byte list option \<Rightarrow> file_system \<Rightarrow> file_system set" where
  "replace_crash filename data fs =
     insert fs (case data of None \<Rightarrow> {fs(filename @ ''.tmp'' \<mapsto> [])}
       | Some d \<Rightarrow> insert (fs(filename \<mapsto> d, filename @ ''.tmp'' := None)) (range (\<lambda>n. fs(filename @ ''.tmp'' \<mapsto> take n d))))"

definition store_crash :: "json_codec \<Rightarrow> nat \<Rightarrow> torrent_view \<Rightarrow> json_store \<Rightarrow> file_system set" where
  "store_crash J i t s =
     (let bytes = (case tv_torrent_bytes t of None \<Rightarrow> [] | Some b \<Rightarrow> b);
          torrent_file = (\<lambda>n. (js_fs s)(torrent_bytes_filename J s (tv_info_hash t) \<mapsto> take n bytes)) in
      \<Union>fs \<in> insert (js_fs s) (range torrent_file).
        replace_crash (db_filename (js_folder s)) (jc_to_json J (AList.update i (serialize_torrent t) (js_content s))) fs)"

lemma replace_file_crash: "snd (replace_file io filename data fs) \<in> replace_crash filename data fs"
proof -
  have "fs(f \<mapsto> d) \<in> range (\<lambda>n. fs(f \<mapsto> take n d))" for f and d :: "byte list"
    by (rule range_eqI [of _ _ "length d"]) simp
  then show ?thesis by (auto simp: replace_file_def replace_crash_def Let_def split: option.split)
qed

lemma store_in_crash_states:
  assumes "tv_fs_storage t"
  shows "js_fs (snd (json_store_torrent J io1 io2 i t s)) \<in> store_crash J i t s"
proof -
  let ?s1 = "write_torrent_bytes J io1 t s"
  let ?bytes = "case tv_torrent_bytes t of None \<Rightarrow> [] | Some b \<Rightarrow> b"
  let ?n = "if io_write_ok io1 then length ?bytes else io_written io1"
  have "js_fs ?s1 \<in> insert (js_fs s) (range (\<lambda>n. (js_fs s)(torrent_bytes_filename J s (tv_info_hash t) \<mapsto> take n ?bytes)))"
    by (auto simp: write_torrent_bytes_def Let_def intro: range_eqI [of _ _ ?n])
  moreover have "js_fs (snd (json_store_torrent J io1 io2 i t s)) \<in>
      replace_crash (db_filename (js_folder s)) (jc_to_json J (AList.update i (serialize_torrent t) (js_content s))) (js_fs ?s1)"
    using replace_file_crash [of io2 "db_filename (js_folder s)" "jc_to_json J (AList.update i (serialize_torrent t) (js_content s))" "js_fs ?s1"] assms
    by (simp add: json_store_torrent_def json_update_db_def json_flush_def Let_def split_beta)
  ultimately show ?thesis unfolding store_crash_def Let_def by blast
qed


text \<open>Restarting a session: after a torrent was stored without errors, the reopened store still has all other torrents, and
  gives this one back with its torrent file, paused state, selection, folder and category, as an addition under the same id.\<close>

theorem session_restart_roundtrip:
  assumes J: "json_codec_ok J" "plain_table (js_content s)"
    and store: "json_store_torrent J io_fine io_fine i t s = (Inr (), s')"
    and bytes: "tv_torrent_bytes t = Some b" "b \<noteq> []"
  shows "\<exists>s2. json_new J True io_fine (js_folder s) (js_fs s') = Inr s2
     \<and> json_entries s2 = (json_entries s)(i \<mapsto> serialize_torrent t)
     \<and> json_get J io_fine i s2 = Inr (serialize_torrent t\<lparr>st_torrent_bytes := b\<rparr>)
     \<and> into_add_torrent magnet (serialize_torrent t\<lparr>st_torrent_bytes := b\<rparr>)
         = (AddTorrentFileBytes b, add_options_default\<lparr>ao_paused := tv_is_paused t, ao_output_folder := Some (tv_output_folder t),
              ao_only_files := tv_only_files t, ao_overwrite := True, ao_category := tv_category t\<rparr>)"
proof -
  let ?f = "db_filename (js_folder s)" and ?db = "AList.update i (serialize_torrent t) (js_content s)"
  let ?tf = "torrent_bytes_filename J s (tv_info_hash t)"
  obtain d where d: "jc_to_json J ?db = Some d" "js_fs s' = (js_fs s)(?tf \<mapsto> b, ?f \<mapsto> d, ?f @ ''.tmp'' := None)"
    using store bytes
    by (auto simp: json_store_torrent_def json_update_db_def json_flush_def replace_file_def write_torrent_bytes_def io_fine_def Let_def
        split: if_splits option.splits prod.splits)
  obtain db' where db': "jc_from_json J d = Some db'" "map_of db' = map_of ?db"
    using J d(1) plain_table_update unfolding json_codec_ok_def by meson
  let ?s2 = "\<lparr>js_folder = js_folder s, js_content = db', js_fs = js_fs s'\<rparr>"
  have "json_new J True io_fine (js_folder s) (js_fs s') = Inr ?s2"
    using db'(1) by (simp add: json_new_def d(2) io_fine_def Let_def)
  moreover have e: "json_entries ?s2 = (json_entries s)(i \<mapsto> serialize_torrent t)"
    using db'(2) by (simp add: json_entries_def update_conv')
  moreover have "js_fs s' ?tf = Some b" using file_names_differ by (simp add: d(2))
  then have "json_get J io_fine i ?s2 = Inr (serialize_torrent t\<lparr>st_torrent_bytes := b\<rparr>)"
    using e by (simp add: json_get_def json_entries_def io_fine_def serialize_torrent_def torrent_bytes_filename_def)
  ultimately show ?thesis
    using bytes by (intro exI [of _ ?s2]) (simp add: into_add_torrent_def serialize_torrent_def)
qed

text \<open>A codec for a fixed torrent file, as the example needs no more.\<close>

definition ex_torrent_view :: torrent_view where
  "ex_torrent_view = \<lparr>tv_fs_storage = True, tv_info_hash = 5, tv_torrent_bytes = Some [1, 2], tv_trackers = [], tv_only_files = Some [0],
     tv_is_paused = True, tv_output_folder = ''o'', tv_category = None\<rparr>"

definition ex_jcodec :: json_codec where
  "ex_jcodec = \<lparr>jc_to_json = (\<lambda>db. if db = [(0, serialize_torrent ex_torrent_view)] then Some [9] else if db = [] then Some [8] else None),
     jc_from_json = (\<lambda>b. if b = [9] then Some [(0, serialize_torrent ex_torrent_view)] else if b = [8] then Some [] else None),
     jc_hash_name = (\<lambda>h. ''h'')\<rparr>"

definition ex_jstore :: json_store where
  "ex_jstore = \<lparr>js_folder = ''f'', js_content = [], js_fs = Map.empty\<rparr>"

lemma ex_jcodec_ok: "json_codec_ok ex_jcodec" "plain_table (js_content ex_jstore)"
  by (auto simp: json_codec_ok_def ex_jcodec_def ex_jstore_def plain_table_def)


theorem session_restart_roundtrip_witness:
  "\<exists>s2. json_new ex_jcodec True io_fine ''f'' (js_fs (snd (json_store_torrent ex_jcodec io_fine io_fine 0 ex_torrent_view ex_jstore))) = Inr s2
     \<and> json_get ex_jcodec io_fine 0 s2 = Inr (serialize_torrent ex_torrent_view\<lparr>st_torrent_bytes := [1, 2]\<rparr>)"
proof -
  obtain s' where s': "json_store_torrent ex_jcodec io_fine io_fine 0 ex_torrent_view ex_jstore = (Inr (), s')"
    by (simp add: json_store_torrent_def json_update_db_def json_flush_def replace_file_def io_fine_def ex_jcodec_def ex_jstore_def
        write_torrent_bytes_def ex_torrent_view_def Let_def)
  have "tv_torrent_bytes ex_torrent_view = Some [1, 2]" "js_folder ex_jstore = ''f''" by (simp_all add: ex_torrent_view_def ex_jstore_def)
  with session_restart_roundtrip [OF ex_jcodec_ok s'] s' show ?thesis by auto
qed

end
