(* ===== verification/Session_Db.thy ===== *)
theory Session_Db
  imports Session_Persistence
begin

text \<open>
  \<open>SessionDatabase\<close> of \<open>src/src/session/types.rs\<close>: the torrents of a session by id, and the reverse index from info hash to id that
  incoming connections use. A handle is any value with an info hash (\<open>ManagedTorrentHandle::info_hash\<close>, which never changes).
\<close>

record 'h session_db =
  sd_torrents :: "nat \<rightharpoonup> 'h"
  sd_info_hash_to_id :: "id20 \<rightharpoonup> nat"

definition session_db_default :: "'h session_db" where
  "session_db_default = \<lparr>sd_torrents = Map.empty, sd_info_hash_to_id = Map.empty\<rparr>"

definition db_add_torrent :: "('h \<Rightarrow> id20) \<Rightarrow> 'h \<Rightarrow> nat \<Rightarrow> 'h session_db \<Rightarrow> 'h session_db" where
  "db_add_torrent info_hash torrent i db =
     db\<lparr>sd_info_hash_to_id := (sd_info_hash_to_id db)(info_hash torrent \<mapsto> i), sd_torrents := (sd_torrents db)(i \<mapsto> torrent)\<rparr>"

definition db_remove_torrent :: "('h \<Rightarrow> id20) \<Rightarrow> nat \<Rightarrow> 'h session_db \<Rightarrow> 'h option \<times> 'h session_db" where
  "db_remove_torrent info_hash i db =
     (case sd_torrents db i of
        None \<Rightarrow> (None, db)
      | Some h \<Rightarrow> (Some h, db\<lparr>sd_torrents := (sd_torrents db)(i := None), sd_info_hash_to_id := (sd_info_hash_to_id db)(info_hash h := None)\<rparr>))"

definition db_get_by_info_hash :: "id20 \<Rightarrow> 'h session_db \<Rightarrow> (nat \<times> 'h) option" where
  "db_get_by_info_hash h db =
     Option.bind (sd_info_hash_to_id db h) (\<lambda>i. Option.bind (sd_torrents db i) (\<lambda>t. Some (i, t)))"

text \<open>The duplicate check of \<open>add_torrent_internal\<close>: by id, then by info hash.\<close>

definition db_existing :: "nat \<Rightarrow> id20 \<Rightarrow> 'h session_db \<Rightarrow> (nat \<times> 'h) option" where
  "db_existing i info_hash db =
     (case sd_torrents db i of Some t \<Rightarrow> Some (i, t) | None \<Rightarrow> db_get_by_info_hash info_hash db)"

subsection \<open>What the session relies on\<close>

text \<open>A table with a second key: both lookups agree, and adding an entry whose keys are both free keeps them so.\<close>

locale torrent_index =
  fixes info_hash :: "'h \<Rightarrow> id20" and ok :: "'d \<Rightarrow> bool" and by_id :: "'d \<Rightarrow> nat \<rightharpoonup> 'h"
    and by_hash :: "'d \<Rightarrow> id20 \<rightharpoonup> nat \<times> 'h" and add :: "'h \<Rightarrow> nat \<Rightarrow> 'd \<Rightarrow> 'd" and remove :: "nat \<Rightarrow> 'd \<Rightarrow> 'd"
  assumes by_hash_iff: "ok d \<Longrightarrow> by_hash d x = Some (i, h) \<longleftrightarrow> by_id d i = Some h \<and> info_hash h = x"
    and add_ok: "ok d \<Longrightarrow> by_id d i = None \<Longrightarrow> by_hash d (info_hash h) = None \<Longrightarrow> ok (add h i d)"
    and add_by_id: "by_id (add h i d) = (by_id d)(i \<mapsto> h)"
    and remove_ok: "ok d \<Longrightarrow> ok (remove i d)"
    and remove_by_id: "by_id (remove i d) = (by_id d)(i := None)"
begin

lemma one_id_per_hash: "ok d \<Longrightarrow> by_id d i = Some h \<Longrightarrow> by_id d j = Some k \<Longrightarrow> info_hash h = info_hash k \<Longrightarrow> i = j"
  by (metis by_hash_iff option.inject prod.inject)

lemma hash_after_add:
  assumes "ok d" "by_id d i = None" "by_hash d (info_hash h) = None"
  shows "by_hash (add h i d) (info_hash h) = Some (i, h)"
  by (simp add: by_hash_iff [OF add_ok [OF assms]] add_by_id)

lemma hash_after_remove: "ok d \<Longrightarrow> by_id d i = Some h \<Longrightarrow> by_hash (remove i d) (info_hash h) = None"
proof (rule ccontr)
  assume ok: "ok d" and h: "by_id d i = Some h" and "by_hash (remove i d) (info_hash h) \<noteq> None"
  then obtain j k where "by_id (remove i d) j = Some k" "info_hash k = info_hash h"
    using by_hash_iff [OF remove_ok [OF ok]] by fastforce
  then show False using one_id_per_hash [OF ok h] by (force simp: remove_by_id split: if_splits)
qed

lemma remove_absent: "ok d \<Longrightarrow> by_id d i = None \<Longrightarrow> by_id (remove i d) = by_id d"
  by (auto simp: remove_by_id)

end

definition db_ok :: "('h \<Rightarrow> id20) \<Rightarrow> 'h session_db \<Rightarrow> bool" where
  "db_ok info_hash db \<longleftrightarrow>
     (\<forall>i t. sd_torrents db i = Some t \<longrightarrow> sd_info_hash_to_id db (info_hash t) = Some i)
   \<and> (\<forall>h i. sd_info_hash_to_id db h = Some i \<longrightarrow> (\<exists>t. sd_torrents db i = Some t \<and> info_hash t = h))"

lemma db_okI:
  assumes "\<And>i t. sd_torrents db i = Some t \<Longrightarrow> sd_info_hash_to_id db (info_hash t) = Some i"
    and "\<And>h i. sd_info_hash_to_id db h = Some i \<Longrightarrow> \<exists>t. sd_torrents db i = Some t \<and> info_hash t = h"
  shows "db_ok info_hash db"
  using assms unfolding db_ok_def by blast

lemma db_ok_indexed: "db_ok info_hash db \<Longrightarrow> sd_torrents db i = Some t \<Longrightarrow> sd_info_hash_to_id db (info_hash t) = Some i"
  by (simp add: db_ok_def)

lemma db_ok_points: "db_ok info_hash db \<Longrightarrow> sd_info_hash_to_id db h = Some i \<Longrightarrow> \<exists>t. sd_torrents db i = Some t \<and> info_hash t = h"
  unfolding db_ok_def by blast

lemma db_ok_default [simp]: "db_ok info_hash session_db_default"
  by (simp add: db_ok_def session_db_default_def)

lemma db_by_hash_iff:
  "db_ok info_hash db \<Longrightarrow> db_get_by_info_hash x db = Some (i, h) \<longleftrightarrow> sd_torrents db i = Some h \<and> info_hash h = x"
  by (auto simp: db_get_by_info_hash_def bind_eq_Some_conv dest: db_ok_points db_ok_indexed)

lemma db_free_hash: "db_ok info_hash db \<Longrightarrow> db_get_by_info_hash x db = None \<longleftrightarrow> sd_info_hash_to_id db x = None"
  by (auto simp: db_get_by_info_hash_def split: bind_splits dest: db_ok_points)

lemma db_ok_remove:
  assumes ok: "db_ok info_hash db"
  shows "db_ok info_hash (snd (db_remove_torrent info_hash i db))"
proof (cases "sd_torrents db i")
  case (Some t)
  have ne: "info_hash k \<noteq> info_hash t" if "sd_torrents db j = Some k" "j \<noteq> i" for j k
    using db_ok_indexed [OF ok that(1)] db_ok_indexed [OF ok Some] that(2) by auto
  show ?thesis
  proof (rule db_okI)
    fix j k
    assume "sd_torrents (snd (db_remove_torrent info_hash i db)) j = Some k"
    then have "sd_torrents db j = Some k" "j \<noteq> i" using Some by (auto simp: db_remove_torrent_def split: if_splits)
    then show "sd_info_hash_to_id (snd (db_remove_torrent info_hash i db)) (info_hash k) = Some j"
      using ne db_ok_indexed [OF ok] Some by (simp add: db_remove_torrent_def)
  next
    fix y j
    assume "sd_info_hash_to_id (snd (db_remove_torrent info_hash i db)) y = Some j"
    then have y: "sd_info_hash_to_id db y = Some j" "y \<noteq> info_hash t" using Some by (auto simp: db_remove_torrent_def split: if_splits)
    from db_ok_points [OF ok y(1)] obtain k where "sd_torrents db j = Some k" "info_hash k = y" by blast
    with y(2) Some show "\<exists>k. sd_torrents (snd (db_remove_torrent info_hash i db)) j = Some k \<and> info_hash k = y"
      by (cases "j = i") (auto simp: db_remove_torrent_def)
  qed
qed (use ok in \<open>simp add: db_remove_torrent_def\<close>)

lemma db_ok_add:
  assumes ok: "db_ok info_hash db" and free: "sd_torrents db i = None" "sd_info_hash_to_id db (info_hash h) = None"
  shows "db_ok info_hash (db_add_torrent info_hash h i db)"
proof (rule db_okI)
  fix j k
  assume "sd_torrents (db_add_torrent info_hash h i db) j = Some k"
  then show "sd_info_hash_to_id (db_add_torrent info_hash h i db) (info_hash k) = Some j"
    using db_ok_indexed [OF ok] free(2) by (force simp: db_add_torrent_def split: if_splits)
next
  fix y j
  assume "sd_info_hash_to_id (db_add_torrent info_hash h i db) y = Some j"
  then show "\<exists>k. sd_torrents (db_add_torrent info_hash h i db) j = Some k \<and> info_hash k = y"
    using db_ok_points [OF ok, of y j] free(1) by (auto simp: db_add_torrent_def split: if_splits)
qed

interpretation sdb: torrent_index info_hash "db_ok info_hash" sd_torrents "\<lambda>db x. db_get_by_info_hash x db"
    "db_add_torrent info_hash" "\<lambda>i db. snd (db_remove_torrent info_hash i db)" for info_hash :: "'h \<Rightarrow> id20"
proof unfold_locales
  fix db :: "'h session_db" and i
  show "sd_torrents (snd (db_remove_torrent info_hash i db)) = (sd_torrents db)(i := None)"
    by (auto simp: db_remove_torrent_def split: option.split)
qed (simp_all add: db_by_hash_iff db_ok_remove db_ok_add db_free_hash, simp add: db_add_torrent_def)

text \<open>The duplicate check leaves exactly the case in which both keys are free.\<close>

lemma db_existing_None:
  "db_existing i x db = None \<longleftrightarrow> sd_torrents db i = None \<and> db_get_by_info_hash x db = None"
  by (simp add: db_existing_def split: option.split)

lemma db_existing_Some:
  "db_ok info_hash db \<Longrightarrow> db_existing i x db = Some (j, h) \<Longrightarrow> sd_torrents db j = Some h \<and> (j = i \<or> info_hash h = x)"
  by (auto simp: db_existing_def db_by_hash_iff split: option.splits)

end
