(* ===== verification/Session.thy ===== *)
theory Session
  imports Torrent_State Session_Db
begin

text \<open>
  \<open>src/src/session/\<close>: the session, that is the torrents it manages, how they are added, started, paused and deleted, how they
  are persisted and restored, where their peers come from, and which incoming connections are let through. A torrent handle is an
  \<open>Arc\<close> that outlives its entry in the session, so torrents live in a heap and a handle is an address. The parsers of
  magnet links, URLs, torrent files and regular expressions, the tracker client and the network are parameters (\<open>session_params\<close>); the
  outcome of a call of the store, the storage factory or the network is an argument of the operation that makes it.
\<close>

subsection \<open>Data\<close>

record torrent_meta =
  tm_info_hash :: id20
  tm_announce :: "string option list"
  tm_url_list :: "string option list"
  tm_private :: bool
  tm_name :: "string option"
  tm_files :: "(string \<times> nat) list"
  tm_file_infos :: file_infos
  tm_torrent_bytes :: "byte list"

record magnet =
  mg_id20 :: "id20 option"
  mg_trackers :: "string list"
  mg_name :: "string option"
  mg_select_only :: "nat list option"

record ('s, 'f) session_params =
  sx_parse_magnet :: "string \<Rightarrow> magnet option"
  sx_parse_url :: "string \<Rightarrow> string option"
  sx_torrent_from_bytes :: "byte list \<Rightarrow> torrent_meta option"
  sx_validate :: "torrent_meta \<Rightarrow> unit res"
  sx_regex :: "string \<Rightarrow> (string \<Rightarrow> bool) option"
  sx_to_str :: "string \<Rightarrow> string option"
  sx_tracker_comms_start :: "string list \<Rightarrow> bool"
  sx_env :: "torrent_meta \<Rightarrow> ('s, 'f) managed_env"

text \<open>The fields of a session that never change.\<close>

record session_config =
  cf_peer_id :: id20
  cf_announce_port :: "16 word option"
  cf_dht :: bool
  cf_lsd :: bool
  cf_disable_trackers :: bool
  cf_trackers :: "string list"
  cf_peer_opts :: peer_connection_options
  cf_peer_limit :: "nat option"
  cf_blocklist :: ip_ranges
  cf_allowlist :: "ip_ranges option"
  cf_query :: interval_query

text \<open>\<open>ManagedTorrent\<close> and \<open>ManagedTorrentShared\<close>.\<close>

record ('s, 'f) torrent =
  th_id :: nat
  th_info_hash :: id20
  th_trackers :: "string list"
  th_output_folder :: string
  th_initial_peers :: "socket_addr list"
  th_peer_opts :: peer_connection_options
  th_peer_limit :: "nat option"
  th_allow_overwrite :: bool
  th_magnet_name :: "string option"
  th_web_seed_urls :: "string list"
  th_category :: "string option"
  th_fs_storage :: bool
  th_metadata :: torrent_meta
  th_env :: "('s, 'f) managed_env"
  th_managed :: "('s, 'f) managed"

text \<open>A persistence store as the session calls it.\<close>

record 'p persistence_ops =
  pe_next_id :: "'p \<Rightarrow> nat res"
  pe_store :: "nat \<Rightarrow> torrent_view \<Rightarrow> ('p, unit) sm"
  pe_delete :: "nat \<Rightarrow> ('p, unit) sm"
  pe_update_metadata :: "nat \<Rightarrow> torrent_view \<Rightarrow> ('p, unit) sm"

definition json_persistence :: "json_codec \<Rightarrow> bitv_io \<Rightarrow> bitv_io \<Rightarrow> bool \<Rightarrow> bool \<Rightarrow> json_store persistence_ops" where
  "json_persistence J io_file io_db rm_torrent rm_bitv =
     \<lparr>pe_next_id = (\<lambda>s. Inr (json_next_id s)), pe_store = json_store_torrent J io_file io_db,
      pe_delete = json_delete J io_db rm_torrent rm_bitv, pe_update_metadata = json_update_metadata J io_db\<rparr>"

record ('s, 'f, 'p) session =
  se_db :: "nat session_db"
  se_heap :: "nat \<Rightarrow> ('s, 'f) torrent"
  se_next_addr :: nat
  se_next_id :: nat
  se_persistence :: "'p option"
  se_output_folder :: string
  se_completed_folder :: "string option"
  se_blocked_incoming :: u64
  se_watchers :: "(nat \<times> nat) list"
  se_cancelled :: bool

type_synonym ('s, 'f, 'p, 'a) ses = "(('s, 'f, 'p) session, 'a) sm"

definition handle_hash :: "('s, 'f, 'p) session \<Rightarrow> nat \<Rightarrow> id20" where
  "handle_hash S a = th_info_hash (se_heap S a)"

text \<open>The part of \<open>new_with_opts\<close> that makes the tables.\<close>

definition session_new :: "'p option \<Rightarrow> string \<Rightarrow> string option \<Rightarrow> ('s, 'f, 'p) session" where
  "session_new p folder completed = \<lparr>se_db = session_db_default, se_heap = undefined, se_next_addr = 0, se_next_id = 0,
     se_persistence = p, se_output_folder = folder, se_completed_folder = completed, se_blocked_incoming = 0, se_watchers = [],
     se_cancelled = False\<rparr>"

definition upd_managed :: "nat \<Rightarrow> ('s, 'f) managed \<Rightarrow> ('s, 'f, 'p) session \<Rightarrow> ('s, 'f, 'p) session" where
  "upd_managed a m S = S\<lparr>se_heap := (se_heap S)(a := (se_heap S a)\<lparr>th_managed := m\<rparr>)\<rparr>"

text \<open>An operation of the torrent state machine, on the torrent behind a handle.\<close>

definition on_torrent :: "nat \<Rightarrow> (('s, 'f) managed_env \<Rightarrow> ('s, 'f, 'a) mm) \<Rightarrow> ('s, 'f, 'p, 'a) ses" where
  "on_torrent a op S = (case op (th_env (se_heap S a)) (th_managed (se_heap S a)) of (r, m) \<Rightarrow> (r, upd_managed a m S))"

subsection \<open>Sources of peers\<close>

text \<open>What the stream of peers is made of; \<open>dht\<close> and \<open>lsd\<close> carry the port that is announced.\<close>

record peer_sources =
  so_dht :: "16 word option option"
  so_lsd :: "16 word option option"
  so_trackers :: "string list"
  so_initial_peers :: "socket_addr list"

definition make_peer_sources :: "session_config \<Rightarrow> string list \<Rightarrow> bool \<Rightarrow> socket_addr list \<Rightarrow> bool \<Rightarrow> peer_sources" where
  "make_peer_sources C trackers announce initial_peers is_private =
     (let port = (if announce then cf_announce_port C else None);
          dht_rx = (if is_private then None else if cf_dht C then Some port else None);
          lsd_rx = (if is_private then None else if cf_lsd C then Some port else None);
          trackers1 = (if cf_disable_trackers C then [] else trackers);
          trackers2 = (if is_private \<and> 1 < length trackers1 then take 1 trackers1
            else if \<not> cf_disable_trackers C then trackers1 @ cf_trackers C else trackers1)
      in \<lparr>so_dht = dht_rx, so_lsd = lsd_rx, so_trackers = trackers2, so_initial_peers = initial_peers\<rparr>)"

text \<open>\<open>merge_two_optional_streams\<close> over the four sources: there is a stream if there is one of them.\<close>

definition make_peer_rx ::
  "('s, 'f) session_params \<Rightarrow> session_config \<Rightarrow> string list \<Rightarrow> bool \<Rightarrow> socket_addr list \<Rightarrow> bool \<Rightarrow> peer_sources option" where
  "make_peer_rx X C trackers announce initial_peers is_private =
     (let s = make_peer_sources C trackers announce initial_peers is_private in
      if so_dht s \<noteq> None \<or> sx_tracker_comms_start X (so_trackers s) \<or> so_initial_peers s \<noteq> [] \<or> so_lsd s \<noteq> None then Some s else None)"

definition make_peer_rx_managed_torrent :: "('s, 'f) session_params \<Rightarrow> session_config \<Rightarrow> ('s, 'f) torrent \<Rightarrow> bool \<Rightarrow> peer_sources option" where
  "make_peer_rx_managed_torrent X C t announce =
     make_peer_rx X C (th_trackers t) announce (th_initial_peers t) (mt_metadata (th_managed t) \<and> tm_private (th_metadata t))"

definition merge_peer_opts :: "session_config \<Rightarrow> peer_connection_options option \<Rightarrow> peer_connection_options" where
  "merge_peer_opts C other =
     (let own = cf_peer_opts C; o' = (case other of None \<Rightarrow> own | Some x \<Rightarrow> x); either = (\<lambda>x y. case x of None \<Rightarrow> y | Some v \<Rightarrow> Some v)
      in \<lparr>po_connect_timeout = either (po_connect_timeout o') (po_connect_timeout own),
          po_read_write_timeout = either (po_read_write_timeout o') (po_read_write_timeout own),
          po_keep_alive_interval = either (po_keep_alive_interval o') (po_keep_alive_interval own)\<rparr>)"

subsection \<open>Adding a torrent: what is added\<close>

record internal_add_result =
  ia_info_hash :: id20
  ia_metadata :: "torrent_meta option"
  ia_trackers :: "string list"
  ia_name :: "string option"
  ia_web_seed_urls :: "string list"

definition starts_with :: "string \<Rightarrow> string \<Rightarrow> bool" where
  "starts_with p s \<longleftrightarrow> take (length p) s = p"

text \<open>\<open>Itertools::unique\<close> keeps first occurrences.\<close>

definition unique :: "'a list \<Rightarrow> 'a list" where
  "unique xs = rev (remdups (rev xs))"

definition somes :: "'a option list \<Rightarrow> 'a list" where
  "somes xs = List.map_filter (\<lambda>x. x) xs"

definition add_magnet :: "('s, 'f) session_params \<Rightarrow> string \<Rightarrow> add_options \<Rightarrow> (internal_add_result \<times> add_options) res" where
  "add_magnet X url opts =
     res_bind (ok_or (Bail ''provided path is not a valid magnet URL'') (sx_parse_magnet X url)) (\<lambda>mg.
     res_bind (ok_or (Bail ''magnet link didn't contain a BTv1 infohash'') (mg_id20 mg)) (\<lambda>info_hash.
       let opts1 = (if mg_select_only mg \<noteq> None \<and> ao_only_files opts = None then opts\<lparr>ao_only_files := mg_select_only mg\<rparr> else opts)
       in Inr (\<lparr>ia_info_hash = info_hash, ia_metadata = None, ia_trackers = List.map_filter (sx_parse_url X) (mg_trackers mg),
                ia_name = mg_name mg, ia_web_seed_urls = []\<rparr>, opts1)))"

definition add_torrent_file :: "('s, 'f) session_params \<Rightarrow> torrent_meta \<Rightarrow> add_options \<Rightarrow> (internal_add_result \<times> add_options) res" where
  "add_torrent_file X meta opts =
     (let trackers = somes (unique (tm_announce meta)) @ (case ao_trackers opts of None \<Rightarrow> [] | Some ts \<Rightarrow> ts)
      in res_bind (sx_validate X meta) (\<lambda>_.
           Inr (\<lparr>ia_info_hash = tm_info_hash meta, ia_metadata = Some meta, ia_trackers = List.map_filter (sx_parse_url X) trackers,
                 ia_name = None, ia_web_seed_urls = somes (tm_url_list meta)\<rparr>, opts)))"

text \<open>\<open>http\<close> is the answer to the GET request for a URL, if one is made.\<close>

definition parse_add ::
  "('s, 'f) session_params \<Rightarrow> (string \<Rightarrow> torrent_meta res) \<Rightarrow> add_torrent \<Rightarrow> add_options \<Rightarrow> (internal_add_result \<times> add_options) res" where
  "parse_add X http add opts =
     (case add of
        AddUrl url \<Rightarrow>
          if starts_with ''magnet:'' url \<or> length url = 40 then add_magnet X url opts
          else if starts_with ''http://'' url \<or> starts_with ''https://'' url then res_bind (http url) (\<lambda>meta. add_torrent_file X meta opts)
          else Inl (Bail ''unsupported URL'')
      | AddTorrentFileBytes b \<Rightarrow>
          res_bind (ok_or (Bail ''error decoding torrent'') (sx_torrent_from_bytes X b)) (\<lambda>meta. add_torrent_file X meta opts))"

subsection \<open>Adding a torrent: metadata, selection and folder\<close>

text \<open>The outcome of resolving a magnet link within the timeout: the metadata and the peers that were seen, or \<open>None\<close> for the timeout.\<close>

type_synonym resolve_outcome = "(torrent_meta \<times> socket_addr list) res option"

record prepared =
  pr_info_hash :: id20
  pr_meta :: torrent_meta
  pr_trackers :: "string list"
  pr_name :: "string option"
  pr_web_seed_urls :: "string list"
  pr_only_files :: "nat list option"
  pr_output_folder :: string
  pr_peer_rx :: "peer_sources option"
  pr_seen_peers :: "socket_addr list"

definition default_magnet_timeout_secs :: nat where
  "default_magnet_timeout_secs = 120"

text \<open>A timeout of zero means none: then the resolution is waited for, however long it takes.\<close>

definition wait_resolved :: "add_options \<Rightarrow> resolve_outcome \<Rightarrow> (torrent_meta \<times> socket_addr list) res" where
  "wait_resolved opts resolve =
     (let timeout = (case ao_magnet_resolution_timeout_secs opts of None \<Rightarrow> default_magnet_timeout_secs | Some t \<Rightarrow> t)
      in case resolve of
           Some r \<Rightarrow> r
         | None \<Rightarrow> if timeout = 0 then Inl Diverges else Inl (Bail ''magnet metadata resolution timed out''))"

definition resolve_metadata ::
  "('s, 'f) session_params \<Rightarrow> session_config \<Rightarrow> internal_add_result \<Rightarrow> add_options \<Rightarrow> resolve_outcome
   \<Rightarrow> (torrent_meta \<times> peer_sources option \<times> socket_addr list) res" where
  "resolve_metadata X C ia opts resolve =
     (let announce = (\<not> ao_paused opts \<and> \<not> ao_list_only opts);
          private = (case ia_metadata ia of None \<Rightarrow> False | Some m \<Rightarrow> tm_private m);
          rx = make_peer_rx X C (ia_trackers ia) announce (case ao_initial_peers opts of None \<Rightarrow> [] | Some ps \<Rightarrow> ps) private
      in case ia_metadata ia of
           Some meta \<Rightarrow> Inr (meta, if announce then rx else None, [])
         | None \<Rightarrow>
           res_bind (ok_or (Bail ''no known way to resolve peers (no DHT, no trackers, no initial_peers)'') rx) (\<lambda>s.
           res_bind (wait_resolved opts resolve) (\<lambda>(meta, seen).
             Inr (meta, Some (s\<lparr>so_initial_peers := so_initial_peers s @ seen\<rparr>), seen))))"

definition prepare_add ::
  "('s, 'f) session_params \<Rightarrow> session_config \<Rightarrow> string \<Rightarrow> internal_add_result \<Rightarrow> add_options \<Rightarrow> resolve_outcome \<Rightarrow> prepared res" where
  "prepare_add X C session_folder ia opts resolve =
     res_bind (resolve_metadata X C ia opts resolve) (\<lambda>(meta, rx, seen).
     res_bind (compute_only_files (sx_regex X) (map (\<lambda>(f, _). sx_to_str X f) (tm_files meta)) (ao_only_files opts) (ao_only_files_regex opts)) (\<lambda>only_files.
     res_bind (choose_output_folder session_folder (tm_files meta) (tm_name meta) (ia_name ia) (ao_output_folder opts) (ao_sub_folder opts)) (\<lambda>folder.
       Inr \<lparr>pr_info_hash = ia_info_hash ia, pr_meta = meta, pr_trackers = ia_trackers ia, pr_name = ia_name ia,
            pr_web_seed_urls = ia_web_seed_urls ia, pr_only_files = only_files, pr_output_folder = folder, pr_peer_rx = rx, pr_seen_peers = seen\<rparr>)))"

subsection \<open>Adding a torrent: into the session\<close>

record list_only_response =
  lo_info_hash :: id20
  lo_only_files :: "nat list option"
  lo_output_folder :: string
  lo_seen_peers :: "socket_addr list"
  lo_torrent_bytes :: "byte list"

datatype add_torrent_response = AlreadyManaged nat nat | ListOnly list_only_response | Added nat nat

definition into_handle :: "add_torrent_response \<Rightarrow> nat option" where
  "into_handle r = (case r of AlreadyManaged _ a \<Rightarrow> Some a | ListOnly _ \<Rightarrow> None | Added _ a \<Rightarrow> Some a)"

text \<open>\<open>AtomicUsize::fetch_add\<close> wraps around.\<close>

definition choose_id :: "'p persistence_ops \<Rightarrow> add_options \<Rightarrow> ('s, 'f, 'p, nat) ses" where
  "choose_id P opts S =
     (case ao_preferred_id opts of
        Some i \<Rightarrow> (Inr i, S)
      | None \<Rightarrow>
        (case se_persistence S of
           Some p \<Rightarrow> (pe_next_id P p, S)
         | None \<Rightarrow> (Inr (se_next_id S), S\<lparr>se_next_id := (se_next_id S + 1) mod 2 ^ 64\<rparr>)))"

definition managed_new :: "bool \<Rightarrow> nat list option \<Rightarrow> 's \<Rightarrow> 'f \<Rightarrow> ('s, 'f) managed" where
  "managed_new paused only_files files f =
     \<lparr>mt_paused = paused, mt_state = MInitializing 0, mt_only_files = only_files, mt_metadata = True,
      mt_inits = (\<lambda>_. init_new only_files files f False), mt_next_init = 1, mt_tasks = [], mt_generation = 0, mt_next_child = 0,
      mt_dead_generations = {}, mt_dead_tokens = {}, mt_fatal_receivers = [], mt_peer_adders = [], mt_notified = 0\<rparr>"

definition new_torrent ::
  "('s, 'f) session_params \<Rightarrow> session_config \<Rightarrow> bool \<Rightarrow> nat \<Rightarrow> prepared \<Rightarrow> add_options \<Rightarrow> 's \<Rightarrow> 'f \<Rightarrow> ('s, 'f) torrent" where
  "new_torrent X C fs_storage i pr opts files f =
     \<lparr>th_id = i, th_info_hash = pr_info_hash pr, th_trackers = pr_trackers pr, th_output_folder = pr_output_folder pr,
      th_initial_peers = (case ao_initial_peers opts of None \<Rightarrow> [] | Some ps \<Rightarrow> ps), th_peer_opts = merge_peer_opts C (ao_peer_opts opts),
      th_peer_limit = (case ao_peer_limit opts of None \<Rightarrow> cf_peer_limit C | Some l \<Rightarrow> Some l), th_allow_overwrite = ao_overwrite opts,
      th_magnet_name = pr_name pr, th_web_seed_urls = pr_web_seed_urls pr, th_category = ao_category opts, th_fs_storage = fs_storage,
      th_metadata = pr_meta pr, th_env = sx_env X (pr_meta pr), th_managed = managed_new (ao_paused opts) (pr_only_files pr) files f\<rparr>"

text \<open>The block under the write lock of the database; \<open>su_storage u\<close> is what \<open>create_and_init\<close> gives. The left result is a torrent that is there.\<close>

definition insert_torrent ::
  "('s, 'f) session_params \<Rightarrow> session_config \<Rightarrow> ('s, 'f) surroundings \<Rightarrow> bool \<Rightarrow> nat \<Rightarrow> prepared \<Rightarrow> add_options
   \<Rightarrow> ('s, 'f, 'p, (nat \<times> nat) + nat) ses" where
  "insert_torrent X C u fs_storage i pr opts S =
     (case db_existing i (pr_info_hash pr) (se_db S) of
        Some (j, h) \<Rightarrow> (Inr (Inl (j, h)), S)
      | None \<Rightarrow>
        (case su_storage u of
           Inl e \<Rightarrow> (Inl e, S)
         | Inr files \<Rightarrow>
           let a = se_next_addr S; t = new_torrent X C fs_storage i pr opts files (su_factory u);
               S1 = S\<lparr>se_heap := (se_heap S)(a := t), se_next_addr := a + 1\<rparr>
           in (Inr (Inr a), S1\<lparr>se_db := db_add_torrent (handle_hash S1) a i (se_db S1)\<rparr>)))"

definition view_of :: "('s, 'f) torrent \<Rightarrow> torrent_view" where
  "view_of t = \<lparr>tv_fs_storage = th_fs_storage t, tv_info_hash = th_info_hash t,
     tv_torrent_bytes = (if mt_metadata (th_managed t) then Some (tm_torrent_bytes (th_metadata t)) else None),
     tv_trackers = th_trackers t, tv_only_files = mt_only_files (th_managed t), tv_is_paused = is_paused (th_managed t),
     tv_output_folder = th_output_folder t, tv_category = th_category t\<rparr>"

definition with_store :: "(('p \<Rightarrow> unit res \<times> 'p)) \<Rightarrow> ('s, 'f, 'p, unit) ses" where
  "with_store op S =
     (case se_persistence S of
        None \<Rightarrow> (Inr (), S)
      | Some p \<Rightarrow> (case op p of (r, p') \<Rightarrow> (r, S\<lparr>se_persistence := Some p'\<rparr>)))"

definition remove_from_db :: "nat \<Rightarrow> ('s, 'f, 'p) session \<Rightarrow> nat option \<times> ('s, 'f, 'p) session" where
  "remove_from_db i S = (case db_remove_torrent (handle_hash S) i (se_db S) of (h, db) \<Rightarrow> (h, S\<lparr>se_db := db\<rparr>))"

text \<open>Storing what was added; when that fails, the id is removed from the session again.\<close>

definition persist_added :: "'p persistence_ops \<Rightarrow> nat \<Rightarrow> nat \<Rightarrow> ('s, 'f, 'p, unit) ses" where
  "persist_added P i a S =
     (case with_store (pe_store P i (view_of (se_heap S a))) S of
        (Inl e, S1) \<Rightarrow> (Inl e, snd (remove_from_db i S1))
      | (Inr _, S1) \<Rightarrow> (Inr (), S1))"

definition spawn_completion_watcher :: "nat \<Rightarrow> nat \<Rightarrow> ('s, 'f, 'p) session \<Rightarrow> ('s, 'f, 'p) session" where
  "spawn_completion_watcher i a S =
     (if se_completed_folder S \<noteq> None then S\<lparr>se_watchers := se_watchers S @ [(i, a)]\<rparr> else S)"

definition start_added :: "('s, 'f) surroundings \<Rightarrow> bool \<Rightarrow> add_options \<Rightarrow> nat \<Rightarrow> nat \<Rightarrow> ('s, 'f, 'p, add_torrent_response) ses" where
  "start_added u peer_rx opts i a =
     sm_bind (on_torrent a (\<lambda>M. start M u peer_rx (ao_paused opts))) (\<lambda>_.
     sm_bind (sm_modify (spawn_completion_watcher i a)) (\<lambda>_. sm_ret (Added i a)))"

definition list_only :: "prepared \<Rightarrow> add_torrent_response" where
  "list_only pr = ListOnly \<lparr>lo_info_hash = pr_info_hash pr, lo_only_files = pr_only_files pr, lo_output_folder = pr_output_folder pr,
     lo_seen_peers = pr_seen_peers pr, lo_torrent_bytes = tm_torrent_bytes (pr_meta pr)\<rparr>"

definition add_prepared ::
  "('s, 'f) session_params \<Rightarrow> session_config \<Rightarrow> 'p persistence_ops \<Rightarrow> ('s, 'f) surroundings \<Rightarrow> bool \<Rightarrow> add_options \<Rightarrow> prepared
   \<Rightarrow> ('s, 'f, 'p, add_torrent_response) ses" where
  "add_prepared X C P u fs_storage opts pr =
     (if ao_list_only opts then sm_ret (list_only pr)
      else sm_bind (choose_id P opts) (\<lambda>i.
           sm_bind (insert_torrent X C u fs_storage i pr opts) (\<lambda>r. case r of
             Inl (j, h) \<Rightarrow> sm_ret (AlreadyManaged j h)
           | Inr a \<Rightarrow> sm_bind (persist_added P i a) (\<lambda>_. start_added u (pr_peer_rx pr \<noteq> None) opts i a))))"

definition add_torrent_internal ::
  "('s, 'f) session_params \<Rightarrow> session_config \<Rightarrow> 'p persistence_ops \<Rightarrow> ('s, 'f) surroundings \<Rightarrow> bool \<Rightarrow> resolve_outcome
   \<Rightarrow> internal_add_result \<Rightarrow> add_options \<Rightarrow> ('s, 'f, 'p, add_torrent_response) ses" where
  "add_torrent_internal X C P u fs_storage resolve ia opts S =
     sm_bind (sm_res (prepare_add X C (se_output_folder S) ia opts resolve)) (add_prepared X C P u fs_storage opts) S"

definition session_add_torrent ::
  "('s, 'f) session_params \<Rightarrow> session_config \<Rightarrow> 'p persistence_ops \<Rightarrow> ('s, 'f) surroundings \<Rightarrow> bool \<Rightarrow> (string \<Rightarrow> torrent_meta res)
   \<Rightarrow> resolve_outcome \<Rightarrow> add_torrent \<Rightarrow> add_options option \<Rightarrow> ('s, 'f, 'p, add_torrent_response) ses" where
  "session_add_torrent X C P u fs_storage http resolve add opts =
     sm_bind (sm_res (parse_add X http add (case opts of None \<Rightarrow> add_options_default | Some o' \<Rightarrow> o')))
       (\<lambda>(ia, opts1). add_torrent_internal X C P u fs_storage resolve ia opts1)"

subsection \<open>Lookups, deletion and the other operations\<close>

definition session_get :: "torrent_id_or_hash \<Rightarrow> ('s, 'f, 'p) session \<Rightarrow> nat option" where
  "session_get i S =
     (case i of TorrentId n \<Rightarrow> sd_torrents (se_db S) n | TorrentHash h \<Rightarrow> map_option snd (db_get_by_info_hash h (se_db S)))"

definition delete_removals :: "(string list \<Rightarrow> string list) \<Rightarrow> string \<Rightarrow> ('s, 'f) torrent \<Rightarrow> removal list" where
  "delete_removals set_order session_folder t =
     remove_files_and_dirs set_order (tm_file_infos (th_metadata t))
       @ (if components (th_output_folder t) \<noteq> components session_folder then [RemoveDirectoryIfEmpty []] else [])"

definition delete_removed ::
  "'p persistence_ops \<Rightarrow> (string list \<Rightarrow> string list) \<Rightarrow> 's res \<Rightarrow> bool \<Rightarrow> nat \<Rightarrow> nat \<Rightarrow> ('s, 'f, 'p, removal list) ses" where
  "delete_removed P set_order created delete_files n a S =
     (let M = th_env (se_heap S a); m1 = dismantle M (th_managed (se_heap S a)) in
      if \<not> mt_metadata m1 then (Inl (Bail ''torrent metadata was not loaded''), upd_managed a m1 S)
      else case take_storage M m1 of
        (files, m2) \<Rightarrow>
        let storage = (case files of Some f \<Rightarrow> Inr f | None \<Rightarrow> created)
        in (case storage of
              Inl e \<Rightarrow> if delete_files then Inl (Bail ''torrent deleted, but could not delete files'') else Inr []
            | Inr _ \<Rightarrow> Inr (if delete_files then delete_removals set_order (se_output_folder S) (se_heap S a) else []),
            snd (with_store (pe_delete P n) (upd_managed a m2 S))))"

definition torrent_id_of :: "torrent_id_or_hash \<Rightarrow> ('s, 'f, 'p) session \<Rightarrow> nat res" where
  "torrent_id_of k S =
     (case k of TorrentId n \<Rightarrow> Inr n
      | TorrentHash h \<Rightarrow> ok_or (Bail ''no such torrent in db'') (map_option fst (db_get_by_info_hash h (se_db S))))"

text \<open>\<open>created\<close> is what the storage factory gives when the torrent has no storage any more; the result is what is removed from it.\<close>

definition session_delete ::
  "'p persistence_ops \<Rightarrow> (string list \<Rightarrow> string list) \<Rightarrow> 's res \<Rightarrow> torrent_id_or_hash \<Rightarrow> bool \<Rightarrow> ('s, 'f, 'p, removal list) ses" where
  "session_delete P set_order created k delete_files S =
     sm_bind (sm_res (torrent_id_of k S)) (\<lambda>n S.
       case remove_from_db n S of
         (None, S1) \<Rightarrow> (Inl (Bail ''torrent with id did not exist''), S1)
       | (Some a, S1) \<Rightarrow> delete_removed P set_order created delete_files n a S1) S"

definition try_update_persistence_metadata :: "'p persistence_ops \<Rightarrow> nat \<Rightarrow> ('s, 'f, 'p) session \<Rightarrow> ('s, 'f, 'p) session" where
  "try_update_persistence_metadata P a S =
     snd (with_store (pe_update_metadata P (th_id (se_heap S a)) (view_of (se_heap S a))) S)"

definition session_pause :: "'p persistence_ops \<Rightarrow> nat \<Rightarrow> ('s, 'f, 'p, unit) ses" where
  "session_pause P a = sm_bind (on_torrent a (\<lambda>M. pause M True)) (\<lambda>_. sm_modify (try_update_persistence_metadata P a))"

definition session_unpause ::
  "('s, 'f) session_params \<Rightarrow> session_config \<Rightarrow> 'p persistence_ops \<Rightarrow> ('s, 'f) surroundings \<Rightarrow> nat \<Rightarrow> ('s, 'f, 'p, unit) ses" where
  "session_unpause X C P u a S =
     sm_bind (on_torrent a (\<lambda>M. start M u (make_peer_rx_managed_torrent X C (se_heap S a) True \<noteq> None) False))
       (\<lambda>_. sm_modify (try_update_persistence_metadata P a)) S"

definition session_update_only_files :: "'p persistence_ops \<Rightarrow> nat list \<Rightarrow> nat \<Rightarrow> nat \<Rightarrow> ('s, 'f, 'p, unit) ses" where
  "session_update_only_files P only_files now a =
     sm_bind (on_torrent a (\<lambda>M. managed_update_only_files M only_files now)) (\<lambda>_. sm_modify (try_update_persistence_metadata P a))"

definition set_torrent_category :: "torrent_id_or_hash \<Rightarrow> string option \<Rightarrow> ('s, 'f, 'p, unit) ses" where
  "set_torrent_category i category S =
     (case session_get i S of
        None \<Rightarrow> (Inl (Bail ''torrent not found''), S)
      | Some a \<Rightarrow> (Inr (), S\<lparr>se_heap := (se_heap S)(a := (se_heap S a)\<lparr>th_category := category\<rparr>)\<rparr>))"

definition set_output_folder :: "string \<Rightarrow> ('s, 'f, 'p) session \<Rightarrow> ('s, 'f, 'p) session" where
  "set_output_folder folder S = S\<lparr>se_output_folder := folder\<rparr>"

definition set_completed_folder :: "string option \<Rightarrow> ('s, 'f, 'p) session \<Rightarrow> ('s, 'f, 'p) session" where
  "set_completed_folder folder S = S\<lparr>se_completed_folder := folder\<rparr>"

text \<open>\<open>stop\<close> pauses every torrent, in the order \<open>ids\<close> of the hash map, and cancels the session's token.\<close>

definition session_stop :: "nat list \<Rightarrow> ('s, 'f, 'p) session \<Rightarrow> ('s, 'f, 'p) session" where
  "session_stop ids S =
     (fold (\<lambda>a S. snd (on_torrent a (\<lambda>M. pause M True) S)) (List.map_filter (sd_torrents (se_db S)) ids) S)\<lparr>se_cancelled := True\<rparr>"

subsection \<open>Incoming connections\<close>

text \<open>
  \<open>check_incoming_connection\<close>: \<open>hs\<close> is the handshake that is read (only if the address passes), \<open>now_state\<close> the torrent's state when
  the wait for its initialisation ends, \<open>timed_out\<close> whether the five seconds pass before.
\<close>

definition live_wait_initializing :: "bool \<Rightarrow> ('s, 'f) managed \<Rightarrow> 's live option" where
  "live_wait_initializing timed_out m = (if timed_out \<or> poll_initialized m \<noteq> Inr True then None else managed_live m)"

definition match_incoming ::
  "session_config \<Rightarrow> handshake res \<Rightarrow> bool \<Rightarrow> (nat \<Rightarrow> ('s, 'f) managed) \<Rightarrow> ('s, 'f, 'p) session \<Rightarrow> (nat \<times> 's live \<times> handshake) res" where
  "match_incoming C hs timed_out now_state S =
     res_bind hs (\<lambda>h.
       if hs_peer_id h = cf_peer_id C then Inl (Bail ''seems like we are connecting to ourselves, ignoring'')
       else res_bind (ok_or (Bail ''didn't find a matching torrent'') (db_get_by_info_hash (hs_info_hash h) (se_db S))) (\<lambda>(i, a).
         res_bind (ok_or (Bail ''torrent is not live, ignoring connection'') (live_wait_initializing timed_out (now_state a)))
           (\<lambda>l. Inr (a, l, h))))"

definition check_incoming_connection ::
  "session_config \<Rightarrow> handshake res \<Rightarrow> bool \<Rightarrow> (nat \<Rightarrow> ('s, 'f) managed) \<Rightarrow> socket_addr \<Rightarrow> ('s, 'f, 'p, nat \<times> 's live \<times> handshake) ses" where
  "check_incoming_connection C hs timed_out now_state remote S =
     (let blocked = S\<lparr>se_blocked_incoming := se_blocked_incoming S + 1\<rparr> in
      if ip_has (cf_query C) (cf_blocklist C) (fst remote) then (Inl (Bail ''Incoming ip is in blocklist''), blocked)
      else if (case cf_allowlist C of None \<Rightarrow> False | Some l \<Rightarrow> \<not> ip_has (cf_query C) l (fst remote))
      then (Inl (Bail ''Incoming ip is not in allowlist''), blocked)
      else (match_incoming C hs timed_out now_state S, S))"

text \<open>The listener drops a connection when this many handshakes are going on.\<close>

definition max_concurrent_handshakes :: nat where
  "max_concurrent_handshakes = 64"

definition accept_connection :: "'c list \<Rightarrow> 'c \<Rightarrow> 'c list" where
  "accept_connection handshaking c = (if max_concurrent_handshakes \<le> length handshaking then handshaking else handshaking @ [c])"

subsection \<open>Restoring a session\<close>

text \<open>
  The loop of \<open>new_with_opts\<close> over the stored torrents: each is added under its id; an error of one is only logged. The additions
  run concurrently there; here one after the other. \<open>us i\<close> is what the addition of the torrent \<open>i\<close> meets.
\<close>

fun restore ::
  "('s, 'f) session_params \<Rightarrow> session_config \<Rightarrow> 'p persistence_ops \<Rightarrow> (nat \<Rightarrow> ('s, 'f) surroundings \<times> resolve_outcome) \<Rightarrow> (string \<Rightarrow> torrent_meta res)
   \<Rightarrow> (id20 \<Rightarrow> string list \<Rightarrow> nat list option \<Rightarrow> string) \<Rightarrow> (nat \<times> serialized_torrent res) list \<Rightarrow> ('s, 'f, 'p, unit) ses" where
  "restore X C P us http mk [] S = (Inr (), S)"
| "restore X C P us http mk ((i, Inl e) # sts) S = (Inl e, S)"
| "restore X C P us http mk ((i, Inr st) # sts) S =
     (case into_add_torrent mk st of
        (add, opts) \<Rightarrow>
          restore X C P us http mk sts (snd (session_add_torrent X C P (fst (us i)) True http (snd (us i)) add (Some (opts\<lparr>ao_preferred_id := Some i\<rparr>)) S)))"

end
