(* ===== verification/Session_Safety.thy ===== *)
theory Session_Safety
  imports Session
begin

text \<open>
  What holds of a session whatever its users, its torrents, the network and the store do, in any order: the steps of the session,
  the invariant that ties the database, its index and the torrents together, and the properties of the session's operations.
\<close>

subsection \<open>The steps of a session\<close>

text \<open>
  The parts of \<open>add_torrent_internal\<close> between its awaits are steps of their own, with any arguments, so that additions,
  deletions and everything else interleave in every way.
\<close>

inductive session_step ::
  "('s, 'f) session_params \<Rightarrow> session_config \<Rightarrow> bool \<Rightarrow> ('s, 'f, 'p) session \<Rightarrow> ('s, 'f, 'p) session \<Rightarrow> bool" for X C strict where
  ss_choose: "choose_id P opts S = (r, S') \<Longrightarrow> session_step X C strict S S'"
| ss_insert: "insert_torrent X C u fs_storage i pr opts S = (r, S') \<Longrightarrow> session_step X C strict S S'"
| ss_persist: "persist_added P i a S = (r, S') \<Longrightarrow> session_step X C strict S S'"
| ss_start: "start_added u rx opts i a S = (r, S') \<Longrightarrow> session_step X C strict S S'"
| ss_delete: "session_delete P set_order created k delete_files S = (r, S') \<Longrightarrow> session_step X C strict S S'"
| ss_pause: "session_pause P a S = (r, S') \<Longrightarrow> session_step X C strict S S'"
| ss_unpause: "session_unpause X C P u a S = (r, S') \<Longrightarrow> session_step X C strict S S'"
| ss_only_files: "session_update_only_files P only now a S = (r, S') \<Longrightarrow> session_step X C strict S S'"
| ss_category: "set_torrent_category k c S = (r, S') \<Longrightarrow> session_step X C strict S S'"
| ss_metadata: "session_step X C strict S (try_update_persistence_metadata P a S)"
| ss_output_folder: "session_step X C strict S (set_output_folder f S)"
| ss_completed_folder: "session_step X C strict S (set_completed_folder g S)"
| ss_incoming: "check_incoming_connection C hs timed_out now_state remote S = (r, S') \<Longrightarrow> session_step X C strict S S'"
| ss_stop: "session_step X C strict S (session_stop ids S)"
| ss_torrent: "managed_step (th_env (se_heap S a)) strict (th_managed (se_heap S a)) m \<Longrightarrow> session_step X C strict S (upd_managed a m S)"

definition session_init :: "('s, 'f, 'p) session \<Rightarrow> bool" where
  "session_init S \<longleftrightarrow> (\<exists>p folder completed. S = session_new p folder completed)"

subsection \<open>The invariant\<close>

text \<open>What the session knows of a torrent is right, and the torrent got where it is by steps of its own state machine.\<close>

definition entry_ok :: "('s, 'f) session_params \<Rightarrow> bool \<Rightarrow> nat \<Rightarrow> ('s, 'f) torrent \<Rightarrow> bool" where
  "entry_ok X strict i t \<longleftrightarrow> th_id t = i \<and> th_env t = sx_env X (th_metadata t)
     \<and> reach managed_init (managed_step (th_env t) strict) (th_managed t)"

definition session_ok :: "('s, 'f) session_params \<Rightarrow> bool \<Rightarrow> ('s, 'f, 'p) session \<Rightarrow> bool" where
  "session_ok X strict S \<longleftrightarrow> db_ok (handle_hash S) (se_db S)
     \<and> (\<forall>i a. sd_torrents (se_db S) i = Some a \<longrightarrow> a < se_next_addr S \<and> entry_ok X strict i (se_heap S a))"

lemma session_okD:
  assumes "session_ok X strict S"
  shows "db_ok (handle_hash S) (se_db S)"
    and "sd_torrents (se_db S) i = Some a \<Longrightarrow> a < se_next_addr S"
    and "sd_torrents (se_db S) i = Some a \<Longrightarrow> entry_ok X strict i (se_heap S a)"
  using assms by (auto simp: session_ok_def)

lemma db_ok_cong: "(\<And>i a. sd_torrents db i = Some a \<Longrightarrow> f a = g a) \<Longrightarrow> db_ok f db \<Longrightarrow> db_ok g db"
  unfolding db_ok_def by metis

text \<open>The invariant only looks at the tables.\<close>

lemma session_ok_cong:
  "se_db S' = se_db S \<Longrightarrow> se_heap S' = se_heap S \<Longrightarrow> se_next_addr S' = se_next_addr S \<Longrightarrow> session_ok X strict S' = session_ok X strict S"
  by (simp add: session_ok_def handle_hash_def [abs_def])

lemma session_ok_fields [simp]:
  "session_ok X strict (S\<lparr>se_persistence := p\<rparr>) = session_ok X strict S"
  "session_ok X strict (S\<lparr>se_next_id := n\<rparr>) = session_ok X strict S"
  "session_ok X strict (S\<lparr>se_output_folder := f\<rparr>) = session_ok X strict S"
  "session_ok X strict (S\<lparr>se_completed_folder := g\<rparr>) = session_ok X strict S"
  "session_ok X strict (S\<lparr>se_blocked_incoming := b\<rparr>) = session_ok X strict S"
  "session_ok X strict (S\<lparr>se_watchers := w\<rparr>) = session_ok X strict S"
  "session_ok X strict (S\<lparr>se_cancelled := c\<rparr>) = session_ok X strict S"
  by (rule session_ok_cong; simp)+

lemma session_ok_heap:
  assumes ok: "session_ok X strict S" and hash: "th_info_hash t = th_info_hash (se_heap S a)"
    and entry: "\<And>i. sd_torrents (se_db S) i = Some a \<Longrightarrow> entry_ok X strict i (se_heap S a) \<Longrightarrow> entry_ok X strict i t"
  shows "session_ok X strict (S\<lparr>se_heap := (se_heap S)(a := t)\<rparr>)"
proof -
  have "handle_hash (S\<lparr>se_heap := (se_heap S)(a := t)\<rparr>) = handle_hash S" using hash by (auto simp: handle_hash_def)
  then show ?thesis using ok entry by (auto simp: session_ok_def)
qed

lemma upd_managed_ok:
  assumes "session_ok X strict S" and "managed_step (th_env (se_heap S a)) strict (th_managed (se_heap S a)) m"
  shows "session_ok X strict (upd_managed a m S)"
  unfolding upd_managed_def
  using assms by (intro session_ok_heap) (auto simp: entry_ok_def intro: reach_step)

lemma on_torrent_ok:
  assumes "session_ok X strict S" and "\<And>M m r m'. op M m = (r, m') \<Longrightarrow> managed_step M strict m m'" and "on_torrent a op S = (r, S')"
  shows "session_ok X strict S'"
proof -
  obtain m where m: "op (th_env (se_heap S a)) (th_managed (se_heap S a)) = (r, m)" "S' = upd_managed a m S"
    using assms(3) by (auto simp: on_torrent_def split: prod.splits)
  show ?thesis unfolding m(2) by (rule upd_managed_ok [OF assms(1) assms(2) [OF m(1)]])
qed

lemma with_store_ok [simp]: "session_ok X strict (snd (with_store op S)) = session_ok X strict S"
  by (auto simp: with_store_def split: option.split prod.split)

lemma try_update_ok [simp]: "session_ok X strict (try_update_persistence_metadata P a S) = session_ok X strict S"
  by (simp add: try_update_persistence_metadata_def)

lemma remove_from_db_ok:
  assumes "session_ok X strict S"
  shows "session_ok X strict (snd (remove_from_db i S))"
proof -
  let ?db = "snd (db_remove_torrent (handle_hash S) i (se_db S))"
  have "snd (remove_from_db i S) = S\<lparr>se_db := ?db\<rparr>" by (simp add: remove_from_db_def split: prod.split)
  moreover have "handle_hash (S\<lparr>se_db := ?db\<rparr>) = handle_hash S" by (auto simp: handle_hash_def)
  moreover have "db_ok (handle_hash S) ?db" using session_okD(1) [OF assms] by (rule sdb.remove_ok)
  ultimately show ?thesis
    using assms by (auto simp: session_ok_def sdb.remove_by_id split: if_splits)
qed

lemma persist_added_ok:
  assumes "session_ok X strict S" and "persist_added P i a S = (r, S')"
  shows "session_ok X strict S'"
proof -
  obtain r1 S1 where w: "with_store (pe_store P i (view_of (se_heap S a))) S = (r1, S1)" by fastforce
  then have "session_ok X strict S1" using assms(1) with_store_ok [of X strict "pe_store P i (view_of (se_heap S a))" S] by simp
  then show ?thesis using assms(2) w remove_from_db_ok by (auto simp: persist_added_def split: sum.splits)
qed

lemma insert_torrent_ok:
  assumes ok: "session_ok X strict S" and "insert_torrent X C u fs i pr opts S = (r, S')"
  shows "session_ok X strict S'"
proof (cases "db_existing i (pr_info_hash pr) (se_db S) = None \<and> (\<exists>files. su_storage u = Inr files)")
  case True
  then obtain files where f: "su_storage u = Inr files" by blast
  define a t where "a = se_next_addr S" and "t = new_torrent X C fs i pr opts files (su_factory u)"
  define S1 where "S1 = S\<lparr>se_heap := (se_heap S)(a := t), se_next_addr := a + 1\<rparr>"
  have S': "S' = S1\<lparr>se_db := db_add_torrent (handle_hash S1) a i (se_db S)\<rparr>"
    using assms(2) True f by (simp add: insert_torrent_def Let_def S1_def a_def t_def)
  have free: "sd_torrents (se_db S) i = None" "db_get_by_info_hash (pr_info_hash pr) (se_db S) = None"
    using True by (simp_all add: db_existing_None)
  have ok1: "db_ok (handle_hash S1) (se_db S)"
  proof (rule db_ok_cong [OF _ session_okD(1) [OF ok]])
    show "handle_hash S b = handle_hash S1 b" if "sd_torrents (se_db S) j = Some b" for j b
      using session_okD(2) [OF ok that] by (simp add: handle_hash_def S1_def a_def)
  qed
  have "handle_hash S1 a = pr_info_hash pr" by (simp add: handle_hash_def new_torrent_def S1_def t_def)
  with free have "db_ok (handle_hash S1) (se_db S')" by (simp add: S' sdb.add_ok [OF ok1])
  moreover have "handle_hash S' = handle_hash S1" by (auto simp: S' handle_hash_def)
  moreover have "entry_ok X strict i t"
    by (simp add: entry_ok_def t_def new_torrent_def reach_init managed_init_def managed_new_def)
  moreover have "se_heap S' = (se_heap S)(a := t)" "se_next_addr S' = a + 1" "sd_torrents (se_db S') = (sd_torrents (se_db S))(i \<mapsto> a)"
    by (simp_all add: S' S1_def sdb.add_by_id)
  ultimately show ?thesis
    using session_okD(2,3) [OF ok] unfolding session_ok_def a_def by (auto simp: less_Suc_eq split: if_splits)
next
  case False
  then show ?thesis using assms by (auto simp: insert_torrent_def split: option.splits sum.splits prod.splits)
qed

lemma delete_ok:
  assumes ok: "session_ok X strict S" and "session_delete P so created k df S = (r, S')"
  shows "session_ok X strict S'"
proof -
  have dismantled: "session_ok X strict (upd_managed a m (snd (remove_from_db n S)))" if "remove_from_db n S = (Some a, S1)" for n a m S1
  proof -
    have a: "sd_torrents (se_db S) n = Some a" and S1: "sd_torrents (se_db S1) = (sd_torrents (se_db S))(n := None)"
      using that sdb.remove_by_id [of "handle_hash S" n "se_db S"]
      by (auto simp: remove_from_db_def db_remove_torrent_def split: option.splits)
    have "sd_torrents (se_db S1) j \<noteq> Some a" for j
      using session_okD(3) [OF ok a] session_okD(3) [OF ok, of j a] by (auto simp: S1 entry_ok_def)
    then show ?thesis using remove_from_db_ok [OF ok, of n] that
      unfolding upd_managed_def by (intro session_ok_heap) auto
  qed
  consider "S' = S" | n where "remove_from_db n S = (None, S')"
    | n a S1 where "remove_from_db n S = (Some a, S1)" "delete_removed P so created df n a S1 = (r, S')"
    using assms(2) by (auto simp: session_delete_def sm_bind_def sm_res_def split: sum.splits option.splits prod.splits)
  then show ?thesis
  proof cases
    case 2
    then show ?thesis using remove_from_db_ok [OF ok, of n] by simp
  next
    case (3 n a S1)
    then have "\<exists>m. S' = upd_managed a m S1 \<or> S' = snd (with_store (pe_delete P n) (upd_managed a m S1))"
      by (auto simp: delete_removed_def Let_def split: prod.splits if_splits)
    then show ?thesis using dismantled [OF 3(1)] 3(1) by auto
  qed (use ok in simp)
qed

lemma stop_ok: "session_ok X strict S \<Longrightarrow> session_ok X strict (session_stop ids S)"
proof -
  have "session_ok X strict S \<Longrightarrow> session_ok X strict (fold (\<lambda>a S. snd (on_torrent a (\<lambda>M. pause M True) S)) as S)" for as and S :: "('a, 'b, 'c) session"
  proof (induction as arbitrary: S)
    case (Cons a as)
    have "session_ok X strict (snd (on_torrent a (\<lambda>M. pause M True) S))"
      using on_torrent_ok [OF Cons.prems, of "\<lambda>M. pause M True"] by (metis managed_step.ms_pause prod.collapse)
    with Cons.IH show ?case by simp
  qed simp
  then show "session_ok X strict S \<Longrightarrow> session_ok X strict (session_stop ids S)" by (simp add: session_stop_def)
qed

lemma session_step_ok:
  assumes "session_ok X strict S" and "session_step X C strict S S'"
  shows "session_ok X strict S'"
  using assms(2,1)
proof cases
  case (ss_choose P opts r)
  then show ?thesis using assms(1) by (auto simp: choose_id_def split: option.splits)
next
  case (ss_start u rx opts i a r)
  obtain r1 S1 where o: "on_torrent a (\<lambda>M. start M u rx (ao_paused opts)) S = (r1, S1)" by fastforce
  then have "session_ok X strict S1" using on_torrent_ok [OF assms(1) _ o] managed_step.ms_start by blast
  then show ?thesis using ss_start o by (auto simp: start_added_def sm_bind_def sm_modify_def sm_ret_def spawn_completion_watcher_def split: sum.splits)
next
  case (ss_pause P a r)
  obtain r1 S1 where o: "on_torrent a (\<lambda>M. pause M True) S = (r1, S1)" by fastforce
  then have "session_ok X strict S1" using on_torrent_ok [OF assms(1) _ o] managed_step.ms_pause by blast
  then show ?thesis using ss_pause o by (auto simp: session_pause_def sm_bind_def sm_modify_def split: sum.splits)
next
  case (ss_unpause P u a r)
  let ?rx = "make_peer_rx_managed_torrent X C (se_heap S a) True \<noteq> None"
  obtain r1 S1 where o: "on_torrent a (\<lambda>M. start M u ?rx False) S = (r1, S1)" by fastforce
  then have "session_ok X strict S1" using on_torrent_ok [OF assms(1) _ o] managed_step.ms_start by blast
  then show ?thesis using ss_unpause o by (auto simp: session_unpause_def sm_bind_def sm_modify_def split: sum.splits)
next
  case (ss_only_files P only now a r)
  obtain r1 S1 where o: "on_torrent a (\<lambda>M. managed_update_only_files M only now) S = (r1, S1)" by fastforce
  then have "session_ok X strict S1" using on_torrent_ok [OF assms(1) _ o] managed_step.ms_only_files by blast
  then show ?thesis using ss_only_files o by (auto simp: session_update_only_files_def sm_bind_def sm_modify_def split: sum.splits)
next
  case (ss_category k c r)
  then show ?thesis using assms(1)
    by (auto simp: set_torrent_category_def entry_ok_def intro!: session_ok_heap split: option.splits)
next
  case (ss_incoming hs timed_out now_state remote r)
  have S': "S' = S \<or> S' = S\<lparr>se_blocked_incoming := se_blocked_incoming S + 1\<rparr>"
    using ss_incoming by (auto simp: check_incoming_connection_def Let_def split: if_splits)
  then show ?thesis using assms(1) by auto
next
  case (ss_insert u fs i pr opts r)
  then show ?thesis using insert_torrent_ok assms(1) by blast
next
  case (ss_persist P i a r)
  then show ?thesis using persist_added_ok assms(1) by blast
next
  case (ss_delete P so created k df r)
  then show ?thesis using delete_ok assms(1) by blast
qed (use assms(1) stop_ok upd_managed_ok in \<open>auto simp: set_output_folder_def set_completed_folder_def\<close>)

interpretation session_sys: invariant_system session_init "session_step X C strict" "session_ok X strict" for X C strict
proof unfold_locales
  show "session_ok X strict S" if "session_init S" for S :: "('a, 'b, 'c) session"
    using that by (auto simp: session_init_def session_ok_def session_new_def session_db_default_def db_ok_def)
qed (rule session_step_ok)

subsection \<open>Properties\<close>

lemma session_get_hash_iff:
  assumes "session_ok X strict S"
  shows "session_get (TorrentHash h) S = Some a \<longleftrightarrow> session_get (TorrentId (th_id (se_heap S a))) S = Some a \<and> th_info_hash (se_heap S a) = h"
proof -
  have "session_get (TorrentHash h) S = Some a \<longleftrightarrow> (\<exists>i. sd_torrents (se_db S) i = Some a \<and> th_info_hash (se_heap S a) = h)"
    using sdb.by_hash_iff [OF session_okD(1) [OF assms]] by (force simp: session_get_def handle_hash_def)
  then show ?thesis using session_okD(3) [OF assms] by (auto simp: session_get_def entry_ok_def)
qed

lemma session_get_id:
  "session_ok X strict S \<Longrightarrow> session_get (TorrentId i) S = Some a \<Longrightarrow> th_id (se_heap S a) = i"
  by (auto simp: session_get_def entry_ok_def dest: session_okD(3))

text \<open>C6. In every state a session can get into, the two ways of finding a torrent agree: what is found under an id has that id and
  is found under its info hash, and what is found under an info hash has that hash and is found under its id.\<close>

theorem session_index_consistent:
  assumes "reach session_init (session_step X C strict) S"
  shows "(session_get (TorrentId i) S = Some a \<longrightarrow>
        th_id (se_heap S a) = i \<and> session_get (TorrentHash (th_info_hash (se_heap S a))) S = Some a)
    \<and> (session_get (TorrentHash h) S = Some a \<longrightarrow>
        th_info_hash (se_heap S a) = h \<and> session_get (TorrentId (th_id (se_heap S a))) S = Some a)"
  using session_get_hash_iff [OF session_sys.reach_inv [OF assms]] session_get_id [OF session_sys.reach_inv [OF assms]] by auto

text \<open>C7. Every torrent that a session manages, whatever is done to the session, is in a consistent state.\<close>

theorem session_torrents_consistent:
  assumes "reach session_init (session_step X C strict) S" and "\<And>meta. menv_ok (sx_env X meta)" and "session_get k S = Some a"
  shows "case mt_state (th_managed (se_heap S a)) of
      MPaused p \<Rightarrow> ct_inv (pa_chunk_tracker p)
    | MLive _ l \<Rightarrow> (\<exists>others H. live_ok (ie_live (me_init (th_env (se_heap S a)))) others H l)
    | MNone \<Rightarrow> False
    | _ \<Rightarrow> True"
proof -
  note ok = session_sys.reach_inv [OF assms(1)]
  obtain i where "sd_torrents (se_db S) i = Some a"
    using assms(3) sdb.by_hash_iff [OF session_okD(1) [OF ok]] by (force simp: session_get_def split: torrent_id_or_hash.splits)
  then have "entry_ok X strict i (se_heap S a)" by (rule session_okD(3) [OF ok])
  then have "state_ok (ie_live (me_init (th_env (se_heap S a)))) (mt_state (th_managed (se_heap S a)))"
    using managed_sys.reach_inv assms(2) by (force simp: entry_ok_def)
  then show ?thesis by (auto simp: state_ok_def paused_ok_def live_consistent_def split: managed_state.splits)
qed


text \<open>The peers of a private torrent never come from the DHT or from the local network; of several trackers only the first is
  used, but with at most one tracker of its own the torrent is announced to all trackers of the session.\<close>

theorem private_torrent_sources:
  "make_peer_sources C trackers announce initial_peers True =
     \<lparr>so_dht = None, so_lsd = None,
      so_trackers = (if cf_disable_trackers C then [] else if 1 < length trackers then [hd trackers] else trackers @ cf_trackers C),
      so_initial_peers = initial_peers\<rparr>"
  by (cases trackers) (auto simp: make_peer_sources_def Let_def)

text \<open>A private torrent that is added by a magnet link keeps the peer stream that was made before its metadata was known: the
  stream asks the DHT, and announces the torrent there.\<close>

theorem magnet_private_torrent_uses_dht:
  assumes "ia_metadata ia = None" and "tm_private meta" and "cf_dht C"
  shows "\<exists>rx. resolve_metadata X C ia opts (Some (Inr (meta, seen))) = Inr (meta, Some rx, seen)
     \<and> so_dht rx = Some (if \<not> ao_paused opts \<and> \<not> ao_list_only opts then cf_announce_port C else None)"
  using assms by (simp add: resolve_metadata_def wait_resolved_def make_peer_rx_def make_peer_sources_def Let_def)

text \<open>C20. An incoming connection that is let through comes from an address that is on no block list and, if there is an allow list, on that;
  the peer is not the session itself, and the torrent it is handed to has the info hash of the handshake and is live. The
  session is not changed by it. A connection from any other address is counted and refused before anything is read.\<close>

theorem incoming_connection_checked:
  assumes reach: "reach session_init (session_step X C strict) S"
    and check: "check_incoming_connection C hs timed_out now_state remote S = (r, S')"
  shows "(if ip_has (cf_query C) (cf_blocklist C) (fst remote) \<or> (\<exists>l. cf_allowlist C = Some l \<and> \<not> ip_has (cf_query C) l (fst remote))
     then (\<exists>e. r = Inl (Bail e)) \<and> S' = S\<lparr>se_blocked_incoming := se_blocked_incoming S + 1\<rparr>
     else S' = S \<and> (\<forall>a l h. r = Inr (a, l, h) \<longrightarrow> hs = Inr h \<and> hs_peer_id h \<noteq> cf_peer_id C
       \<and> th_info_hash (se_heap S a) = hs_info_hash h \<and> session_get (TorrentId (th_id (se_heap S a))) S = Some a
       \<and> managed_live (now_state a) = Some l))"
proof -
  define blocked where "blocked = (ip_has (cf_query C) (cf_blocklist C) (fst remote)
    \<or> (\<exists>l. cf_allowlist C = Some l \<and> \<not> ip_has (cf_query C) l (fst remote)))"
  have match: "hs = Inr h \<and> hs_peer_id h \<noteq> cf_peer_id C \<and> session_get (TorrentHash (hs_info_hash h)) S = Some a
      \<and> managed_live (now_state a) = Some l" if "match_incoming C hs timed_out now_state S = Inr (a, l, h)" for a l h
    using that by (auto simp: match_incoming_def res_bind_def ok_or_def session_get_def live_wait_initializing_def
        split: sum.splits if_splits prod.splits option.splits)
  have "r = Inr (a, l, h) \<Longrightarrow> hs = Inr h \<and> hs_peer_id h \<noteq> cf_peer_id C \<and> th_info_hash (se_heap S a) = hs_info_hash h
      \<and> session_get (TorrentId (th_id (se_heap S a))) S = Some a \<and> managed_live (now_state a) = Some l"
    if "r = match_incoming C hs timed_out now_state S" for a l h
    using that match [of a l h] session_get_hash_iff [OF session_sys.reach_inv [OF reach], of "hs_info_hash h" a] by auto
  moreover have "if blocked then (\<exists>e. r = Inl (Bail e)) \<and> S' = S\<lparr>se_blocked_incoming := se_blocked_incoming S + 1\<rparr>
      else r = match_incoming C hs timed_out now_state S \<and> S' = S"
    using check by (cases "cf_allowlist C") (auto simp: check_incoming_connection_def Let_def blocked_def split: if_splits)
  ultimately show ?thesis unfolding blocked_def [symmetric] by (cases blocked) auto
qed

lemma session_delete_db:
  assumes ok: "session_ok X strict S" and found: "session_get k S = Some a" and del: "session_delete P set_order created k df S = (r, S')"
  shows "sd_torrents (se_db S') = (sd_torrents (se_db S))(th_id (se_heap S a) := None)"
    and "th_id (se_heap S' b) = th_id (se_heap S b)" "th_info_hash (se_heap S' b) = th_info_hash (se_heap S b)"
proof -
  obtain i where i: "torrent_id_of k S = Inr i" "sd_torrents (se_db S) i = Some a"
    using found sdb.by_hash_iff [OF session_okD(1) [OF ok]]
    by (fastforce simp: session_get_def torrent_id_of_def split: torrent_id_or_hash.splits)
  have id: "th_id (se_heap S a) = i" using session_okD(3) [OF ok i(2)] by (simp add: entry_ok_def)
  define S1 where "S1 = S\<lparr>se_db := snd (db_remove_torrent (handle_hash S) i (se_db S))\<rparr>"
  have "remove_from_db i S = (Some a, S1)" using i(2) by (simp add: remove_from_db_def db_remove_torrent_def S1_def)
  with del i(1) have "delete_removed P set_order created df i a S1 = (r, S')"
    by (simp add: session_delete_def sm_bind_def sm_res_def)
  then obtain m where "S' = upd_managed a m S1 \<or> S' = snd (with_store (pe_delete P i) (upd_managed a m S1))"
    by (auto simp: delete_removed_def Let_def split: prod.splits if_splits)
  then have "se_db S' = se_db S1" "se_heap S' = (se_heap S)(a := (se_heap S a)\<lparr>th_managed := m\<rparr>)"
    by (auto simp: with_store_def upd_managed_def S1_def split: option.split prod.split)
  then show "sd_torrents (se_db S') = (sd_torrents (se_db S))(th_id (se_heap S a) := None)"
    "th_id (se_heap S' b) = th_id (se_heap S b)" "th_info_hash (se_heap S' b) = th_info_hash (se_heap S b)"
    by (auto simp: S1_def id sdb.remove_by_id)
qed

text \<open>C23. A torrent that was deleted is found neither by its id nor by its hash, all others still are; its token is cancelled, its
  storage is taken out and the store is told. Files are removed only when that was asked for.\<close>

theorem delete_forgets_torrent:
  assumes reach: "reach session_init (session_step X C strict) S"
    and del: "session_delete P set_order created k delete_files S = (Inr rs, S')"
  shows "\<exists>a. session_get k S = Some a
     \<and> session_get (TorrentId (th_id (se_heap S a))) S' = None \<and> session_get (TorrentHash (th_info_hash (se_heap S a))) S' = None
     \<and> (\<forall>n. n \<noteq> th_id (se_heap S a) \<longrightarrow> session_get (TorrentId n) S' = session_get (TorrentId n) S)
     \<and> mt_generation (th_managed (se_heap S a)) \<in> mt_dead_generations (th_managed (se_heap S' a)) \<and> mt_state (th_managed (se_heap S' a)) = MNone
     \<and> se_persistence S' = map_option (\<lambda>p. snd (pe_delete P (th_id (se_heap S a)) p)) (se_persistence S)
     \<and> (\<not> delete_files \<longrightarrow> rs = [])"
proof -
  note ok = session_sys.reach_inv [OF reach]
  obtain n a S1 where n: "torrent_id_of k S = Inr n" and rm: "remove_from_db n S = (Some a, S1)"
    and found: "delete_removed P set_order created delete_files n a S1 = (Inr rs, S')"
    using del by (auto simp: session_delete_def sm_bind_def sm_res_def split: sum.splits option.splits prod.splits)
  have a: "sd_torrents (se_db S) n = Some a" and S1: "S1 = S\<lparr>se_db := snd (db_remove_torrent (handle_hash S) n (se_db S))\<rparr>"
    using rm by (auto simp: remove_from_db_def db_remove_torrent_def split: option.splits)
  have n_id: "th_id (se_heap S a) = n" using session_okD(3) [OF ok a] by (simp add: entry_ok_def)
  define m where "m = snd (take_storage (th_env (se_heap S a)) (dismantle (th_env (se_heap S a)) (th_managed (se_heap S a))))"
  have S': "S' = snd (with_store (pe_delete P n) (upd_managed a m S1))" and rs: "\<not> delete_files \<Longrightarrow> rs = []"
    using found by (auto simp: delete_removed_def S1 m_def Let_def split: prod.splits sum.splits option.splits if_splits)
  then have fields: "se_db S' = snd (db_remove_torrent (handle_hash S) n (se_db S))" "th_managed (se_heap S' a) = m"
      "se_persistence S' = map_option (\<lambda>p. snd (pe_delete P n p)) (se_persistence S)"
    by (auto simp: with_store_def upd_managed_def S1 split: option.split prod.split)
  have "session_get k S = Some a"
    using n a sdb.by_hash_iff [OF session_okD(1) [OF ok]]
    by (auto simp: torrent_id_of_def session_get_def ok_or_def split: torrent_id_or_hash.splits option.splits)
  moreover have "session_get (TorrentHash (th_info_hash (se_heap S a))) S' = None"
    using sdb.hash_after_remove [OF session_okD(1) [OF ok] a] by (simp add: session_get_def fields handle_hash_def)
  moreover have "session_get (TorrentId j) S' = (if j = n then None else session_get (TorrentId j) S)" for j
    by (simp add: session_get_def fields sdb.remove_by_id)
  moreover have "mt_state m = MNone" "mt_generation (th_managed (se_heap S a)) \<in> mt_dead_generations m"
    by (auto simp: m_def dismantle_def take_storage_def pause_def cancel_token_def cancel_and_reset_token_def set_mstate_def notify_waiters_def Let_def
        split: managed_state.split prod.split sum.split)
  ultimately show ?thesis using fields rs n_id by (intro exI [of _ a]) simp
qed

subsection \<open>Restoring\<close>

text \<open>A stored torrent that can be added again: its torrent file parses to metadata with its hash, its selection fits, and its storage opens.\<close>

definition restorable :: "('s, 'f) session_params \<Rightarrow> (nat \<Rightarrow> ('s, 'f) surroundings \<times> resolve_outcome) \<Rightarrow> nat \<Rightarrow> serialized_torrent \<Rightarrow> bool" where
  "restorable X us i st \<longleftrightarrow> st_torrent_bytes st \<noteq> [] \<and> su_session_alive (fst (us i)) \<and> (\<exists>files. su_storage (fst (us i)) = Inr files)
     \<and> (\<exists>meta. sx_torrent_from_bytes X (st_torrent_bytes st) = Some meta \<and> sx_validate X meta = Inr () \<and> tm_info_hash meta = st_info_hash st
          \<and> (\<forall>only. st_only_files st = Some only \<longrightarrow> (\<forall>f \<in> set only. f < length (tm_files meta))))"

text \<open>The torrent has what was stored, and its check is on the way.\<close>

definition restored :: "serialized_torrent \<Rightarrow> ('s, 'f) torrent \<Rightarrow> bool" where
  "restored st t \<longleftrightarrow> th_info_hash t = st_info_hash st \<and> th_output_folder t = st_output_folder st \<and> th_category t = st_category st
     \<and> mt_only_files (th_managed t) = st_only_files st \<and> is_paused (th_managed t) = st_is_paused st
     \<and> (\<exists>a. mt_state (th_managed t) = MInitializing a) \<and> mt_tasks (th_managed t) \<noteq> []"

definition store_works :: "'p persistence_ops \<Rightarrow> bool" where
  "store_works P \<longleftrightarrow> (\<forall>i v p. fst (pe_store P i v p) = Inr ())"

lemma prepare_stored:
  assumes "restorable X us i st" and "into_add_torrent mk st = (add, opts)"
  shows "\<exists>ia pr. parse_add X http add (opts\<lparr>ao_preferred_id := Some i\<rparr>) = Inr (ia, opts\<lparr>ao_preferred_id := Some i\<rparr>)
     \<and> prepare_add X C folder ia (opts\<lparr>ao_preferred_id := Some i\<rparr>) resolve = Inr pr
     \<and> pr_info_hash pr = st_info_hash st \<and> pr_output_folder pr = st_output_folder st \<and> pr_only_files pr = st_only_files st"
proof -
  obtain meta where m: "sx_torrent_from_bytes X (st_torrent_bytes st) = Some meta" "sx_validate X meta = Inr ()" "tm_info_hash meta = st_info_hash st"
    "\<And>only f. st_only_files st = Some only \<Longrightarrow> f \<in> set only \<Longrightarrow> f < length (tm_files meta)" and bytes: "st_torrent_bytes st \<noteq> []"
    using assms(1) by (auto simp: restorable_def)
  have "compute_only_files re (map g (tm_files meta)) (st_only_files st) None = Inr (st_only_files st)" for re and g :: "string \<times> nat \<Rightarrow> string option"
    using m(4) by (fastforce simp: compute_only_files_def split: option.split)
  moreover have "choose_output_folder folder fs nm mg (Some out) None = Inr out" for fs nm mg out by (simp add: choose_output_folder_def)
  ultimately show ?thesis
    using assms(2) m(1-3) bytes
    by (auto simp: into_add_torrent_def parse_add_def add_torrent_file_def prepare_add_def resolve_metadata_def add_options_default_def Let_def)
qed

lemma start_new_torrent:
  assumes "su_session_alive u" and "mt_state m = MInitializing a"
  shows "\<exists>m'. start M u rx paused m = (Inr (), m') \<and> mt_state m' = mt_state m \<and> mt_only_files m' = mt_only_files m
    \<and> mt_paused m' = paused \<and> mt_tasks m' \<noteq> []"
  using assms by (simp add: start_def child_token_def start_locked_def spawn_initialize_and_start_def)

lemma insert_fresh:
  assumes "sd_torrents (se_db S) i = None" "session_get (TorrentHash (pr_info_hash pr)) S = None" "su_storage u = Inr files"
  shows "\<exists>S1. insert_torrent X C u fs i pr opts S = (Inr (Inr (se_next_addr S)), S1)
    \<and> sd_torrents (se_db S1) = (sd_torrents (se_db S))(i \<mapsto> se_next_addr S)
    \<and> se_heap S1 = (se_heap S)(se_next_addr S := new_torrent X C fs i pr opts files (su_factory u)) \<and> se_persistence S1 = se_persistence S"
proof -
  have "db_existing i (pr_info_hash pr) (se_db S) = None" using assms(1,2) by (simp add: db_existing_None session_get_def)
  then show ?thesis using assms(3) by (simp add: insert_torrent_def Let_def sdb.add_by_id)
qed

lemma persist_works:
  assumes "store_works P"
  shows "\<exists>S1. persist_added P i a S = (Inr (), S1) \<and> se_db S1 = se_db S \<and> se_heap S1 = se_heap S"
proof (cases "se_persistence S")
  case (Some p)
  obtain r p' where "pe_store P i (view_of (se_heap S a)) p = (r, p')" by fastforce
  moreover from this have "r = Inr ()" using assms unfolding store_works_def by (metis fst_conv)
  ultimately show ?thesis using Some by (simp add: persist_added_def with_store_def)
qed (simp add: persist_added_def with_store_def)

lemma add_stored:
  assumes ok: "session_ok X strict S" and st: "restorable X us i st" and P: "store_works P"
    and free: "sd_torrents (se_db S) i = None" "session_get (TorrentHash (st_info_hash st)) S = None"
    and add: "into_add_torrent mk st = (add, opts)"
  shows "\<exists>S' t. session_add_torrent X C P (fst (us i)) True http resolve add (Some (opts\<lparr>ao_preferred_id := Some i\<rparr>)) S
      = (Inr (Added i (se_next_addr S)), S') \<and> session_ok X strict S' \<and> restored st t
    \<and> sd_torrents (se_db S') = (sd_torrents (se_db S))(i \<mapsto> se_next_addr S) \<and> se_heap S' = (se_heap S)(se_next_addr S := t)"
proof -
  let ?opts = "opts\<lparr>ao_preferred_id := Some i\<rparr>" and ?u = "fst (us i)" and ?a = "se_next_addr S"
  obtain ia pr where pr: "parse_add X http add ?opts = Inr (ia, ?opts)" "prepare_add X C (se_output_folder S) ia ?opts resolve = Inr pr"
    "pr_info_hash pr = st_info_hash st" "pr_output_folder pr = st_output_folder st" "pr_only_files pr = st_only_files st"
    using prepare_stored [OF st add, of http C "se_output_folder S" resolve] by blast
  have opts: "\<not> ao_list_only opts" "ao_paused opts = st_is_paused st" "ao_category opts = st_category st"
    using add by (auto simp: into_add_torrent_def add_options_default_def)
  obtain files where files: "su_storage ?u = Inr files" and alive: "su_session_alive ?u" using st by (auto simp: restorable_def)
  obtain S1 where S1: "insert_torrent X C ?u True i pr ?opts S = (Inr (Inr ?a), S1)"
    "sd_torrents (se_db S1) = (sd_torrents (se_db S))(i \<mapsto> ?a)"
    "se_heap S1 = (se_heap S)(?a := new_torrent X C True i pr ?opts files (su_factory ?u))"
    using insert_fresh [of S i pr, OF free(1) free(2) [folded pr(3)] files] by blast
  obtain S2 where S2: "persist_added P i ?a S1 = (Inr (), S2)" "se_db S2 = se_db S1" "se_heap S2 = se_heap S1"
    using persist_works [OF P] by blast
  let ?m = "managed_new (st_is_paused st) (st_only_files st) files (su_factory ?u)"
  obtain m where m: "start (th_env (se_heap S2 ?a)) ?u (pr_peer_rx pr \<noteq> None) (ao_paused ?opts) ?m = (Inr (), m)"
    "mt_state m = mt_state ?m" "mt_only_files m = st_only_files st" "mt_paused m = st_is_paused st" "mt_tasks m \<noteq> []"
  proof -
    have "mt_state ?m = MInitializing 0" "mt_only_files ?m = st_only_files st" "ao_paused ?opts = st_is_paused st" using opts(2) by (simp_all add: managed_new_def)
    with start_new_torrent [OF alive, of ?m 0 "th_env (se_heap S2 ?a)" "pr_peer_rx pr \<noteq> None" "st_is_paused st"] that show thesis by auto
  qed
  have t2: "th_managed (se_heap S2 ?a) = ?m" by (simp add: S2(3) S1(3) new_torrent_def opts pr)
  define S' where "S' = spawn_completion_watcher i ?a (upd_managed ?a m S2)"
  have run: "start_added ?u (pr_peer_rx pr \<noteq> None) ?opts i ?a S2 = (Inr (Added i ?a), S')"
    using m(1) t2 by (simp add: start_added_def sm_bind_def on_torrent_def sm_modify_def sm_ret_def S'_def)
  have "session_ok X strict S'"
    using session_step_ok [OF session_step_ok [OF session_step_ok [OF ok ss_insert [OF S1(1)]] ss_persist [OF S2(1)]] ss_start [OF run]] by blast
  moreover have "session_add_torrent X C P ?u True http resolve add (Some ?opts) S = (Inr (Added i ?a), S')"
    using pr(1,2) S1(1) S2(1) run opts(1)
    by (simp add: session_add_torrent_def add_torrent_internal_def add_prepared_def sm_bind_def sm_res_def choose_id_def)
  moreover have "se_heap S' = (se_heap S)(?a := (se_heap S2 ?a)\<lparr>th_managed := m\<rparr>)" "se_db S' = se_db S2"
    by (auto simp: S'_def spawn_completion_watcher_def upd_managed_def S2 S1)
  moreover have "restored st ((se_heap S2 ?a)\<lparr>th_managed := m\<rparr>)"
    using m(2-5) by (simp add: restored_def S2(3) S1(3) new_torrent_def pr opts is_paused_def managed_new_def)
  ultimately show ?thesis using S1(2) S2(2) by auto
qed

lemma hash_still_free:
  assumes "session_ok X strict S" "session_ok X strict S'" "session_get (TorrentHash h) S = None"
    and "sd_torrents (se_db S') = (sd_torrents (se_db S))(i \<mapsto> a)" "se_heap S' = (se_heap S)(a := t)" "a = se_next_addr S" "th_info_hash t \<noteq> h"
  shows "session_get (TorrentHash h) S' = None"
proof (rule ccontr)
  assume "session_get (TorrentHash h) S' \<noteq> None"
  then obtain b where b: "sd_torrents (se_db S') (th_id (se_heap S' b)) = Some b" "th_info_hash (se_heap S' b) = h"
    using session_get_hash_iff [OF assms(2), of h] by (auto simp: session_get_def)
  with assms(5,7) have "b \<noteq> a" by auto
  with b assms(4,5) have "sd_torrents (se_db S) (th_id (se_heap S b)) = Some b" "th_info_hash (se_heap S b) = h" by (auto split: if_splits)
  then show False using assms(3) session_get_hash_iff [OF assms(1), of h b] by (simp add: session_get_def)
qed

lemma restore_all:
  assumes "session_ok X strict S" and "store_works P" and "distinct (map fst entries)" and "distinct (map (st_info_hash \<circ> snd) entries)"
    and "\<forall>(i, st) \<in> set entries. restorable X us i st"
    and "\<forall>(i, st) \<in> set entries. sd_torrents (se_db S) i = None \<and> session_get (TorrentHash (st_info_hash st)) S = None"
  shows "\<exists>S'. restore X C P us http mk (map (\<lambda>(i, st). (i, Inr st)) entries) S = (Inr (), S') \<and> session_ok X strict S'
    \<and> (\<forall>(i, st) \<in> set entries. \<exists>a. sd_torrents (se_db S') i = Some a \<and> restored st (se_heap S' a))
    \<and> (\<forall>i. i \<notin> fst ` set entries \<longrightarrow> sd_torrents (se_db S') i = sd_torrents (se_db S) i)
    \<and> (\<forall>a < se_next_addr S. se_heap S' a = se_heap S a)"
  using assms
proof (induction entries arbitrary: S)
  case (Cons e entries)
  obtain i st where e: "e = (i, st)" by fastforce
  obtain add opts where add: "into_add_torrent mk st = (add, opts)" by fastforce
  let ?a = "se_next_addr S"
  obtain S1 t where S1: "session_add_torrent X C P (fst (us i)) True http (snd (us i)) add (Some (opts\<lparr>ao_preferred_id := Some i\<rparr>)) S
      = (Inr (Added i ?a), S1)" "session_ok X strict S1" "restored st t" "sd_torrents (se_db S1) = (sd_torrents (se_db S))(i \<mapsto> ?a)"
      "se_heap S1 = (se_heap S)(?a := t)"
    using add_stored [OF Cons.prems(1) _ Cons.prems(2) _ _ add, of us i C http "snd (us i)"] Cons.prems(5,6) e by auto
  have next_addr: "?a < se_next_addr S1" using session_okD(2) [OF S1(2), of i ?a] S1(4) by simp
  have free: "\<forall>(j, st') \<in> set entries. sd_torrents (se_db S1) j = None \<and> session_get (TorrentHash (st_info_hash st')) S1 = None"
  proof (clarify, intro conjI)
    fix j st'
    assume j: "(j, st') \<in> set entries"
    then have "j \<noteq> i" "st_info_hash st' \<noteq> st_info_hash st" using Cons.prems(3,4) e by (force simp: image_iff)+
    then show "sd_torrents (se_db S1) j = None" using Cons.prems(6) j S1(4) by auto
    show "session_get (TorrentHash (st_info_hash st')) S1 = None"
      using hash_still_free [OF Cons.prems(1) S1(2) _ S1(4,5) refl] Cons.prems(6) j \<open>st_info_hash st' \<noteq> st_info_hash st\<close> S1(3)
      by (auto simp: restored_def)
  qed
  obtain S' where S': "restore X C P us http mk (map (\<lambda>(i, st). (i, Inr st)) entries) S1 = (Inr (), S')" "session_ok X strict S'"
    "\<forall>(i, st) \<in> set entries. \<exists>a. sd_torrents (se_db S') i = Some a \<and> restored st (se_heap S' a)"
    "\<forall>i. i \<notin> fst ` set entries \<longrightarrow> sd_torrents (se_db S') i = sd_torrents (se_db S1) i" "\<forall>a < se_next_addr S1. se_heap S' a = se_heap S1 a"
    using Cons.IH [OF S1(2) Cons.prems(2) _ _ _ free] Cons.prems(3-5) by auto
  have i: "i \<notin> fst ` set entries" using Cons.prems(3) e by auto
  then have "sd_torrents (se_db S') i = Some ?a" "restored st (se_heap S' ?a)" using S'(4,5) S1(3-5) next_addr by auto
  moreover have "restore X C P us http mk (map (\<lambda>(i, st). (i, Inr st)) (e # entries)) S = (Inr (), S')" using S'(1) S1(1) e add by simp
  ultimately show ?case
    using S'(2-5) S1(4,5) next_addr e i by (intro exI [of _ S']) auto
qed simp

text \<open>C8. A restart gives the session back: from stored torrents with different ids and hashes that can be added, the new session has
  exactly these ids, each finds, as does its hash, a torrent with the stored hash, folder, category, selection and paused
  flag, and its check is on the way.\<close>

theorem restart_restores_session:
  fixes X :: "('s, 'f) session_params" and P :: "'p persistence_ops"
  assumes "store_works P" and "distinct (map fst entries)" and "distinct (map (st_info_hash \<circ> snd) entries)"
    and "\<forall>(i, st) \<in> set entries. restorable X us i st"
  shows "\<exists>S'. restore X C P us http mk (map (\<lambda>(i, st). (i, Inr st)) entries) (session_new p folder completed) = (Inr (), S')
    \<and> (\<forall>(i, st) \<in> set entries. \<exists>a. session_get (TorrentId i) S' = Some a \<and> session_get (TorrentHash (st_info_hash st)) S' = Some a
         \<and> restored st (se_heap S' a))
    \<and> (\<forall>i. session_get (TorrentId i) S' \<noteq> None \<longrightarrow> i \<in> fst ` set entries)"
proof -
  let ?S = "session_new p folder completed :: ('s, 'f, 'p) session"
  have "reach session_init (session_step X C True) ?S" by (rule reach_init) (auto simp: session_init_def)
  then have ok: "session_ok X True ?S" by (rule session_sys.reach_inv)
  have empty: "\<forall>(i, st) \<in> set entries. sd_torrents (se_db ?S) i = None \<and> session_get (TorrentHash (st_info_hash st)) ?S = None"
    by (auto simp: session_new_def session_db_default_def session_get_def db_get_by_info_hash_def)
  obtain S' where S': "restore X C P us http mk (map (\<lambda>(i, st). (i, Inr st)) entries) ?S = (Inr (), S')" "session_ok X True S'"
    "\<forall>(i, st) \<in> set entries. \<exists>a. sd_torrents (se_db S') i = Some a \<and> restored st (se_heap S' a)"
    "\<forall>i. i \<notin> fst ` set entries \<longrightarrow> sd_torrents (se_db S') i = sd_torrents (se_db ?S) i"
    using restore_all [OF ok assms empty] by blast
  have "session_get (TorrentHash (st_info_hash st)) S' = Some a" if "sd_torrents (se_db S') i = Some a" "restored st (se_heap S' a)" for i st a
    using that session_get_hash_iff [OF S'(2)] session_okD(3) [OF S'(2)] by (auto simp: session_get_def restored_def entry_ok_def)
  then show ?thesis using S'(1,3,4)
    by (intro exI [of _ S']) (fastforce simp: session_get_def session_new_def session_db_default_def)
qed

subsection \<open>Examples\<close>

definition ex_tmeta :: "id20 \<Rightarrow> bool \<Rightarrow> torrent_meta" where
  "ex_tmeta h private = \<lparr>tm_info_hash = h, tm_announce = [], tm_url_list = [], tm_private = private, tm_name = Some ''n'',
     tm_files = [(''a'', 1)], tm_file_infos = [], tm_torrent_bytes = [1]\<rparr>"

definition ex_params :: "(byte list fs_storage, unit) session_params" where
  "ex_params = \<lparr>sx_parse_magnet = (\<lambda>_. None), sx_parse_url = (\<lambda>u. Some u), sx_torrent_from_bytes = (\<lambda>b. Some (ex_tmeta (length b) False)),
     sx_validate = (\<lambda>_. Inr ()), sx_regex = (\<lambda>_. None), sx_to_str = Some, sx_tracker_comms_start = (\<lambda>ts. ts \<noteq> []), sx_env = (\<lambda>_. ex_managed_env)\<rparr>"

definition ex_config :: session_config where
  "ex_config = \<lparr>cf_peer_id = 1, cf_announce_port = Some 4240, cf_dht = True, cf_lsd = True, cf_disable_trackers = False, cf_trackers = [''t''],
     cf_peer_opts = \<lparr>po_connect_timeout = None, po_read_write_timeout = None, po_keep_alive_interval = None\<rparr>, cf_peer_limit = None,
     cf_blocklist = ip_ranges_default, cf_allowlist = None, cf_query = \<lparr>query_v4 = (\<lambda>_ _. False), query_v6 = (\<lambda>_ _. False)\<rparr>\<rparr>"

definition ex_store_ops :: "unit persistence_ops" where
  "ex_store_ops = \<lparr>pe_next_id = (\<lambda>_. Inr 0), pe_store = (\<lambda>_ _ p. (Inr (), p)), pe_delete = (\<lambda>_ p. (Inr (), p)), pe_update_metadata = (\<lambda>_ _ p. (Inr (), p))\<rparr>"

definition ex_prepared :: "id20 \<Rightarrow> prepared" where
  "ex_prepared h = \<lparr>pr_info_hash = h, pr_meta = ex_tmeta h False, pr_trackers = [], pr_name = None, pr_web_seed_urls = [], pr_only_files = None,
     pr_output_folder = ''o'', pr_peer_rx = None, pr_seen_peers = []\<rparr>"

abbreviation ex_new_session :: "(byte list fs_storage, unit, unit) session" where
  "ex_new_session \<equiv> session_new (Some ()) ''o'' None"

definition ex_session :: "(byte list fs_storage, unit, unit) session" where
  "ex_session = snd (insert_torrent ex_params ex_config ex_surroundings True 0 (ex_prepared 5) add_options_default ex_new_session)"

lemma ex_new_session_reach: "reach session_init (session_step X C strict) ex_new_session"
  by (rule reach_init) (auto simp: session_init_def)

lemma ex_session_reach: "reach session_init (session_step ex_params ex_config strict) ex_session"
  unfolding ex_session_def by (rule reach_step [OF ex_new_session_reach ss_insert [OF surjective_pairing]])

lemma ex_session_values:
  "session_get (TorrentId 0) ex_session = Some 0" "session_get (TorrentHash 5) ex_session = Some 0"
  "th_info_hash (se_heap ex_session 0) = 5" "th_id (se_heap ex_session 0) = 0" "se_blocked_incoming ex_session = 0"
  "mt_generation (th_managed (se_heap ex_session 0)) = 0"
  by (simp_all add: ex_session_def insert_torrent_def session_new_def session_db_default_def db_existing_def db_get_by_info_hash_def
      ex_prepared_def ex_surroundings_def new_torrent_def session_get_def db_add_torrent_def handle_hash_def managed_new_def Let_def)

theorem session_index_consistent_witness:
  "session_get (TorrentHash (th_info_hash (se_heap ex_session 0))) ex_session = Some 0 \<and> th_id (se_heap ex_session 0) = 0"
  using session_index_consistent [OF ex_session_reach [of True], of 0 0 5] ex_session_values by auto

theorem session_torrents_consistent_witness: "mt_state (th_managed (se_heap ex_session 0)) \<noteq> MNone"
  using session_torrents_consistent [OF ex_session_reach [of True] _ ex_session_values(1)] ex_managed_env_ok
  by (auto simp: ex_params_def)


theorem magnet_private_torrent_uses_dht_witness:
  "\<exists>rx. resolve_metadata ex_params ex_config \<lparr>ia_info_hash = 5, ia_metadata = None, ia_trackers = [], ia_name = None, ia_web_seed_urls = []\<rparr>
      add_options_default (Some (Inr (ex_tmeta 5 True, []))) = Inr (ex_tmeta 5 True, Some rx, []) \<and> so_dht rx = Some (Some 4240)"
  using magnet_private_torrent_uses_dht [of "\<lparr>ia_info_hash = 5, ia_metadata = None, ia_trackers = [], ia_name = None, ia_web_seed_urls = []\<rparr>"
      "ex_tmeta 5 True" ex_config ex_params add_options_default "[]"]
  by (simp add: ex_tmeta_def ex_config_def add_options_default_def)

theorem delete_forgets_torrent_witness:
  "session_get (TorrentHash 5) (snd (session_delete ex_store_ops (\<lambda>x. x) (Inl Panic) (TorrentId 0) False ex_session)) = None"
proof -
  have meta: "mt_metadata (dismantle M (th_managed (se_heap ex_session 0)))" for M
    by (simp add: ex_session_def insert_torrent_def session_new_def session_db_default_def db_existing_def db_get_by_info_hash_def
        ex_surroundings_def new_torrent_def managed_new_def dismantle_def pause_def cancel_token_def cancel_and_reset_token_def
        set_mstate_def notify_waiters_def Let_def)
  have "fst (session_delete ex_store_ops (\<lambda>x. x) (Inl Panic) (TorrentId 0) False ex_session) = Inr []"
    using ex_session_values(1)
    by (auto simp: session_delete_def torrent_id_of_def sm_bind_def sm_res_def remove_from_db_def db_remove_torrent_def session_get_def
        delete_removed_def Let_def meta split: prod.split sum.split option.split)
  then have "session_delete ex_store_ops (\<lambda>x. x) (Inl Panic) (TorrentId 0) False ex_session
      = (Inr [], snd (session_delete ex_store_ops (\<lambda>x. x) (Inl Panic) (TorrentId 0) False ex_session))" by (simp add: prod_eq_iff)
  from delete_forgets_torrent [OF ex_session_reach [of True] this] show ?thesis using ex_session_values by auto
qed

definition ex_stored :: serialized_torrent where
  "ex_stored = \<lparr>st_info_hash = 2, st_torrent_bytes = [7, 7], st_trackers = [], st_output_folder = ''o'', st_only_files = Some [0],
     st_is_paused = True, st_category = None\<rparr>"

theorem restart_restores_session_witness:
  "\<exists>S' a. restore ex_params ex_config ex_store_ops (\<lambda>_. (ex_surroundings, None)) (\<lambda>_. Inl Panic) (\<lambda>_ _ _. []) [(3, Inr ex_stored)] ex_new_session
      = (Inr (), S') \<and> session_get (TorrentId 3) S' = Some a \<and> restored ex_stored (se_heap S' a)"
proof -
  have "store_works ex_store_ops" by (simp add: store_works_def ex_store_ops_def)
  from restart_restores_session [OF this, of "[(3, ex_stored)]" ex_params "\<lambda>_. (ex_surroundings, None)" ex_config "\<lambda>_. Inl Panic" "\<lambda>_ _ _. []" "Some ()" "''o''" None]
  show ?thesis by (auto simp: restorable_def ex_stored_def ex_params_def ex_surroundings_def ex_tmeta_def)
qed

theorem incoming_connection_checked_witness:
  "\<exists>h. fst (check_incoming_connection ex_config (Inr \<lparr>hs_info_hash = 5, hs_peer_id = 2, hs_extended = True\<rparr>) False
       (\<lambda>_. ex_managed\<lparr>mt_state := MLive (0, 0) ex_ls\<rparr>) (V4 7, 80) ex_session) = Inr (0, ex_ls, h)
     \<and> th_info_hash (se_heap ex_session 0) = hs_info_hash h"
proof -
  let ?h = "\<lparr>hs_info_hash = 5, hs_peer_id = 2, hs_extended = True\<rparr>"
  obtain i where "db_get_by_info_hash 5 (se_db ex_session) = Some (i, 0)" using ex_session_values(2) by (auto simp: session_get_def)
  then have "check_incoming_connection ex_config (Inr ?h) False (\<lambda>_. ex_managed\<lparr>mt_state := MLive (0, 0) ex_ls\<rparr>) (V4 7, 80) ex_session
      = (Inr (0, ex_ls, ?h), ex_session)"
    by (simp add: check_incoming_connection_def match_incoming_def ex_config_def ip_has_def live_wait_initializing_def poll_initialized_def managed_live_def)
  from incoming_connection_checked [OF ex_session_reach [of True] this] this show ?thesis
    by (auto simp: ex_config_def ip_has_def)
qed

end
