(* ===== verification/Api.thy ===== *)
theory Api
  imports Session_Safety Text
begin

text \<open>
  \<open>src/src/api.rs\<close>, \<open>src/src/api_error.rs\<close>, \<open>src/src/http_api_types.rs\<close>, \<open>src/src/http_api/timeout.rs\<close> and
  \<open>src/src/http_api/handlers/torrents.rs\<close>: the API object over a session with its errors and their HTTP status, what requests are parsed
  from, and the handlers of torrents. JSON is not modelled: a handler returns the value it would print. What belongs to other crates
  (file names of a torrent, hashes as text, MIME types) is in \<open>api_env\<close>.
\<close>

subsection \<open>Errors\<close>

datatype api_error_kind =
    TorrentNotFound torrent_id_or_hash
  | DhtDisabled
  | Unauthorized
  | TextError string
  | OtherAnyhow error
  | OtherError error

record api_error =
  ae_status :: "nat option"
  ae_kind :: api_error_kind

type_synonym 'a api = "api_error + 'a"

definition api_status :: "api_error \<Rightarrow> nat" where
  "api_status e = (case ae_status e of None \<Rightarrow> 500 | Some s \<Rightarrow> s)"

definition torrent_not_found :: "torrent_id_or_hash \<Rightarrow> api_error" where
  "torrent_not_found k = \<lparr>ae_status = Some 404, ae_kind = TorrentNotFound k\<rparr>"

definition dht_disabled :: api_error where
  "dht_disabled = \<lparr>ae_status = Some 404, ae_kind = DhtDisabled\<rparr>"

text \<open>From an \<open>anyhow\<close> error that wraps no API error, and from an error of the library.\<close>

definition from_anyhow :: "error \<Rightarrow> api_error" where
  "from_anyhow e = \<lparr>ae_status = None, ae_kind = OtherAnyhow e\<rparr>"

definition from_error :: "error \<Rightarrow> api_error" where
  "from_error e = \<lparr>ae_status = Some 500, ae_kind = OtherError e\<rparr>"

definition status_text :: "nat \<Rightarrow> string \<Rightarrow> api_error" where
  "status_text s msg = \<lparr>ae_status = Some s, ae_kind = TextError msg\<rparr>"

definition map_err :: "('e \<Rightarrow> 'd) \<Rightarrow> 'e + 'a \<Rightarrow> 'd + 'a" where
  "map_err f r = (case r of Inl e \<Rightarrow> Inl (f e) | Inr x \<Rightarrow> Inr x)"

definition with_status :: "nat \<Rightarrow> 'a res \<Rightarrow> 'a api" where
  "with_status s = map_err (\<lambda>e. \<lparr>ae_status = Some s, ae_kind = OtherAnyhow e\<rparr>)"

definition with_status_error :: "nat \<Rightarrow> api_error_kind \<Rightarrow> 'a option \<Rightarrow> 'a api" where
  "with_status_error s k x = (case x of None \<Rightarrow> Inl \<lparr>ae_status = Some s, ae_kind = k\<rparr> | Some v \<Rightarrow> Inr v)"

definition error_kind_name :: "api_error_kind \<Rightarrow> string" where
  "error_kind_name k =
     (case k of TorrentNotFound _ \<Rightarrow> ''torrent_not_found'' | DhtDisabled \<Rightarrow> ''dht_disabled'' | Unauthorized \<Rightarrow> ''unauthorized''
      | _ \<Rightarrow> ''internal_error'')"

text \<open>What is serialised of an error: the kind, the status and the id of a torrent that was not found.\<close>

definition serialized_error :: "api_error \<Rightarrow> string \<times> nat \<times> torrent_id_or_hash option" where
  "serialized_error e =
     (error_kind_name (ae_kind e), api_status e, case ae_kind e of TorrentNotFound k \<Rightarrow> Some k | _ \<Rightarrow> None)"

definition api_bind :: "'a api \<Rightarrow> ('a \<Rightarrow> 'b api) \<Rightarrow> 'b api" where
  "api_bind m f = (case m of Inl e \<Rightarrow> Inl e | Inr x \<Rightarrow> f x)"

lemma api_bind_simps [simp]: "api_bind (Inl e) f = Inl e" "api_bind (Inr x) f = f x"
  by (simp_all add: api_bind_def)

lemma map_err_simps [simp]: "map_err f (Inl e) = Inl (f e)" "map_err f (Inr x) = Inr x"
  by (simp_all add: map_err_def)

subsection \<open>Identifiers of torrents\<close>

record api_env =
  av_files :: "torrent_meta \<Rightarrow> (string list \<times> nat) list"
  av_filename :: "string list \<Rightarrow> string"
  av_mime :: "string \<Rightarrow> string option"
  av_hash_to_str :: "id20 \<Rightarrow> string"
  av_hash_from_str :: "string \<Rightarrow> id20 option"
  av_total_pieces :: "torrent_meta \<Rightarrow> nat"

definition parse_id_or_hash :: "api_env \<Rightarrow> string \<Rightarrow> torrent_id_or_hash option" where
  "parse_id_or_hash V s =
     (if length s = 40 then map_option TorrentHash (av_hash_from_str V s) else map_option TorrentId (parse_uint 64 s))"

text \<open>\<open>Display\<close>; \<open>Serialize\<close> prints the same text for a hash and the number for an id.\<close>

definition show_id_or_hash :: "api_env \<Rightarrow> torrent_id_or_hash \<Rightarrow> string" where
  "show_id_or_hash V k = (case k of TorrentId n \<Rightarrow> show_nat n | TorrentHash h \<Rightarrow> av_hash_to_str V h)"

text \<open>\<open>Deserialize\<close>, from what serde found: an integer of any width, or a string.\<close>

datatype serde_value = SerdeInt int | SerdeStr string

definition deserialize_id_or_hash :: "api_env \<Rightarrow> serde_value \<Rightarrow> torrent_id_or_hash option" where
  "deserialize_id_or_hash V v =
     (case v of
        SerdeInt i \<Rightarrow> if 0 \<le> i \<and> i < 2 ^ 64 then Some (TorrentId (nat i)) else None
      | SerdeStr s \<Rightarrow> parse_id_or_hash V s)"

definition serialize_id_or_hash :: "api_env \<Rightarrow> torrent_id_or_hash \<Rightarrow> serde_value" where
  "serialize_id_or_hash V k = (case k of TorrentId n \<Rightarrow> SerdeInt (int n) | TorrentHash h \<Rightarrow> SerdeStr (av_hash_to_str V h))"

subsection \<open>Views\<close>

text \<open>\<open>torrent.metadata.load()\<close>\<close>

definition loaded_meta :: "('s, 'f) torrent \<Rightarrow> torrent_meta option" where
  "loaded_meta t = (if mt_metadata (th_managed t) then Some (th_metadata t) else None)"

definition torrent_name :: "('s, 'f) torrent \<Rightarrow> string option" where
  "torrent_name t =
     (case loaded_meta t of
        Some m \<Rightarrow> (case tm_name m of Some n \<Rightarrow> Some n | None \<Rightarrow> th_magnet_name t)
      | None \<Rightarrow> th_magnet_name t)"

text \<open>\<open>with_torrents\<close>, on a session whose hash map iterates in the order \<open>order\<close>.\<close>

definition session_torrents :: "nat list \<Rightarrow> ('s, 'f, 'p) session \<Rightarrow> (nat \<times> ('s, 'f) torrent) list" where
  "session_torrents order S = List.map_filter (\<lambda>i. map_option (\<lambda>a. (i, se_heap S a)) (sd_torrents (se_db S) i)) order"

record details_file =
  df_name :: string
  df_components :: "string list"
  df_length :: nat
  df_included :: bool

record torrent_details =
  td_id :: "nat option"
  td_info_hash :: string
  td_name :: "string option"
  td_output_folder :: string
  td_total_pieces :: nat
  td_files :: "details_file list option"
  td_stats :: "torrent_stats res option"
  td_category :: "string option"

definition make_torrent_details ::
  "api_env \<Rightarrow> nat option \<Rightarrow> id20 \<Rightarrow> torrent_meta option \<Rightarrow> string option \<Rightarrow> nat list option \<Rightarrow> string \<Rightarrow> string option \<Rightarrow> torrent_details" where
  "make_torrent_details V i info_hash info name only_files folder category =
     (let files = (case info of
          Some m \<Rightarrow> map (\<lambda>(idx, c, len). \<lparr>df_name = av_filename V c, df_components = c, df_length = len,
            df_included = (case only_files of None \<Rightarrow> True | Some o' \<Rightarrow> idx \<in> set o')\<rparr>) (List.enumerate 0 (av_files V m))
        | None \<Rightarrow> [])
      in \<lparr>td_id = i, td_info_hash = av_hash_to_str V info_hash,
          td_name = (case name of Some n \<Rightarrow> Some n | None \<Rightarrow> Option.bind info tm_name), td_output_folder = folder,
          td_total_pieces = (case info of Some m \<Rightarrow> av_total_pieces V m | None \<Rightarrow> 0), td_files = Some files, td_stats = None,
          td_category = category\<rparr>)"

record list_opts =
  lo_with_stats :: bool
  lo_offset :: "nat option"
  lo_limit :: "nat option"

definition list_entry :: "api_env \<Rightarrow> bool \<Rightarrow> nat \<times> ('s, 'f) torrent \<Rightarrow> torrent_details" where
  "list_entry V with_stats = (\<lambda>(i, t).
     \<lparr>td_id = Some i, td_info_hash = av_hash_to_str V (th_info_hash t), td_name = torrent_name t, td_output_folder = th_output_folder t,
      td_total_pieces = (case loaded_meta t of Some m \<Rightarrow> av_total_pieces V m | None \<Rightarrow> 0), td_files = None,
      td_stats = (if with_stats then Some (stats (th_env t) (th_managed t)) else None), td_category = th_category t\<rparr>)"

text \<open>The torrents of a page, and how many there are in all.\<close>

definition api_torrent_list_ext ::
  "api_env \<Rightarrow> list_opts \<Rightarrow> nat list \<Rightarrow> ('s, 'f, 'p) session \<Rightarrow> torrent_details list \<times> nat" where
  "api_torrent_list_ext V opts order S =
     (let all = session_torrents order S;
          rest = drop (case lo_offset opts of None \<Rightarrow> 0 | Some n \<Rightarrow> n) all;
          page = (case lo_limit opts of None \<Rightarrow> rest | Some l \<Rightarrow> take l rest)
      in (map (list_entry V (lo_with_stats opts)) page, length all))"

definition mgr_handle :: "torrent_id_or_hash \<Rightarrow> ('s, 'f, 'p) session \<Rightarrow> nat api" where
  "mgr_handle k S = (case session_get k S of None \<Rightarrow> Inl (torrent_not_found k) | Some a \<Rightarrow> Inr a)"

definition details_of :: "api_env \<Rightarrow> nat option \<Rightarrow> ('s, 'f) torrent \<Rightarrow> torrent_details" where
  "details_of V i t = make_torrent_details V i (th_info_hash t) (loaded_meta t) (torrent_name t) (mt_only_files (th_managed t))
     (th_output_folder t) (th_category t)"

definition api_torrent_details :: "api_env \<Rightarrow> torrent_id_or_hash \<Rightarrow> ('s, 'f, 'p) session \<Rightarrow> torrent_details api" where
  "api_torrent_details V k S = api_bind (mgr_handle k S) (\<lambda>a. Inr (details_of V (Some (th_id (se_heap S a))) (se_heap S a)))"

definition torrent_file_mime_type :: "api_env \<Rightarrow> torrent_meta \<Rightarrow> nat \<Rightarrow> string api" where
  "torrent_file_mime_type V meta file_idx =
     (case Option.bind (vec_get (av_files V meta) file_idx) (\<lambda>(c, _). if c = [] then None else av_mime V (last c)) of
        None \<Rightarrow> Inl (status_text 500 ''cannot determine mime type for file'')
      | Some m \<Rightarrow> Inr m)"

definition api_torrent_file_mime_type :: "api_env \<Rightarrow> torrent_id_or_hash \<Rightarrow> nat \<Rightarrow> ('s, 'f, 'p) session \<Rightarrow> string api" where
  "api_torrent_file_mime_type V k file_idx S =
     api_bind (mgr_handle k S) (\<lambda>a. case loaded_meta (se_heap S a) of
       None \<Rightarrow> Inl (from_anyhow (Bail ''torrent is not resolved''))
     | Some m \<Rightarrow> torrent_file_mime_type V m file_idx)"

definition api_stats_v1 :: "torrent_id_or_hash \<Rightarrow> ('s, 'f, 'p) session \<Rightarrow> torrent_stats res api" where
  "api_stats_v1 k S = api_bind (mgr_handle k S) (\<lambda>a. Inr (stats (th_env (se_heap S a)) (th_managed (se_heap S a))))"

definition api_dump_haves :: "torrent_id_or_hash \<Rightarrow> ('s, 'f, 'p) session \<Rightarrow> (bf \<times> nat) api" where
  "api_dump_haves k S =
     api_bind (mgr_handle k S) (\<lambda>a. map_err from_anyhow
       (with_chunk_tracker (\<lambda>c. (have_pieces c, total_pieces (ct_lengths c))) (th_managed (se_heap S a))))"

subsection \<open>Actions\<close>

type_synonym ('s, 'f, 'p, 'a) api_sm = "('s, 'f, 'p) session \<Rightarrow> 'a api \<times> ('s, 'f, 'p) session"

text \<open>An operation of the session on the torrent that is found, its errors turned into errors of the API.\<close>

definition on_handle :: "torrent_id_or_hash \<Rightarrow> (error \<Rightarrow> api_error) \<Rightarrow> (nat \<Rightarrow> ('s, 'f, 'p, 'a) ses) \<Rightarrow> ('s, 'f, 'p, 'a) api_sm" where
  "on_handle k err op S =
     (case mgr_handle k S of
        Inl e \<Rightarrow> (Inl e, S)
      | Inr a \<Rightarrow> map_prod (map_err err) id (op a S))"

definition bad_request :: "error \<Rightarrow> api_error" where
  "bad_request e = \<lparr>ae_status = Some 400, ae_kind = OtherAnyhow e\<rparr>"

definition api_torrent_action_pause :: "'p persistence_ops \<Rightarrow> torrent_id_or_hash \<Rightarrow> ('s, 'f, 'p, unit) api_sm" where
  "api_torrent_action_pause P k = on_handle k bad_request (session_pause P)"

definition api_torrent_action_start ::
  "('s, 'f) session_params \<Rightarrow> session_config \<Rightarrow> 'p persistence_ops \<Rightarrow> ('s, 'f) surroundings \<Rightarrow> torrent_id_or_hash \<Rightarrow> ('s, 'f, 'p, unit) api_sm" where
  "api_torrent_action_start X C P u k = on_handle k bad_request (session_unpause X C P u)"

text \<open>\<open>forget\<close> keeps the files, \<open>delete\<close> does not; neither looks the torrent up before.\<close>

definition api_torrent_action_forget ::
  "'p persistence_ops \<Rightarrow> (string list \<Rightarrow> string list) \<Rightarrow> 's res \<Rightarrow> torrent_id_or_hash \<Rightarrow> ('s, 'f, 'p, removal list) api_sm" where
  "api_torrent_action_forget P set_order created k S = map_prod (map_err from_anyhow) id (session_delete P set_order created k False S)"

definition api_torrent_action_delete ::
  "'p persistence_ops \<Rightarrow> (string list \<Rightarrow> string list) \<Rightarrow> 's res \<Rightarrow> torrent_id_or_hash \<Rightarrow> ('s, 'f, 'p, removal list) api_sm" where
  "api_torrent_action_delete P set_order created k S = map_prod (map_err from_anyhow) id (session_delete P set_order created k True S)"

definition api_torrent_action_update_only_files ::
  "'p persistence_ops \<Rightarrow> nat \<Rightarrow> torrent_id_or_hash \<Rightarrow> nat list \<Rightarrow> ('s, 'f, 'p, unit) api_sm" where
  "api_torrent_action_update_only_files P now k only_files = on_handle k from_anyhow (session_update_only_files P only_files now)"

record api_add_response =
  aa_id :: "nat option"
  aa_details :: torrent_details
  aa_output_folder :: string
  aa_seen_peers :: "socket_addr list option"

text \<open>\<open>info\<close> is the metadata that a list-only response carries.\<close>

definition add_response :: "api_env \<Rightarrow> torrent_meta \<Rightarrow> add_torrent_response \<Rightarrow> ('s, 'f, 'p) session \<Rightarrow> api_add_response" where
  "add_response V info r S =
     (let managed = (\<lambda>i a. \<lparr>aa_id = Some i, aa_details = details_of V (Some i) (se_heap S a), aa_output_folder = th_output_folder (se_heap S a),
            aa_seen_peers = None\<rparr>)
      in case r of
           AlreadyManaged i a \<Rightarrow> managed i a
         | Added i a \<Rightarrow> managed i a
         | ListOnly l \<Rightarrow> \<lparr>aa_id = None,
             aa_details = make_torrent_details V None (lo_info_hash l) (Some info) None (lo_only_files l) (lo_output_folder l) None,
             aa_output_folder = lo_output_folder l, aa_seen_peers = Some (lo_seen_peers l)\<rparr>)"

definition api_add_torrent ::
  "('s, 'f) session_params \<Rightarrow> session_config \<Rightarrow> 'p persistence_ops \<Rightarrow> ('s, 'f) surroundings \<Rightarrow> (string \<Rightarrow> torrent_meta res) \<Rightarrow> resolve_outcome
   \<Rightarrow> add_torrent \<Rightarrow> add_options option \<Rightarrow> ('s, 'f, 'p, add_torrent_response) api_sm" where
  "api_add_torrent X C P u http resolve add opts S =
     map_prod (map_err bad_request) id (session_add_torrent X C P u True http resolve add opts S)"

definition api_set_torrent_category :: "'p persistence_ops \<Rightarrow> torrent_id_or_hash \<Rightarrow> string option \<Rightarrow> ('s, 'f, 'p, unit) api_sm" where
  "api_set_torrent_category P k category S =
     (case set_torrent_category k category S of
        (Inl e, S1) \<Rightarrow> (Inl (from_anyhow e), S1)
      | (Inr _, S1) \<Rightarrow> (case mgr_handle k S1 of Inl e \<Rightarrow> (Inl e, S1) | Inr a \<Rightarrow> (Inr (), try_update_persistence_metadata P a S1)))"

text \<open>The category manager of the session and the store it is written to; \<open>store\<close> is \<open>persist_categories\<close>.\<close>

definition api_create_or_edit_category ::
  "(categories \<Rightarrow> unit res) \<Rightarrow> string \<Rightarrow> string option \<Rightarrow> categories \<Rightarrow> unit api \<times> categories" where
  "api_create_or_edit_category store name save_path cats =
     (case (if cats name \<noteq> None then category_edit name save_path cats else category_create name save_path cats) of
        (Inl e, cats1) \<Rightarrow> (Inl (from_anyhow e), cats1)
      | (Inr _, cats1) \<Rightarrow> (map_err from_anyhow (store cats1), cats1))"

definition api_remove_category :: "(categories \<Rightarrow> unit res) \<Rightarrow> string \<Rightarrow> categories \<Rightarrow> unit api \<times> categories" where
  "api_remove_category store name cats =
     (case category_remove name cats of
        (Inl e, cats1) \<Rightarrow> (Inl (from_anyhow e), cats1)
      | (Inr _, cats1) \<Rightarrow> (map_err from_anyhow (store cats1), cats1))"

subsection \<open>What requests are parsed from\<close>

record add_params =
  ap_overwrite :: "bool option"
  ap_output_folder :: "string option"
  ap_sub_folder :: "string option"
  ap_only_files_regex :: "string option"
  ap_only_files :: "nat list option"
  ap_peer_connect_timeout :: "nat option"
  ap_peer_read_write_timeout :: "nat option"
  ap_initial_peers :: "socket_addr list option"
  ap_paused :: "bool option"
  ap_is_url :: "bool option"
  ap_list_only :: "bool option"

definition unwrap_or :: "'a \<Rightarrow> 'a option \<Rightarrow> 'a" where
  "unwrap_or d x = (case x of None \<Rightarrow> d | Some v \<Rightarrow> v)"

definition into_add_torrent_options :: "add_params \<Rightarrow> add_options" where
  "into_add_torrent_options p = add_options_default\<lparr>
     ao_overwrite := unwrap_or False (ap_overwrite p), ao_paused := unwrap_or False (ap_paused p), ao_only_files_regex := ap_only_files_regex p,
     ao_only_files := ap_only_files p, ao_output_folder := ap_output_folder p, ao_sub_folder := ap_sub_folder p,
     ao_list_only := unwrap_or False (ap_list_only p), ao_initial_peers := ap_initial_peers p,
     ao_peer_opts := Some \<lparr>po_connect_timeout = ap_peer_connect_timeout p, po_read_write_timeout = ap_peer_read_write_timeout p,
       po_keep_alive_interval = None\<rparr>\<rparr>"

fun split_on :: "char \<Rightarrow> string \<Rightarrow> string list" where
  "split_on c [] = [[]]"
| "split_on c (x # xs) = (if x = c then [] # split_on c xs else (x # hd (split_on c xs)) # tl (split_on c xs))"

text \<open>\<open>OnlyFiles\<close>: numbers between commas. Splitting never gives an empty list, so the check for one never fires.\<close>

fun opt_mapM :: "('a \<Rightarrow> 'b option) \<Rightarrow> 'a list \<Rightarrow> 'b list option" where
  "opt_mapM f [] = Some []"
| "opt_mapM f (x # xs) = Option.bind (f x) (\<lambda>y. map_option (Cons y) (opt_mapM f xs))"

definition serialize_only_files :: "nat list \<Rightarrow> string" where
  "serialize_only_files fs = join_with '','' (map show_nat fs)"

definition deserialize_only_files :: "string \<Rightarrow> nat list option" where
  "deserialize_only_files s =
     Option.bind (opt_mapM (parse_uint 64) (split_on (CHR '','') s)) (\<lambda>l. if l = [] then None else Some l)"

definition deserialize_initial_peers :: "(string \<Rightarrow> socket_addr option) \<Rightarrow> string \<Rightarrow> socket_addr list option" where
  "deserialize_initial_peers addr_from_str s = opt_mapM addr_from_str (filter (\<lambda>x. x \<noteq> []) (split_on (CHR '','') s))"

definition serialize_initial_peers :: "(socket_addr \<Rightarrow> string) \<Rightarrow> socket_addr list \<Rightarrow> string" where
  "serialize_initial_peers show_addr ps = join_with '','' (map show_addr ps)"

text \<open>The timeout in milliseconds: from the query, else from a header, else the default; never more than the maximum.\<close>

definition request_timeout :: "nat \<Rightarrow> nat \<Rightarrow> nat option \<Rightarrow> string option \<Rightarrow> nat api" where
  "request_timeout default_ms max_ms query header =
     (case query of
        Some n \<Rightarrow> Inr (min n max_ms)
      | None \<Rightarrow>
        (case header of
           None \<Rightarrow> Inr (min default_ms max_ms)
         | Some v \<Rightarrow> (case parse_uint 64 v of None \<Rightarrow> Inl (from_anyhow (Bail ''error parsing timeout'')) | Some n \<Rightarrow> Inr (min n max_ms))))"

text \<open>What the body of an addition is taken for. \<open>utf8\<close> decodes it.\<close>

definition SUPPORTED_SCHEMES :: "string list" where
  "SUPPORTED_SCHEMES = [''http:'', ''https:'', ''magnet:'']"

definition body_bytes :: "string \<Rightarrow> byte list" where
  "body_bytes s = map (\<lambda>c. word_of_nat (of_char c)) s"

definition guess_add ::
  "('s, 'f) session_params \<Rightarrow> (byte list \<Rightarrow> string option) \<Rightarrow> bool option \<Rightarrow> byte list \<Rightarrow> add_torrent api" where
  "guess_add X utf8 is_url data =
     (let as_url = (case utf8 data of None \<Rightarrow> Inl (from_anyhow (Bail ''invalid utf-8 for passed URL'')) | Some s \<Rightarrow> Inr (AddUrl s));
          maybe_magnet = (Option.bind (utf8 data) (sx_parse_magnet X) \<noteq> None)
      in case is_url of
           Some True \<Rightarrow> as_url
         | Some False \<Rightarrow> Inr (AddTorrentFileBytes data)
         | None \<Rightarrow>
           if list_ex (\<lambda>p. take (length p) data = body_bytes p) SUPPORTED_SCHEMES \<or> maybe_magnet then as_url
           else Inr (AddTorrentFileBytes data))"

text \<open>The handler, for a request that does not run into its timeout.\<close>

definition h_torrents_post ::
  "('s, 'f) session_params \<Rightarrow> session_config \<Rightarrow> 'p persistence_ops \<Rightarrow> ('s, 'f) surroundings \<Rightarrow> (string \<Rightarrow> torrent_meta res) \<Rightarrow> resolve_outcome
   \<Rightarrow> (byte list \<Rightarrow> string option) \<Rightarrow> add_params \<Rightarrow> byte list \<Rightarrow> ('s, 'f, 'p, add_torrent_response) api_sm" where
  "h_torrents_post X C P u http resolve utf8 params data S =
     (case guess_add X utf8 (ap_is_url params) data of
        Inl e \<Rightarrow> (Inl e, S)
      | Inr add \<Rightarrow> api_add_torrent X C P u http resolve add (Some (into_add_torrent_options params)) S)"

subsection \<open>Round trips\<close>

text \<open>What the code relies on of \<open>Id20\<close>: its text has 40 characters and is read back.\<close>

definition hash_text_ok :: "api_env \<Rightarrow> bool" where
  "hash_text_ok V \<longleftrightarrow> (\<forall>h. length (av_hash_to_str V h) = 40 \<and> av_hash_from_str V (av_hash_to_str V h) = Some h)"

text \<open>An identifier of a torrent survives printing and parsing, as text in a URL and as a serialised value: a number is never taken for a hash.\<close>

theorem torrent_id_roundtrip:
  assumes "hash_text_ok V" and "\<And>n. k = TorrentId n \<Longrightarrow> n < 2 ^ 64"
  shows "parse_id_or_hash V (show_id_or_hash V k) = Some k" "deserialize_id_or_hash V (serialize_id_or_hash V k) = Some k"
proof -
  show "parse_id_or_hash V (show_id_or_hash V k) = Some k"
  proof (cases k)
    case (TorrentId n)
    then have n: "n < 2 ^ 64" using assms(2) by simp
    then have "length (show_nat n) \<le> 20" by (intro show_nat_length) auto
    then show ?thesis using TorrentId n by (simp add: parse_id_or_hash_def show_id_or_hash_def parse_show_nat)
  next
    case (TorrentHash h)
    then show ?thesis using assms(1) by (simp add: parse_id_or_hash_def show_id_or_hash_def hash_text_ok_def)
  qed
  show "deserialize_id_or_hash V (serialize_id_or_hash V k) = Some k"
    using assms by (cases k) (auto simp: deserialize_id_or_hash_def serialize_id_or_hash_def parse_id_or_hash_def hash_text_ok_def)
qed

lemma split_on_fresh: "c \<notin> set x \<Longrightarrow> split_on c x = [x]"
  by (induction x) auto

lemma split_on_append: "c \<notin> set x \<Longrightarrow> split_on c (x @ c # y) = x # split_on c y"
  by (induction x) auto

lemma split_on_not_Nil [simp]: "split_on c x \<noteq> []"
  by (induction x) auto

lemma split_join:
  assumes "xs \<noteq> []" and "\<And>x. x \<in> set xs \<Longrightarrow> c \<notin> set x"
  shows "split_on c (join_with [c] xs) = xs"
  using assms by (induction "[c]" xs rule: join_with.induct) (auto simp: split_on_fresh split_on_append)

lemma opt_mapM_map: "(\<And>x. x \<in> set xs \<Longrightarrow> f (g x) = Some x) \<Longrightarrow> opt_mapM f (map g xs) = Some xs"
  by (induction xs) auto

text \<open>The selection of files in the query of an addition survives printing and parsing.\<close>

lemma only_files_roundtrip:
  assumes "fs \<noteq> []" and "\<And>f. f \<in> set fs \<Longrightarrow> f < 2 ^ 64"
  shows "deserialize_only_files (serialize_only_files fs) = Some fs"
proof -
  have "split_on (CHR '','') (serialize_only_files fs) = map show_nat fs"
    unfolding serialize_only_files_def using assms(1) by (intro split_join) (auto simp: not_digit)
  then show ?thesis using assms opt_mapM_map [of fs "parse_uint 64" show_nat] by (simp add: deserialize_only_files_def parse_show_nat)
qed

text \<open>A limit of the request never exceeds the maximum.\<close>

lemma request_timeout_bound: "request_timeout d m q h = Inr n \<Longrightarrow> n \<le> m"
  by (auto simp: request_timeout_def split: option.splits)

subsection \<open>The session under the API\<close>

lemma sm_bind_reach:
  assumes "sm_bind m f S = (r, S')" and "Q S"
    and "\<And>r1 S1. m S = (r1, S1) \<Longrightarrow> Q S1" and "\<And>x S1. m S = (Inr x, S1) \<Longrightarrow> Q S1 \<Longrightarrow> f x S1 = (r, S') \<Longrightarrow> Q S'"
  shows "Q S'"
  using assms by (auto simp: sm_bind_def split: prod.splits sum.splits)

text \<open>An addition, from the parsed request on, is a sequence of steps of the session.\<close>

lemma add_torrent_reach:
  assumes "reach session_init (session_step X C strict) S" and "session_add_torrent X C P u fs http resolve add opts S = (r, S')"
  shows "reach session_init (session_step X C strict) S'"
proof -
  have res: "sm_res x S = (r1, S1) \<Longrightarrow> S1 = S" for x :: "'x res" and r1 S and S1 :: "('a, 'b, 'c) session" by (simp add: sm_res_def)
  have prep: "reach session_init (session_step X C strict) S2"
    if "reach session_init (session_step X C strict) S1" "add_prepared X C P u fs opts1 pr S1 = (r2, S2)" for opts1 pr S1 r2 S2
  proof (cases "ao_list_only opts1")
    case True
    then show ?thesis using that by (simp add: add_prepared_def sm_ret_def)
  next
    case False
    have "sm_bind (choose_id P opts1) (\<lambda>i. sm_bind (insert_torrent X C u fs i pr opts1) (\<lambda>r. case r of
             Inl (j, h) \<Rightarrow> sm_ret (AlreadyManaged j h)
           | Inr a \<Rightarrow> sm_bind (persist_added P i a) (\<lambda>_. start_added u (pr_peer_rx pr \<noteq> None) opts1 i a))) S1 = (r2, S2)"
      using that(2) unfolding add_prepared_def if_not_P [OF False] .
    then show ?thesis
      using that(1)
      by (elim sm_bind_reach) (auto intro: reach_step ss_choose ss_insert ss_persist ss_start elim!: sm_bind_reach
          simp: sm_ret_def split: sum.splits prod.splits)
  qed
  show ?thesis
    using assms(2) unfolding session_add_torrent_def
    by (elim sm_bind_reach) (use assms(1) prep in \<open>auto simp: add_torrent_internal_def sm_res_def elim!: sm_bind_reach\<close>)
qed

lemma on_handle_reach:
  assumes "reach session_init (session_step X C strict) S" and "on_handle k err op S = (r, S')"
    and "\<And>a r1. op a S = (r1, S') \<Longrightarrow> session_step X C strict S S'"
  shows "reach session_init (session_step X C strict) S'"
proof (cases "mgr_handle k S")
  case (Inl e)
  then show ?thesis using assms(1,2) by (simp add: on_handle_def)
next
  case (Inr a)
  then have "op a S = (fst (op a S), S')" using assms(2) by (auto simp: on_handle_def map_prod_def split: prod.splits)
  then show ?thesis using assms(1,3) by (blast intro: reach_step)
qed

text \<open>The requests of the API that change the session, as they are dispatched.\<close>

datatype ('s, 'f) api_action =
    ActPause torrent_id_or_hash
  | ActStart "('s, 'f) surroundings" torrent_id_or_hash
  | ActForget "'s res" torrent_id_or_hash
  | ActDelete "'s res" torrent_id_or_hash
  | ActOnlyFiles nat torrent_id_or_hash "nat list"
  | ActCategory torrent_id_or_hash "string option"
  | ActAdd "('s, 'f) surroundings" "string \<Rightarrow> torrent_meta res" resolve_outcome add_params "byte list"
  | ActFolders string "string option"

definition api_act ::
  "('s, 'f) session_params \<Rightarrow> session_config \<Rightarrow> 'p persistence_ops \<Rightarrow> (string list \<Rightarrow> string list) \<Rightarrow> (byte list \<Rightarrow> string option)
   \<Rightarrow> ('s, 'f) api_action \<Rightarrow> ('s, 'f, 'p, unit) api_sm" where
  "api_act X C P set_order utf8 act S =
     (case act of
        ActPause k \<Rightarrow> api_torrent_action_pause P k S
      | ActStart u k \<Rightarrow> api_torrent_action_start X C P u k S
      | ActForget created k \<Rightarrow> map_prod (map_sum id (\<lambda>_. ())) id (api_torrent_action_forget P set_order created k S)
      | ActDelete created k \<Rightarrow> map_prod (map_sum id (\<lambda>_. ())) id (api_torrent_action_delete P set_order created k S)
      | ActOnlyFiles now k fs \<Rightarrow> api_torrent_action_update_only_files P now k fs S
      | ActCategory k c \<Rightarrow> api_set_torrent_category P k c S
      | ActAdd u http resolve params data \<Rightarrow> map_prod (map_sum id (\<lambda>_. ())) id (h_torrents_post X C P u http resolve utf8 params data S)
      | ActFolders folder completed \<Rightarrow> (Inr (), set_completed_folder completed (set_output_folder folder S)))"

definition action_target :: "('s, 'f) api_action \<Rightarrow> torrent_id_or_hash option" where
  "action_target act =
     (case act of ActPause k \<Rightarrow> Some k | ActStart _ k \<Rightarrow> Some k | ActForget _ k \<Rightarrow> Some k | ActDelete _ k \<Rightarrow> Some k
      | ActOnlyFiles _ k _ \<Rightarrow> Some k | ActCategory k _ \<Rightarrow> Some k | _ \<Rightarrow> None)"

text \<open>Whatever sequence of requests comes in, the session stays in a state that its own steps reach, so that everything that is
  proved of reachable sessions holds of a session behind the API.\<close>

theorem api_actions_reach:
  assumes "reach session_init (session_step X C strict) S"
  shows "reach session_init (session_step X C strict) (fold (\<lambda>act S. snd (api_act X C P set_order utf8 act S)) acts S)"
  using assms
proof (induction acts arbitrary: S)
  case (Cons act acts)
  obtain r S' where act: "api_act X C P set_order utf8 act S = (r, S')" by fastforce
  have "reach session_init (session_step X C strict) S'"
  proof (cases act)
    case (ActPause k)
    show ?thesis
      by (rule on_handle_reach [OF Cons.prems, of k bad_request "session_pause P" r])
        (use act ActPause in \<open>auto simp: api_act_def api_torrent_action_pause_def intro: ss_pause\<close>)
  next
    case (ActStart u k)
    show ?thesis
      by (rule on_handle_reach [OF Cons.prems, of k bad_request "session_unpause X C P u" r])
        (use act ActStart in \<open>auto simp: api_act_def api_torrent_action_start_def intro: ss_unpause\<close>)
  next
    case (ActForget created k)
    then have "session_delete P set_order created k False S = (fst (session_delete P set_order created k False S), S')"
      using act by (auto simp: api_act_def api_torrent_action_forget_def map_prod_def split: prod.splits)
    then show ?thesis using Cons.prems by (blast intro: reach_step ss_delete)
  next
    case (ActDelete created k)
    then have "session_delete P set_order created k True S = (fst (session_delete P set_order created k True S), S')"
      using act by (auto simp: api_act_def api_torrent_action_delete_def map_prod_def split: prod.splits)
    then show ?thesis using Cons.prems by (blast intro: reach_step ss_delete)
  next
    case (ActOnlyFiles now k fs)
    show ?thesis
      by (rule on_handle_reach [OF Cons.prems, of k from_anyhow "session_update_only_files P fs now" r])
        (use act ActOnlyFiles in \<open>auto simp: api_act_def api_torrent_action_update_only_files_def intro: ss_only_files\<close>)
  next
    case (ActCategory k c)
    obtain r1 S1 where c: "set_torrent_category k c S = (r1, S1)" by fastforce
    have "reach session_init (session_step X C strict) S1" using Cons.prems ss_category [OF c] by (rule reach_step)
    then show ?thesis
      using act ActCategory c by (auto simp: api_act_def api_set_torrent_category_def split: sum.splits intro: reach_step ss_metadata)
  next
    case (ActAdd u http resolve params data)
    show ?thesis
    proof (cases "guess_add X utf8 (ap_is_url params) data")
      case (Inl e)
      then show ?thesis using act ActAdd Cons.prems by (simp add: api_act_def h_torrents_post_def)
    next
      case (Inr add)
      obtain r1 where "session_add_torrent X C P u True http resolve add (Some (into_add_torrent_options params)) S = (r1, S')"
        using act ActAdd Inr by (cases "session_add_torrent X C P u True http resolve add (Some (into_add_torrent_options params)) S")
          (auto simp: api_act_def h_torrents_post_def api_add_torrent_def)
      then show ?thesis by (rule add_torrent_reach [OF Cons.prems])
    qed
  next
    case (ActFolders folder completed)
    then have "S' = set_completed_folder completed (set_output_folder folder S)" using act by (simp add: api_act_def)
    then show ?thesis using Cons.prems by (auto intro: reach_step ss_output_folder ss_completed_folder)
  qed
  then show ?case using Cons.IH act by simp
qed simp

text \<open>A request for a torrent that is not there changes nothing and fails: with status 404 when it is looked up first; but
  deleting, forgetting and setting the category report an internal error instead.\<close>

theorem api_unknown_torrent:
  assumes "action_target act = Some k" and "session_get k S = None"
  shows "\<exists>e. api_act X C P set_order utf8 act S = (Inl e, S)
    \<and> api_status e = (case act of ActForget _ _ \<Rightarrow> 500 | ActDelete _ _ \<Rightarrow> 500 | ActCategory _ _ \<Rightarrow> 500 | _ \<Rightarrow> 404)"
proof -
  have handle: "mgr_handle k S = Inl (torrent_not_found k)" using assms(2) by (simp add: mgr_handle_def)
  have del: "\<exists>e. session_delete P set_order created k df S = (Inl e, S)" for created :: "'a res" and df
    using assms(2)
    by (auto simp: session_delete_def torrent_id_of_def session_get_def sm_bind_def sm_res_def remove_from_db_def db_remove_torrent_def
        db_get_by_info_hash_def ok_or_def split: torrent_id_or_hash.splits option.splits bind_splits)
  show ?thesis
  proof (cases act)
    case (ActForget created k')
    then show ?thesis using assms(1) del [of created False] by (auto simp: action_target_def api_act_def api_torrent_action_forget_def from_anyhow_def api_status_def)
  next
    case (ActDelete created k')
    then show ?thesis using assms(1) del [of created True] by (auto simp: action_target_def api_act_def api_torrent_action_delete_def from_anyhow_def api_status_def)
  qed (use assms handle in \<open>auto simp: action_target_def api_act_def api_torrent_action_pause_def api_torrent_action_start_def on_handle_def
      api_torrent_action_update_only_files_def api_set_torrent_category_def set_torrent_category_def torrent_not_found_def from_anyhow_def api_status_def\<close>)
qed

text \<open>Paging: the pages that a client asks for one after the other are the list of all torrents, each torrent once.\<close>

lemma list_pages:
  assumes "0 < l"
  shows "concat (map (\<lambda>i. fst (api_torrent_list_ext V \<lparr>lo_with_stats = b, lo_offset = Some (i * l), lo_limit = Some l\<rparr> order S)) [0..<k])
    = take (k * l) (fst (api_torrent_list_ext V \<lparr>lo_with_stats = b, lo_offset = None, lo_limit = None\<rparr> order S))"
proof (induction k)
  case (Suc k)
  then show ?case by (simp add: api_torrent_list_ext_def Let_def take_add take_map drop_map add.commute [of l] flip: take_map drop_map)
qed simp

end
