(* ===== verification/Upnp.thy ===== *)
theory Upnp
  imports Api
begin

text \<open>
  \<open>src/src/upnp_server_adapter.rs\<close>: the session's torrents as the folders of a UPnP media server. The tree of files of a torrent
  (an array of nodes that refer to each other by index), the numbers under which its nodes are known outside, and the two browse
  requests. The names of a torrent's files (\<open>iter_file_details\<close>), the guess of a MIME type and URL encoding belong to other crates and are
  arguments; \<open>usize\<close> is 64 bits wide.
\<close>

unbundle bit_operations_syntax

subsection \<open>Numbers of objects\<close>

definition encode_id :: "u64 \<Rightarrow> u64 \<Rightarrow> u64" where
  "encode_id local_id torrent_id = push_bit 16 local_id OR (torrent_id + 1)"

definition decode_id :: "u64 \<Rightarrow> (u64 \<times> u64) res" where
  "decode_id i =
     (let torrent_id = i AND 0xffff
      in if torrent_id = 0 then Inl (Bail ''invalid id'') else Inr (drop_bit 16 i, torrent_id - 1))"

subsection \<open>The tree of files\<close>

record tree_node =
  tn_title :: string
  tn_parent_id :: "nat option"
  tn_children :: "nat list"
  tn_file_id :: "nat option"

type_synonym name_cache = "nat \<times> string \<rightharpoonup> nat"

text \<open>A file is the list of the components of its name. \<open>nth(1)\<close> is over the components of all files.\<close>

definition is_single_file_at_root :: "string list list \<Rightarrow> bool" where
  "is_single_file_at_root files \<longleftrightarrow> length (concat files) < 2"

text \<open>\<open>tree.nodes.push(node); tree.nodes[parent_id].children.push(id)\<close>; indexing panics out of range.\<close>

definition push_node :: "nat \<Rightarrow> string \<Rightarrow> nat option \<Rightarrow> tree_node list \<Rightarrow> tree_node list res" where
  "push_node parent_id title fid nodes =
     (let nodes1 = nodes @ [\<lparr>tn_title = title, tn_parent_id = Some parent_id, tn_children = [], tn_file_id = fid\<rparr>]
      in if parent_id < length nodes1
         then Inr (nodes1[parent_id := (nodes1 ! parent_id)\<lparr>tn_children := tn_children (nodes1 ! parent_id) @ [length nodes]\<rparr>])
         else Inl Panic)"

text \<open>The inner loop over the components of one file.\<close>

fun add_file :: "nat \<Rightarrow> string list \<Rightarrow> nat \<Rightarrow> tree_node list \<times> name_cache \<Rightarrow> (tree_node list \<times> name_cache) res" where
  "add_file fid [] parent_id s = Inr s"
| "add_file fid [c] parent_id (nodes, cache) =
     res_bind (push_node parent_id c (Some fid) nodes) (\<lambda>nodes1. Inr (nodes1, cache))"
| "add_file fid (c # d # cs) parent_id (nodes, cache) =
     (case cache (parent_id, c) of
        Some i \<Rightarrow> add_file fid (d # cs) i (nodes, cache)
      | None \<Rightarrow> res_bind (push_node parent_id c None nodes) (\<lambda>nodes1.
          add_file fid (d # cs) (length nodes) (nodes1, cache((parent_id, c) \<mapsto> length nodes))))"

definition root_node :: "string \<Rightarrow> nat option \<Rightarrow> tree_node" where
  "root_node title fid = \<lparr>tn_title = title, tn_parent_id = None, tn_children = [], tn_file_id = fid\<rparr>"

definition torrent_title :: "string \<Rightarrow> string option \<Rightarrow> nat \<Rightarrow> string" where
  "torrent_title pre name torrent_id = (case name of Some n \<Rightarrow> n | None \<Rightarrow> pre @ show_nat torrent_id)"

definition tree_build :: "nat \<Rightarrow> string option \<Rightarrow> string list list \<Rightarrow> tree_node list res" where
  "tree_build torrent_id name files =
     (if is_single_file_at_root files
      then (case files of
              [] \<Rightarrow> Inl Panic
            | f # _ \<Rightarrow> if f = [] then Inl Panic else Inr [root_node (last f) (Some 0)])
      else res_bind (res_fold (\<lambda>(fid, f). add_file fid f 0) (List.enumerate 0 files)
               ([root_node (torrent_title ''torrent '' name torrent_id) None], Map.empty))
             (\<lambda>(nodes, _). Inr nodes))"

subsection \<open>Items and containers\<close>

datatype item_or_container =
    Item u64 u64 string "string option" string nat
  | Container u64 "u64 option" string "nat option"

record upnp_env =
  ue_components :: "torrent_meta \<Rightarrow> string list list"
  ue_urlencode :: "string \<Rightarrow> string"
  ue_mime :: "string \<Rightarrow> string option"
  ue_file_name :: "string \<Rightarrow> string option"

definition stream_url :: "string \<Rightarrow> nat \<Rightarrow> nat \<Rightarrow> string \<Rightarrow> string" where
  "stream_url host torrent_id fid rest =
     ''http://'' @ host @ ''/torrents/'' @ show_nat torrent_id @ ''/stream/'' @ show_nat fid @ ''/'' @ rest"

definition as_item_or_container :: "upnp_env \<Rightarrow> tree_node \<Rightarrow> nat \<Rightarrow> string \<Rightarrow> nat \<Rightarrow> torrent_meta \<Rightarrow> item_or_container res" where
  "as_item_or_container E n i host torrent_id meta =
     (let encoded_id = encode_id (of_nat i) (of_nat torrent_id);
          encoded_parent_id = map_option (\<lambda>p. encode_id (of_nat p) (of_nat torrent_id)) (tn_parent_id n);
          parent = (case encoded_parent_id of None \<Rightarrow> 0 | Some p \<Rightarrow> p)
      in case tn_file_id n of
           Some fid \<Rightarrow>
             res_bind (ok_or Panic (vec_get (tm_file_infos meta) fid)) (\<lambda>fi.
               let last_url_bit = (case vec_get (ue_components E meta) fid of
                     Some f \<Rightarrow> join_with ''/'' (map (ue_urlencode E) f) | None \<Rightarrow> tn_title n)
               in Inr (Item encoded_id parent (tn_title n) (ue_mime E (relative_filename fi))
                         (stream_url host torrent_id fid last_url_bit) (fi_len fi)))
         | None \<Rightarrow> Inr (Container encoded_id (Some parent) (tn_title n) (Some (length (tn_children n)))))"

subsection \<open>Browsing\<close>

definition root_entry :: "upnp_env \<Rightarrow> string \<Rightarrow> ('s, 'f) torrent \<Rightarrow> item_or_container option res" where
  "root_entry E host t =
     (case loaded_meta t of
        None \<Rightarrow> Inr None
      | Some meta \<Rightarrow>
        if is_single_file_at_root (ue_components E meta)
        then res_bind (ok_or Panic (vec_get (tm_file_infos meta) 0)) (\<lambda>fi.
          case ue_file_name E (relative_filename fi) of
            None \<Rightarrow> Inr None
          | Some title \<Rightarrow> res_bind (as_item_or_container E (root_node title (Some 0)) 0 host (th_id t) meta) (\<lambda>x. Inr (Some x)))
        else Inr (Some (Container (of_nat (th_id t) + 1) (Some 0) (torrent_title ''torrent '' (tm_name meta) (th_id t)) None)))"

text \<open>\<open>all\<close>: the torrents of the session, in the order of the hash map.\<close>

definition build_root :: "upnp_env \<Rightarrow> string \<Rightarrow> ('s, 'f) torrent list \<Rightarrow> item_or_container list res" where
  "build_root E host all = res_bind (res_mapM (root_entry E host) (sort_key th_id all)) (\<lambda>xs. Inr (somes xs))"

definition build_impl ::
  "upnp_env \<Rightarrow> ('s, 'f) torrent list \<Rightarrow> (nat \<Rightarrow> ('s, 'f) torrent option) \<Rightarrow> u64 \<Rightarrow> string \<Rightarrow> bool \<Rightarrow> item_or_container list res" where
  "build_impl E all get object_id host metadata =
     (if object_id = 0
      then res_bind (build_root E host all) (\<lambda>root. Inr (if metadata then [Container 0 None ''root'' (Some (length root))] else root))
      else case decode_id object_id of
        Inl _ \<Rightarrow> Inr []
      | Inr (node_id, torrent_id) \<Rightarrow>
        (case Option.bind (get (unat torrent_id)) (\<lambda>t. map_option (Pair t) (loaded_meta t)) of
           None \<Rightarrow> Inr []
         | Some (t, meta) \<Rightarrow>
           res_bind (tree_build (th_id t) (tm_name meta) (ue_components E meta)) (\<lambda>nodes.
           case vec_get nodes (unat node_id) of
             None \<Rightarrow> Inr []
           | Some n \<Rightarrow>
             if tn_file_id n \<noteq> None \<or> metadata
             then res_bind (as_item_or_container E n (unat node_id) host (th_id t) meta) (\<lambda>x. Inr [x])
             else res_mapM (\<lambda>(i, c). as_item_or_container E c i host (th_id t) meta)
                    (List.map_filter (\<lambda>i. map_option (Pair i) (vec_get nodes i)) (tn_children n)))))"

text \<open>The provider.\<close>

definition session_torrent :: "('s, 'f, 'p) session \<Rightarrow> nat \<Rightarrow> ('s, 'f) torrent option" where
  "session_torrent S i = map_option (se_heap S) (session_get (TorrentId i) S)"

definition browse_direct_children :: "upnp_env \<Rightarrow> nat list \<Rightarrow> ('s, 'f, 'p) session \<Rightarrow> u64 \<Rightarrow> string \<Rightarrow> item_or_container list res" where
  "browse_direct_children E order S object_id host =
     build_impl E (map snd (session_torrents order S)) (session_torrent S) object_id host False"

definition browse_metadata :: "upnp_env \<Rightarrow> nat list \<Rightarrow> ('s, 'f, 'p) session \<Rightarrow> u64 \<Rightarrow> string \<Rightarrow> item_or_container list res" where
  "browse_metadata E order S object_id host =
     build_impl E (map snd (session_torrents order S)) (session_torrent S) object_id host True"

subsection \<open>Numbers: properties\<close>

lemma and_ffff: "(i :: u64) AND 0xffff = take_bit 16 i"
  by (simp add: take_bit_eq_mask mask_eq_exp_minus_1)

lemma take_bit_self: "unat (a :: u64) < 2 ^ n \<Longrightarrow> take_bit n a = a"
  by (simp add: word_eq_iff_unsigned [where ?'a = nat] unsigned_take_bit_eq take_bit_nat_eq_self)

lemma low_bits:
  assumes "unat (a :: u64) < 2 ^ 16"
  shows "take_bit 16 a = a" "drop_bit 16 a = 0"
proof -
  show "take_bit 16 a = a" using assms by (rule take_bit_self)
  then show "drop_bit 16 a = 0" by (metis drop_bit_take_bit cancel_comm_monoid_add_class.diff_cancel take_bit_0)
qed

lemma encode_id_parts:
  assumes "unat t + 1 < 2 ^ 16"
  shows "encode_id l t AND 0xffff = t + 1" "drop_bit 16 (encode_id l t) = take_bit 48 l"
proof -
  have t1: "unat (t + 1) < 2 ^ 16" using assms unat_add_lem [of t 1] by simp
  show "encode_id l t AND 0xffff = t + 1"
    by (simp add: encode_id_def and_ffff take_bit_or take_bit_push_bit low_bits(1) [OF t1])
  have "drop_bit 16 (push_bit 16 l) = take_bit 48 l"
    by (rule bit_eqI) (auto simp: bit_simps)
  then show "drop_bit 16 (encode_id l t) = take_bit 48 l"
    by (simp add: encode_id_def drop_bit_or low_bits(2) [OF t1])
qed

lemma decode_encode:
  assumes "unat t + 1 < 2 ^ 16" and "unat l < 2 ^ 48"
  shows "decode_id (encode_id l t) = Inr (l, t)"
proof -
  have "take_bit 48 l = l" using assms(2) by (rule take_bit_self)
  moreover have "t + 1 \<noteq> 0" using assms(1) unat_add_lem [of t 1] by auto
  ultimately show ?thesis using encode_id_parts [OF assms(1), of l] by (simp add: decode_id_def Let_def)
qed

lemma encode_decode: "decode_id i = Inr (l, t) \<Longrightarrow> encode_id l t = i"
proof -
  assume "decode_id i = Inr (l, t)"
  then have l: "l = drop_bit 16 i" and t: "t + 1 = take_bit 16 i" by (auto simp: decode_id_def Let_def and_ffff split: if_splits)
  show ?thesis unfolding encode_id_def l t by (rule bit_eqI) (auto simp: bit_simps)
qed

text \<open>The limit of the encoding: torrent ids from 65535 on do not fit, and their numbers are those of other torrents' nodes.\<close>

theorem upnp_ids_collide:
  "unat t < 0xffff \<Longrightarrow> encode_id 0 (t + 0x10000) = encode_id 1 t"
proof -
  assume "unat t < 0xffff"
  then have t: "unat (t + 1) < 2 ^ 16" using unat_add_lem [of t 1] by simp
  have a: "t + 0x10000 + 1 = (t + 1) + push_bit 16 1" by (simp add: push_bit_eq_mult)
  have "bit (t + 1) n \<Longrightarrow> n < 16" for n using low_bits(1) [OF t] by (metis bit_take_bit_iff)
  then have "(t + 1) AND push_bit 16 1 = 0" by (intro bit_eqI) (auto simp: bit_simps simp del: push_bit_of_1)
  then have "(t + 1) + push_bit 16 1 = (t + 1) OR push_bit 16 1" by (simp add: disjunctive_add_eq_or)
  then show ?thesis unfolding encode_id_def a by (simp add: or.commute)
qed

subsection \<open>The tree: properties\<close>

text \<open>The titles on the way from the root to a node, without the root's own.\<close>

function node_path :: "tree_node list \<Rightarrow> nat \<Rightarrow> string list" where
  "node_path nodes i =
     (case tn_parent_id (nodes ! i) of Some p \<Rightarrow> if p < i then node_path nodes p @ [tn_title (nodes ! i)] else [] | None \<Rightarrow> [])"
  by pat_completeness auto
termination by (relation "measure snd") auto

declare node_path.simps [simp del]

text \<open>The files of the tree with the paths of their nodes, in the order of the nodes.\<close>

definition tree_files :: "tree_node list \<Rightarrow> (nat \<times> string list) list" where
  "tree_files nodes =
     List.map_filter (\<lambda>i. map_option (\<lambda>fid. (fid, node_path nodes i)) (tn_file_id (nodes ! i))) [0..<length nodes]"

text \<open>Parents and children agree, and parents come before their children.\<close>

definition links_ok :: "tree_node list \<Rightarrow> bool" where
  "links_ok nodes \<longleftrightarrow> nodes \<noteq> [] \<and> tn_parent_id (nodes ! 0) = None
     \<and> (\<forall>i < length nodes. 0 < i \<longrightarrow> (\<exists>p < i. tn_parent_id (nodes ! i) = Some p \<and> tn_file_id (nodes ! p) = None))
     \<and> (\<forall>p < length nodes. tn_children (nodes ! p) = filter (\<lambda>i. tn_parent_id (nodes ! i) = Some p) [0..<length nodes])"

text \<open>The cache knows exactly the folders below the root.\<close>

definition cache_ok :: "tree_node list \<Rightarrow> name_cache \<Rightarrow> bool" where
  "cache_ok nodes cache \<longleftrightarrow> (\<forall>p c q. cache (p, c) = Some q \<longleftrightarrow>
     q < length nodes \<and> tn_file_id (nodes ! q) = None \<and> tn_parent_id (nodes ! q) = Some p \<and> tn_title (nodes ! q) = c)"

lemma push_node_nth:
  assumes "push_node p c fid nodes = Inr nodes1" and "p < length nodes"
  shows "length nodes1 = Suc (length nodes)"
    and "i < length nodes \<Longrightarrow> nodes1 ! i = (if i = p then (nodes ! i)\<lparr>tn_children := tn_children (nodes ! i) @ [length nodes]\<rparr> else nodes ! i)"
    and "nodes1 ! length nodes = \<lparr>tn_title = c, tn_parent_id = Some p, tn_children = [], tn_file_id = fid\<rparr>"
  using assms by (auto simp: push_node_def Let_def nth_append nth_list_update)

lemma push_node_fields:
  assumes "push_node p c fid nodes = Inr nodes1" and "p < length nodes" and "i < length nodes"
  shows "tn_parent_id (nodes1 ! i) = tn_parent_id (nodes ! i)" "tn_title (nodes1 ! i) = tn_title (nodes ! i)"
    "tn_file_id (nodes1 ! i) = tn_file_id (nodes ! i)"
  using push_node_nth(2) [OF assms] by auto

lemma push_node_path:
  assumes "push_node p c fid nodes = Inr nodes1" and "p < length nodes"
  shows "i < length nodes \<Longrightarrow> node_path nodes1 i = node_path nodes i"
    and "node_path nodes1 (length nodes) = node_path nodes p @ [c]"
proof -
  show old: "i < length nodes \<Longrightarrow> node_path nodes1 i = node_path nodes i" for i
  proof (induction i rule: less_induct)
    case (less i)
    note f = push_node_fields [OF assms less.prems]
    show ?case
      using less by (subst (1 2) node_path.simps) (auto simp: f split: option.split)
  qed
  show "node_path nodes1 (length nodes) = node_path nodes p @ [c]"
    using assms(2) old by (subst node_path.simps) (simp add: push_node_nth(3) [OF assms])
qed

lemma push_node_files:
  assumes "push_node p c fid nodes = Inr nodes1" and "p < length nodes"
  shows "tree_files nodes1 = tree_files nodes @ (case fid of None \<Rightarrow> [] | Some f \<Rightarrow> [(f, node_path nodes p @ [c])])"
proof -
  have "List.map_filter (\<lambda>i. map_option (\<lambda>fid. (fid, node_path nodes1 i)) (tn_file_id (nodes1 ! i))) [0..<length nodes] = tree_files nodes"
    unfolding tree_files_def List.map_filter_def
    by (intro map_cong filter_cong)
      (auto simp: push_node_fields [OF assms] push_node_path(1) [OF assms])
  then show ?thesis
    by (auto simp: tree_files_def push_node_nth [OF assms] push_node_path(2) [OF assms] List.map_filter_def split: option.split)
qed

lemma push_node_links:
  assumes "push_node p c fid nodes = Inr nodes1" and "p < length nodes" and "links_ok nodes" and "tn_file_id (nodes ! p) = None"
  shows "links_ok nodes1"
  unfolding links_ok_def
proof (intro conjI allI impI)
  note len = push_node_nth(1) [OF assms(1,2)] and f = push_node_fields [OF assms(1,2)] and new = push_node_nth(3) [OF assms(1,2)]
  show "nodes1 \<noteq> []" using len by auto
  show "tn_parent_id (nodes1 ! 0) = None" using assms(2,3) f [of 0] by (auto simp: links_ok_def)
  show "\<exists>q < i. tn_parent_id (nodes1 ! i) = Some q \<and> tn_file_id (nodes1 ! q) = None" if "i < length nodes1" "0 < i" for i
  proof (cases "i = length nodes")
    case True
    then show ?thesis using assms(2,4) f(3) [of p] new by auto
  next
    case False
    then have i: "i < length nodes" using that len by simp
    then obtain q where "q < i" "tn_parent_id (nodes ! i) = Some q" "tn_file_id (nodes ! q) = None"
      using assms(3) \<open>0 < i\<close> by (auto simp: links_ok_def)
    then show ?thesis using f [of q] f [OF i] i by auto
  qed
  show "tn_children (nodes1 ! q) = filter (\<lambda>i. tn_parent_id (nodes1 ! i) = Some q) [0..<length nodes1]" if "q < length nodes1" for q
  proof -
    have old: "filter (\<lambda>i. tn_parent_id (nodes1 ! i) = Some q) [0..<length nodes] = filter (\<lambda>i. tn_parent_id (nodes ! i) = Some q) [0..<length nodes]"
      by (rule filter_cong) (auto simp: f)
    have none: "filter (\<lambda>i. tn_parent_id (nodes ! i) = Some (length nodes)) [0..<length nodes] = []"
    proof (rule filter_False, rule ballI, rule notI)
      fix i assume i: "i \<in> set [0..<length nodes]" and q: "tn_parent_id (nodes ! i) = Some (length nodes)"
      then obtain r where "r < i" "tn_parent_id (nodes ! i) = Some r" using assms(3) by (cases "i = 0") (auto simp: links_ok_def)
      then show False using i q by auto
    qed
    show ?thesis
      using that push_node_nth(2) [OF assms(1,2), of q] assms(2,3) old none
      by (cases "q = length nodes") (auto simp: len new links_ok_def)
  qed
qed

lemma push_node_cache:
  assumes "push_node p c fid nodes = Inr nodes1" and "p < length nodes" and "cache_ok nodes cache"
  shows "fid \<noteq> None \<Longrightarrow> cache_ok nodes1 cache"
    and "fid = None \<Longrightarrow> cache (p, c) = None \<Longrightarrow> cache_ok nodes1 (cache((p, c) \<mapsto> length nodes))"
proof -
  note len = push_node_nth(1) [OF assms(1,2)] and f = push_node_fields [OF assms(1,2)] and new = push_node_nth(3) [OF assms(1,2)]
  have old: "cache (r, d) = Some q \<longleftrightarrow> q < length nodes \<and> tn_file_id (nodes1 ! q) = None \<and> tn_parent_id (nodes1 ! q) = Some r \<and> tn_title (nodes1 ! q) = d"
    for r d q using assms(3) f [of q] by (auto simp: cache_ok_def)
  show "fid \<noteq> None \<Longrightarrow> cache_ok nodes1 cache"
    unfolding cache_ok_def old len using new by (auto simp: less_Suc_eq)
  show "cache_ok nodes1 (cache((p, c) \<mapsto> length nodes))" if "fid = None" "cache (p, c) = None"
  proof -
    have "\<not> (q < length nodes \<and> tn_file_id (nodes1 ! q) = None \<and> tn_parent_id (nodes1 ! q) = Some p \<and> tn_title (nodes1 ! q) = c)" for q
      using old [of p c q] that(2) by simp
    then have free: "q = length nodes" if "q < Suc (length nodes)" "tn_file_id (nodes1 ! q) = None" "tn_parent_id (nodes1 ! q) = Some p" "tn_title (nodes1 ! q) = c" for q
      using that by (metis less_Suc_eq)
    show ?thesis unfolding cache_ok_def len
    proof (intro allI)
      fix r d q
      show "(cache((p, c) \<mapsto> length nodes)) (r, d) = Some q \<longleftrightarrow>
          q < Suc (length nodes) \<and> tn_file_id (nodes1 ! q) = None \<and> tn_parent_id (nodes1 ! q) = Some r \<and> tn_title (nodes1 ! q) = d"
      proof (cases "(r, d) = (p, c)")
        case True
        then show ?thesis using free [of q] new that(1) by auto
      next
        case False
        then show ?thesis using old [of r d q] new that(1) by (auto simp: less_Suc_eq)
      qed
    qed
  qed
qed

lemma add_file_ok:
  assumes "links_ok nodes" "cache_ok nodes cache" "p < length nodes" "tn_file_id (nodes ! p) = None"
  shows "\<exists>nodes1 cache1. add_file fid cs p (nodes, cache) = Inr (nodes1, cache1) \<and> links_ok nodes1 \<and> cache_ok nodes1 cache1
    \<and> tn_file_id (nodes1 ! 0) = tn_file_id (nodes ! 0) \<and> tn_title (nodes1 ! 0) = tn_title (nodes ! 0)
    \<and> length nodes1 \<le> length nodes + length cs
    \<and> tree_files nodes1 = tree_files nodes @ (if cs = [] then [] else [(fid, node_path nodes p @ cs)])"
  using assms
proof (induction fid cs p "(nodes, cache)" arbitrary: nodes cache rule: add_file.induct)
  case (1 fid p nodes cache)
  then show ?case by auto
next
  case (2 fid c p nodes cache)
  obtain nodes1 where n: "push_node p c (Some fid) nodes = Inr nodes1" using "2.prems"(3) by (simp add: push_node_def Let_def)
  have "0 < length nodes" using "2.prems"(3) by linarith
  then show ?case
    using "2.prems" n push_node_links [OF n] push_node_cache(1) [OF n] push_node_files [OF n] push_node_fields [OF n, of 0] push_node_nth(1) [OF n] by auto
next
  case (3 fid c d cs p nodes cache)
  show ?case
  proof (cases "cache (p, c)")
    case (Some q)
    then have q: "q < length nodes" "tn_file_id (nodes ! q) = None" "tn_parent_id (nodes ! q) = Some p" "tn_title (nodes ! q) = c"
      using "3.prems"(2) by (auto simp: cache_ok_def)
    have "q \<noteq> 0" using q(3) "3.prems"(1) unfolding links_ok_def by (metis option.distinct(1))
    then have "p < q" using q(1,3) "3.prems"(1) by (auto simp: links_ok_def)
    then have "node_path nodes q = node_path nodes p @ [c]" using q(3,4) by (subst node_path.simps) simp
    then show ?thesis using "3.hyps"(2) [OF Some "3.prems"(1,2) q(1,2)] Some by auto
  next
    case None
    obtain nodes1 where n: "push_node p c None nodes = Inr nodes1" using "3.prems"(3) by (simp add: push_node_def Let_def)
    note len = push_node_nth(1) [OF n "3.prems"(3)]
    have "0 < length nodes" using "3.prems"(3) by linarith
    then have "tn_file_id (nodes1 ! 0) = tn_file_id (nodes ! 0)" "tn_title (nodes1 ! 0) = tn_title (nodes ! 0)"
      using push_node_fields [OF n "3.prems"(3), of 0] by auto
    moreover have "tn_file_id (nodes1 ! length nodes) = None" using push_node_nth(3) [OF n "3.prems"(3)] by simp
    ultimately show ?thesis
      using "3.hyps"(1) [OF None n push_node_links [OF n "3.prems"(3,1,4)] push_node_cache(2) [OF n "3.prems"(3,2) _ None]] len None n
        push_node_path(2) [OF n "3.prems"(3)] push_node_files [OF n "3.prems"(3)] by auto
  qed
qed

text \<open>The loop over all files.\<close>

lemma add_files_ok:
  assumes "links_ok nodes" "cache_ok nodes cache" "tn_file_id (nodes ! 0) = None"
  shows "\<exists>nodes1 cache1. res_fold (\<lambda>(fid, f). add_file fid f 0) fs (nodes, cache) = Inr (nodes1, cache1) \<and> links_ok nodes1 \<and> cache_ok nodes1 cache1
    \<and> tn_file_id (nodes1 ! 0) = None \<and> tn_title (nodes1 ! 0) = tn_title (nodes ! 0)
    \<and> length nodes1 \<le> length nodes + length (concat (map snd fs))
    \<and> tree_files nodes1 = tree_files nodes @ filter (\<lambda>(_, f). f \<noteq> []) fs"
  using assms
proof (induction fs arbitrary: nodes cache)
  case (Cons x fs)
  obtain fid f where x: "x = (fid, f)" by fastforce
  have root: "0 < length nodes" "node_path nodes 0 = []" using Cons.prems(1) by (auto simp: links_ok_def node_path.simps)
  obtain nodes1 cache1 where 1: "add_file fid f 0 (nodes, cache) = Inr (nodes1, cache1)" "links_ok nodes1" "cache_ok nodes1 cache1"
    "tn_file_id (nodes1 ! 0) = None" "tn_title (nodes1 ! 0) = tn_title (nodes ! 0)" "length nodes1 \<le> length nodes + length f"
    "tree_files nodes1 = tree_files nodes @ (if f = [] then [] else [(fid, f)])"
    using add_file_ok [OF Cons.prems(1,2) root(1) Cons.prems(3), of fid f] root(2) Cons.prems(3) by auto
  show ?case using Cons.IH [OF 1(2,3,4)] 1 x by auto
qed simp

lemma node_path_root: "links_ok nodes \<Longrightarrow> node_path nodes 0 = []"
  by (simp add: links_ok_def node_path.simps)

lemma folder_paths_distinct:
  assumes "links_ok nodes" "cache_ok nodes cache"
  shows "i < length nodes \<Longrightarrow> j < length nodes \<Longrightarrow> tn_file_id (nodes ! i) = None \<Longrightarrow> tn_file_id (nodes ! j) = None
    \<Longrightarrow> node_path nodes i = node_path nodes j \<Longrightarrow> i = j"
proof (induction "node_path nodes i" arbitrary: i j rule: rev_induct)
  case Nil
  have "k = 0" if "k < length nodes" "node_path nodes k = []" for k
  proof (rule ccontr)
    assume "k \<noteq> 0"
    then obtain p where "p < k" "tn_parent_id (nodes ! k) = Some p" using assms(1) \<open>k < length nodes\<close> by (auto simp: links_ok_def)
    then show False using \<open>node_path nodes k = []\<close> by (subst (asm) node_path.simps) simp
  qed
  then show ?case using Nil by metis
next
  case (snoc c cs)
  have up: "\<exists>p < k. tn_parent_id (nodes ! k) = Some p \<and> tn_file_id (nodes ! p) = None \<and> node_path nodes p = cs \<and> tn_title (nodes ! k) = c"
    if k: "k < length nodes" "node_path nodes k = cs @ [c]" for k
  proof -
    have "k \<noteq> 0" using k(2) node_path_root [OF assms(1)] by (metis snoc_eq_iff_butlast)
    then obtain p where "p < k" "tn_parent_id (nodes ! k) = Some p" "tn_file_id (nodes ! p) = None"
      using assms(1) k(1) by (auto simp: links_ok_def)
    then show ?thesis using k(2) by (subst (asm) node_path.simps) simp
  qed
  obtain p where p: "p < i" "tn_parent_id (nodes ! i) = Some p" "tn_file_id (nodes ! p) = None" "node_path nodes p = cs" "tn_title (nodes ! i) = c"
    using up [OF snoc.prems(1) snoc.hyps(2) [symmetric]] by blast
  obtain q where q: "q < j" "tn_parent_id (nodes ! j) = Some q" "tn_file_id (nodes ! q) = None" "node_path nodes q = cs" "tn_title (nodes ! j) = c"
    using up [OF snoc.prems(2)] snoc.hyps(2) snoc.prems(5) by auto
  have "p = q" using snoc.hyps(1) [of p q] p q snoc.prems(1,2) by simp
  then have "cache (p, c) = Some i" "cache (p, c) = Some j" using assms(2) p q snoc.prems by (auto simp: cache_ok_def)
  then show ?case by simp
qed

lemma tree_build_ok:
  assumes "\<not> is_single_file_at_root files"
  shows "\<exists>nodes. tree_build torrent_id name files = Inr nodes \<and> links_ok nodes \<and> length nodes \<le> 1 + length (concat files)
    \<and> tn_file_id (nodes ! 0) = None
    \<and> tree_files nodes = filter (\<lambda>(_, f). f \<noteq> []) (List.enumerate 0 files)
    \<and> (\<forall>i < length nodes. \<forall>j < length nodes. tn_file_id (nodes ! i) = None \<longrightarrow> tn_file_id (nodes ! j) = None
         \<longrightarrow> node_path nodes i = node_path nodes j \<longrightarrow> i = j)"
proof -
  let ?root = "[root_node (torrent_title ''torrent '' name torrent_id) None]"
  have "links_ok ?root" "cache_ok ?root Map.empty" "tn_file_id (?root ! 0) = None" "tree_files ?root = []"
    by (auto simp: links_ok_def cache_ok_def root_node_def tree_files_def List.map_filter_def)
  then obtain nodes1 cache1 where 1: "res_fold (\<lambda>(fid, f). add_file fid f 0) (List.enumerate 0 files) (?root, Map.empty) = Inr (nodes1, cache1)"
    "links_ok nodes1" "cache_ok nodes1 cache1" "tn_file_id (nodes1 ! 0) = None" "length nodes1 \<le> 1 + length (concat (map snd (List.enumerate 0 files)))"
    "tree_files nodes1 = filter (\<lambda>(_, f). f \<noteq> []) (List.enumerate 0 files)"
    using add_files_ok [of ?root Map.empty "List.enumerate 0 files"] by auto
  then have "tree_build torrent_id name files = Inr nodes1" using assms by (simp add: tree_build_def)
  then show ?thesis using 1 folder_paths_distinct [OF 1(2,3)] by auto
qed

subsection \<open>Browsing: properties\<close>

definition object_id :: "item_or_container \<Rightarrow> u64" where
  "object_id x = (case x of Item i _ _ _ _ _ \<Rightarrow> i | Container i _ _ _ \<Rightarrow> i)"

definition object_parent :: "item_or_container \<Rightarrow> u64 option" where
  "object_parent x = (case x of Item _ p _ _ _ _ \<Rightarrow> Some p | Container _ p _ _ \<Rightarrow> p)"

definition object_title :: "item_or_container \<Rightarrow> string" where
  "object_title x = (case x of Item _ _ t _ _ _ \<Rightarrow> t | Container _ _ t _ \<Rightarrow> t)"

text \<open>What a client reaches by asking for the children of what it got, with the titles it followed.\<close>

inductive upnp_leads :: "(u64 \<Rightarrow> item_or_container list res) \<Rightarrow> u64 \<Rightarrow> string list \<Rightarrow> item_or_container \<Rightarrow> bool" for browse start where
  ul_child: "browse start = Inr xs \<Longrightarrow> x \<in> set xs \<Longrightarrow> upnp_leads browse start [object_title x] x"
| ul_step: "upnp_leads browse start cs y \<Longrightarrow> browse (object_id y) = Inr xs \<Longrightarrow> x \<in> set xs \<Longrightarrow> upnp_leads browse start (cs @ [object_title x]) x"

lemma as_item_fields:
  assumes "as_item_or_container E n i host torrent_id meta = Inr x"
  shows "object_id x = encode_id (of_nat i) (of_nat torrent_id)" "object_title x = tn_title n"
    "object_parent x = Some (case tn_parent_id n of None \<Rightarrow> 0 | Some p \<Rightarrow> encode_id (of_nat p) (of_nat torrent_id))"
  using assms by (auto simp: as_item_or_container_def Let_def object_id_def object_title_def object_parent_def res_bind_eq_Inr split: option.splits)

lemma res_mapM_iff: "res_mapM f xs = Inr ys \<longleftrightarrow> list_all2 (\<lambda>x y. f x = Inr y) xs ys"
  by (induction xs arbitrary: ys) (auto simp: res_bind_eq_Inr list_all2_Cons1)

lemma res_mapM_mem: "res_mapM f xs = Inr ys \<Longrightarrow> y \<in> set ys \<Longrightarrow> \<exists>x \<in> set xs. f x = Inr y"
  by (induction xs arbitrary: ys) (auto simp: res_bind_eq_Inr)

lemma res_mapM_total:
  "(\<And>x. x \<in> set xs \<Longrightarrow> \<exists>y. f x = Inr y) \<Longrightarrow> \<exists>ys. res_mapM f xs = Inr ys \<and> (\<forall>x \<in> set xs. \<exists>y \<in> set ys. f x = Inr y)"
proof (induction xs)
  case (Cons x xs)
  then obtain y ys where "f x = Inr y" "res_mapM f xs = Inr ys" "\<forall>x \<in> set xs. \<exists>y \<in> set ys. f x = Inr y" by (metis list.set_intros)
  then show ?case by auto
qed simp

lemma of_nat_id:
  "n < 2 ^ 48 \<Longrightarrow> unat (of_nat n :: u64) = n"
  by (simp add: unat_of_nat)

text \<open>What is below a torrent's object, in terms of its tree.\<close>

lemma build_impl_node:
  assumes t: "get tid = Some t" "loaded_meta t = Some meta" "th_id t = tid" "tid + 1 < 2 ^ 16"
    and nodes: "tree_build tid (tm_name meta) (ue_components E meta) = Inr nodes" and i: "i < length nodes" "length nodes \<le> 2 ^ 48"
  shows "build_impl E all get (encode_id (of_nat i) (of_nat tid)) host metadata =
    (if tn_file_id (nodes ! i) \<noteq> None \<or> metadata
     then res_bind (as_item_or_container E (nodes ! i) i host tid meta) (\<lambda>x. Inr [x])
     else res_mapM (\<lambda>(j, c). as_item_or_container E c j host tid meta)
       (List.map_filter (\<lambda>j. map_option (Pair j) (vec_get nodes j)) (tn_children (nodes ! i))))"
proof -
  have tid: "unat (of_nat tid :: u64) = tid" using t(4) by (simp add: unat_of_nat)
  have "decode_id (encode_id (of_nat i) (of_nat tid)) = Inr (of_nat i, of_nat tid)"
    using decode_encode [of "of_nat tid" "of_nat i"] tid of_nat_id [of i] i t(4) by simp
  moreover from this have "encode_id (of_nat i) (of_nat tid) \<noteq> 0" by (auto simp: decode_id_def)
  ultimately show ?thesis
    using t nodes i tid of_nat_id [of i] by (simp add: build_impl_def vec_get_def)
qed

lemma tree_items:
  assumes "tree_build tid name files = Inr nodes" and "i < length nodes" and "length files \<le> length (tm_file_infos meta)"
  shows "\<exists>x. as_item_or_container E (nodes ! i) i host tid meta = Inr x"
proof (cases "tn_file_id (nodes ! i)")
  case None
  then show ?thesis by (simp add: as_item_or_container_def Let_def)
next
  case (Some fid)
  have "fid < length files"
  proof (cases "is_single_file_at_root files")
    case True
    then show ?thesis using assms(1,2) Some by (auto simp: tree_build_def root_node_def split: list.splits if_splits)
  next
    case False
    then have "tree_files nodes = filter (\<lambda>(_, f). f \<noteq> []) (List.enumerate 0 files)" using tree_build_ok [OF False, of tid name] assms(1) by auto
    moreover have "(fid, node_path nodes i) \<in> set (tree_files nodes)"
      using Some assms(2) by (force simp: tree_files_def set_map_filter_iff)
    ultimately show ?thesis by (auto simp: in_set_enumerate_eq)
  qed
  then show ?thesis using Some assms(3) by (simp add: as_item_or_container_def Let_def vec_get_def)
qed

lemma session_torrent_id:
  assumes "session_ok X strict S" and "session_torrent S i = Some t"
  shows "th_id t = i"
  using session_okD(3) [OF assms(1)] assms(2) by (auto simp: session_torrent_def session_get_def entry_ok_def)

lemma children_iff:
  assumes "links_ok nodes" and "p < length nodes"
  shows "set (List.map_filter (\<lambda>j. map_option (Pair j) (vec_get nodes j)) (tn_children (nodes ! p)))
    = {(j, nodes ! j) | j. j < length nodes \<and> tn_parent_id (nodes ! j) = Some p}"
  using assms by (auto simp: links_ok_def set_map_filter_iff vec_get_def)

lemma tree_build_links:
  assumes "tree_build tid name files = Inr nodes"
  shows "links_ok nodes" "length nodes \<le> 1 + length (concat files)"
proof -
  show "links_ok nodes"
    using assms tree_build_ok [of files tid name]
    by (cases "is_single_file_at_root files") (auto simp: tree_build_def links_ok_def root_node_def split: list.splits if_splits)
  show "length nodes \<le> 1 + length (concat files)"
    using assms tree_build_ok [of files tid name]
    by (cases "is_single_file_at_root files") (auto simp: tree_build_def split: list.splits if_splits)
qed

text \<open>The tree of a torrent with several files: it is built without a panic, its links are consistent, its files are exactly the files
  of the torrent that have a name, in their order and each under the path of its components, and no two folders have the same path.\<close>

theorem upnp_tree_correct:
  assumes "\<not> is_single_file_at_root files"
  shows "\<exists>nodes. tree_build torrent_id name files = Inr nodes \<and> links_ok nodes \<and> length nodes \<le> 1 + length (concat files)
    \<and> tn_file_id (nodes ! 0) = None
    \<and> tree_files nodes = filter (\<lambda>(_, f). f \<noteq> []) (List.enumerate 0 files)
    \<and> (\<forall>i < length nodes. \<forall>j < length nodes. tn_file_id (nodes ! i) = None \<longrightarrow> tn_file_id (nodes ! j) = None
         \<longrightarrow> node_path nodes i = node_path nodes j \<longrightarrow> i = j)"
  using assms by (rule tree_build_ok)

text \<open>What a media player sees of a torrent is consistent in every reachable state of a session: each object listed below an
  object of a torrent has that object as its parent (or is that object itself, if it is a file), and asking for its
  metadata returns the same object again.\<close>

theorem upnp_browse_consistent:
  assumes reach: "reach session_init (session_step X C strict) S"
    and sizes: "\<And>i t. session_torrent S i = Some t \<Longrightarrow> length (concat (ue_components E (th_metadata t))) < 2 ^ 48"
    and browse: "browse_direct_children E order S oid host = Inr xs" "oid \<noteq> 0" "x \<in> set xs"
  shows "browse_metadata E order S (object_id x) host = Inr [x] \<and> (object_parent x = Some oid \<or> object_id x = oid \<and> xs = [x])"
proof -
  note ok = session_sys.reach_inv [OF reach]
  obtain nid tid where d: "decode_id oid = Inr (nid, tid)" 
    using browse by (cases "decode_id oid") (auto simp: browse_direct_children_def build_impl_def)
  obtain t meta where t: "session_torrent S (unat tid) = Some t" "loaded_meta t = Some meta"
    using browse d by (cases "Option.bind (session_torrent S (unat tid)) (\<lambda>t. map_option (Pair t) (loaded_meta t))")
      (auto simp: browse_direct_children_def build_impl_def bind_eq_Some_conv)
  have id: "th_id t = unat tid" using session_torrent_id [OF ok t(1)] .
  obtain nodes where n: "tree_build (unat tid) (tm_name meta) (ue_components E meta) = Inr nodes" "unat nid < length nodes"
    using browse d t id by (auto simp: browse_direct_children_def build_impl_def res_bind_eq_Inr vec_get_def split: option.splits if_splits)
  have "tid + 1 = oid AND 0xffff" using d by (auto simp: decode_id_def Let_def split: if_splits)
  moreover have "unat (oid AND 0xffff) < 2 ^ 16" unfolding and_ffff unsigned_take_bit_eq by (rule take_bit_nat_less_exp)
  moreover have "tid + 1 \<noteq> 0" using d by (auto simp: decode_id_def Let_def split: if_splits)
  ultimately have small: "unat tid + 1 < 2 ^ 16" using unatSuc [of tid] by (simp add: add.commute)
  have len: "length nodes \<le> 2 ^ 48"
    using tree_build_links(2) [OF n(1)] sizes [OF t(1)] t(2) by (auto simp: loaded_meta_def split: if_splits)
  note node = build_impl_node [where get = "session_torrent S", OF t id small n(1) _ len, of _ "map snd (session_torrents order S)" host]
  have oid: "encode_id (of_nat (unat nid)) (of_nat (unat tid)) = oid" using encode_decode [OF d] by simp
  show ?thesis
  proof (cases "tn_file_id (nodes ! unat nid)")
    case (Some fid)
    then have "res_bind (as_item_or_container E (nodes ! unat nid) (unat nid) host (unat tid) meta) (\<lambda>x. Inr [x]) = Inr xs"
      using browse(1) node [OF n(2), of False] oid by (simp add: browse_direct_children_def)
    then have x: "as_item_or_container E (nodes ! unat nid) (unat nid) host (unat tid) meta = Inr x" "xs = [x]"
      using browse(3) by (auto simp: res_bind_eq_Inr)
    then show ?thesis using node [OF n(2), of True] oid as_item_fields(1) [OF x(1)] by (simp add: browse_metadata_def)
  next
    case None
    then have "res_mapM (\<lambda>(j, c). as_item_or_container E c j host (unat tid) meta)
       (List.map_filter (\<lambda>j. map_option (Pair j) (vec_get nodes j)) (tn_children (nodes ! unat nid))) = Inr xs"
      using browse node [OF n(2), of False] oid by (simp add: browse_direct_children_def)
    from res_mapM_mem [OF this browse(3)] obtain j where j: "j < length nodes" "tn_parent_id (nodes ! j) = Some (unat nid)"
        "as_item_or_container E (nodes ! j) j host (unat tid) meta = Inr x"
      using children_iff [OF tree_build_links(1) [OF n(1)] n(2)] by auto
    then show ?thesis using node [OF j(1), of True] oid as_item_fields [OF j(3)] by (simp add: browse_metadata_def)
  qed
qed


subsection \<open>Examples\<close>

definition ex_upnp_meta :: torrent_meta where
  "ex_upnp_meta = (ex_tmeta 5 False)\<lparr>tm_file_infos := [
     \<lparr>relative_filename = ''d/x'', offset_in_torrent = 0, piece_range = (0, 1), padding = False, fi_len = 7\<rparr>,
     \<lparr>relative_filename = ''d/y'', offset_in_torrent = 7, piece_range = (0, 1), padding = False, fi_len = 9\<rparr>]\<rparr>"

definition ex_upnp_env :: upnp_env where
  "ex_upnp_env = \<lparr>ue_components = (\<lambda>_. [[''d'', ''x''], [''d'', ''y'']]), ue_urlencode = (\<lambda>s. s), ue_mime = (\<lambda>_. None), ue_file_name = Some\<rparr>"

definition ex_upnp_session :: "(byte list fs_storage, unit, unit) session" where
  "ex_upnp_session = snd (insert_torrent ex_params ex_config ex_surroundings True 0 ((ex_prepared 5)\<lparr>pr_meta := ex_upnp_meta\<rparr>) add_options_default ex_new_session)"

lemma ex_upnp_session_reach: "reach session_init (session_step ex_params ex_config strict) ex_upnp_session"
  unfolding ex_upnp_session_def by (rule reach_step [OF ex_new_session_reach ss_insert [OF surjective_pairing]])

lemma ex_upnp_session_values:
  "session_torrent ex_upnp_session 0 = Some (se_heap ex_upnp_session 0)" "loaded_meta (se_heap ex_upnp_session 0) = Some ex_upnp_meta"
  "th_id (se_heap ex_upnp_session 0) = 0"
  by (simp_all add: ex_upnp_session_def insert_torrent_def session_new_def session_db_default_def db_existing_def db_get_by_info_hash_def
      ex_prepared_def ex_surroundings_def new_torrent_def session_get_def session_torrent_def db_add_torrent_def handle_hash_def managed_new_def loaded_meta_def Let_def)

theorem upnp_ids_collide_witness: "encode_id 0 0x10000 = encode_id 1 0"
  using upnp_ids_collide [of 0] by simp

theorem upnp_tree_correct_witness:
  "\<exists>nodes. tree_build 3 None [[''d'', ''x''], [''d'', ''y'']] = Inr nodes \<and> tree_files nodes = [(0, [''d'', ''x'']), (1, [''d'', ''y''])]"
  using upnp_tree_correct [of "[[''d'', ''x''], [''d'', ''y'']]" 3 None] by (auto simp: is_single_file_at_root_def)

theorem upnp_browse_consistent_witness:
  "\<exists>x. browse_direct_children ex_upnp_env [0] ex_upnp_session (encode_id 0 0) ''h'' = Inr [x]
     \<and> browse_metadata ex_upnp_env [0] ex_upnp_session (object_id x) ''h'' = Inr [x] \<and> object_parent x = Some (encode_id 0 0)"
proof -
  have "encode_id 0 0 = 1" by (simp add: encode_id_def)
  have d: "decode_id 1 = Inr (0, 0)" by (simp add: decode_id_def)
  obtain x where x: "browse_direct_children ex_upnp_env [0] ex_upnp_session 1 ''h'' = Inr [x]" "object_id x \<noteq> 1"
    by (simp add: browse_direct_children_def build_impl_def d ex_upnp_session_values ex_upnp_env_def tree_build_def is_single_file_at_root_def
        push_node_def root_node_def vec_get_def List.map_filter_def as_item_or_container_def Let_def object_id_def encode_id_def)
  have "browse_metadata ex_upnp_env [0] ex_upnp_session (object_id x) ''h'' = Inr [x] \<and> (object_parent x = Some 1 \<or> object_id x = 1 \<and> [x] = [x])"
    by (rule upnp_browse_consistent [OF ex_upnp_session_reach [of True] _ x(1)]) (simp_all add: ex_upnp_env_def)
  then show ?thesis using x \<open>encode_id 0 0 = 1\<close> by auto
qed


end
