(* ===== verification/Http_Handlers.thy ===== *)
theory Http_Handlers
  imports Api Limits "HOL-Library.List_Lexorder" "HOL-Library.Product_Lexorder"
begin

text \<open>
  More handlers of the HTTP API: from \<open>src/src/http_api/handlers/torrents.rs\<close> the picture of the pieces, peers that are added, statistics of
  peers, the torrent file and the creation of torrents; \<open>other.rs\<close> (resolving a magnet link), \<open>playlist.rs\<close> and
  \<open>configure.rs\<close> (rate limits, folders and browsing directories). Floating point numbers and their text are left out.
\<close>

subsection \<open>The picture of the pieces\<close>

text \<open>
  The loop of \<open>generate_svg\<close>: runs of equal bits with their first index and their length. A run is drawn from \<open>100 / len\<close> percent times
  the index, as wide as its length times that, so a run that ends at index \<open>len\<close> ends at the right border.
\<close>

function bit_runs :: "nat \<Rightarrow> bool list \<Rightarrow> (nat \<times> nat \<times> bool) list" where
  "bit_runs i [] = []"
| "bit_runs i (b # bs) =
     (let n = 1 + length (takeWhile (\<lambda>c. c = b) bs) in (i, n, b) # bit_runs (i + n) (dropWhile (\<lambda>c. c = b) bs))"
  by pat_completeness auto
termination by (relation "measure (length \<circ> snd)") (auto simp: le_imp_less_Suc length_dropWhile_le)

definition generate_svg :: "bf \<Rightarrow> nat \<Rightarrow> (nat \<times> nat \<times> bool) list" where
  "generate_svg bits len = (if len = 0 then [] else bit_runs 0 bits)"

datatype haves_response = HavesBinary nat bf | HavesSvg "(nat \<times> nat \<times> bool) list"

definition h_torrent_haves :: "string option \<Rightarrow> torrent_id_or_hash \<Rightarrow> ('s, 'f, 'p) session \<Rightarrow> haves_response api" where
  "h_torrent_haves accept k S =
     api_bind (api_dump_haves k S) (\<lambda>(bits, len).
       Inr (if (case accept of None \<Rightarrow> False | Some a \<Rightarrow> contains_str ''application/octet-stream'' a)
            then HavesBinary len bits else HavesSvg (generate_svg bits len)))"

subsection \<open>Peers\<close>

datatype peer_stats_filter = FilterAll | FilterLive

definition filter_matches :: "peer_stats_filter \<Rightarrow> peer_state \<Rightarrow> bool" where
  "filter_matches f st = (case f of FilterAll \<Rightarrow> True | FilterLive \<Rightarrow> (case st of Live _ \<Rightarrow> True | _ \<Rightarrow> False))"

definition state_name :: "peer_state \<Rightarrow> string" where
  "state_name st = (case st of Queued \<Rightarrow> ''queued'' | Connecting _ \<Rightarrow> ''connecting'' | Live _ \<Rightarrow> ''live'' | Dead \<Rightarrow> ''dead'' | NotNeeded \<Rightarrow> ''not needed'')"

record peer_stats =
  pq_counters :: peer_counters
  pq_state :: string
  pq_conn_kind :: "connection_kind option"

definition peer_stats_of :: "(nat \<Rightarrow> peer_counters) \<Rightarrow> peer \<Rightarrow> peer_stats" where
  "peer_stats_of cs p = \<lparr>pq_counters = cs (counters p), pq_state = state_name (pstate p),
     pq_conn_kind = (case pstate p of Live l \<Rightarrow> Some (conn_kind l) | _ \<Rightarrow> None)\<rparr>"

definition per_peer_stats_snapshot :: "peer_stats_filter \<Rightarrow> 's live \<Rightarrow> (peer_handle \<times> peer_stats) list" where
  "per_peer_stats_snapshot f l =
     map (\<lambda>(h, p). (h, peer_stats_of (ctrs (lv_peers l)) p)) (filter (\<lambda>(_, p). filter_matches f (pstate p)) (states (lv_peers l)))"

definition api_peer_stats :: "torrent_id_or_hash \<Rightarrow> peer_stats_filter \<Rightarrow> ('s, 'f, 'p) session \<Rightarrow> (peer_handle \<times> peer_stats) list api" where
  "api_peer_stats k f S =
     api_bind (mgr_handle k S) (\<lambda>a.
     api_bind (with_status_error 412 (OtherError TorrentIsNotLive) (managed_live (th_managed (se_heap S a)))) (\<lambda>l.
       Inr (per_peer_stats_snapshot f l)))"

definition prometheus_threshold :: u64 where
  "prometheus_threshold = 1024 * 1024"

text \<open>The lines of the metric: the address and the bytes beyond the threshold, of the peers that reached it.\<close>

definition h_peer_stats_prometheus :: "torrent_id_or_hash \<Rightarrow> ('s, 'f, 'p) session \<Rightarrow> (peer_handle \<times> u64) list api" where
  "h_peer_stats_prometheus k S =
     api_bind (mgr_handle k S) (\<lambda>a.
     api_bind (with_status_error 412 (TextError ''torrent is not live'') (managed_live (th_managed (se_heap S a)))) (\<lambda>l.
       Inr (List.map_filter (\<lambda>(h, s). if prometheus_threshold \<le> fetched_bytes (pq_counters s)
              then Some (h, fetched_bytes (pq_counters s) - prometheus_threshold) else None) (per_peer_stats_snapshot FilterLive l))))"

text \<open>The loop of \<open>h_add_peers\<close>; \<open>cid\<close> numbers what is made for a new peer. The first error ends it.\<close>

fun add_peers_loop :: "nat \<Rightarrow> nat \<Rightarrow> socket_addr list \<Rightarrow> nat \<Rightarrow> ('s, nat) lm" where
  "add_peers_loop cid now [] n l = (Inr n, l)"
| "add_peers_loop cid now (a # as) n l =
     (case add_peer_if_not_seen a cid now l of
        (Inl e, l1) \<Rightarrow> (Inl e, l1)
      | (Inr b, l1) \<Rightarrow> add_peers_loop (cid + 1) now as (if b then n + 1 else n) l1)"

definition h_add_peers ::
  "(byte list \<Rightarrow> string option) \<Rightarrow> (string \<Rightarrow> socket_addr option) \<Rightarrow> nat \<Rightarrow> nat \<Rightarrow> torrent_id_or_hash \<Rightarrow> byte list \<Rightarrow> ('s, 'f, 'p, nat) api_sm" where
  "h_add_peers utf8 addr_from_str cid now k body S =
     (case mgr_handle k S of
        Inl e \<Rightarrow> (Inl e, S)
      | Inr a \<Rightarrow>
        (case mt_state (th_managed (se_heap S a)) of
           MLive t l \<Rightarrow>
             (case utf8 body of
                None \<Rightarrow> (Inl (status_text 400 ''invalid utf-8''), S)
              | Some s \<Rightarrow>
                (case add_peers_loop cid now (List.map_filter addr_from_str (split_on (CHR 0x0A) s)) 0 l of
                   (r, l') \<Rightarrow> (map_err from_error r, upd_managed a ((th_managed (se_heap S a))\<lparr>mt_state := MLive t l'\<rparr>) S)))
         | _ \<Rightarrow> (Inl (from_error TorrentIsNotLive), S)))"

subsection \<open>Torrent files\<close>

definition h_metadata :: "api_env \<Rightarrow> torrent_id_or_hash \<Rightarrow> ('s, 'f, 'p) session \<Rightarrow> (string \<times> byte list) api" where
  "h_metadata V k S =
     api_bind (mgr_handle k S) (\<lambda>a. case loaded_meta (se_heap S a) of
       None \<Rightarrow> Inl (from_anyhow (Bail ''torrent is not resolved''))
     | Some m \<Rightarrow> Inr ((case tm_name m of Some n \<Rightarrow> n | None \<Rightarrow> ''torrent_'' @ show_id_or_hash V k) @ ''.torrent'', tm_torrent_bytes m))"

text \<open>
  \<open>create_and_serve_torrent\<close>: \<open>created\<close> is what \<open>create_torrent\<close> makes of the path, a torrent file and the folder it is in. The
  guard and the decoding of the path are those of \<open>h_create_torrent\<close>.
\<close>

definition create_and_serve_torrent ::
  "('s, 'f) session_params \<Rightarrow> session_config \<Rightarrow> 'p persistence_ops \<Rightarrow> ('s, 'f) surroundings \<Rightarrow> (string \<Rightarrow> bool) \<Rightarrow> (string \<Rightarrow> (byte list \<times> string) res)
   \<Rightarrow> string \<Rightarrow> ('s, 'f, 'p, nat) api_sm" where
  "create_and_serve_torrent X C P u exists created path S =
     (if \<not> exists path then (Inl (status_text 400 ''path doesn't exist''), S)
      else case with_status 400 (created path) of
        Inl e \<Rightarrow> (Inl e, S)
      | Inr (bytes, folder) \<Rightarrow>
        (case session_add_torrent X C P u True (\<lambda>_. Inl Panic) None (AddTorrentFileBytes bytes)
            (Some (add_options_default\<lparr>ao_paused := False, ao_overwrite := True, ao_output_folder := Some folder\<rparr>)) S of
           (Inl e, S1) \<Rightarrow> (Inl (from_anyhow e), S1)
         | (Inr r, S1) \<Rightarrow> (case into_handle r of None \<Rightarrow> (Inl (from_anyhow (Bail ''error adding to session'')), S1) | Some a \<Rightarrow> (Inr a, S1))))"

definition h_create_torrent ::
  "('s, 'f) session_params \<Rightarrow> session_config \<Rightarrow> 'p persistence_ops \<Rightarrow> ('s, 'f) surroundings \<Rightarrow> (string \<Rightarrow> bool) \<Rightarrow> (string \<Rightarrow> (byte list \<times> string) res)
   \<Rightarrow> (byte list \<Rightarrow> string option) \<Rightarrow> bool \<Rightarrow> byte list \<Rightarrow> ('s, 'f, 'p, nat) api_sm" where
  "h_create_torrent X C P u exists created utf8 allow_create body S =
     (if \<not> allow_create then (Inl (status_text 403 ''creating torrents not allowed. Enable through CLI options''), S)
      else case utf8 body of
        None \<Rightarrow> (Inl (status_text 400 ''invalid utf-8''), S)
      | Some path \<Rightarrow> create_and_serve_torrent X C P u exists created path S)"

text \<open>Resolving a magnet link: a list-only addition. The content that is returned.\<close>

definition h_resolve_magnet ::
  "('s, 'f) session_params \<Rightarrow> session_config \<Rightarrow> 'p persistence_ops \<Rightarrow> ('s, 'f) surroundings \<Rightarrow> (string \<Rightarrow> torrent_meta res) \<Rightarrow> resolve_outcome
   \<Rightarrow> string \<Rightarrow> ('s, 'f, 'p, byte list) api_sm" where
  "h_resolve_magnet X C P u http resolve url S =
     (case session_add_torrent X C P u True http resolve (AddUrl url) (Some (add_options_default\<lparr>ao_list_only := True\<rparr>)) S of
        (Inl e, S1) \<Rightarrow> (Inl (from_anyhow e), S1)
      | (Inr (AlreadyManaged _ a), S1) \<Rightarrow>
          (case loaded_meta (se_heap S1 a) of
             None \<Rightarrow> (Inl (from_anyhow (Bail ''torrent is not resolved'')), S1)
           | Some m \<Rightarrow> (Inr (tm_torrent_bytes m), S1))
      | (Inr (ListOnly l), S1) \<Rightarrow> (Inr (lo_torrent_bytes l), S1)
      | (Inr (Added _ _), S1) \<Rightarrow> (Inl (status_text 500 ''bug: torrent was added to session, but shouldn't have been''), S1))"

subsection \<open>Playlists\<close>

record playlist_env =
  pl_playable :: "string \<Rightarrow> bool"
  pl_urlencode :: "string \<Rightarrow> string"

definition torrent_playlist_items :: "api_env \<Rightarrow> playlist_env \<Rightarrow> ('s, 'f) torrent \<Rightarrow> (nat \<times> string) list api" where
  "torrent_playlist_items V E t =
     (case loaded_meta t of
        None \<Rightarrow> Inl (from_anyhow (Bail ''torrent metadata not resolved''))
      | Some m \<Rightarrow> Inr (sort_key (\<lambda>(_, n). map (of_char :: char \<Rightarrow> nat) n)
          (List.map_filter (\<lambda>(idx, c, _). let filename = join_with ''/'' c in
              if pl_playable E filename then Some (idx, pl_urlencode E filename) else None) (List.enumerate 0 (av_files V m)))))"

definition playlist_line :: "api_env \<Rightarrow> string \<Rightarrow> torrent_id_or_hash \<times> nat \<times> string \<Rightarrow> string" where
  "playlist_line V host = (\<lambda>(k, file_idx, filename).
     ''http://'' @ host @ ''/torrents/'' @ show_id_or_hash V k @ ''/stream/'' @ show_nat file_idx @ ''/'' @ filename)"

definition build_playlist_content :: "api_env \<Rightarrow> string \<Rightarrow> (torrent_id_or_hash \<times> nat \<times> string) list \<Rightarrow> string" where
  "build_playlist_content V host items = ''#EXTM3U'' @ [CHR 0x0D, CHR 0x0A] @ join_with [CHR 0x0D, CHR 0x0A] (map (playlist_line V host) items)"

definition get_host :: "(string \<Rightarrow> string option) \<Rightarrow> string option \<Rightarrow> string api" where
  "get_host to_str header =
     (case header of
        None \<Rightarrow> Inl (status_text 400 ''Missing host header'')
      | Some h \<Rightarrow> (case to_str h of None \<Rightarrow> Inl (status_text 400 ''hostname is not a string'') | Some s \<Rightarrow> Inr s))"

definition h_torrent_playlist ::
  "api_env \<Rightarrow> playlist_env \<Rightarrow> (string \<Rightarrow> string option) \<Rightarrow> string option \<Rightarrow> torrent_id_or_hash \<Rightarrow> ('s, 'f, 'p) session \<Rightarrow> string api" where
  "h_torrent_playlist V E to_str header k S =
     api_bind (get_host to_str header) (\<lambda>host.
     api_bind (mgr_handle k S) (\<lambda>a.
     api_bind (torrent_playlist_items V E (se_heap S a)) (\<lambda>items.
       Inr (build_playlist_content V host (map (Pair k) items)))))"

definition h_global_playlist ::
  "api_env \<Rightarrow> playlist_env \<Rightarrow> (string \<Rightarrow> string option) \<Rightarrow> string option \<Rightarrow> nat list \<Rightarrow> ('s, 'f, 'p) session \<Rightarrow> string api" where
  "h_global_playlist V E to_str header order S =
     api_bind (get_host to_str header) (\<lambda>host.
       Inr (build_playlist_content V host (concat (map (\<lambda>(i, t). case torrent_playlist_items V E t of
          Inl _ \<Rightarrow> [] | Inr items \<Rightarrow> map (Pair (TorrentId i)) items) (session_torrents order S)))))"

subsection \<open>Configuration\<close>

text \<open>The limits of a session: the rates, and two numbers that are set and read here only.\<close>

record 'l session_limits =
  sl_rates :: "'l limits"
  sl_peer_limit :: nat
  sl_concurrent_init_limit :: nat

definition h_update_session_ratelimits :: "'l limiter_ops \<Rightarrow> limits_config \<Rightarrow> 'l session_limits \<Rightarrow> 'l session_limits" where
  "h_update_session_ratelimits G c s =
     s\<lparr>sl_rates := set_download_bps G (lc_download_bps c) (set_upload_bps G (lc_upload_bps c) (sl_rates s)),
       sl_peer_limit := unwrap_or (sl_peer_limit s) (lc_peer_limit c),
       sl_concurrent_init_limit := unwrap_or (sl_concurrent_init_limit s) (lc_concurrent_init_limit c)\<rparr>"

definition h_get_session_ratelimits :: "'l session_limits \<Rightarrow> limits_config" where
  "h_get_session_ratelimits s =
     (get_config (sl_rates s))\<lparr>lc_peer_limit := Some (sl_peer_limit s), lc_concurrent_init_limit := Some (sl_concurrent_init_limit s)\<rparr>"

definition h_get_folders :: "('s, 'f, 'p) session \<Rightarrow> string \<times> string option" where
  "h_get_folders S = (se_output_folder S, se_completed_folder S)"

definition h_set_folders :: "string \<times> string option \<Rightarrow> ('s, 'f, 'p) session \<Rightarrow> ('s, 'f, 'p) session" where
  "h_set_folders config S = set_completed_folder (snd config) (set_output_folder (fst config) S)"

text \<open>
  Browsing: \<open>canonicalize\<close>, \<open>read_dir\<close>, \<open>parent\<close> and \<open>join\<close> are the file system's and those of \<open>std::path\<close>; an entry has a name and a type,
  which may be unknown.
\<close>

record dir_entry =
  de_name :: string
  de_path :: string
  de_is_dir :: bool

definition browse_entries :: "(string \<Rightarrow> string) \<Rightarrow> (string \<Rightarrow> string) \<Rightarrow> (string \<times> bool option) list \<Rightarrow> dir_entry list" where
  "browse_entries lowercase entry_path es =
     sort_key (\<lambda>e. (\<not> de_is_dir e, map (of_char :: char \<Rightarrow> nat) (lowercase (de_name e))))
       (List.map_filter (\<lambda>(n, d). case d of None \<Rightarrow> None
          | Some is_dir \<Rightarrow> if starts_with ''.'' n then None else Some \<lparr>de_name = n, de_path = entry_path n, de_is_dir = is_dir\<rparr>) es)"

record browse_env =
  bv_lowercase :: "string \<Rightarrow> string"
  bv_canonicalize :: "string \<Rightarrow> string option"
  bv_parent :: "string \<Rightarrow> string option"
  bv_join :: "string \<Rightarrow> string \<Rightarrow> string"
  bv_read_dir :: "string \<Rightarrow> (string \<times> bool option) list option"

definition h_browse_directory :: "browse_env \<Rightarrow> string option \<Rightarrow> (string \<times> string option \<times> dir_entry list) api" where
  "h_browse_directory B path =
     (case bv_canonicalize B (unwrap_or ''/'' path) of
        None \<Rightarrow> Inl (from_anyhow (Bail ''invalid path''))
      | Some canonical \<Rightarrow>
        (case bv_read_dir B canonical of
           None \<Rightarrow> Inl (from_anyhow (Bail ''cannot read directory''))
         | Some es \<Rightarrow> Inr (canonical, bv_parent B canonical, browse_entries (bv_lowercase B) (bv_join B canonical) es)))"

subsection \<open>Properties\<close>

lemma bit_runs_expand: "concat (map (\<lambda>(_, n, b). replicate n b) (bit_runs i bits)) = bits"
proof (induction i bits rule: bit_runs.induct)
  case (2 i b bs)
  have "replicate (length (takeWhile (\<lambda>c. c = b) bs)) b = takeWhile (\<lambda>c. c = b) bs"
    by (metis (mono_tags, lifting) replicate_length_same set_takeWhileD)
  then show ?case using 2 by (simp add: Let_def)
qed simp

lemma bit_runs_ends:
  "bits \<noteq> [] \<Longrightarrow> fst (last (bit_runs i bits)) + fst (snd (last (bit_runs i bits))) = i + length bits"
proof (induction i bits rule: bit_runs.induct)
  case (2 i b bs)
  have len: "length bs = length (takeWhile (\<lambda>c. c = b) bs) + length (dropWhile (\<lambda>c. c = b) bs)"
    by (metis length_append takeWhile_dropWhile_id)
  show ?case
  proof (cases "dropWhile (\<lambda>c. c = b) bs")
    case Nil
    then show ?thesis using len by (simp add: Let_def Nil del: dropWhile_eq_Nil_conv)
  next
    case (Cons x xs)
    then have "bit_runs (i + (1 + length (takeWhile (\<lambda>c. c = b) bs))) (dropWhile (\<lambda>c. c = b) bs) \<noteq> []" by (simp add: Let_def)
    then show ?thesis using 2 Cons len by (simp add: Let_def)
  qed
qed simp

lemma bit_runs_alternate:
  "Suc j < length (bit_runs i bits) \<Longrightarrow> snd (snd (bit_runs i bits ! j)) \<noteq> snd (snd (bit_runs i bits ! Suc j))"
proof (induction i bits arbitrary: j rule: bit_runs.induct)
  case (2 i b bs)
  let ?n = "1 + length (takeWhile (\<lambda>c. c = b) bs)" and ?d = "dropWhile (\<lambda>c. c = b) bs"
  have runs: "bit_runs i (b # bs) = (i, ?n, b) # bit_runs (i + ?n) ?d" by (simp add: Let_def)
  show ?case
  proof (cases j)
    case 0
    then have "bit_runs (i + ?n) ?d \<noteq> []" using "2.prems" unfolding runs by auto
    then have "?d \<noteq> []" by (metis bit_runs.simps(1))
    then obtain x xs where d: "?d = x # xs" "x \<noteq> b" using hd_dropWhile [of "\<lambda>c. c = b" bs] by (cases ?d) auto
    then show ?thesis unfolding runs 0 by (simp add: Let_def)
  next
    case (Suc k)
    then have "Suc k < length (bit_runs (i + ?n) ?d)" using "2.prems" unfolding runs by simp
    from "2.IH" [OF refl this] show ?thesis unfolding runs Suc by simp
  qed
qed simp

text \<open>The picture of the pieces: expanding its runs gives the bits of the bit field, in order, and neighbouring runs differ in colour. The
  bit field is drawn with its spare bits, though: when the number of pieces is not a multiple of eight, the last run ends beyond the
  right border.\<close>

theorem haves_picture:
  assumes "0 < len" and "len \<le> length bits"
  shows "concat (map (\<lambda>(_, n, b). replicate n b) (generate_svg bits len)) = bits
    \<and> (\<forall>j. Suc j < length (generate_svg bits len) \<longrightarrow> snd (snd (generate_svg bits len ! j)) \<noteq> snd (snd (generate_svg bits len ! Suc j)))
    \<and> fst (last (generate_svg bits len)) + fst (snd (last (generate_svg bits len))) = length bits"
proof -
  have "bits \<noteq> []" using assms by auto
  then show ?thesis using assms bit_runs_ends [of bits 0] bit_runs_alternate [of _ 0 bits] by (simp add: generate_svg_def bit_runs_expand)
qed

text \<open>Resolving a link never changes the session.\<close>

theorem resolve_magnet_no_change: "snd (h_resolve_magnet X C P u http resolve url S) = S"
proof -
  have "snd (session_add_torrent X C P u True http resolve (AddUrl url) (Some (add_options_default\<lparr>ao_list_only := True\<rparr>)) S) = S"
  proof (cases "parse_add X http (AddUrl url) (add_options_default\<lparr>ao_list_only := True\<rparr>)")
    case (Inr p)
    obtain ia opts where p: "p = (ia, opts)" by fastforce
    have "ao_list_only opts"
      using Inr p by (auto simp: parse_add_def add_magnet_def add_torrent_file_def res_bind_eq_Inr Let_def add_options_default_def split: if_splits)
    then show ?thesis
      using Inr p by (auto simp: session_add_torrent_def add_torrent_internal_def add_prepared_def sm_bind_def sm_res_def sm_ret_def split: sum.splits prod.splits)
  qed (simp add: session_add_torrent_def sm_bind_def sm_res_def)
  then show ?thesis
    by (auto simp: h_resolve_magnet_def split: prod.splits sum.splits add_torrent_response.splits option.splits)
qed

lemma add_peers_loop_activity:
  assumes "add_peers_loop cid now as n l = (r, l')" and "Q l" and "\<And>l1 l2. Q l1 \<Longrightarrow> live_activity E l1 l2 \<Longrightarrow> Q l2"
  shows "Q l'"
  using assms(1,2)
proof (induction cid now as n l rule: add_peers_loop.induct)
  case (2 cid now a as n l)
  obtain r1 l1 where l1: "add_peer_if_not_seen a cid now l = (r1, l1)" by fastforce
  then have "Q l1" using "2.prems"(2) assms(3) la_add_peer by blast
  then show ?case using 2 l1 by (auto split: sum.splits)
qed simp

lemma upd_managed_again: "upd_managed a m' (upd_managed a m S) = upd_managed a m' S"
  by (simp add: upd_managed_def)

text \<open>Peers that are added over the API are steps of the session too.\<close>

theorem add_peers_reach:
  assumes "reach session_init (session_step X C strict) S" and "h_add_peers utf8 addr_from_str cid now k body S = (r, S')"
  shows "reach session_init (session_step X C strict) S'"
proof (cases "S' = S")
  case False
  then obtain a t l str r1 l' where h: "mgr_handle k S = Inr a" "mt_state (th_managed (se_heap S a)) = MLive t l" "utf8 body = Some str"
      "add_peers_loop cid now (List.map_filter addr_from_str (split_on (CHR 0x0A) str)) 0 l = (r1, l')"
      "S' = upd_managed a ((th_managed (se_heap S a))\<lparr>mt_state := MLive t l'\<rparr>) S"
    using assms(2) by (auto simp: h_add_peers_def split: sum.splits managed_state.splits option.splits prod.splits)
  let ?Q = "\<lambda>l. reach session_init (session_step X C strict) (upd_managed a ((th_managed (se_heap S a))\<lparr>mt_state := MLive t l\<rparr>) S)"
  have "?Q l"
  proof -
    have "(th_managed (se_heap S a))\<lparr>mt_state := MLive t l\<rparr> = th_managed (se_heap S a)" using h(2) by simp
    then have "upd_managed a ((th_managed (se_heap S a))\<lparr>mt_state := MLive t l\<rparr>) S = S" by (simp add: upd_managed_def)
    then show ?thesis using assms(1) by simp
  qed
  moreover have "?Q l2" if "?Q l1" "live_activity (ie_live (me_init (th_env (se_heap S a)))) l1 l2" for l1 l2
  proof -
    let ?S = "upd_managed a ((th_managed (se_heap S a))\<lparr>mt_state := MLive t l1\<rparr>) S" and ?m = "(th_managed (se_heap S a))\<lparr>mt_state := MLive t l1\<rparr>"
    have heap: "th_env (se_heap ?S a) = th_env (se_heap S a)" "th_managed (se_heap ?S a) = ?m" by (simp_all add: upd_managed_def)
    have "managed_step (th_env (se_heap S a)) strict ?m (?m\<lparr>mt_state := MLive t l2\<rparr>)" by (rule ms_live [OF _ that(2)]) simp
    then have "managed_step (th_env (se_heap ?S a)) strict (th_managed (se_heap ?S a)) ((th_managed (se_heap S a))\<lparr>mt_state := MLive t l2\<rparr>)"
      by (simp add: heap)
    from reach_step [OF that(1) ss_torrent [OF this]] show ?thesis by (simp add: upd_managed_again)
  qed
  ultimately have "?Q l'"
    by (intro add_peers_loop_activity [OF h(4), where Q = ?Q and E = "ie_live (me_init (th_env (se_heap S a)))"])
  then show ?thesis using h(5) by simp
qed (use assms in simp)

text \<open>The playlist of a torrent has exactly the playable files, under their numbers, in the order of their encoded names.\<close>

theorem playlist_items:
  assumes "torrent_playlist_items V E t = Inr items" and "loaded_meta t = Some m"
  shows "set items = {(i, pl_urlencode E (join_with ''/'' (fst (av_files V m ! i)))) | i. i < length (av_files V m) \<and> pl_playable E (join_with ''/'' (fst (av_files V m ! i)))}
    \<and> distinct (map fst items) \<and> sorted (map (\<lambda>(_, n). map (of_char :: char \<Rightarrow> nat) n) items)"
proof -
  let ?f = "\<lambda>(idx, c, _ :: nat). let filename = join_with ''/'' c in if pl_playable E filename then Some (idx, pl_urlencode E filename) else None"
  let ?xs = "List.map_filter ?f (List.enumerate 0 (av_files V m))"
  have items: "items = sort_key (\<lambda>(_, n). map (of_char :: char \<Rightarrow> nat) n) ?xs" using assms by (simp add: torrent_playlist_items_def)
  have f: "?f (j, x) = (if pl_playable E (join_with ''/'' (fst x)) then Some (j, pl_urlencode E (join_with ''/'' (fst x))) else None)" for j x
    by (cases x) (simp add: Let_def)
  have mem: "y \<in> set ?xs \<longleftrightarrow> (\<exists>j < length (av_files V m). ?f (j, av_files V m ! j) = Some y)" for y
  proof -
    have "set (List.enumerate 0 (av_files V m)) = (\<lambda>j. (j, av_files V m ! j)) ` {..<length (av_files V m)}"
      by (auto simp: in_set_enumerate_eq image_iff)
    then show ?thesis unfolding set_map_filter_iff by auto
  qed
  have xs: "set ?xs = {(i, pl_urlencode E (join_with ''/'' (fst (av_files V m ! i)))) | i. i < length (av_files V m) \<and> pl_playable E (join_with ''/'' (fst (av_files V m ! i)))}"
    unfolding set_eq_iff mem f by auto
  have dist: "distinct (map fst (List.map_filter ?f (List.enumerate n ys)))" for n and ys :: "(string list \<times> nat) list"
  proof -
    have "map fst (List.map_filter ?f (List.enumerate n ys)) = map fst (filter (\<lambda>x. ?f x \<noteq> None) (List.enumerate n ys))"
      unfolding List.map_filter_def map_map by (rule map_cong [OF refl]) (auto simp: Let_def split: if_splits)
    then show ?thesis by (simp add: distinct_map_filter)
  qed
  have "distinct (map fst items)"
  proof -
    have "mset (map fst items) = mset (map fst ?xs)" unfolding items by (simp only: mset_map mset_sort)
    then have "distinct (map fst items) = distinct (map fst ?xs)" by (rule mset_eq_imp_distinct_iff)
    then show ?thesis using dist [of 0 "av_files V m"] by (rule iffD2)
  qed
  moreover have "set items = set ?xs" "sorted (map (\<lambda>(_, n). map (of_char :: char \<Rightarrow> nat) n) items)" unfolding items by (simp_all add: sorted_sort_key)
  ultimately show ?thesis unfolding xs by (intro conjI)
qed

text \<open>The limits that were set are read back: rates, and the numbers that were given; others keep their value.\<close>

lemma limits_roundtrip:
  assumes "nonzero (lc_upload_bps c)" and "nonzero (lc_download_bps c)"
  shows "h_get_session_ratelimits (h_update_session_ratelimits G c s)
    = c\<lparr>lc_peer_limit := Some (unwrap_or (sl_peer_limit s) (lc_peer_limit c)),
        lc_concurrent_init_limit := Some (unwrap_or (sl_concurrent_init_limit s) (lc_concurrent_init_limit c))\<rparr>"
  using assms
  by (cases c) (auto simp: h_get_session_ratelimits_def h_update_session_ratelimits_def get_config_def get_upload_bps_def get_download_bps_def
      set_upload_bps_def set_download_bps_def limit_get_def limit_set_def nonzero_def split: option.split)

lemma folders_roundtrip: "h_get_folders (h_set_folders c S) = c"
  by (cases c) (simp add: h_get_folders_def h_set_folders_def set_output_folder_def set_completed_folder_def)

text \<open>Creating torrents is impossible unless it is allowed.\<close>

lemma create_torrent_forbidden:
  "\<not> allow_create \<Longrightarrow> \<exists>e. h_create_torrent X C P u ex created utf8 allow_create body S = (Inl e, S) \<and> api_status e = 403"
  by (simp add: h_create_torrent_def status_text_def api_status_def)

end
