(* ===== verification/Http_Stream.thy ===== *)
theory Http_Stream
  imports Http_Handlers
begin

text \<open>
  \<open>src/src/http_api/handlers/streaming.rs\<close>: a file of a torrent over HTTP, with ranges. The request's headers are a map from names to
  values, \<open>to_str\<close> is \<open>HeaderValue::to_str\<close>. The body is the stream of \<open>Streaming\<close> behind \<open>take\<close> and a \<open>ReaderStream\<close>, which asks for at most
  65536 bytes at a time; it is polled as often as the client reads, and every poll sees the pieces that are there then.
\<close>

subsection \<open>The range\<close>

definition strip_prefix :: "string \<Rightarrow> string \<Rightarrow> string option" where
  "strip_prefix p s = (if starts_with p s then Some (drop (length p) s) else None)"

definition parse_range :: "string \<Rightarrow> (nat \<times> nat option) option" where
  "parse_range v =
     Option.bind (strip_prefix ''bytes='' v) (\<lambda>v1.
     Option.bind (split_once (CHR ''-'') v1) (\<lambda>(s, e).
     Option.bind (parse_uint 64 s) (\<lambda>first.
       if e = [] then Some (first, None)
       else map_option (\<lambda>e'. (first, Some (min (e' + 1) (2 ^ 64 - 1)))) (parse_uint 64 e))))"

subsection \<open>The response\<close>

record stream_response =
  sr_status :: nat
  sr_headers :: "(string \<times> string) list"
  sr_limit :: "nat option"

definition content_range :: "nat \<Rightarrow> nat \<Rightarrow> nat \<Rightarrow> string" where
  "content_range first stop len = ''bytes '' @ show_nat first @ ''-'' @ show_nat (stop - 1) @ ''/'' @ show_nat len"

definition dlna_headers :: "(string \<Rightarrow> string option) \<Rightarrow> (string \<times> string) list" where
  "dlna_headers headers =
     (if headers ''transferMode.dlna.org'' \<in> {Some ''Streaming'', Some ''streaming''} then [(''transferMode.dlna.org'', ''Streaming'')] else [])
     @ (if headers ''getcontentFeatures.dlna.org'' = Some ''1'' then [(''contentFeatures.dlna.org'', ''DLNA.ORG_OP=01'')] else [])"

text \<open>The handler, after the stream \<open>f\<close> was opened: the response and the stream where the body starts.\<close>

definition h_torrent_stream_file ::
  "(string \<Rightarrow> string option) \<Rightarrow> string api \<Rightarrow> (string \<Rightarrow> string option) \<Rightarrow> file_stream \<Rightarrow> torrent_streams
   \<Rightarrow> (stream_response \<times> file_stream \<times> torrent_streams) api" where
  "h_torrent_stream_file to_str mime headers f t =
     (let base = [(''Accept-Ranges'', ''bytes'')] @ dlna_headers headers @ (case mime of Inl _ \<Rightarrow> [] | Inr m \<Rightarrow> [(''Content-Type'', m)]);
          range = Option.bind (Option.bind (headers ''Range'') to_str) parse_range;
          len = file_len f
      in case range of
           None \<Rightarrow> Inr (\<lparr>sr_status = 200, sr_headers = base @ [(''Content-Length'', show_nat len)], sr_limit = None\<rparr>, f, t)
         | Some (first, stop) \<Rightarrow>
           if len \<le> first \<or> (case stop of None \<Rightarrow> False | Some e \<Rightarrow> e \<le> first \<or> len < e)
           then Inl (status_text 416 ''bad range'')
           else let e = unwrap_or len stop in
             api_bind (map_err from_anyhow (start_seek (SeekStart first) f t)) (\<lambda>(f1, t1).
               Inr (\<lparr>sr_status = 206, sr_headers = base @ [(''Content-Length'', show_nat (e - first)), (''Content-Range'', content_range first e len)],
                     sr_limit = Some (e - first)\<rparr>, f1, t1)))"

subsection \<open>The body\<close>

definition reader_capacity :: nat where
  "reader_capacity = 65536"

record body_state =
  bd_stream :: file_stream
  bd_streams :: torrent_streams
  bd_limit :: "nat option"
  bd_sent :: "byte list"
  bd_done :: bool

text \<open>One poll of the body, with the bit field of the pieces that are there.\<close>

definition body_poll ::
  "lengths \<Rightarrow> (nat \<Rightarrow> nat \<Rightarrow> nat \<Rightarrow> byte list res) \<Rightarrow> nat \<Rightarrow> bf \<Rightarrow> body_state \<Rightarrow> body_state res" where
  "body_poll L pread w bits b =
     (if bd_done b then Inr b
      else if bd_limit b = Some 0 then Inr (b\<lparr>bd_done := True\<rparr>)
      else res_bind (poll_read L (Inr bits) pread w (case bd_limit b of None \<Rightarrow> reader_capacity | Some l \<Rightarrow> min l reader_capacity)
               (bd_stream b) (bd_streams b)) (\<lambda>(p, f, t). case p of
             Pending \<Rightarrow> Inr (b\<lparr>bd_stream := f, bd_streams := t\<rparr>)
           | Ready [] \<Rightarrow> Inr (b\<lparr>bd_stream := f, bd_streams := t, bd_done := True\<rparr>)
           | Ready (x # xs) \<Rightarrow> Inr (b\<lparr>bd_stream := f, bd_streams := t, bd_sent := bd_sent b @ x # xs,
               bd_limit := map_option (\<lambda>l. l - length (x # xs)) (bd_limit b)\<rparr>)))"

text \<open>The polls of a response, one after the other.\<close>

definition body_polls :: "lengths \<Rightarrow> (nat \<Rightarrow> nat \<Rightarrow> nat \<Rightarrow> byte list res) \<Rightarrow> nat \<Rightarrow> bf list \<Rightarrow> body_state \<Rightarrow> body_state res" where
  "body_polls L pread w bitss b = res_fold (body_poll L pread w) bitss b"

definition body_start :: "stream_response \<Rightarrow> file_stream \<Rightarrow> torrent_streams \<Rightarrow> body_state" where
  "body_start r f t = \<lparr>bd_stream = f, bd_streams = t, bd_limit = sr_limit r, bd_sent = [], bd_done = False\<rparr>"

subsection \<open>Parsing\<close>

lemma parse_range_bounded: "b < 2 ^ 64 - 1 \<Longrightarrow> a < 2 ^ 64 \<Longrightarrow> parse_range (''bytes='' @ show_nat a @ ''-'' @ show_nat b) = Some (a, Some (b + 1))"
proof -
  assume b: "b < 2 ^ 64 - 1" and a: "a < 2 ^ 64"
  have "split_once (CHR ''-'') (show_nat a @ CHR ''-'' # show_nat b) = Some (show_nat a, show_nat b)"
    by (rule split_once_fresh) (simp add: not_digit)
  moreover have "show_nat b \<noteq> []" using show_nat_hd [of b] by auto
  ultimately show ?thesis
    using a b by (simp add: parse_range_def strip_prefix_def starts_with_def parse_show_nat)
qed

lemma parse_range_open: "a < 2 ^ 64 \<Longrightarrow> parse_range (''bytes='' @ show_nat a @ ''-'') = Some (a, None)"
proof -
  assume a: "a < 2 ^ 64"
  have "split_once (CHR ''-'') (show_nat a @ [CHR ''-'']) = Some (show_nat a, [])"
    by (rule split_once_fresh) (simp add: not_digit)
  then show ?thesis using a by (simp add: parse_range_def strip_prefix_def starts_with_def parse_show_nat)
qed

subsection \<open>What is sent\<close>

text \<open>The body is at the right place of the file: what was sent and what is still to be sent are the range from \<open>first\<close> to \<open>stop\<close>.\<close>

definition body_ok :: "byte list \<Rightarrow> nat \<Rightarrow> nat \<Rightarrow> file_stream \<Rightarrow> body_state \<Rightarrow> bool" where
  "body_ok content first stop f0 b \<longleftrightarrow>
     stream_ok (bd_stream b) (bd_streams b) \<and> file_len (bd_stream b) = file_len f0 \<and> file_id (bd_stream b) = file_id f0
     \<and> file_torrent_abs_offset (bd_stream b) = file_torrent_abs_offset f0
     \<and> first \<le> position (bd_stream b) \<and> position (bd_stream b) \<le> stop
     \<and> bd_sent b = take (position (bd_stream b) - first) (drop first content)
     \<and> (case bd_limit b of None \<Rightarrow> stop = file_len f0 | Some l \<Rightarrow> l = stop - position (bd_stream b))
     \<and> (bd_done b \<longrightarrow> position (bd_stream b) = stop)"

lemma register_waker_ok: "stream_ok f t \<Longrightarrow> stream_ok f (register_waker (stream_id f) w t)"
  by (auto simp: stream_ok_def register_waker_def update_conv' distinct_update)

lemma poll_read_there:
  assumes L: "lengths_bytes_ok L" and f: "stream_ok f t" "position f < file_len f"
    and fits: "file_torrent_abs_offset f + file_len f \<le> total_length L" "total_pieces L \<le> length bits"
    and pread: "\<And>p n. p + n \<le> file_len f \<Longrightarrow> pread (file_id f) p n = Inr (take n (drop p content))"
  shows "poll_read L (Inr bits) pread w buf_len f t = Inr (Pending, f, register_waker (stream_id f) w t) \<and> (\<exists>p < total_pieces L. \<not> bits ! p)
    \<or> (\<exists>n t'. poll_read L (Inr bits) pread w buf_len f t = Inr (Ready (take n (drop (position f) content)), f\<lparr>position := position f + n\<rparr>, t')
          \<and> stream_ok (f\<lparr>position := position f + n\<rparr>) t' \<and> n \<le> buf_len \<and> position f + n \<le> file_len f \<and> (0 < buf_len \<longrightarrow> 0 < n))"
proof -
  have "compute_current_piece L (position f) (file_torrent_abs_offset f) \<noteq> None"
    using L fits(1) f(2) by (auto simp: lengths_bytes_ok_def)
  then obtain piece r po where cur: "compute_current_piece L (position f) (file_torrent_abs_offset f) = Some (piece, r, po)" by auto
  then have pc: "piece < total_pieces L" "0 < r" using L unfolding lengths_bytes_ok_def by blast+
  have idx: "bf_index bits piece = Inr (bits ! piece)" using pc fits(2) by (simp add: bf_index_def)
  show ?thesis
  proof (cases "bits ! piece")
    case True
    define n where "n = min (min buf_len r) (file_len f - position f)"
    have n: "position f + n \<le> file_len f" "n \<le> buf_len" "0 < buf_len \<longrightarrow> 0 < n" using f(2) pc(2) by (auto simp: n_def)
    obtain f' t' where sp: "set_position (position f + n) f t = Inr (f', t')" "stream_ok f' t'" using set_position_ok [OF f(1) n(1)] by blast
    then have "f' = f\<lparr>position := position f + n\<rparr>" by (auto simp: set_position_def split: option.splits)
    then show ?thesis
      using cur idx True f(2) pread [OF n(1)] sp n by (auto simp: poll_read_def advance_def n_def [symmetric] Let_def)
  next
    case False
    then show ?thesis using cur idx f(2) pc(1) by (auto simp: poll_read_def)
  qed
qed

lemma body_poll_ok:
  assumes L: "lengths_bytes_ok L" and fits: "file_torrent_abs_offset f0 + file_len f0 \<le> total_length L" "total_pieces L \<le> length bits"
    and pread: "\<And>p n. p + n \<le> file_len f0 \<Longrightarrow> pread (file_id f0) p n = Inr (take n (drop p content))"
    and len: "length content = file_len f0" "stop \<le> file_len f0" and b: "body_ok content first stop f0 b"
  shows "\<exists>b'. body_poll L pread w bits b = Inr b' \<and> body_ok content first stop f0 b'
    \<and> ((\<forall>p < total_pieces L. bits ! p) \<longrightarrow> bd_done b' \<or> position (bd_stream b) < position (bd_stream b'))"
proof (cases "bd_done b \<or> bd_limit b = Some 0 \<or> position (bd_stream b) = file_len f0")
  case True
  have "bd_done b \<or> bd_limit b = Some 0 \<or> position (bd_stream b) = stop \<and> bd_limit b = None" using True b len(2)
    by (cases "bd_limit b") (auto simp: body_ok_def)
  then consider (ended) "bd_done b" | (limit) "\<not> bd_done b" "bd_limit b = Some 0" | (eof) "\<not> bd_done b" "bd_limit b = None" "position (bd_stream b) = stop"
    by (metis (full_types))
  then show ?thesis
  proof cases
    case ended
    then show ?thesis using b by (simp add: body_poll_def)
  next
    case limit
    then show ?thesis using b by (simp add: body_poll_def body_ok_def)
  next
    case eof
    then have "position (bd_stream b) = file_len (bd_stream b)" using b by (simp add: body_ok_def)
    then show ?thesis using b eof by (simp add: body_poll_def poll_read_def body_ok_def)
  qed
next
  case False
  let ?f = "bd_stream b" and ?t = "bd_streams b"
  let ?n = "case bd_limit b of None \<Rightarrow> reader_capacity | Some l \<Rightarrow> min l reader_capacity"
  have f: "stream_ok ?f ?t" "position ?f < file_len ?f" "file_len ?f = file_len f0" "file_id ?f = file_id f0"
      "file_torrent_abs_offset ?f = file_torrent_abs_offset f0"
    using b False by (auto simp: body_ok_def stream_ok_def)
  have pos: "0 < ?n" using False by (auto simp: reader_capacity_def split: option.splits)
  have lim: "?n \<le> stop - position ?f \<or> bd_limit b = None \<and> stop = file_len f0" using b by (auto simp: body_ok_def split: option.splits)
  consider (pending) "poll_read L (Inr bits) pread w ?n ?f ?t = Inr (Pending, ?f, register_waker (stream_id ?f) w ?t)" "\<exists>p < total_pieces L. \<not> bits ! p"
    | (ready) n t' where "poll_read L (Inr bits) pread w ?n ?f ?t = Inr (Ready (take n (drop (position ?f) content)), ?f\<lparr>position := position ?f + n\<rparr>, t')"
        "stream_ok (?f\<lparr>position := position ?f + n\<rparr>) t'" "n \<le> ?n" "position ?f + n \<le> file_len ?f" "0 < n"
    using poll_read_there [where pread = pread and content = content, OF L f(1,2) _ fits(2), of w ?n] fits(1) pread f(3-5) pos by auto
  then show ?thesis
  proof cases
    case pending
    let ?b = "b\<lparr>bd_streams := register_waker (stream_id ?f) w ?t\<rparr>"
    have "body_poll L pread w bits b = Inr ?b" using False pending(1) by (simp add: body_poll_def)
    moreover have "body_ok content first stop f0 ?b" using b register_waker_ok [OF f(1)] by (cases "bd_limit b") (simp_all add: body_ok_def)
    ultimately show ?thesis using pending(2) by blast
  next
    case (ready n t')
    have ne: "length (take n (drop (position ?f) content)) = n" using ready(4) len(1) f(3) by simp
    then obtain x xs where x: "take n (drop (position ?f) content) = x # xs" using ready(5) by (cases "take n (drop (position ?f) content)") auto
    have "take (position ?f - first) (drop first content) @ take n (drop (position ?f) content) = take (position ?f + n - first) (drop first content)"
      using b take_add [of "position ?f - first" n "drop first content"] by (simp add: body_ok_def)
    moreover have "position ?f + n \<le> stop" using lim ready(3,4) f(3) b by (auto simp: body_ok_def)
    moreover have "length (x # xs) = n" using ne x by simp
    ultimately show ?thesis
      using False ready b x f(3-5) by (auto simp: body_poll_def body_ok_def split: option.splits)
  qed
qed

lemma body_polls_ok:
  assumes "lengths_bytes_ok L" "file_torrent_abs_offset f0 + file_len f0 \<le> total_length L" "\<And>bits. bits \<in> set bitss \<Longrightarrow> total_pieces L \<le> length bits"
    "\<And>p n. p + n \<le> file_len f0 \<Longrightarrow> pread (file_id f0) p n = Inr (take n (drop p content))"
    "length content = file_len f0" "stop \<le> file_len f0" "body_ok content first stop f0 b"
  shows "\<exists>b'. body_polls L pread w bitss b = Inr b' \<and> body_ok content first stop f0 b'
    \<and> ((\<forall>bits \<in> set bitss. \<forall>p < total_pieces L. bits ! p) \<longrightarrow> stop - position (bd_stream b) < length bitss \<longrightarrow> bd_done b')"
  using assms(3,7)
proof (induction bitss arbitrary: b)
  case (Cons bits bitss)
  obtain b1 where b1: "body_poll L pread w bits b = Inr b1" "body_ok content first stop f0 b1"
      "(\<forall>p < total_pieces L. bits ! p) \<longrightarrow> bd_done b1 \<or> position (bd_stream b) < position (bd_stream b1)"
    using body_poll_ok [where pread = pread and content = content, OF assms(1,2) _ assms(4,5,6) Cons.prems(2), of bits w] Cons.prems(1) by auto
  obtain b2 where b2: "body_polls L pread w bitss b1 = Inr b2" "body_ok content first stop f0 b2"
      "(\<forall>bits \<in> set bitss. \<forall>p < total_pieces L. bits ! p) \<longrightarrow> stop - position (bd_stream b1) < length bitss \<longrightarrow> bd_done b2"
    using Cons.IH [OF _ b1(2)] Cons.prems(1) by auto
  have "bd_done b2" if "bd_done b1"
  proof -
    have "body_polls L pread w bs c = Inr c" if "bd_done c" for bs c using that by (induction bs) (simp_all add: body_polls_def body_poll_def)
    then show ?thesis using b2(1) that by auto
  qed
  moreover have "stop - position (bd_stream b1) < length bitss" if "position (bd_stream b) < position (bd_stream b1)" "stop - position (bd_stream b) < length (bits # bitss)"
    using that b1(2) by (auto simp: body_ok_def)
  ultimately show ?case using b1 b2 by (auto simp: body_polls_def)
qed (simp add: body_polls_def)


text \<open>Without a range, or with one that is not understood (such as a suffix \<open>bytes=-n\<close>), the whole file is sent with status 200.\<close>

theorem http_whole_file:
  assumes "Option.bind (Option.bind (headers ''Range'') to_str) parse_range = None"
  shows "\<exists>r. h_torrent_stream_file to_str mime headers f t = Inr (r, f, t) \<and> sr_status r = 200 \<and> sr_limit r = None
    \<and> (''Content-Length'', show_nat (file_len f)) \<in> set (sr_headers r)"
  using assms by (simp add: h_torrent_stream_file_def Let_def)

lemma suffix_range_ignored: "parse_range (''bytes=-'' @ show_nat n) = None"
  by (simp add: parse_range_def strip_prefix_def starts_with_def split_once_def parse_uint_def)


end
