(* ===== verification/Rss.thy ===== *)
theory Rss
  imports Http_Handlers
begin

text \<open>
  RSS feeds (\<open>src/src/rss/\<close> and \<open>src/src/http_api/handlers/rss.rs\<close>): the tables of feeds, items and rules with their SQL statements, the monitor that polls
  the feeds and adds torrents, and the HTTP handlers over them. What \<open>feed_rs\<close> parses of a feed and compiled regular expressions are arguments, so is
  every outcome of the database connection. A time is a number; the order of the stored texts of times is that of the times.
\<close>

subsection \<open>Feeds, items and rules\<close>

record feed_config =
  fc_name :: string
  fc_url :: string
  fc_poll_interval_secs :: nat
  fc_category :: "string option"
  fc_filter_regex :: "string option"
  fc_enabled :: bool
  fc_auto_download :: bool

definition default_poll_interval :: nat where
  "default_poll_interval = 900"

record rss_item =
  ri_id :: string
  ri_feed_name :: string
  ri_title :: string
  ri_url :: "string option"
  ri_published_at :: "nat option"
  ri_first_seen_at :: nat
  ri_downloaded :: bool
  ri_downloaded_at :: "nat option"
  ri_category :: "string option"
  ri_size_bytes :: nat

record rss_rule =
  ru_id :: string
  ru_name :: string
  ru_feed_names :: "string list"
  ru_category :: "string option"
  ru_priority :: int
  ru_match_regex :: string
  ru_enabled :: bool

text \<open>A row of \<open>rss_rules\<close>: the names of the feeds are one text.\<close>

record rule_row =
  rr_id :: string
  rr_name :: string
  rr_feed_name :: string
  rr_category :: "string option"
  rr_priority :: int
  rr_match_regex :: string
  rr_enabled :: bool

record rss_db =
  rd_feeds :: "feed_config list"
  rd_items :: "rss_item list"
  rd_rules :: "rule_row list"

definition rss_db_new :: rss_db where
  "rss_db_new = \<lparr>rd_feeds = [], rd_items = [], rd_rules = []\<rparr>"

subsection \<open>SQL\<close>

text \<open>A limit is passed as \<open>i64\<close>; SQLite takes a negative one as no limit.\<close>

definition sql_limit :: "nat \<Rightarrow> 'a list \<Rightarrow> 'a list" where
  "sql_limit n xs = (if 2 ^ 63 \<le> n then xs else take n xs)"

definition text_key :: "string \<Rightarrow> nat list" where
  "text_key s = map of_char s"

text \<open>Which of rows with equal keys comes first is left to the database: \<open>arrange\<close> permutes the rows before they are sorted.\<close>

definition arranges :: "('a list \<Rightarrow> 'a list) \<Rightarrow> bool" where
  "arranges arrange \<longleftrightarrow> (\<forall>xs. mset (arrange xs) = mset xs)"

definition feed_list :: "rss_db \<Rightarrow> feed_config list" where
  "feed_list d = sort_key (\<lambda>f. text_key (fc_name f)) (rd_feeds d)"

definition feed_delete :: "string \<Rightarrow> rss_db \<Rightarrow> rss_db" where
  "feed_delete name d = d\<lparr>rd_feeds := filter (\<lambda>f. fc_name f \<noteq> name) (rd_feeds d)\<rparr>"

definition feed_upsert :: "feed_config \<Rightarrow> rss_db \<Rightarrow> rss_db" where
  "feed_upsert feed d = d\<lparr>rd_feeds := filter (\<lambda>f. fc_name f \<noteq> fc_name feed) (rd_feeds d) @ [feed]\<rparr>"

definition rss_item_exists :: "string \<Rightarrow> rss_db \<Rightarrow> bool" where
  "rss_item_exists i d \<longleftrightarrow> i \<in> set (map ri_id (rd_items d))"

definition rss_item_upsert :: "rss_item \<Rightarrow> rss_db \<Rightarrow> rss_db" where
  "rss_item_upsert it d = (if rss_item_exists (ri_id it) d then d else d\<lparr>rd_items := rd_items d @ [it]\<rparr>)"

definition by_seen :: "(rss_item list \<Rightarrow> rss_item list) \<Rightarrow> rss_item list \<Rightarrow> rss_item list" where
  "by_seen arrange xs = rev (sort_key ri_first_seen_at (arrange xs))"

definition rss_items_list :: "(rss_item list \<Rightarrow> rss_item list) \<Rightarrow> string option \<Rightarrow> nat \<Rightarrow> rss_db \<Rightarrow> rss_item list" where
  "rss_items_list arrange feed_name limit d =
     (case feed_name of
        Some n \<Rightarrow> sql_limit limit (by_seen arrange (filter (\<lambda>it. ri_feed_name it = n) (rd_items d)))
      | None \<Rightarrow> sql_limit limit (by_seen arrange (rd_items d)))"

definition rss_item_get :: "string \<Rightarrow> rss_db \<Rightarrow> rss_item option" where
  "rss_item_get i d = find (\<lambda>it. ri_id it = i) (rd_items d)"

definition rss_item_mark_downloaded :: "string \<Rightarrow> nat \<Rightarrow> string option \<Rightarrow> rss_db \<Rightarrow> rss_db" where
  "rss_item_mark_downloaded i now category d =
     d\<lparr>rd_items := map (\<lambda>it. if ri_id it = i then it\<lparr>ri_downloaded := True, ri_downloaded_at := Some now, ri_category := category\<rparr> else it) (rd_items d)\<rparr>"

definition rss_item_count :: "rss_db \<Rightarrow> nat" where
  "rss_item_count d = length (rd_items d)"

definition rss_items_prune :: "(rss_item list \<Rightarrow> rss_item list) \<Rightarrow> nat \<Rightarrow> rss_db \<Rightarrow> nat \<times> rss_db" where
  "rss_items_prune arrange keep d =
     (let ids = map ri_id (sql_limit keep (by_seen arrange (rd_items d))); kept = filter (\<lambda>it. ri_id it \<in> set ids) (rd_items d)
      in (length (rd_items d) - length kept, d\<lparr>rd_items := kept\<rparr>))"

definition rule_to_row :: "rss_rule \<Rightarrow> rule_row" where
  "rule_to_row r = \<lparr>rr_id = ru_id r, rr_name = ru_name r, rr_feed_name = join_with '','' (ru_feed_names r), rr_category = ru_category r,
     rr_priority = ru_priority r, rr_match_regex = ru_match_regex r, rr_enabled = ru_enabled r\<rparr>"

definition row_to_rule :: "rule_row \<Rightarrow> rss_rule" where
  "row_to_rule r = \<lparr>ru_id = rr_id r, ru_name = rr_name r,
     ru_feed_names = filter (\<lambda>s. s \<noteq> []) (map trim (split_on (CHR '','') (rr_feed_name r))),
     ru_category = rr_category r, ru_priority = rr_priority r, ru_match_regex = rr_match_regex r, ru_enabled = rr_enabled r\<rparr>"

text \<open>A plain \<open>INSERT\<close> of an id that exists violates the primary key.\<close>

definition rss_rule_insert :: "rss_rule \<Rightarrow> rss_db \<Rightarrow> unit res \<times> rss_db" where
  "rss_rule_insert r d =
     (if ru_id r \<in> set (map rr_id (rd_rules d)) then (Inl (Bail ''UNIQUE constraint failed: rss_rules.id''), d)
      else (Inr (), d\<lparr>rd_rules := rd_rules d @ [rule_to_row r]\<rparr>))"

definition rss_rule_list :: "(rule_row list \<Rightarrow> rule_row list) \<Rightarrow> rss_db \<Rightarrow> rss_rule list" where
  "rss_rule_list arrange d = map row_to_rule (sort_key (\<lambda>r. text_key (rr_name r)) (arrange (rd_rules d)))"

definition rss_rule_update :: "rss_rule \<Rightarrow> rss_db \<Rightarrow> rss_db" where
  "rss_rule_update r d = d\<lparr>rd_rules := map (\<lambda>row. if rr_id row = ru_id r then rule_to_row r else row) (rd_rules d)\<rparr>"

definition rss_rule_delete :: "string \<Rightarrow> rss_db \<Rightarrow> rss_db" where
  "rss_rule_delete i d = d\<lparr>rd_rules := filter (\<lambda>row. rr_id row \<noteq> i) (rd_rules d)\<rparr>"

subsection \<open>The monitor\<close>

text \<open>What the monitor reads of an entry of \<open>feed_rs\<close>: links with their media type, and media contents with their URL and size.\<close>

record feed_entry =
  fe_id :: string
  fe_title :: "string option"
  fe_links :: "(string \<times> string option) list"
  fe_media :: "(string option \<times> nat option) list list"
  fe_published :: "nat option"
  fe_updated :: "nat option"

definition extract_torrent_url :: "feed_entry \<Rightarrow> string option" where
  "extract_torrent_url e =
     (let or_else = (\<lambda>a b. case a of None \<Rightarrow> b | Some x \<Rightarrow> Some x);
          magnet = map_option fst (find (\<lambda>(h, _). starts_with ''magnet:'' h) (fe_links e));
          torrent = map_option fst (find (\<lambda>(h, m). ends_with ''.torrent'' h \<or> m = Some ''application/x-bittorrent'') (fe_links e));
          media = Option.bind (find (\<lambda>(u, _). case u of None \<Rightarrow> False | Some s \<Rightarrow> ends_with ''.torrent'' s \<or> starts_with ''magnet:'' s) (concat (fe_media e))) fst;
          enclosure = map_option fst (find (\<lambda>(_, m). case m of None \<Rightarrow> False | Some t \<Rightarrow> contains_str ''torrent'' t \<or> contains_str ''magnet'' t) (fe_links e));
          first_link = (case fe_links e of [] \<Rightarrow> None | l # _ \<Rightarrow> Some (fst l))
      in or_else magnet (or_else torrent (or_else media (or_else enclosure first_link))))"

definition entry_title :: "feed_entry \<Rightarrow> string" where
  "entry_title e = unwrap_or [] (fe_title e)"

definition entry_item :: "feed_config \<Rightarrow> nat \<Rightarrow> feed_entry \<Rightarrow> rss_item" where
  "entry_item feed now e =
     \<lparr>ri_id = fe_id e, ri_feed_name = fc_name feed, ri_title = entry_title e, ri_url = extract_torrent_url e,
      ri_published_at = (case fe_published e of None \<Rightarrow> fe_updated e | Some t \<Rightarrow> Some t), ri_first_seen_at = now,
      ri_downloaded = False, ri_downloaded_at = None, ri_category = fc_category feed,
      ri_size_bytes = (case List.map_filter snd (concat (fe_media e)) of [] \<Rightarrow> 0 | n # _ \<Rightarrow> n)\<rparr>"

text \<open>\<open>Regex::new\<close> and \<open>is_match\<close>.\<close>

type_synonym regexes = "string \<Rightarrow> (string \<Rightarrow> bool) option"

definition rule_matches :: "regexes \<Rightarrow> string \<Rightarrow> rss_rule \<Rightarrow> bool" where
  "rule_matches rx title r = (case rx (ru_match_regex r) of None \<Rightarrow> False | Some m \<Rightarrow> m title)"

definition passes_filter :: "regexes \<Rightarrow> feed_config \<Rightarrow> string \<Rightarrow> bool" where
  "passes_filter rx feed title = (case Option.bind (fc_filter_regex feed) rx of None \<Rightarrow> True | Some m \<Rightarrow> m title)"

text \<open>The category of a download, if the item is to be downloaded at all.\<close>

definition should_download :: "regexes \<Rightarrow> feed_config \<Rightarrow> rss_rule list \<Rightarrow> string \<Rightarrow> string option option" where
  "should_download rx feed rules title =
     (case find (rule_matches rx title) rules of
        Some r \<Rightarrow> Some (case ru_category r of None \<Rightarrow> fc_category feed | Some c \<Rightarrow> Some c)
      | None \<Rightarrow> if fc_auto_download feed \<and> fc_filter_regex feed = None then Some (fc_category feed) else None)"

definition feed_rules :: "feed_config \<Rightarrow> rss_rule list \<Rightarrow> rss_rule list" where
  "feed_rules feed rules = filter (\<lambda>r. ru_enabled r \<and> fc_name feed \<in> set (ru_feed_names r)) rules"

text \<open>What surrounds one entry: the times, whether each statement of the database works, and the addition.\<close>

record ('s, 'f) entry_env =
  ee_now :: nat
  ee_exists_ok :: bool
  ee_upsert_ok :: bool
  ee_mark_ok :: bool
  ee_mark_now :: nat
  ee_surroundings :: "('s, 'f) surroundings"
  ee_http :: "string \<Rightarrow> torrent_meta res"
  ee_resolve :: resolve_outcome

type_synonym ('s, 'f, 'p) rss_state = "rss_db \<times> ('s, 'f, 'p) session"

definition rss_add_torrent ::
  "('s, 'f) session_params \<Rightarrow> session_config \<Rightarrow> 'p persistence_ops \<Rightarrow> ('s, 'f) entry_env \<Rightarrow> string \<Rightarrow> string option \<Rightarrow> ('s, 'f, 'p, add_torrent_response) ses" where
  "rss_add_torrent X C P v url category =
     session_add_torrent X C P (ee_surroundings v) True (ee_http v) (ee_resolve v) (AddUrl url)
       (Some (add_options_default\<lparr>ao_overwrite := True, ao_category := category\<rparr>))"

text \<open>The body of the loop over the entries of a feed.\<close>

definition check_entry ::
  "('s, 'f) session_params \<Rightarrow> session_config \<Rightarrow> 'p persistence_ops \<Rightarrow> regexes \<Rightarrow> feed_config \<Rightarrow> rss_rule list \<Rightarrow> ('s, 'f) entry_env \<times> feed_entry
   \<Rightarrow> ('s, 'f, 'p) rss_state \<Rightarrow> ('s, 'f, 'p) rss_state" where
  "check_entry X C P rx feed rules = (\<lambda>(v, e) (d, S).
     if ee_exists_ok v \<and> rss_item_exists (fe_id e) d then (d, S)
     else let d1 = (if ee_upsert_ok v then rss_item_upsert (entry_item feed (ee_now v) e) d else d) in
       case extract_torrent_url e of
         None \<Rightarrow> (d1, S)
       | Some url \<Rightarrow>
         if \<not> passes_filter rx feed (entry_title e) then (d1, S)
         else (case should_download rx feed rules (entry_title e) of
                 None \<Rightarrow> (d1, S)
               | Some category \<Rightarrow>
                 (case rss_add_torrent X C P v url category S of
                    (Inl _, S1) \<Rightarrow> (d1, S1)
                  | (Inr _, S1) \<Rightarrow> (if ee_mark_ok v then rss_item_mark_downloaded (fe_id e) (ee_mark_now v) category d1 else d1, S1))))"

text \<open>Checking a feed: \<open>fetched\<close> is what the request and the parser give, \<open>rules_ok\<close> whether the rules could be read.\<close>

definition check_feed ::
  "('s, 'f) session_params \<Rightarrow> session_config \<Rightarrow> 'p persistence_ops \<Rightarrow> regexes \<Rightarrow> (rule_row list \<Rightarrow> rule_row list) \<Rightarrow> feed_config \<Rightarrow> bool
   \<Rightarrow> (('s, 'f) entry_env \<times> feed_entry) list res \<Rightarrow> ('s, 'f, 'p) rss_state \<Rightarrow> unit res \<times> ('s, 'f, 'p) rss_state" where
  "check_feed X C P rx arrange feed rules_ok fetched st =
     (case fetched of
        Inl e \<Rightarrow> (Inl e, st)
      | Inr es \<Rightarrow> (Inr (), fold (check_entry X C P rx feed (feed_rules feed (if rules_ok then rss_rule_list arrange (fst st) else []))) es st))"

definition prune_items :: "(rss_item list \<Rightarrow> rss_item list) \<Rightarrow> nat option \<Rightarrow> bool \<Rightarrow> bool \<Rightarrow> rss_db \<Rightarrow> rss_db" where
  "prune_items arrange history_limit count_ok prune_ok d =
     (let limit = unwrap_or 500 history_limit
      in if count_ok \<and> limit < rss_item_count d \<and> prune_ok then snd (rss_items_prune arrange limit d) else d)"

text \<open>One round of \<open>run\<close>: what every enabled feed gives, the state, and how long the monitor sleeps. \<open>arr\<close> are the two orders of the database.\<close>

definition poll_interval :: "feed_config list \<Rightarrow> nat" where
  "poll_interval feeds = (case map fc_poll_interval_secs (filter fc_enabled feeds) of [] \<Rightarrow> 900 | n # ns \<Rightarrow> Min (set (n # ns)))"

definition monitor_round ::
  "('s, 'f) session_params \<Rightarrow> session_config \<Rightarrow> 'p persistence_ops \<Rightarrow> regexes \<Rightarrow> (rule_row list \<Rightarrow> rule_row list) \<Rightarrow> (rss_item list \<Rightarrow> rss_item list)
   \<Rightarrow> nat option \<Rightarrow> bool \<times> bool \<times> bool \<Rightarrow> (feed_config \<Rightarrow> bool \<times> (('s, 'f) entry_env \<times> feed_entry) list res) \<Rightarrow> ('s, 'f, 'p) rss_state
   \<Rightarrow> ('s, 'f, 'p) rss_state \<times> nat" where
  "monitor_round X C P rx arrange_rules arrange_items history_limit = (\<lambda>(feeds_ok, count_ok, prune_ok) fetch (d, S).
     let feeds = (if feeds_ok then feed_list d else [])
     in if feeds = [] then ((d, S), 60)
        else let (d1, S1) = fold (\<lambda>f st. case fetch f of (ok, fetched) \<Rightarrow> snd (check_feed X C P rx arrange_rules f ok fetched st)) (filter fc_enabled feeds) (d, S)
             in ((prune_items arrange_items history_limit count_ok prune_ok d1, S1), poll_interval feeds))"

subsection \<open>The handlers\<close>

text \<open>The first argument of a handler says which of its statements the database can execute.\<close>

definition sql_error :: api_error where
  "sql_error = from_anyhow (Bail ''database error'')"

definition rss_disabled :: api_error where
  "rss_disabled = from_anyhow (Bail ''RSS is not enabled'')"

type_synonym 'a rss_handler = "rss_db option \<Rightarrow> 'a api \<times> rss_db option"

text \<open>\<open>rss_db(&state)?\<close>, then a statement.\<close>

definition on_rss_db :: "(rss_db \<Rightarrow> 'a api \<times> rss_db) \<Rightarrow> 'a rss_handler" where
  "on_rss_db f o' = (case o' of None \<Rightarrow> (Inl rss_disabled, None) | Some d \<Rightarrow> map_prod id Some (f d))"

definition sql :: "bool \<Rightarrow> (rss_db \<Rightarrow> rss_db) \<Rightarrow> rss_db \<Rightarrow> unit api \<times> rss_db" where
  "sql ok f d = (if ok then (Inr (), f d) else (Inl sql_error, d))"

definition h_rss_feeds_list :: "bool \<Rightarrow> feed_config list rss_handler" where
  "h_rss_feeds_list ok = on_rss_db (\<lambda>d. (if ok then Inr (feed_list d) else Inl sql_error, d))"

definition h_rss_feed_add :: "bool \<times> bool \<Rightarrow> feed_config \<Rightarrow> unit rss_handler" where
  "h_rss_feed_add = (\<lambda>(list_ok, upsert_ok) feed. on_rss_db (\<lambda>d.
     if \<not> list_ok then (Inl sql_error, d)
     else if list_ex (\<lambda>f. fc_name f = fc_name feed) (feed_list d) then (Inl (from_anyhow (Bail ''Feed already exists'')), d)
     else sql upsert_ok (feed_upsert feed) d))"

definition h_rss_feed_update :: "bool \<times> bool \<Rightarrow> string \<Rightarrow> feed_config \<Rightarrow> unit rss_handler" where
  "h_rss_feed_update = (\<lambda>(delete_ok, upsert_ok) name feed. on_rss_db (\<lambda>d.
     if fc_name feed \<noteq> name
     then (if delete_ok then sql upsert_ok (feed_upsert feed) (feed_delete name d) else (Inl sql_error, d))
     else sql upsert_ok (feed_upsert feed) d))"

definition h_rss_feed_delete :: "bool \<Rightarrow> string \<Rightarrow> unit rss_handler" where
  "h_rss_feed_delete ok name = on_rss_db (sql ok (feed_delete name))"

definition h_rss_items_list :: "bool \<Rightarrow> (rss_item list \<Rightarrow> rss_item list) \<Rightarrow> string option \<Rightarrow> nat option \<Rightarrow> rss_item list rss_handler" where
  "h_rss_items_list ok arrange feed limit =
     on_rss_db (\<lambda>d. (if ok then Inr (rss_items_list arrange feed (unwrap_or 500 limit) d) else Inl sql_error, d))"

definition h_rss_item_download ::
  "('s, 'f) session_params \<Rightarrow> session_config \<Rightarrow> 'p persistence_ops \<Rightarrow> bool \<Rightarrow> ('s, 'f) entry_env \<Rightarrow> string
   \<Rightarrow> rss_db option \<times> ('s, 'f, 'p) session \<Rightarrow> unit api \<times> rss_db option \<times> ('s, 'f, 'p) session" where
  "h_rss_item_download X C P get_ok v i = (\<lambda>(o', S).
     case o' of
       None \<Rightarrow> (Inl rss_disabled, None, S)
     | Some d \<Rightarrow>
       if \<not> get_ok then (Inl sql_error, Some d, S)
       else (case rss_item_get i d of
               None \<Rightarrow> (Inl (from_anyhow (Bail ''RSS item not found'')), Some d, S)
             | Some item \<Rightarrow>
               (case ri_url item of
                  None \<Rightarrow> (Inl (from_anyhow (Bail ''No download URL for this item'')), Some d, S)
                | Some url \<Rightarrow>
                  (case rss_add_torrent X C P v url (ri_category item) S of
                     (Inl e, S1) \<Rightarrow> (Inl (from_anyhow e), Some d, S1)
                   | (Inr _, S1) \<Rightarrow> (Inr (), Some (if ee_mark_ok v then rss_item_mark_downloaded i (ee_mark_now v) (ri_category item) d else d), S1)))))"

record rule_body =
  rb_name :: string
  rb_feed_names :: "string list"
  rb_category :: "string option"
  rb_priority :: "int option"
  rb_match_regex :: string
  rb_enabled :: "bool option"

definition body_to_rule :: "string \<Rightarrow> rule_body \<Rightarrow> rss_rule" where
  "body_to_rule i b = \<lparr>ru_id = i, ru_name = rb_name b, ru_feed_names = rb_feed_names b, ru_category = rb_category b,
     ru_priority = unwrap_or 1 (rb_priority b), ru_match_regex = rb_match_regex b, ru_enabled = unwrap_or True (rb_enabled b)\<rparr>"

definition h_rss_rules_list :: "bool \<Rightarrow> (rule_row list \<Rightarrow> rule_row list) \<Rightarrow> rss_rule list rss_handler" where
  "h_rss_rules_list ok arrange = on_rss_db (\<lambda>d. (if ok then Inr (rss_rule_list arrange d) else Inl sql_error, d))"

definition invalid_regex :: api_error where
  "invalid_regex = from_anyhow (Bail ''Invalid regex'')"

text \<open>\<open>uuid\<close> is the new id of the rule.\<close>

definition h_rss_rule_add :: "bool \<Rightarrow> regexes \<Rightarrow> string \<Rightarrow> rule_body \<Rightarrow> unit rss_handler" where
  "h_rss_rule_add ok rx uuid b o' =
     (if rx (rb_match_regex b) = None then (Inl invalid_regex, o')
      else on_rss_db (\<lambda>d. if ok then map_prod (map_err from_anyhow) id (rss_rule_insert (body_to_rule uuid b) d) else (Inl sql_error, d)) o')"

definition h_rss_rule_update :: "bool \<Rightarrow> regexes \<Rightarrow> string \<Rightarrow> rule_body \<Rightarrow> unit rss_handler" where
  "h_rss_rule_update ok rx i b o' =
     (if rx (rb_match_regex b) = None then (Inl invalid_regex, o')
      else on_rss_db (sql ok (rss_rule_update (body_to_rule i b))) o')"

definition h_rss_rule_delete :: "bool \<Rightarrow> string \<Rightarrow> unit rss_handler" where
  "h_rss_rule_delete ok i = on_rss_db (sql ok (rss_rule_delete i))"

definition h_rss_settings_get :: "nat option \<Rightarrow> nat" where
  "h_rss_settings_get history_limit = unwrap_or 500 history_limit"

subsection \<open>Names of feeds in a rule\<close>

definition plain_name :: "string \<Rightarrow> bool" where
  "plain_name n \<longleftrightarrow> n \<noteq> [] \<and> CHR '','' \<notin> set n \<and> trim n = n"

lemma dropWhile_id: "dropWhile P xs = xs \<longleftrightarrow> xs = [] \<or> \<not> P (hd xs)"
proof (cases xs)
  case (Cons x ys)
  have "dropWhile P ys \<noteq> x # ys" by (metis impossible_Cons length_dropWhile_le)
  then show ?thesis using Cons by simp
qed simp

lemma trim_subset: "set (trim s) \<subseteq> set s"
  by (auto simp: trim_def dest!: set_dropWhileD)

lemma trim_idem: "trim (trim s) = trim s"
proof -
  define u where "u = dropWhile is_space s"
  define w where "w = dropWhile is_space (rev u)"
  have u: "u = [] \<or> \<not> is_space (hd u)" using hd_dropWhile [of is_space s] by (auto simp: u_def)
  have w: "w = [] \<or> \<not> is_space (hd w)" using hd_dropWhile [of is_space "rev u"] by (auto simp: w_def)
  obtain v where v: "u = rev w @ v" using takeWhile_dropWhile_id [of is_space "rev u"] by (metis rev_append rev_rev_ident w_def)
  have "rev w = [] \<or> \<not> is_space (hd (rev w))" using u v by (cases "rev w") auto
  then have "dropWhile is_space (rev w) = rev w" by (simp add: dropWhile_id)
  moreover have "dropWhile is_space w = w" using w by (simp add: dropWhile_id)
  ultimately show ?thesis by (simp add: trim_def u_def [symmetric] w_def [symmetric])
qed

lemma split_on_parts: "x \<in> set (split_on c s) \<Longrightarrow> c \<notin> set x"
  by (induction c s arbitrary: x rule: split_on.induct) (auto dest: list.set_sel(2) [rotated] split: list.splits if_splits)

lemma row_to_rule_names: "n \<in> set (ru_feed_names (row_to_rule row)) \<Longrightarrow> plain_name n"
  using trim_subset split_on_parts by (fastforce simp: row_to_rule_def plain_name_def trim_idem)

lemma row_rule_row: "row_to_rule (rule_to_row r) = r \<longleftrightarrow> (\<forall>n \<in> set (ru_feed_names r). plain_name n)"
proof
  assume "row_to_rule (rule_to_row r) = r"
  then show "\<forall>n \<in> set (ru_feed_names r). plain_name n" using row_to_rule_names by metis
next
  assume p: "\<forall>n \<in> set (ru_feed_names r). plain_name n"
  have "filter (\<lambda>s. s \<noteq> []) (map trim (split_on (CHR '','') (join_with '','' (ru_feed_names r)))) = ru_feed_names r"
  proof (cases "ru_feed_names r = []")
    case True
    then show ?thesis by (simp add: trim_def)
  next
    case False
    then have "split_on (CHR '','') (join_with '','' (ru_feed_names r)) = ru_feed_names r"
      using p by (intro split_join) (auto simp: plain_name_def)
    moreover have "map trim (ru_feed_names r) = ru_feed_names r" using p by (intro map_idI) (simp add: plain_name_def)
    ultimately show ?thesis using p by (simp add: filter_id_conv plain_name_def)
  qed
  then show "row_to_rule (rule_to_row r) = r" by (simp add: row_to_rule_def rule_to_row_def)
qed

text \<open>
  A rule that was added is read back from the database as it was given if and only if every name of a feed in it is not empty, has no
  comma and no space at its ends; with another name it is stored without complaint, for other feeds.
\<close>

theorem rss_rule_roundtrip:
  assumes "arranges arrange" and "ru_id r \<notin> set (map rr_id (rd_rules d))" and "rss_rule_insert r d = (res, d')"
  shows "res = Inr () \<and> (r \<in> set (rss_rule_list arrange d') \<longleftrightarrow> (\<forall>n \<in> set (ru_feed_names r). plain_name n))"
proof -
  have d: "res = Inr ()" "rd_rules d' = rd_rules d @ [rule_to_row r]" using assms(2,3) by (auto simp: rss_rule_insert_def)
  have set: "set (arrange xs) = set xs" for xs using assms(1) by (metis arranges_def set_mset_mset)
  have "r \<in> set (rss_rule_list arrange d') \<longleftrightarrow> (\<exists>row \<in> set (rd_rules d) \<union> {rule_to_row r}. row_to_rule row = r)"
    by (auto simp: rss_rule_list_def set d(2) image_iff eq_commute)
  also have "\<dots> \<longleftrightarrow> row_to_rule (rule_to_row r) = r" using assms(2) by (auto simp: row_to_rule_def)
  finally show ?thesis using d(1) by (simp add: row_rule_row)
qed

subsection \<open>The history\<close>

lemma by_seen_mset: "arranges arrange \<Longrightarrow> mset (by_seen arrange xs) = mset xs"
  by (simp add: by_seen_def arranges_def)

lemma by_seen_sorted: "sorted (map ri_first_seen_at (rev (by_seen arrange xs)))"
  by (simp add: by_seen_def)

text \<open>
  Pruning keeps as many items as it is told to (or all, if there are fewer), and none of those that it drops was seen after one that it keeps.
\<close>

lemma prune_recent:
  assumes "arranges arrange" and "distinct (map ri_id (rd_items d))" and "keep < 2 ^ 63" and "rss_items_prune arrange keep d = (n, d')"
  shows "rss_item_count d' = min keep (rss_item_count d) \<and> n = rss_item_count d - rss_item_count d' \<and> set (rd_items d') \<subseteq> set (rd_items d)
    \<and> (\<forall>a \<in> set (rd_items d'). \<forall>b \<in> set (rd_items d) - set (rd_items d'). ri_first_seen_at b \<le> ri_first_seen_at a)"
proof -
  let ?xs = "by_seen arrange (rd_items d)"
  have ms: "mset ?xs = mset (rd_items d)" by (rule by_seen_mset [OF assms(1)])
  have set: "set ?xs = set (rd_items d)" using ms by (metis set_mset_mset)
  have inj: "inj_on ri_id (set (rd_items d))" and dist: "distinct (rd_items d)" using assms(2) by (auto simp: distinct_map)
  have dx: "distinct ?xs" using dist ms by (metis distinct_count_atmost_1 count_mset mset_eq_imp_distinct_iff)
  have kept: "rd_items d' = filter (\<lambda>it. it \<in> set (take keep ?xs)) (rd_items d)" and n: "n = length (rd_items d) - length (rd_items d')"
  proof -
    have "ri_id it \<in> ri_id ` set (take keep ?xs) \<longleftrightarrow> it \<in> set (take keep ?xs)" if "it \<in> set (rd_items d)" for it
      by (rule inj_on_image_mem_iff [OF inj that]) (metis set set_take_subset)
    then have "filter (\<lambda>it. ri_id it \<in> ri_id ` set (take keep ?xs)) (rd_items d) = filter (\<lambda>it. it \<in> set (take keep ?xs)) (rd_items d)"
      by (intro filter_cong) auto
    then show "rd_items d' = filter (\<lambda>it. it \<in> set (take keep ?xs)) (rd_items d)" "n = length (rd_items d) - length (rd_items d')"
      using assms(3,4) by (auto simp: rss_items_prune_def sql_limit_def Let_def)
  qed
  have s': "set (rd_items d') = set (take keep ?xs)" using set_take_subset [of keep ?xs] by (auto simp: kept set)
  have "length (rd_items d') = card (set (rd_items d'))" using dist distinct_card [of "rd_items d'"] by (simp add: kept)
  also have "\<dots> = min keep (length ?xs)" using dx by (simp add: s' distinct_card)
  also have "length ?xs = length (rd_items d)" using ms by (metis size_mset)
  finally have len: "length (rd_items d') = min keep (length (rd_items d))" by simp
  have "ri_first_seen_at b \<le> ri_first_seen_at a" if a: "a \<in> set (rd_items d')" and b: "b \<in> set (rd_items d) - set (rd_items d')" for a b
  proof -
    have "rev ?xs = rev (drop keep ?xs) @ rev (take keep ?xs)" by (metis append_take_drop_id rev_append)
    then have "sorted (map ri_first_seen_at (rev (drop keep ?xs)) @ map ri_first_seen_at (rev (take keep ?xs)))"
      using by_seen_sorted [of arrange "rd_items d"] by (metis map_append)
    moreover have "a \<in> set (take keep ?xs)" "b \<in> set (drop keep ?xs)"
      using a b set s' by (auto simp: set_append [symmetric] simp del: set_append) (metis UnE append_take_drop_id set_append)
    ultimately show ?thesis by (auto simp: sorted_append)
  qed
  then show ?thesis using len n s' set set_take_subset [of keep ?xs] by (auto simp: rss_item_count_def)
qed

subsection \<open>What is downloaded\<close>

text \<open>The entries with ids that are not known, each id once.\<close>

fun fresh_entries :: "string set \<Rightarrow> ('e \<times> feed_entry) list \<Rightarrow> ('e \<times> feed_entry) list" where
  "fresh_entries known [] = []"
| "fresh_entries known ((v, e) # es) =
     (if fe_id e \<in> known then fresh_entries known es else (v, e) # fresh_entries (insert (fe_id e) known) es)"

definition wanted :: "regexes \<Rightarrow> feed_config \<Rightarrow> rss_rule list \<Rightarrow> 'e \<times> feed_entry \<Rightarrow> ('e \<times> string \<times> string option) option" where
  "wanted rx feed rules = (\<lambda>(v, e).
     Option.bind (extract_torrent_url e) (\<lambda>url. if passes_filter rx feed (entry_title e)
       then map_option (\<lambda>c. (v, url, c)) (should_download rx feed rules (entry_title e)) else None))"

definition known_ids :: "rss_db \<Rightarrow> string set" where
  "known_ids d = set (map ri_id (rd_items d))"

lemma known_ids_ops [simp]:
  "known_ids (rss_item_mark_downloaded i now c d) = known_ids d" "known_ids (rss_item_upsert it d) = insert (ri_id it) (known_ids d)"
  "rss_item_exists i d \<longleftrightarrow> i \<in> known_ids d" "ri_id (entry_item feed now e) = fe_id e"
  by (auto simp: known_ids_def rss_item_mark_downloaded_def rss_item_upsert_def rss_item_exists_def entry_item_def)

lemma check_entry_new:
  assumes "ee_upsert_ok v" and "fe_id e \<notin> known_ids d"
  shows "\<exists>d'. check_entry X C P rx feed rules (v, e) (d, S) = (d', case wanted rx feed rules (v, e) of None \<Rightarrow> S | Some (v', url, c) \<Rightarrow> snd (rss_add_torrent X C P v' url c S))
    \<and> known_ids d' = insert (fe_id e) (known_ids d)"
  using assms
  by (auto simp: check_entry_def wanted_def Let_def split: option.splits sum.splits prod.splits)

lemma fold_check_entry:
  assumes "\<And>v e. (v, e) \<in> set es \<Longrightarrow> ee_exists_ok v \<and> ee_upsert_ok v"
  shows "\<exists>d'. fold (check_entry X C P rx feed rules) es (d, S)
      = (d', fold (\<lambda>(v, url, c) S. snd (rss_add_torrent X C P v url c S)) (List.map_filter (wanted rx feed rules) (fresh_entries (known_ids d) es)) S)
    \<and> known_ids d' = known_ids d \<union> fe_id ` snd ` set es"
  using assms
proof (induction es arbitrary: d S)
  case (Cons ve es)
  obtain v e where ve: "ve = (v, e)" by fastforce
  have ok: "ee_exists_ok v" "ee_upsert_ok v" using Cons.prems [of v e] ve by auto
  show ?case
  proof (cases "fe_id e \<in> known_ids d")
    case True
    then have "check_entry X C P rx feed rules ve (d, S) = (d, S)" using ok ve by (simp add: check_entry_def)
    then show ?thesis using Cons.IH [of d S] Cons.prems True ve by (auto simp: insert_absorb)
  next
    case False
    let ?S = "case wanted rx feed rules (v, e) of None \<Rightarrow> S | Some (v', url, c) \<Rightarrow> snd (rss_add_torrent X C P v' url c S)"
    obtain d1 where d1: "check_entry X C P rx feed rules (v, e) (d, S) = (d1, ?S)" "known_ids d1 = insert (fe_id e) (known_ids d)"
      using check_entry_new [OF ok(2) False] by blast
    then show ?thesis using Cons.IH [of d1 ?S] Cons.prems False ve by (auto simp: List.map_filter_simps split: option.splits)
  qed
qed (simp add: List.map_filter_simps)

text \<open>
  C24. With a working database, checking a feed adds, in the order of the feed, exactly the torrents of those entries whose id is new (neither in the
  database nor earlier in the feed), that have a link, pass the filter of the feed and match an enabled rule for this feed, or any if the feed downloads all
  and has no filter; the category is that of the first matching rule in the order of their names, else that of the feed. Afterwards the ids are
  known, so that what is in the database is never added twice.
\<close>

theorem rss_feed_downloads:
  assumes "\<And>v e. (v, e) \<in> set es \<Longrightarrow> ee_exists_ok v \<and> ee_upsert_ok v"
    and "check_feed X C P rx arrange feed True (Inr es) (d, S) = (r, d', S')"
  shows "r = Inr () \<and> known_ids d' = known_ids d \<union> fe_id ` snd ` set es
    \<and> S' = fold (\<lambda>(v, url, c) S. snd (rss_add_torrent X C P v url c S))
             (List.map_filter (wanted rx feed (feed_rules feed (rss_rule_list arrange d))) (fresh_entries (known_ids d) es)) S
    \<and> (\<forall>v e url c. wanted rx feed (feed_rules feed (rss_rule_list arrange d)) (v :: ('s, 'f) entry_env, e) = Some (v, url, c) \<longleftrightarrow>
         extract_torrent_url e = Some url
         \<and> (\<forall>f m. fc_filter_regex feed = Some f \<longrightarrow> rx f = Some m \<longrightarrow> m (entry_title e))
         \<and> (case find (\<lambda>r. ru_enabled r \<and> fc_name feed \<in> set (ru_feed_names r) \<and> rule_matches rx (entry_title e) r) (rss_rule_list arrange d) of
              Some r \<Rightarrow> c = (if ru_category r = None then fc_category feed else ru_category r)
            | None \<Rightarrow> fc_auto_download feed \<and> fc_filter_regex feed = None \<and> c = fc_category feed))"
proof -
  have find: "find Q (filter R xs) = find (\<lambda>x. R x \<and> Q x) xs" for Q R and xs :: "rss_rule list" by (induction xs) auto
  have "wanted rx feed (feed_rules feed (rss_rule_list arrange d)) (v, e) = Some (v, url, c) \<longleftrightarrow>
      extract_torrent_url e = Some url \<and> passes_filter rx feed (entry_title e)
      \<and> should_download rx feed (feed_rules feed (rss_rule_list arrange d)) (entry_title e) = Some c" for v :: "('s, 'f) entry_env" and e url c
    by (auto simp: wanted_def bind_eq_Some_conv split: if_splits)
  moreover have "passes_filter rx feed t \<longleftrightarrow> (\<forall>f m. fc_filter_regex feed = Some f \<longrightarrow> rx f = Some m \<longrightarrow> m t)" for t
    by (auto simp: passes_filter_def split: option.splits bind_splits)
  moreover obtain d1 where "fold (check_entry X C P rx feed (feed_rules feed (rss_rule_list arrange d))) es (d, S)
      = (d1, fold (\<lambda>(v, url, c) S. snd (rss_add_torrent X C P v url c S))
             (List.map_filter (wanted rx feed (feed_rules feed (rss_rule_list arrange d))) (fresh_entries (known_ids d) es)) S)"
      "known_ids d1 = known_ids d \<union> fe_id ` snd ` set es"
    using fold_check_entry [where es = es and X = X and C = C and P = P and rx = rx and feed = feed
        and rules = "feed_rules feed (rss_rule_list arrange d)" and d = d and S = S] assms(1) by blast
  ultimately show ?thesis
    using assms(2) by (auto simp: check_feed_def should_download_def feed_rules_def find conj_assoc split: option.splits if_splits)
qed

subsection \<open>Reachable states\<close>

text \<open>Everything that happens to the tables and the session: entries of any feed with any rules, pruning, requests, and the session itself.\<close>

inductive rss_step ::
  "('s, 'f) session_params \<Rightarrow> session_config \<Rightarrow> bool \<Rightarrow> ('s, 'f, 'p) rss_state \<Rightarrow> ('s, 'f, 'p) rss_state \<Rightarrow> bool" for X C strict where
  rt_entry: "rss_step X C strict st (check_entry X C P rx feed rules ve st)"
| rt_prune: "rss_step X C strict (d, S) (prune_items arrange limit count_ok prune_ok d, S)"
| rt_feed_add: "h_rss_feed_add oks feed (Some d) = (r, Some d') \<Longrightarrow> rss_step X C strict (d, S) (d', S)"
| rt_feed_update: "h_rss_feed_update oks name feed (Some d) = (r, Some d') \<Longrightarrow> rss_step X C strict (d, S) (d', S)"
| rt_feed_delete: "h_rss_feed_delete ok name (Some d) = (r, Some d') \<Longrightarrow> rss_step X C strict (d, S) (d', S)"
| rt_rule_add: "h_rss_rule_add ok rx uuid body (Some d) = (r, Some d') \<Longrightarrow> rss_step X C strict (d, S) (d', S)"
| rt_rule_update: "h_rss_rule_update ok rx i body (Some d) = (r, Some d') \<Longrightarrow> rss_step X C strict (d, S) (d', S)"
| rt_rule_delete: "h_rss_rule_delete ok i (Some d) = (r, Some d') \<Longrightarrow> rss_step X C strict (d, S) (d', S)"
| rt_download: "h_rss_item_download X C P get_ok v i (Some d, S) = (r, Some d', S') \<Longrightarrow> rss_step X C strict (d, S) (d', S')"
| rt_session: "session_step X C strict S S' \<Longrightarrow> rss_step X C strict (d, S) (d, S')"

definition rss_init :: "('s, 'f, 'p) rss_state \<Rightarrow> bool" where
  "rss_init = (\<lambda>(d, S). d = rss_db_new \<and> session_init S)"

definition tables_ok :: "rss_db \<Rightarrow> bool" where
  "tables_ok d \<longleftrightarrow> distinct (map fc_name (rd_feeds d)) \<and> distinct (map ri_id (rd_items d)) \<and> distinct (map rr_id (rd_rules d))
     \<and> (\<forall>it \<in> set (rd_items d). ri_downloaded it \<longleftrightarrow> ri_downloaded_at it \<noteq> None)"

definition rss_inv :: "('s, 'f) session_params \<Rightarrow> session_config \<Rightarrow> bool \<Rightarrow> ('s, 'f, 'p) rss_state \<Rightarrow> bool" where
  "rss_inv X C strict = (\<lambda>(d, S). tables_ok d \<and> reach session_init (session_step X C strict) S)"

lemma mark_ids: "map ri_id (rd_items (rss_item_mark_downloaded i now c d)) = map ri_id (rd_items d)"
  by (simp add: rss_item_mark_downloaded_def)

lemma tables_ok_items:
  assumes "tables_ok d"
  shows "tables_ok (rss_item_upsert (entry_item feed now e) d)" "tables_ok (rss_item_mark_downloaded i now c d)" "tables_ok (prune_items arrange limit a b d)"
proof -
  show "tables_ok (rss_item_upsert (entry_item feed now e) d)"
    using assms by (auto simp: tables_ok_def rss_item_upsert_def known_ids_def entry_item_def)
  show "tables_ok (rss_item_mark_downloaded i now c d)"
    using assms mark_ids [of i now c d] by (auto simp: tables_ok_def rss_item_mark_downloaded_def simp del: map_map)
  show "tables_ok (prune_items arrange limit a b d)"
    using assms by (auto simp: tables_ok_def prune_items_def rss_items_prune_def Let_def intro: distinct_map_filter)
qed

lemma tables_ok_feeds:
  assumes "tables_ok d"
  shows "tables_ok (feed_delete name d)" "tables_ok (feed_upsert feed d)"
  using assms by (auto simp: tables_ok_def feed_delete_def feed_upsert_def intro: distinct_map_filter)

lemma tables_ok_rules:
  assumes "tables_ok d"
  shows "rss_rule_insert rule d = (r, d') \<Longrightarrow> tables_ok d'" "tables_ok (rss_rule_update rule d)" "tables_ok (rss_rule_delete i d)"
proof -
  show "rss_rule_insert rule d = (r, d') \<Longrightarrow> tables_ok d'" and "tables_ok (rss_rule_delete i d)"
    using assms by (auto simp: tables_ok_def rss_rule_insert_def rss_rule_delete_def rule_to_row_def split: if_splits intro: distinct_map_filter)
  have "map rr_id (rd_rules (rss_rule_update rule d)) = map rr_id (rd_rules d)" by (simp add: rss_rule_update_def rule_to_row_def)
  then show "tables_ok (rss_rule_update rule d)" using assms by (simp add: tables_ok_def rss_rule_update_def del: map_map)
qed

lemmas tables_ok_ops = tables_ok_items tables_ok_feeds tables_ok_rules

lemma rss_add_reach:
  "reach session_init (session_step X C strict) S \<Longrightarrow> rss_add_torrent X C P v url c S = (r, S') \<Longrightarrow> reach session_init (session_step X C strict) S'"
  unfolding rss_add_torrent_def by (rule add_torrent_reach)

lemma check_entry_inv:
  assumes "rss_inv X C strict st"
  shows "rss_inv X C strict (check_entry X C P rx feed rules ve st)"
proof -
  obtain d S v e where st: "st = (d, S)" "ve = (v, e)" by fastforce
  let ?d = "if ee_upsert_ok v then rss_item_upsert (entry_item feed (ee_now v) e) d else d"
  have "tables_ok ?d" using assms st tables_ok_items(1) by (simp add: rss_inv_def)
  then show ?thesis
    using assms st by (auto simp: check_entry_def rss_inv_def Let_def tables_ok_items(2) intro: rss_add_reach split: option.splits prod.splits sum.splits)
qed

interpretation rss: invariant_system rss_init "rss_step X C strict" "rss_inv X C strict" for X C strict
proof
  fix st :: "('a, 'b, 'c) rss_state" assume "rss_init st"
  then show "rss_inv X C strict st" by (auto simp: rss_init_def rss_inv_def tables_ok_def rss_db_new_def intro: reach_init)
next
  fix st t :: "('a, 'b, 'c) rss_state" assume inv: "rss_inv X C strict st" and step: "rss_step X C strict st t"
  show "rss_inv X C strict t"
    using step inv
  proof cases
    case (rt_entry P rx feed rules ve)
    then show ?thesis using check_entry_inv [OF inv] by simp
  next
    case (rt_download P get_ok v i d S r d' S')
    then show ?thesis
      using inv by (auto simp: rss_inv_def h_rss_item_download_def tables_ok_items(2) intro: rss_add_reach split: if_splits option.splits prod.splits sum.splits)
  qed (use inv in \<open>auto simp: rss_inv_def h_rss_feed_add_def h_rss_feed_update_def h_rss_feed_delete_def h_rss_rule_add_def h_rss_rule_update_def
        h_rss_rule_delete_def on_rss_db_def sql_def map_prod_def tables_ok_ops intro: reach_step split: if_splits prod.splits\<close>)
qed

text \<open>
  Whatever the monitor, the HTTP handlers and the rest of the program do in whatever order, names of feeds and ids of items and rules stay
  unique, an item has a time of download exactly when it is marked as downloaded, and the session stays one that its own steps reach.
\<close>

theorem rss_state_consistent:
  assumes "reach rss_init (rss_step X C strict) (d, S)"
  shows "tables_ok d \<and> reach session_init (session_step X C strict) S"
  using rss.reach_inv [OF assms] by (simp add: rss_inv_def)

text \<open>After a round of the monitor with a working database there are at most as many items as the limit, 500 without one.\<close>

theorem rss_history_bounded:
  assumes "reach rss_init (rss_step X C strict) (d, S)" and "arranges arrange_items" and "\<And>n. limit = Some n \<Longrightarrow> n < 2 ^ 63" and "feed_list d \<noteq> []"
    and "monitor_round X C P rx arrange_rules arrange_items limit (True, True, True) fetch (d, S) = ((d', S'), secs)"
  shows "rss_item_count d' \<le> unwrap_or 500 limit"
proof -
  let ?f = "\<lambda>f st. case fetch f of (ok, fetched) \<Rightarrow> snd (check_feed X C P rx arrange_rules f ok fetched st)"
  have feed: "rss_inv X C strict (?f f st)" if "rss_inv X C strict st" for f st
  proof -
    have "rss_inv X C strict (fold (check_entry X C P rx f rules) es st)" for es rules
      using that by (induction es arbitrary: st) (auto simp: check_entry_inv)
    then show ?thesis using that by (auto simp: check_feed_def split: prod.splits sum.splits)
  qed
  have feeds: "rss_inv X C strict (fold ?f fs st)" if "rss_inv X C strict st" for fs st
    using that by (induction fs arbitrary: st) (auto simp: feed)
  obtain d1 S1 where d1: "fold ?f (filter fc_enabled (feed_list d)) (d, S) = (d1, S1)" by fastforce
  then have "tables_ok d1" using feeds [OF rss.reach_inv [OF assms(1)], of "filter fc_enabled (feed_list d)"] by (simp add: rss_inv_def)
  then have dist: "distinct (map ri_id (rd_items d1))" by (simp add: tables_ok_def)
  have limit: "unwrap_or 500 limit < 2 ^ 63" using assms(3) by (cases limit) (auto simp: unwrap_or_def)
  have "rss_item_count (prune_items arrange_items limit True True d1) \<le> unwrap_or 500 limit"
  proof (cases "unwrap_or 500 limit < rss_item_count d1")
    case True
    have "rss_item_count (snd (rss_items_prune arrange_items (unwrap_or 500 limit) d1)) = min (unwrap_or 500 limit) (rss_item_count d1)"
      using prune_recent [OF assms(2) dist limit surjective_pairing] by simp
    then show ?thesis using True by (simp add: prune_items_def Let_def)
  qed (simp add: prune_items_def Let_def)
  then show ?thesis using assms(4,5) d1 by (auto simp: monitor_round_def Let_def)
qed

subsection \<open>Examples\<close>

definition ex_feed :: feed_config where
  "ex_feed = \<lparr>fc_name = ''f'', fc_url = ''u'', fc_poll_interval_secs = 900, fc_category = None, fc_filter_regex = None, fc_enabled = True,
     fc_auto_download = False\<rparr>"

definition ex_rule :: "string \<Rightarrow> rss_rule" where
  "ex_rule n = \<lparr>ru_id = ''r'', ru_name = ''rule'', ru_feed_names = [n], ru_category = Some ''c'', ru_priority = 1, ru_match_regex = ''x'', ru_enabled = True\<rparr>"

definition ex_rss_entry :: "string \<Rightarrow> string \<Rightarrow> feed_entry" where
  "ex_rss_entry i title = \<lparr>fe_id = i, fe_title = Some title, fe_links = [(''magnet:m'', None)], fe_media = [], fe_published = None, fe_updated = None\<rparr>"

definition ex_entry_env :: "(byte list fs_storage, unit) entry_env" where
  "ex_entry_env = \<lparr>ee_now = 1, ee_exists_ok = True, ee_upsert_ok = True, ee_mark_ok = True, ee_mark_now = 2, ee_surroundings = ex_surroundings,
     ee_http = (\<lambda>_. Inl (Bail ''no'')), ee_resolve = None\<rparr>"

definition ex_rss_db :: rss_db where
  "ex_rss_db = snd (rss_rule_insert (ex_rule ''f'') (feed_upsert ex_feed rss_db_new))"

abbreviation ex_rx :: regexes where
  "ex_rx \<equiv> \<lambda>r. Some (\<lambda>t. t = r)"

text \<open>Of two entries one matches; a third one repeats an id.\<close>

theorem rss_feed_downloads_witness:
  "snd (snd (check_feed ex_params ex_config ex_store_ops ex_rx (\<lambda>x. x) ex_feed True
       (Inr [(ex_entry_env, ex_rss_entry ''1'' ''x''), (ex_entry_env, ex_rss_entry ''2'' ''y''), (ex_entry_env, ex_rss_entry ''1'' ''x'')]) (ex_rss_db, ex_session)))
     = snd (rss_add_torrent ex_params ex_config ex_store_ops ex_entry_env ''magnet:m'' (Some ''c'') ex_session)"
proof -
  let ?es = "[(ex_entry_env, ex_rss_entry ''1'' ''x''), (ex_entry_env, ex_rss_entry ''2'' ''y''), (ex_entry_env, ex_rss_entry ''1'' ''x'')]"
  have rules: "feed_rules ex_feed (rss_rule_list (\<lambda>x. x) ex_rss_db) = [ex_rule ''f'']"
    by (simp add: feed_rules_def rss_rule_list_def ex_rss_db_def rss_rule_insert_def feed_upsert_def rss_db_new_def ex_feed_def ex_rule_def
        rule_to_row_def row_to_rule_def trim_def is_space_def)
  have known: "known_ids ex_rss_db = {}"
    by (simp add: known_ids_def ex_rss_db_def rss_rule_insert_def feed_upsert_def rss_db_new_def)
  have e: "extract_torrent_url (ex_rss_entry i t) = Some ''magnet:m''" "entry_title (ex_rss_entry i t) = t" "fe_id (ex_rss_entry i t) = i" for i t
    by (simp_all add: extract_torrent_url_def ex_rss_entry_def starts_with_def entry_title_def unwrap_or_def)
  have add: "List.map_filter (wanted ex_rx ex_feed [ex_rule ''f'']) (fresh_entries {} ?es) = [(ex_entry_env, ''magnet:m'', Some ''c'')]"
    by (simp add: List.map_filter_simps wanted_def e passes_filter_def should_download_def rule_matches_def ex_feed_def ex_rule_def)
  have ok: "ee_exists_ok v \<and> ee_upsert_ok v" if "(v, e) \<in> set ?es" for v e using that by (auto simp: ex_entry_env_def)
  obtain r d' S' where c: "check_feed ex_params ex_config ex_store_ops ex_rx (\<lambda>x. x) ex_feed True (Inr ?es) (ex_rss_db, ex_session) = (r, d', S')"
    by (metis prod.exhaust)
  have "S' = fold (\<lambda>(v, url, c) S. snd (rss_add_torrent ex_params ex_config ex_store_ops v url c S)) [(ex_entry_env, ''magnet:m'', Some ''c'')] ex_session"
    using rss_feed_downloads [OF _ c] ok unfolding rules known add by blast
  then show ?thesis using c by simp
qed

theorem rss_rule_roundtrip_witness:
  "ex_rule ''f'' \<in> set (rss_rule_list (\<lambda>x. x) (snd (rss_rule_insert (ex_rule ''f'') rss_db_new)))
   \<and> ex_rule ''a,b'' \<notin> set (rss_rule_list (\<lambda>x. x) (snd (rss_rule_insert (ex_rule ''a,b'') rss_db_new)))"
proof -
  have a: "arranges (\<lambda>x. x)" by (simp add: arranges_def)
  show ?thesis
    using rss_rule_roundtrip [OF a _ surjective_pairing, of "ex_rule ''f''" rss_db_new] rss_rule_roundtrip [OF a _ surjective_pairing, of "ex_rule ''a,b''" rss_db_new]
    by (simp add: rss_db_new_def ex_rule_def plain_name_def trim_def is_space_def)
qed

lemma ex_rss_reach: "reach rss_init (rss_step ex_params ex_config strict) (feed_upsert ex_feed rss_db_new, ex_new_session)"
proof -
  have "reach rss_init (rss_step ex_params ex_config strict) (rss_db_new, ex_new_session)"
    by (rule reach_init) (auto simp: rss_init_def session_init_def)
  then show ?thesis
    by (rule reach_step) (rule rt_feed_add [of "(True, True)" ex_feed rss_db_new "Inr ()"], simp add: h_rss_feed_add_def on_rss_db_def sql_def feed_list_def rss_db_new_def)
qed

theorem rss_state_consistent_witness: "tables_ok (feed_upsert ex_feed rss_db_new)"
  using rss_state_consistent [OF ex_rss_reach [of True]] by blast

theorem rss_history_bounded_witness:
  "rss_item_count (fst (fst (monitor_round ex_params ex_config ex_store_ops ex_rx (\<lambda>x. x) (\<lambda>x. x) (Some 1) (True, True, True)
     (\<lambda>_. (True, Inr [(ex_entry_env, ex_rss_entry ''1'' ''x''), (ex_entry_env, ex_rss_entry ''2'' ''y'')])) (feed_upsert ex_feed rss_db_new, ex_new_session)))) \<le> 1"
proof -
  let ?fetch = "\<lambda>_. (True, Inr [(ex_entry_env, ex_rss_entry ''1'' ''x''), (ex_entry_env, ex_rss_entry ''2'' ''y'')])"
  let ?m = "monitor_round ex_params ex_config ex_store_ops ex_rx (\<lambda>x. x) (\<lambda>x. x) (Some 1) (True, True, True) ?fetch (feed_upsert ex_feed rss_db_new, ex_new_session)"
  have "?m = ((fst (fst ?m), snd (fst ?m)), snd ?m)" by simp
  moreover have "feed_list (feed_upsert ex_feed rss_db_new) \<noteq> []" by (simp add: feed_list_def feed_upsert_def rss_db_new_def)
  moreover have "arranges (\<lambda>x. x)" "\<And>n :: nat. Some 1 = Some n \<Longrightarrow> n < 2 ^ 63" by (simp_all add: arranges_def)
  ultimately show ?thesis using rss_history_bounded [OF ex_rss_reach [of True], of "\<lambda>x. x" "Some 1"] by (fastforce simp: unwrap_or_def)
qed

end
