(* ===== verification/Http_Auth.thy ===== *)
theory Http_Auth
  imports Ip_Ranges Wire
begin

text \<open>
  Authentication of the HTTP API: \<open>src/src/http_api/auth.rs\<close> (tokens, stored credentials and their handlers) and the
  middleware of \<open>src/src/http_api/mod.rs\<close> that every request of the API passes. Time is in seconds; the random tokens, the outcome of
  saving the credentials and the base64 decoder are arguments.
\<close>

subsection \<open>Comparing secrets\<close>

definition as_bytes :: "string \<Rightarrow> byte list" where
  "as_bytes s = map (\<lambda>c. word_of_nat (of_char c)) s"

definition constant_time_eq :: "byte list \<Rightarrow> byte list \<Rightarrow> bool" where
  "constant_time_eq a b =
     (if length a \<noteq> length b then False
      else foldl (\<lambda>acc (x, y). or acc (xor x y)) 0 (zip a b) = 0)"

subsection \<open>Tokens\<close>

definition access_token_ttl :: nat where
  "access_token_ttl = 15 * 60"

definition refresh_token_ttl :: nat where
  "refresh_token_ttl = 30 * 24 * 60 * 60"

record token_store =
  access_tokens :: "string \<rightharpoonup> nat"
  refresh_tokens :: "string \<rightharpoonup> nat"

definition token_store_new :: token_store where
  "token_store_new = \<lparr>access_tokens = Map.empty, refresh_tokens = Map.empty\<rparr>"

text \<open>The pair is what \<open>generate_token\<close> gives for the access and the refresh token.\<close>

definition create_tokens :: "nat \<Rightarrow> string \<times> string \<Rightarrow> token_store \<Rightarrow> token_store" where
  "create_tokens now tok ts =
     ts\<lparr>access_tokens := (access_tokens ts)(fst tok \<mapsto> now + access_token_ttl),
        refresh_tokens := (refresh_tokens ts)(snd tok \<mapsto> now + refresh_token_ttl)\<rparr>"

definition is_unexpired :: "nat \<Rightarrow> (string \<rightharpoonup> nat) \<Rightarrow> string \<Rightarrow> bool" where
  "is_unexpired now m t = (case m t of None \<Rightarrow> False | Some expires_at \<Rightarrow> now < expires_at)"

definition validate_access_token :: "nat \<Rightarrow> string \<Rightarrow> token_store \<Rightarrow> bool" where
  "validate_access_token now t ts = is_unexpired now (access_tokens ts) t"

definition revoke_refresh_token :: "string \<Rightarrow> token_store \<Rightarrow> token_store" where
  "revoke_refresh_token r ts = ts\<lparr>refresh_tokens := (refresh_tokens ts)(r := None)\<rparr>"

text \<open>\<open>refresh\<close> checks the token under the read lock, lets the lock go, and rotates; the two halves are separate for that.\<close>

definition refresh_valid :: "nat \<Rightarrow> string \<Rightarrow> token_store \<Rightarrow> bool" where
  "refresh_valid now r ts = is_unexpired now (refresh_tokens ts) r"

definition refresh_rotate :: "nat \<Rightarrow> string \<times> string \<Rightarrow> string \<Rightarrow> token_store \<Rightarrow> token_store" where
  "refresh_rotate now tok r ts = create_tokens now tok (revoke_refresh_token r ts)"

definition refresh :: "nat \<Rightarrow> string \<times> string \<Rightarrow> string \<Rightarrow> token_store \<Rightarrow> (string \<times> string) option \<times> token_store" where
  "refresh now tok r ts = (if \<not> refresh_valid now r ts then (None, ts) else (Some tok, refresh_rotate now tok r ts))"

definition cleanup_expired :: "nat \<Rightarrow> token_store \<Rightarrow> token_store" where
  "cleanup_expired now ts =
     ts\<lparr>access_tokens := (\<lambda>t. if is_unexpired now (access_tokens ts) t then access_tokens ts t else None),
        refresh_tokens := (\<lambda>t. if is_unexpired now (refresh_tokens ts) t then refresh_tokens ts t else None)\<rparr>"

subsection \<open>Credentials\<close>

type_synonym credentials = "string \<times> string"

record credential_store =
  cs_credentials :: "credentials option"
  cs_file :: "credentials option"

text \<open>The file is read at the start; one that cannot be read or parsed counts as none.\<close>

definition credential_store_new :: "credentials option \<Rightarrow> bool \<Rightarrow> credential_store" where
  "credential_store_new file readable = \<lparr>cs_credentials = (if readable then file else None), cs_file = file\<rparr>"

definition has_credentials :: "credential_store \<Rightarrow> bool" where
  "has_credentials cs \<longleftrightarrow> cs_credentials cs \<noteq> None"

text \<open>Saving fails before the file is written, or when its permissions are set.\<close>

datatype save_outcome = Saved | NotWritten | PermissionsNotSet

definition set_credentials :: "save_outcome \<Rightarrow> credentials \<Rightarrow> credential_store \<Rightarrow> bool \<times> credential_store" where
  "set_credentials outcome creds cs =
     (case outcome of
        NotWritten \<Rightarrow> (False, cs)
      | PermissionsNotSet \<Rightarrow> (False, cs\<lparr>cs_file := Some creds\<rparr>)
      | Saved \<Rightarrow> (True, \<lparr>cs_credentials = Some creds, cs_file = Some creds\<rparr>))"

definition credentials_match :: "string \<Rightarrow> string \<Rightarrow> credentials \<Rightarrow> bool" where
  "credentials_match username password c \<longleftrightarrow>
     constant_time_eq (as_bytes username) (as_bytes (fst c)) \<and> constant_time_eq (as_bytes password) (as_bytes (snd c))"

definition validate_credentials :: "string \<Rightarrow> string \<Rightarrow> credential_store \<Rightarrow> bool" where
  "validate_credentials username password cs =
     (case cs_credentials cs of None \<Rightarrow> False | Some c \<Rightarrow> credentials_match username password c)"

subsection \<open>Handlers\<close>

datatype auth_response = OkTokens string string | OkEmpty | NoContent | NotFound | Forbidden | BadRequest | Unauthorized | ServerError | Passed

text \<open>The options of the server; the stores are optional.\<close>

record http_auth =
  ha_basic_auth :: "credentials option"
  ha_token_store :: "token_store option"
  ha_credential_store :: "credential_store option"

definition stored_creds :: "http_auth \<Rightarrow> bool" where
  "stored_creds h = (case ha_credential_store h of None \<Rightarrow> False | Some cs \<Rightarrow> has_credentials cs)"

definition h_auth_status :: "http_auth \<Rightarrow> bool \<times> bool" where
  "h_auth_status h = (let has_creds = (ha_basic_auth h \<noteq> None \<or> stored_creds h) in (has_creds, \<not> has_creds))"

definition h_auth_setup :: "nat \<Rightarrow> string \<times> string \<Rightarrow> save_outcome \<Rightarrow> string \<Rightarrow> string \<Rightarrow> http_auth \<Rightarrow> auth_response \<times> http_auth" where
  "h_auth_setup now tok outcome username password h =
     (case ha_credential_store h of
        None \<Rightarrow> (NotFound, h)
      | Some cs \<Rightarrow>
        if has_credentials cs \<or> ha_basic_auth h \<noteq> None then (Forbidden, h)
        else if username = [] \<or> password = [] then (BadRequest, h)
        else case set_credentials outcome (username, password) cs of
          (False, cs') \<Rightarrow> (ServerError, h\<lparr>ha_credential_store := Some cs'\<rparr>)
        | (True, cs') \<Rightarrow>
          (case ha_token_store h of
             None \<Rightarrow> (OkEmpty, h\<lparr>ha_credential_store := Some cs'\<rparr>)
           | Some ts \<Rightarrow> (OkTokens (fst tok) (snd tok),
               h\<lparr>ha_credential_store := Some cs', ha_token_store := Some (create_tokens now tok ts)\<rparr>)))"

definition h_auth_change_credentials ::
  "save_outcome \<Rightarrow> string \<Rightarrow> string option \<Rightarrow> string option \<Rightarrow> http_auth \<Rightarrow> auth_response \<times> http_auth" where
  "h_auth_change_credentials outcome current_password new_username new_password h =
     (case ha_credential_store h of
        None \<Rightarrow> (NotFound, h)
      | Some cs \<Rightarrow>
        (case (case cs_credentials cs of Some c \<Rightarrow> Some c | None \<Rightarrow> ha_basic_auth h) of
           None \<Rightarrow> (NotFound, h)
         | Some (u, p) \<Rightarrow>
           if \<not> constant_time_eq (as_bytes current_password) (as_bytes p) then (Unauthorized, h)
           else case set_credentials outcome
                  (case new_username of None \<Rightarrow> u | Some x \<Rightarrow> x, case new_password of None \<Rightarrow> p | Some x \<Rightarrow> x) cs of
             (ok, cs') \<Rightarrow> (if ok then OkEmpty else ServerError, h\<lparr>ha_credential_store := Some cs'\<rparr>)))"

definition h_auth_login :: "nat \<Rightarrow> string \<times> string \<Rightarrow> string \<Rightarrow> string \<Rightarrow> http_auth \<Rightarrow> auth_response \<times> http_auth" where
  "h_auth_login now tok username password h =
     (let env_valid = (case ha_basic_auth h of None \<Rightarrow> False | Some c \<Rightarrow> credentials_match username password c);
          valid = (case ha_credential_store h of
              Some cs \<Rightarrow> if has_credentials cs then validate_credentials username password cs else env_valid
            | None \<Rightarrow> env_valid)
      in if ha_credential_store h = None \<and> ha_basic_auth h = None then (NotFound, h)
         else if \<not> valid then (Unauthorized, h)
         else case ha_token_store h of
           None \<Rightarrow> (NotFound, h)
         | Some ts \<Rightarrow> (OkTokens (fst tok) (snd tok), h\<lparr>ha_token_store := Some (create_tokens now tok (cleanup_expired now ts))\<rparr>))"

definition h_auth_refresh :: "nat \<Rightarrow> string \<times> string \<Rightarrow> string \<Rightarrow> http_auth \<Rightarrow> auth_response \<times> http_auth" where
  "h_auth_refresh now tok r h =
     (case ha_token_store h of
        None \<Rightarrow> (NotFound, h)
      | Some ts \<Rightarrow>
        (case refresh now tok r ts of
           (None, _) \<Rightarrow> (Unauthorized, h)
         | (Some (a, b), ts') \<Rightarrow> (OkTokens a b, h\<lparr>ha_token_store := Some ts'\<rparr>)))"

definition h_auth_logout :: "string \<Rightarrow> http_auth \<Rightarrow> auth_response \<times> http_auth" where
  "h_auth_logout r h =
     (NoContent, case ha_token_store h of None \<Rightarrow> h | Some ts \<Rightarrow> h\<lparr>ha_token_store := Some (revoke_refresh_token r ts)\<rparr>)"

subsection \<open>The middleware\<close>

definition strip_str :: "string \<Rightarrow> string \<Rightarrow> string option" where
  "strip_str p s = (if take (length p) s = p then Some (drop (length p) s) else None)"

definition is_public :: "string \<Rightarrow> bool" where
  "is_public path \<longleftrightarrow> path \<in> {''/auth/login'', ''/auth/refresh'', ''/auth/status'', ''/auth/setup''}"

definition basic_valid :: "http_auth \<Rightarrow> string \<times> string \<Rightarrow> bool" where
  "basic_valid h up \<longleftrightarrow>
     stored_creds h \<and> (case ha_credential_store h of None \<Rightarrow> False | Some cs \<Rightarrow> validate_credentials (fst up) (snd up) cs)
   \<or> (case ha_basic_auth h of None \<Rightarrow> False | Some c \<Rightarrow> credentials_match (fst up) (snd up) c)"

text \<open>\<open>base64\<close> decodes the header to UTF-8 text; \<open>header\<close> is the text of the authorization header.\<close>

definition auth_middleware :: "(string \<Rightarrow> string option) \<Rightarrow> nat \<Rightarrow> string option \<Rightarrow> string \<Rightarrow> http_auth \<Rightarrow> auth_response" where
  "auth_middleware base64 now header path h =
     (if is_public path then Passed
      else if \<not> stored_creds h \<and> ha_basic_auth h = None then Passed
      else case (ha_token_store h, Option.bind header (strip_str ''Bearer '')) of
        (Some ts, Some t) \<Rightarrow> if validate_access_token now t ts then Passed else Unauthorized
      | _ \<Rightarrow>
        (case Option.bind (Option.bind header (strip_str ''Basic '')) base64 of
           None \<Rightarrow> Unauthorized
         | Some user_pass \<Rightarrow>
           (case split_once CHR '':'' user_pass of
              Some up \<Rightarrow> if basic_valid h up then Passed else Unauthorized
            | None \<Rightarrow> Unauthorized)))"

text \<open>
  The requests that concern authentication, as the router dispatches them: those of the public paths go to their handlers,
  the others through the middleware first.
\<close>

datatype auth_request =
    Login string string
  | Refresh string
  | Setup string string
  | Logout "string option" string
  | ChangeCredentials "string option" string "string option" "string option"
  | OtherRequest "string option" string

record request_env =
  rq_now :: nat
  rq_tokens :: "string \<times> string"
  rq_save :: save_outcome

definition handle_request :: "(string \<Rightarrow> string option) \<Rightarrow> request_env \<Rightarrow> auth_request \<Rightarrow> http_auth \<Rightarrow> auth_response \<times> http_auth" where
  "handle_request base64 e req h =
     (let guarded = (\<lambda>header path run. if auth_middleware base64 (rq_now e) header path h = Passed then run h
            else (auth_middleware base64 (rq_now e) header path h, h))
      in case req of
        Login u p \<Rightarrow> h_auth_login (rq_now e) (rq_tokens e) u p h
      | Refresh r \<Rightarrow> h_auth_refresh (rq_now e) (rq_tokens e) r h
      | Setup u p \<Rightarrow> h_auth_setup (rq_now e) (rq_tokens e) (rq_save e) u p h
      | Logout header r \<Rightarrow> guarded header ''/auth/logout'' (h_auth_logout r)
      | ChangeCredentials header cur nu np \<Rightarrow> guarded header ''/auth/change_credentials'' (h_auth_change_credentials (rq_save e) cur nu np)
      | OtherRequest header path \<Rightarrow> guarded header path (\<lambda>h. (Passed, h)))"

fun handle_requests ::
  "(string \<Rightarrow> string option) \<Rightarrow> (request_env \<times> auth_request) list \<Rightarrow> http_auth \<Rightarrow> auth_response list \<times> http_auth" where
  "handle_requests base64 [] h = ([], h)"
| "handle_requests base64 ((e, req) # reqs) h =
     (case handle_request base64 e req h of
        (r, h1) \<Rightarrow> (case handle_requests base64 reqs h1 of (rs, h2) \<Rightarrow> (r # rs, h2)))"

subsection \<open>Comparing is equality\<close>

lemma or_fold_zero:
  "foldl (\<lambda>acc (x, y). or acc (xor x y)) acc xys = 0 \<longleftrightarrow> acc = 0 \<and> (\<forall>(x, y) \<in> set xys. xor x y = (0 :: byte))"
  by (induction xys arbitrary: acc) (auto simp: or_eq_0_iff)

lemma inj_as_bytes: "as_bytes a = as_bytes b \<longleftrightarrow> a = b"
proof -
  have "inj (\<lambda>c. word_of_nat (of_char c) :: byte)"
  proof (rule injI)
    fix c d
    assume "(word_of_nat (of_char c) :: byte) = word_of_nat (of_char d)"
    then have "unat (word_of_nat (of_char c) :: byte) = unat (word_of_nat (of_char d) :: byte)" by simp
    then have "(of_char c :: nat) = of_char d" by (simp add: unat_of_nat)
    then show "c = d" by simp
  qed
  then show ?thesis by (auto simp: as_bytes_def dest: map_injective)
qed

text \<open>The comparison that always looks at all bytes decides equality.\<close>

lemma constant_time_eq_iff: "constant_time_eq a b \<longleftrightarrow> a = b"
proof (cases "length a = length b")
  case True
  have "(\<forall>(x, y) \<in> set (zip a b). xor x y = 0) \<longleftrightarrow> a = b"
    using True by (induction a b rule: list_induct2) (auto simp: bit_eq_iff bit_simps)
  then show ?thesis using True by (simp add: constant_time_eq_def or_fold_zero)
qed (auto simp: constant_time_eq_def)

lemma credentials_match_iff [simp]: "credentials_match u p c \<longleftrightarrow> c = (u, p)"
  by (cases c) (auto simp: credentials_match_def constant_time_eq_iff inj_as_bytes)

subsection \<open>Properties\<close>

text \<open>The credentials that count, and the requests that present them.\<close>

definition right_credentials :: "http_auth \<Rightarrow> credentials \<Rightarrow> bool" where
  "right_credentials h up \<longleftrightarrow> Option.bind (ha_credential_store h) cs_credentials = Some up \<or> ha_basic_auth h = Some up"

definition header_presents :: "(string \<Rightarrow> string option) \<Rightarrow> http_auth \<Rightarrow> string option \<Rightarrow> bool" where
  "header_presents base64 h header =
     (case Option.bind (Option.bind (Option.bind header (strip_str ''Basic '')) base64) (split_once CHR '':'') of
        None \<Rightarrow> False | Some up \<Rightarrow> right_credentials h up)"

fun presents :: "(string \<Rightarrow> string option) \<Rightarrow> http_auth \<Rightarrow> auth_request \<Rightarrow> bool" where
  "presents base64 h (Login u p) = right_credentials h (u, p)"
| "presents base64 h (Refresh r) = False"
| "presents base64 h (Setup u p) = False"
| "presents base64 h (Logout header r) = header_presents base64 h header"
| "presents base64 h (ChangeCredentials header cur nu np) = header_presents base64 h header"
| "presents base64 h (OtherRequest header path) = (header_presents base64 h header \<or> is_public path)"

definition configured :: "http_auth \<Rightarrow> bool" where
  "configured h \<longleftrightarrow> stored_creds h \<or> ha_basic_auth h \<noteq> None"

definition no_tokens :: "http_auth \<Rightarrow> bool" where
  "no_tokens h \<longleftrightarrow> (\<forall>ts. ha_token_store h = Some ts \<longrightarrow> access_tokens ts = Map.empty \<and> refresh_tokens ts = Map.empty)"

definition refused :: "auth_response \<Rightarrow> bool" where
  "refused r \<longleftrightarrow> r \<in> {NotFound, Forbidden, Unauthorized}"

lemma basic_valid_right: "basic_valid h up \<Longrightarrow> right_credentials h up"
  by (auto simp: basic_valid_def right_credentials_def validate_credentials_def stored_creds_def split: option.splits)

lemma middleware_refuses:
  assumes "configured h" "no_tokens h" "\<not> header_presents base64 h header" "\<not> is_public path"
  shows "auth_middleware base64 now header path h = Unauthorized"
proof -
  have pub: "\<not> is_public path" "\<not> (\<not> stored_creds h \<and> ha_basic_auth h = None)" using assms(1,4) by (auto simp: configured_def)
  have "\<not> validate_access_token now t ts" if "ha_token_store h = Some ts" for t ts
    using assms(2) that by (simp add: no_tokens_def validate_access_token_def is_unexpired_def)
  moreover have "\<not> basic_valid h up"
    if "Option.bind (Option.bind header (strip_str ''Basic '')) base64 = Some x" "split_once CHR '':'' x = Some up" for x up
    using assms(3) that basic_valid_right [of h up] by (auto simp: header_presents_def simp del: Option.bind_assoc)
  ultimately show ?thesis using pub by (auto simp: auth_middleware_def split: option.split)
qed

lemma request_refused:
  assumes "configured h" "no_tokens h" "\<not> presents base64 h req"
  shows "\<exists>r. handle_request base64 e req h = (r, h) \<and> refused r"
proof (cases req)
  case (Login u p)
  then show ?thesis using assms
    by (auto simp: handle_request_def h_auth_login_def refused_def right_credentials_def validate_credentials_def Let_def split: option.splits)
next
  case (Refresh r)
  then show ?thesis using assms(2)
    by (auto simp: handle_request_def h_auth_refresh_def refresh_def refresh_valid_def is_unexpired_def no_tokens_def refused_def split: option.split)
next
  case (Setup u p)
  then show ?thesis using assms(1)
    by (auto simp: handle_request_def h_auth_setup_def configured_def stored_creds_def refused_def split: option.splits)
next
  case (Logout header r)
  have "\<not> is_public ''/auth/logout''" by (simp add: is_public_def)
  with assms Logout middleware_refuses [of h base64 header "''/auth/logout''" "rq_now e"] show ?thesis
    by (simp add: handle_request_def refused_def)
next
  case (ChangeCredentials header cur nu np)
  have "\<not> is_public ''/auth/change_credentials''" by (simp add: is_public_def)
  with assms ChangeCredentials middleware_refuses [of h base64 header "''/auth/change_credentials''" "rq_now e"] show ?thesis
    by (simp add: handle_request_def refused_def)
next
  case (OtherRequest header path)
  with assms middleware_refuses [of h base64 header path "rq_now e"] show ?thesis by (simp add: handle_request_def refused_def)
qed


definition refresh_dead :: "string \<Rightarrow> http_auth \<Rightarrow> bool" where
  "refresh_dead r h \<longleftrightarrow> (\<forall>ts. ha_token_store h = Some ts \<longrightarrow> refresh_tokens ts r = None)"

lemma refresh_stays_dead:
  assumes "refresh_dead r h" "snd (rq_tokens e) \<noteq> r" "handle_request base64 e req h = (resp, h')"
  shows "refresh_dead r h'"
  using assms
  by (cases req) (auto simp: handle_request_def refresh_dead_def h_auth_login_def h_auth_refresh_def h_auth_setup_def h_auth_logout_def
      h_auth_change_credentials_def refresh_def refresh_rotate_def create_tokens_def revoke_refresh_token_def cleanup_expired_def Let_def
      split: if_splits option.splits prod.splits bool.splits)

lemma refreshes_stay_dead:
  "refresh_dead r h \<Longrightarrow> \<forall>(e, req) \<in> set reqs. snd (rq_tokens e) \<noteq> r \<Longrightarrow> refresh_dead r (snd (handle_requests base64 reqs h))"
proof (induction reqs arbitrary: h)
  case (Cons x reqs)
  obtain e req where x: "x = (e, req)" by fastforce
  obtain resp h1 where h1: "handle_request base64 e req h = (resp, h1)" by fastforce
  then have "refresh_dead r h1" using refresh_stays_dead [OF Cons.prems(1)] Cons.prems(2) x by auto
  from Cons.IH [OF this] Cons.prems(2) x h1 show ?case by (simp add: split_beta)
qed simp

text \<open>A refresh token is used once: after a refresh with it, whatever requests follow, and as long as no new token happens to be the
  same, a second refresh with it is refused.\<close>

theorem refresh_token_single_use:
  assumes first: "handle_request base64 e (Refresh r) h = (OkTokens a b, h1)"
    and fresh: "snd (rq_tokens e) \<noteq> r" "\<forall>(e', req) \<in> set reqs. snd (rq_tokens e') \<noteq> r"
  shows "fst (handle_request base64 e2 (Refresh r) (snd (handle_requests base64 reqs h1))) \<in> {Unauthorized, NotFound}"
proof -
  have "refresh_dead r h1"
    using first fresh(1)
    by (auto simp: handle_request_def h_auth_refresh_def refresh_def refresh_rotate_def create_tokens_def revoke_refresh_token_def
        refresh_dead_def split: option.splits if_splits prod.splits)
  from refreshes_stay_dead [OF this fresh(2)] show ?thesis
    by (auto simp: handle_request_def h_auth_refresh_def refresh_def refresh_valid_def is_unexpired_def refresh_dead_def split: option.split)
qed

text \<open>Two refreshes that both check before either rotates both succeed.\<close>

lemma refresh_race:
  assumes "refresh_valid now r ts"
  shows "validate_access_token now (fst t1) (refresh_rotate now t2 r (refresh_rotate now t1 r ts))"
    and "validate_access_token now (fst t2) (refresh_rotate now t2 r (refresh_rotate now t1 r ts))"
  by (simp_all add: refresh_rotate_def create_tokens_def revoke_refresh_token_def validate_access_token_def is_unexpired_def access_token_ttl_def)

text \<open>A password that was set by the environment still opens the API after it was changed: the change is stored beside it, a login
  with the old password is refused, but basic authentication accepts both.\<close>

theorem old_env_password_still_works:
  assumes h: "ha_credential_store h = Some cs" "cs_credentials cs = None" "ha_basic_auth h = Some (u, p)"
    and new: "np \<noteq> p" and changed: "h_auth_change_credentials Saved p None (Some np) h = (resp, h')"
    and header: "base64 enc = Some (u @ '':'' @ p)" "CHR '':'' \<notin> set u" and path: "\<not> is_public path"
  shows "resp = OkEmpty \<and> fst (h_auth_login now tok u p h') = Unauthorized
     \<and> auth_middleware base64 now (Some (''Basic '' @ enc)) path h' = Passed"
proof -
  have h': "h' = h\<lparr>ha_credential_store := Some \<lparr>cs_credentials = Some (u, np), cs_file = Some (u, np)\<rparr>\<rparr>" and resp: "resp = OkEmpty"
    using changed h by (simp_all add: h_auth_change_credentials_def constant_time_eq_iff set_credentials_def)
  have "split_once CHR '':'' (u @ '':'' @ p) = Some (u, p)"
    using header(2) by (induction u) (auto simp: split_once_def)
  then have "auth_middleware base64 now (Some (''Basic '' @ enc)) path h' = Passed"
    using h(3) header(1) path by (simp add: h' auth_middleware_def strip_str_def basic_valid_def split: option.split)
  then show ?thesis using new h(3) resp
    by (simp add: h' h_auth_login_def has_credentials_def validate_credentials_def Let_def)
qed

definition ex_http :: http_auth where
  "ex_http = \<lparr>ha_basic_auth = Some (''u'', ''p''), ha_token_store = Some token_store_new, ha_credential_store = Some (credential_store_new None True)\<rparr>"

definition ex_request_env :: request_env where
  "ex_request_env = \<lparr>rq_now = 0, rq_tokens = (''a1'', ''r1''), rq_save = Saved\<rparr>"


theorem refresh_token_single_use_witness:
  "\<exists>h1. handle_request Some (ex_request_env\<lparr>rq_tokens := (''a2'', ''r2'')\<rparr>) (Refresh ''r1'') (snd (handle_request Some ex_request_env (Login ''u'' ''p'') ex_http))
       = (OkTokens ''a2'' ''r2'', h1)
     \<and> fst (handle_request Some (ex_request_env\<lparr>rq_tokens := (''a3'', ''r3'')\<rparr>) (Refresh ''r1'') h1) \<in> {Unauthorized, NotFound}"
proof -
  let ?h = "snd (handle_request Some ex_request_env (Login ''u'' ''p'') ex_http)" and ?e = "ex_request_env\<lparr>rq_tokens := (''a2'', ''r2'')\<rparr>"
  obtain h1 where "handle_request Some ?e (Refresh ''r1'') ?h = (OkTokens ''a2'' ''r2'', h1)"
    by (simp add: handle_request_def h_auth_login_def h_auth_refresh_def ex_http_def ex_request_env_def credential_store_new_def has_credentials_def
        refresh_def refresh_valid_def is_unexpired_def create_tokens_def cleanup_expired_def token_store_new_def refresh_token_ttl_def Let_def)
  with refresh_token_single_use [OF this, of "[]" "ex_request_env\<lparr>rq_tokens := (''a3'', ''r3'')\<rparr>"] show ?thesis
    by (simp add: ex_request_env_def)
qed

theorem old_env_password_still_works_witness:
  "auth_middleware Some 0 (Some (''Basic '' @ ''u:p'')) ''/torrents'' (snd (h_auth_change_credentials Saved ''p'' None (Some ''q'') ex_http)) = Passed"
proof -
  have "\<not> is_public ''/torrents''" by (simp add: is_public_def)
  with old_env_password_still_works [of ex_http "credential_store_new None True" "''u''" "''p''" "''q''" _ _ Some "''u:p''" "''/torrents''" 0 undefined,
      OF _ _ _ _ surjective_pairing] show ?thesis
    by (simp add: ex_http_def credential_store_new_def)
qed

end
