(* ===== verification/Http_Router.thy ===== *)
theory Http_Router
  imports Rss Http_Auth
begin

text \<open>
  The routes of the HTTP API (\<open>src/src/http_api/handlers/mod.rs\<close>) and how a request gets through the authentication layer to its handler
  (\<open>src/src/http_api/mod.rs\<close>): which handlers are exposed with which options, in particular in read-only mode.
\<close>

subsection \<open>Routes\<close>

datatype http_method = Get | Post | Put | Delete

text \<open>The handlers, with the module that they are in.\<close>

datatype api_handler =
    Root_h_api_root | Logging_h_stream_logs | Logging_h_set_rust_log | Dht_h_dht_stats | Dht_h_dht_table | Torrents_h_session_stats
     | Torrents_h_torrents_list | Torrents_h_torrent_details | Torrents_h_torrent_haves | Torrents_h_metadata | Torrents_h_torrent_stats_v0
     | Torrents_h_torrent_stats_v1 | Torrents_h_peer_stats | Torrents_h_peer_stats_prometheus | Playlist_h_torrent_playlist
     | Playlist_h_global_playlist | Other_h_resolve_magnet | Streaming_h_torrent_stream_file | Configure_h_get_session_ratelimits
     | Torrents_h_list_categories | Configure_h_get_folders | Configure_h_browse_directory | Torrents_h_torrents_post
     | Configure_h_update_session_ratelimits | Torrents_h_torrent_action_pause | Torrents_h_torrent_action_start | Torrents_h_torrent_action_forget
     | Torrents_h_torrent_action_delete | Torrents_h_torrent_action_update_only_files | Torrents_h_add_peers | Torrents_h_create_torrent
     | Torrents_h_create_or_edit_category | Torrents_h_delete_category | Torrents_h_set_torrent_category | Configure_h_set_folders
     | Indexarr_h_indexarr_status | Indexarr_h_indexarr_search | Indexarr_h_indexarr_recent | Indexarr_h_indexarr_trending
     | Indexarr_h_indexarr_torrent_detail | Indexarr_h_indexarr_identity_status | Indexarr_h_indexarr_identity_acknowledge
     | Indexarr_h_indexarr_sync_preferences_get | Indexarr_h_indexarr_sync_preferences_set | Rss_h_rss_feeds_list | Rss_h_rss_feed_add
     | Rss_h_rss_feed_update | Rss_h_rss_feed_delete | Rss_h_rss_items_list | Rss_h_rss_item_download | Rss_h_rss_rules_list | Rss_h_rss_rule_add
     | Rss_h_rss_rule_update | Rss_h_rss_rule_delete | Rss_h_rss_settings_get | Auth_h_auth_status | Auth_h_auth_login | Auth_h_auth_refresh
     | Auth_h_auth_logout | Auth_h_auth_setup | Auth_h_auth_change_credentials

type_synonym route = "http_method \<times> string \<times> api_handler"

definition always_routes :: "route list" where
  "always_routes =
    [(Get, ''/'', Root_h_api_root),
     (Get, ''/stream_logs'', Logging_h_stream_logs),
     (Post, ''/rust_log'', Logging_h_set_rust_log),
     (Get, ''/dht/stats'', Dht_h_dht_stats),
     (Get, ''/dht/table'', Dht_h_dht_table),
     (Get, ''/stats'', Torrents_h_session_stats),
     (Get, ''/torrents'', Torrents_h_torrents_list),
     (Get, ''/torrents/{id}'', Torrents_h_torrent_details),
     (Get, ''/torrents/{id}/haves'', Torrents_h_torrent_haves),
     (Get, ''/torrents/{id}/metadata'', Torrents_h_metadata),
     (Get, ''/torrents/{id}/stats'', Torrents_h_torrent_stats_v0),
     (Get, ''/torrents/{id}/stats/v1'', Torrents_h_torrent_stats_v1),
     (Get, ''/torrents/{id}/peer_stats'', Torrents_h_peer_stats),
     (Get, ''/torrents/{id}/peer_stats/prometheus'', Torrents_h_peer_stats_prometheus),
     (Get, ''/torrents/{id}/playlist'', Playlist_h_torrent_playlist),
     (Get, ''/torrents/playlist'', Playlist_h_global_playlist),
     (Post, ''/torrents/resolve_magnet'', Other_h_resolve_magnet),
     (Get, ''/torrents/{id}/stream/{file_id}'', Streaming_h_torrent_stream_file),
     (Get, ''/torrents/{id}/stream/{file_id}/{*filename}'', Streaming_h_torrent_stream_file),
     (Get, ''/torrents/limits'', Configure_h_get_session_ratelimits),
     (Get, ''/torrents/categories'', Torrents_h_list_categories),
     (Get, ''/session/folders'', Configure_h_get_folders),
     (Get, ''/fs/browse'', Configure_h_browse_directory)]"

definition writing_routes :: "route list" where
  "writing_routes =
    [(Post, ''/torrents'', Torrents_h_torrents_post),
     (Post, ''/torrents/limits'', Configure_h_update_session_ratelimits),
     (Post, ''/torrents/{id}/pause'', Torrents_h_torrent_action_pause),
     (Post, ''/torrents/{id}/start'', Torrents_h_torrent_action_start),
     (Post, ''/torrents/{id}/forget'', Torrents_h_torrent_action_forget),
     (Post, ''/torrents/{id}/delete'', Torrents_h_torrent_action_delete),
     (Post, ''/torrents/{id}/update_only_files'', Torrents_h_torrent_action_update_only_files),
     (Post, ''/torrents/{id}/add_peers'', Torrents_h_add_peers),
     (Post, ''/torrents/create'', Torrents_h_create_torrent),
     (Post, ''/torrents/categories'', Torrents_h_create_or_edit_category),
     (Delete, ''/torrents/categories/{name}'', Torrents_h_delete_category),
     (Post, ''/torrents/{id}/set_category'', Torrents_h_set_torrent_category),
     (Post, ''/session/folders'', Configure_h_set_folders)]"

definition indexarr_routes :: "route list" where
  "indexarr_routes =
    [(Get, ''/indexarr/status'', Indexarr_h_indexarr_status),
     (Get, ''/indexarr/search'', Indexarr_h_indexarr_search),
     (Get, ''/indexarr/recent'', Indexarr_h_indexarr_recent),
     (Get, ''/indexarr/trending'', Indexarr_h_indexarr_trending),
     (Get, ''/indexarr/torrent/{info_hash}'', Indexarr_h_indexarr_torrent_detail),
     (Get, ''/indexarr/identity/status'', Indexarr_h_indexarr_identity_status),
     (Post, ''/indexarr/identity/acknowledge'', Indexarr_h_indexarr_identity_acknowledge),
     (Get, ''/indexarr/sync/preferences'', Indexarr_h_indexarr_sync_preferences_get),
     (Post, ''/indexarr/sync/preferences'', Indexarr_h_indexarr_sync_preferences_set)]"

definition rss_routes :: "route list" where
  "rss_routes =
    [(Get, ''/rss/feeds'', Rss_h_rss_feeds_list),
     (Post, ''/rss/feeds'', Rss_h_rss_feed_add),
     (Put, ''/rss/feeds/{name}'', Rss_h_rss_feed_update),
     (Delete, ''/rss/feeds/{name}'', Rss_h_rss_feed_delete),
     (Get, ''/rss/items'', Rss_h_rss_items_list),
     (Post, ''/rss/items/{id}/download'', Rss_h_rss_item_download),
     (Get, ''/rss/rules'', Rss_h_rss_rules_list),
     (Post, ''/rss/rules'', Rss_h_rss_rule_add),
     (Put, ''/rss/rules/{id}'', Rss_h_rss_rule_update),
     (Delete, ''/rss/rules/{id}'', Rss_h_rss_rule_delete),
     (Get, ''/rss/settings'', Rss_h_rss_settings_get)]"

definition auth_status_routes :: "route list" where
  "auth_status_routes =
    [(Get, ''/auth/status'', Auth_h_auth_status)]"

definition token_routes :: "route list" where
  "token_routes =
    [(Post, ''/auth/login'', Auth_h_auth_login),
     (Post, ''/auth/refresh'', Auth_h_auth_refresh),
     (Post, ''/auth/logout'', Auth_h_auth_logout)]"

definition credential_routes :: "route list" where
  "credential_routes =
    [(Post, ''/auth/setup'', Auth_h_auth_setup),
     (Post, ''/auth/change_credentials'', Auth_h_auth_change_credentials)]"

record router_opts =
  ro_read_only :: bool
  ro_allow_create :: bool
  ro_token_store :: bool
  ro_credential_store :: bool

definition make_api_router :: "router_opts \<Rightarrow> route list" where
  "make_api_router opts =
     always_routes @ (if \<not> ro_read_only opts then writing_routes else []) @ indexarr_routes @ rss_routes @ auth_status_routes
     @ (if ro_token_store opts then token_routes else []) @ (if ro_credential_store opts then credential_routes else [])"

definition route_of :: "router_opts \<Rightarrow> api_handler \<Rightarrow> route option" where
  "route_of opts h = find (\<lambda>(_, _, h'). h' = h) (make_api_router opts)"

subsection \<open>Requests\<close>

text \<open>The requests whose handlers get at the session or the RSS tables and are not only reading, with what surrounds them.\<close>

datatype ('s, 'f) http_request =
    ReqAction "('s, 'f) api_action"
  | ReqAddPeers nat nat torrent_id_or_hash "byte list"
  | ReqCreate "('s, 'f) surroundings" "byte list"
  | ReqResolveMagnet "('s, 'f) surroundings" "string \<Rightarrow> torrent_meta res" resolve_outcome string
  | ReqRssFeedAdd "bool \<times> bool" feed_config
  | ReqRssFeedUpdate "bool \<times> bool" string feed_config
  | ReqRssFeedDelete bool string
  | ReqRssRuleAdd bool string rule_body
  | ReqRssRuleUpdate bool string rule_body
  | ReqRssRuleDelete bool string
  | ReqRssDownload bool "('s, 'f) entry_env" string

definition handler_of :: "('s, 'f) http_request \<Rightarrow> api_handler" where
  "handler_of r =
     (case r of
        ReqAction (ActPause _) \<Rightarrow> Torrents_h_torrent_action_pause
      | ReqAction (ActStart _ _) \<Rightarrow> Torrents_h_torrent_action_start
      | ReqAction (ActForget _ _) \<Rightarrow> Torrents_h_torrent_action_forget
      | ReqAction (ActDelete _ _) \<Rightarrow> Torrents_h_torrent_action_delete
      | ReqAction (ActOnlyFiles _ _ _) \<Rightarrow> Torrents_h_torrent_action_update_only_files
      | ReqAction (ActCategory _ _) \<Rightarrow> Torrents_h_set_torrent_category
      | ReqAction (ActAdd _ _ _ _ _) \<Rightarrow> Torrents_h_torrents_post
      | ReqAction (ActFolders _ _) \<Rightarrow> Configure_h_set_folders
      | ReqAddPeers _ _ _ _ \<Rightarrow> Torrents_h_add_peers
      | ReqCreate _ _ \<Rightarrow> Torrents_h_create_torrent
      | ReqResolveMagnet _ _ _ _ \<Rightarrow> Other_h_resolve_magnet
      | ReqRssFeedAdd _ _ \<Rightarrow> Rss_h_rss_feed_add
      | ReqRssFeedUpdate _ _ _ \<Rightarrow> Rss_h_rss_feed_update
      | ReqRssFeedDelete _ _ \<Rightarrow> Rss_h_rss_feed_delete
      | ReqRssRuleAdd _ _ _ \<Rightarrow> Rss_h_rss_rule_add
      | ReqRssRuleUpdate _ _ _ \<Rightarrow> Rss_h_rss_rule_update
      | ReqRssRuleDelete _ _ \<Rightarrow> Rss_h_rss_rule_delete
      | ReqRssDownload _ _ _ \<Rightarrow> Rss_h_rss_item_download)"

text \<open>What the program around the handlers is: the session's parameters, decoding of text, the file system, and regular expressions.\<close>

record ('s, 'f, 'p) server_env =
  sv_params :: "('s, 'f) session_params"
  sv_config :: session_config
  sv_store :: "'p persistence_ops"
  sv_set_order :: "string list \<Rightarrow> string list"
  sv_utf8 :: "byte list \<Rightarrow> string option"
  sv_addr_from_str :: "string \<Rightarrow> socket_addr option"
  sv_exists :: "string \<Rightarrow> bool"
  sv_create :: "string \<Rightarrow> (byte list \<times> string) res"
  sv_regex :: regexes

type_synonym ('s, 'f, 'p) server_state = "rss_db option \<times> ('s, 'f, 'p) session"

definition unit_api :: "'a api \<Rightarrow> unit api" where
  "unit_api = map_sum id (\<lambda>_. ())"

definition run_request ::
  "('s, 'f, 'p) server_env \<Rightarrow> bool \<Rightarrow> ('s, 'f) http_request \<Rightarrow> ('s, 'f, 'p) server_state \<Rightarrow> unit api \<times> ('s, 'f, 'p) server_state" where
  "run_request E allow_create r = (\<lambda>(rd, S).
     let X = sv_params E; C = sv_config E; P = sv_store E;
         on_session = (\<lambda>(x, S'). (unit_api x, rd, S'));
         on_rss = (\<lambda>(x, rd'). (x, rd', S))
     in case r of
          ReqAction act \<Rightarrow> on_session (api_act X C P (sv_set_order E) (sv_utf8 E) act S)
        | ReqAddPeers cid now k body \<Rightarrow> (case h_add_peers (sv_utf8 E) (sv_addr_from_str E) cid now k body S of (x, S') \<Rightarrow> (unit_api x, rd, S'))
        | ReqCreate u body \<Rightarrow> (case h_create_torrent X C P u (sv_exists E) (sv_create E) (sv_utf8 E) allow_create body S of (x, S') \<Rightarrow> (unit_api x, rd, S'))
        | ReqResolveMagnet u http resolve url \<Rightarrow> (case h_resolve_magnet X C P u http resolve url S of (x, S') \<Rightarrow> (unit_api x, rd, S'))
        | ReqRssFeedAdd oks feed \<Rightarrow> on_rss (h_rss_feed_add oks feed rd)
        | ReqRssFeedUpdate oks name feed \<Rightarrow> on_rss (h_rss_feed_update oks name feed rd)
        | ReqRssFeedDelete ok name \<Rightarrow> on_rss (h_rss_feed_delete ok name rd)
        | ReqRssRuleAdd ok uuid b \<Rightarrow> on_rss (h_rss_rule_add ok (sv_regex E) uuid b rd)
        | ReqRssRuleUpdate ok i b \<Rightarrow> on_rss (h_rss_rule_update ok (sv_regex E) i b rd)
        | ReqRssRuleDelete ok i \<Rightarrow> on_rss (h_rss_rule_delete ok i rd)
        | ReqRssDownload ok v i \<Rightarrow> h_rss_item_download X C P ok v i (rd, S))"

text \<open>
  A request: without a route it is not found; then the authentication layer sees it, which looks at the path only for the public ones;
  then the handler runs. \<open>header\<close> is the authorization header.
\<close>

datatype served = NotRouted | Refused | Answered "unit api"

definition serve ::
  "('s, 'f, 'p) server_env \<Rightarrow> router_opts \<Rightarrow> http_auth \<Rightarrow> (string \<Rightarrow> string option) \<Rightarrow> nat \<Rightarrow> string option \<times> ('s, 'f) http_request
   \<Rightarrow> ('s, 'f, 'p) server_state \<Rightarrow> served \<times> ('s, 'f, 'p) server_state" where
  "serve E opts A base64 now = (\<lambda>(header, r) st.
     case route_of opts (handler_of r) of
       None \<Rightarrow> (NotRouted, st)
     | Some (_, path, _) \<Rightarrow>
       if auth_middleware base64 now header path A \<noteq> Passed then (Refused, st)
       else map_prod Answered id (run_request E (ro_allow_create opts) r st))"

fun serve_all ::
  "('s, 'f, 'p) server_env \<Rightarrow> router_opts \<Rightarrow> http_auth \<Rightarrow> (string \<Rightarrow> string option) \<Rightarrow> nat \<Rightarrow> (string option \<times> ('s, 'f) http_request) list
   \<Rightarrow> ('s, 'f, 'p) server_state \<Rightarrow> served list \<times> ('s, 'f, 'p) server_state" where
  "serve_all E opts A base64 now [] st = ([], st)"
| "serve_all E opts A base64 now (q # qs) st =
     (case serve E opts A base64 now q st of (x, st1) \<Rightarrow> (case serve_all E opts A base64 now qs st1 of (xs, st2) \<Rightarrow> (x # xs, st2)))"

subsection \<open>Properties\<close>

lemmas router_defs = make_api_router_def always_routes_def writing_routes_def indexarr_routes_def rss_routes_def auth_status_routes_def
  token_routes_def credential_routes_def

definition is_download :: "('s, 'f) http_request \<Rightarrow> bool" where
  "is_download r = (case r of ReqRssDownload _ _ _ \<Rightarrow> True | _ \<Rightarrow> False)"

definition writing_handlers :: "api_handler list" where
  "writing_handlers = map (\<lambda>(_, _, h). h) writing_routes"

lemma writing_handlers_only:
  "list_all (\<lambda>(_, _, h). h \<notin> set writing_handlers) (always_routes @ indexarr_routes @ rss_routes @ auth_status_routes @ token_routes @ credential_routes)"
  by code_simp

lemma read_only_not_routed:
  assumes "ro_read_only opts" and "h \<in> set writing_handlers"
  shows "route_of opts h = None"
proof -
  have "h' \<noteq> h" if "(m, p, h') \<in> set (make_api_router opts)" for m p h'
    using that assms writing_handlers_only unfolding make_api_router_def list_all_iff by (fastforce split: if_splits)
  then show ?thesis by (auto simp: route_of_def find_None_iff)
qed

lemma writing_requests:
  "handler_of (ReqAction act) \<in> set writing_handlers" "handler_of (ReqAddPeers cid t k body) \<in> set writing_handlers"
  "handler_of (ReqCreate u body) \<in> set writing_handlers"
  by (cases act) (simp_all add: handler_of_def writing_handlers_def writing_routes_def)

lemma read_only_serve:
  assumes "ro_read_only opts" and "\<not> is_download r"
  shows "snd (snd (serve E opts A base64 now (header, r) (rd, S))) = S"
proof (cases r)
  case (ReqAction act)
  then show ?thesis by (simp add: serve_def read_only_not_routed [OF assms(1) writing_requests(1)])
next
  case (ReqAddPeers cid t k body)
  then show ?thesis by (simp add: serve_def read_only_not_routed [OF assms(1) writing_requests(2)])
next
  case (ReqCreate u body)
  then show ?thesis by (simp add: serve_def read_only_not_routed [OF assms(1) writing_requests(3)])
next
  case (ReqResolveMagnet u http resolve url)
  then show ?thesis
    by (auto simp: serve_def run_request_def Let_def resolve_magnet_no_change split: option.split prod.split) (metis resolve_magnet_no_change snd_conv)
qed (use assms(2) in \<open>auto simp: serve_def run_request_def is_download_def Let_def split: option.split prod.split\<close>)


text \<open>
  The comment on \<open>make_http_api_and_run\<close> says that read-only mode exposes no method that modifies the state. Yet downloading
  an RSS item is answered as ever, and adds the torrent of the item to the session.
\<close>

theorem read_only_rss_download:
  assumes "rss_item_get i d = Some item" and "ri_url item = Some url" and "\<not> stored_creds A" and "ha_basic_auth A = None"
    and "rss_add_torrent (sv_params E) (sv_config E) (sv_store E) v url (ri_category item) S = (Inr a, S1)"
  shows "\<exists>d1. serve E (opts\<lparr>ro_read_only := True\<rparr>) A base64 now (header, ReqRssDownload True v i) (Some d, S) = (Answered (Inr ()), Some d1, S1)"
proof -
  have "route_of (opts\<lparr>ro_read_only := True\<rparr>) Rss_h_rss_item_download = Some (Post, ''/rss/items/{id}/download'', Rss_h_rss_item_download)"
    by (simp add: route_of_def router_defs)
  then show ?thesis
    using assms by (simp add: serve_def handler_of_def auth_middleware_def run_request_def Let_def h_rss_item_download_def)
qed

text \<open>
  With credentials configured and no token given out, no request without them gets to a handler: neither the session nor the RSS tables change.
\<close>

theorem server_protected:
  assumes "configured A" and "no_tokens A" and "\<forall>(header, r) \<in> set qs. \<not> header_presents base64 A header"
  shows "\<exists>xs. serve_all E opts A base64 now qs st = (xs, st) \<and> (\<forall>x \<in> set xs. x \<in> {NotRouted, Refused})"
  using assms(3)
proof (induction qs)
  case (Cons q qs)
  obtain header r where q: "q = (header, r)" by fastforce
  have np: "\<not> header_presents base64 A header" using Cons.prems q by simp
  have "\<exists>x. serve E opts A base64 now q st = (x, st) \<and> x \<in> {NotRouted, Refused}"
  proof (cases "route_of opts (handler_of r)")
    case None
    then show ?thesis using q by (simp add: serve_def)
  next
    case (Some route)
    obtain m path h where route: "route = (m, path, h)" by (cases route) auto
    have "(m, path, h) \<in> set (make_api_router opts)" "h = handler_of r"
      using Some route by (auto simp: route_of_def find_Some_iff) (metis case_prod_conv nth_mem)+
    then have "\<not> is_public path"
      by (auto simp: router_defs is_public_def handler_of_def split: if_splits http_request.splits api_action.splits)
    then show ?thesis using middleware_refuses [OF assms(1,2)] np q Some route by (fastforce simp: serve_def)
  qed
  then show ?case using Cons by auto
qed simp

subsection \<open>Examples\<close>

definition ex_server :: "(byte list fs_storage, unit, unit) server_env" where
  "ex_server = \<lparr>sv_params = ex_params, sv_config = ex_config, sv_store = ex_store_ops, sv_set_order = (\<lambda>x. x), sv_utf8 = (\<lambda>_. None),
     sv_addr_from_str = (\<lambda>_. None), sv_exists = (\<lambda>_. False), sv_create = (\<lambda>_. Inl Panic), sv_regex = (\<lambda>_. None)\<rparr>"

definition ex_router_opts :: router_opts where
  "ex_router_opts = \<lparr>ro_read_only = True, ro_allow_create = True, ro_token_store = False, ro_credential_store = False\<rparr>"

definition ex_open :: http_auth where
  "ex_open = \<lparr>ha_basic_auth = None, ha_token_store = None, ha_credential_store = None\<rparr>"


theorem server_protected_witness:
  "\<exists>xs. serve_all ex_server (ex_router_opts\<lparr>ro_read_only := False\<rparr>) ex_http Some 0 [(Some ''Basic u:q'', ReqAction (ActDelete (Inl Panic) (TorrentId 0)))] (None, ex_session)
     = (xs, (None, ex_session)) \<and> (\<forall>x \<in> set xs. x \<in> {NotRouted, Refused})"
proof -
  have "configured ex_http" "no_tokens ex_http" by (simp_all add: configured_def no_tokens_def ex_http_def token_store_new_def)
  moreover have "\<not> header_presents Some ex_http (Some ''Basic u:q'')" by code_simp
  ultimately show ?thesis by (intro server_protected) simp_all
qed

definition ex_download_env :: "(byte list fs_storage, unit) entry_env" where
  "ex_download_env = ex_entry_env\<lparr>ee_http := (\<lambda>_. Inr (ex_tmeta 7 False))\<rparr>"

definition ex_rss_item :: rss_item where
  "ex_rss_item = \<lparr>ri_id = ''1'', ri_feed_name = ''f'', ri_title = ''t'', ri_url = Some ''http://x'', ri_published_at = None, ri_first_seen_at = 0,
     ri_downloaded = False, ri_downloaded_at = None, ri_category = None, ri_size_bytes = 0\<rparr>"

lemma ex_download:
  "\<exists>S1. rss_add_torrent ex_params ex_config ex_store_ops ex_download_env ''http://x'' None ex_new_session = (Inr (Added 0 0), S1)
     \<and> session_get (TorrentHash 7) S1 = Some 0"
  by (simp add: rss_add_torrent_def session_add_torrent_def parse_add_def starts_with_def ex_download_env_def ex_entry_env_def add_torrent_file_def
      ex_tmeta_def ex_params_def add_options_default_def sm_bind_def sm_res_def add_torrent_internal_def prepare_add_def resolve_metadata_def
      compute_only_files_def choose_output_folder_def Let_def ex_config_def get_default_subfolder_for_torrent_def add_prepared_def choose_id_def
      session_new_def ex_store_ops_def insert_torrent_def session_db_default_def db_existing_def db_get_by_info_hash_def ex_surroundings_def
      persist_added_def with_store_def start_added_def on_torrent_def start_def child_token_def start_locked_def new_torrent_def managed_new_def
      sm_modify_def sm_ret_def spawn_completion_watcher_def session_get_def db_add_torrent_def handle_hash_def upd_managed_def set_mstate_def)

theorem read_only_rss_download_witness:
  "\<exists>d1 S1. serve ex_server ex_router_opts ex_open Some 0 (None, ReqRssDownload True ex_download_env ''1'') (Some (rss_db_new\<lparr>rd_items := [ex_rss_item]\<rparr>), ex_new_session)
       = (Answered (Inr ()), Some d1, S1) \<and> session_get (TorrentHash 7) ex_new_session = None \<and> session_get (TorrentHash 7) S1 = Some 0"
proof -
  obtain S1 where S1: "rss_add_torrent ex_params ex_config ex_store_ops ex_download_env ''http://x'' None ex_new_session = (Inr (Added 0 0), S1)"
      "session_get (TorrentHash 7) S1 = Some 0" using ex_download by blast
  have "ex_router_opts\<lparr>ro_read_only := True\<rparr> = ex_router_opts" by (simp add: ex_router_opts_def)
  moreover have "session_get (TorrentHash 7) ex_new_session = None"
    by (simp add: session_new_def session_get_def db_get_by_info_hash_def session_db_default_def)
  moreover have "\<exists>d1. serve ex_server (ex_router_opts\<lparr>ro_read_only := True\<rparr>) ex_open Some 0 (None, ReqRssDownload True ex_download_env ''1'')
      (Some (rss_db_new\<lparr>rd_items := [ex_rss_item]\<rparr>), ex_new_session) = (Answered (Inr ()), Some d1, S1)"
    by (rule read_only_rss_download [where item = ex_rss_item and url = "''http://x''" and a = "Added 0 0"])
      (use S1(1) in \<open>simp_all add: rss_item_get_def ex_rss_item_def ex_open_def stored_creds_def ex_server_def\<close>)
  ultimately show ?thesis using S1(2) by auto
qed

end
