(* ===== verification/Qbit.thy ===== *)
theory Qbit
  imports Api Http_Auth
begin

text \<open>
  \<open>src/src/http_api/handlers/qbit_compat.rs\<close>: the subset of the qBittorrent API that other programs use, mounted beside the API of
  \<open>Http_Auth\<close> with sessions of its own. Form decoding is a parameter of the caller: the handlers get the fields. The
  iteration order of the session's hash map is an argument.
\<close>

subsection \<open>Sessions and their cookie\<close>

record qbit_category =
  qc_name :: string
  qc_save_path :: string

record qbit_state =
  qs_sessions :: "string \<rightharpoonup> nat"
  qs_categories :: "string \<rightharpoonup> qbit_category"

definition qbit_new :: qbit_state where
  "qbit_new = \<lparr>qs_sessions = Map.empty, qs_categories = Map.empty\<rparr>"

definition create_session :: "nat \<Rightarrow> string \<Rightarrow> qbit_state \<Rightarrow> qbit_state" where
  "create_session now sid q = q\<lparr>qs_sessions := (qs_sessions q)(sid \<mapsto> now)\<rparr>"

definition validate_session :: "nat \<Rightarrow> string \<Rightarrow> qbit_state \<Rightarrow> bool" where
  "validate_session now sid q = (case qs_sessions q sid of Some created \<Rightarrow> now - created < 3600 | None \<Rightarrow> False)"

definition remove_session :: "string \<Rightarrow> qbit_state \<Rightarrow> qbit_state" where
  "remove_session sid q = q\<lparr>qs_sessions := (qs_sessions q)(sid := None)\<rparr>"

fun find_map :: "('a \<Rightarrow> 'b option) \<Rightarrow> 'a list \<Rightarrow> 'b option" where
  "find_map f [] = None"
| "find_map f (x # xs) = (case f x of Some y \<Rightarrow> Some y | None \<Rightarrow> find_map f xs)"

definition extract_sid :: "string option \<Rightarrow> string option" where
  "extract_sid cookies = Option.bind cookies (\<lambda>cs. find_map (\<lambda>c. strip_str ''SID='' (trim c)) (split_on CHR '';'' cs))"

datatype qbit_response = QOkSession string | QOk | QFails | QPassed | QNotAuthenticated | QBadRequest

definition qbit_login :: "nat \<Rightarrow> string \<Rightarrow> string \<Rightarrow> string \<Rightarrow> http_auth \<Rightarrow> qbit_state \<Rightarrow> qbit_response \<times> qbit_state" where
  "qbit_login now sid username password h q =
     (if (case ha_basic_auth h of Some (u, p) \<Rightarrow> username = u \<and> password = p | None \<Rightarrow> True)
      then (QOkSession sid, create_session now sid q) else (QFails, q))"

definition qbit_logout :: "string option \<Rightarrow> qbit_state \<Rightarrow> qbit_response \<times> qbit_state" where
  "qbit_logout cookies q = (QOk, case extract_sid cookies of None \<Rightarrow> q | Some sid \<Rightarrow> remove_session sid q)"

text \<open>The layer in front of all other paths; it is only there when credentials come from the environment.\<close>

definition qbit_guard :: "nat \<Rightarrow> string option \<Rightarrow> http_auth \<Rightarrow> qbit_state \<Rightarrow> qbit_response" where
  "qbit_guard now cookies h q =
     (if ha_basic_auth h = None then QPassed
      else if (case extract_sid cookies of None \<Rightarrow> False | Some sid \<Rightarrow> validate_session now sid q) then QPassed
      else QNotAuthenticated)"

datatype qbit_request = QLogin string string | QLogout "string option" | QProtected "string option"

definition qbit_handle :: "http_auth \<Rightarrow> nat \<times> string \<Rightarrow> qbit_request \<Rightarrow> qbit_state \<Rightarrow> qbit_response \<times> qbit_state" where
  "qbit_handle h e req q =
     (case req of
        QLogin u p \<Rightarrow> qbit_login (fst e) (snd e) u p h q
      | QLogout cookies \<Rightarrow> qbit_logout cookies q
      | QProtected cookies \<Rightarrow> (qbit_guard (fst e) cookies h q, q))"

fun qbit_run :: "http_auth \<Rightarrow> ((nat \<times> string) \<times> qbit_request) list \<Rightarrow> qbit_state \<Rightarrow> qbit_response list \<times> qbit_state" where
  "qbit_run h [] q = ([], q)"
| "qbit_run h ((e, req) # reqs) q =
     (case qbit_handle h e req q of (r, q1) \<Rightarrow> (case qbit_run h reqs q1 of (rs, q2) \<Rightarrow> (r # rs, q2)))"

subsection \<open>Views\<close>

definition map_state :: "torrent_stats_state \<Rightarrow> bool \<Rightarrow> string" where
  "map_state st finished =
     (case (st, finished) of
        (SInitializing, _) \<Rightarrow> ''metaDL''
      | (SLive, False) \<Rightarrow> ''downloading''
      | (SLive, True) \<Rightarrow> ''uploading''
      | (SPaused, False) \<Rightarrow> ''pausedDL''
      | (SPaused, True) \<Rightarrow> ''pausedUP''
      | (SError, _) \<Rightarrow> ''error'')"

text \<open>\<open>slow\<close> is whether both speeds of a live torrent are below the threshold.\<close>

definition matches_filter :: "string \<Rightarrow> string \<Rightarrow> bool \<Rightarrow> torrent_stats \<Rightarrow> bool" where
  "matches_filter flt st slow s =
     (if flt = ''all'' then True
      else if flt = ''downloading'' then st = ''downloading'' \<or> st = ''metaDL''
      else if flt = ''seeding'' then st = ''uploading''
      else if flt = ''completed'' then ts_finished s
      else if flt = ''paused'' then st = ''pausedDL'' \<or> st = ''pausedUP''
      else if flt = ''active'' then st = ''downloading'' \<or> st = ''uploading''
      else if flt = ''inactive'' then st \<noteq> ''downloading'' \<and> st \<noteq> ''uploading''
      else if flt = ''resumed'' then st \<noteq> ''pausedDL'' \<and> st \<noteq> ''pausedUP''
      else if flt \<in> {''stalled'', ''stalled_uploading'', ''stalled_downloading''} then ts_state s = SLive \<and> (ts_live s \<longrightarrow> slow)
      else if flt = ''errored'' then st = ''error''
      else True)"

definition qbit_page :: "nat option \<Rightarrow> nat option \<Rightarrow> 'a list \<Rightarrow> 'a list" where
  "qbit_page offset limit torrents =
     (let off = (case offset of None \<Rightarrow> 0 | Some n \<Rightarrow> n);
          ts = (if 0 < off \<and> off < length torrents then drop off torrents else torrents)
      in case limit of None \<Rightarrow> ts | Some l \<Rightarrow> take l ts)"

definition qbit_eta :: "nat \<Rightarrow> nat \<Rightarrow> nat \<Rightarrow> nat" where
  "qbit_eta total_bytes progress_bytes dl_speed = (if 0 < dl_speed then min ((total_bytes - progress_bytes) div dl_speed) 8640000 else 8640000)"

subsection \<open>Actions\<close>

definition resolve_hashes :: "(string \<Rightarrow> torrent_id_or_hash option) \<Rightarrow> nat list \<Rightarrow> string \<Rightarrow> ('s, 'f, 'p) session \<Rightarrow> torrent_id_or_hash list" where
  "resolve_hashes parse order hashes S =
     (if hashes = ''all''
      then map (\<lambda>a. TorrentHash (th_info_hash (se_heap S a))) (List.map_filter (sd_torrents (se_db S)) order)
      else List.map_filter (\<lambda>h. let h' = trim h in if h' = [] then None else parse h') (split_on CHR ''|'' hashes))"

definition h_torrents_pause ::
  "'p persistence_ops \<Rightarrow> (string \<Rightarrow> torrent_id_or_hash option) \<Rightarrow> nat list \<Rightarrow> string \<Rightarrow> ('s, 'f, 'p) session \<Rightarrow> ('s, 'f, 'p) session" where
  "h_torrents_pause P parse order hashes S =
     fold (\<lambda>k S. snd (api_torrent_action_pause P k S)) (resolve_hashes parse order hashes S) S"

definition h_torrents_resume ::
  "('s, 'f) session_params \<Rightarrow> session_config \<Rightarrow> 'p persistence_ops \<Rightarrow> (torrent_id_or_hash \<Rightarrow> ('s, 'f) surroundings)
   \<Rightarrow> (string \<Rightarrow> torrent_id_or_hash option) \<Rightarrow> nat list \<Rightarrow> string \<Rightarrow> ('s, 'f, 'p) session \<Rightarrow> ('s, 'f, 'p) session" where
  "h_torrents_resume X C P us parse order hashes S =
     fold (\<lambda>k S. snd (api_torrent_action_start X C P (us k) k S)) (resolve_hashes parse order hashes S) S"

definition h_torrents_delete ::
  "'p persistence_ops \<Rightarrow> (string list \<Rightarrow> string list) \<Rightarrow> (torrent_id_or_hash \<Rightarrow> 's res) \<Rightarrow> (string \<Rightarrow> torrent_id_or_hash option)
   \<Rightarrow> nat list \<Rightarrow> string \<Rightarrow> bool \<Rightarrow> ('s, 'f, 'p) session \<Rightarrow> ('s, 'f, 'p) session" where
  "h_torrents_delete P set_order created parse order hashes delete_files S =
     fold (\<lambda>k S. snd (session_delete P set_order (created k) k delete_files S)) (resolve_hashes parse order hashes S) S"

definition h_create_category :: "string \<Rightarrow> string \<Rightarrow> qbit_state \<Rightarrow> qbit_response \<times> qbit_state" where
  "h_create_category category save_path q =
     (if category = [] then (QBadRequest, q)
      else (QOk, q\<lparr>qs_categories := (qs_categories q)(category \<mapsto> \<lparr>qc_name = category, qc_save_path = save_path\<rparr>)\<rparr>))"

definition h_edit_category :: "string \<Rightarrow> string \<Rightarrow> qbit_state \<Rightarrow> qbit_response \<times> qbit_state" where
  "h_edit_category category save_path q =
     (if category = [] then (QBadRequest, q)
      else (QOk, q\<lparr>qs_categories := (qs_categories q)(category \<mapsto>
        (case qs_categories q category of Some c \<Rightarrow> c\<lparr>qc_save_path := save_path\<rparr>
         | None \<Rightarrow> \<lparr>qc_name = category, qc_save_path = save_path\<rparr>))\<rparr>))"

definition h_remove_categories :: "string \<Rightarrow> qbit_state \<Rightarrow> qbit_state" where
  "h_remove_categories names q =
     q\<lparr>qs_categories := fold (\<lambda>n cs. if trim n = [] then cs else cs(trim n := None)) (split_on (CHR 0x0A) names) (qs_categories q)\<rparr>"

subsection \<open>Properties\<close>

text \<open>
  The API of qBittorrent is protected exactly when credentials come from the environment: then, starting without
  sessions, no sequence of requests without a login with these credentials gets through to a protected path or
  gets a session. Without them every request to a protected path gets through, also when credentials are stored.
\<close>

theorem qbit_access:
  "(\<forall>c. ha_basic_auth h = Some c \<longrightarrow> (\<forall>(e, req) \<in> set reqs. \<forall>u p. req = QLogin u p \<longrightarrow> (u, p) \<noteq> c) \<longrightarrow>
      set (fst (qbit_run h reqs qbit_new)) \<subseteq> {QFails, QOk, QNotAuthenticated})
   \<and> (ha_basic_auth h = None \<longrightarrow> qbit_guard now cookies h q = QPassed)"
proof -
  have handle: "\<exists>r. qbit_handle h e req q = (r, q) \<and> r \<in> {QFails, QOk, QNotAuthenticated}"
    if "ha_basic_auth h = Some c" "\<forall>u p. req = QLogin u p \<longrightarrow> (u, p) \<noteq> c" "qs_sessions q = Map.empty" for c e req and q :: qbit_state
    using that
    by (cases req) (auto simp: qbit_handle_def qbit_login_def qbit_logout_def qbit_guard_def remove_session_def validate_session_def split: option.split)
  have "set (fst (qbit_run h reqs q)) \<subseteq> {QFails, QOk, QNotAuthenticated}"
    if c: "ha_basic_auth h = Some c" "\<forall>(e, req) \<in> set reqs. \<forall>u p. req = QLogin u p \<longrightarrow> (u, p) \<noteq> c" and q: "qs_sessions q = Map.empty" for c and q :: qbit_state
    using c(2)
  proof (induction reqs)
    case (Cons x reqs)
    obtain e req where x: "x = (e, req)" by fastforce
    obtain r where "qbit_handle h e req q = (r, q)" "r \<in> {QFails, QOk, QNotAuthenticated}" using handle [OF c(1) _ q, of req e] Cons.prems x by auto
    with Cons x show ?case by (auto split: prod.split)
  qed simp
  then show ?thesis by (simp add: qbit_guard_def qbit_new_def)
qed

lemma delete_each:
  assumes "session_ok X strict S"
    and "\<And>i a. sd_torrents (se_db S) i = Some a \<Longrightarrow> TorrentHash (th_info_hash (se_heap S a)) \<in> set ks"
    and "\<And>k. k \<in> set ks \<Longrightarrow> \<exists>h. k = TorrentHash h"
  shows "sd_torrents (se_db (fold (\<lambda>k S. snd (session_delete P so (created k) k df S)) ks S)) = Map.empty"
  using assms
proof (induction ks arbitrary: S)
  case Nil
  then show ?case by (metis empty_iff list.set(1) ext fold_simps(1) not_Some_eq)
next
  case (Cons k ks)
  obtain h where k: "k = TorrentHash h" using Cons.prems(3) by auto
  obtain r S1 where S1: "session_delete P so (created k) k df S = (r, S1)" by fastforce
  have ok1: "session_ok X strict S1" using delete_ok [OF Cons.prems(1) S1] .
  have "TorrentHash (th_info_hash (se_heap S1 a)) \<in> set ks" if i: "sd_torrents (se_db S1) i = Some a" for i a
  proof (cases "session_get k S")
    case None
    then have "S1 = S" using S1 k by (auto simp: session_delete_def torrent_id_of_def session_get_def sm_bind_def sm_res_def ok_or_def split: option.splits)
    moreover have "th_info_hash (se_heap S a) \<noteq> h"
      using None k i session_get_hash_iff [OF Cons.prems(1), of h a] session_okD(3) [OF Cons.prems(1), of i a] \<open>S1 = S\<close>
      by (auto simp: session_get_def entry_ok_def)
    ultimately show ?thesis using Cons.prems(2) [of i a] i k by auto
  next
    case (Some b)
    note d = session_delete_db [OF Cons.prems(1) Some S1]
    have i': "sd_torrents (se_db S) i = Some a" "i \<noteq> th_id (se_heap S b)" using i by (auto simp: d(1) split: if_splits)
    have "th_info_hash (se_heap S a) \<noteq> h"
    proof
      assume "th_info_hash (se_heap S a) = h"
      then have "session_get k S = Some a" using i'(1) session_get_hash_iff [OF Cons.prems(1), of h a] session_okD(3) [OF Cons.prems(1) i'(1)] k
        by (auto simp: session_get_def entry_ok_def)
      then show False using Some i' session_okD(3) [OF Cons.prems(1) i'(1)] by (simp add: entry_ok_def)
    qed
    then show ?thesis using Cons.prems(2) [OF i'(1)] d(3) k by auto
  qed
  from Cons.IH [OF ok1 this] Cons.prems(3) S1 show ?case by simp
qed

text \<open>Deleting all torrents over the qBittorrent API leaves the session without torrents, even when pausing, the store or the removal of
  files fails for some of them.\<close>

theorem qbit_delete_all:
  assumes reach: "reach session_init (session_step X C strict) S" and order: "\<And>i. session_get (TorrentId i) S \<noteq> None \<Longrightarrow> i \<in> set order"
  shows "session_get k (h_torrents_delete P set_order created parse order ''all'' delete_files S) = None"
proof -
  note ok = session_sys.reach_inv [OF reach]
  have "TorrentHash (th_info_hash (se_heap S a)) \<in> set (resolve_hashes parse order ''all'' S)" if "sd_torrents (se_db S) i = Some a" for i a
    using that order [of i] by (force simp: resolve_hashes_def session_get_def List.map_filter_def)
  moreover have "\<exists>h. k = TorrentHash h" if "k \<in> set (resolve_hashes parse order ''all'' S)" for k
    using that by (auto simp: resolve_hashes_def)
  ultimately have "sd_torrents (se_db (h_torrents_delete P set_order created parse order ''all'' delete_files S)) = Map.empty"
    unfolding h_torrents_delete_def by (rule delete_each [OF ok])
  then show ?thesis
    by (auto simp: session_get_def db_get_by_info_hash_def split: torrent_id_or_hash.split bind_splits)
qed

theorem qbit_access_witness:
  "set (fst (qbit_run ex_http [((0, ''s''), QLogin ''u'' ''x''), ((1, ''t''), QProtected (Some ''SID=s''))] qbit_new)) \<subseteq> {QFails, QOk, QNotAuthenticated}"
  using qbit_access [of ex_http "[((0, ''s''), QLogin ''u'' ''x''), ((1, ''t''), QProtected (Some ''SID=s''))]"] by (simp add: ex_http_def)

theorem qbit_delete_all_witness:
  "session_get (TorrentId 0) ex_session = Some 0
   \<and> session_get (TorrentId 0) (h_torrents_delete ex_store_ops (\<lambda>x. x) (\<lambda>_. Inl Panic) (\<lambda>_. None) [0] ''all'' True ex_session) = None"
proof -
  have "i \<in> set [0]" if "session_get (TorrentId i) ex_session \<noteq> None" for i
    using that by (auto simp: ex_session_def insert_torrent_def session_new_def session_db_default_def db_existing_def db_get_by_info_hash_def
        ex_surroundings_def session_get_def db_add_torrent_def Let_def split: if_splits)
  from qbit_delete_all [OF ex_session_reach [of True] this] ex_session_values(1) show ?thesis by blast
qed

end
