(* ===== verification/Qbit_Torrents.thy ===== *)
theory Qbit_Torrents
  imports Qbit "HOL-Library.Sorting_Algorithms" "HOL-Library.List_Lexorder" "HOL-Library.Char_ord"
begin

text \<open>
  The torrents as the API of qBittorrent shows them (\<open>src/src/http_api/handlers/qbit_compat.rs\<close>): the list with its filters, order and paging, properties,
  files, and the form that adds torrents. Fields that are constants in the code are left out of the records. Quotients are \<open>f64\<close> in the code:
  \<open>qe_quot\<close>, over any linear order. The speeds come from estimators of another crate.
\<close>

subsection \<open>One torrent\<close>

record 'q qbit_env =
  qe_now :: nat
  qe_speeds :: "nat \<Rightarrow> nat \<times> nat \<times> bool"
  qe_quot :: "nat \<Rightarrow> nat \<Rightarrow> 'q"
  qe_lower :: "string \<Rightarrow> string"

record torrents_info_query =
  qq_filter :: "string option"
  qq_category :: "string option"
  qq_hashes :: "string option"
  qq_sort :: "string option"
  qq_reverse :: "bool option"
  qq_limit :: "nat option"
  qq_offset :: "nat option"

record 'q qbit_torrent_info =
  qi_added_on :: nat
  qi_amount_left :: nat
  qi_completed :: nat
  qi_completion_on :: int
  qi_content_path :: string
  qi_dlspeed :: nat
  qi_eta :: nat
  qi_hash :: string
  qi_name :: string
  qi_num_seeds :: nat
  qi_progress :: 'q
  qi_save_path :: string
  qi_state :: string
  qi_total_size :: nat
  qi_tracker :: string
  qi_trackers_count :: nat
  qi_uploaded :: nat
  qi_upspeed :: nat

definition i64_or :: "int \<Rightarrow> nat \<Rightarrow> int" where
  "i64_or d n = (if n < 2 ^ 63 then int n else d)"

definition completion_time :: "nat \<Rightarrow> bool \<Rightarrow> int" where
  "completion_time now finished = (if finished then i64_or (2 ^ 63 - 1) now else - 1)"

text \<open>Down and up, zero unless live; and whether the torrent counts as stalled.\<close>

definition qbit_speeds :: "'q qbit_env \<Rightarrow> nat \<Rightarrow> torrent_stats \<Rightarrow> nat \<times> nat" where
  "qbit_speeds E i s = (if ts_live s then (fst (qe_speeds E i), fst (snd (qe_speeds E i))) else (0, 0))"

definition num_seeds :: "('s, 'f) torrent \<Rightarrow> nat" where
  "num_seeds t = (case mt_state (th_managed t) of MLive _ l \<Rightarrow> unat (ag_live (ps_stats (lv_peers l))) | _ \<Rightarrow> 0)"

definition qbit_name :: "nat \<Rightarrow> ('s, 'f) torrent \<Rightarrow> string" where
  "qbit_name i t = (case torrent_name t of Some n \<Rightarrow> n | None \<Rightarrow> ''torrent_'' @ show_nat i)"

definition qbit_info ::
  "api_env \<Rightarrow> ('q :: zero) qbit_env \<Rightarrow> nat \<Rightarrow> ('s, 'f) torrent \<Rightarrow> torrent_stats \<Rightarrow> 'q qbit_torrent_info" where
  "qbit_info V E i t s =
     (let progress = unat (ts_progress_bytes s); speeds = qbit_speeds E i s
      in \<lparr>qi_added_on = qe_now E, qi_amount_left = ts_total_bytes s - progress, qi_completed = progress,
          qi_completion_on = completion_time (qe_now E) (ts_finished s),
          qi_content_path = th_output_folder t @ ''/'' @ qbit_name i t, qi_dlspeed = fst speeds,
          qi_eta = qbit_eta (ts_total_bytes s) progress (fst speeds), qi_hash = av_hash_to_str V (th_info_hash t), qi_name = qbit_name i t,
          qi_num_seeds = (if ts_live s then num_seeds t else 0), qi_progress = (if 0 < ts_total_bytes s then qe_quot E progress (ts_total_bytes s) else 0),
          qi_save_path = th_output_folder t, qi_state = map_state (ts_state s) (ts_finished s), qi_total_size = ts_total_bytes s,
          qi_tracker = (case th_trackers t of [] \<Rightarrow> [] | u # _ \<Rightarrow> u), qi_trackers_count = length (th_trackers t),
          qi_uploaded = unat (ts_uploaded_bytes s), qi_upspeed = snd speeds\<rparr>)"

definition hash_wanted :: "(string \<Rightarrow> string) \<Rightarrow> string option \<Rightarrow> string \<Rightarrow> bool" where
  "hash_wanted lower hashes h = (case hashes of None \<Rightarrow> True | Some hs \<Rightarrow> h \<in> set (map lower (split_on (CHR ''|'') hs)))"

text \<open>The body of the iteration: nothing for a torrent that is filtered out.\<close>

definition info_entry ::
  "api_env \<Rightarrow> ('q :: zero) qbit_env \<Rightarrow> torrents_info_query \<Rightarrow> nat \<times> ('s, 'f) torrent \<Rightarrow> 'q qbit_torrent_info option res" where
  "info_entry V E q = (\<lambda>(i, t).
     if \<not> hash_wanted (qe_lower E) (qq_hashes q) (av_hash_to_str V (th_info_hash t)) then Inr None
     else res_bind (stats (th_env t) (th_managed t)) (\<lambda>s.
       Inr (if (case qq_filter q of None \<Rightarrow> True | Some flt \<Rightarrow> matches_filter flt (map_state (ts_state s) (ts_finished s)) (snd (snd (qe_speeds E i))) s)
            then Some (qbit_info V E i t s) else None)))"

fun res_filter_map :: "('a \<Rightarrow> 'b option res) \<Rightarrow> 'a list \<Rightarrow> 'b list res" where
  "res_filter_map f [] = Inr []"
| "res_filter_map f (x # xs) =
     res_bind (f x) (\<lambda>y. res_bind (res_filter_map f xs) (\<lambda>ys. Inr (case y of None \<Rightarrow> ys | Some z \<Rightarrow> z # ys)))"

subsection \<open>The list\<close>

text \<open>An unknown field leaves the order as it is: the sort is stable. The ratio is always the same.\<close>

definition sort_field :: "string \<Rightarrow> ('q :: linorder) qbit_torrent_info comparator" where
  "sort_field f =
     (if f = ''name'' then key qi_name default
      else if f = ''size'' \<or> f = ''total_size'' then key qi_total_size default
      else if f = ''progress'' then key qi_progress default
      else if f = ''dlspeed'' then key qi_dlspeed default
      else if f = ''upspeed'' then key qi_upspeed default
      else if f = ''eta'' then key qi_eta default
      else if f = ''state'' then key qi_state default
      else if f = ''added_on'' then key qi_added_on default
      else if f = ''hash'' then key qi_hash default
      else if f = ''downloaded'' then key qi_completed default
      else if f = ''uploaded'' then key qi_uploaded default
      else flat)"

definition sort_order :: "torrents_info_query \<Rightarrow> ('q :: linorder) qbit_torrent_info comparator" where
  "sort_order q = (case qq_sort q of None \<Rightarrow> flat | Some f \<Rightarrow> if qq_reverse q = Some True then reversed (sort_field f) else sort_field f)"

definition h_torrents_info ::
  "api_env \<Rightarrow> ('q :: {linorder, zero}) qbit_env \<Rightarrow> torrents_info_query \<Rightarrow> nat list \<Rightarrow> ('s, 'f, 'p) session \<Rightarrow> 'q qbit_torrent_info list res" where
  "h_torrents_info V E q order S =
     res_bind (res_filter_map (info_entry V E q) (session_torrents order S)) (\<lambda>ts.
       Inr (qbit_page (qq_offset q) (qq_limit q) (if qq_sort q = None then ts else Sorting_Algorithms.sort (sort_order q) ts)))"

subsection \<open>Properties and files of a torrent\<close>

record qbit_properties =
  qp_save_path :: string
  qp_piece_size :: nat
  qp_total_uploaded :: nat
  qp_total_downloaded :: nat
  qp_addition_date :: nat
  qp_completion_date :: int
  qp_dl_speed :: nat
  qp_eta :: int
  qp_pieces_num :: nat
  qp_total_size :: nat
  qp_up_speed :: nat

definition qbit_lookup :: "api_env \<Rightarrow> string \<Rightarrow> ('s, 'f, 'p) session \<Rightarrow> ('s, 'f) torrent option" where
  "qbit_lookup V h S = map_option (se_heap S) (Option.bind (parse_id_or_hash V h) (\<lambda>k. session_get k S))"

text \<open>\<open>None\<close> is the answer 404. Unlike in the list, the time that is left is not capped.\<close>

definition h_torrents_properties :: "api_env \<Rightarrow> 'q qbit_env \<Rightarrow> string \<Rightarrow> ('s, 'f, 'p) session \<Rightarrow> qbit_properties res option" where
  "h_torrents_properties V E h S =
     map_option (\<lambda>t. res_bind (stats (th_env t) (th_managed t)) (\<lambda>s.
       let L = le_lengths (ie_live (me_init (th_env t))); loaded = loaded_meta t \<noteq> None;
           progress = unat (ts_progress_bytes s); speeds = qbit_speeds E (th_id t) s
       in Inr \<lparr>qp_save_path = th_output_folder t, qp_piece_size = (if loaded then default_piece_length L else 0),
            qp_total_uploaded = unat (ts_uploaded_bytes s), qp_total_downloaded = progress, qp_addition_date = qe_now E,
            qp_completion_date = completion_time (qe_now E) (ts_finished s), qp_dl_speed = fst speeds,
            qp_eta = (if 0 < fst speeds then i64_or 8640000 ((ts_total_bytes s - progress) div fst speeds) else 8640000),
            qp_pieces_num = (if loaded then total_pieces L else 0), qp_total_size = ts_total_bytes s, qp_up_speed = snd speeds\<rparr>))
     (qbit_lookup V h S)"

record 'q qbit_file_info =
  qf_index :: nat
  qf_name :: string
  qf_size :: nat
  qf_progress :: 'q
  qf_priority :: nat
  qf_is_seed :: bool
  qf_availability :: 'q

definition qbit_file :: "('q :: {linorder, one}) qbit_env \<Rightarrow> torrent_stats \<Rightarrow> nat \<times> details_file \<Rightarrow> 'q qbit_file_info" where
  "qbit_file E s = (\<lambda>(i, f).
     let file_progress = (case vec_get (ts_file_progress s) i of None \<Rightarrow> 0 | Some p \<Rightarrow> p);
         progress = (if 0 < df_length f then qe_quot E file_progress (df_length f) else 1)
     in \<lparr>qf_index = i, qf_name = df_name f, qf_size = df_length f, qf_progress = progress, qf_priority = (if df_included f then 1 else 0),
         qf_is_seed = ts_finished s, qf_availability = (if 1 \<le> progress then 1 else progress)\<rparr>)"

definition h_torrents_files ::
  "api_env \<Rightarrow> ('q :: {linorder, one}) qbit_env \<Rightarrow> string \<Rightarrow> ('s, 'f, 'p) session \<Rightarrow> 'q qbit_file_info list res option" where
  "h_torrents_files V E h S =
     map_option (\<lambda>t. res_bind (stats (th_env t) (th_managed t)) (\<lambda>s.
       Inr (map (qbit_file E s) (List.enumerate 0 (case td_files (details_of V (Some (th_id t)) t) of None \<Rightarrow> [] | Some fs \<Rightarrow> fs)))))
     (qbit_lookup V h S)"

subsection \<open>Adding torrents\<close>

text \<open>The fields of the form up to its end or its first malformed field, each with its text and its bytes, where they can be read.\<close>

record form_field =
  ff_name :: string
  ff_text :: "string option"
  ff_bytes :: "byte list option"

record add_form =
  af_urls :: "string list"
  af_torrent_bytes :: "byte list list"
  af_savepath :: "string option"
  af_paused :: bool

definition add_form_new :: add_form where
  "add_form_new = \<lparr>af_urls = [], af_torrent_bytes = [], af_savepath = None, af_paused = False\<rparr>"

definition push_url :: "string \<Rightarrow> string list \<Rightarrow> string list" where
  "push_url line urls = (let u = trim line in if u \<noteq> [] \<and> length urls < 100 then urls @ [u] else urls)"

definition form_step :: "(string \<Rightarrow> string) \<Rightarrow> form_field \<Rightarrow> add_form \<Rightarrow> add_form" where
  "form_step lower fld f =
     (if ff_name fld = ''urls''
      then (case ff_text fld of None \<Rightarrow> f | Some text \<Rightarrow> f\<lparr>af_urls := fold push_url (split_on (CHR 0x0A) text) (af_urls f)\<rparr>)
      else if ff_name fld = ''torrents''
      then (if 100 \<le> length (af_torrent_bytes f) then f
            else case ff_bytes fld of None \<Rightarrow> f | Some b \<Rightarrow> if b = [] then f else f\<lparr>af_torrent_bytes := af_torrent_bytes f @ [b]\<rparr>)
      else if ff_name fld = ''savepath''
      then (case ff_text fld of None \<Rightarrow> f | Some text \<Rightarrow> if text = [] then f else f\<lparr>af_savepath := Some text\<rparr>)
      else if ff_name fld = ''paused''
      then (case ff_text fld of None \<Rightarrow> f | Some text \<Rightarrow> f\<lparr>af_paused := lower text = ''true''\<rparr>)
      else f)"

definition form_options :: "add_form \<Rightarrow> add_options" where
  "form_options f = add_options_default\<lparr>ao_paused := af_paused f, ao_overwrite := True, ao_output_folder := af_savepath f\<rparr>"

definition form_torrents :: "add_form \<Rightarrow> add_torrent list" where
  "form_torrents f = map AddUrl (af_urls f) @ map AddTorrentFileBytes (af_torrent_bytes f)"

text \<open>What surrounds one addition: the tasks of the torrent, the download of a torrent file, and the search for the metadata.\<close>

type_synonym ('s, 'f) add_context = "('s, 'f) surroundings \<times> (string \<Rightarrow> torrent_meta res) \<times> resolve_outcome"

definition qbit_add_one ::
  "('s, 'f) session_params \<Rightarrow> session_config \<Rightarrow> 'p persistence_ops \<Rightarrow> add_options \<Rightarrow> nat \<times> add_torrent \<Rightarrow> (nat \<Rightarrow> ('s, 'f) add_context)
   \<Rightarrow> bool \<times> ('s, 'f, 'p) session \<Rightarrow> bool \<times> ('s, 'f, 'p) session" where
  "qbit_add_one X C P opts = (\<lambda>(n, add) ctx (had_error, S).
     case ctx n of (u, http, resolve) \<Rightarrow>
       (case api_add_torrent X C P u http resolve add (Some opts) S of
          (Inl _, S1) \<Rightarrow> (True, S1)
        | (Inr _, S1) \<Rightarrow> (had_error, S1)))"

text \<open>The status, and the session after every torrent of the form was tried.\<close>

definition h_torrents_add ::
  "('s, 'f) session_params \<Rightarrow> session_config \<Rightarrow> 'p persistence_ops \<Rightarrow> (string \<Rightarrow> string) \<Rightarrow> (nat \<Rightarrow> ('s, 'f) add_context) \<Rightarrow> form_field list
   \<Rightarrow> ('s, 'f, 'p) session \<Rightarrow> nat \<times> ('s, 'f, 'p) session" where
  "h_torrents_add X C P lower ctx parts S =
     (let f = fold (form_step lower) parts add_form_new;
          r = fold (\<lambda>x. qbit_add_one X C P (form_options f) x ctx) (List.enumerate 0 (form_torrents f)) (False, S)
      in (if fst r then 500 else 200, snd r))"

subsection \<open>Properties\<close>

lemma session_state_ok:
  assumes "reach session_init (session_step X C strict) S" and "\<And>meta. menv_ok (sx_env X meta)" and "sd_torrents (se_db S) i = Some a"
  shows "state_ok (ie_live (me_init (th_env (se_heap S a)))) (mt_state (th_managed (se_heap S a)))"
  using session_okD(3) [OF session_sys.reach_inv [OF assms(1)] assms(3)] managed_sys.reach_inv assms(2) by (force simp: entry_ok_def)

lemma stats_returns:
  assumes "state_ok E (mt_state m)"
  shows "\<exists>s. stats M m = Inr s"
proof (cases "mt_state m")
  case (MPaused p)
  then have "ct_inv (pa_chunk_tracker p)" using assms by (simp add: state_ok_def paused_ok_def)
  then show ?thesis using MPaused ct_inv_progress by (simp add: stats_def paused_hns_def Let_def)
next
  case (MLive t l)
  have "\<exists>n. hns_progress (case get_hns l of None \<Rightarrow> hns_default | Some h \<Rightarrow> h) = Inr n"
  proof (cases "get_hns l")
    case None
    then show ?thesis by (simp add: hns_progress_def hns_default_def checked_sub_def)
  next
    case (Some h)
    then obtain pt where pt: "lv_pieces l = Some pt" "h = hns (chunks pt)" by (auto simp: get_hns_def get_chunks_def split: sum.splits option.splits)
    then have "ct_inv (chunks pt)" using assms MLive by (auto simp: state_ok_def live_consistent_def live_ok_def pt_wf_def)
    then show ?thesis using Some pt ct_inv_progress by simp
  qed
  then show ?thesis using MLive by (auto simp: stats_def Let_def)
qed (use assms in \<open>simp_all add: stats_def state_ok_def Let_def\<close>)

lemma res_filter_map_spec:
  "(\<And>x. x \<in> set xs \<Longrightarrow> f x = Inr (g x)) \<Longrightarrow> res_filter_map f xs = Inr (List.map_filter g xs)"
  by (induction xs) (auto simp: List.map_filter_def split: option.split)

lemma sorted_page: "Sorting_Algorithms.sorted c xs \<Longrightarrow> Sorting_Algorithms.sorted c (qbit_page off lim xs)"
proof -
  have "Sorting_Algorithms.sorted c (take n ys) \<and> Sorting_Algorithms.sorted c (drop n ys)" if "Sorting_Algorithms.sorted c ys" for n and ys :: "'a list"
    using that sorted_append_iff [of c "take n ys" "drop n ys"] by simp
  then show "Sorting_Algorithms.sorted c xs \<Longrightarrow> ?thesis" by (auto simp: qbit_page_def Let_def split: option.splits)
qed

lemma sorted_flat: "Sorting_Algorithms.sorted flat xs"
  by (induction xs rule: induct_list012) (simp_all add: flat.rep_eq)

lemma set_of_map_filter: "set (List.map_filter g xs) = {y. \<exists>x \<in> set xs. g x = Some y}"
  by (force simp: List.map_filter_def)

lemma length_of_map_filter: "length (List.map_filter g xs) = length (filter (\<lambda>x. g x \<noteq> None) xs)"
  by (simp add: List.map_filter_def)

text \<open>What the list holds without a page: for a torrent that is not filtered out its entry.\<close>

definition info_shown ::
  "api_env \<Rightarrow> ('q :: zero) qbit_env \<Rightarrow> torrents_info_query \<Rightarrow> nat \<times> ('s, 'f) torrent \<Rightarrow> 'q qbit_torrent_info option" where
  "info_shown V E q it = (case info_entry V E q it of Inl _ \<Rightarrow> None | Inr x \<Rightarrow> x)"

lemma info_entry_returns:
  assumes "reach session_init (session_step X C strict) S" and "\<And>meta. menv_ok (sx_env X meta)" and "it \<in> set (session_torrents order S)"
  shows "info_entry V E q it = Inr (info_shown V E q it)"
proof -
  obtain i a where a: "it = (i, se_heap S a)" "sd_torrents (se_db S) i = Some a"
    using assms(3) by (auto simp: session_torrents_def List.map_filter_def split: option.splits)
  obtain s where "stats (th_env (se_heap S a)) (th_managed (se_heap S a)) = Inr s" using stats_returns session_state_ok [OF assms(1,2) a(2)] by blast
  then show ?thesis by (simp add: info_shown_def info_entry_def a(1))
qed

lemma torrents_info_list:
  assumes "reach session_init (session_step X C strict) S" and "\<And>meta. menv_ok (sx_env X meta)"
  shows "\<exists>ts. mset ts = mset (List.map_filter (info_shown V E q) (session_torrents order S)) \<and> Sorting_Algorithms.sorted (sort_order q) ts
    \<and> h_torrents_info V E q order S = Inr (qbit_page (qq_offset q) (qq_limit q) ts)"
proof -
  let ?l = "List.map_filter (info_shown V E q) (session_torrents order S)"
  have "res_filter_map (info_entry V E q) (session_torrents order S) = Inr ?l"
    using info_entry_returns [OF assms] by (rule res_filter_map_spec)
  then show ?thesis
    by (cases "qq_sort q") (auto simp: h_torrents_info_def sort_order_def sorted_flat intro: exI [of _ ?l] exI [of _ "Sorting_Algorithms.sort (sort_order q) ?l"])
qed

text \<open>
  The list of torrents of the qBittorrent API. In every reachable session, with torrents in any state, the answer is a list (no statistics panic) in the
  order that was asked for; without a page it has exactly the entries of the torrents of the session that are not filtered out.
\<close>

theorem qbit_info_lists:
  assumes "reach session_init (session_step X C strict) S" and "\<And>meta. menv_ok (sx_env X meta)"
    and order: "\<And>i. session_get (TorrentId i) S \<noteq> None \<Longrightarrow> i \<in> set order"
  shows "\<exists>ts. h_torrents_info V E q order S = Inr ts \<and> Sorting_Algorithms.sorted (sort_order q) ts
    \<and> (qq_offset q = None \<longrightarrow> qq_limit q = None \<longrightarrow>
        set ts = {x. \<exists>i a. session_get (TorrentId i) S = Some a \<and> info_shown V E q (i, se_heap S a) = Some x}
        \<and> (distinct order \<longrightarrow> length ts = card {i. \<exists>a. session_get (TorrentId i) S = Some a \<and> info_shown V E q (i, se_heap S a) \<noteq> None}))"
proof -
  obtain ts where ts: "mset ts = mset (List.map_filter (info_shown V E q) (session_torrents order S))" "Sorting_Algorithms.sorted (sort_order q) ts"
      "h_torrents_info V E q order S = Inr (qbit_page (qq_offset q) (qq_limit q) ts)"
    using torrents_info_list [OF assms(1,2)] by blast
  let ?l = "List.map_filter (info_shown V E q) (session_torrents order S)"
  let ?g = "\<lambda>i. Option.bind (session_get (TorrentId i) S) (\<lambda>a. info_shown V E q (i, se_heap S a))"
  have l: "?l = List.map_filter ?g order"
    by (induction order) (auto simp: session_torrents_def session_get_def List.map_filter_simps split: option.split)
  have ids: "{i. ?g i \<noteq> None} = {i \<in> set order. ?g i \<noteq> None}" using order by (auto split: bind_splits)
  have "set ts = set ?l" using ts(1) by (metis set_mset_mset)
  also have "\<dots> = {x. \<exists>i \<in> set order. ?g i = Some x}" unfolding l by (rule set_of_map_filter)
  also have "\<dots> = {x. \<exists>i. ?g i = Some x}" using ids by blast
  finally have set_ts: "set ts = {x. \<exists>i a. session_get (TorrentId i) S = Some a \<and> info_shown V E q (i, se_heap S a) = Some x}"
    by (auto simp: bind_eq_Some_conv)
  have "length ts = length (filter (\<lambda>i. ?g i \<noteq> None) order)"
    using arg_cong [OF ts(1), of size] by (simp add: l length_of_map_filter)
  moreover have "distinct order \<Longrightarrow> length (filter (\<lambda>i. ?g i \<noteq> None) order) = card {i. ?g i \<noteq> None}"
    unfolding ids using distinct_card [of "filter (\<lambda>i. ?g i \<noteq> None) order"] by simp
  moreover have "{i. ?g i \<noteq> None} = {i. \<exists>a. session_get (TorrentId i) S = Some a \<and> info_shown V E q (i, se_heap S a) \<noteq> None}"
    by (auto split: bind_splits)
  ultimately have count: "distinct order \<Longrightarrow> length ts = card {i. \<exists>a. session_get (TorrentId i) S = Some a \<and> info_shown V E q (i, se_heap S a) \<noteq> None}"
    by simp
  have "qbit_page None None ts = ts" by (simp add: qbit_page_def)
  then show ?thesis
    using ts(3) sorted_page [OF ts(2)] set_ts count by (intro exI [of _ "qbit_page (qq_offset q) (qq_limit q) ts"]) auto
qed

lemma push_url_bound: "length urls \<le> 100 \<Longrightarrow> length (fold push_url ls urls) \<le> 100"
  by (induction ls arbitrary: urls) (simp_all add: push_url_def Let_def)

lemma form_step_bound:
  assumes "length (af_urls f) \<le> 100" and "length (af_torrent_bytes f) \<le> 100"
  shows "length (af_urls (form_step lower x f)) \<le> 100 \<and> length (af_torrent_bytes (form_step lower x f)) \<le> 100"
  using assms push_url_bound by (auto simp: form_step_def split: option.split)

lemma form_bound:
  "length (af_urls (fold (form_step lower) parts add_form_new)) \<le> 100 \<and> length (af_torrent_bytes (fold (form_step lower) parts add_form_new)) \<le> 100"
proof -
  have "length (af_urls f) \<le> 100 \<Longrightarrow> length (af_torrent_bytes f) \<le> 100 \<Longrightarrow>
      length (af_urls (fold (form_step lower) parts f)) \<le> 100 \<and> length (af_torrent_bytes (fold (form_step lower) parts f)) \<le> 100" for f
    by (induction parts arbitrary: f) (simp_all add: form_step_bound)
  then show ?thesis by (simp add: add_form_new_def)
qed

lemma qbit_add_one_reach:
  assumes "reach session_init (session_step X C strict) (snd r)"
  shows "reach session_init (session_step X C strict) (snd (qbit_add_one X C P opts x ctx r))"
proof -
  obtain n add where x: "x = (n, add)" by fastforce
  obtain e S where r: "r = (e, S)" by fastforce
  obtain u http resolve where c: "ctx n = (u, http, resolve)" by (cases "ctx n") auto
  obtain r1 S1 where s: "session_add_torrent X C P u True http resolve add (Some opts) S = (r1, S1)" by fastforce
  have "reach session_init (session_step X C strict) S1" using add_torrent_reach [OF _ s] assms r by simp
  then show ?thesis by (simp add: x r c qbit_add_one_def api_add_torrent_def s map_err_def split: sum.split)
qed

text \<open>Adding over a form leaves the session one that its steps reach, whatever the form says and whichever additions fail.\<close>

lemma qbit_add_reach:
  assumes "reach session_init (session_step X C strict) S"
  shows "reach session_init (session_step X C strict) (snd (h_torrents_add X C P lower ctx parts S))"
proof -
  have "reach session_init (session_step X C strict) (snd r) \<Longrightarrow>
      reach session_init (session_step X C strict) (snd (fold (\<lambda>x. qbit_add_one X C P opts x ctx) xs r))" for opts xs and r :: "bool \<times> ('a, 'b, 'c) session"
    by (induction xs arbitrary: r) (simp_all add: qbit_add_one_reach)
  then show ?thesis using assms by (simp add: h_torrents_add_def Let_def)
qed

subsection \<open>Examples\<close>

definition ex_api :: api_env where
  "ex_api = \<lparr>av_files = (\<lambda>_. []), av_filename = concat, av_mime = (\<lambda>_. None), av_hash_to_str = (\<lambda>_. []), av_hash_from_str = (\<lambda>_. None),
     av_total_pieces = (\<lambda>_. 0)\<rparr>"

definition ex_qbit :: "nat qbit_env" where
  "ex_qbit = \<lparr>qe_now = 0, qe_speeds = (\<lambda>_. (0, 0, True)), qe_quot = (\<lambda>a b. 100 * a div b), qe_lower = (\<lambda>s. s)\<rparr>"

definition ex_query :: torrents_info_query where
  "ex_query = \<lparr>qq_filter = None, qq_category = None, qq_hashes = None, qq_sort = Some ''name'', qq_reverse = Some True, qq_limit = None, qq_offset = None\<rparr>"

theorem qbit_info_lists_witness:
  "\<exists>ts. h_torrents_info ex_api ex_qbit ex_query [0] ex_session = Inr ts \<and> Sorting_Algorithms.sorted (reversed (key qi_name default)) ts
     \<and> length ts = card {i. \<exists>a. session_get (TorrentId i) ex_session = Some a \<and> info_shown ex_api ex_qbit ex_query (i, se_heap ex_session a) \<noteq> None}"
proof -
  have "i \<in> set [0]" if "session_get (TorrentId i) ex_session \<noteq> None" for i
    using that by (auto simp: ex_session_def insert_torrent_def session_new_def session_db_default_def db_existing_def db_get_by_info_hash_def
        ex_surroundings_def session_get_def db_add_torrent_def Let_def split: if_splits)
  moreover have "menv_ok (sx_env ex_params meta)" for meta using ex_managed_env_ok by (simp add: ex_params_def)
  ultimately show ?thesis
    using qbit_info_lists [OF ex_session_reach [of True], of "[0]" ex_api ex_qbit ex_query] by (auto simp: ex_query_def sort_order_def sort_field_def)
qed

end
