(* ===== verification/Server.thy ===== *)
theory Server
  imports Http_Router Qbit_Torrents
begin

text \<open>
  The whole HTTP server (\<open>make_http_api_and_run\<close> in \<open>src/src/http_api/mod.rs\<close>): the API of \<open>Http_Router\<close> behind its authentication layer, and beside it, mounted
  after that layer, the qBittorrent API under \<open>/api/v2\<close> with the router, the layer and the sessions of its own (\<open>handlers/qbit_compat.rs\<close>).
\<close>

subsection \<open>Routes of the qBittorrent API\<close>

datatype qbit_handler =
    H_auth_login | H_auth_logout | H_app_version | H_app_webapi_version | H_app_build_info | H_app_preferences
  | H_torrents_info | H_torrents_properties | H_torrents_files | H_torrents_add | H_torrents_pause | H_torrents_resume | H_torrents_delete
  | H_torrents_set_category | H_categories | H_create_category | H_edit_category | H_remove_categories | H_transfer_info

definition nest :: "string \<Rightarrow> (http_method \<times> string \<times> 'h) list \<Rightarrow> (http_method \<times> string \<times> 'h) list" where
  "nest base = map (\<lambda>(m, path, h). (m, base @ path, h))"

definition qbit_auth_router :: "(http_method \<times> string \<times> qbit_handler) list" where
  "qbit_auth_router = [(Post, ''/login'', H_auth_login), (Post, ''/logout'', H_auth_logout)]"

definition qbit_app_router :: "(http_method \<times> string \<times> qbit_handler) list" where
  "qbit_app_router =
     [(Get, ''/version'', H_app_version), (Get, ''/webapiVersion'', H_app_webapi_version), (Get, ''/buildInfo'', H_app_build_info),
      (Get, ''/preferences'', H_app_preferences)]"

definition qbit_torrents_router :: "(http_method \<times> string \<times> qbit_handler) list" where
  "qbit_torrents_router =
     [(Get, ''/info'', H_torrents_info), (Get, ''/properties'', H_torrents_properties), (Get, ''/files'', H_torrents_files), (Post, ''/add'', H_torrents_add),
      (Post, ''/pause'', H_torrents_pause), (Post, ''/resume'', H_torrents_resume), (Post, ''/delete'', H_torrents_delete),
      (Post, ''/setCategory'', H_torrents_set_category), (Get, ''/categories'', H_categories), (Post, ''/createCategory'', H_create_category),
      (Post, ''/editCategory'', H_edit_category), (Post, ''/removeCategories'', H_remove_categories)]"

definition qbit_transfer_router :: "(http_method \<times> string \<times> qbit_handler) list" where
  "qbit_transfer_router = [(Get, ''/info'', H_transfer_info)]"

definition qbit_protected_router :: "(http_method \<times> string \<times> qbit_handler) list" where
  "qbit_protected_router = nest ''/app'' qbit_app_router @ nest ''/torrents'' qbit_torrents_router @ nest ''/transfer'' qbit_transfer_router"

definition make_qbit_router :: "(http_method \<times> string \<times> qbit_handler) list" where
  "make_qbit_router = nest ''/auth'' qbit_auth_router @ qbit_protected_router"

definition behind_qbit_layer :: "qbit_handler \<Rightarrow> bool" where
  "behind_qbit_layer h \<longleftrightarrow> h \<in> (\<lambda>(_, _, h). h) ` set qbit_protected_router"

subsection \<open>Calls of the qBittorrent API\<close>

text \<open>A call with the fields of its form and what surrounds it; the handlers that only read are one case.\<close>

datatype ('s, 'f) qbit_call =
    CLogin string string
  | CLogout
  | CRead qbit_handler
  | CAdd "nat \<Rightarrow> ('s, 'f) add_context" "form_field list"
  | CPause "nat list" string
  | CResume "torrent_id_or_hash \<Rightarrow> ('s, 'f) surroundings" "nat list" string
  | CDelete "torrent_id_or_hash \<Rightarrow> 's res" "nat list" string "string option"
  | CSetCategory string string
  | CCreateCategory string string
  | CEditCategory string string
  | CRemoveCategories string

definition call_handler :: "('s, 'f) qbit_call \<Rightarrow> qbit_handler" where
  "call_handler c =
     (case c of
        CLogin _ _ \<Rightarrow> H_auth_login | CLogout \<Rightarrow> H_auth_logout | CRead h \<Rightarrow> h | CAdd _ _ \<Rightarrow> H_torrents_add | CPause _ _ \<Rightarrow> H_torrents_pause
      | CResume _ _ _ \<Rightarrow> H_torrents_resume | CDelete _ _ _ _ \<Rightarrow> H_torrents_delete | CSetCategory _ _ \<Rightarrow> H_torrents_set_category
      | CCreateCategory _ _ \<Rightarrow> H_create_category | CEditCategory _ _ \<Rightarrow> H_edit_category | CRemoveCategories _ \<Rightarrow> H_remove_categories)"

datatype qbit_served = QNotRouted | QRefused | QStatus nat | QAnswer qbit_response | QData

text \<open>The handlers; those for torrents are over the session, those for categories over the state of the API itself. Setting a category of a torrent does nothing.\<close>

definition run_qbit ::
  "('s, 'f, 'p) server_env \<Rightarrow> api_env \<Rightarrow> (string \<Rightarrow> string) \<Rightarrow> nat \<Rightarrow> string \<Rightarrow> http_auth \<Rightarrow> string option \<Rightarrow> ('s, 'f) qbit_call
   \<Rightarrow> ('s, 'f, 'p) session \<times> qbit_state \<Rightarrow> qbit_served \<times> ('s, 'f, 'p) session \<times> qbit_state" where
  "run_qbit E V lower now sid A cookies c = (\<lambda>(S, q).
     let X = sv_params E; C = sv_config E; P = sv_store E; parse = parse_id_or_hash V
     in case c of
          CLogin u p \<Rightarrow> (case qbit_login now sid u p A q of (r, q1) \<Rightarrow> (QAnswer r, S, q1))
        | CLogout \<Rightarrow> (case qbit_logout cookies q of (r, q1) \<Rightarrow> (QAnswer r, S, q1))
        | CRead _ \<Rightarrow> (QData, S, q)
        | CAdd ctx parts \<Rightarrow> (case h_torrents_add X C P lower ctx parts S of (status, S1) \<Rightarrow> (QStatus status, S1, q))
        | CPause order hashes \<Rightarrow> (QAnswer QOk, h_torrents_pause P parse order hashes S, q)
        | CResume us order hashes \<Rightarrow> (QAnswer QOk, h_torrents_resume X C P us parse order hashes S, q)
        | CDelete created order hashes files \<Rightarrow>
            (QAnswer QOk, h_torrents_delete P (sv_set_order E) created parse order hashes (map_option lower files = Some ''true'') S, q)
        | CSetCategory _ _ \<Rightarrow> (QAnswer QOk, S, q)
        | CCreateCategory name path \<Rightarrow> (case h_create_category name path q of (r, q1) \<Rightarrow> (QAnswer r, S, q1))
        | CEditCategory name path \<Rightarrow> (case h_edit_category name path q of (r, q1) \<Rightarrow> (QAnswer r, S, q1))
        | CRemoveCategories names \<Rightarrow> (QAnswer QOk, S, h_remove_categories names q))"

definition serve_qbit ::
  "('s, 'f, 'p) server_env \<Rightarrow> api_env \<Rightarrow> (string \<Rightarrow> string) \<Rightarrow> nat \<Rightarrow> string \<Rightarrow> http_auth \<Rightarrow> string option \<Rightarrow> ('s, 'f) qbit_call
   \<Rightarrow> ('s, 'f, 'p) session \<times> qbit_state \<Rightarrow> qbit_served \<times> ('s, 'f, 'p) session \<times> qbit_state" where
  "serve_qbit E V lower now sid A cookies c st =
     (if call_handler c \<notin> (\<lambda>(_, _, h). h) ` set make_qbit_router then (QNotRouted, st)
      else if behind_qbit_layer (call_handler c) \<and> qbit_guard now cookies A (snd st) \<noteq> QPassed then (QRefused, st)
      else run_qbit E V lower now sid A cookies c st)"

subsection \<open>The server\<close>

record ('s, 'f, 'p) http_server =
  hs_rss :: "rss_db option"
  hs_session :: "('s, 'f, 'p) session"
  hs_qbit :: qbit_state

text \<open>A request to the API with its authorization header, or to \<open>/api/v2\<close> with its cookies; the clock, and the text of a new session id.\<close>

datatype ('s, 'f) server_request =
    ToApi nat "string option" "('s, 'f) http_request"
  | ToQbit nat string "string option" "('s, 'f) qbit_call"

definition server_step ::
  "('s, 'f, 'p) server_env \<Rightarrow> api_env \<Rightarrow> (string \<Rightarrow> string) \<Rightarrow> (string \<Rightarrow> string option) \<Rightarrow> router_opts \<Rightarrow> http_auth \<Rightarrow> ('s, 'f) server_request
   \<Rightarrow> ('s, 'f, 'p) http_server \<Rightarrow> (served + qbit_served) \<times> ('s, 'f, 'p) http_server" where
  "server_step E V lower base64 opts A req hs =
     (case req of
        ToApi now header r \<Rightarrow>
          (case serve E opts A base64 now (header, r) (hs_rss hs, hs_session hs) of
             (x, rd, S) \<Rightarrow> (Inl x, hs\<lparr>hs_rss := rd, hs_session := S\<rparr>))
      | ToQbit now sid cookies c \<Rightarrow>
          (case serve_qbit E V lower now sid A cookies c (hs_session hs, hs_qbit hs) of
             (x, S, q) \<Rightarrow> (Inr x, hs\<lparr>hs_session := S, hs_qbit := q\<rparr>)))"

definition server_run ::
  "('s, 'f, 'p) server_env \<Rightarrow> api_env \<Rightarrow> (string \<Rightarrow> string) \<Rightarrow> (string \<Rightarrow> string option) \<Rightarrow> router_opts \<Rightarrow> http_auth \<Rightarrow> ('s, 'f) server_request list
   \<Rightarrow> ('s, 'f, 'p) http_server \<Rightarrow> ('s, 'f, 'p) http_server" where
  "server_run E V lower base64 opts A reqs hs = fold (\<lambda>r hs. snd (server_step E V lower base64 opts A r hs)) reqs hs"

subsection \<open>Properties\<close>

lemmas qbit_router_defs = make_qbit_router_def qbit_auth_router_def qbit_app_router_def qbit_torrents_router_def qbit_transfer_router_def
  qbit_protected_router_def nest_def behind_qbit_layer_def

lemma fold_keeps: "(\<And>k S. R S \<Longrightarrow> R (f k S)) \<Longrightarrow> R S \<Longrightarrow> R (fold f ks S)"
  by (induction ks arbitrary: S) simp_all

lemma api_act_reach:
  "reach session_init (session_step X C strict) S \<Longrightarrow> reach session_init (session_step X C strict) (snd (api_act X C P set_order utf8 act S))"
  using api_actions_reach [of X C strict S P set_order utf8 "[act]"] by simp

lemma create_reach:
  assumes "reach session_init (session_step X C strict) S" and "h_create_torrent X C P u exists created utf8 allow body S = (r, S')"
  shows "reach session_init (session_step X C strict) S'"
  using assms
  by (auto simp: h_create_torrent_def create_and_serve_torrent_def intro: add_torrent_reach split: if_splits option.splits sum.splits prod.splits)

lemma run_request_reach:
  assumes "reach session_init (session_step (sv_params E) (sv_config E) strict) S"
  shows "reach session_init (session_step (sv_params E) (sv_config E) strict) (snd (snd (run_request E allow r (rd, S))))"
proof (cases r)
  case (ReqAction act)
  then show ?thesis using api_act_reach [OF assms] by (simp add: run_request_def Let_def case_prod_beta)
next
  case (ReqAddPeers cid now k body)
  then show ?thesis using add_peers_reach [OF assms] by (simp add: run_request_def Let_def split: prod.split)
next
  case (ReqCreate u body)
  then show ?thesis using create_reach [OF assms] by (simp add: run_request_def Let_def split: prod.split)
next
  case (ReqResolveMagnet u http resolve url)
  then show ?thesis using assms by (simp add: run_request_def Let_def case_prod_beta resolve_magnet_no_change)
next
  case (ReqRssDownload ok v i)
  then show ?thesis
    using assms by (auto simp: run_request_def h_rss_item_download_def intro: rss_add_reach split: option.splits sum.splits prod.splits)
qed (use assms in \<open>simp_all add: run_request_def Let_def split: prod.split\<close>)

lemma serve_reach:
  assumes "reach session_init (session_step (sv_params E) (sv_config E) strict) S"
  shows "reach session_init (session_step (sv_params E) (sv_config E) strict) (snd (snd (serve E opts A base64 now (header, r) (rd, S))))"
  using assms run_request_reach [OF assms] by (auto simp: serve_def split: option.split)

lemma run_qbit_reach:
  assumes "reach session_init (session_step (sv_params E) (sv_config E) strict) S"
  shows "reach session_init (session_step (sv_params E) (sv_config E) strict) (fst (snd (run_qbit E V lower now sid A cookies c (S, q))))"
proof (cases c)
  case (CAdd ctx parts)
  then show ?thesis using qbit_add_reach [OF assms] by (simp add: run_qbit_def Let_def case_prod_beta)
next
  case (CPause order hashes)
  have "reach session_init (session_step (sv_params E) (sv_config E) strict) (snd (api_torrent_action_pause (sv_store E) k S1))"
    if "reach session_init (session_step (sv_params E) (sv_config E) strict) S1" for k S1
    using api_act_reach [OF that, of _ _ _ "ActPause k"] by (simp add: api_act_def)
  then have "reach session_init (session_step (sv_params E) (sv_config E) strict) (fold (\<lambda>k S. snd (api_torrent_action_pause (sv_store E) k S)) ks S)" for ks
    using assms by (rule fold_keeps)
  then show ?thesis using CPause by (simp add: run_qbit_def Let_def h_torrents_pause_def)
next
  case (CResume us order hashes)
  have "reach session_init (session_step (sv_params E) (sv_config E) strict) (snd (api_torrent_action_start (sv_params E) (sv_config E) (sv_store E) u k S1))"
    if "reach session_init (session_step (sv_params E) (sv_config E) strict) S1" for u k S1
    using api_act_reach [OF that, of _ _ _ "ActStart u k"] by (simp add: api_act_def)
  then have "reach session_init (session_step (sv_params E) (sv_config E) strict) (fold (\<lambda>k S. snd (api_torrent_action_start (sv_params E) (sv_config E) (sv_store E) (us k) k S)) ks S)" for ks
    using assms by (rule fold_keeps)
  then show ?thesis using CResume by (simp add: run_qbit_def Let_def h_torrents_resume_def)
next
  case (CDelete created order hashes files)
  have "reach session_init (session_step (sv_params E) (sv_config E) strict) (snd (session_delete (sv_store E) (sv_set_order E) k2 k b S1))"
    if "reach session_init (session_step (sv_params E) (sv_config E) strict) S1" for k2 k b S1
    by (rule reach_step [OF that]) (rule ss_delete [OF prod.collapse [symmetric]])
  then have "reach session_init (session_step (sv_params E) (sv_config E) strict) (fold (\<lambda>k S. snd (session_delete (sv_store E) (sv_set_order E) (created k) k b S)) ks S)" for ks b
    using assms by (rule fold_keeps)
  then show ?thesis using CDelete by (simp add: run_qbit_def Let_def h_torrents_delete_def)
qed (use assms in \<open>simp_all add: run_qbit_def Let_def split: prod.split\<close>)

text \<open>
  Whatever requests come in over either API, in whatever order and from whomever, the session stays in a state that its own steps reach, so that
  everything that is proved of reachable sessions holds of a session behind the server.
\<close>

theorem server_keeps_session:
  assumes "reach session_init (session_step (sv_params E) (sv_config E) strict) (hs_session hs)"
  shows "reach session_init (session_step (sv_params E) (sv_config E) strict) (hs_session (server_run E V lower base64 opts A reqs hs))"
proof -
  let ?R = "\<lambda>hs. reach session_init (session_step (sv_params E) (sv_config E) strict) (hs_session hs)"
  have "?R (snd (server_step E V lower base64 opts A req hs))" if "?R hs" for req hs
  proof (cases req)
    case (ToApi now header r)
    then show ?thesis using serve_reach [OF that] by (simp add: server_step_def case_prod_beta)
  next
    case (ToQbit now sid cookies c)
    then show ?thesis using that run_qbit_reach [OF that]
      by (simp add: server_step_def serve_qbit_def case_prod_beta)
  qed
  then show ?thesis unfolding server_run_def using assms by (rule fold_keeps)
qed

lemma read_only_actions_not_routed: "ro_read_only opts \<Longrightarrow> server_step E V lower base64 opts A (ToApi now header (ReqAction act)) hs = (Inl NotRouted, hs)"
  by (simp add: server_step_def serve_def read_only_not_routed [OF _ writing_requests(1)])

lemma delete_call_session:
  assumes "ha_basic_auth A = None"
  shows "hs_session (snd (server_step E V lower base64 opts A (ToQbit now sid cookies (CDelete created order hashes files)) hs))
    = h_torrents_delete (sv_store E) (sv_set_order E) created (parse_id_or_hash V) order hashes (map_option lower files = Some ''true'') (hs_session hs)"
  using assms by (simp add: server_step_def serve_qbit_def call_handler_def qbit_router_defs qbit_guard_def run_qbit_def Let_def)

text \<open>
  C26. Read-only mode does not reach the qBittorrent API. The comment on \<open>make_http_api_and_run\<close> says that it exposes no method that modifies the state, and indeed no
  action on torrents is routed in the API. Yet without credentials from the environment, whether or not others are stored, one request to \<open>/api/v2/torrents/delete\<close>
  leaves the session of a read-only server without torrents, and takes their files too when asked to.
\<close>

theorem read_only_qbit_deletes:
  assumes "reach session_init (session_step X C strict) (hs_session hs)" and "ha_basic_auth A = None"
    and order: "\<And>i. session_get (TorrentId i) (hs_session hs) \<noteq> None \<Longrightarrow> i \<in> set order"
  shows "server_step E V lower base64 (opts\<lparr>ro_read_only := True\<rparr>) A (ToApi now header (ReqAction act)) hs = (Inl NotRouted, hs)
    \<and> session_get k (hs_session (snd (server_step E V lower base64 (opts\<lparr>ro_read_only := True\<rparr>) A
        (ToQbit now sid cookies (CDelete created order ''all'' files)) hs))) = None"
proof
  show "server_step E V lower base64 (opts\<lparr>ro_read_only := True\<rparr>) A (ToApi now header (ReqAction act)) hs = (Inl NotRouted, hs)"
    by (rule read_only_actions_not_routed) simp
  show "session_get k (hs_session (snd (server_step E V lower base64 (opts\<lparr>ro_read_only := True\<rparr>) A
      (ToQbit now sid cookies (CDelete created order ''all'' files)) hs))) = None"
    unfolding delete_call_session [OF assms(2)] by (rule qbit_delete_all [OF assms(1) order])
qed

text \<open>Requests that present no credentials: to the API no header with valid ones, to the qBittorrent API no login with those of the environment.\<close>

definition without_credentials :: "(string \<Rightarrow> string option) \<Rightarrow> http_auth \<Rightarrow> ('s, 'f) server_request \<Rightarrow> bool" where
  "without_credentials base64 A req =
     (case req of
        ToApi _ header _ \<Rightarrow> \<not> header_presents base64 A header
      | ToQbit _ _ _ c \<Rightarrow> (\<forall>u p. c = CLogin u p \<longrightarrow> ha_basic_auth A \<noteq> Some (u, p)))"

lemma qbit_refused:
  assumes "ha_basic_auth A = Some up" and "qs_sessions q = Map.empty" and "\<And>u p. c = CLogin u p \<Longrightarrow> up \<noteq> (u, p)"
  shows "snd (serve_qbit E V lower now sid A cookies c (S, q)) = (S, q)"
proof -
  have layer: "behind_qbit_layer (call_handler c) \<or> (\<exists>u p. c = CLogin u p) \<or> c = CLogout \<or> (\<exists>h. c = CRead h)"
    by (cases c) (simp_all add: call_handler_def qbit_router_defs)
  have guard: "qbit_guard now cookies A q \<noteq> QPassed" using assms(1,2) by (simp add: qbit_guard_def validate_session_def split: option.split)
  have out: "qbit_logout cookies q = (QOk, q)" using assms(2) by (simp add: qbit_logout_def remove_session_def split: option.split)
  show ?thesis
    using layer guard out assms(1,3) by (auto simp: serve_qbit_def run_qbit_def Let_def qbit_login_def)
qed


subsection \<open>Examples\<close>

definition ex_http_server :: "(byte list fs_storage, unit, unit) http_server" where
  "ex_http_server = \<lparr>hs_rss = None, hs_session = ex_session, hs_qbit = qbit_new\<rparr>"

definition ex_delete_all :: "(byte list fs_storage, unit) server_request" where
  "ex_delete_all = ToQbit 0 ''s'' None (CDelete (\<lambda>_. Inl Panic) [0] ''all'' (Some ''true''))"

lemma ex_order: "session_get (TorrentId i) ex_session \<noteq> None \<Longrightarrow> i \<in> set [0]"
  by (auto simp: ex_session_def insert_torrent_def session_new_def session_db_default_def db_existing_def db_get_by_info_hash_def
      ex_surroundings_def session_get_def db_add_torrent_def Let_def split: if_splits)

theorem server_keeps_session_witness:
  "reach session_init (session_step ex_params ex_config True) (hs_session (server_run ex_server ex_api (\<lambda>s. s) Some ex_router_opts ex_open [ex_delete_all] ex_http_server))"
  using server_keeps_session [of ex_server True ex_http_server] ex_session_reach [of True] by (simp add: ex_server_def ex_http_server_def)

theorem read_only_qbit_deletes_witness:
  "session_get (TorrentId 0) (hs_session ex_http_server) = Some 0 \<and> ro_read_only ex_router_opts
   \<and> session_get (TorrentId 0) (hs_session (snd (server_step ex_server ex_api (\<lambda>s. s) Some ex_router_opts ex_open ex_delete_all ex_http_server))) = None"
proof -
  have r: "reach session_init (session_step ex_params ex_config True) (hs_session ex_http_server)" using ex_session_reach by (simp add: ex_http_server_def)
  have o: "session_get (TorrentId i) (hs_session ex_http_server) \<noteq> None \<Longrightarrow> i \<in> set [0]" for i using ex_order by (simp add: ex_http_server_def)
  have "ex_router_opts\<lparr>ro_read_only := True\<rparr> = ex_router_opts" "ha_basic_auth ex_open = None" "ro_read_only ex_router_opts" by (simp_all add: ex_router_opts_def ex_open_def)
  with read_only_qbit_deletes [OF r _ o, of ex_open ex_server ex_api "\<lambda>s. s" Some ex_router_opts] show ?thesis
    using ex_session_values(1) by (simp add: ex_delete_all_def ex_http_server_def)
qed


end
