(* ===== verification/Move_Completed.thy ===== *)
theory Move_Completed
  imports Session_Persistence
begin

text \<open>
  Moving the files of a finished torrent to the session's folder for completed torrents (\<open>move_completed_torrent\<close> of
  \<open>src/src/session/mod.rs\<close>). The outcomes of the operating system's calls are arguments (\<open>move_os\<close>): whether a directory can be made,
  whether a rename works (it does not across file systems), how a copy ends and how much it has written when it fails,
  whether the source can be removed. Directories are not part of the file system here, so removing the empty source directory,
  whose errors are only logged, changes nothing.
\<close>

record move_os =
  mo_create_dir_all :: "string \<Rightarrow> bool"
  mo_rename :: "string \<Rightarrow> string \<Rightarrow> bool"
  mo_copy_ok :: "string \<Rightarrow> string \<Rightarrow> bool"
  mo_copied :: "string \<Rightarrow> nat option"
  mo_remove :: "string \<Rightarrow> bool"

fun component_name :: "component \<Rightarrow> string" where
  "component_name RootDir = ''/''"
| "component_name CurDir = ''.''"
| "component_name ParentDir = ''..''"
| "component_name (Normal s) = s"

text \<open>\<open>Path::strip_prefix\<close>; paths are equal when their components are.\<close>

definition strip_prefix :: "string \<Rightarrow> string \<Rightarrow> string option" where
  "strip_prefix p base =
     (let c = components p; b = components base
      in if take (length b) c = b then Some (foldl path_join [] (map component_name (drop (length b) c))) else None)"

definition completed_dest_base :: "string \<Rightarrow> string \<Rightarrow> string \<Rightarrow> string" where
  "completed_dest_base session_folder current target =
     (let relative = (case strip_prefix current session_folder of None \<Rightarrow> [] | Some r \<Rightarrow> r)
      in if relative = [] then target else path_join target relative)"

text \<open>Copying and removing the source, when the file cannot be renamed.\<close>

definition copy_and_remove :: "move_os \<Rightarrow> string \<Rightarrow> string \<Rightarrow> (file_system, unit) sm" where
  "copy_and_remove os src dst fs =
     (case fs src of
        None \<Rightarrow> (Inl (Bail ''error copying''), fs)
      | Some d \<Rightarrow>
        if \<not> mo_copy_ok os src dst
        then (Inl (Bail ''error copying''), case mo_copied os src of None \<Rightarrow> fs | Some n \<Rightarrow> fs(dst \<mapsto> take n d))
        else if \<not> mo_remove os src then (Inl (Bail ''error removing source file after copy''), fs(dst \<mapsto> d))
        else (Inr (), fs(dst \<mapsto> d, src := None)))"

definition move_file :: "move_os \<Rightarrow> string \<Rightarrow> string \<Rightarrow> (file_system, unit) sm" where
  "move_file os src dst fs =
     (if (case path_parent dst of None \<Rightarrow> False | Some d \<Rightarrow> \<not> mo_create_dir_all os d) then (Inl (Bail ''error creating directory''), fs)
      else if mo_rename os src dst \<and> fs src \<noteq> None then (Inr (), fs(src := None, dst := fs src))
      else copy_and_remove os src dst fs)"

definition completed_moves :: "string \<Rightarrow> string \<Rightarrow> file_infos \<Rightarrow> (string \<times> string) list" where
  "completed_moves current dest infos =
     map (\<lambda>fi. (path_join current (relative_filename fi), path_join dest (relative_filename fi))) (filter (\<lambda>fi. \<not> padding fi) infos)"

definition move_completed_torrent :: "move_os \<Rightarrow> string \<Rightarrow> string \<Rightarrow> file_infos option \<Rightarrow> string \<Rightarrow> (file_system, unit) sm" where
  "move_completed_torrent os session_folder current metadata target fs =
     (if components current = components target then (Inr (), fs)
      else case metadata of
        None \<Rightarrow> (Inl (Bail ''torrent metadata not loaded''), fs)
      | Some infos \<Rightarrow>
        let dest = completed_dest_base session_folder current target
        in if \<not> mo_create_dir_all os dest then (Inl (Bail ''error creating completed directory''), fs)
           else sm_fold (\<lambda>(src, dst). move_file os src dst) (completed_moves current dest infos) fs)"

subsection \<open>Properties\<close>

text \<open>A file whose move begins in \<open>v\<close> and ends in \<open>w\<close>: its content is not lost.\<close>

definition kept :: "file_system \<Rightarrow> file_system \<Rightarrow> string \<times> string \<Rightarrow> bool" where
  "kept v w m \<longleftrightarrow> w (fst m) = v (fst m) \<or> w (snd m) = v (fst m)"

definition moved :: "file_system \<Rightarrow> file_system \<Rightarrow> string \<times> string \<Rightarrow> bool" where
  "moved v w m \<longleftrightarrow> v (fst m) \<noteq> None \<and> w (snd m) = v (fst m) \<and> w (fst m) = None"

lemma move_file_effect:
  assumes "move_file os src dst v = (r, w)" and "src \<noteq> dst"
  shows "kept v w (src, dst)" "r = Inr () \<Longrightarrow> moved v w (src, dst)" "p \<noteq> src \<Longrightarrow> p \<noteq> dst \<Longrightarrow> w p = v p"
  using assms by (auto simp: move_file_def copy_and_remove_def kept_def moved_def split: if_splits option.splits)

lemma moves_effect:
  assumes "sm_fold (\<lambda>(src, dst). move_file os src dst) ms v = (r, w)"
    and "distinct (map fst ms)" "distinct (map snd ms)" "fst ` set ms \<inter> snd ` set ms = {}"
  shows "(\<forall>m \<in> set ms. kept v w m) \<and> (r = Inr () \<longrightarrow> (\<forall>m \<in> set ms. moved v w m))
    \<and> (\<forall>p. p \<notin> fst ` set ms \<union> snd ` set ms \<longrightarrow> w p = v p)"
  using assms
proof (induction ms arbitrary: v)
  case (Cons m ms)
  obtain src dst where m: "m = (src, dst)" by fastforce
  obtain r1 v1 where f: "move_file os src dst v = (r1, v1)" by fastforce
  have ne: "src \<noteq> dst" and apart: "src \<notin> fst ` set ms \<union> snd ` set ms" "dst \<notin> fst ` set ms \<union> snd ` set ms"
    using Cons.prems(2-4) m by auto
  note e = move_file_effect [OF f ne]
  have same: "v1 (fst k) = v (fst k)" "v1 (snd k) = v (snd k)" if "k \<in> set ms" for k
    using that apart e(3) by (metis UnI1 UnI2 imageI)+
  show ?case
  proof (cases r1)
    case (Inl err)
    then have "r = Inl err" "w = v1" using Cons.prems(1) f m by (simp_all add: sm_bind_def)
    moreover have "kept v v1 k" if "k \<in> set ms" for k using same [OF that] by (simp add: kept_def)
    ultimately show ?thesis using e(1,3) m by auto
  next
    case (Inr u)
    then have rest: "sm_fold (\<lambda>(src, dst). move_file os src dst) ms v1 = (r, w)" using Cons.prems(1) f m by (simp add: sm_bind_def)
    have IH: "\<forall>k \<in> set ms. kept v1 w k" "r = Inr () \<Longrightarrow> \<forall>k \<in> set ms. moved v1 w k" "\<And>p. p \<notin> fst ` set ms \<union> snd ` set ms \<Longrightarrow> w p = v1 p"
      using Cons.IH [OF rest] Cons.prems(2-4) by auto
    have w: "w src = v1 src" "w dst = v1 dst" using IH(3) apart by auto
    have "kept v w m" "moved v w m" using e(2) Inr w m by (auto simp: kept_def moved_def)
    moreover have "kept v w k" if "k \<in> set ms" for k using IH(1) same [OF that] that by (auto simp: kept_def)
    moreover have "moved v w k" if "k \<in> set ms" "r = Inr ()" for k using IH(2) [OF that(2)] same [OF that(1)] that(1) unfolding moved_def by metis
    moreover have "w p = v p" if "p \<notin> fst ` set (m # ms) \<union> snd ` set (m # ms)" for p using IH(3) [of p] e(3) [of p] that m by auto
    ultimately show ?thesis by auto
  qed
qed (simp add: sm_ret_def)


definition ex_move_os :: move_os where
  "ex_move_os = \<lparr>mo_create_dir_all = (\<lambda>_. True), mo_rename = (\<lambda>_ _. False), mo_copy_ok = (\<lambda>s d. True), mo_copied = (\<lambda>_. None), mo_remove = (\<lambda>_. True)\<rparr>"


end
