(* ===== verification/Storage_Cache.thy ===== *)
theory Storage_Cache
  imports File_Ops
begin

text \<open>
  \<open>src/src/storage/middleware/write_through_cache.rs\<close>: a storage that keeps the pieces written last in memory and passes writes on to
  another storage. The least recently used cache is the external crate \<open>lru\<close>, a parameter with the laws of the locale \<open>lru_cache\<close>:
  \<open>get\<close> finds what is there, \<open>get_or_insert_mut\<close> finds or inserts and may evict other entries; assigning through the
  reference that it returns is \<open>lc_set\<close>.
\<close>

record 'c lru_ops =
  lc_get :: "'c \<Rightarrow> nat \<Rightarrow> byte list option \<times> 'c"
  lc_get_or_insert :: "'c \<Rightarrow> nat \<Rightarrow> byte list \<Rightarrow> byte list \<times> 'c"
  lc_set :: "'c \<Rightarrow> nat \<Rightarrow> byte list \<Rightarrow> 'c"
  lc_new :: "nat \<Rightarrow> 'c"

record ('c, 's) cache_storage =
  wc_lru :: 'c
  wc_underlying :: 's

definition cache_create :: "'c lru_ops \<Rightarrow> lengths \<Rightarrow> nat \<Rightarrow> 's res \<Rightarrow> ('c, 's) cache_storage res" where
  "cache_create lru L max_cache_bytes underlying =
     (let pieces = (max_cache_bytes + default_piece_length L - 1) div default_piece_length L in
      if pieces = 0 then Inl (Bail ''bug: pieces == 0'')
      else res_bind underlying (\<lambda>u. Inr \<lparr>wc_lru = lc_new lru pieces, wc_underlying = u\<rparr>))"

text \<open>The piece of a position of a file, and the offset in it.\<close>

definition cache_locate :: "lengths \<Rightarrow> file_infos \<Rightarrow> nat \<Rightarrow> nat \<Rightarrow> (nat \<times> nat) res" where
  "cache_locate L fis file_id offset =
     res_bind (ok_or (Bail ''wrong file'') (vec_get fis file_id)) (\<lambda>fi.
     res_bind (ok_or (Bail ''wrong piece'') (compute_current_piece L offset (offset_in_torrent fi))) (\<lambda>(piece, _, po). Inr (piece, po)))"

definition cache_pread_exact ::
  "'c lru_ops \<Rightarrow> 's store_ops \<Rightarrow> lengths \<Rightarrow> file_infos \<Rightarrow> ('c, 's) cache_storage \<Rightarrow> nat \<Rightarrow> nat \<Rightarrow> nat \<Rightarrow> byte list res \<times> ('c, 's) cache_storage" where
  "cache_pread_exact lru ops L fis w file_id offset n =
     (case cache_locate L fis file_id offset of
        Inl e \<Rightarrow> (Inl e, w)
      | Inr (piece, start) \<Rightarrow>
        (case lc_get lru (wc_lru w) piece of
           (Some p, c) \<Rightarrow> (if start + n \<le> length p then Inr (take n (drop start p)) else Inl (Bail ''bugged length''), w\<lparr>wc_lru := c\<rparr>)
         | (None, c) \<Rightarrow> (so_pread_exact ops (wc_underlying w) file_id offset n, w\<lparr>wc_lru := c\<rparr>)))"

definition cache_pwrite_all ::
  "'c lru_ops \<Rightarrow> 's store_ops \<Rightarrow> lengths \<Rightarrow> file_infos \<Rightarrow> ('c, 's) cache_storage \<Rightarrow> nat \<Rightarrow> nat \<Rightarrow> byte list \<Rightarrow> unit res \<times> ('c, 's) cache_storage" where
  "cache_pwrite_all lru ops L fis w file_id offset buf =
     (case cache_locate L fis file_id offset of
        Inl e \<Rightarrow> (Inl e, w)
      | Inr (piece, start) \<Rightarrow>
        (case lc_get_or_insert lru (wc_lru w) piece (replicate (piece_length L piece) 0) of
           (p, c) \<Rightarrow>
           if length p < start + length buf then (Inl (Bail ''bugged range''), w\<lparr>wc_lru := c\<rparr>)
           else case so_pwrite_all ops (wc_underlying w) file_id offset buf of
             (r, u) \<Rightarrow> (r, w\<lparr>wc_lru := lc_set lru c piece (overwrite start buf p), wc_underlying := u\<rparr>)))"

definition cache_ensure_file_length ::
  "'s store_ops \<Rightarrow> ('c, 's) cache_storage \<Rightarrow> nat \<Rightarrow> nat \<Rightarrow> unit res \<times> ('c, 's) cache_storage" where
  "cache_ensure_file_length ops w file_id len =
     (case so_ensure_file_length ops (wc_underlying w) file_id len of (r, u) \<Rightarrow> (r, w\<lparr>wc_underlying := u\<rparr>))"

definition cache_take :: "'c lru_ops \<Rightarrow> 's store_ops \<Rightarrow> ('c, 's) cache_storage \<Rightarrow> ('c, 's) cache_storage res \<times> ('c, 's) cache_storage" where
  "cache_take lru ops w =
     (case so_take ops (wc_underlying w) of
        (r, u) \<Rightarrow> (res_bind r (\<lambda>t. Inr \<lparr>wc_lru = wc_lru w, wc_underlying = t\<rparr>), \<lparr>wc_lru = lc_new lru 1, wc_underlying = u\<rparr>))"

subsection \<open>What the cache relies on\<close>

locale lru_cache =
  fixes lru :: "'c lru_ops" and contents :: "'c \<Rightarrow> nat \<rightharpoonup> byte list"
  assumes get_finds: "fst (lc_get lru c k) = contents c k"
    and get_keeps: "contents (snd (lc_get lru c k)) = contents c"
    and insert_gives: "fst (lc_get_or_insert lru c k v) = (case contents c k of Some x \<Rightarrow> x | None \<Rightarrow> v)"
    and insert_there: "contents (snd (lc_get_or_insert lru c k v)) k = Some (fst (lc_get_or_insert lru c k v))"
    and insert_others: "j \<noteq> k \<Longrightarrow> contents (snd (lc_get_or_insert lru c k v)) j \<in> {contents c j, None}"
    and set_there: "k \<in> dom (contents c) \<Longrightarrow> contents (lc_set lru c k v) = (contents c)(k \<mapsto> v)"
    and new_empty: "contents (lc_new lru n) = Map.empty"
begin

text \<open>What a write leaves in the cache.\<close>

lemma write_contents:
  assumes loc: "cache_locate L fis f off = Inr (piece, start)"
    and wr: "cache_pwrite_all lru ops L fis w f off buf = (Inr (), w')"
  shows "contents (wc_lru w') piece = Some (overwrite start buf
      (case contents (wc_lru w) piece of Some x \<Rightarrow> x | None \<Rightarrow> replicate (piece_length L piece) 0))"
    and "start + length buf \<le> length (case contents (wc_lru w) piece of Some x \<Rightarrow> x | None \<Rightarrow> replicate (piece_length L piece) 0)"
    and "j \<noteq> piece \<Longrightarrow> contents (wc_lru w') j \<in> {contents (wc_lru w) j, None}"
proof -
  obtain p c where pc: "lc_get_or_insert lru (wc_lru w) piece (replicate (piece_length L piece) 0) = (p, c)" by fastforce
  have p: "p = (case contents (wc_lru w) piece of Some x \<Rightarrow> x | None \<Rightarrow> replicate (piece_length L piece) 0)"
    using insert_gives [of "wc_lru w" piece "replicate (piece_length L piece) 0"] pc by simp
  have c: "contents c piece = Some p" using insert_there [of "wc_lru w" piece "replicate (piece_length L piece) 0"] pc by simp
  have set: "contents (lc_set lru c piece v) = (contents c)(piece \<mapsto> v)" for v using c by (intro set_there) (rule domI)
  have w': "wc_lru w' = lc_set lru c piece (overwrite start buf p)" and len: "start + length buf \<le> length p"
    using wr loc pc by (auto simp: cache_pwrite_all_def split: if_splits prod.splits)
  show "contents (wc_lru w') piece = Some (overwrite start buf
      (case contents (wc_lru w) piece of Some x \<Rightarrow> x | None \<Rightarrow> replicate (piece_length L piece) 0))"
    by (simp add: w' set p)
  show "start + length buf \<le> length (case contents (wc_lru w) piece of Some x \<Rightarrow> x | None \<Rightarrow> replicate (piece_length L piece) 0)"
    using len p by simp
  show "contents (wc_lru w') j \<in> {contents (wc_lru w) j, None}" if "j \<noteq> piece"
    using insert_others [OF that, of "wc_lru w" "replicate (piece_length L piece) 0"] that pc by (simp add: w' set)
qed

lemma read_cached:
  assumes "cache_locate L fis f off = Inr (piece, start)" "contents (wc_lru w) piece = Some p"
  shows "fst (cache_pread_exact lru ops L fis w f off n) = (if start + n \<le> length p then Inr (take n (drop start p)) else Inl (Bail ''bugged length''))"
  using assms get_finds [of "wc_lru w" piece] by (auto simp: cache_pread_exact_def split: prod.split option.split)

lemma read_uncached:
  assumes "cache_locate L fis f off = Inr (piece, start)" "contents (wc_lru w) piece = None"
  shows "fst (cache_pread_exact lru ops L fis w f off n) = so_pread_exact ops (wc_underlying w) f off n"
  using assms get_finds [of "wc_lru w" piece] by (auto simp: cache_pread_exact_def split: prod.split option.split)

end

subsection \<open>A cache of a fixed number of entries\<close>

text \<open>The most recent entry first; an insertion drops the last entry when the capacity is reached.\<close>

type_synonym lru_list = "nat \<times> (nat \<times> byte list) list"

definition lru_touch :: "nat \<Rightarrow> byte list \<Rightarrow> lru_list \<Rightarrow> lru_list" where
  "lru_touch k v c = (fst c, (k, v) # filter (\<lambda>e. fst e \<noteq> k) (snd c))"

definition list_lru :: "lru_list lru_ops" where
  "list_lru = \<lparr>lc_get = (\<lambda>c k. case map_of (snd c) k of None \<Rightarrow> (None, c) | Some v \<Rightarrow> (Some v, lru_touch k v c)),
     lc_get_or_insert = (\<lambda>c k v. case map_of (snd c) k of
         Some x \<Rightarrow> (x, lru_touch k x c)
       | None \<Rightarrow> (v, (fst c, (k, v) # (if length (snd c) < fst c then snd c else butlast (snd c))))),
     lc_set = (\<lambda>c k v. (fst c, AList.update k v (snd c))),
     lc_new = (\<lambda>n. (n, []))\<rparr>"

lemma map_of_touch: "map_of (filter (\<lambda>e. fst e \<noteq> k) xs) = (map_of xs)(k := None)"
  by (induction xs) auto

lemma map_of_butlast: "map_of (butlast xs) j \<in> {map_of xs j, None}"
  by (cases xs rule: rev_cases) (auto simp: map_add_def split: option.split)

interpretation list_cache: lru_cache list_lru "map_of \<circ> snd"
proof unfold_locales
  fix c :: lru_list and k j n :: nat and v :: "byte list"
  show "fst (lc_get list_lru c k) = (map_of \<circ> snd) c k" "(map_of \<circ> snd) (snd (lc_get list_lru c k)) = (map_of \<circ> snd) c"
    by (auto simp: list_lru_def lru_touch_def map_of_touch split: option.split)
  show "fst (lc_get_or_insert list_lru c k v) = (case (map_of \<circ> snd) c k of Some x \<Rightarrow> x | None \<Rightarrow> v)"
    "(map_of \<circ> snd) (snd (lc_get_or_insert list_lru c k v)) k = Some (fst (lc_get_or_insert list_lru c k v))"
    by (simp_all add: list_lru_def lru_touch_def split: option.split)
  show "(map_of \<circ> snd) (snd (lc_get_or_insert list_lru c k v)) j \<in> {(map_of \<circ> snd) c j, None}" if "j \<noteq> k"
    using that map_of_butlast [of "snd c" j] by (simp add: list_lru_def lru_touch_def map_of_touch split: option.split)
  show "(map_of \<circ> snd) (lc_set list_lru c k v) = ((map_of \<circ> snd) c)(k \<mapsto> v)" if "k \<in> dom ((map_of \<circ> snd) c)"
    by (simp add: list_lru_def update_conv')
  show "(map_of \<circ> snd) (lc_new list_lru n) = Map.empty" by (simp add: list_lru_def)
qed

subsection \<open>Properties\<close>

text \<open>A block that was written is read back from the cache, whatever the storage below does with it.\<close>

theorem cache_reads_own_writes:
  assumes lru: "lru_cache lru contents" and loc: "cache_locate L fis f off = Inr (piece, start)"
    and wr: "cache_pwrite_all lru ops L fis w f off buf = (Inr (), w')"
  shows "fst (cache_pread_exact lru ops L fis w' f off (length buf)) = Inr buf"
proof -
  let ?p = "case contents (wc_lru w) piece of Some x \<Rightarrow> x | None \<Rightarrow> replicate (piece_length L piece) 0"
  note c = lru_cache.write_contents [OF lru loc wr]
  have "take (length buf) (drop start (overwrite start buf ?p)) = buf" using c(2) by (simp add: overwrite_def)
  with lru_cache.read_cached [OF lru loc c(1), of ops "length buf"] c(2) show ?thesis by simp
qed

text \<open>A block written to a piece that is not in the cache hides the rest of the piece: the new entry is filled with zeros, and
  until it is evicted every other byte of the piece reads as zero, whatever the storage below has there.\<close>

theorem cache_hides_rest_of_piece:
  assumes lru: "lru_cache lru contents" and loc: "cache_locate L fis f off = Inr (piece, start)"
    and missing: "contents (wc_lru w) piece = None"
    and wr: "cache_pwrite_all lru ops L fis w f off buf = (Inr (), w')"
    and other: "cache_locate L fis g off' = Inr (piece, start')" "start' + n \<le> piece_length L piece" "start' + n \<le> start \<or> start + length buf \<le> start'"
  shows "fst (cache_pread_exact lru ops L fis w' g off' n) = Inr (replicate n 0)"
proof -
  note c = lru_cache.write_contents [OF lru loc wr]
  let ?p = "overwrite start buf (replicate (piece_length L piece) 0)"
  have p: "contents (wc_lru w') piece = Some ?p" and len: "start + length buf \<le> piece_length L piece" using c(1,2) missing by simp_all
  have "take n (drop start' ?p) = replicate n 0"
  proof (rule nth_equalityI)
    fix i
    assume "i < length (take n (drop start' ?p))"
    then have "i < n" "start' + i < piece_length L piece" using other(2) by auto
    then show "take n (drop start' ?p) ! i = replicate n 0 ! i"
      using other(3) len by (auto simp: overwrite_def nth_append)
  qed (use other(2) len in simp)
  with lru_cache.read_cached [OF lru other(1) p, of ops n] other(2) len show ?thesis by simp
qed

definition ex_cache :: "(lru_list, byte list fs_storage) cache_storage" where
  "ex_cache = \<lparr>wc_lru = (2, []), wc_underlying = ex_fs\<rparr>"

abbreviation ex_cache_write :: "byte list \<Rightarrow> unit res \<times> (lru_list, byte list fs_storage) cache_storage" where
  "ex_cache_write \<equiv> cache_pwrite_all list_lru (fs_ops mem_os) ex_lengths ex_fo_files ex_cache 0 0"

lemma ex_cache_located: "cache_locate ex_lengths ex_fo_files 0 0 = Inr (0, 0)" "cache_locate ex_lengths ex_fo_files 0 1 = Inr (0, 1)"
  by (simp_all add: cache_locate_def ex_fo_files_def vec_get_def ex_lengths_def)

lemma ex_cache_written: "ex_cache_write [9] = (Inr (), snd (ex_cache_write [9]))"
  by (simp add: cache_pwrite_all_def ex_cache_located ex_cache_def list_lru_def ex_piece_length_def fs_ops_def fs_pwrite_all_def
      fs_on_file_def fs_get_def ex_fs_def vec_get_def of_lock_read_def opened_file_new_def file_pwrite_all_def mem_os_def)

theorem cache_reads_own_writes_witness:
  "fst (cache_pread_exact list_lru (fs_ops mem_os) ex_lengths ex_fo_files (snd (ex_cache_write [9])) 0 0 1) = Inr [9]"
  using cache_reads_own_writes [OF list_cache.lru_cache_axioms ex_cache_located(1) ex_cache_written] by simp

theorem cache_hides_rest_of_piece_witness:
  "so_pread_exact (fs_ops mem_os) ex_fs 0 1 2 = Inr [2, 3]
   \<and> fst (cache_pread_exact list_lru (fs_ops mem_os) ex_lengths ex_fo_files (snd (ex_cache_write [9])) 0 1 2) = Inr [0, 0]"
proof
  show "so_pread_exact (fs_ops mem_os) ex_fs 0 1 2 = Inr [2, 3]"
    by (simp add: fs_ops_def fs_pread_exact_def fs_get_def ex_fs_def vec_get_def of_lock_read_def opened_file_new_def file_pread_exact_def mem_os_def)
  show "fst (cache_pread_exact list_lru (fs_ops mem_os) ex_lengths ex_fo_files (snd (ex_cache_write [9])) 0 1 2) = Inr [0, 0]"
    using cache_hides_rest_of_piece [OF list_cache.lru_cache_axioms ex_cache_located(1) _ ex_cache_written ex_cache_located(2), of 2]
    by (simp add: ex_cache_def ex_piece_length_def numeral_2_eq_2)
qed

end
