(* ===== verification/Create_Torrent.thy ===== *)
theory Create_Torrent
  imports File_Ops
begin

text \<open>
  \<open>src/src/create_torrent_file.rs\<close>: hashing a file or a folder into a torrent. Opening and reading files, SHA-1
  and bencoding are parameters: an open file is a value of type \<open>'f\<close>, \<open>rd\<close> its \<open>read\<close>, which returns
  up to as many bytes as asked for. The list of input files is what the directory walk found, each with
  its path components and the result of opening it.
\<close>

record create_torrent_options =
  opt_name :: "string option"
  opt_trackers :: "string list"
  opt_piece_length :: "nat option"

record torrent_file =
  tf_length :: nat
  tf_path :: "string list"

record torrent_info =
  ti_name :: string
  ti_pieces :: "byte list"
  ti_piece_length :: nat
  ti_length :: "nat option"
  ti_files :: "torrent_file list option"

record hash_state =
  remaining_piece_length :: nat
  piece_checksum :: "byte list"
  piece_hashes :: "byte list"

type_synonym 'f file_reader = "'f \<Rightarrow> nat \<Rightarrow> byte list res \<times> 'f"

definition choose_piece_length :: nat where
  "choose_piece_length = 2 * 1024 * 1024"

definition READ_SIZE :: nat where
  "READ_SIZE = 8192"

definition hash_block :: "(byte list \<Rightarrow> digest) \<Rightarrow> nat \<Rightarrow> byte list \<Rightarrow> hash_state \<Rightarrow> hash_state" where
  "hash_block sha1 piece_len bs st =
     (let checksum = piece_checksum st @ bs; remaining = remaining_piece_length st - length bs
      in if remaining = 0
         then \<lparr>remaining_piece_length = piece_len, piece_checksum = [], piece_hashes = piece_hashes st @ sha1 checksum\<rparr>
         else st\<lparr>remaining_piece_length := remaining, piece_checksum := checksum\<rparr>)"

text \<open>The loop over one file; the result is the file's length and the state of the hashing.\<close>

partial_function (option) hash_file ::
  "'f file_reader \<Rightarrow> (byte list \<Rightarrow> digest) \<Rightarrow> nat \<Rightarrow> 'f \<Rightarrow> nat \<Rightarrow> hash_state \<Rightarrow> (nat \<times> hash_state) res option" where
  [code]: "hash_file rd sha1 piece_len fd len st =
     (case rd fd (min (remaining_piece_length st) READ_SIZE) of
        (Inl e, _) \<Rightarrow> Some (Inl e)
      | (Inr bs, fd') \<Rightarrow>
        if bs = [] then Some (Inr (len, st))
        else if remaining_piece_length st < length bs then Some (Inl Panic)
        else hash_file rd sha1 piece_len fd' (len + length bs) (hash_block sha1 piece_len bs st))"

fun hash_files ::
  "'f file_reader \<Rightarrow> (byte list \<Rightarrow> digest) \<Rightarrow> nat \<Rightarrow> (string list \<times> 'f res) list
    \<Rightarrow> nat \<times> torrent_file list \<times> hash_state \<Rightarrow> (nat \<times> torrent_file list \<times> hash_state) res option" where
  "hash_files rd sha1 piece_len [] acc = Some (Inr acc)"
| "hash_files rd sha1 piece_len ((path, opened) # fs) (len, out, st) =
     (case opened of
        Inl e \<Rightarrow> Some (Inl e)
      | Inr fd \<Rightarrow>
        (case hash_file rd sha1 piece_len fd 0 st of
           None \<Rightarrow> None
         | Some (Inl e) \<Rightarrow> Some (Inl e)
         | Some (Inr (len', st')) \<Rightarrow>
           hash_files rd sha1 piece_len fs (len', out @ [\<lparr>tf_length = len', tf_path = path\<rparr>], st')))"

definition create_torrent_raw ::
  "'f file_reader \<Rightarrow> (byte list \<Rightarrow> digest) \<Rightarrow> bool \<Rightarrow> string \<Rightarrow> create_torrent_options
    \<Rightarrow> (string list \<times> 'f res) list \<Rightarrow> torrent_info res option" where
  "create_torrent_raw rd sha1 is_dir basename options input_files =
     (let piece_len = (case opt_piece_length options of Some n \<Rightarrow> n | None \<Rightarrow> choose_piece_length);
          init = \<lparr>remaining_piece_length = piece_len, piece_checksum = [], piece_hashes = []\<rparr>
      in case hash_files rd sha1 piece_len input_files (0, [], init) of
        None \<Rightarrow> None
      | Some (Inl e) \<Rightarrow> Some (Inl e)
      | Some (Inr (len, out, st)) \<Rightarrow>
        let hashes = (if 0 < remaining_piece_length st \<and> 0 < len then piece_hashes st @ sha1 (piece_checksum st)
                      else piece_hashes st)
        in Some (Inr \<lparr>ti_name = (case opt_name options of Some n \<Rightarrow> n | None \<Rightarrow> basename),
             ti_pieces = hashes, ti_piece_length = piece_len,
             ti_length = (if is_dir then None else Some len), ti_files = (if is_dir then Some out else None)\<rparr>))"

record created_torrent =
  cr_announce_list :: "string list"
  cr_info :: torrent_info
  cr_raw_info :: "byte list"
  cr_info_hash :: digest

definition compute_info_hash :: "(torrent_info \<Rightarrow> byte list res) \<Rightarrow> (byte list \<Rightarrow> digest) \<Rightarrow> torrent_info \<Rightarrow> (digest \<times> byte list) res" where
  "compute_info_hash bencode sha1 t = res_bind (bencode t) (\<lambda>bytes. Inr (sha1 bytes, bytes))"

definition create_torrent ::
  "'f file_reader \<Rightarrow> (torrent_info \<Rightarrow> byte list res) \<Rightarrow> (byte list \<Rightarrow> digest) \<Rightarrow> bool \<Rightarrow> string \<Rightarrow> create_torrent_options
    \<Rightarrow> (string list \<times> 'f res) list \<Rightarrow> created_torrent res option" where
  "create_torrent rd bencode sha1 is_dir basename options input_files =
     (case create_torrent_raw rd sha1 is_dir basename options input_files of
        None \<Rightarrow> None
      | Some r \<Rightarrow> Some (res_bind r (\<lambda>info. res_bind (compute_info_hash bencode sha1 info) (\<lambda>(hash, bytes).
          Inr \<lparr>cr_announce_list = opt_trackers options, cr_info = info, cr_raw_info = bytes, cr_info_hash = hash\<rparr>))))"

subsection \<open>What the hashing computes\<close>

definition piece_of :: "nat \<Rightarrow> byte list \<Rightarrow> nat \<Rightarrow> byte list" where
  "piece_of piece_len xs i = take piece_len (drop (piece_len * i) xs)"

text \<open>The reference: the bytes of all files in a row, cut into pieces, the last one possibly shorter.\<close>

definition pieces_spec :: "(byte list \<Rightarrow> digest) \<Rightarrow> nat \<Rightarrow> byte list \<Rightarrow> byte list" where
  "pieces_spec sha1 piece_len xs =
     concat (map (\<lambda>i. sha1 (piece_of piece_len xs i)) [0..<(length xs + piece_len - 1) div piece_len])"

definition hashed :: "(byte list \<Rightarrow> digest) \<Rightarrow> nat \<Rightarrow> byte list \<Rightarrow> hash_state \<Rightarrow> bool" where
  "hashed sha1 piece_len xs st \<longleftrightarrow>
     piece_checksum st = drop (piece_len * (length xs div piece_len)) xs
   \<and> remaining_piece_length st = piece_len - length xs mod piece_len
   \<and> piece_hashes st = concat (map (\<lambda>i. sha1 (piece_of piece_len xs i)) [0..<length xs div piece_len])"

definition file_reader_ok :: "'f file_reader \<Rightarrow> ('f \<Rightarrow> byte list) \<Rightarrow> bool" where
  "file_reader_ok rd content \<longleftrightarrow> (\<forall>f n. \<exists>bs f'. rd f n = (Inr bs, f') \<and> length bs \<le> n
     \<and> content f = bs @ content f' \<and> (bs = [] \<longrightarrow> n = 0 \<or> content f = []))"

lemma piece_of_append: "piece_len * Suc i \<le> length xs \<Longrightarrow> piece_of piece_len (xs @ ys) i = piece_of piece_len xs i"
  by (simp add: piece_of_def)

lemma full_pieces_append:
  "map (\<lambda>i. sha1 (piece_of piece_len (xs @ ys) i)) [0..<length xs div piece_len]
     = map (\<lambda>i. sha1 (piece_of piece_len xs i)) [0..<length xs div piece_len]"
proof (rule map_cong [OF refl])
  fix i assume "i \<in> set [0..<length xs div piece_len]"
  then have "Suc i \<le> length xs div piece_len" by simp
  then have "piece_len * Suc i \<le> piece_len * (length xs div piece_len)" by (rule mult_le_mono2)
  also have "\<dots> \<le> length xs" by simp
  finally show "sha1 (piece_of piece_len (xs @ ys) i) = sha1 (piece_of piece_len xs i)"
    by (simp add: piece_of_append)
qed

lemma hash_block_hashed:
  assumes "hashed sha1 piece_len xs st" and "0 < piece_len" and "bs \<noteq> []" and "length bs \<le> remaining_piece_length st"
  shows "hashed sha1 piece_len (xs @ bs) (hash_block sha1 piece_len bs st)"
proof -
  define q where "q = length xs div piece_len"
  define m where "m = length xs mod piece_len"
  have xs: "length xs = piece_len * q + m" "m < piece_len" using assms(2) by (simp_all add: q_def m_def)
  have st: "piece_checksum st = drop (piece_len * q) xs" "remaining_piece_length st = piece_len - m"
    "piece_hashes st = concat (map (\<lambda>i. sha1 (piece_of piece_len xs i)) [0..<q])"
    using assms(1) by (simp_all add: hashed_def q_def m_def)
  note full = arg_cong [where f = concat, OF full_pieces_append [of sha1 piece_len xs bs, folded q_def]]
  show ?thesis
  proof (cases "m + length bs < piece_len")
    case True
    then have "length (xs @ bs) div piece_len = q" "length (xs @ bs) mod piece_len = m + length bs"
      using xs by (simp_all add: div_nat_eqI add.assoc)
    then show ?thesis
      using True st full xs by (simp add: hashed_def hash_block_def Let_def)
  next
    case False
    then have m: "m + length bs = piece_len" using assms(4) st(2) xs(2) by simp
    then have len: "length (xs @ bs) = piece_len * Suc q" using xs by simp
    have "piece_of piece_len (xs @ bs) q = drop (piece_len * q) xs @ bs"
      using xs m by (simp add: piece_of_def)
    moreover have "length bs = remaining_piece_length st" using m st(2) by simp
    ultimately show ?thesis
      using st full len assms(2) by (simp add: hashed_def hash_block_def Let_def)
  qed
qed

lemma hash_file_total:
  assumes rd: "file_reader_ok rd content" and "0 < piece_len" and "hashed sha1 piece_len xs st"
  shows "\<exists>st'. hash_file rd sha1 piece_len fd len st = Some (Inr (len + length (content fd), st'))
    \<and> hashed sha1 piece_len (xs @ content fd) st'"
  using assms(3)
proof (induction "length (content fd)" arbitrary: fd xs len st rule: less_induct)
  case less
  let ?n = "min (remaining_piece_length st) READ_SIZE"
  have n: "0 < ?n" using less.prems assms(2) by (simp add: hashed_def READ_SIZE_def)
  obtain bs f' where bs: "rd fd ?n = (Inr bs, f')" "length bs \<le> ?n" "content fd = bs @ content f'"
    "bs = [] \<longrightarrow> ?n = 0 \<or> content fd = []"
    using rd unfolding file_reader_ok_def by blast
  show ?case
  proof (cases "bs = []")
    case True
    then show ?thesis using bs n less.prems by (subst hash_file.simps) auto
  next
    case False
    have le: "length bs \<le> remaining_piece_length st" using bs(2) by simp
    have "length (content f') < length (content fd)" using bs(3) False by simp
    from less.hyps [OF this hash_block_hashed [OF less.prems assms(2) False le]] obtain st' where
      st': "hash_file rd sha1 piece_len f' (len + length bs) (hash_block sha1 piece_len bs st)
          = Some (Inr (len + length bs + length (content f'), st'))"
        "hashed sha1 piece_len ((xs @ bs) @ content f') st'"
      by blast
    have "hash_file rd sha1 piece_len fd len st
        = hash_file rd sha1 piece_len f' (len + length bs) (hash_block sha1 piece_len bs st)"
      using bs(1) False le by (subst hash_file.simps) auto
    then show ?thesis using st' bs(3) by (auto simp: add.assoc)
  qed
qed

definition all_bytes :: "('f \<Rightarrow> byte list) \<Rightarrow> (string list \<times> 'f) list \<Rightarrow> byte list" where
  "all_bytes content fs = concat (map (\<lambda>(_, f). content f) fs)"

definition file_entries :: "('f \<Rightarrow> byte list) \<Rightarrow> (string list \<times> 'f) list \<Rightarrow> torrent_file list" where
  "file_entries content fs = map (\<lambda>(p, f). \<lparr>tf_length = length (content f), tf_path = p\<rparr>) fs"

abbreviation opened :: "(string list \<times> 'f) list \<Rightarrow> (string list \<times> 'f res) list" where
  "opened fs \<equiv> map (\<lambda>(p, f). (p, Inr f)) fs"

lemma hash_files_total:
  assumes "file_reader_ok rd content" and "0 < piece_len" and "hashed sha1 piece_len xs st"
  shows "\<exists>st'. hash_files rd sha1 piece_len (opened fs) (len, out, st)
      = Some (Inr (if fs = [] then len else length (content (snd (last fs))), out @ file_entries content fs, st'))
    \<and> hashed sha1 piece_len (xs @ all_bytes content fs) st'"
  using assms(3)
proof (induction fs arbitrary: len out st xs)
  case Nil
  then show ?case by (simp add: all_bytes_def file_entries_def)
next
  case (Cons pf fs)
  obtain p f where pf: "pf = (p, f)" by fastforce
  obtain st1 where st1: "hash_file rd sha1 piece_len f 0 st = Some (Inr (length (content f), st1))"
    "hashed sha1 piece_len (xs @ content f) st1"
    using hash_file_total [OF assms(1,2) Cons.prems, of f 0] by auto
  from Cons.IH [OF st1(2), of "length (content f)" "out @ [\<lparr>tf_length = length (content f), tf_path = p\<rparr>]"]
  show ?case using st1(1) by (auto simp: pf all_bytes_def file_entries_def)
qed

text \<open>The piece hashes of the code: those of the full pieces, and one more for what is left whenever the last
  file is not empty.\<close>

lemma create_torrent_raw_eq:
  assumes "file_reader_ok rd content" and "0 < piece_len" and "opt_piece_length options = Some piece_len" and "fs \<noteq> []"
  defines "xs \<equiv> all_bytes content fs"
  shows "\<exists>info. create_torrent_raw rd sha1 is_dir basename options (opened fs) = Some (Inr info)
    \<and> ti_pieces info = concat (map (\<lambda>i. sha1 (piece_of piece_len xs i)) [0..<length xs div piece_len])
        @ (if content (snd (last fs)) = [] then [] else sha1 (piece_of piece_len xs (length xs div piece_len)))
    \<and> ti_piece_length info = piece_len
    \<and> ti_files info = (if is_dir then Some (file_entries content fs) else None)"
proof -
  have init: "hashed sha1 piece_len [] \<lparr>remaining_piece_length = piece_len, piece_checksum = [], piece_hashes = []\<rparr>"
    by (simp add: hashed_def)
  obtain st where st: "hash_files rd sha1 piece_len (opened fs) (0, [],
        \<lparr>remaining_piece_length = piece_len, piece_checksum = [], piece_hashes = []\<rparr>)
      = Some (Inr (length (content (snd (last fs))), file_entries content fs, st))"
    "hashed sha1 piece_len xs st"
    using hash_files_total [OF assms(1,2) init, of fs 0 "[]"] assms(4) by (auto simp: xs_def)
  have rest: "drop (piece_len * (length xs div piece_len)) xs = piece_of piece_len xs (length xs div piece_len)"
  proof -
    have "length xs mod piece_len < piece_len" using assms(2) by simp
    then have "length (drop (piece_len * (length xs div piece_len)) xs) \<le> piece_len"
      by (simp add: minus_mult_div_eq_mod)
    then show ?thesis by (simp add: piece_of_def)
  qed
  have "0 < piece_len - length xs mod piece_len" using assms(2) by simp
  then show ?thesis
    using st assms(3) rest by (simp add: create_torrent_raw_def hashed_def Let_def)
qed

lemma pieces_spec_split:
  assumes "0 < piece_len"
  shows "pieces_spec sha1 piece_len xs =
    concat (map (\<lambda>i. sha1 (piece_of piece_len xs i)) [0..<length xs div piece_len])
    @ (if piece_len dvd length xs then [] else sha1 (piece_of piece_len xs (length xs div piece_len)))"
proof -
  define q where "q = length xs div piece_len"
  define m where "m = length xs mod piece_len"
  have xs: "length xs = piece_len * q + m" "m < piece_len" using assms by (simp_all add: q_def m_def)
  have "(length xs + piece_len - 1) div piece_len = (if m = 0 then q else Suc q)"
    using xs assms by (auto intro!: div_nat_eqI simp: algebra_simps)
  then show ?thesis by (simp add: pieces_spec_def q_def [symmetric] m_def [symmetric] dvd_eq_mod_eq_0)
qed

text \<open>C35. Creating a torrent: for a folder whose last file is not empty and whose total size is not a multiple
  of the piece length, the piece hashes are those of the reference, the contents of all files in a row
  cut into pieces across file boundaries, and the file list has every file with its length.
  However the reads of the files are cut, the loops end.\<close>

theorem create_torrent_pieces:
  assumes "file_reader_ok rd content" and "0 < piece_len" and "opt_piece_length options = Some piece_len"
    and "fs \<noteq> []" and "content (snd (last fs)) \<noteq> []" and "\<not> piece_len dvd length (all_bytes content fs)"
  shows "\<exists>info. create_torrent_raw rd sha1 True basename options (opened fs) = Some (Inr info)
    \<and> ti_pieces info = pieces_spec sha1 piece_len (all_bytes content fs)
    \<and> ti_files info = Some (file_entries content fs)"
  using create_torrent_raw_eq [OF assms(1-4), of sha1 True basename] assms(5,6)
    pieces_spec_split [OF assms(2), of sha1 "all_bytes content fs"] by auto

text \<open>Two cases in which a created torrent is wrong: when the total size is a multiple of the piece length,
  there is one hash too many, that of the empty string; when the last file is empty and the total size
  is not a multiple, the hash of the last piece is missing.\<close>

theorem create_torrent_wrong_pieces:
  assumes "file_reader_ok rd content" and "0 < piece_len" and "opt_piece_length options = Some piece_len"
    and "fs \<noteq> []" and "all_bytes content fs = xs"
    and "create_torrent_raw rd sha1 True basename options (opened fs) = Some (Inr info)"
  shows "(content (snd (last fs)) \<noteq> [] \<and> piece_len dvd length xs \<longrightarrow>
        ti_pieces info = pieces_spec sha1 piece_len xs @ sha1 [])
    \<and> (content (snd (last fs)) = [] \<and> \<not> piece_len dvd length xs \<longrightarrow>
        pieces_spec sha1 piece_len xs = ti_pieces info @ sha1 (piece_of piece_len xs (length xs div piece_len)))"
proof -
  have "piece_of piece_len xs (length xs div piece_len) = []" if "piece_len dvd length xs"
    using that by (auto simp: piece_of_def)
  then show ?thesis
    using create_torrent_raw_eq [OF assms(1-4), of sha1 True basename] assms(5,6)
      pieces_spec_split [OF assms(2), of sha1 xs] by auto
qed

text \<open>Two files of three and two bytes, read one byte at a time, with a toy checksum.\<close>

definition ex_reader :: "byte list file_reader" where
  "ex_reader f n = (Inr (take (min n 1) f), drop (min n 1) f)"

definition ex_input :: "(string list \<times> byte list) list" where
  "ex_input = [([''a''], [1, 2, 3]), ([''b''], [4, 5])]"

definition ex_options :: "nat \<Rightarrow> create_torrent_options" where
  "ex_options n = \<lparr>opt_name = None, opt_trackers = [], opt_piece_length = Some n\<rparr>"

lemma ex_file_reader_ok: "file_reader_ok ex_reader (\<lambda>f. f)"
  unfolding file_reader_ok_def ex_reader_def
proof (intro allI exI conjI)
  show "take (min n 1) f = [] \<longrightarrow> n = 0 \<or> f = []" for f :: "byte list" and n by (cases n) auto
qed auto

theorem create_torrent_pieces_witness:
  "\<exists>info. create_torrent_raw ex_reader (\<lambda>d. 9 # d) True ''x'' (ex_options 2) (opened ex_input) = Some (Inr info)
    \<and> ti_pieces info = [9, 1, 2, 9, 3, 4, 9, 5]"
proof -
  have "pieces_spec (\<lambda>d. 9 # d) 2 (all_bytes (\<lambda>f. f) ex_input) = [9, 1, 2, 9, 3, 4, 9, 5]"
    by (simp add: pieces_spec_def piece_of_def all_bytes_def ex_input_def upt_rec)
  then show ?thesis
    using create_torrent_pieces [OF ex_file_reader_ok, of 2 "ex_options 2" ex_input "\<lambda>d. 9 # d" "''x''"]
    by (auto simp: ex_options_def ex_input_def all_bytes_def)
qed

theorem create_torrent_wrong_pieces_witness:
  "\<exists>info. create_torrent_raw ex_reader (\<lambda>d. 9 # d) True ''x'' (ex_options 5) (opened ex_input) = Some (Inr info)
    \<and> ti_pieces info = [9, 1, 2, 3, 4, 5, 9]"
proof -
  obtain info where info: "create_torrent_raw ex_reader (\<lambda>d. 9 # d) True ''x'' (ex_options 5) (opened ex_input) = Some (Inr info)"
    using create_torrent_raw_eq [OF ex_file_reader_ok, of 5 "ex_options 5" ex_input "\<lambda>d. 9 # d" True "''x''"]
    by (auto simp: ex_options_def ex_input_def)
  have "pieces_spec (\<lambda>d. 9 # d) 5 (all_bytes (\<lambda>f. f) ex_input) = [9, 1, 2, 3, 4, 5]"
    by (simp add: pieces_spec_def piece_of_def all_bytes_def ex_input_def upt_rec)
  then show ?thesis
    using create_torrent_wrong_pieces [OF ex_file_reader_ok _ _ _ refl info] info
    by (auto simp: ex_options_def ex_input_def all_bytes_def eval_nat_numeral)
qed

end
