(* ===== verification/Connect.thy ===== *)
theory Connect
  imports Peer_Connection
begin

text \<open>
  Outgoing connections (\<open>src/src/stream_connect.rs\<close>), listening (\<open>src/src/listen.rs\<close>) and the search for a peer that has the metadata
  (\<open>src/src/dht_utils.rs\<close>). Sockets are external: what they answer and when is the choice of the environment. The race of TCP and uTP and the
  loop over the peers are step relations; one step is what happens between two points where the code waits.
\<close>

subsection \<open>The connector\<close>

record socks_proxy_config =
  sp_host :: string
  sp_port :: "16 word"
  sp_username_password :: "(string \<times> string) option"

text \<open>The parts of a URL as the \<open>url\<close> crate gives them.\<close>

record parsed_url =
  pu_scheme :: string
  pu_host_str :: "string option"
  pu_port :: "16 word option"
  pu_username :: string
  pu_password :: "string option"

definition socks_parse :: "(string \<Rightarrow> parsed_url option) \<Rightarrow> string \<Rightarrow> socks_proxy_config res" where
  "socks_parse parse_url s =
     res_bind (ok_or (Bail ''invalid proxy URL'') (parse_url s)) (\<lambda>u.
     if pu_scheme u \<noteq> ''socks5'' then Inl (Bail ''proxy URL should have socks5 scheme'')
     else res_bind (ok_or (Bail ''missing host'') (pu_host_str u)) (\<lambda>host.
          res_bind (ok_or (Bail ''missing port'') (pu_port u)) (\<lambda>port.
            Inr \<lparr>sp_host = host, sp_port = port, sp_username_password = map_option (\<lambda>p. (pu_username u, p)) (pu_password u)\<rparr>)))"

record single_stat =
  sg_attempts :: u64
  sg_successes :: u64
  sg_errors :: u64

text \<open>The counters by kind of connection and whether the address is IPv6.\<close>

type_synonym connect_stats = "connection_kind \<times> bool \<Rightarrow> single_stat"

definition stat_zero :: connect_stats where
  "stat_zero = (\<lambda>_. \<lparr>sg_attempts = 0, sg_successes = 0, sg_errors = 0\<rparr>)"

record stream_connector =
  sc_proxy_config :: "socks_proxy_config option"
  sc_enable_tcp :: bool
  sc_utp_socket :: bool
  sc_ipv4_only :: bool

definition connector_new :: "stream_connector \<Rightarrow> stream_connector res" where
  "connector_new args =
     (if sc_proxy_config args = None \<and> \<not> sc_enable_tcp args \<and> \<not> sc_utp_socket args
      then Inl (Bail ''no way to connect to peers, enable TCP, uTP or socks proxy'') else Inr args)"

definition addr_is_ipv6 :: "socket_addr \<Rightarrow> bool" where
  "addr_is_ipv6 a = (case fst a of V4 _ \<Rightarrow> False | V6 _ \<Rightarrow> True)"

definition upd_stat :: "connection_kind \<Rightarrow> bool \<Rightarrow> (single_stat \<Rightarrow> single_stat) \<Rightarrow> connect_stats \<Rightarrow> connect_stats" where
  "upd_stat k v6 f s = s((k, v6) := f (s (k, v6)))"

text \<open>The two halves of \<open>with_stat\<close>: before the attempt, and after it was answered.\<close>

definition stat_attempt :: "connection_kind \<Rightarrow> bool \<Rightarrow> connect_stats \<Rightarrow> connect_stats" where
  "stat_attempt k v6 = upd_stat k v6 (\<lambda>t. t\<lparr>sg_attempts := sg_attempts t + 1\<rparr>)"

definition stat_outcome :: "connection_kind \<Rightarrow> bool \<Rightarrow> bool \<Rightarrow> connect_stats \<Rightarrow> connect_stats" where
  "stat_outcome k v6 ok =
     upd_stat k v6 (\<lambda>t. if ok then t\<lparr>sg_successes := sg_successes t + 1\<rparr> else t\<lparr>sg_errors := sg_errors t + 1\<rparr>)"

datatype connect_error =
    InvalidPort
  | Ipv6Disabled
  | SocksConnect string
  | TcpConnect string
  | UtpConnect string
  | ConnectDisabled
  | ConnectBoth string string

text \<open>
  How far one of the two futures of \<open>connect\<close> is: not polled, waiting for the socket, or failed. \<open>Off\<close> is \<open>Ok(None)\<close>: the way is disabled.
\<close>

datatype way = Idle | Trying | Off | Failed string

record connect_state =
  co_tcp :: way
  co_utp :: way
  co_second_passed :: bool
  co_stats :: connect_stats
  co_result :: "(connect_error + connection_kind) option"

definition way_failed :: "way \<Rightarrow> bool" where
  "way_failed w = (case w of Off \<Rightarrow> True | Failed _ \<Rightarrow> True | _ \<Rightarrow> False)"

definition way_error :: "way \<Rightarrow> string option" where
  "way_error w = (case w of Failed e \<Rightarrow> Some e | _ \<Rightarrow> None)"

definition both_failed :: "way \<Rightarrow> way \<Rightarrow> connect_error" where
  "both_failed tcp utp =
     (case (way_error tcp, way_error utp) of
        (Some t, Some u) \<Rightarrow> ConnectBoth t u
      | (Some t, None) \<Rightarrow> TcpConnect t
      | (None, Some u) \<Rightarrow> UtpConnect u
      | (None, None) \<Rightarrow> ConnectDisabled)"

text \<open>The checks before the race: the address, and the proxy, which answers with \<open>socks\<close>.\<close>

definition connect_begin :: "stream_connector \<Rightarrow> (unit + string) \<Rightarrow> socket_addr \<Rightarrow> connect_stats \<Rightarrow> connect_state" where
  "connect_begin c socks a st =
     (let fresh = \<lparr>co_tcp = Idle, co_utp = Idle, co_second_passed = False, co_stats = st, co_result = None\<rparr>
      in if snd a = 0 then fresh\<lparr>co_result := Some (Inl InvalidPort)\<rparr>
         else if sc_ipv4_only c \<and> addr_is_ipv6 a then fresh\<lparr>co_result := Some (Inl Ipv6Disabled)\<rparr>
         else if sc_proxy_config c \<noteq> None
         then (let st1 = stat_attempt Socks (addr_is_ipv6 a) st
               in case socks of
                    Inl _ \<Rightarrow> fresh\<lparr>co_stats := stat_outcome Socks (addr_is_ipv6 a) True st1, co_result := Some (Inr Socks)\<rparr>
                  | Inr e \<Rightarrow> fresh\<lparr>co_stats := stat_outcome Socks (addr_is_ipv6 a) False st1, co_result := Some (Inl (SocksConnect e))\<rparr>)
         else fresh)"

inductive connect_step :: "stream_connector \<Rightarrow> bool \<Rightarrow> connect_state \<Rightarrow> connect_state \<Rightarrow> bool" for c v6 where
  cs_tcp_off: "co_result s = None \<Longrightarrow> co_tcp s = Idle \<Longrightarrow> \<not> sc_enable_tcp c \<Longrightarrow> connect_step c v6 s (s\<lparr>co_tcp := Off\<rparr>)"
| cs_tcp_start: "co_result s = None \<Longrightarrow> co_tcp s = Idle \<Longrightarrow> sc_enable_tcp c
    \<Longrightarrow> connect_step c v6 s (s\<lparr>co_tcp := Trying, co_stats := stat_attempt Tcp v6 (co_stats s)\<rparr>)"
| cs_tcp_ok: "co_result s = None \<Longrightarrow> co_tcp s = Trying
    \<Longrightarrow> connect_step c v6 s (s\<lparr>co_stats := stat_outcome Tcp v6 True (co_stats s), co_result := Some (Inr Tcp)\<rparr>)"
| cs_tcp_err: "co_result s = None \<Longrightarrow> co_tcp s = Trying
    \<Longrightarrow> connect_step c v6 s (s\<lparr>co_tcp := Failed e, co_stats := stat_outcome Tcp v6 False (co_stats s)\<rparr>)"
| cs_second: "co_result s = None \<Longrightarrow> \<not> co_second_passed s \<Longrightarrow> connect_step c v6 s (s\<lparr>co_second_passed := True\<rparr>)"
| cs_utp_off: "co_result s = None \<Longrightarrow> co_utp s = Idle \<Longrightarrow> \<not> sc_utp_socket c \<Longrightarrow> connect_step c v6 s (s\<lparr>co_utp := Off\<rparr>)"
| cs_utp_start: "co_result s = None \<Longrightarrow> co_utp s = Idle \<Longrightarrow> sc_utp_socket c \<Longrightarrow> \<not> sc_enable_tcp c \<or> way_failed (co_tcp s) \<or> co_second_passed s
    \<Longrightarrow> connect_step c v6 s (s\<lparr>co_utp := Trying, co_stats := stat_attempt Utp v6 (co_stats s)\<rparr>)"
| cs_utp_ok: "co_result s = None \<Longrightarrow> co_utp s = Trying
    \<Longrightarrow> connect_step c v6 s (s\<lparr>co_stats := stat_outcome Utp v6 True (co_stats s), co_result := Some (Inr Utp)\<rparr>)"
| cs_utp_err: "co_result s = None \<Longrightarrow> co_utp s = Trying
    \<Longrightarrow> connect_step c v6 s (s\<lparr>co_utp := Failed e, co_stats := stat_outcome Utp v6 False (co_stats s)\<rparr>)"
| cs_all_failed: "co_result s = None \<Longrightarrow> way_failed (co_tcp s) \<Longrightarrow> way_failed (co_utp s)
    \<Longrightarrow> connect_step c v6 s (s\<lparr>co_result := Some (Inl (both_failed (co_tcp s) (co_utp s)))\<rparr>)"

inductive_cases connect_stepE: "connect_step c v6 s t"

subsection \<open>Listening\<close>

datatype listener_mode = TcpOnly | UtpOnly | TcpAndUtp

definition tcp_enabled :: "listener_mode \<Rightarrow> bool" where
  "tcp_enabled m = (case m of TcpOnly \<Rightarrow> True | UtpOnly \<Rightarrow> False | TcpAndUtp \<Rightarrow> True)"

definition utp_enabled :: "listener_mode \<Rightarrow> bool" where
  "utp_enabled m = (case m of TcpOnly \<Rightarrow> False | UtpOnly \<Rightarrow> True | TcpAndUtp \<Rightarrow> True)"

record listener_options =
  li_mode :: listener_mode
  li_listen_addr :: socket_addr
  li_enable_upnp_port_forwarding :: bool
  li_announce_port :: "16 word option"
  li_ipv4_only :: bool

definition listener_options_default :: listener_options where
  "listener_options_default = \<lparr>li_mode = TcpOnly, li_listen_addr = (V6 0, 0), li_enable_upnp_port_forwarding = False, li_announce_port = None,
     li_ipv4_only = False\<rparr>"

record listen_result =
  lr_tcp_socket :: "socket_addr option"
  lr_utp_socket :: "socket_addr option"
  lr_enable_upnp_port_forwarding :: bool
  lr_addr :: socket_addr
  lr_announce_port :: "16 word option"

definition is_unspecified :: "ip_addr \<Rightarrow> bool" where
  "is_unspecified i = (case i of V4 w \<Rightarrow> w = 0 | V6 w \<Rightarrow> w = 0)"

definition is_loopback :: "ip_addr \<Rightarrow> bool" where
  "is_loopback i = (case i of V4 w \<Rightarrow> drop_bit 24 w = 127 | V6 w \<Rightarrow> w = 1)"

text \<open>\<open>bind_tcp\<close> and \<open>bind_utp\<close> are the operating system's: the address that a socket is bound to, or an error. The flag asks for dual stack.\<close>

definition listener_start :: "(socket_addr \<Rightarrow> bool \<Rightarrow> socket_addr res) \<Rightarrow> (socket_addr \<Rightarrow> socket_addr res) \<Rightarrow> listener_options \<Rightarrow> listen_result res" where
  "listener_start bind_tcp bind_utp l =
     (let addr0 = (if li_ipv4_only l \<and> addr_is_ipv6 (li_listen_addr l) \<and> is_unspecified (fst (li_listen_addr l)) then (V4 0, snd (li_listen_addr l)) else li_listen_addr l)
      in res_bind (if tcp_enabled (li_mode l) then res_bind (bind_tcp addr0 (\<not> li_ipv4_only l)) (\<lambda>b. Inr (Some b, b)) else Inr (None, addr0)) (\<lambda>(tcp, addr1).
         res_bind (if utp_enabled (li_mode l)
                   then (case bind_utp addr1 of Inr b \<Rightarrow> Inr (Some b, b) | Inl e \<Rightarrow> if tcp \<noteq> None then Inr (None, addr1) else Inl e)
                   else Inr (None, addr1)) (\<lambda>(utp, addr2).
           Inr \<lparr>lr_tcp_socket = tcp, lr_utp_socket = utp, lr_enable_upnp_port_forwarding = li_enable_upnp_port_forwarding l, lr_addr = addr2,
                lr_announce_port = (case li_announce_port l of Some p \<Rightarrow> Some p | None \<Rightarrow> if is_loopback (fst addr2) then None else Some (snd addr2))\<rparr>)))"

subsection \<open>Looking for the metadata\<close>

datatype 'i search_result = Found 'i "byte list" | ChannelClosed

text \<open>
  The loop of \<open>read_metainfo_from_peer_receiver\<close>: the addresses seen, the futures that wait for the semaphore and those that hold a permit, whether
  the stream of addresses ended, and the result. \<open>se_failed\<close> remembers who failed.
\<close>

record 'i search_state =
  sh_seen :: "socket_addr set"
  sh_waiting :: "socket_addr list"
  sh_active :: "socket_addr list"
  sh_failed :: "socket_addr list"
  sh_addrs_completed :: bool
  sh_result :: "'i search_result option"

definition max_readers :: nat where
  "max_readers = 128"

definition search_begin :: "socket_addr list \<Rightarrow> 'i search_state" where
  "search_begin initial_addrs = \<lparr>sh_seen = set initial_addrs, sh_waiting = initial_addrs, sh_active = [], sh_failed = [], sh_addrs_completed = False, sh_result = None\<rparr>"

definition search_addr :: "socket_addr \<Rightarrow> 'i search_state \<Rightarrow> 'i search_state" where
  "search_addr a s = (if a \<in> sh_seen s then s else s\<lparr>sh_seen := insert a (sh_seen s), sh_waiting := sh_waiting s @ [a]\<rparr>)"

text \<open>
  A connection that succeeds is a run of the connection of \<open>Peer_Connection\<close> over the metadata handler, whatever the peer does; \<open>sock\<close> are the bytes it
  sends.
\<close>

inductive search_step ::
  "'x codec \<Rightarrow> metadata_env \<Rightarrow> (byte list \<Rightarrow> 'i option) \<Rightarrow> (socket_addr \<Rightarrow> 'c reader) \<Rightarrow> 'i search_state \<Rightarrow> 'i search_state \<Rightarrow> bool"
  for X E parse_info sock where
  sr_start: "sh_result s = None \<Longrightarrow> sh_waiting s = a # as \<Longrightarrow> length (sh_active s) < max_readers
    \<Longrightarrow> search_step X E parse_info sock s (s\<lparr>sh_waiting := as, sh_active := sh_active s @ [a]\<rparr>)"
| sr_found: "sh_result s = None \<Longrightarrow> a \<in> set (sh_active s) \<Longrightarrow> mh_result h = None
    \<Longrightarrow> run_outgoing X (metadata_handler E parse_info tx_open rx_open) pc dh d (sock a) connected w now w2 turns (conn_new X h b c) = (r, C)
    \<Longrightarrow> mh_result (cn_handler C) = Some (MetaInfo info buf)
    \<Longrightarrow> search_step X E parse_info sock s (s\<lparr>sh_result := Some (Found info buf)\<rparr>)"
| sr_failed: "sh_result s = None \<Longrightarrow> a \<in> set (sh_active s)
    \<Longrightarrow> search_step X E parse_info sock s (s\<lparr>sh_active := remove1 a (sh_active s), sh_failed := a # sh_failed s\<rparr>)"
| sr_addr: "sh_result s = None \<Longrightarrow> \<not> sh_addrs_completed s \<Longrightarrow> search_step X E parse_info sock s (search_addr a s)"
| sr_end: "sh_result s = None \<Longrightarrow> \<not> sh_addrs_completed s \<Longrightarrow> search_step X E parse_info sock s (s\<lparr>sh_addrs_completed := True\<rparr>)"
| sr_closed: "sh_result s = None \<Longrightarrow> sh_addrs_completed s \<Longrightarrow> sh_waiting s = [] \<Longrightarrow> sh_active s = []
    \<Longrightarrow> search_step X E parse_info sock s (s\<lparr>sh_result := Some ChannelClosed\<rparr>)"

subsection \<open>Properties of connecting\<close>

text \<open>What is in flight: an attempt that was counted and not answered. One that loses the race is dropped and stays so.\<close>

definition in_flight :: "connect_state \<Rightarrow> connection_kind \<Rightarrow> u64" where
  "in_flight s k =
     (case k of Tcp \<Rightarrow> if co_tcp s = Trying \<and> co_result s \<noteq> Some (Inr Tcp) then 1 else 0
      | Utp \<Rightarrow> if co_utp s = Trying \<and> co_result s \<noteq> Some (Inr Utp) then 1 else 0
      | Socks \<Rightarrow> 0)"

definition stats_ok :: "bool \<Rightarrow> connect_stats \<Rightarrow> connect_state \<Rightarrow> bool" where
  "stats_ok v6 st s \<longleftrightarrow>
     (\<forall>k. co_stats s (k, \<not> v6) = st (k, \<not> v6)
        \<and> sg_attempts (co_stats s (k, v6)) - sg_attempts (st (k, v6))
          = (sg_successes (co_stats s (k, v6)) - sg_successes (st (k, v6))) + (sg_errors (co_stats s (k, v6)) - sg_errors (st (k, v6))) + in_flight s k)"

definition result_ok :: "stream_connector \<Rightarrow> connect_error + connection_kind \<Rightarrow> bool" where
  "result_ok c r =
     (case r of
        Inr Socks \<Rightarrow> sc_proxy_config c \<noteq> None
      | Inr Tcp \<Rightarrow> sc_proxy_config c = None \<and> sc_enable_tcp c
      | Inr Utp \<Rightarrow> sc_proxy_config c = None \<and> sc_utp_socket c
      | Inl (SocksConnect _) \<Rightarrow> sc_proxy_config c \<noteq> None
      | Inl (TcpConnect _) \<Rightarrow> sc_proxy_config c = None \<and> sc_enable_tcp c \<and> \<not> sc_utp_socket c
      | Inl (UtpConnect _) \<Rightarrow> sc_proxy_config c = None \<and> \<not> sc_enable_tcp c \<and> sc_utp_socket c
      | Inl (ConnectBoth _ _) \<Rightarrow> sc_proxy_config c = None \<and> sc_enable_tcp c \<and> sc_utp_socket c
      | Inl ConnectDisabled \<Rightarrow> sc_proxy_config c = None \<and> \<not> sc_enable_tcp c \<and> \<not> sc_utp_socket c
      | Inl _ \<Rightarrow> True)"

text \<open>The invariant of the race: the ways that are disabled are not tried, and uTP only starts when TCP had its chance.\<close>

definition race_ok :: "stream_connector \<Rightarrow> connect_state \<Rightarrow> bool" where
  "race_ok c s \<longleftrightarrow>
     (co_tcp s = Off \<longrightarrow> \<not> sc_enable_tcp c) \<and> (co_tcp s = Trying \<or> way_error (co_tcp s) \<noteq> None \<longrightarrow> sc_enable_tcp c)
     \<and> (co_utp s = Off \<longrightarrow> \<not> sc_utp_socket c) \<and> (co_utp s = Trying \<or> way_error (co_utp s) \<noteq> None \<longrightarrow> sc_utp_socket c)
     \<and> (co_utp s = Trying \<or> way_error (co_utp s) \<noteq> None \<longrightarrow> \<not> sc_enable_tcp c \<or> way_failed (co_tcp s) \<or> co_second_passed s)
     \<and> (co_result s = None \<longrightarrow> sc_proxy_config c = None) \<and> (\<forall>r. co_result s = Some r \<longrightarrow> result_ok c r)"

definition connect_inv :: "stream_connector \<Rightarrow> bool \<Rightarrow> connect_stats \<Rightarrow> connect_state \<Rightarrow> bool" where
  "connect_inv c v6 st s \<longleftrightarrow> race_ok c s \<and> stats_ok v6 st s"

definition connect_init :: "stream_connector \<Rightarrow> socket_addr \<Rightarrow> connect_stats \<Rightarrow> connect_state \<Rightarrow> bool" where
  "connect_init c a st s \<longleftrightarrow> (\<exists>socks. s = connect_begin c socks a st)"

lemma both_failed_ok:
  "race_ok c s \<Longrightarrow> co_result s = None \<Longrightarrow> way_failed (co_tcp s) \<Longrightarrow> way_failed (co_utp s) \<Longrightarrow> result_ok c (Inl (both_failed (co_tcp s) (co_utp s)))"
  by (cases "co_tcp s"; cases "co_utp s") (auto simp: race_ok_def way_failed_def way_error_def both_failed_def result_ok_def)

lemma connect_step_race: "connect_step c v6 s t \<Longrightarrow> race_ok c s \<Longrightarrow> race_ok c t"
  using both_failed_ok [of c s]
  by (elim connect_stepE) (auto simp: race_ok_def way_failed_def way_error_def result_ok_def)

lemmas stat_defs = stat_attempt_def stat_outcome_def upd_stat_def

text \<open>The three counters of one kind against their start, with \<open>f\<close> in flight.\<close>

definition balanced :: "single_stat \<Rightarrow> single_stat \<Rightarrow> u64 \<Rightarrow> bool" where
  "balanced t0 t f \<longleftrightarrow> sg_attempts t - sg_attempts t0 = (sg_successes t - sg_successes t0) + (sg_errors t - sg_errors t0) + f"

lemma balanced_steps:
  "balanced t0 t 0 \<Longrightarrow> balanced t0 (t\<lparr>sg_attempts := sg_attempts t + 1\<rparr>) 1"
  "balanced t0 t 1 \<Longrightarrow> balanced t0 (t\<lparr>sg_successes := sg_successes t + 1\<rparr>) 0"
  "balanced t0 t 1 \<Longrightarrow> balanced t0 (t\<lparr>sg_errors := sg_errors t + 1\<rparr>) 0"
  by (simp_all add: balanced_def diff_eq_eq)

lemma balanced_start: "balanced t t 0"
  by (simp add: balanced_def)

lemma stats_ok_iff: "stats_ok v6 st s \<longleftrightarrow> (\<forall>k. co_stats s (k, \<not> v6) = st (k, \<not> v6) \<and> balanced (st (k, v6)) (co_stats s (k, v6)) (in_flight s k))"
  by (simp add: stats_ok_def balanced_def)

lemma connect_step_stats: "connect_step c v6 s t \<Longrightarrow> stats_ok v6 st s \<Longrightarrow> stats_ok v6 st t"
  unfolding stats_ok_iff
  by (elim connect_stepE) (auto simp: stat_defs in_flight_def balanced_steps split: connection_kind.splits if_splits)

lemma connect_begin_race: "race_ok c (connect_begin c socks a st)"
  by (cases socks) (simp_all add: connect_begin_def race_ok_def result_ok_def way_error_def Let_def)

lemma connect_begin_stats: "stats_ok (addr_is_ipv6 a) st (connect_begin c socks a st)"
proof -
  have "balanced t (t\<lparr>sg_attempts := sg_attempts t + 1, sg_successes := sg_successes t + 1\<rparr>) 0"
      "balanced t (t\<lparr>sg_attempts := sg_attempts t + 1, sg_errors := sg_errors t + 1\<rparr>) 0" for t
    by (simp_all add: balanced_def)
  then have "balanced (st (k, addr_is_ipv6 a)) (co_stats (connect_begin c socks a st) (k, addr_is_ipv6 a)) (in_flight (connect_begin c socks a st) k)" for k
    by (cases socks; cases k) (simp_all add: connect_begin_def stat_defs in_flight_def balanced_start Let_def)
  moreover have "co_stats (connect_begin c socks a st) (k, \<not> addr_is_ipv6 a) = st (k, \<not> addr_is_ipv6 a)" for k
    by (cases socks) (simp_all add: connect_begin_def stat_defs Let_def)
  ultimately show ?thesis by (simp add: stats_ok_iff)
qed

interpretation connect: invariant_system "connect_init c a st" "connect_step c (addr_is_ipv6 a)" "connect_inv c (addr_is_ipv6 a) st" for c a st
proof
  fix s assume "connect_init c a st s"
  then show "connect_inv c (addr_is_ipv6 a) st s" 
    using connect_begin_race connect_begin_stats unfolding connect_init_def connect_inv_def by blast
next
  fix s t assume "connect_inv c (addr_is_ipv6 a) st s" "connect_step c (addr_is_ipv6 a) s t"
  then show "connect_inv c (addr_is_ipv6 a) st t" using connect_step_race connect_step_stats unfolding connect_inv_def by blast
qed


definition way_weight :: "way \<Rightarrow> nat" where
  "way_weight w = (case w of Idle \<Rightarrow> 2 | Trying \<Rightarrow> 1 | _ \<Rightarrow> 0)"

definition connect_weight :: "connect_state \<Rightarrow> nat" where
  "connect_weight s = way_weight (co_tcp s) + way_weight (co_utp s) + (if co_second_passed s then 0 else 1) + (if co_result s = None then 1 else 0)"

lemma connect_step_weight: "connect_step c v6 s t \<Longrightarrow> connect_weight t < connect_weight s"
  by (elim connect_stepE) (simp_all add: connect_weight_def way_weight_def)

lemma connect_steps_weight: "(connect_step c v6 ^^ n) s t \<Longrightarrow> n + connect_weight t \<le> connect_weight s"
proof (induction n arbitrary: t)
  case (Suc n)
  then obtain u where "(connect_step c v6 ^^ n) s u" "connect_step c v6 u t" by auto
  then show ?case using Suc.IH [of u] connect_step_weight [of c v6 u t] by simp
qed simp

lemma utp_next:
  assumes r: "co_result t = None" and "way_failed (co_tcp t)"
  shows "\<exists>u. connect_step c v6 t u"
proof (cases "co_utp t")
  case Idle
  show ?thesis using cs_utp_off [OF r Idle] cs_utp_start [OF r Idle] assms(2) by (cases "sc_utp_socket c") blast+
next
  case Trying
  then show ?thesis using cs_utp_ok [OF r] by blast
next
  case Off
  then have "way_failed (co_utp t)" by (simp add: way_failed_def)
  then show ?thesis using cs_all_failed [OF assms] by blast
next
  case (Failed e)
  then have "way_failed (co_utp t)" by (simp add: way_failed_def)
  then show ?thesis using cs_all_failed [OF assms] by blast
qed

text \<open>
  Connecting ends: after at most six steps nothing more can happen, whatever the sockets do and in whatever order; and as long as there is no
  result there is a next step.
\<close>

theorem connect_terminates:
  assumes "connect_init c a st s" and "(connect_step c (addr_is_ipv6 a) ^^ n) s t"
  shows "n \<le> 6 \<and> ((\<exists>u. connect_step c (addr_is_ipv6 a) t u) \<longleftrightarrow> co_result t = None)"
proof -
  have "connect_weight s \<le> 6"
    using assms(1) by (auto simp: connect_init_def connect_begin_def connect_weight_def way_weight_def Let_def split: sum.split)
  then have "n \<le> 6" using connect_steps_weight [OF assms(2)] by simp
  moreover have "\<exists>u. connect_step c (addr_is_ipv6 a) t u" if r: "co_result t = None"
  proof (cases "co_tcp t")
    case Idle
    then show ?thesis using cs_tcp_off [of t] cs_tcp_start [of t] r by (cases "sc_enable_tcp c") blast+
  next
    case Trying
    then show ?thesis using cs_tcp_ok [of t] r by blast
  next
    case Off
    then show ?thesis using utp_next [OF r] by (simp add: way_failed_def)
  next
    case (Failed e)
    then show ?thesis using utp_next [OF r] by (simp add: way_failed_def)
  qed
  moreover have "co_result t = None" if "connect_step c (addr_is_ipv6 a) t u" for u using that by (elim connect_stepE)
  ultimately show ?thesis by blast
qed

subsection \<open>Properties of listening\<close>

text \<open>
  A listener that started has a socket, of an enabled kind; TCP is there if it is enabled, and uTP alone may be missing only next to TCP. The port that is
  announced is the one asked for, else that of the address bound last, unless this is a loopback address.
\<close>

theorem listen_result:
  assumes "listener_start bind_tcp bind_utp l = Inr r"
  shows "(lr_tcp_socket r \<noteq> None \<longleftrightarrow> tcp_enabled (li_mode l)) \<and> (lr_utp_socket r \<noteq> None \<longrightarrow> utp_enabled (li_mode l))
    \<and> (lr_tcp_socket r \<noteq> None \<or> lr_utp_socket r \<noteq> None) \<and> Some (lr_addr r) \<in> {lr_tcp_socket r, lr_utp_socket r}
    \<and> lr_announce_port r = (if li_announce_port l \<noteq> None then li_announce_port l else if is_loopback (fst (lr_addr r)) then None else Some (snd (lr_addr r)))"
  using assms
  by (cases "li_mode l") (auto simp: listener_start_def tcp_enabled_def utp_enabled_def res_bind_eq_Inr Let_def split: option.splits sum.splits)

subsection \<open>Properties of the search\<close>

definition search_inv ::
  "metadata_env \<Rightarrow> (byte list \<Rightarrow> 'i option) \<Rightarrow> socket_addr list \<Rightarrow> 'i search_state \<Rightarrow> bool" where
  "search_inv E parse_info initial_addrs s \<longleftrightarrow>
     length (sh_active s) \<le> max_readers \<and> set initial_addrs \<subseteq> sh_seen s \<and> finite (sh_seen s)
     \<and> mset (sh_waiting s) + mset (sh_active s) + mset (sh_failed s) = mset initial_addrs + mset_set (sh_seen s - set initial_addrs)
     \<and> (case sh_result s of None \<Rightarrow> True | Some ChannelClosed \<Rightarrow> sh_addrs_completed s \<and> sh_waiting s = [] \<and> sh_active s = []
         | Some (Found info buf) \<Rightarrow> me_sha1 E buf = me_info_hash E \<and> parse_info buf = Some info)"

interpretation search: invariant_system "\<lambda>s. s = search_begin initial_addrs" "search_step X E parse_info sock" "search_inv E parse_info initial_addrs"
  for initial_addrs X E parse_info sock
proof
  fix s :: "'a search_state" assume "s = search_begin initial_addrs"
  then show "search_inv E parse_info initial_addrs s" by (simp add: search_inv_def search_begin_def)
next
  fix s t :: "'a search_state" assume inv: "search_inv E parse_info initial_addrs s" and step: "search_step X E parse_info sock s t"
  show "search_inv E parse_info initial_addrs t"
    using step inv
  proof cases
    case (sr_found a h tx_open rx_open pc dh d connected w now w2 turns b c r C info buf)
    then show ?thesis using inv metadata_run_verified [OF sr_found(4,5,6)] by (simp add: search_inv_def)
  next
    case (sr_failed a)
    then have "mset (sh_active s) = add_mset a (mset (remove1 a (sh_active s)))" by simp
    then show ?thesis using sr_failed inv by (auto simp: search_inv_def length_remove1 ac_simps simp del: mset_remove1)
  next
    case (sr_addr a)
    show ?thesis
    proof (cases "a \<in> sh_seen s")
      case False
      then have "a \<notin> set initial_addrs" using inv by (auto simp: search_inv_def)
      then have "insert a (sh_seen s) - set initial_addrs = insert a (sh_seen s - set initial_addrs)" by auto
      then show ?thesis using sr_addr inv False by (auto simp: search_inv_def search_addr_def)
    qed (use sr_addr inv in \<open>simp add: search_addr_def\<close>)
  qed (auto simp: search_inv_def)
qed

text \<open>
  C21. Looking for the metadata of a magnet link. What is found has the right hash, whatever the peers send; besides the initial addresses every address is
  dialled once, at most 128 connections are open, and the search is given up only when the addresses have ended and each of them failed.
\<close>

theorem search_metadata:
  assumes "reach (\<lambda>s. s = search_begin initial_addrs) (search_step X E parse_info sock) s"
  shows "length (sh_active s) \<le> 128
    \<and> mset (sh_waiting s) + mset (sh_active s) + mset (sh_failed s) = mset initial_addrs + mset_set (sh_seen s - set initial_addrs)
    \<and> (\<forall>info buf. sh_result s = Some (Found info buf) \<longrightarrow> me_sha1 E buf = me_info_hash E \<and> parse_info buf = Some info)
    \<and> (sh_result s = Some ChannelClosed \<longrightarrow> sh_addrs_completed s \<and> set (sh_failed s) = sh_seen s)"
proof -
  have inv: "search_inv E parse_info initial_addrs s" by (rule search.reach_inv [OF assms])
  have "set (sh_failed s) = sh_seen s" if "sh_result s = Some ChannelClosed"
  proof -
    have "mset (sh_failed s) = mset initial_addrs + mset_set (sh_seen s - set initial_addrs)" using inv that by (auto simp: search_inv_def)
    then have "set_mset (mset (sh_failed s)) = set_mset (mset initial_addrs + mset_set (sh_seen s - set initial_addrs))" by simp
    then show ?thesis using inv by (auto simp: search_inv_def)
  qed
  then show ?thesis using inv by (auto simp: search_inv_def max_readers_def split: option.splits search_result.splits)
qed

subsection \<open>Examples\<close>

definition ex_connector :: stream_connector where
  "ex_connector = \<lparr>sc_proxy_config = None, sc_enable_tcp = True, sc_utp_socket = True, sc_ipv4_only = False\<rparr>"

definition ex_peer_addr :: socket_addr where
  "ex_peer_addr = (V4 1, 80)"

text \<open>TCP fails, then uTP connects.\<close>

lemma ex_connect:
  "\<exists>t. reach (connect_init ex_connector ex_peer_addr stat_zero) (connect_step ex_connector (addr_is_ipv6 ex_peer_addr)) t \<and> co_result t = Some (Inr Utp)"
proof -
  let ?R = "reach (connect_init ex_connector ex_peer_addr stat_zero) (connect_step ex_connector (addr_is_ipv6 ex_peer_addr))"
  let ?s = "connect_begin ex_connector (Inl ()) ex_peer_addr stat_zero"
  have s: "co_tcp ?s = Idle" "co_utp ?s = Idle" "co_result ?s = None"
    by (simp_all add: connect_begin_def ex_connector_def ex_peer_addr_def Let_def)
  have "?R ?s" by (rule reach_init) (auto simp: connect_init_def)
  define s1 where "s1 = ?s\<lparr>co_tcp := Trying, co_stats := stat_attempt Tcp (addr_is_ipv6 ex_peer_addr) (co_stats ?s)\<rparr>"
  define s2 where "s2 = s1\<lparr>co_tcp := Failed ''refused'', co_stats := stat_outcome Tcp (addr_is_ipv6 ex_peer_addr) False (co_stats s1)\<rparr>"
  define s3 where "s3 = s2\<lparr>co_utp := Trying, co_stats := stat_attempt Utp (addr_is_ipv6 ex_peer_addr) (co_stats s2)\<rparr>"
  define s4 where "s4 = s3\<lparr>co_stats := stat_outcome Utp (addr_is_ipv6 ex_peer_addr) True (co_stats s3), co_result := Some (Inr Utp)\<rparr>"
  let ?K = "connect_step ex_connector (addr_is_ipv6 ex_peer_addr)"
  have enabled: "sc_enable_tcp ex_connector" "sc_utp_socket ex_connector" by (simp_all add: ex_connector_def)
  have "?K ?s s1" unfolding s1_def by (rule cs_tcp_start) (use s enabled in simp_all)
  moreover have "?K s1 s2" unfolding s2_def by (rule cs_tcp_err) (simp_all add: s s1_def)
  moreover have "?K s2 s3" unfolding s3_def by (rule cs_utp_start) (use s enabled in \<open>simp_all add: s1_def s2_def way_failed_def\<close>)
  moreover have "?K s3 s4" unfolding s4_def by (rule cs_utp_ok) (simp_all add: s s1_def s2_def s3_def)
  ultimately have "?R s4" using \<open>?R ?s\<close> by (blast intro: reach_step)
  then show ?thesis by (auto simp: s4_def)
qed


theorem connect_terminates_witness:
  "\<exists>u. connect_step ex_connector False (connect_begin ex_connector (Inl ()) ex_peer_addr stat_zero) u"
proof -
  let ?s = "connect_begin ex_connector (Inl ()) ex_peer_addr stat_zero"
  have i: "connect_init ex_connector ex_peer_addr stat_zero ?s" by (auto simp: connect_init_def)
  have "(connect_step ex_connector (addr_is_ipv6 ex_peer_addr) ^^ 0) ?s ?s" by simp
  from connect_terminates [OF i this] show ?thesis
    by (simp add: connect_begin_def ex_connector_def ex_peer_addr_def addr_is_ipv6_def Let_def)
qed

theorem listen_result_witness:
  "\<exists>r. listener_start (\<lambda>a _. Inr (fst a, 4240)) (\<lambda>_. Inl Panic) (listener_options_default\<lparr>li_mode := TcpAndUtp, li_ipv4_only := True\<rparr>) = Inr r
     \<and> lr_tcp_socket r = Some (V4 0, 4240) \<and> lr_utp_socket r = None \<and> lr_announce_port r = Some 4240"
proof -
  let ?l = "listener_options_default\<lparr>li_mode := TcpAndUtp, li_ipv4_only := True\<rparr>"
  obtain r where r: "listener_start (\<lambda>a _. Inr (fst a, 4240)) (\<lambda>_. Inl Panic) ?l = Inr r" "lr_tcp_socket r = Some (V4 0, 4240)" "lr_utp_socket r = None"
      "lr_addr r = (V4 0, 4240)"
    by (simp add: listener_start_def listener_options_default_def tcp_enabled_def utp_enabled_def is_unspecified_def addr_is_ipv6_def)
  from listen_result [OF r(1)] r show ?thesis by (simp add: listener_options_default_def is_loopback_def)
qed

definition ex_sock :: "socket_addr \<Rightarrow> byte list reader" where
  "ex_sock = (\<lambda>_ c r. (IoBytes [0], c))"

theorem search_metadata_witness:
  "\<exists>s :: byte list search_state. reach (\<lambda>s. s = search_begin [ex_peer_addr]) (search_step ex_codec ex_menv Some ex_sock) s
     \<and> sh_result s = Some (Found [1, 2, 3, 4, 5] [1, 2, 3, 4, 5]) \<and> me_sha1 ex_menv [1, 2, 3, 4, 5] = me_info_hash ex_menv"
proof -
  let ?R = "reach (\<lambda>s. s = search_begin [ex_peer_addr]) (search_step ex_codec ex_menv (Some :: byte list \<Rightarrow> byte list option) ex_sock)"
  let ?s = "search_begin [ex_peer_addr] :: byte list search_state"
  let ?t = "?s\<lparr>sh_waiting := [], sh_active := [ex_peer_addr]\<rparr>" and ?u = "?s\<lparr>sh_waiting := [], sh_active := [ex_peer_addr], sh_result := Some (Found [1, 2, 3, 4, 5] [1, 2, 3, 4, 5])\<rparr>"
  have "search_step ex_codec ex_menv Some ex_sock ?s (?s\<lparr>sh_waiting := [], sh_active := sh_active ?s @ [ex_peer_addr]\<rparr>)"
    by (rule sr_start) (simp_all add: search_begin_def max_readers_def)
  moreover have "?R ?s" by (rule reach_init) simp
  ultimately have t: "?R ?t" by (auto simp: search_begin_def intro: reach_step)
  obtain r C where run: "ex_meta_run (conn_new ex_codec ex_meta_handler read_buf_new []) = (r, C)" by fastforce
  then have found: "mh_result (cn_handler C) = Some (MetaInfo [1, 2, 3, 4, 5] [1, 2, 3, 4, 5])" using ex_meta_result by simp
  have "search_step ex_codec ex_menv Some ex_sock ?t (?t\<lparr>sh_result := Some (Found [1, 2, 3, 4, 5] [1, 2, 3, 4, 5])\<rparr>)"
    by (rule sr_found [OF _ _ _ _ found, where a = ex_peer_addr])
      (use run in \<open>simp_all add: search_begin_def ex_meta_handler_def ex_sock_def ex_meta_run_def\<close>)
  then have "?R ?u" by (intro reach_step [OF t]) simp
  from this search_metadata [OF this] show ?thesis by (intro exI [of _ ?u]) simp
qed

end
