(* ===== verification/Watch.thy ===== *)
theory Watch
  imports Api
begin

text \<open>
  The watch folder (\<open>src/src/watch.rs\<close>): the first scan, the callback for events of the file system, the channel, and the task that adds what
  comes through it to the session. \<open>fs\<close> is what reading a file gives at that moment; walking the folder and the events are the file system's.
\<close>

definition path_extension :: "string \<Rightarrow> string option" where
  "path_extension p =
     (case rev (components p) of
        Normal f # _ \<Rightarrow> (case rsplit_once (CHR ''.'') f of None \<Rightarrow> None | Some (b, e) \<Rightarrow> if b = [] then None else Some e)
      | _ \<Rightarrow> None)"

record watch_env =
  wa_utf8 :: "byte list \<Rightarrow> string option"

definition read_and_validate_magnet ::
  "('s, 'f) session_params \<Rightarrow> watch_env \<Rightarrow> (string \<Rightarrow> byte list option) \<Rightarrow> string \<Rightarrow> add_torrent res" where
  "read_and_validate_magnet X W fs path =
     res_bind (ok_or (Bail ''error opening'') (fs path)) (\<lambda>b.
     res_bind (ok_or (Bail ''error reading'') (wa_utf8 W b)) (\<lambda>url.
     res_bind (ok_or (Bail ''invalid magnet'') (sx_parse_magnet X url)) (\<lambda>_. Inr (AddUrl url))))"

definition read_and_validate_torrent :: "('s, 'f) session_params \<Rightarrow> (string \<Rightarrow> byte list option) \<Rightarrow> string \<Rightarrow> add_torrent res" where
  "read_and_validate_torrent X fs path =
     res_bind (ok_or (Bail ''error opening'') (fs path)) (\<lambda>b.
     res_bind (ok_or (Bail ''invalid .torrent file'') (sx_torrent_from_bytes X b)) (\<lambda>_. Inr (AddTorrentFileBytes b)))"

text \<open>Events: creations and modifications count, all others are ignored; an event can be an error.\<close>

datatype watch_event = Changed "string list" | OtherEvent "string list" | ErrorEvent

definition res_option :: "'a res \<Rightarrow> 'a option" where
  "res_option r = (case r of Inl _ \<Rightarrow> None | Inr x \<Rightarrow> Some x)"

definition path_message ::
  "('s, 'f) session_params \<Rightarrow> watch_env \<Rightarrow> (string \<Rightarrow> byte list option) \<Rightarrow> string \<Rightarrow> (add_torrent \<times> string) option" where
  "path_message X W fs path =
     (if path_extension path = Some ''torrent'' then map_option (\<lambda>t. (t, path)) (res_option (read_and_validate_torrent X fs path))
      else if path_extension path = Some ''magnet'' then map_option (\<lambda>t. (t, path)) (res_option (read_and_validate_magnet X W fs path))
      else None)"

text \<open>What the callback sends.\<close>

definition watch_cb ::
  "('s, 'f) session_params \<Rightarrow> watch_env \<Rightarrow> (string \<Rightarrow> byte list option) \<Rightarrow> watch_event \<Rightarrow> (add_torrent \<times> string) list res" where
  "watch_cb X W fs ev =
     (case ev of
        ErrorEvent \<Rightarrow> Inl (Bail ''error event'')
      | OtherEvent _ \<Rightarrow> Inr []
      | Changed paths \<Rightarrow> Inr (List.map_filter (path_message X W fs) paths))"

text \<open>The first scan: \<open>entries\<close> are the paths of the walk with whether they are files.\<close>

definition watch_scan :: "('s, 'f) session_params \<Rightarrow> (string \<Rightarrow> byte list option) \<Rightarrow> (string \<times> bool) list \<Rightarrow> (add_torrent \<times> string) list" where
  "watch_scan X fs entries =
     List.map_filter (\<lambda>(p, is_file). if is_file \<and> path_extension p = Some ''torrent''
       then map_option (\<lambda>t. (t, p)) (res_option (read_and_validate_torrent X fs p)) else None) entries"

text \<open>One message of \<open>watch_adder\<close>; the session may be gone.\<close>

definition watch_add_one ::
  "('s, 'f) session_params \<Rightarrow> session_config \<Rightarrow> 'p persistence_ops \<Rightarrow> ('s, 'f) surroundings \<Rightarrow> (string \<Rightarrow> torrent_meta res) \<Rightarrow> resolve_outcome
   \<Rightarrow> bool \<Rightarrow> add_torrent \<times> string \<Rightarrow> ('s, 'f, 'p, unit) ses" where
  "watch_add_one X C P u http resolve alive m S =
     (if \<not> alive then (Inr (), S)
      else case session_add_torrent X C P u True http resolve (fst m) (Some (add_options_default\<lparr>ao_overwrite := True\<rparr>)) S of
        (Inl e, S1) \<Rightarrow> (Inl e, S1)
      | (Inr (Added _ _), S1) \<Rightarrow> (Inr (), S1)
      | (Inr (AlreadyManaged _ _), S1) \<Rightarrow> (Inr (), S1)
      | (Inr (ListOnly _), S1) \<Rightarrow> (Inl (Bail ''bug: unexpected list only''), S1))"

record ('s, 'f, 'p) watch_state =
  ws_scanned :: bool
  ws_queue :: "(add_torrent \<times> string) list"
  ws_session :: "('s, 'f, 'p) session"

text \<open>The thread, the adder and the rest of the program, in any order; the watcher is installed after the scan.\<close>

inductive watch_step ::
  "('s, 'f) session_params \<Rightarrow> session_config \<Rightarrow> watch_env \<Rightarrow> bool \<Rightarrow> ('s, 'f, 'p) watch_state \<Rightarrow> ('s, 'f, 'p) watch_state \<Rightarrow> bool" for X C W strict where
  wt_scan: "\<not> ws_scanned s \<Longrightarrow> watch_step X C W strict s (s\<lparr>ws_scanned := True, ws_queue := ws_queue s @ watch_scan X fs entries\<rparr>)"
| wt_event: "ws_scanned s \<Longrightarrow> watch_cb X W fs ev = Inr ms \<Longrightarrow> watch_step X C W strict s (s\<lparr>ws_queue := ws_queue s @ ms\<rparr>)"
| wt_event_error: "watch_cb X W fs ev = Inl e \<Longrightarrow> watch_step X C W strict s s"
| wt_add: "ws_queue s = m # ms \<Longrightarrow> watch_add_one X C P u http resolve alive m (ws_session s) = (r, S')
    \<Longrightarrow> watch_step X C W strict s (s\<lparr>ws_queue := ms, ws_session := S'\<rparr>)"
| wt_session: "session_step X C strict (ws_session s) S' \<Longrightarrow> watch_step X C W strict s (s\<lparr>ws_session := S'\<rparr>)"

definition watch_init :: "('s, 'f, 'p) watch_state \<Rightarrow> bool" where
  "watch_init s \<longleftrightarrow> \<not> ws_scanned s \<and> ws_queue s = [] \<and> session_init (ws_session s)"

subsection \<open>Properties\<close>

text \<open>What may be in the channel: the content of a file that parses as what its name says.\<close>

definition message_ok :: "('s, 'f) session_params \<Rightarrow> watch_env \<Rightarrow> add_torrent \<times> string \<Rightarrow> bool" where
  "message_ok X W m \<longleftrightarrow>
     (case fst m of
        AddTorrentFileBytes b \<Rightarrow> path_extension (snd m) = Some ''torrent'' \<and> sx_torrent_from_bytes X b \<noteq> None
      | AddUrl url \<Rightarrow> path_extension (snd m) = Some ''magnet'' \<and> sx_parse_magnet X url \<noteq> None)"

lemma torrent_message: "read_and_validate_torrent X fs p = Inr t \<Longrightarrow> path_extension p = Some ''torrent'' \<Longrightarrow> message_ok X W (t, p)"
  by (auto simp: read_and_validate_torrent_def message_ok_def res_bind_eq_Inr ok_or_eq_Inr)

lemma magnet_message: "read_and_validate_magnet X W fs p = Inr t \<Longrightarrow> path_extension p = Some ''magnet'' \<Longrightarrow> message_ok X W (t, p)"
  by (auto simp: read_and_validate_magnet_def message_ok_def res_bind_eq_Inr ok_or_eq_Inr)

lemma res_option_Some [simp]: "res_option r = Some x \<longleftrightarrow> r = Inr x"
  by (auto simp: res_option_def split: sum.splits)

lemma set_map_filter_mem: "y \<in> set (List.map_filter f xs) \<longleftrightarrow> (\<exists>x \<in> set xs. f x = Some y)"
  by (force simp: List.map_filter_def)

lemma scan_messages: "m \<in> set (watch_scan X fs entries) \<Longrightarrow> message_ok X W m"
  by (auto simp: watch_scan_def set_map_filter_mem torrent_message split: if_splits)

lemma event_messages: "watch_cb X W fs ev = Inr ms \<Longrightarrow> m \<in> set ms \<Longrightarrow> message_ok X W m"
  by (auto simp: watch_cb_def path_message_def set_map_filter_mem torrent_message magnet_message split: watch_event.splits if_splits)

lemma add_one_session:
  assumes "watch_add_one X C P u http resolve alive m S = (r, S')" and "reach session_init (session_step X C strict) S"
  shows "reach session_init (session_step X C strict) S'"
proof (cases alive)
  case True
  obtain r1 where "session_add_torrent X C P u True http resolve (fst m) (Some (add_options_default\<lparr>ao_overwrite := True\<rparr>)) S = (r1, S')"
    using assms(1) True
    by (cases "session_add_torrent X C P u True http resolve (fst m) (Some (add_options_default\<lparr>ao_overwrite := True\<rparr>)) S")
      (auto simp: watch_add_one_def split: sum.splits add_torrent_response.splits)
  then show ?thesis by (rule add_torrent_reach [OF assms(2)])
qed (use assms in \<open>simp add: watch_add_one_def\<close>)

definition watch_inv :: "('s, 'f) session_params \<Rightarrow> session_config \<Rightarrow> watch_env \<Rightarrow> bool \<Rightarrow> ('s, 'f, 'p) watch_state \<Rightarrow> bool" where
  "watch_inv X C W strict s \<longleftrightarrow> (\<forall>m \<in> set (ws_queue s). message_ok X W m) \<and> reach session_init (session_step X C strict) (ws_session s)"

interpretation watch: invariant_system watch_init "watch_step X C W strict" "watch_inv X C W strict" for X C W strict
proof
  fix s :: "('a, 'b, 'c) watch_state" assume "watch_init s"
  then show "watch_inv X C W strict s" by (auto simp: watch_init_def watch_inv_def intro: reach_init)
next
  fix s t :: "('a, 'b, 'c) watch_state" assume inv: "watch_inv X C W strict s" and step: "watch_step X C W strict s t"
  show "watch_inv X C W strict t"
    using step inv
    by cases (auto simp: watch_inv_def dest: scan_messages [where W = W] event_messages add_one_session intro: reach_step)
qed

text \<open>
  Whatever happens in the watched folder and to the session, what waits to be added is the content of a file that parses as what the name of the
  file says, and the session stays one that its own steps reach; a file that cannot be added does not stop the watcher.
\<close>

theorem watch_consistent:
  assumes "reach watch_init (watch_step X C W strict) s"
  shows "(\<forall>m \<in> set (ws_queue s). message_ok X W m) \<and> reach session_init (session_step X C strict) (ws_session s)"
  using watch.reach_inv [OF assms] by (simp add: watch_inv_def)

text \<open>Only torrent files are found by the first scan: a magnet file that is already in the folder is not added until it is touched.\<close>

lemma scan_skips_magnets: "path_extension p = Some ''magnet'' \<Longrightarrow> watch_scan X fs [(p, True)] = []"
  by (simp add: watch_scan_def List.map_filter_simps)

definition ex_watch :: "(byte list fs_storage, unit, unit) watch_state" where
  "ex_watch = \<lparr>ws_scanned = False, ws_queue = [], ws_session = ex_new_session\<rparr>"

theorem watch_consistent_witness:
  "\<exists>s :: (byte list fs_storage, unit, unit) watch_state. ws_queue s = [(AddTorrentFileBytes [1], ''a.torrent'')] \<and> message_ok ex_params \<lparr>wa_utf8 = (\<lambda>_. None)\<rparr> (AddTorrentFileBytes [1], ''a.torrent'')
     \<and> reach session_init (session_step ex_params ex_config True) (ws_session s)"
proof -
  let ?W = "\<lparr>wa_utf8 = (\<lambda>_. None)\<rparr>" and ?s = "ex_watch\<lparr>ws_scanned := True, ws_queue := ws_queue ex_watch @ watch_scan ex_params (\<lambda>_. Some [1]) [(''a.torrent'', True)]\<rparr>"
  have "path_extension ''a.torrent'' = Some ''torrent''" by code_simp
  then have q: "ws_queue ?s = [(AddTorrentFileBytes [1], ''a.torrent'')]"
    by (simp add: ex_watch_def watch_scan_def List.map_filter_simps read_and_validate_torrent_def ex_params_def res_option_def)
  have "reach watch_init (watch_step ex_params ex_config ?W True) ex_watch"
    by (rule reach_init) (auto simp: watch_init_def ex_watch_def session_init_def)
  then have "reach watch_init (watch_step ex_params ex_config ?W True) ?s" by (rule reach_step) (rule wt_scan, simp add: ex_watch_def)
  from watch_consistent [OF this] have m: "(\<forall>m \<in> set (ws_queue ?s). message_ok ex_params ?W m) \<and> reach session_init (session_step ex_params ex_config True) (ws_session ?s)" .
  have "message_ok ex_params ?W (AddTorrentFileBytes [1], ''a.torrent'')" using m unfolding q by simp
  then show ?thesis using m q by blast
qed

end
