(* ===== verification/Storage_More.thy ===== *)
theory Storage_More
  imports File_Ops
begin

text \<open>
  The other storages: memory mapped files (\<open>src/src/storage/filesystem/mmap.rs\<close>), one anonymous mapping for a whole torrent and pieces in memory
  (\<open>src/src/storage/examples/\<close>), and the middlewares that log times and that delay operations (\<open>src/src/storage/middleware/timing.rs\<close>, \<open>slow.rs\<close>). None of them
  overrides \<open>pwrite_all_vectored\<close>, so what they owe their clients follows from \<open>pread_exact\<close> and \<open>pwrite_all\<close>: the locale \<open>plain_storage\<close>.
\<close>

subsection \<open>Storages with the default vectored write\<close>

locale plain_storage =
  fixes ops :: "'s store_ops" and view :: "'s \<Rightarrow> nat \<Rightarrow> byte list option"
  assumes read_back: "view s f = Some c \<Longrightarrow> off + n \<le> length c \<Longrightarrow> so_pread_exact ops s f off n = Inr (take n (drop off c))"
    and write_there: "view s f = Some c \<Longrightarrow> off + length b \<le> length c \<Longrightarrow> length c < 2 ^ 63 \<Longrightarrow>
      \<exists>s'. so_pwrite_all ops s f off b = (Inr (), s') \<and> view s' = (view s)(f \<mapsto> overwrite off b c)"
    and vectored: "so_pwrite_all_vectored ops = pwrite_all_vectored_default (so_pwrite_all ops)"

lemma overwrite_twice:
  "off + length a + length b \<le> length c \<Longrightarrow> overwrite (off + length a) b (overwrite off a c) = overwrite off (a @ b) c"
  by (simp add: overwrite_def add.assoc) (simp add: drop_drop add.commute add.left_commute)

sublocale plain_storage \<subseteq> torrent_storage ops view
proof
  fix s f c off n
  assume "view s f = Some c" "off + n \<le> length c"
  then show "so_pread_exact ops s f off n = Inr (take n (drop off c))" by (rule read_back)
next
  fix s f c off r s' and a b :: "byte list"
  assume v: "view s f = Some c" and len: "off + length a + length b \<le> length c" "length c < 2 ^ 63"
    and w: "so_pwrite_all_vectored ops s f off (a, b) = (r, s')"
  obtain s1 where s1: "so_pwrite_all ops s f off a = (Inr (), s1)" "view s1 = (view s)(f \<mapsto> overwrite off a c)"
    using write_there [OF v, of off a] len by auto
  moreover have "\<exists>s2. so_pwrite_all ops s1 f (off + length a) b = (Inr (), s2) \<and> view s2 = (view s1)(f \<mapsto> overwrite (off + length a) b (overwrite off a c))"
    by (rule write_there) (use s1(2) len in simp_all)
  ultimately have "r = Inr (length a + length b) \<and> view s' = (view s)(f \<mapsto> overwrite off (a @ b) c)"
    using w len by (auto simp: vectored pwrite_all_vectored_default_def overwrite_twice)
  then show "\<exists>n \<le> length a + length b. view s' = (view s)(f \<mapsto> overwrite off (take n (a @ b)) c) \<and> (\<forall>m. r = Inr m \<longrightarrow> m = n)"
    by (intro exI [of _ "length a + length b"]) simp
qed

context torrent_storage
begin

lemma check_piece_view:
  assumes L: "lengths_ok L" "lengths_bytes_ok L" and files: "files_len (enum files) = total_length L" "layout_ok (view s) (enum files)"
    and p: "p < total_pieces L"
  shows "check_piece L sha1 compare_hash ops files s p =
     (case compare_hash p (sha1 (torrent_slice (view s) (enum files) (piece_offset L p) (piece_length L p))) of
        Some v \<Rightarrow> Inr v | None \<Rightarrow> Inl (Bail ''compare_hash() did not find the piece''))"
proof -
  have fit: "piece_offset L p + piece_length L p \<le> files_len (enum files)" using lengths_bytes_piece [OF L p] files(1) by simp
  have "0 < min 65536 (piece_length L p)" using lengths_ok_chunks(2) [OF L(1) p] by simp
  from check_piece_loop_spec [OF files(2) this fit, of "[]"] show ?thesis by (simp add: check_piece_def Let_def)
qed

end

lemma files_len_bound: "i < length fis \<Longrightarrow> fi_len (fis ! i) \<le> files_len (enum fis)"
  unfolding files_len_def by (rule member_le_sum_list) (auto simp: set_enum intro!: image_eqI [where x = "(i, fis ! i)"])

text \<open>A slice of a buffer, and copying into one: both fail out of range.\<close>

definition slice_get :: "nat \<Rightarrow> nat \<Rightarrow> byte list \<Rightarrow> byte list option" where
  "slice_get off n c = (if off + n \<le> length c then Some (take n (drop off c)) else None)"

definition slice_put :: "nat \<Rightarrow> byte list \<Rightarrow> byte list \<Rightarrow> byte list option" where
  "slice_put off b c = (if off + length b \<le> length c then Some (overwrite off b c) else None)"

subsection \<open>Memory mapped files\<close>

record 'fd mmap_storage =
  mm_opened_mmaps :: "byte list list"
  mm_fs :: "'fd fs_storage"

definition mmap_create :: "'fd fs_storage \<Rightarrow> 'fd mmap_storage" where
  "mmap_create fs = \<lparr>mm_opened_mmaps = [], mm_fs = fs\<rparr>"

definition mmap_pread_exact :: "'fd mmap_storage \<Rightarrow> nat \<Rightarrow> nat \<Rightarrow> nat \<Rightarrow> byte list res" where
  "mmap_pread_exact s file_id offset n =
     res_bind (ok_or (Bail ''no such file'') (vec_get (mm_opened_mmaps s) file_id)) (\<lambda>g.
       ok_or (Bail ''bug'') (slice_get offset n g))"

definition mmap_pwrite_all :: "'fd mmap_storage \<Rightarrow> nat \<Rightarrow> nat \<Rightarrow> byte list \<Rightarrow> unit res \<times> 'fd mmap_storage" where
  "mmap_pwrite_all s file_id offset buf =
     (case vec_get (mm_opened_mmaps s) file_id of
        None \<Rightarrow> (Inl (Bail ''no such file''), s)
      | Some g \<Rightarrow>
        (case slice_put offset buf g of
           None \<Rightarrow> (Inl (Bail ''bug''), s)
         | Some g' \<Rightarrow> (Inr (), s\<lparr>mm_opened_mmaps := (mm_opened_mmaps s)[file_id := g']\<rparr>)))"

definition mmap_ensure_file_length :: "'fd os_file_ops \<Rightarrow> 'fd mmap_storage \<Rightarrow> nat \<Rightarrow> nat \<Rightarrow> unit res \<times> 'fd mmap_storage" where
  "mmap_ensure_file_length os s file_id len =
     (case fs_ensure_file_length os (mm_fs s) file_id len of (r, fs) \<Rightarrow> (r, s\<lparr>mm_fs := fs\<rparr>))"

text \<open>\<open>take\<close>: every map is replaced by an anonymous one of one byte.\<close>

definition mmap_take :: "'fd mmap_storage \<Rightarrow> 'fd mmap_storage res \<times> 'fd mmap_storage" where
  "mmap_take s =
     (case fs_take (mm_fs s) of
        (r, fs) \<Rightarrow> (res_bind r (\<lambda>t. Inr \<lparr>mm_opened_mmaps = mm_opened_mmaps s, mm_fs = t\<rparr>),
                    \<lparr>mm_opened_mmaps = map (\<lambda>_. [0]) (mm_opened_mmaps s), mm_fs = fs\<rparr>))"

definition mmap_ops :: "'fd os_file_ops \<Rightarrow> 'fd mmap_storage store_ops" where
  "mmap_ops os = \<lparr>so_pread_exact = mmap_pread_exact, so_pwrite_all = mmap_pwrite_all,
     so_pwrite_all_vectored = pwrite_all_vectored_default mmap_pwrite_all,
     so_ensure_file_length = mmap_ensure_file_length os, so_take = mmap_take, so_on_piece_completed = on_piece_completed_default\<rparr>"

text \<open>
  \<open>init\<close> after that of the file system storage: every opened file gets its length and is mapped. \<open>os_map\<close> gives the content of a mapped file.
  The lock of a dummy, which stands for a padding file, gives no file. The second result is the files as they are left.
\<close>

fun mmap_files ::
  "'fd os_file_ops \<Rightarrow> ('fd \<Rightarrow> byte list res) \<Rightarrow> 'fd opened_file list \<Rightarrow> nat list \<Rightarrow> byte list list res \<times> 'fd opened_file list" where
  "mmap_files os os_map [] lens = (Inr [], [])"
| "mmap_files os os_map (f # fs) lens =
     (case of_lock_read f of
        Inl e \<Rightarrow> (Inl e, f # fs)
      | Inr fd \<Rightarrow>
        (case lens of
           [] \<Rightarrow> (Inl Panic, f # fs)
         | len # lens' \<Rightarrow>
           (case os_set_len os fd len of
              (Inl _, fd') \<Rightarrow> (Inl (Bail ''mmap storage: error setting length''), f\<lparr>of_fd := Some fd'\<rparr> # fs)
            | (Inr _, fd') \<Rightarrow>
              (case os_map fd' of
                 Inl _ \<Rightarrow> (Inl (Bail ''error mapping file''), f\<lparr>of_fd := Some fd'\<rparr> # fs)
               | Inr m \<Rightarrow>
                 (case mmap_files os os_map fs lens' of
                    (r, fs') \<Rightarrow> (res_bind r (\<lambda>ms. Inr (m # ms)), f\<lparr>of_fd := Some fd'\<rparr> # fs'))))))"

definition mmap_init ::
  "'fd os_file_ops \<Rightarrow> (bool \<Rightarrow> string \<Rightarrow> 'fd res) \<Rightarrow> (string \<Rightarrow> string \<Rightarrow> string) \<Rightarrow> ('fd \<Rightarrow> byte list res) \<Rightarrow> bool \<Rightarrow> file_infos
   \<Rightarrow> 'fd mmap_storage \<Rightarrow> unit res \<times> 'fd mmap_storage" where
  "mmap_init os os_open path_join os_map allow_overwrite fis s =
     (case fs_init os_open path_join allow_overwrite (map (\<lambda>fi. (relative_filename fi, padding fi)) fis) (mm_fs s) of
        (Inl e, fs) \<Rightarrow> (Inl e, s\<lparr>mm_fs := fs\<rparr>)
      | (Inr _, fs) \<Rightarrow>
        (case mmap_files os os_map (opened_files fs) (map fi_len fis) of
           (Inl e, ofs) \<Rightarrow> (Inl e, s\<lparr>mm_fs := fs\<lparr>opened_files := ofs\<rparr>\<rparr>)
         | (Inr ms, ofs) \<Rightarrow> (Inr (), \<lparr>mm_opened_mmaps = ms, mm_fs = fs\<lparr>opened_files := ofs\<rparr>\<rparr>)))"

definition mmap_view :: "'fd mmap_storage \<Rightarrow> nat \<Rightarrow> byte list option" where
  "mmap_view s f = vec_get (mm_opened_mmaps s) f"

interpretation mmap: plain_storage "mmap_ops os" mmap_view for os
  by unfold_locales
    (auto simp: mmap_ops_def mmap_view_def mmap_pread_exact_def mmap_pwrite_all_def slice_get_def slice_put_def vec_get_def fun_eq_iff nth_list_update
      split: if_splits)

lemma fs_init_files_padding:
  "fs_init_files os_open path_join ao folder nps = Inr ofs \<Longrightarrow> length ofs = length nps \<and> (\<forall>i<length nps. snd (nps ! i) \<longrightarrow> of_fd (ofs ! i) = None)"
  by (induction os_open path_join ao folder nps arbitrary: ofs rule: fs_init_files.induct)
    (auto simp: opened_file_new_dummy_def res_bind_eq_Inr nth_Cons' split: if_splits)

lemma mmap_files_spec:
  assumes "\<forall>fd n fd'. os_set_len os fd n = (Inr (), fd') \<longrightarrow> length (content fd') = n" and "\<forall>fd m. os_map fd = Inr m \<longrightarrow> m = content fd"
  shows "mmap_files os os_map ofs lens = (Inr ms, ofs') \<Longrightarrow>
    length ms = length ofs \<and> length ofs' = length ofs \<and> length ofs \<le> length lens
    \<and> (\<forall>i<length ofs. of_fd (ofs ! i) \<noteq> None \<and> length (ms ! i) = lens ! i \<and> map_option content (of_fd (ofs' ! i)) = Some (ms ! i))"
proof (induction ofs arbitrary: lens ms ofs')
  case (Cons f fs)
  obtain fd len lens' fd' m ms1 fs' where e: "of_fd f = Some fd" "lens = len # lens'" "os_set_len os fd len = (Inr (), fd')" "os_map fd' = Inr m"
      "mmap_files os os_map fs lens' = (Inr ms1, fs')" "ms = m # ms1" "ofs' = f\<lparr>of_fd := Some fd'\<rparr> # fs'"
    using Cons.prems by (auto simp: of_lock_read_def res_bind_eq_Inr split: sum.splits list.splits prod.splits option.splits)
  have "length (content fd') = len" using assms(1) e(3) by simp
  moreover have "content fd' = m" using assms(2) e(4) by simp
  moreover
  have "length ms1 = length fs \<and> length fs' = length fs \<and> length fs \<le> length lens'
    \<and> (\<forall>i<length fs. of_fd (fs ! i) \<noteq> None \<and> length (ms1 ! i) = lens' ! i \<and> map_option content (of_fd (fs' ! i)) = Some (ms1 ! i))"
    using Cons.IH e(5) by blast
  ultimately show ?case using e(1,2,6,7) by (simp add: nth_Cons' All_less_Suc2)
qed auto

text \<open>After \<open>init\<close> the mappings and the files hold the same bytes, every file has its full length, and there is no padding file.\<close>

lemma mmap_init_spec:
  assumes os: "\<forall>fd n fd'. os_set_len os fd n = (Inr (), fd') \<longrightarrow> length (content fd') = n" "\<forall>fd m. os_map fd = Inr m \<longrightarrow> m = content fd"
    and init: "mmap_init os os_open path_join os_map ao fis s = (Inr (), s')"
  shows "mmap_view s' = fs_view content (mm_fs s')"
    and "i < length fis \<Longrightarrow> \<not> padding (fis ! i) \<and> (\<exists>c. mmap_view s' i = Some c \<and> length c = fi_len (fis ! i))"
proof -
  obtain ofs ms ofs' where ofs: "fs_init_files os_open path_join ao (output_folder (mm_fs s)) (map (\<lambda>fi. (relative_filename fi, padding fi)) fis) = Inr ofs"
      and ms: "mmap_files os os_map ofs (map fi_len fis) = (Inr ms, ofs')"
      and s': "s' = \<lparr>mm_opened_mmaps = ms, mm_fs = (mm_fs s)\<lparr>opened_files := ofs'\<rparr>\<rparr>"
    using init by (auto simp: mmap_init_def fs_init_def split: sum.splits prod.splits)
  note len = fs_init_files_padding [OF ofs, simplified] and spec = mmap_files_spec [OF os ms, simplified]
  show "mmap_view s' = fs_view content (mm_fs s')"
    using spec len by (auto simp: s' mmap_view_def fs_view_def vec_get_def fun_eq_iff)
  show "i < length fis \<Longrightarrow> \<not> padding (fis ! i) \<and> (\<exists>c. mmap_view s' i = Some c \<and> length c = fi_len (fis ! i))"
    using spec len by (auto simp: s' mmap_view_def vec_get_def)
qed

text \<open>
  C16. The memory mapped storage and the file system storage: when \<open>init\<close> succeeds, the torrent has no padding file (the lock of a dummy fails, and \<open>init\<close> with it), every
  file is mapped with its full length, and checking a piece through the mappings gives what checking it through the files gives: whether the bytes of the piece have its hash.
\<close>

theorem mmap_checks_like_files:
  assumes "os_files os content"
    and set_len: "\<forall>fd n fd'. os_set_len os fd n = (Inr (), fd') \<longrightarrow> length (content fd') = n" and map_file: "\<forall>fd m. os_map fd = Inr m \<longrightarrow> m = content fd"
    and L: "lengths_ok L" "lengths_bytes_ok L" "files_len (enum fis) = total_length L" "total_length L < 2 ^ 63" and p: "p < total_pieces L"
    and init: "mmap_init os os_open path_join os_map allow_overwrite fis s = (Inr (), s')"
  shows "(\<forall>fi \<in> set fis. \<not> padding fi)
    \<and> check_piece L sha1 compare_hash (mmap_ops os) fis s' p = check_piece L sha1 compare_hash (fs_ops os) fis (mm_fs s') p
    \<and> check_piece L sha1 compare_hash (mmap_ops os) fis s' p =
      (case compare_hash p (sha1 (torrent_slice (mmap_view s') (enum fis) (piece_offset L p) (piece_length L p))) of
         Some v \<Rightarrow> Inr v | None \<Rightarrow> Inl (Bail ''compare_hash() did not find the piece''))"
proof -
  note view = mmap_init_spec(1) [OF set_len map_file init] and files = mmap_init_spec(2) [OF set_len map_file init]
  have "fi_len (fis ! i) < 2 ^ 63" if "i < length fis" for i
    using files_len_bound [OF that] L(3,4) by simp
  then have lay: "layout_ok (mmap_view s') (enum fis)"
    using files by (auto simp: layout_ok_def set_enum) (simp add: enum_def)
  have "\<forall>fi \<in> set fis. \<not> padding fi" using files by (metis in_set_conv_nth)
  moreover note mmap.check_piece_view [OF L(1-3) lay p, of sha1 compare_hash os]
  moreover note check_piece_spec [OF assms(1) L(1-3) lay [unfolded view] p, of sha1 compare_hash]
  ultimately show ?thesis using view by simp
qed

definition ex_mmap_files :: file_infos where
  "ex_mmap_files =
     [\<lparr>relative_filename = ''a'', offset_in_torrent = 0, piece_range = (0, 2), padding = False, fi_len = 5\<rparr>,
      \<lparr>relative_filename = ''b'', offset_in_torrent = 5, piece_range = (1, 3), padding = False, fi_len = 5\<rparr>]"

definition ex_open :: "bool \<Rightarrow> string \<Rightarrow> byte list res" where
  "ex_open allow_overwrite path = Inr (if path = ''a'' then [1, 2, 3, 4, 5] else [0, 7, 8, 9, 10, 11])"

definition ex_mmap :: "byte list mmap_storage" where
  "ex_mmap = \<lparr>mm_opened_mmaps = [[1, 2, 3, 4, 5], [0, 7, 8, 9, 10]],
     mm_fs = \<lparr>output_folder = [], opened_files = [opened_file_new ''a'' [1, 2, 3, 4, 5], opened_file_new ''b'' [0, 7, 8, 9, 10]]\<rparr>\<rparr>"

lemma ex_mmap_init:
  "mmap_init mem_os ex_open (\<lambda>a b. b) Inr True ex_mmap_files (mmap_create \<lparr>output_folder = [], opened_files = []\<rparr>) = (Inr (), ex_mmap)"
  by code_simp

theorem mmap_checks_like_files_witness:
  "check_piece ex_lengths (\<lambda>h. h) (\<lambda>i d. Some (i = 1 \<and> d = [5, 0, 7, 8])) (mmap_ops mem_os) ex_mmap_files ex_mmap 1 = Inr True
   \<and> check_piece ex_lengths (\<lambda>h. h) (\<lambda>i d. Some (i = 1 \<and> d = [5, 0, 7, 8])) (fs_ops mem_os) ex_mmap_files (mm_fs ex_mmap) 1 = Inr True"
proof -
  have len: "files_len (enum ex_mmap_files) = total_length ex_lengths" "total_length ex_lengths < 2 ^ 63" "1 < total_pieces ex_lengths" by code_simp+
  have sl: "torrent_slice (mmap_view ex_mmap) (enum ex_mmap_files) (piece_offset ex_lengths 1) (piece_length ex_lengths 1) = [5, 0, 7, 8]" by code_simp
  have laws: "\<forall>fd n fd'. os_set_len mem_os fd n = (Inr (), fd') \<longrightarrow> length fd' = n" "\<forall>fd m. Inr fd = (Inr m :: byte list res) \<longrightarrow> m = fd"
    by (auto simp: mem_os_def)
  note both = mmap_checks_like_files [OF mem_os.os_files_axioms laws ex_lengths_ok ex_lengths_bytes_ok len(1,2,3) ex_mmap_init,
      of "\<lambda>h. h" "\<lambda>i d. Some (i = 1 \<and> d = [5, 0, 7, 8])"]
  show ?thesis using both sl by auto
qed

subsection \<open>Timing\<close>

record 's timing_storage =
  tm_storage_name :: string
  tm_underlying :: 's

definition timing_pread_exact :: "'s store_ops \<Rightarrow> 's timing_storage \<Rightarrow> nat \<Rightarrow> nat \<Rightarrow> nat \<Rightarrow> byte list res" where
  "timing_pread_exact ops s = so_pread_exact ops (tm_underlying s)"

definition timing_pwrite_all :: "'s store_ops \<Rightarrow> 's timing_storage \<Rightarrow> nat \<Rightarrow> nat \<Rightarrow> byte list \<Rightarrow> unit res \<times> 's timing_storage" where
  "timing_pwrite_all ops s file_id offset buf =
     (case so_pwrite_all ops (tm_underlying s) file_id offset buf of (r, u) \<Rightarrow> (r, s\<lparr>tm_underlying := u\<rparr>))"

definition timing_ensure_file_length :: "'s store_ops \<Rightarrow> 's timing_storage \<Rightarrow> nat \<Rightarrow> nat \<Rightarrow> unit res \<times> 's timing_storage" where
  "timing_ensure_file_length ops s file_id len =
     (case so_ensure_file_length ops (tm_underlying s) file_id len of (r, u) \<Rightarrow> (r, s\<lparr>tm_underlying := u\<rparr>))"

definition timing_take :: "'s store_ops \<Rightarrow> 's timing_storage \<Rightarrow> 's timing_storage res \<times> 's timing_storage" where
  "timing_take ops s =
     (case so_take ops (tm_underlying s) of
        (r, u) \<Rightarrow> (res_bind r (\<lambda>t. Inr \<lparr>tm_storage_name = tm_storage_name s, tm_underlying = t\<rparr>), s\<lparr>tm_underlying := u\<rparr>))"

definition timing_ops :: "'s store_ops \<Rightarrow> 's timing_storage store_ops" where
  "timing_ops ops = \<lparr>so_pread_exact = timing_pread_exact ops, so_pwrite_all = timing_pwrite_all ops,
     so_pwrite_all_vectored = pwrite_all_vectored_default (timing_pwrite_all ops),
     so_ensure_file_length = timing_ensure_file_length ops, so_take = timing_take ops, so_on_piece_completed = on_piece_completed_default\<rparr>"

context plain_storage
begin

lemma timing_plain: "plain_storage (timing_ops ops) (view \<circ> tm_underlying)"
proof
  fix s :: "'s timing_storage" and f c off n
  assume "(view \<circ> tm_underlying) s f = Some c" "off + n \<le> length c"
  then show "so_pread_exact (timing_ops ops) s f off n = Inr (take n (drop off c))"
    using read_back by (simp add: timing_ops_def timing_pread_exact_def)
next
  fix s :: "'s timing_storage" and f c off and b :: "byte list"
  assume v: "(view \<circ> tm_underlying) s f = Some c" "off + length b \<le> length c" "length c < 2 ^ 63"
  then obtain u where "so_pwrite_all ops (tm_underlying s) f off b = (Inr (), u)" "view u = (view (tm_underlying s))(f \<mapsto> overwrite off b c)"
    using write_there [of "tm_underlying s" f c off b] by auto
  then show "\<exists>s'. so_pwrite_all (timing_ops ops) s f off b = (Inr (), s') \<and> (view \<circ> tm_underlying) s' = ((view \<circ> tm_underlying) s)(f \<mapsto> overwrite off b c)"
    by (simp add: timing_ops_def timing_pwrite_all_def)
qed (simp add: timing_ops_def)

end

interpretation timing_mmap: plain_storage "timing_ops (mmap_ops os)" "mmap_view \<circ> tm_underlying" for os
  by (rule mmap.timing_plain)

subsection \<open>Slow\<close>

text \<open>The delays in microseconds that are left; \<open>next().unwrap()\<close> panics when there is none.\<close>

record 's slow_storage =
  sl_underlying :: 's
  sl_pwrite_all_delays :: "nat list"
  sl_pread_exact_delays :: "nat list"

text \<open>\<open>create\<close>: both iterators are made from the file of the write delays.\<close>

definition slow_create :: "nat list \<Rightarrow> 's \<Rightarrow> 's slow_storage" where
  "slow_create pwrite_all_file u = \<lparr>sl_underlying = u, sl_pwrite_all_delays = pwrite_all_file, sl_pread_exact_delays = pwrite_all_file\<rparr>"

definition sleep_from_reader :: "nat list \<Rightarrow> nat res \<times> nat list" where
  "sleep_from_reader ds = (case ds of [] \<Rightarrow> (Inl Panic, []) | d # ds' \<Rightarrow> (Inr d, ds'))"

definition slow_pread_exact :: "'s store_ops \<Rightarrow> 's slow_storage \<Rightarrow> nat \<Rightarrow> nat \<Rightarrow> nat \<Rightarrow> byte list res \<times> 's slow_storage" where
  "slow_pread_exact ops s file_id offset n =
     (case sleep_from_reader (sl_pread_exact_delays s) of
        (Inl e, ds) \<Rightarrow> (Inl e, s\<lparr>sl_pread_exact_delays := ds\<rparr>)
      | (Inr _, ds) \<Rightarrow> (so_pread_exact ops (sl_underlying s) file_id offset n, s\<lparr>sl_pread_exact_delays := ds\<rparr>))"

definition slow_pwrite_all :: "'s store_ops \<Rightarrow> 's slow_storage \<Rightarrow> nat \<Rightarrow> nat \<Rightarrow> byte list \<Rightarrow> unit res \<times> 's slow_storage" where
  "slow_pwrite_all ops s file_id offset buf =
     (case sleep_from_reader (sl_pwrite_all_delays s) of
        (Inl e, ds) \<Rightarrow> (Inl e, s\<lparr>sl_pwrite_all_delays := ds\<rparr>)
      | (Inr _, ds) \<Rightarrow>
        (case so_pwrite_all ops (sl_underlying s) file_id offset buf of (r, u) \<Rightarrow> (r, s\<lparr>sl_underlying := u, sl_pwrite_all_delays := ds\<rparr>)))"

definition slow_take :: "'s slow_storage \<Rightarrow> 's slow_storage res \<times> 's slow_storage" where
  "slow_take s = (Inl (Bail ''not implemented''), s)"

lemma slow_write_then_read:
  "sl_pwrite_all_delays s \<noteq> [] \<Longrightarrow> sl_pread_exact_delays s \<noteq> [] \<Longrightarrow> so_pwrite_all ops (sl_underlying s) f off b = (r, u) \<Longrightarrow>
   \<exists>s'. slow_pwrite_all ops s f off b = (r, s') \<and> fst (slow_pread_exact ops s' g o' n) = so_pread_exact ops u g o' n"
  by (auto simp: slow_pwrite_all_def slow_pread_exact_def sleep_from_reader_def split: list.splits)

subsection \<open>One mapping for the torrent\<close>

record flat_storage =
  fl_mmap :: "byte list"
  fl_file_infos :: file_infos

definition flat_create :: "lengths \<Rightarrow> file_infos \<Rightarrow> flat_storage" where
  "flat_create L fis = \<lparr>fl_mmap = replicate (total_length L) 0, fl_file_infos = fis\<rparr>"

definition flat_pread_exact :: "flat_storage \<Rightarrow> nat \<Rightarrow> nat \<Rightarrow> nat \<Rightarrow> byte list res" where
  "flat_pread_exact s file_id offset n =
     res_bind (vec_index (fl_file_infos s) file_id) (\<lambda>fi. ok_or (Bail ''bad range'') (slice_get (offset_in_torrent fi + offset) n (fl_mmap s)))"

definition flat_pwrite_all :: "flat_storage \<Rightarrow> nat \<Rightarrow> nat \<Rightarrow> byte list \<Rightarrow> unit res \<times> flat_storage" where
  "flat_pwrite_all s file_id offset buf =
     (case vec_index (fl_file_infos s) file_id of
        Inl e \<Rightarrow> (Inl e, s)
      | Inr fi \<Rightarrow>
        (case slice_put (offset_in_torrent fi + offset) buf (fl_mmap s) of
           None \<Rightarrow> (Inl (Bail ''bad range''), s)
         | Some m \<Rightarrow> (Inr (), s\<lparr>fl_mmap := m\<rparr>)))"

definition flat_ops :: "flat_storage store_ops" where
  "flat_ops = \<lparr>so_pread_exact = flat_pread_exact, so_pwrite_all = flat_pwrite_all,
     so_pwrite_all_vectored = pwrite_all_vectored_default flat_pwrite_all,
     so_ensure_file_length = (\<lambda>s _ _. (Inr (), s)), so_take = (\<lambda>s. (Inl (Bail ''not implemented''), s)),
     so_on_piece_completed = on_piece_completed_default\<rparr>"

text \<open>Files one after the other in the mapping.\<close>

definition files_apart :: "flat_storage \<Rightarrow> bool" where
  "files_apart s \<longleftrightarrow>
     (\<forall>fi \<in> set (fl_file_infos s). offset_in_torrent fi + fi_len fi \<le> length (fl_mmap s))
     \<and> (\<forall>i j. i < j \<longrightarrow> j < length (fl_file_infos s) \<longrightarrow>
          offset_in_torrent (fl_file_infos s ! i) + fi_len (fl_file_infos s ! i) \<le> offset_in_torrent (fl_file_infos s ! j))"

definition flat_view :: "flat_storage \<Rightarrow> nat \<Rightarrow> byte list option" where
  "flat_view s f =
     (if files_apart s \<and> f < length (fl_file_infos s)
      then Some (take (fi_len (fl_file_infos s ! f)) (drop (offset_in_torrent (fl_file_infos s ! f)) (fl_mmap s))) else None)"

lemma overwrite_inside:
  "a + off + length b \<le> a + n \<Longrightarrow> a + n \<le> length m \<Longrightarrow> take n (drop a (overwrite (a + off) b m)) = overwrite off b (take n (drop a m))"
  by (rule nth_equalityI) (auto simp: overwrite_nth)

lemma overwrite_outside:
  "off + length b \<le> length m \<Longrightarrow> a + n \<le> length m \<Longrightarrow> off + length b \<le> a \<or> a + n \<le> off \<Longrightarrow> take n (drop a (overwrite off b m)) = take n (drop a m)"
  by (rule nth_equalityI) (auto simp: overwrite_nth)

lemma flat_write:
  assumes v: "flat_view s f = Some c" and len: "off + length b \<le> length c"
  shows "\<exists>s'. flat_pwrite_all s f off b = (Inr (), s') \<and> flat_view s' = (flat_view s)(f \<mapsto> overwrite off b c)"
proof -
  let ?fi = "\<lambda>i. fl_file_infos s ! i"
  let ?m = "overwrite (offset_in_torrent (?fi f) + off) b (fl_mmap s)"
  have apart: "files_apart s" and f: "f < length (fl_file_infos s)"
      and c: "c = take (fi_len (?fi f)) (drop (offset_in_torrent (?fi f)) (fl_mmap s))"
    using v by (auto simp: flat_view_def split: if_splits)
  have bound: "offset_in_torrent (?fi i) + fi_len (?fi i) \<le> length (fl_mmap s)" if "i < length (fl_file_infos s)" for i
    using apart that by (simp add: files_apart_def)
  have fit: "offset_in_torrent (?fi f) + off + length b \<le> offset_in_torrent (?fi f) + fi_len (?fi f)" using len bound [OF f] by (simp add: c)
  then have fit': "offset_in_torrent (?fi f) + off + length b \<le> length (fl_mmap s)" using bound [OF f] by linarith
  then have w: "flat_pwrite_all s f off b = (Inr (), s\<lparr>fl_mmap := ?m\<rparr>)"
    using f by (simp add: flat_pwrite_all_def vec_index_def slice_put_def)
  have "files_apart (s\<lparr>fl_mmap := ?m\<rparr>)" using apart fit' by (simp add: files_apart_def)
  moreover have "take (fi_len (?fi i)) (drop (offset_in_torrent (?fi i)) ?m)
      = (if i = f then overwrite off b c else take (fi_len (?fi i)) (drop (offset_in_torrent (?fi i)) (fl_mmap s)))" if i: "i < length (fl_file_infos s)" for i
  proof (cases "i = f")
    case True
    then show ?thesis using overwrite_inside [OF fit bound [OF f]] by (simp add: c)
  next
    case False
    have "i < f \<Longrightarrow> offset_in_torrent (?fi i) + fi_len (?fi i) \<le> offset_in_torrent (?fi f)" "f < i \<Longrightarrow> offset_in_torrent (?fi f) + fi_len (?fi f) \<le> offset_in_torrent (?fi i)"
      using apart f i by (simp_all add: files_apart_def)
    then show ?thesis using overwrite_outside [OF fit' bound [OF i]] fit False by (cases "i < f") auto
  qed
  ultimately have "flat_view (s\<lparr>fl_mmap := ?m\<rparr>) = (flat_view s)(f \<mapsto> overwrite off b c)"
    using apart f by (auto simp: flat_view_def fun_eq_iff)
  then show ?thesis using w by blast
qed

interpretation flat: plain_storage flat_ops flat_view
proof
  fix s f c off n
  assume v: "flat_view s f = Some c" and len: "off + n \<le> length c"
  let ?o = "offset_in_torrent (fl_file_infos s ! f)" and ?l = "fi_len (fl_file_infos s ! f)"
  have f: "f < length (fl_file_infos s)" "?o + ?l \<le> length (fl_mmap s)" and c: "c = take ?l (drop ?o (fl_mmap s))"
    using v by (auto simp: flat_view_def files_apart_def split: if_splits)
  have fit: "off + n \<le> ?l" using len f(2) by (simp add: c)
  then have "n \<le> ?l - off" "?o + off + n \<le> length (fl_mmap s)" using f(2) by linarith+
  then show "so_pread_exact flat_ops s f off n = Inr (take n (drop off c))"
    using f(1) by (simp add: flat_ops_def flat_pread_exact_def vec_index_def slice_get_def c drop_take take_take min.absorb1 add.commute)
next
  fix s f c off and b :: "byte list"
  assume "flat_view s f = Some c" "off + length b \<le> length c"
  then show "\<exists>s'. so_pwrite_all flat_ops s f off b = (Inr (), s') \<and> flat_view s' = (flat_view s)(f \<mapsto> overwrite off b c)"
    using flat_write by (simp add: flat_ops_def)
qed (simp add: flat_ops_def)

subsection \<open>Pieces in memory\<close>

record inmem_storage =
  im_lengths :: lengths
  im_file_infos :: file_infos
  im_map :: "nat \<rightharpoonup> byte list"

definition inmem_new :: "lengths \<Rightarrow> file_infos \<Rightarrow> inmem_storage res" where
  "inmem_new L fis =
     (if default_piece_length L = 0 then Inl Panic
      else if 128 * 1024 * 1024 div default_piece_length L = 0 then Inl (Bail ''pieces too large'')
      else Inr \<lparr>im_lengths = L, im_file_infos = fis, im_map = Map.empty\<rparr>)"

definition inmem_locate :: "inmem_storage \<Rightarrow> nat \<Rightarrow> nat \<Rightarrow> (nat \<times> nat) res" where
  "inmem_locate s file_id offset =
     res_bind (vec_index (im_file_infos s) file_id) (\<lambda>fi.
       let abs_offset = offset_in_torrent fi + offset; piece_id = abs_offset div default_piece_length (im_lengths s) in
         if 2 ^ 32 \<le> piece_id then Inl (Bail ''out of range integral type conversion attempted'')
         else res_bind (ok_or (Bail ''bug'') (validate_piece_index (im_lengths s) piece_id)) (\<lambda>p.
           Inr (p, abs_offset mod default_piece_length (im_lengths s))))"

text \<open>A read of a piece that was not written fails; a range past the end of the piece panics.\<close>

definition inmem_pread_exact :: "inmem_storage \<Rightarrow> nat \<Rightarrow> nat \<Rightarrow> nat \<Rightarrow> byte list res" where
  "inmem_pread_exact s file_id offset n =
     res_bind (inmem_locate s file_id offset) (\<lambda>(piece_id, poff).
       res_bind (ok_or (Bail ''piece expired'') (im_map s piece_id)) (\<lambda>bytes. ok_or Panic (slice_get poff n bytes)))"

text \<open>The entry of the piece is made, with zeros, before the range is looked at.\<close>

definition inmem_pwrite_all :: "inmem_storage \<Rightarrow> nat \<Rightarrow> nat \<Rightarrow> byte list \<Rightarrow> unit res \<times> inmem_storage" where
  "inmem_pwrite_all s file_id offset buf =
     (case inmem_locate s file_id offset of
        Inl e \<Rightarrow> (Inl e, s)
      | Inr (piece_id, poff) \<Rightarrow>
        (let bytes = (case im_map s piece_id of Some b \<Rightarrow> b | None \<Rightarrow> replicate (default_piece_length (im_lengths s)) 0) in
           case slice_put poff buf bytes of
             None \<Rightarrow> (Inl Panic, s\<lparr>im_map := (im_map s)(piece_id \<mapsto> bytes)\<rparr>)
           | Some bytes' \<Rightarrow> (Inr (), s\<lparr>im_map := (im_map s)(piece_id \<mapsto> bytes')\<rparr>)))"

definition inmem_take :: "inmem_storage \<Rightarrow> inmem_storage res \<times> inmem_storage" where
  "inmem_take s = (Inr s, s\<lparr>im_map := Map.empty\<rparr>)"

lemma inmem_locate_map [simp]: "inmem_locate (s\<lparr>im_map := m\<rparr>) f off = inmem_locate s f off"
  by (simp add: inmem_locate_def Let_def cong: if_cong)

lemma inmem_write_then_read:
  assumes "inmem_pwrite_all s f off buf = (Inr (), s')"
  shows "inmem_pread_exact s' f off (length buf) = Inr buf"
    and "inmem_locate s f off = Inr (p, k) \<Longrightarrow> inmem_locate s g off2 = Inr (q, k2) \<Longrightarrow> q \<noteq> p \<Longrightarrow> inmem_pread_exact s' g off2 n = inmem_pread_exact s g off2 n"
  using assms
  by (auto simp: inmem_pwrite_all_def inmem_pread_exact_def slice_put_def slice_get_def overwrite_def Let_def split: sum.splits prod.splits option.splits if_splits)

lemma inmem_take_moves: "inmem_take s = (Inr t, s') \<Longrightarrow> inmem_pread_exact t = inmem_pread_exact s \<and> (\<forall>f off n b. inmem_pread_exact s' f off n \<noteq> Inr b)"
  by (auto simp: inmem_take_def inmem_pread_exact_def res_bind_eq_Inr)

end
