(* ===== verification/Spec2Isabelle.thy ===== *)
theory Spec2Isabelle
  imports Upnp Http_Stream Server Move_Completed Storage_Cache Read_Buf Create_Torrent Metadata_Reader Connect Watch Storage_More
begin

text \<open>
  A verification of librtbit, a BitTorrent client library in Rust (\<open>src/src/\<close>).

  \<^bold>\<open>The program.\<close> A session (\<open>session/\<close>) manages torrents. Each torrent is a state machine (\<open>torrent_state/mod.rs\<close>) that first checks
  the files on disk (\<open>initializing.rs\<close>), then is paused (\<open>paused.rs\<close>) or live (\<open>live/\<close>). A live torrent keeps a table of peers, a piece
  tracker that hands pieces to peers, over a chunk tracker that knows what is there, and the streams that read
  files while they are downloaded. For every connected peer a connection (\<open>peer_connection.rs\<close>) reads messages from the socket through a ring
  buffer (\<open>read_buf.rs\<close>) and calls the handler of the torrent (\<open>live/peer_handler.rs\<close>); blocks are written to the storage
  (\<open>file_ops.rs\<close>, \<open>storage/\<close>), and a piece counts only after its hash was checked. What was checked is remembered in bit field files
  (\<open>bitv.rs\<close>), what the session manages in a JSON file (\<open>session_persistence/\<close>). Connections are opened and
  accepted by \<open>stream_connect.rs\<close> and \<open>listen.rs\<close>; the metadata of a magnet link is looked for over many of them (\<open>dht_utils.rs\<close>). On
  top of the session are the API object (\<open>api.rs\<close>), the HTTP API with its router, handlers, authentication and an API
  compatible with qBittorrent (\<open>http_api/\<close>), the media server adapter (\<open>upnp_server_adapter.rs\<close>), the RSS monitor (\<open>rss/\<close>) and the watch folder
  (\<open>watch.rs\<close>).

  \<^bold>\<open>Conventions.\<close> A fallible function has a result of type \<open>'a res\<close> (\<open>Prelude\<close>): \<open>Inl\<close> an error, \<open>Inr\<close> a value. A panic of the Rust code is
  the error \<open>Panic\<close>, waiting forever is \<open>Diverges\<close>, so that no code path is left out. An operation with state is a function of
  type \<open>('s, 'a) sm\<close> from the state to a result and the new state. What runs between two points where the Rust code gives up a lock or
  awaits is one operation; tasks that run concurrently are inductive step relations (\<open>managed_step\<close>, \<open>live_activity\<close>, \<open>session_step\<close>
  and those of the trackers and the peer table) over these operations with arbitrary arguments, and \<open>reach\<close> (\<open>Prelude\<close>)
  are the states they lead to. Counters that wrap in Rust are \<open>64 word\<close>, or their modulus is written out; bytes are \<open>8 word\<close>.

  \<^bold>\<open>Parameters.\<close> Code that is not in the repository is an argument: the layout of pieces (\<open>Lengths\<close>), the wire codec, SHA-1, the
  operating system's files and sockets, the clock and random values, \<open>serde_json\<close>, the parsers of torrents, magnet links, URLs and
  regular expressions, the LRU cache, the interval tree, the rate limiter, feeds. What is assumed of them are named predicates (\<open>lengths_ok\<close>,
  \<open>lengths_bytes_ok\<close>, \<open>env_ok\<close>, \<open>json_codec_ok\<close>, \<open>parser_ok\<close>, \<open>conn_ok\<close>) or locales (\<open>os_files\<close>, \<open>lru_cache\<close>), each with an instance.

  \<^bold>\<open>Theories, bottom up.\<close>

  \<^item> \<open>Prelude\<close>: results, state functions, safety of state functions (\<open>safe\<close>, \<open>keeps\<close> with their rules), bit fields, lists with
    their index, reachable states and the locale \<open>invariant_system\<close>. \<open>Lengths\<close>, \<open>Wire\<close>: the external piece layout and the messages.

  \<^item> \<open>File_Info\<close>, \<open>Chunk_Tracker\<close>, \<open>Piece_Tracker\<close>: \<open>file_info.rs\<close>, \<open>chunk_tracker.rs\<close>, \<open>piece_tracker.rs\<close>, every method. Cached byte
    counts equal their recomputation, no subtraction underflows, a piece is in one of the states queued, in flight, being checked, had;
    every step refines the documented machine of one piece; who owns an acquired piece, and that a peer with a needed piece gets one.

  \<^item> \<open>Storage\<close>, \<open>File_Ops\<close>, \<open>Storage_Cache\<close>, \<open>Bitv_Files\<close>, \<open>Create_Torrent\<close>: the storage trait as a record of operations and a locale of its laws
    (\<open>torrent_storage\<close>), the file system storage as its instance, reading, writing and hashing across files against a flat view of the
    torrent's bytes, the write-through cache, crash safety of the bit field files, hashing of new torrents. \<open>Storage_More\<close>: the memory mapped
    storage, the example storages, and the timing and delaying middlewares. The locale \<open>plain_storage\<close> (a storage with the default vectored
    write) gives \<open>torrent_storage\<close>; a mapped torrent is checked as its files are.

  \<^item> \<open>Peers\<close>, \<open>Streaming\<close>, \<open>Live\<close>, \<open>Peer_Handler\<close>, \<open>Live_Safety\<close>, \<open>Peer_Lifecycle\<close>, \<open>Ip_Ranges\<close>, \<open>Limits\<close>, \<open>Tasks\<close>: \<open>torrent_state/live/\<close>,
    \<open>streaming.rs\<close>, \<open>ip_ranges.rs\<close>, \<open>limits.rs\<close>. Counters of the peer table are exact; the invariant \<open>live_ok\<close> of the whole live torrent is kept
    without panics by every message, callback and task round; a piece is recorded only after a matching hash of what is on disk; the number of
    requests in flight; what is left of a peer that died.

  \<^item> \<open>Read_Buf\<close>, \<open>Metadata_Reader\<close>, \<open>Peer_Connection\<close>: the ring buffer refines a byte queue and reading a message returns; metadata from a peer is
    delivered only with the right hash; the connection in both directions over any handler (locales \<open>connection_handler\<close> and
    \<open>safe_connection_handler\<close>, interpreted on the live torrent and on the metadata reader): no bytes of a peer break a torrent, and an
    upload sends exactly the block.

  \<^item> \<open>Initializing\<close>, \<open>Torrent_State\<close>: the check of existing files with fast resume; the torrent state machine with its lock, tokens and
    tasks: its documented transitions, and consistency of the torrent in every reachable state. Deletion, which leaves the state
    empty, is an operation of the session and takes the torrent out of it.

  \<^item> \<open>Paths\<close>, \<open>Session_Persistence\<close>, \<open>Session_Db\<close>, \<open>Session\<close>, \<open>Session_Safety\<close>, \<open>Move_Completed\<close>: \<open>session/\<close>, \<open>session_persistence/\<close>, \<open>category.rs\<close>.
    The session file survives crashes and restores what was stored (locale \<open>session_store\<close>); the two lookups of the database agree
    (locale \<open>torrent_index\<close>) under every interleaving; all torrents of a session are consistent; restarting gives the session back;
    incoming connections are checked; deletion; moving finished torrents loses nothing; default folders stay inside the session's folder.

  \<^item> \<open>Connect\<close>: the race of TCP and uTP as a step relation with its statistics, listening, and the search for the metadata: how connecting can
    end, that it ends, and that what is found has the right hash.

  \<^item> \<open>Http_Auth\<close>, \<open>Qbit\<close>, \<open>Qbit_Torrents\<close>: \<open>http_api/auth.rs\<close>, the authentication layer of \<open>http_api/mod.rs\<close>, and \<open>http_api/handlers/qbit_compat.rs\<close> over the
    session: its cookie sessions, actions, and what it shows of torrents.

  \<^item> \<open>Text\<close>, \<open>Api\<close>, \<open>Http_Handlers\<close>, \<open>Http_Stream\<close>, \<open>Http_Router\<close>: texts of numbers and ids, \<open>api.rs\<close>, the handlers of \<open>http_api/handlers/\<close> over the
    session, range requests on the stream of a file, and which routes exist: what a read-only server leaves untouched.
    \<open>Server\<close>: both APIs of the server together: what requests without credentials can do, and what read-only mode does not cover.

  \<^item> \<open>Upnp\<close>, \<open>Rss\<close>, \<open>Watch\<close>: the tree of files that the media server shows and how it is browsed; the tables of \<open>rss/db.rs\<close>, the monitor and its HTTP
    handlers over the session; the watch folder over the session.

  \<^bold>\<open>Loops.\<close> Loops over data are structural recursion or have a measure. No fuel is used. The reader of
  \<open>Read_Buf\<close>, whose end depends on the connection, is a partial function into \<open>option\<close>; \<open>read_message_terminates\<close> shows that it returns. The
  loops of the connection and of the tasks, which run as long as the peer or the torrent lives, are sequences of turns of any length.

  \<^bold>\<open>Where the code does not do what it means to\<close>, a theorem states what it does: a metadata request that panics, a stored bit field that
  is not validated, concurrent additions that get the same id, an unchecked folder name, an API that is open when credentials are only
  stored, a cache that hides data, an old password that still works, a race in refreshing tokens, and others beside the operation they concern.

  \<^bold>\<open>Not modelled.\<close> What sockets, DHT, local discovery, the UPnP protocol and uTP do inside: their crates. Merging of address streams and spawning of
  tasks (\<open>merge_streams.rs\<close>, \<open>spawn_utils.rs\<close>). The construction of these services in \<open>Session::new_with_opts\<close>. The Postgres store: SQL
  statements; those of SQLite for RSS are operations on lists of rows. Speed estimates, snapshots of statistics and serialisation of API
  responses: copies of counters. Parsing of feeds and regular expressions: parameters. Logging, command line and web front ends: outside
  the core. Unix is assumed where the code distinguishes operating systems; of the optional features those named above are on.
\<close>

end
